(* ===== verification/Prelude.thy ===== *)
theory Prelude
  imports Main "HOL-Library.Word"
begin

unbundle bit_operations_syntax

text \<open>
  Shared vocabulary of the development: machine integers at their Rust width, byte strings,
  Rust's \<open>Result\<close> and panics as sums, big-endian conversion, slices and in-place writes of
  a fixed buffer, and \<open>chunks(2)\<close>.

  A Rust panic (\<open>assert!\<close>, \<open>expect\<close>, a slice index out of range) and a returned
  \<open>Err\<close> are both values \<open>Inl e\<close>; \<open>ensure\<close> and \<open>and_then\<close> sequence the checks in the
  order of the source, and \<open>res_simps\<close> turns a successful run into the conjunction of all its
  checks.
\<close>

named_theorems res_simps \<open>successful runs of ensure and and_then\<close>
named_theorems slice_simps \<open>slices of byte strings\<close>

subsection \<open>Machine integers and byte strings\<close>

type_synonym u8 = "8 word"
type_synonym u16 = "16 word"
type_synonym u32 = "32 word"
type_synonym u64 = "64 word"
type_synonym u256 = "256 word"
type_synonym bytes = "u8 list"

subsection \<open>Results and panics\<close>

definition ensure :: "bool \<Rightarrow> 'e \<Rightarrow> 'e + 'a \<Rightarrow> 'e + 'a" where
  "ensure b e k = (if b then k else Inl e)"

definition and_then :: "'e + 'a \<Rightarrow> ('a \<Rightarrow> 'e + 'b) \<Rightarrow> 'e + 'b" where
  "and_then r f = (case r of Inl e \<Rightarrow> Inl e | Inr x \<Rightarrow> f x)"

text \<open>A loop over a slice whose body may panic, collecting the results in order.\<close>

fun try_map :: "('a \<Rightarrow> 'e + 'b) \<Rightarrow> 'a list \<Rightarrow> 'e + 'b list" where
  "try_map f [] = Inr []"
| "try_map f (x # xs) = and_then (f x) (\<lambda>y. and_then (try_map f xs) (\<lambda>ys. Inr (y # ys)))"

lemma ensure_True [simp]: "ensure True e k = k"
  by (simp add: ensure_def)

lemma ensure_False [simp]: "ensure False e k = Inl e"
  by (simp add: ensure_def)

lemma ensure_Inr [res_simps]: "ensure b e k = Inr r \<longleftrightarrow> b \<and> k = Inr r"
  by (simp add: ensure_def)

lemma ensure_Inl: "ensure b e k = Inl x \<longleftrightarrow> (if b then k = Inl x else x = e)"
  by (auto simp: ensure_def)

lemma and_then_Inr1 [simp]: "and_then (Inr x) f = f x"
  by (simp add: and_then_def)

lemma and_then_Inl1 [simp]: "and_then (Inl e) f = Inl e"
  by (simp add: and_then_def)

lemma and_then_Inr [res_simps]: "and_then m f = Inr r \<longleftrightarrow> (\<exists>x. m = Inr x \<and> f x = Inr r)"
  by (cases m) (simp_all add: and_then_def)

lemma try_map_Inr: "try_map f xs = Inr ys \<longleftrightarrow> list_all2 (\<lambda>x y. f x = Inr y) xs ys"
  by (induction xs arbitrary: ys) (auto simp: res_simps list_all2_Cons1)

lemma try_map_length: "try_map f xs = Inr ys \<Longrightarrow> length ys = length xs"
  by (auto simp: try_map_Inr dest: list_all2_lengthD)

lemma try_map_nth: "try_map f xs = Inr ys \<Longrightarrow> i < length xs \<Longrightarrow> f (xs ! i) = Inr (ys ! i)"
  by (auto simp: try_map_Inr dest: list_all2_nthD)

lemma try_map_total:
  "(\<And>x. x \<in> set xs \<Longrightarrow> f x = Inr (g x)) \<Longrightarrow> try_map f xs = Inr (map g xs)"
  by (induction xs) simp_all

lemma try_map_append:
  "try_map f (xs @ ys) =
     and_then (try_map f xs) (\<lambda>a. and_then (try_map f ys) (\<lambda>b. Inr (a @ b)))"
  by (induction xs) (simp_all add: and_then_def split: sum.splits)

subsection \<open>Checked arithmetic\<close>

definition checked_add :: "'a::len word \<Rightarrow> 'a word \<Rightarrow> 'a word option" where
  "checked_add a b = (if unat a + unat b < 2 ^ LENGTH('a) then Some (a + b) else None)"

definition checked_sub :: "'a::len word \<Rightarrow> 'a word \<Rightarrow> 'a word option" where
  "checked_sub a b = (if b \<le> a then Some (a - b) else None)"

definition expect :: "'a option \<Rightarrow> 'e \<Rightarrow> 'e + 'a" where
  "expect m e = (case m of None \<Rightarrow> Inl e | Some x \<Rightarrow> Inr x)"

lemma expect_Inr [res_simps]: "expect m e = Inr x \<longleftrightarrow> m = Some x"
  by (simp add: expect_def split: option.splits)

lemma checked_add_Some:
  fixes c :: "'a::len word"
  shows "checked_add a b = Some c \<longleftrightarrow> unat c = unat a + unat b"
proof (cases "unat a + unat b < 2 ^ LENGTH('a)")
  case True
  then show ?thesis by (auto simp: checked_add_def word_unat_eq_iff unat_word_ariths)
next
  case False
  then have "unat c \<noteq> unat a + unat b" by (metis unsigned_less)
  with False show ?thesis by (simp add: checked_add_def)
qed

lemma checked_sub_Some: "checked_sub a b = Some c \<longleftrightarrow> unat a = unat b + unat c"
  by (auto simp: checked_sub_def word_unat_eq_iff word_le_nat_alt unat_sub)

subsection \<open>Big-endian conversion\<close>

text \<open>
  \<open>be_bytes n v\<close> is \<open>v.to_be_bytes()\<close> for an integer of \<open>n\<close> bytes; \<open>of_be\<close> is the value
  of a byte string read most significant byte first.
\<close>

fun be_bytes :: "nat \<Rightarrow> nat \<Rightarrow> bytes" where
  "be_bytes 0 v = []"
| "be_bytes (Suc n) v = be_bytes n (v div 256) @ [word_of_nat (v mod 256)]"

definition of_be :: "bytes \<Rightarrow> nat" where
  "of_be bs = foldl (\<lambda>acc b. acc * 256 + unat b) 0 bs"

lemma of_be_Nil [simp]: "of_be [] = 0"
  by (simp add: of_be_def)

lemma of_be_snoc: "of_be (bs @ [b]) = of_be bs * 256 + unat b"
  by (simp add: of_be_def)

lemma length_be_bytes [simp]: "length (be_bytes n v) = n"
  by (induction n arbitrary: v) simp_all

lemma unat_less_pow: "unat (w :: 'a::len word) < 2 ^ LENGTH('a)"
  by (rule unsigned_less)

lemma unat_u8_less [simp]: "unat (b :: u8) < 256"
  using unat_less_pow [of b] by simp

lemma unat_of_nat_u8 [simp]: "unat (word_of_nat (v mod 256) :: u8) = v mod 256"
  by (simp add: unat_of_nat)

lemma of_be_less: "of_be bs < 256 ^ length bs"
proof (induction bs rule: rev_induct)
  case (snoc b bs)
  have "of_be bs * 256 + unat b < (of_be bs + 1) * 256"
    using unat_u8_less [of b] by (simp add: algebra_simps)
  also have "\<dots> \<le> 256 ^ length bs * 256"
    using snoc.IH by simp
  finally show ?case by (simp add: of_be_snoc)
qed simp

lemma of_be_be_bytes: "of_be (be_bytes n v) = v mod 256 ^ n"
proof (induction n arbitrary: v)
  case (Suc n)
  have "(v div 256 mod 256 ^ n) * 256 + v mod 256 = v mod (256 * 256 ^ n)"
    by (simp add: mod_mult2_eq)
  then show ?case by (simp add: of_be_snoc Suc.IH)
qed simp

lemma be_bytes_of_be: "length bs = n \<Longrightarrow> be_bytes n (of_be bs) = bs"
proof (induction bs arbitrary: n rule: rev_induct)
  case (snoc b bs)
  then show ?case
    by (cases n) (simp_all add: of_be_snoc)
qed simp

lemma of_be_inject: "length xs = length ys \<Longrightarrow> of_be xs = of_be ys \<longleftrightarrow> xs = ys"
  by (metis be_bytes_of_be)

lemma be_bytes_inject:
  "v < 256 ^ n \<Longrightarrow> w < 256 ^ n \<Longrightarrow> be_bytes n v = be_bytes n w \<longleftrightarrow> v = w"
  by (metis mod_less of_be_be_bytes)

lemma be_bytes_zero [simp]: "be_bytes n 0 = replicate n 0"
  by (induction n) (simp_all add: replicate_append_same)

lemma of_be_Cons: "of_be (b # bs) = unat b * 256 ^ length bs + of_be bs"
  by (induction bs rule: rev_induct)
    (simp_all add: of_be_snoc of_be_def algebra_simps flip: append_Cons)

lemma of_be_append: "of_be (xs @ ys) = of_be xs * 256 ^ length ys + of_be ys"
  by (induction xs) (simp_all add: of_be_Cons power_add algebra_simps)

lemma of_be_replicate_zero [simp]: "of_be (replicate n 0) = 0"
  by (induction n) (simp_all add: of_be_Cons)

text \<open>Fixed-width integers on the wire.\<close>

definition u16_to_be :: "u16 \<Rightarrow> bytes" where
  "u16_to_be w = be_bytes 2 (unat w)"

definition u32_to_be :: "u32 \<Rightarrow> bytes" where
  "u32_to_be w = be_bytes 4 (unat w)"

definition u64_to_be :: "u64 \<Rightarrow> bytes" where
  "u64_to_be w = be_bytes 8 (unat w)"

definition u256_to_be :: "u256 \<Rightarrow> bytes" where
  "u256_to_be w = be_bytes 32 (unat w)"

definition u16_from_be :: "bytes \<Rightarrow> u16" where
  "u16_from_be bs = word_of_nat (of_be bs)"

definition u32_from_be :: "bytes \<Rightarrow> u32" where
  "u32_from_be bs = word_of_nat (of_be bs)"

definition u64_from_be :: "bytes \<Rightarrow> u64" where
  "u64_from_be bs = word_of_nat (of_be bs)"

definition u256_from_be :: "bytes \<Rightarrow> u256" where
  "u256_from_be bs = word_of_nat (of_be bs)"

lemma length_uN_to_be [simp]:
  "length (u16_to_be a) = 2" "length (u32_to_be b) = 4"
  "length (u64_to_be c) = 8" "length (u256_to_be d) = 32"
  by (simp_all add: u16_to_be_def u32_to_be_def u64_to_be_def u256_to_be_def)

lemma uN_from_to_be [simp]:
  "u16_from_be (u16_to_be a) = a" "u32_from_be (u32_to_be b) = b"
  "u64_from_be (u64_to_be c) = c" "u256_from_be (u256_to_be d) = d"
  using unat_less_pow [of a] unat_less_pow [of b] unat_less_pow [of c] unat_less_pow [of d]
  by (simp_all add: u16_to_be_def u32_to_be_def u64_to_be_def u256_to_be_def
      u16_from_be_def u32_from_be_def u64_from_be_def u256_from_be_def of_be_be_bytes)

lemma unat_of_be_word:
  assumes "(256 :: nat) ^ length bs \<le> 2 ^ LENGTH('a)"
  shows "unat (word_of_nat (of_be bs) :: 'a::len word) = of_be bs"
proof -
  have "of_be bs < 2 ^ LENGTH('a)"
    using of_be_less [of bs] assms by simp
  then show ?thesis by (simp add: unat_of_nat take_bit_nat_eq_self)
qed

lemma unat_uN_from_be:
  "length bs = 2 \<Longrightarrow> unat (u16_from_be bs) = of_be bs"
  "length bs = 4 \<Longrightarrow> unat (u32_from_be bs) = of_be bs"
  "length bs = 8 \<Longrightarrow> unat (u64_from_be bs) = of_be bs"
  "length bs = 32 \<Longrightarrow> unat (u256_from_be bs) = of_be bs"
  by (simp_all add: u16_from_be_def u32_from_be_def u64_from_be_def u256_from_be_def
      unat_of_be_word)

lemma uN_to_from_be [simp]:
  "length bs = 2 \<Longrightarrow> u16_to_be (u16_from_be bs) = bs"
  "length bs = 4 \<Longrightarrow> u32_to_be (u32_from_be bs) = bs"
  "length bs = 8 \<Longrightarrow> u64_to_be (u64_from_be bs) = bs"
  "length bs = 32 \<Longrightarrow> u256_to_be (u256_from_be bs) = bs"
  by (simp_all add: u16_to_be_def u32_to_be_def u64_to_be_def u256_to_be_def
      unat_uN_from_be be_bytes_of_be)

subsection \<open>Slices and cursors\<close>

text \<open>\<open>slice xs a n\<close> is Rust's \<open>xs[a..a + n]\<close> where that index is in range.\<close>

definition slice :: "'a list \<Rightarrow> nat \<Rightarrow> nat \<Rightarrow> 'a list" where
  "slice xs a n = take n (drop a xs)"

lemma length_slice [simp]: "a + n \<le> length xs \<Longrightarrow> length (slice xs a n) = n"
  by (simp add: slice_def)

lemma slice_append_left [slice_simps]:
  "a + n \<le> length xs \<Longrightarrow> slice (xs @ ys) a n = slice xs a n"
  by (simp add: slice_def)

lemma slice_append_right [slice_simps]:
  "length xs \<le> a \<Longrightarrow> slice (xs @ ys) a n = slice ys (a - length xs) n"
  by (simp add: slice_def)

lemma slice_Cons [slice_simps]: "0 < a \<Longrightarrow> slice (x # xs) a n = slice xs (a - 1) n"
  by (cases a) (simp_all add: slice_def)

lemma slice_Cons_0 [slice_simps]: "slice (x # xs) 0 (Suc 0) = [x]"
  by (simp add: slice_def)

lemma slice_whole [slice_simps]: "length xs = n \<Longrightarrow> slice xs 0 n = xs"
  by (simp add: slice_def)

lemma slice_take: "a + n \<le> k \<Longrightarrow> slice (take k xs) a n = slice xs a n"
  by (simp add: slice_def take_drop min_def)

lemma take_eq_slice: "take n xs = slice xs 0 n"
  by (simp add: slice_def)

lemma slice_join: "b = a + n \<Longrightarrow> slice xs a n @ slice xs b m = slice xs a (n + m)"
  by (simp add: slice_def take_add add.commute [of a])

lemma slice_join_append:
  "b = a + n \<Longrightarrow> slice xs a n @ slice xs b m @ ys = slice xs a (n + m) @ ys"
  by (simp add: slice_join flip: append_assoc)

lemmas slice_joins = slice_join slice_join_append

subsection \<open>Pairs of consecutive elements\<close>

text \<open>\<open>chunks2\<close> is Rust's \<open>chunks(2)\<close>: the last chunk may hold a single element.\<close>

fun chunks2 :: "'a list \<Rightarrow> 'a list list" where
  "chunks2 [] = []"
| "chunks2 [x] = [[x]]"
| "chunks2 (x # y # zs) = [x, y] # chunks2 zs"

lemma length_chunks2: "length (chunks2 xs) = (length xs + 1) div 2"
  by (induction xs rule: chunks2.induct) simp_all

end
