(* ===== verification/Mina_Field.thy ===== *)
theory Mina_Field
  imports Prelude
begin

text \<open>
  The Mina base field (\<open>Fp\<close> of \<open>mina_curves::pasta\<close>, called \<open>StepField\<close> in the settlement
  guest) as the naturals below the Pasta modulus, its canonical 32-byte encoding, and the
  Poseidon sponge of the two guests (\<open>program/bridge/src/main.rs\<close> and
  \<open>program/settlement/src/receipt.rs\<close>).

  Two functions are parameters, collected in \<open>crypto\<close>: Keccak-256 (\<open>alloy_primitives\<close>, not
  part of the repository) and the Poseidon block cipher with its round constants.  Every theorem
  of the development holds for all instances of both unless it names what it needs of them.
\<close>

subsection \<open>The field\<close>

definition fp_modulus :: nat where
  "fp_modulus = 28948022309329048855892746252171976963363056481941560715954676764349967630337"

typedef fp = "{n :: nat. n < fp_modulus}"
  morphisms nat_of_fp Abs_fp
  by (rule exI [of _ 0]) (simp add: fp_modulus_def)

setup_lifting type_definition_fp

lemma fp_modulus_pos [simp]: "0 < fp_modulus"
  by (simp add: fp_modulus_def)

lemma fp_modulus_bounds: "2 ^ 254 < fp_modulus" "fp_modulus < 2 ^ 255"
  by (simp_all add: fp_modulus_def)

lemma nat_of_fp_less: "nat_of_fp x < fp_modulus"
  using nat_of_fp [of x] by simp

lift_definition fp_of_nat :: "nat \<Rightarrow> fp" is "\<lambda>n. n mod fp_modulus"
  by simp

instantiation fp :: comm_semiring_1
begin

lift_definition zero_fp :: fp is 0
  by simp

lift_definition one_fp :: fp is 1
  by (simp add: fp_modulus_def)

lift_definition plus_fp :: "fp \<Rightarrow> fp \<Rightarrow> fp" is "\<lambda>a b. (a + b) mod fp_modulus"
  by simp

lift_definition times_fp :: "fp \<Rightarrow> fp \<Rightarrow> fp" is "\<lambda>a b. a * b mod fp_modulus"
  by simp

instance
  by standard
    (transfer, simp add: mod_simps algebra_simps; simp add: fp_modulus_def)+

end

instantiation fp :: equal
begin

definition equal_fp :: "fp \<Rightarrow> fp \<Rightarrow> bool" where
  "equal_fp a b = (nat_of_fp a = nat_of_fp b)"

instance
  by standard (simp add: equal_fp_def nat_of_fp_inject)

end

lemma nat_of_fp_simps [simp]:
  "nat_of_fp (fp_of_nat n) = n mod fp_modulus"
  "nat_of_fp 0 = 0"
  "nat_of_fp 1 = 1"
  "nat_of_fp (a + b) = (nat_of_fp a + nat_of_fp b) mod fp_modulus"
  "nat_of_fp (a * b) = nat_of_fp a * nat_of_fp b mod fp_modulus"
  by (transfer, simp)+

lemma fp_of_nat_of_fp [simp]: "fp_of_nat (nat_of_fp x) = x"
  by transfer simp

lemma fp_eq_iff: "a = b \<longleftrightarrow> nat_of_fp a = nat_of_fp b"
  by (simp add: nat_of_fp_inject)

lemma fp_of_nat_0 [simp]: "fp_of_nat 0 = 0"
  by (simp add: fp_eq_iff)

lemma fp_of_nat_inject:
  "m < fp_modulus \<Longrightarrow> n < fp_modulus \<Longrightarrow> fp_of_nat m = fp_of_nat n \<longleftrightarrow> m = n"
  by (simp add: fp_eq_iff)

lemma unat_less_fp_modulus:
  "unat (a :: u8) < fp_modulus" "unat (b :: u32) < fp_modulus" "unat (c :: u64) < fp_modulus"
  using unat_less_pow [of b] unat_less_pow [of c]
  by (simp_all add: fp_modulus_def less_trans [OF unat_u8_less])

text \<open>\<open>Fp::from\<close> on unsigned integers of at most 64 bits.\<close>

definition fp_from_u8 :: "u8 \<Rightarrow> fp" where
  "fp_from_u8 w = fp_of_nat (unat w)"

definition fp_from_u32 :: "u32 \<Rightarrow> fp" where
  "fp_from_u32 w = fp_of_nat (unat w)"

definition fp_from_u64 :: "u64 \<Rightarrow> fp" where
  "fp_from_u64 w = fp_of_nat (unat w)"

definition fp_from_bool :: "bool \<Rightarrow> fp" where
  "fp_from_bool b = (if b then 1 else 0)"

lemma nat_of_fp_from [simp]:
  "nat_of_fp (fp_from_u8 a) = unat a"
  "nat_of_fp (fp_from_u32 b) = unat b"
  "nat_of_fp (fp_from_u64 c) = unat c"
  by (simp_all add: fp_from_u8_def fp_from_u32_def fp_from_u64_def unat_less_fp_modulus)

lemma fp_from_inject [simp]:
  "fp_from_u8 a = fp_from_u8 a' \<longleftrightarrow> a = a'"
  "fp_from_u32 b = fp_from_u32 b' \<longleftrightarrow> b = b'"
  "fp_from_u64 c = fp_from_u64 c' \<longleftrightarrow> c = c'"
  by (simp_all add: fp_eq_iff unsigned_word_eqI word_unat_eq_iff)

subsection \<open>Canonical bytes\<close>

text \<open>
  \<open>from_be_bytes_mod_order\<close> reduces; both guests then demand that writing the element back
  gives the bytes they read, so only the canonical representative is accepted.
\<close>

definition from_be_bytes_mod_order :: "bytes \<Rightarrow> fp" where
  "from_be_bytes_mod_order bs = fp_of_nat (of_be bs)"

definition from_le_bytes_mod_order :: "bytes \<Rightarrow> fp" where
  "from_le_bytes_mod_order bs = fp_of_nat (of_be (rev bs))"

text \<open>\<open>receipt.rs\<close>: \<open>into_bigint().to_bytes_be()\<close>, padded on the left to 32 bytes.\<close>

definition field_to_bytes :: "fp \<Rightarrow> bytes" where
  "field_to_bytes v =
     (let bs = be_bytes 32 (nat_of_fp v) in replicate (32 - length bs) 0 @ bs)"

definition field_from_bytes :: "bytes \<Rightarrow> string + fp" where
  "field_from_bytes bs =
     (let v = from_be_bytes_mod_order bs in
      ensure (field_to_bytes v = bs) ''non-canonical Mina field'' (Inr v))"

text \<open>\<open>main.rs\<close> of the bridge: \<open>serialize_uncompressed\<close> (little-endian), then reversed.\<close>

definition serialize_uncompressed :: "fp \<Rightarrow> bytes" where
  "serialize_uncompressed x = rev (be_bytes 32 (nat_of_fp x))"

definition fp_to_bytes :: "fp \<Rightarrow> bytes" where
  "fp_to_bytes x = rev (serialize_uncompressed x)"

definition fp_from_bytes :: "bytes \<Rightarrow> string + fp" where
  "fp_from_bytes bs =
     (let v = from_be_bytes_mod_order bs in
      ensure (fp_to_bytes v = bs) ''non-canonical Mina field'' (Inr v))"

lemma nat_of_fp_less_256: "nat_of_fp x < 256 ^ 32"
  using nat_of_fp_less [of x] by (simp add: fp_modulus_def)

lemma field_to_bytes_eq: "field_to_bytes v = be_bytes 32 (nat_of_fp v)"
  by (simp add: field_to_bytes_def Let_def)

lemma length_field_to_bytes [simp]: "length (field_to_bytes v) = 32"
  by (simp add: field_to_bytes_eq)

lemma of_be_field_to_bytes [simp]: "of_be (field_to_bytes v) = nat_of_fp v"
  using nat_of_fp_less_256 [of v] by (simp add: field_to_bytes_eq of_be_be_bytes)

lemma field_from_to_bytes [simp]: "field_from_bytes (field_to_bytes v) = Inr v"
  by (simp add: field_from_bytes_def from_be_bytes_mod_order_def)

lemma field_from_bytes_Inr: "field_from_bytes bs = Inr v \<longleftrightarrow> bs = field_to_bytes v"
  by (auto simp: field_from_bytes_def from_be_bytes_mod_order_def Let_def ensure_Inr)

lemma field_to_bytes_inject [simp]: "field_to_bytes a = field_to_bytes b \<longleftrightarrow> a = b"
  by (metis field_from_to_bytes sum.inject(2))

lemma field_from_bytes_cases:
  assumes "length bs = 32"
  shows "field_from_bytes bs =
    (if of_be bs < fp_modulus then Inr (fp_of_nat (of_be bs)) else Inl ''non-canonical Mina field'')"
proof -
  have "field_to_bytes (fp_of_nat (of_be bs)) = bs \<longleftrightarrow> of_be bs < fp_modulus"
  proof
    assume "field_to_bytes (fp_of_nat (of_be bs)) = bs"
    then have "of_be bs = of_be bs mod fp_modulus"
      by (metis nat_of_fp_simps(1) of_be_field_to_bytes)
    then show "of_be bs < fp_modulus"
      by (metis fp_modulus_pos mod_less_divisor)
  qed (simp add: field_to_bytes_eq be_bytes_of_be assms)
  then show ?thesis
    by (simp add: field_from_bytes_def from_be_bytes_mod_order_def ensure_def)
qed

lemma fp_to_bytes_eq: "fp_to_bytes = field_to_bytes"
  by (simp add: fun_eq_iff fp_to_bytes_def serialize_uncompressed_def field_to_bytes_eq)

lemma fp_from_bytes_eq: "fp_from_bytes = field_from_bytes"
  by (simp add: fun_eq_iff fp_from_bytes_def field_from_bytes_def fp_to_bytes_eq)

definition field_to_u32 :: "fp \<Rightarrow> string + u32" where
  "field_to_u32 v =
     (let bs = field_to_bytes v in
      ensure (list_all (\<lambda>b. b = 0) (take 28 bs)) ''field does not fit u32''
        (Inr (u32_from_be (drop 28 bs))))"

lemma take28_zero_iff:
  assumes "length bs = 32"
  shows "list_all (\<lambda>b. b = 0) (take 28 bs) \<longleftrightarrow> of_be bs < 2 ^ 32"
proof -
  have split: "of_be bs = of_be (take 28 bs) * 2 ^ 32 + of_be (drop 28 bs)"
    using of_be_append [of "take 28 bs" "drop 28 bs"] assms by simp
  have low: "of_be (drop 28 bs) < 2 ^ 32"
    using of_be_less [of "drop 28 bs"] assms by simp
  have "list_all (\<lambda>b. b = 0) (take 28 bs) \<longleftrightarrow> take 28 bs = replicate 28 0"
    using assms by (auto simp: list_all_length list_eq_iff_nth_eq)
  also have "\<dots> \<longleftrightarrow> of_be (take 28 bs) = 0"
    using of_be_inject [of "take 28 bs" "replicate 28 0"] assms by simp
  also have "\<dots> \<longleftrightarrow> of_be bs < 2 ^ 32"
    using split low by (cases "of_be (take 28 bs)") auto
  finally show ?thesis .
qed

lemma of_be_drop28:
  "length bs = 32 \<Longrightarrow> of_be bs < 2 ^ 32 \<Longrightarrow> of_be (drop 28 bs) = of_be bs"
  using of_be_append [of "take 28 bs" "drop 28 bs"] of_be_less [of "drop 28 bs"]
  by (cases "of_be (take 28 bs)") auto

lemma field_to_u32_Inr: "field_to_u32 v = Inr w \<longleftrightarrow> v = fp_from_u32 w"
proof -
  have "field_to_u32 v = Inr w \<longleftrightarrow>
      nat_of_fp v < 2 ^ 32 \<and> u32_from_be (drop 28 (field_to_bytes v)) = w"
    by (simp add: field_to_u32_def Let_def ensure_Inr take28_zero_iff)
  also have "\<dots> \<longleftrightarrow> nat_of_fp v < 2 ^ 32 \<and> unat w = nat_of_fp v"
    by (auto simp: word_unat_eq_iff unat_uN_from_be of_be_drop28)
  also have "\<dots> \<longleftrightarrow> v = fp_from_u32 w"
    using unat_less_pow [of w] by (auto simp: fp_eq_iff)
  finally show ?thesis .
qed

lemma field_to_u32_from_u32 [simp]: "field_to_u32 (fp_from_u32 w) = Inr w"
  by (simp add: field_to_u32_Inr)

subsection \<open>The Poseidon sponge\<close>

type_synonym sponge_state = "fp \<times> fp \<times> fp"

record crypto =
  keccak256 :: "bytes \<Rightarrow> bytes"
  block_cipher :: "sponge_state \<Rightarrow> sponge_state"

fun absorb :: "sponge_state \<Rightarrow> fp list \<Rightarrow> sponge_state" where
  "absorb (s0, s1, s2) [] = (s0, s1, s2)"
| "absorb (s0, s1, s2) [a] = (s0 + a, s1, s2)"
| "absorb (s0, s1, s2) (a # b # _) = (s0 + a, s1 + b, s2)"

definition poseidon_update :: "crypto \<Rightarrow> sponge_state \<Rightarrow> fp list \<Rightarrow> sponge_state" where
  "poseidon_update H st input =
     (if input = [] then block_cipher H st
      else foldl (\<lambda>s chunk. block_cipher H (absorb s chunk)) st (chunks2 input))"

definition bytes_of_string :: "string \<Rightarrow> bytes" where
  "bytes_of_string s = map (\<lambda>c. word_of_nat (of_char c)) s"

text \<open>
  The source asserts that a prefix is shorter than 32 bytes.  Every caller passes one of the
  literals below, so the assertion never fails (\<open>mina_prefixes_fit\<close>) and
  \<open>prefix_to_field\<close> has no failing branch.
\<close>

definition mina_prefixes :: "string list" where
  "mina_prefixes =
     [''Ethereum deposit V1'', ''Ethereum ERC20 deposit V2'', ''MinaZkappEvent******'',
      ''MinaZkappSeqEvents**'', ''MinaZkappActionsEmpty'', ''MainnetZkappBody****'',
      ''TestnetZkappBody****'', ''MinaAcctUpdateNode**'', ''MinaAcctUpdateCons**'',
      ''Zeko registry checkpoint V2'', ''Ethereum asset registry leaf V1'',
      ''Ethereum asset registry node V1'', ''Withdrawal_params - qFB3jXP*)'',
      ''Ethereum ERC20 withdrawal V2'']"

lemma mina_prefixes_fit: "\<forall>p \<in> set mina_prefixes. length p < 32"
  by (simp add: mina_prefixes_def)

definition prefix_to_field :: "string \<Rightarrow> fp" where
  "prefix_to_field prefix =
     (let bs = bytes_of_string prefix in
      from_le_bytes_mod_order (bs @ replicate (32 - length bs) 0))"

definition empty_hash_with_prefix :: "crypto \<Rightarrow> string \<Rightarrow> fp" where
  "empty_hash_with_prefix H prefix = fst (poseidon_update H (0, 0, 0) [prefix_to_field prefix])"

definition hash_with_prefix :: "crypto \<Rightarrow> string \<Rightarrow> fp list \<Rightarrow> fp" where
  "hash_with_prefix H prefix input =
     fst (poseidon_update H (poseidon_update H (0, 0, 0) [prefix_to_field prefix]) input)"

subsection \<open>A concrete instance\<close>

text \<open>
  A total instance of \<open>crypto\<close> that the kernel evaluates, for the witnesses: the second 32-byte
  word of the input instead of Keccak, and the identity instead of the block cipher.
\<close>

definition sample_keccak :: "bytes \<Rightarrow> bytes" where
  "sample_keccak xs = take 32 (drop 32 (xs @ replicate 64 0))"

definition sample_crypto :: crypto where
  "sample_crypto = \<lparr>keccak256 = sample_keccak, block_cipher = (\<lambda>s. s)\<rparr>"

lemma length_sample_keccak [simp]: "length (sample_keccak xs) = 32"
  by (simp add: sample_keccak_def)

lemma sample_keccak_second:
  "length d = 32 \<Longrightarrow> length l = 32 \<Longrightarrow> sample_keccak (d @ l @ r) = l"
  by (simp add: sample_keccak_def)

lemma sample_crypto_simps [simp]:
  "keccak256 sample_crypto = sample_keccak" "block_cipher sample_crypto s = s"
  by (simp_all add: sample_crypto_def)

end
