(* ===== verification/Merkle.thy ===== *)
theory Merkle
  imports Prelude
begin

text \<open>
  Binary Merkle trees over an arbitrary two-to-one node function.  The program has three: the
  inner-action tree (Keccak, depth 16, padded with zero hashes), the asset-registry tree
  (Poseidon, depth 8) and the asset-record batch tree (Keccak, depth 8).  This theory holds what
  they share: a reference root of a full tree, one level of bottom-up hashing, the root that a
  leaf and a sibling path imply, and the contract (\<open>merkle_node\<close>) under which a path determines
  its leaf.
\<close>

subsection \<open>The reference tree\<close>

fun perfect_root :: "('h \<Rightarrow> 'h \<Rightarrow> 'h) \<Rightarrow> nat \<Rightarrow> 'h list \<Rightarrow> 'h" where
  "perfect_root node 0 xs = hd xs"
| "perfect_root node (Suc d) xs =
     node (perfect_root node d (take (2 ^ d) xs)) (perfect_root node d (drop (2 ^ d) xs))"

fun pairs :: "('h \<Rightarrow> 'h \<Rightarrow> 'h) \<Rightarrow> 'h list \<Rightarrow> 'h list" where
  "pairs node (x # y # zs) = node x y # pairs node zs"
| "pairs node _ = []"

fun path_root :: "('h \<Rightarrow> 'h \<Rightarrow> 'h) \<Rightarrow> 'h \<Rightarrow> nat \<Rightarrow> 'h list \<Rightarrow> 'h" where
  "path_root node leaf i [] = leaf"
| "path_root node leaf i (s # ss) =
     path_root node (if even i then node leaf s else node s leaf) (i div 2) ss"

text \<open>The inputs of the node hashes along a path.\<close>

fun path_inputs ::
  "('h \<Rightarrow> 'h \<Rightarrow> 'h) \<Rightarrow> ('h \<Rightarrow> 'h \<Rightarrow> 'p) \<Rightarrow> 'h \<Rightarrow> nat \<Rightarrow> 'h list \<Rightarrow> 'p list" where
  "path_inputs node enc leaf i [] = []"
| "path_inputs node enc leaf i (s # ss) =
     (if even i then enc leaf s else enc s leaf) #
     path_inputs node enc (if even i then node leaf s else node s leaf) (i div 2) ss"

text \<open>One level of bottom-up hashing, a missing right child replaced by \<open>pad\<close>.\<close>

definition pad_level :: "('h \<Rightarrow> 'h \<Rightarrow> 'h) \<Rightarrow> 'h \<Rightarrow> 'h list \<Rightarrow> 'h list" where
  "pad_level node pad xs =
     map (\<lambda>pair. node (pair ! 0) (if 1 < length pair then pair ! 1 else pad)) (chunks2 xs)"

lemma length_pairs: "length (pairs node xs) = length xs div 2"
  by (induction node xs rule: pairs.induct) simp_all

lemma pairs_take: "pairs node (take (2 * m) xs) = take m (pairs node xs)"
proof (induction m arbitrary: xs)
  case (Suc m)
  show ?case
  proof (cases xs)
    case (Cons x ys)
    then show ?thesis by (cases ys) (simp_all add: Suc.IH)
  qed simp
qed simp

lemma pairs_drop: "pairs node (drop (2 * m) xs) = drop m (pairs node xs)"
proof (induction m arbitrary: xs)
  case (Suc m)
  show ?case
  proof (cases xs)
    case (Cons x ys)
    then show ?thesis by (cases ys) (simp_all add: Suc.IH)
  qed simp
qed simp

lemma perfect_root_pairs:
  "length xs = 2 ^ Suc d \<Longrightarrow> perfect_root node (Suc d) xs = perfect_root node d (pairs node xs)"
proof (induction d arbitrary: xs)
  case 0
  then obtain a b where "xs = [a, b]"
    by (auto simp: length_Suc_conv numeral_2_eq_2)
  then show ?case by simp
next
  case (Suc d)
  have "length (take (2 ^ Suc d) xs) = 2 ^ Suc d" "length (drop (2 ^ Suc d) xs) = 2 ^ Suc d"
    using Suc.prems by simp_all
  from this [THEN Suc.IH] show ?case
    by (simp del: perfect_root.simps(2)
        add: perfect_root.simps(2) [of node "Suc d"] perfect_root.simps(2) [of node d "pairs node xs"]
          pairs_take pairs_drop)
qed

lemma length_pad_level: "length (pad_level node pad xs) = (length xs + 1) div 2"
  by (simp add: pad_level_def length_chunks2)

lemma pad_level_nth:
  "i < length xs \<Longrightarrow> pad_level node pad xs ! (i div 2) =
     (let j = i - i mod 2; k = Suc j in node (xs ! j) (if k < length xs then xs ! k else pad))"
proof (induction xs arbitrary: i rule: chunks2.induct)
  case (2 x)
  then show ?case by (simp add: pad_level_def Let_def)
next
  case (3 x y zs)
  show ?case
  proof (cases "i < 2")
    case True
    then have "i = 0 \<or> i = 1" by auto
    then show ?thesis by (auto simp: pad_level_def Let_def)
  next
    case False
    then obtain j where j: "i = Suc (Suc j)"
      by (metis add_2_eq_Suc le_Suc_ex not_less)
    have "j mod 2 \<le> j" by simp
    then show ?thesis
      using "3.IH" [of j] "3.prems" j
      by (simp add: pad_level_def Let_def Suc_diff_le)
  qed
qed simp

lemma pairs_pad_level:
  "pairs node (xs @ replicate (2 * m - length xs) z) =
     pad_level node z xs @ replicate (m - (length xs + 1) div 2) (node z z)"
  if "length xs \<le> 2 * m"
  using that
proof (induction xs arbitrary: m rule: chunks2.induct)
  case 1
  have "pairs node (replicate (2 * m) z) = replicate m (node z z)"
    by (induction m) simp_all
  then show ?case by (simp add: pad_level_def)
next
  case (2 x)
  then obtain k where k: "m = Suc k" by (cases m) simp_all
  have "pairs node (replicate (2 * k) z) = replicate k (node z z)"
    by (induction k) simp_all
  then show ?case using k by (simp add: pad_level_def)
next
  case (3 x y zs)
  then obtain k where "m = Suc k" by (cases m) simp_all
  with "3.IH" [of k] "3.prems" show ?case by (simp add: pad_level_def)
qed

text \<open>
  Hashing level by level with the right padding at each level computes the root of the full
  tree over the padded leaves.
\<close>

fun zero_ladder :: "('h \<Rightarrow> 'h \<Rightarrow> 'h) \<Rightarrow> nat \<Rightarrow> 'h \<Rightarrow> 'h list" where
  "zero_ladder node 0 z = []"
| "zero_ladder node (Suc d) z = z # zero_ladder node d (node z z)"

lemma length_zero_ladder [simp]: "length (zero_ladder node d z) = d"
  by (induction d arbitrary: z) simp_all

lemma foldl_pad_level:
  assumes "length xs \<le> 2 ^ d"
  shows "xs \<noteq> [] \<Longrightarrow> foldl (\<lambda>ns z. pad_level node z ns) xs (zero_ladder node d z) =
    [perfect_root node d (xs @ replicate (2 ^ d - length xs) z)]"
  using assms
proof (induction d arbitrary: xs z)
  case 0
  then show ?case by (cases xs) simp_all
next
  case (Suc d)
  let ?ys = "pad_level node z xs"
  let ?full = "xs @ replicate (2 ^ Suc d - length xs) z"
  have len: "length ?ys = (length xs + 1) div 2" by (rule length_pad_level)
  have "0 < length xs" using Suc.prems(1) by simp
  with len have "0 < length ?ys" by linarith
  then have ne: "?ys \<noteq> []" by auto
  have le: "length ?ys \<le> 2 ^ d" using len Suc.prems(2) by simp
  have "perfect_root node (Suc d) ?full = perfect_root node d (pairs node ?full)"
    using Suc.prems by (intro perfect_root_pairs) simp
  also have "pairs node ?full = ?ys @ replicate (2 ^ d - length ?ys) (node z z)"
    using pairs_pad_level [of xs "2 ^ d" node z] Suc.prems len by simp
  finally show ?case
    using Suc.IH [OF ne le, of "node z z"] by simp
qed

subsection \<open>Authentication paths\<close>

fun proof_path :: "('h \<Rightarrow> 'h \<Rightarrow> 'h) \<Rightarrow> 'h list \<Rightarrow> 'h list \<Rightarrow> nat \<Rightarrow> 'h list" where
  "proof_path node [] nodes i = []"
| "proof_path node (z # zs) nodes i =
     (let sib = (if even i then Suc i else i - 1) in
      (if sib < length nodes then nodes ! sib else z) #
      proof_path node zs (pad_level node z nodes) (i div 2))"

lemma length_proof_path [simp]: "length (proof_path node zs nodes i) = length zs"
  by (induction zs arbitrary: nodes i) (simp_all add: Let_def)

lemma path_root_proof_path:
  assumes "i < length nodes"
  shows "path_root node (nodes ! i) i (proof_path node zs nodes i) =
    foldl (\<lambda>ns z. pad_level node z ns) nodes zs ! (i div 2 ^ length zs)"
  using assms
proof (induction zs arbitrary: nodes i)
  case (Cons z zs)
  let ?up = "pad_level node z nodes"
  let ?sib = "if even i then Suc i else i - 1"
  let ?s = "if ?sib < length nodes then nodes ! ?sib else z"
  have up: "?up ! (i div 2) =
      (if even i then node (nodes ! i) ?s else node ?s (nodes ! i))"
  proof (cases "even i")
    case True
    then show ?thesis
      by (simp add: pad_level_nth Cons.prems Let_def even_iff_mod_2_eq_zero)
  next
    case False
    then have "0 < i" "i mod 2 = 1" by (auto simp: odd_iff_mod_2_eq_one odd_pos)
    moreover from this have "i - 1 < length nodes" using Cons.prems by simp
    ultimately show ?thesis
      using Cons.prems False by (simp add: pad_level_nth Let_def)
  qed
  have "i div 2 < length ?up"
    using Cons.prems by (auto simp: length_pad_level)
  from Cons.IH [OF this] up show ?case
    by (simp add: Let_def div_mult2_eq)
qed simp

text \<open>
  The siblings of a position in a full tree, and the update of a leaf: along these siblings a new
  leaf implies the root of the updated tree.
\<close>

fun tree_path :: "('h \<Rightarrow> 'h \<Rightarrow> 'h) \<Rightarrow> nat \<Rightarrow> 'h list \<Rightarrow> nat \<Rightarrow> 'h list" where
  "tree_path node 0 t i = []"
| "tree_path node (Suc d) t i =
     t ! (if even i then Suc i else i - 1) # tree_path node d (pairs node t) (i div 2)"

lemma length_tree_path [simp]: "length (tree_path node d t i) = d"
  by (induction d arbitrary: t i) simp_all

lemma pairs_update:
  assumes "i < length t" "even (length t)"
  shows "pairs node (t[i := x]) = (pairs node t)
    [i div 2 := if even i then node x (t ! Suc i) else node (t ! (i - 1)) x]"
  using assms
proof (induction t arbitrary: i rule: chunks2.induct)
  case (3 a b t)
  show ?case
  proof (cases "i < 2")
    case True
    then have "i = 0 \<or> i = 1" by auto
    then show ?thesis by auto
  next
    case False
    then obtain j where "i = Suc (Suc j)" by (metis add_2_eq_Suc le_Suc_ex not_less)
    moreover from this have "odd j \<Longrightarrow> 0 < j" by (simp add: odd_pos)
    ultimately show ?thesis using "3.IH" [of j] "3.prems" by auto
  qed
qed simp_all

lemma path_root_update:
  assumes "length t = 2 ^ d" "i < 2 ^ d"
  shows "path_root node x i (tree_path node d t i) = perfect_root node d (t[i := x])"
  using assms
proof (induction d arbitrary: t i x)
  case 0
  then show ?case by (cases t) simp_all
next
  case (Suc d)
  have "perfect_root node (Suc d) (t[i := x]) = perfect_root node d (pairs node (t[i := x]))"
    using Suc.prems by (intro perfect_root_pairs) simp
  also have "\<dots> = perfect_root node d ((pairs node t)
      [i div 2 := if even i then node x (t ! Suc i) else node (t ! (i - 1)) x])"
    using Suc.prems by (simp add: pairs_update)
  also have "\<dots> = path_root node (if even i then node x (t ! Suc i) else node (t ! (i - 1)) x) (i div 2)
      (tree_path node d (pairs node t) (i div 2))"
    using Suc.prems by (intro Suc.IH [symmetric]) (auto simp: length_pairs)
  finally show ?case by simp
qed

subsection \<open>The contract of a Merkle node\<close>

text \<open>
  A node hashes an encoding of its two children, and the encoding is injective on well-formed
  children.  Then a path, an index and a root determine the leaf and the siblings, unless two of
  the inputs hashed along the two paths collide.
\<close>

locale merkle_node =
  fixes node :: "'h \<Rightarrow> 'h \<Rightarrow> 'h"
    and hash :: "'p \<Rightarrow> 'h"
    and enc :: "'h \<Rightarrow> 'h \<Rightarrow> 'p"
    and wf :: "'h \<Rightarrow> bool"
  assumes node_hash: "node l r = hash (enc l r)"
    and enc_inject:
      "wf l \<Longrightarrow> wf r \<Longrightarrow> wf l' \<Longrightarrow> wf r' \<Longrightarrow> enc l r = enc l' r' \<Longrightarrow> l = l' \<and> r = r'"
begin

lemma path_determines_leaf:
  assumes "length p = length q" and "path_root node a i p = path_root node b i q"
    and "inj_on hash (set (path_inputs node enc a i p) \<union> set (path_inputs node enc b i q))"
    and "wf a" "wf b" "list_all wf p" "list_all wf q" and wf_hash: "\<And>x. wf (hash x)"
  shows "a = b \<and> p = q"
  using assms(1-7)
proof (induction p q arbitrary: a b i rule: list_induct2)
  case (Cons s ss t ts)
  define a' where "a' = (if even i then node a s else node s a)"
  define b' where "b' = (if even i then node b t else node t b)"
  have wf': "wf a'" "wf b'" by (simp_all add: a'_def b'_def node_hash wf_hash)
  have inj: "inj_on hash (set (path_inputs node enc a' (i div 2) ss) \<union>
      set (path_inputs node enc b' (i div 2) ts))"
    using Cons.prems(2) by (rule inj_on_subset) (auto simp: a'_def b'_def)
  have eq: "a' = b'" and tl: "ss = ts"
    using Cons.IH [of a' "i div 2" b'] Cons.prems inj wf' by (simp_all add: a'_def b'_def)
  let ?x = "if even i then enc a s else enc s a"
  let ?y = "if even i then enc b t else enc t b"
  have "hash ?x = hash ?y"
    using eq by (simp add: a'_def b'_def node_hash split: if_splits)
  then have "?x = ?y"
    by (rule inj_onD [OF Cons.prems(2)]) simp_all
  then show ?case
    using Cons.prems enc_inject [of a s b t] enc_inject [of s a t b] tl
    by (auto split: if_splits)
qed simp

text \<open>
  An append: when the old root is that of a full tree and a path authenticates the leaf \<open>z\<close> at a
  position under it, then the tree holds \<open>z\<close> there, and the same path with a new leaf implies the
  root of the tree with that leaf replaced.
\<close>

lemma path_append:
  assumes t: "length t = 2 ^ d" "i < 2 ^ d" and p: "length p = d"
    and old: "path_root node z i p = perfect_root node d t"
    and inj: "inj_on hash (set (path_inputs node enc z i p) \<union>
      set (path_inputs node enc (t ! i) i (tree_path node d t i)))"
    and wfs: "wf z" "list_all wf t" "list_all wf p" and wf_hash: "\<And>x. wf (hash x)"
  shows "t ! i = z \<and> path_root node x i p = perfect_root node d (t[i := x])"
proof -
  have pairs_wf: "list_all wf (pairs node u)" for u
    by (induction u rule: chunks2.induct) (simp_all add: node_hash wf_hash)
  have "list_all wf (tree_path node d u j)" if "length u = 2 ^ d" "j < 2 ^ d" "list_all wf u" for u j
    using that
  proof (induction d arbitrary: u j)
    case (Suc d)
    have "(if even j then Suc j else j - 1) < length u" using Suc.prems by (auto elim!: evenE)
    then have "wf (u ! (if even j then Suc j else j - 1))"
      using Suc.prems(3) unfolding list_all_length by blast
    then show ?case
      using Suc.IH [of "pairs node u" "j div 2"] Suc.prems by (simp add: pairs_wf length_pairs)
  qed simp
  then have wf_path: "list_all wf (tree_path node d t i)" using t wfs(2) by blast
  have "wf (t ! i)" using t wfs(2) by (simp add: list_all_length)
  moreover have "path_root node z i p = path_root node (t ! i) i (tree_path node d t i)"
    using t old by (simp add: path_root_update)
  ultimately have "z = t ! i \<and> p = tree_path node d t i"
    using wfs wf_path p inj wf_hash by (intro path_determines_leaf) simp_all
  then show ?thesis using t by (simp add: path_root_update)
qed

end

end
