(* ===== verification/Inner_Action_Tree.thy ===== *)
theory Inner_Action_Tree
  imports Mina_Field Merkle
begin

text \<open>
  The module \<open>inner_action_commitment\<close> of \<open>lib/src/lib.rs\<close>: the Keccak leaves of inner actions
  (native withdrawal, ERC-20 withdrawal, raw action), the depth-16 tree the settlement receipt
  commits to, and the Merkle proofs that withdrawal claims carry.
\<close>

definition TREE_DEPTH :: nat where
  "TREE_DEPTH = 16"

definition MAX_LEAVES :: nat where
  "MAX_LEAVES = push_bit TREE_DEPTH 1"

lemma MAX_LEAVES_eq [simp]: "MAX_LEAVES = 65536"
  by (simp add: MAX_LEAVES_def TREE_DEPTH_def)

definition ERC20_ACTION_ENCODING_V2 :: u32 where
  "ERC20_ACTION_ENCODING_V2 = 2"

text \<open>Addresses are 20-byte and hashes 32-byte strings; Rust's array types become \<open>wf\<close> predicates.\<close>

record native_withdrawal =
  nw_recipient :: bytes
  nw_amount :: u64

record token_withdrawal =
  tw_encoding_version :: u32
  tw_registry_index :: u32
  tw_record_commitment :: bytes
  tw_token :: bytes
  tw_asset_id :: bytes
  tw_recipient :: bytes
  tw_amount :: u64
  tw_params_fields :: "bytes list"

record inner_action_witness =
  iw_fields :: "bytes list"
  iw_withdrawal :: "native_withdrawal option"
  iw_token_withdrawal :: "token_withdrawal option"

record inner_action_batch_witness =
  ib_bridge_address :: bytes
  ib_actions :: "inner_action_witness list"

definition wf_native_withdrawal :: "native_withdrawal \<Rightarrow> bool" where
  "wf_native_withdrawal w \<longleftrightarrow> length (nw_recipient w) = 20"

definition wf_token_withdrawal :: "token_withdrawal \<Rightarrow> bool" where
  "wf_token_withdrawal w \<longleftrightarrow> length (tw_record_commitment w) = 32 \<and> length (tw_token w) = 20 \<and>
     length (tw_asset_id w) = 32 \<and> length (tw_recipient w) = 20 \<and>
     list_all (\<lambda>f. length f = 32) (tw_params_fields w)"

subsection \<open>Words\<close>

definition u64_word :: "u64 \<Rightarrow> bytes" where
  "u64_word v = replicate 24 0 @ u64_to_be v"

definition u32_word :: "u32 \<Rightarrow> bytes" where
  "u32_word v = replicate 28 0 @ u32_to_be v"

definition address_word :: "bytes \<Rightarrow> bytes" where
  "address_word a = replicate 12 0 @ a"

lemma length_words [simp]:
  "length (u64_word v) = 32" "length (u32_word w) = 32"
  "length a = 20 \<Longrightarrow> length (address_word a) = 32"
  by (simp_all add: u64_word_def u32_word_def address_word_def)

lemma words_inject [simp]:
  "u64_word v = u64_word v' \<longleftrightarrow> v = v'"
  "u32_word w = u32_word w' \<longleftrightarrow> w = w'"
  "address_word a = address_word a' \<longleftrightarrow> a = a'"
  by (auto simp: u64_word_def u32_word_def address_word_def dest: arg_cong [of _ _ u64_from_be]
      arg_cong [of _ _ u32_from_be])

subsection \<open>Leaves\<close>

definition keccak_str :: "crypto \<Rightarrow> string \<Rightarrow> bytes" where
  "keccak_str H s = keccak256 H (bytes_of_string s)"

definition action_fields_hash :: "crypto \<Rightarrow> bytes list \<Rightarrow> string + bytes" where
  "action_fields_hash H fs =
     ensure (length fs < 2 ^ 32) ''field count fits u32''
       (Inr (keccak256 H
          (keccak_str H ''ZEKO_INNER_ACTION_FIELDS_V2'' @
           u32_word (word_of_nat (length fs)) @ concat fs)))"

definition native_withdrawal_preimage ::
  "crypto \<Rightarrow> u64 \<Rightarrow> bytes \<Rightarrow> u32 \<Rightarrow> native_withdrawal \<Rightarrow> bytes \<Rightarrow> bytes" where
  "native_withdrawal_preimage H chain_id bridge_address global_index withdrawal fields_hash =
     keccak_str H ''ZEKO_NATIVE_WITHDRAWAL_LEAF_V2'' @
     u64_word chain_id @
     address_word bridge_address @
     u32_word global_index @
     address_word (nw_recipient withdrawal) @
     u64_word (nw_amount withdrawal) @
     fields_hash"

definition native_withdrawal_leaf ::
  "crypto \<Rightarrow> u64 \<Rightarrow> bytes \<Rightarrow> u32 \<Rightarrow> native_withdrawal \<Rightarrow> bytes \<Rightarrow> bytes" where
  "native_withdrawal_leaf H chain_id bridge_address global_index withdrawal fields_hash =
     keccak256 H (native_withdrawal_preimage H chain_id bridge_address global_index withdrawal
       fields_hash)"

definition erc20_withdrawal_preimage ::
  "crypto \<Rightarrow> u64 \<Rightarrow> bytes \<Rightarrow> u32 \<Rightarrow> token_withdrawal \<Rightarrow> bytes \<Rightarrow> bytes" where
  "erc20_withdrawal_preimage H chain_id bridge_address global_index withdrawal fields_hash =
     keccak_str H ''ZEKO_ERC20_WITHDRAWAL_LEAF_V4'' @
     u64_word chain_id @
     address_word bridge_address @
     u32_word global_index @
     address_word (tw_token withdrawal) @
     u32_word (tw_encoding_version withdrawal) @
     u32_word (tw_registry_index withdrawal) @
     tw_record_commitment withdrawal @
     tw_asset_id withdrawal @
     address_word (tw_recipient withdrawal) @
     u64_word (tw_amount withdrawal) @
     fields_hash"

definition erc20_withdrawal_leaf ::
  "crypto \<Rightarrow> u64 \<Rightarrow> bytes \<Rightarrow> u32 \<Rightarrow> token_withdrawal \<Rightarrow> bytes \<Rightarrow> string + bytes" where
  "erc20_withdrawal_leaf H chain_id bridge_address global_index withdrawal fields_hash =
     ensure (tw_encoding_version withdrawal = ERC20_ACTION_ENCODING_V2)
       ''unsupported ERC20 withdrawal encoding version''
       (Inr (keccak256 H (erc20_withdrawal_preimage H chain_id bridge_address global_index
          withdrawal fields_hash)))"

definition raw_inner_action_preimage :: "crypto \<Rightarrow> u64 \<Rightarrow> bytes \<Rightarrow> u32 \<Rightarrow> bytes \<Rightarrow> bytes" where
  "raw_inner_action_preimage H chain_id bridge_address global_index fields_hash =
     keccak_str H ''ZEKO_RAW_INNER_ACTION_LEAF_V2'' @
     u64_word chain_id @
     address_word bridge_address @
     u32_word global_index @
     fields_hash"

definition raw_inner_action_leaf :: "crypto \<Rightarrow> u64 \<Rightarrow> bytes \<Rightarrow> u32 \<Rightarrow> bytes \<Rightarrow> bytes" where
  "raw_inner_action_leaf H chain_id bridge_address global_index fields_hash =
     keccak256 H (raw_inner_action_preimage H chain_id bridge_address global_index fields_hash)"

subsection \<open>The tree\<close>

definition node_preimage :: "crypto \<Rightarrow> bytes \<Rightarrow> bytes \<Rightarrow> bytes" where
  "node_preimage H left right = keccak_str H ''ZEKO_INNER_ACTION_NODE_V2'' @ left @ right"

definition hash_node :: "crypto \<Rightarrow> bytes \<Rightarrow> bytes \<Rightarrow> bytes" where
  "hash_node H left right = keccak256 H (node_preimage H left right)"

definition zero_hashes :: "crypto \<Rightarrow> bytes list" where
  "zero_hashes H =
     foldl (\<lambda>hashes level. hashes[level + 1 := hash_node H (hashes ! level) (hashes ! level)])
       (replicate (TREE_DEPTH + 1) (replicate 32 0)) [0..<TREE_DEPTH]"

definition tree_level :: "crypto \<Rightarrow> bytes \<Rightarrow> bytes list \<Rightarrow> bytes list" where
  "tree_level H zero_hash nodes =
     map (\<lambda>pair. hash_node H (pair ! 0) (if 1 < length pair then pair ! 1 else zero_hash))
       (chunks2 nodes)"

definition root :: "crypto \<Rightarrow> bytes list \<Rightarrow> string + bytes" where
  "root H leaves =
     ensure (length leaves \<le> MAX_LEAVES) ''inner action tree exceeds capacity''
       (if leaves = [] then Inr (zero_hashes H ! TREE_DEPTH)
        else (let nodes = foldl (\<lambda>nodes zero_hash. tree_level H zero_hash nodes) leaves
                            (take TREE_DEPTH (zero_hashes H)) in
              ensure (length nodes = 1) ''invalid inner action tree'' (Inr (nodes ! 0))))"

fun merkle_proof_loop ::
  "crypto \<Rightarrow> bytes list \<Rightarrow> nat list \<Rightarrow> bytes list \<Rightarrow> nat \<Rightarrow> bytes list" where
  "merkle_proof_loop H zs [] nodes index = []"
| "merkle_proof_loop H zs (level # levels) nodes index =
     (if index XOR 1 < length nodes then nodes ! (index XOR 1) else zs ! level) #
     merkle_proof_loop H zs levels (tree_level H (zs ! level) nodes) (drop_bit 1 index)"

definition merkle_proof :: "crypto \<Rightarrow> bytes list \<Rightarrow> nat \<Rightarrow> bytes list option" where
  "merkle_proof H leaves target =
     (if length leaves > MAX_LEAVES \<or> target \<ge> length leaves then None
      else Some (merkle_proof_loop H (zero_hashes H) [0..<TREE_DEPTH] leaves target))"

fun verify_loop :: "crypto \<Rightarrow> bytes \<Rightarrow> nat \<Rightarrow> bytes list \<Rightarrow> bytes" where
  "verify_loop H computed index [] = computed"
| "verify_loop H computed index (sibling # siblings) =
     verify_loop H
       (if index AND 1 = 0 then hash_node H computed sibling else hash_node H sibling computed)
       (drop_bit 1 index) siblings"

definition verify_merkle_proof :: "crypto \<Rightarrow> bytes \<Rightarrow> nat \<Rightarrow> bytes list \<Rightarrow> bytes \<Rightarrow> bool" where
  "verify_merkle_proof H leaf index siblings expected_root =
     (if index \<ge> MAX_LEAVES then False else verify_loop H leaf index siblings = expected_root)"

subsection \<open>The tree against its reference\<close>

lemma tree_level_eq: "tree_level H z nodes = pad_level (hash_node H) z nodes"
  by (simp add: tree_level_def pad_level_def)

lemma verify_loop_eq: "verify_loop H leaf i siblings = path_root (hash_node H) leaf i siblings"
  by (induction siblings arbitrary: leaf i)
    (simp_all add: and_one_eq drop_bit_Suc even_iff_mod_2_eq_zero)

lemma nat_xor_one: "(i :: nat) XOR Suc 0 = (if even i then Suc i else i - 1)"
  by (simp add: xor_Suc_0_eq)

lemma funpow_double:
  "((\<lambda>x. node x x) ^^ n) (node z z) = node (((\<lambda>x. node x x) ^^ n) z) (((\<lambda>x. node x x) ^^ n) z)"
  using funpow_swap1 [of "\<lambda>x. node x x" n z] by simp

lemma zero_ladder_nth:
  "i < d \<Longrightarrow> zero_ladder node d z ! i = ((\<lambda>x. node x x) ^^ i) z"
proof (induction d arbitrary: i z)
  case (Suc d)
  then show ?case by (cases i) (simp_all add: funpow_double)
qed simp

lemma zero_hashes_fold:
  fixes H defines "f \<equiv> (\<lambda>hashes level. hashes[level + 1 := hash_node H (hashes ! level) (hashes ! level)])"
  assumes "k \<le> n"
  shows "foldl f (replicate (n + 1) z) [0..<k] =
    map (\<lambda>i. ((\<lambda>x. hash_node H x x) ^^ i) z) [0..<k + 1] @ replicate (n - k) z"
  using assms(2)
proof (induction k)
  case 0
  then show ?case by simp
next
  case (Suc k)
  then have "n - k = Suc (n - Suc k)" by simp
  then show ?case
    using Suc by (simp add: f_def nth_append list_update_append)
qed

lemma zero_hashes_eq: "zero_hashes H = zero_ladder (hash_node H) (TREE_DEPTH + 1) (replicate 32 0)"
proof -
  have "zero_hashes H = map (\<lambda>i. ((\<lambda>x. hash_node H x x) ^^ i) (replicate 32 0)) [0..<TREE_DEPTH + 1]"
    unfolding zero_hashes_def by (subst zero_hashes_fold) simp_all
  also have "\<dots> = zero_ladder (hash_node H) (TREE_DEPTH + 1) (replicate 32 0)"
    by (rule nth_equalityI)
      (simp_all add: zero_ladder_nth del: upt_Suc zero_ladder.simps)
  finally show ?thesis .
qed

lemma zero_ladder_append:
  "zero_ladder node (d + 1) z = zero_ladder node d z @ [((\<lambda>x. node x x) ^^ d) z]"
  by (induction d arbitrary: z) (simp_all add: funpow_double)

lemma take_zero_hashes:
  "take TREE_DEPTH (zero_hashes H) = zero_ladder (hash_node H) TREE_DEPTH (replicate 32 0)"
  by (simp only: zero_hashes_eq zero_ladder_append) simp

lemma perfect_root_replicate:
  "perfect_root node d (replicate (2 ^ d) z) = ((\<lambda>x. node x x) ^^ d) z"
  by (induction d) (simp_all add: min_def)

lemma merkle_proof_loop_eq:
  "ls = [k..<length zs] \<Longrightarrow>
   merkle_proof_loop H zs ls nodes i = proof_path (hash_node H) (drop k zs) nodes i"
proof (induction ls arbitrary: k nodes i)
  case (Cons l ls)
  then have k: "k < length zs" "l = k" "ls = [Suc k..<length zs]"
    by (auto simp: upt_eq_Cons_conv dest: sym)
  from k(1) have d: "drop k zs = zs ! k # drop (Suc k) zs" by (rule Cons_nth_drop_Suc [symmetric])
  show ?case
    using Cons.IH [of "Suc k"] k by (simp add: d Let_def nat_xor_one tree_level_eq drop_bit_Suc)
qed (auto simp: eq_commute [of "[]"])

text \<open>The contract of the node function, on the model's own \<open>hash_node\<close>.\<close>

interpretation inner: merkle_node "hash_node H" "keccak256 H" "node_preimage H" "\<lambda>x. length x = 32"
  for H
  by unfold_locales (auto simp: hash_node_def node_preimage_def)

lemma root_is_perfect_root:
  assumes "length leaves \<le> MAX_LEAVES"
  shows "root H leaves = Inr (perfect_root (hash_node H) TREE_DEPTH
    (leaves @ replicate (MAX_LEAVES - length leaves) (replicate 32 0)))"
proof (cases "leaves = []")
  case True
  have "zero_hashes H ! TREE_DEPTH = ((\<lambda>x. hash_node H x x) ^^ TREE_DEPTH) (replicate 32 0)"
    by (simp add: zero_hashes_eq zero_ladder_nth del: zero_ladder.simps)
  then show ?thesis
    using True perfect_root_replicate [of "hash_node H" TREE_DEPTH "replicate 32 0"]
    by (simp add: root_def TREE_DEPTH_def)
next
  case False
  have "length leaves \<le> 2 ^ TREE_DEPTH" using assms by (simp add: TREE_DEPTH_def)
  from foldl_pad_level [OF this False, of "hash_node H" "replicate 32 0"] show ?thesis
    using assms False
    by (simp add: root_def tree_level_eq take_zero_hashes TREE_DEPTH_def
        take_zero_hashes [unfolded TREE_DEPTH_def])
qed

lemma merkle_proof_path:
  assumes "length leaves \<le> MAX_LEAVES" "target < length leaves"
  shows "merkle_proof H leaves target = Some (proof_path (hash_node H)
    (zero_ladder (hash_node H) TREE_DEPTH (replicate 32 0)) leaves target)"
proof -
  let ?zs = "zero_hashes H"
  have cong: "merkle_proof_loop H ?zs [0..<TREE_DEPTH] leaves target =
      merkle_proof_loop H (take TREE_DEPTH ?zs) [0..<TREE_DEPTH] leaves target"
  proof -
    have "\<forall>l \<in> set ls. l < TREE_DEPTH \<Longrightarrow>
        merkle_proof_loop H ?zs ls ns i = merkle_proof_loop H (take TREE_DEPTH ?zs) ls ns i" for ls ns i
      by (induction ls arbitrary: ns i) simp_all
    then show ?thesis by simp
  qed
  have len: "length (take TREE_DEPTH ?zs) = TREE_DEPTH"
    unfolding take_zero_hashes by simp
  have "merkle_proof_loop H (take TREE_DEPTH ?zs) [0..<TREE_DEPTH] leaves target =
      proof_path (hash_node H) (drop 0 (take TREE_DEPTH ?zs)) leaves target"
    by (rule merkle_proof_loop_eq) (simp only: len)
  then show ?thesis
    using assms unfolding merkle_proof_def cong drop_0 take_zero_hashes by simp
qed

lemma merkle_proof_complete:
  assumes "length leaves \<le> MAX_LEAVES" "target < length leaves"
    and "merkle_proof H leaves target = Some siblings" "root H leaves = Inr r"
  shows "verify_merkle_proof H (leaves ! target) target siblings r"
proof -
  let ?zs = "zero_ladder (hash_node H) TREE_DEPTH (replicate 32 0)"
  have s: "siblings = proof_path (hash_node H) ?zs leaves target"
    using assms merkle_proof_path by simp
  have fold: "foldl (\<lambda>ns z. pad_level (hash_node H) z ns) leaves ?zs = [r]"
  proof -
    have "length leaves \<le> 2 ^ TREE_DEPTH" "leaves \<noteq> []"
      using assms by (auto simp: TREE_DEPTH_def)
    from foldl_pad_level [OF this, of "hash_node H" "replicate 32 0"]
    show ?thesis using assms root_is_perfect_root [OF assms(1), of H] by (simp add: TREE_DEPTH_def)
  qed
  have small: "target < MAX_LEAVES" and zero: "target div 2 ^ TREE_DEPTH = 0"
    using assms(1,2) by (simp_all add: TREE_DEPTH_def)
  have "path_root (hash_node H) (leaves ! target) target siblings = r"
    unfolding s path_root_proof_path [OF assms(2)] fold by (simp add: zero)
  then show ?thesis
    using small by (simp add: verify_merkle_proof_def verify_loop_eq)
qed

lemma merkle_proof_spec:
  assumes "length leaves \<le> MAX_LEAVES" "target < length leaves"
  shows "\<exists>siblings r. merkle_proof H leaves target = Some siblings \<and> length siblings = TREE_DEPTH \<and>
    root H leaves = Inr r \<and> verify_merkle_proof H (leaves ! target) target siblings r"
proof -
  obtain r where r: "root H leaves = Inr r"
    by (rule that [OF root_is_perfect_root [OF assms(1), of H]])
  obtain ss where ss: "merkle_proof H leaves target = Some ss" "length ss = TREE_DEPTH"
    by (rule that [OF merkle_proof_path [OF assms, of H]]) simp
  have "verify_merkle_proof H (leaves ! target) target ss r"
    by (rule merkle_proof_complete [OF assms ss(1) r])
  with ss r show ?thesis by (intro exI [of _ ss] exI [of _ r] conjI)
qed

lemma list_all_zero_ladder:
  assumes "P z" "\<And>a b. P (node a b)"
  shows "list_all P (zero_ladder node d z)"
  using assms(1) by (induction d arbitrary: z) (simp_all add: assms(2))

lemma list_all_proof_path:
  assumes "list_all P zs" "list_all P ns" "\<And>a b. P (node a b)"
  shows "list_all P (proof_path node zs ns i)"
  using assms(1,2)
proof (induction zs arbitrary: ns i)
  case (Cons z zs)
  have "list_all P (pad_level node z ns)"
    by (simp add: pad_level_def list_all_iff assms(3))
  then have "list_all P (proof_path node zs (pad_level node z ns) (i div 2))"
    using Cons by simp
  moreover have "P (if k < length ns then ns ! k else z)" for k
    using Cons.prems by (simp add: list_all_iff)
  ultimately show ?case by (simp only: proof_path.simps Let_def list.pred_inject)
qed simp

text \<open>On the sample instance a node is its left child.\<close>

lemma sample_hash_node: "length l = 32 \<Longrightarrow> hash_node sample_crypto l r = l"
  by (simp add: hash_node_def node_preimage_def keccak_str_def sample_keccak_second)

lemma sample_ladder:
  "length z = 32 \<Longrightarrow> zero_ladder (hash_node sample_crypto) d z = replicate d z"
  by (induction d) (simp_all add: sample_hash_node)

lemma sample_proof_path:
  "length x = 32 \<Longrightarrow> proof_path (hash_node sample_crypto) zs [x] 0 = zs"
  by (induction zs) (simp_all add: pad_level_def sample_hash_node)

lemma sample_path_inputs:
  "length x = 32 \<Longrightarrow> set (path_inputs (hash_node sample_crypto) enc x 0 (replicate d z)) \<subseteq> {enc x z}"
  by (induction d) (simp_all add: sample_hash_node)

lemma inj_on_singletonI: "S \<subseteq> {a} \<Longrightarrow> inj_on f S"
  by (auto intro: inj_onI)

lemma inj_on_pairD: "inj_on f S \<Longrightarrow> x \<in> S \<Longrightarrow> y \<in> S \<Longrightarrow> f x = f y \<longleftrightarrow> x = y"
  by (auto dest: inj_onD)

subsection \<open>Properties\<close>

text \<open>
  The root emitted in the receipt is the root of the full depth-16 binary tree over the leaves
  in order, padded with 32-byte zero leaves: the level-by-level computation with precomputed zero
  hashes agrees with the recursive reference and never panics for at most 65536 leaves.
\<close>

lemma inner_root_reference:
  assumes "length leaves \<le> 65536"
  shows "root H leaves = Inr (perfect_root (hash_node H) 16
    (leaves @ replicate (65536 - length leaves) (replicate 32 0)))"
  using root_is_perfect_root [of leaves H] assms by (simp add: TREE_DEPTH_def)

text \<open>
  Whenever \<open>merkle_proof\<close> is asked for a leaf that exists, it answers with 16 siblings and
  \<open>verify_merkle_proof\<close> accepts them for that leaf, that index and the committed root; outside
  that range it answers \<open>None\<close>.
\<close>

lemma merkle_proof_verifies:
  assumes "length leaves \<le> 65536"
  shows "(case merkle_proof H leaves target of
      None \<Rightarrow> target \<ge> length leaves
    | Some siblings \<Rightarrow> target < length leaves \<and> length siblings = 16 \<and>
        (\<exists>r. root H leaves = Inr r \<and> verify_merkle_proof H (leaves ! target) target siblings r))"
proof (cases "target < length leaves")
  case True
  with merkle_proof_spec [of leaves target H] assms show ?thesis
    by (auto simp: TREE_DEPTH_def)
qed (simp add: merkle_proof_def)

text \<open>
  C29: a Merkle proof accepted against a committed root at the position of an existing leaf is a
  proof of exactly that leaf, with exactly the siblings \<open>merkle_proof\<close> serves, unless two of the
  node inputs hashed along the two paths collide under Keccak.
\<close>

theorem merkle_proof_sound:
  assumes len: "length leaves \<le> 65536" "target < length leaves"
    and wf: "list_all (\<lambda>l. length l = 32) leaves" "length leaf = 32"
      "list_all (\<lambda>s. length s = 32) siblings" "length siblings = 16"
    and keccak: "\<And>x. length (keccak256 H x) = 32"
    and committed: "root H leaves = Inr r" "merkle_proof H leaves target = Some honest"
    and accepted: "verify_merkle_proof H leaf target siblings r"
    and no_collision: "inj_on (keccak256 H)
      (set (path_inputs (hash_node H) (node_preimage H) leaf target siblings) \<union>
       set (path_inputs (hash_node H) (node_preimage H) (leaves ! target) target honest))"
  shows "leaf = leaves ! target \<and> siblings = honest"
proof (rule inner.path_determines_leaf [where i = target and H = H])
  have honest: "verify_merkle_proof H (leaves ! target) target honest r" "length honest = 16"
    using merkle_proof_spec [of leaves target H] len committed by (simp_all add: TREE_DEPTH_def)
  show "length siblings = length honest" using honest wf by simp
  show "path_root (hash_node H) leaf target siblings =
      path_root (hash_node H) (leaves ! target) target honest"
    using accepted honest by (simp add: verify_merkle_proof_def verify_loop_eq split: if_splits)
  show "list_all (\<lambda>x. length x = 32) honest"
    using merkle_proof_path [of leaves target H] len wf committed keccak
    by (auto simp: hash_node_def intro!: list_all_proof_path list_all_zero_ladder)
  show "length (leaves ! target) = 32" using wf len by (simp add: list_all_length)
qed (use wf keccak no_collision in simp_all)

theorem merkle_proof_sound_witness:
  "replicate 32 (7 :: u8) = [replicate 32 7] ! 0 \<and>
   replicate 16 (replicate 32 0) = replicate 16 (replicate 32 (0 :: u8))"
proof -
  let ?x = "replicate 32 (7 :: u8)" and ?zs = "replicate 16 (replicate 32 (0 :: u8))"
  have proof0: "merkle_proof sample_crypto [?x] 0 = Some ?zs"
    using merkle_proof_path [of "[?x]" 0 sample_crypto]
    by (simp add: sample_ladder sample_proof_path TREE_DEPTH_def del: replicate.simps)
  obtain r where r: "root sample_crypto [?x] = Inr r"
      "verify_merkle_proof sample_crypto ?x 0 ?zs r"
    using merkle_proof_spec [of "[?x]" 0 sample_crypto] proof0
    by (auto simp del: replicate.simps)
  have inputs: "inj_on (keccak256 sample_crypto)
      (set (path_inputs (hash_node sample_crypto) (node_preimage sample_crypto) ?x 0 ?zs) \<union>
       set (path_inputs (hash_node sample_crypto) (node_preimage sample_crypto) ([?x] ! 0) 0 ?zs))"
    by (rule inj_on_singletonI [of _ "node_preimage sample_crypto ?x (replicate 32 0)"])
      (simp add: sample_path_inputs del: replicate.simps)
  show ?thesis
    by (rule merkle_proof_sound [OF _ _ _ _ _ _ _ r(1) proof0 r(2) inputs])
      (simp_all add: list_all_iff del: replicate.simps)
qed

text \<open>
  A native-withdrawal leaf determines the chain, the bridge, the global action index, the
  recipient, the amount and the action it was made from, unless the two leaf preimages collide
  under Keccak.
\<close>

lemma native_leaf_binds:
  assumes "length b = 20" "length b' = 20" "wf_native_withdrawal w" "wf_native_withdrawal w'"
    and "length fh = 32" "length fh' = 32"
    and "inj_on (keccak256 H)
      {native_withdrawal_preimage H c b i w fh, native_withdrawal_preimage H c' b' i' w' fh'}"
    and "native_withdrawal_leaf H c b i w fh = native_withdrawal_leaf H c' b' i' w' fh'"
  shows "c = c' \<and> b = b' \<and> i = i' \<and> w = w' \<and> fh = fh'"
proof -
  have "native_withdrawal_preimage H c b i w fh = native_withdrawal_preimage H c' b' i' w' fh'"
    using assms(8) by (simp add: native_withdrawal_leaf_def inj_on_pairD [OF assms(7)])
  then show ?thesis
    using assms(1-6) by (simp add: native_withdrawal_preimage_def wf_native_withdrawal_def)
qed

text \<open>
  An ERC-20 leaf determines the chain, bridge, index, token, registry slot, record
  commitment, asset, recipient, amount and action, and it is never the leaf of a native
  withdrawal or of a raw action, unless two of the preimages involved collide under Keccak.
\<close>

lemma erc20_leaf_binds:
  assumes "length b = 20" "length b' = 20" "wf_token_withdrawal w" "wf_token_withdrawal w'"
    and "wf_native_withdrawal n" "length fh = 32" "length fh' = 32"
    and keccak: "\<And>x. length (keccak256 H x) = 32"
    and "inj_on (keccak256 H)
      {erc20_withdrawal_preimage H c b i w fh, erc20_withdrawal_preimage H c' b' i' w' fh',
       native_withdrawal_preimage H c' b' i' n fh', raw_inner_action_preimage H c' b' i' fh'}"
    and leaf: "erc20_withdrawal_leaf H c b i w fh = Inr l"
  shows "l \<noteq> native_withdrawal_leaf H c' b' i' n fh' \<and> l \<noteq> raw_inner_action_leaf H c' b' i' fh' \<and>
    (erc20_withdrawal_leaf H c' b' i' w' fh' = Inr l \<longrightarrow>
      c = c' \<and> b = b' \<and> i = i' \<and> fh = fh' \<and>
      w' = w\<lparr>tw_params_fields := tw_params_fields w'\<rparr>)"
proof -
  let ?e = "erc20_withdrawal_preimage H c b i w fh"
  let ?e' = "erc20_withdrawal_preimage H c' b' i' w' fh'"
  let ?n = "native_withdrawal_preimage H c' b' i' n fh'"
  let ?r = "raw_inner_action_preimage H c' b' i' fh'"
  have lens: "length ?e = 384" "length ?n = 224" "length ?r = 160"
    using assms(1-7)
    by (simp_all add: erc20_withdrawal_preimage_def native_withdrawal_preimage_def
        raw_inner_action_preimage_def wf_token_withdrawal_def wf_native_withdrawal_def
        keccak_str_def keccak)
  have l: "l = keccak256 H ?e" using leaf by (simp add: erc20_withdrawal_leaf_def ensure_Inr)
  have "length ?e \<noteq> length ?n" "length ?e \<noteq> length ?r" by (simp_all add: lens)
  then have "?e \<noteq> ?n" "?e \<noteq> ?r" by metis+
  then have "l \<noteq> native_withdrawal_leaf H c' b' i' n fh'" "l \<noteq> raw_inner_action_leaf H c' b' i' fh'"
    unfolding l native_withdrawal_leaf_def raw_inner_action_leaf_def
    by (simp_all add: inj_on_pairD [OF assms(9)])
  moreover have "c = c' \<and> b = b' \<and> i = i' \<and> fh = fh' \<and> w' = w\<lparr>tw_params_fields := tw_params_fields w'\<rparr>"
    if "erc20_withdrawal_leaf H c' b' i' w' fh' = Inr l"
  proof -
    have "?e = ?e'"
      using that l by (simp add: erc20_withdrawal_leaf_def ensure_Inr inj_on_pairD [OF assms(9)])
    then show ?thesis
      using assms(1-7) by (simp add: erc20_withdrawal_preimage_def wf_token_withdrawal_def)
  qed
  ultimately show ?thesis by blast
qed


definition length_crypto :: crypto where
  "length_crypto = \<lparr>keccak256 = (\<lambda>xs. be_bytes 32 (length xs)), block_cipher = (\<lambda>s. s)\<rparr>"

end
