(* ===== verification/Gateway_Jobs.thy ===== *)
theory Gateway_Jobs
  imports Inner_Action_Tree
begin

text \<open>
  The table of proof jobs that the gateway (\<open>api/src\<close>) keeps in PostgreSQL: the kinds of
  \<open>proof_kind.rs\<close>, the statuses of the \<open>proof_status\<close> enum, one row per job, and conditional
  updates.  \<open>UPDATE proof_jobs SET \<dots> WHERE p\<close> is \<open>update_where\<close>: it changes the rows that
  satisfy \<open>p\<close> and reports how many there are; every statement is atomic, and the operations of
  the components are sequences of such statements inside one transaction or several.

  Times are seconds; \<open>NOW()\<close> is an argument of the operations.  UUIDs are naturals, and a fresh
  one is an argument of the operations that draw it.
\<close>

subsection \<open>Kinds and statuses\<close>

datatype proof_kind = Settlement | Bridge

definition kind_all :: "proof_kind list" where
  "kind_all = [Settlement, Bridge]"

definition kind_as_str :: "proof_kind \<Rightarrow> string" where
  "kind_as_str k = (case k of Settlement \<Rightarrow> ''settlement'' | Bridge \<Rightarrow> ''bridge'')"

definition kind_conflicting :: "proof_kind \<Rightarrow> proof_kind" where
  "kind_conflicting k = (case k of Settlement \<Rightarrow> Bridge | Bridge \<Rightarrow> Settlement)"

definition kind_from_str :: "string \<Rightarrow> string + proof_kind" where
  "kind_from_str v =
     (if v = ''settlement'' then Inr Settlement
      else if v = ''bridge'' then Inr Bridge
      else Inl (''unsupported proof kind: '' @ v))"

datatype proof_status =
    Queued | Validating | Awaiting_Approval | Approved | Proof_Requested | Proving | Submitting
  | Submitted | Executed | Confirmed | Failed | Proof_Failed | Ethereum_Reverted | Reorged | Rejected

subsection \<open>Jobs\<close>

type_synonym uuid = nat

record reservation_token =
  rt_id :: uuid
  rt_fencing_token :: string

text \<open>
  What the gateway reads from the JSON input of a job: the results of its JSON pointers.  A value
  that is present but not a string is \<open>Some None\<close>.  \<open>ji_bridge_context\<close> is the input read as a bridge
  batch: an error, or its Ethereum chain and bridge address.  \<open>ji_recovered\<close> is the flag of a job that was
  rebuilt from Ethereum events, and \<open>ji_submission\<close> is the Mina command that is attached to a settlement.
  Its actions are an array of arrays of strings; each \<open>None\<close> is a value of another type.
\<close>

record settlement_input =
  si_outer_account :: "string option"
  si_fee_payer :: "string option"
  si_nonce :: "u64 option"
  si_actions :: "string option list option list option option"
  si_inner_batch :: "(string + inner_action_batch_witness) option"

record job_input =
  ji_reservation :: "(string + reservation_token) option"
  ji_state_before_fields :: "string option list option"
  ji_action_state_precondition :: "string option option"
  ji_target_ledger :: "string option option"
  ji_bridge_action_state :: "string option option"
  ji_mina_transaction_hash :: "string option"
  ji_bridge_context :: "string + u64 \<times> bytes"
  ji_recovered :: bool
  ji_submission :: "settlement_input option"

text \<open>The signed transaction of \<open>ethereum.rs\<close> that is stored before it is broadcast.\<close>

record prepared_submission =
  ps_transaction_hash :: string
  ps_raw_transaction :: string
  ps_sender :: string
  ps_nonce :: u64

text \<open>
  A row of \<open>proof_jobs\<close>: the columns that the gateway's decisions depend on.  Hexadecimal and JSON
  columns hold the decoded value; timestamps that are only displayed, prices and metrics are left out.
  \<open>jb_approved\<close> says that \<open>approved_at\<close> is set.
\<close>

record job =
  jb_kind :: proof_kind
  jb_status :: proof_status
  jb_input :: job_input
  jb_idempotency_key :: "string option"
  jb_input_digest :: string
  jb_preflight_input_digest :: "string option"
  jb_attempts :: int
  jb_approved :: bool
  jb_approval_max_pgu :: "int option"
  jb_approval_max_price_per_pgu :: "int option"
  jb_public_values :: "bytes option"
  jb_cycle_count :: "int option"
  jb_proof_bytes :: "bytes option"
  jb_proof_request_intent :: "uuid option"
  jb_proof_request_id :: "string option"
  jb_prepared_transaction :: "prepared_submission option"
  jb_transaction_hash :: "string option"
  jb_error :: "string option"
  jb_error_class :: "string option"
  jb_next_attempt_at :: "nat option"
  jb_retry_count :: int
  jb_submitted_block_number :: "int option"
  jb_submitted_block_hash :: "bytes option"

text \<open>The defaults of a new row.\<close>

definition new_job :: "proof_kind \<Rightarrow> job_input \<Rightarrow> string option \<Rightarrow> string \<Rightarrow> job" where
  "new_job kind input key digest =
     \<lparr>jb_kind = kind, jb_status = Queued, jb_input = input, jb_idempotency_key = key,
      jb_input_digest = digest, jb_preflight_input_digest = None, jb_attempts = 0,
      jb_approved = False, jb_approval_max_pgu = None, jb_approval_max_price_per_pgu = None,
      jb_public_values = None, jb_cycle_count = None, jb_proof_bytes = None,
      jb_proof_request_intent = None, jb_proof_request_id = None, jb_prepared_transaction = None,
      jb_transaction_hash = None, jb_error = None, jb_error_class = None,
      jb_next_attempt_at = None, jb_retry_count = 0,
      jb_submitted_block_number = None, jb_submitted_block_hash = None\<rparr>"

type_synonym job_table = "(uuid \<times> job) list"

text \<open>
  The condition under which a job no longer holds the outer writer; the same SQL text stands in
  \<open>lock\<close>, \<open>ensure_no_jobs\<close> and \<open>busy\<close>.  A transaction hash or a signed transaction makes the outcome
  ambiguous until finality or a revert is known.
\<close>

definition released :: "job \<Rightarrow> bool" where
  "released j \<longleftrightarrow> jb_status j \<in> {Confirmed, Ethereum_Reverted} \<or>
     (jb_transaction_hash j = None \<and> jb_prepared_transaction j = None \<and>
      jb_status j \<in> {Executed, Failed, Proof_Failed, Rejected, Reorged})"

subsection \<open>Conditional updates\<close>

definition update_where :: "('k \<Rightarrow> 'v \<Rightarrow> bool) \<Rightarrow> ('v \<Rightarrow> 'v) \<Rightarrow> ('k \<times> 'v) list \<Rightarrow> ('k \<times> 'v) list \<times> nat" where
  "update_where p f t =
     (map (\<lambda>(k, v). (k, if p k v then f v else v)) t, length (filter (\<lambda>(k, v). p k v) t))"

lemma update_where_keys [simp]: "map fst (fst (update_where p f t)) = map fst t"
  by (induction t) (auto simp: update_where_def)

lemma update_where_in:
  "(k, v) \<in> set (fst (update_where p f t)) \<longleftrightarrow>
     (\<exists>u. (k, u) \<in> set t \<and> v = (if p k u then f u else u))"
  by (induction t) (auto simp: update_where_def)

lemma update_where_map_of:
  "map_of (fst (update_where p f t)) k = map_option (\<lambda>v. if p k v then f v else v) (map_of t k)"
  by (induction t) (auto simp: update_where_def)

lemma update_where_count_one:
  assumes "distinct (map fst t)" "snd (update_where (\<lambda>k v. k = i \<and> p v) f t) = 1"
  shows "\<exists>v. map_of t i = Some v \<and> p v"
proof -
  have "filter (\<lambda>(k, v). k = i \<and> p v) t \<noteq> []" using assms(2) by (auto simp: update_where_def)
  then obtain v where "(i, v) \<in> set t" "p v" by (auto simp: filter_empty_conv)
  then show ?thesis using assms(1) by auto
qed

lemma update_where_count:
  assumes "distinct (map fst t)" "map_of t i = Some v"
  shows "snd (update_where (\<lambda>k v. k = i \<and> p v) f t) = (if p v then 1 else 0)"
  using assms
proof (induction t)
  case (Cons kv t)
  have none: "filter (\<lambda>(k, v). k = i \<and> p v) t = []" if "i \<notin> fst ` set t"
    using that by (auto simp: filter_empty_conv image_iff)
  show ?case
    using Cons none by (cases kv) (auto simp: update_where_def split: if_splits)
qed simp

lemma list_ex_rows:
  assumes "distinct (map fst t)"
  shows "list_ex P t \<longleftrightarrow> (\<exists>k v. map_of t k = Some v \<and> P (k, v))"
  using assms by (auto simp: list_ex_iff)

subsection \<open>Properties of the kinds\<close>

lemma kind_round_trip: "kind_from_str (kind_as_str k) = Inr k"
  by (cases k) (simp_all add: kind_from_str_def kind_as_str_def)

lemma kind_from_str_Inr: "kind_from_str s = Inr k \<longleftrightarrow> s = kind_as_str k"
  by (cases k) (auto simp: kind_from_str_def kind_as_str_def)

end
