(* ===== verification/Outer_Writer.thy ===== *)
theory Outer_Writer
  imports Gateway_Jobs
begin

text \<open>
  \<open>api/src/outer_writer.rs\<close>: ownership of the outer action state.  One row says who may prepare or
  submit the next settlement or bridge batch.  A preparation lease (\<open>acquire\<close>, \<open>renew\<close>,
  \<open>release\<close>) expires; once a job is attached (\<open>attach_settlement\<close>, \<open>attach_bridge\<close>) the row stays with
  the job until its outcome is known (\<open>lock\<close> clears it).  A fencing token counts the owners.

  \<open>hex::decode\<close> and the decimal form of a 256-bit integer (\<open>alloy\<close>) are parameters (\<open>text_codec\<close>);
  requests to an Ethereum node are not modelled, and what they return is an argument.
\<close>

subsection \<open>Errors\<close>

datatype gateway_error = Conflict string string | Failure string

definition conflict :: "string \<Rightarrow> string \<Rightarrow> gateway_error" where
  "conflict code message = Conflict code message"

definition error_code :: "gateway_error \<Rightarrow> string option" where
  "error_code e = (case e of Conflict code _ \<Rightarrow> Some code | Failure _ \<Rightarrow> None)"

definition error_response :: "gateway_error \<Rightarrow> nat \<times> string" where
  "error_response e =
     (let code = (case error_code e of Some c \<Rightarrow> c | None \<Rightarrow> ''COORDINATION_UNAVAILABLE'');
          status = (if error_code e \<noteq> None then 409 else 503)
      in (status, code))"

subsection \<open>Decimal integers\<close>

text \<open>\<open>i64::to_string\<close> and \<open>str::parse::<i64>\<close>.\<close>

definition digit_char :: "nat \<Rightarrow> char" where
  "digit_char d = char_of (48 + d)"

fun show_nat :: "nat \<Rightarrow> string" where
  "show_nat n = (if n < 10 then [digit_char n] else show_nat (n div 10) @ [digit_char (n mod 10)])"

declare show_nat.simps [simp del]

definition show_int :: "int \<Rightarrow> string" where
  "show_int i = (if i < 0 then CHR ''-'' # show_nat (nat (- i)) else show_nat (nat i))"

definition digit_value :: "char \<Rightarrow> nat option" where
  "digit_value c = (let n = of_char c :: nat in if 48 \<le> n \<and> n \<le> 57 then Some (n - 48) else None)"

fun parse_digits :: "nat \<Rightarrow> string \<Rightarrow> nat option" where
  "parse_digits acc [] = Some acc"
| "parse_digits acc (c # cs) =
     (case digit_value c of None \<Rightarrow> None | Some d \<Rightarrow> parse_digits (acc * 10 + d) cs)"

definition parse_i64 :: "string \<Rightarrow> int option" where
  "parse_i64 s =
     (let (sign, digits) =
            (if s \<noteq> [] \<and> hd s = CHR ''-'' then (- 1, tl s)
             else if s \<noteq> [] \<and> hd s = CHR ''+'' then (1, tl s) else (1, s))
      in if digits = [] then None
         else case parse_digits 0 digits of
             None \<Rightarrow> None
           | Some n \<Rightarrow>
               (let v = sign * int n in if - (2 ^ 63) \<le> v \<and> v < 2 ^ 63 then Some v else None))"

subsection \<open>State\<close>

record text_codec =
  hex_decode :: "string \<Rightarrow> bytes option"
  u256_to_string :: "bytes \<Rightarrow> string"

record checkpoint =
  cp_outer_state_fields :: "string list"
  cp_ledger_hash :: string
  cp_action_state :: string
  cp_action_state_length :: u32
  cp_block_number :: u64
  cp_block_hash :: string

record writer =
  ow_reservation_id :: "uuid option"
  ow_owner_id :: "string option"
  ow_fencing_token :: int
  ow_expires_at :: "nat option"
  ow_checkpoint :: "checkpoint option"
  ow_job_id :: "uuid option"

record virtual_account =
  va_zkapp_state :: "string list option"
  va_action_state :: "string option"

text \<open>
  The tables of the gateway that these operations read and write.  \<open>gw_pending_commands\<close> lists the jobs
  that have a row in \<open>gateway_pending_commands\<close>, the pool that is shown to the sequencer.
\<close>

record gateway =
  gw_recovery_ready :: bool
  gw_outer_account :: "virtual_account option"
  gw_writer :: writer
  gw_jobs :: job_table
  gw_pending_commands :: "uuid list"

text \<open>The state of the settlement contract; hashes are 32 bytes, the program key is its text form.\<close>

record settlement_state =
  ss_program_vkey :: string
  ss_vk_hash :: bytes
  ss_action_state :: bytes
  ss_current_root :: bytes
  ss_outer_state :: "bytes list"
  ss_outer_action_state_length :: u32
  ss_batch_sequence :: u64

definition decimal :: "text_codec \<Rightarrow> bytes \<Rightarrow> string" where
  "decimal T bs = u256_to_string T bs"

definition checkpoint_from_chain :: "text_codec \<Rightarrow> u64 \<Rightarrow> string \<Rightarrow> settlement_state \<Rightarrow> checkpoint" where
  "checkpoint_from_chain T block_number block_hash state =
     \<lparr>cp_outer_state_fields = map (decimal T) (ss_outer_state state),
      cp_ledger_hash = decimal T (ss_current_root state),
      cp_action_state = decimal T (ss_action_state state),
      cp_action_state_length = ss_outer_action_state_length state,
      cp_block_number = block_number,
      cp_block_hash = block_hash\<rparr>"

record reservation =
  rs_reservation_id :: uuid
  rs_fencing_token :: string
  rs_expires_at :: "nat option"
  rs_checkpoint :: checkpoint

definition owner_response :: "writer \<Rightarrow> gateway_error + reservation" where
  "owner_response w =
     and_then (expect (ow_reservation_id w) (Failure ''writer has no reservation'')) (\<lambda>i.
     and_then (expect (ow_checkpoint w) (Failure ''writer has no checkpoint'')) (\<lambda>cp.
     Inr \<lparr>rs_reservation_id = i, rs_fencing_token = show_int (ow_fencing_token w),
          rs_expires_at = ow_expires_at w, rs_checkpoint = cp\<rparr>))"

definition owner_matches :: "writer \<Rightarrow> reservation_token \<Rightarrow> bool" where
  "owner_matches w token \<longleftrightarrow> ow_reservation_id w = Some (rt_id token) \<and>
     parse_i64 (rt_fencing_token token) = Some (ow_fencing_token w)"

definition settlement_idempotency_key :: "(uuid \<Rightarrow> string) \<Rightarrow> string \<Rightarrow> reservation_token option \<Rightarrow> string" where
  "settlement_idempotency_key show_uuid hash r =
     (case r of Some r \<Rightarrow> hash @ '':reservation:'' @ show_uuid (rt_id r) | None \<Rightarrow> hash)"

definition ttl :: "u32 option \<Rightarrow> gateway_error + nat" where
  "ttl v =
     (let seconds = (case v of Some s \<Rightarrow> s | None \<Rightarrow> 120) in
      if \<not> (30 \<le> seconds \<and> seconds \<le> 600)
      then Inl (conflict ''INVALID_RESERVATION'' ''ttlSeconds must be between 30 and 600'')
      else Inr (unat seconds))"

subsection \<open>Locking\<close>

definition clear_writer :: "writer \<Rightarrow> writer" where
  "clear_writer w = w\<lparr>ow_reservation_id := None, ow_owner_id := None, ow_expires_at := None,
     ow_checkpoint := None, ow_job_id := None\<rparr>"

text \<open>SQL comparisons with NULL are not true, so an absent expiry never counts as expired or live.\<close>

definition lease_expired :: "nat \<Rightarrow> writer \<Rightarrow> bool" where
  "lease_expired now w \<longleftrightarrow> (case ow_expires_at w of Some e \<Rightarrow> e \<le> now | None \<Rightarrow> False)"

definition lease_live :: "nat \<Rightarrow> writer \<Rightarrow> bool" where
  "lease_live now w \<longleftrightarrow> (case ow_expires_at w of Some e \<Rightarrow> now < e | None \<Rightarrow> False)"

definition writer_stale :: "nat \<Rightarrow> gateway \<Rightarrow> bool" where
  "writer_stale now g \<longleftrightarrow>
     (case ow_job_id (gw_writer g) of
        None \<Rightarrow> lease_expired now (gw_writer g)
      | Some i \<Rightarrow> list_ex (\<lambda>(k, j). k = i \<and> released j) (gw_jobs g))"

definition lock :: "nat \<Rightarrow> gateway \<Rightarrow> gateway_error + gateway" where
  "lock now g =
     ensure (gw_recovery_ready g)
       (conflict ''OUTER_WRITER_BUSY'' ''gateway is replaying finalized state'')
       (Inr (if writer_stale now g then g\<lparr>gw_writer := clear_writer (gw_writer g)\<rparr> else g))"

definition outer_job_blocks :: "uuid option \<Rightarrow> uuid \<times> job \<Rightarrow> bool" where
  "outer_job_blocks except = (\<lambda>(k, j). jb_kind j \<in> {Settlement, Bridge} \<and>
     (case except of None \<Rightarrow> True | Some i \<Rightarrow> k \<noteq> i) \<and> \<not> released j)"

definition ensure_no_jobs :: "uuid option \<Rightarrow> gateway \<Rightarrow> gateway_error + unit" where
  "ensure_no_jobs except g =
     ensure (\<not> list_ex (outer_job_blocks except) (gw_jobs g))
       (conflict ''OUTER_WRITER_BUSY'' ''an outer-state job is queued or active'') (Inr ())"

definition busy :: "nat \<Rightarrow> gateway \<Rightarrow> bool" where
  "busy now g \<longleftrightarrow>
     (ow_job_id (gw_writer g) = None \<and> lease_live now (gw_writer g)) \<or>
     list_ex (outer_job_blocks None) (gw_jobs g)"

definition account_matches :: "virtual_account \<Rightarrow> checkpoint \<Rightarrow> bool" where
  "account_matches account cp \<longleftrightarrow> va_zkapp_state account = Some (cp_outer_state_fields cp) \<and>
     va_action_state account = Some (cp_action_state cp)"

definition read_virtual_account :: "gateway \<Rightarrow> gateway_error + virtual_account" where
  "read_virtual_account g = expect (gw_outer_account g) (Failure ''virtual outer account is not configured'')"

text \<open>\<open>fencing_token + 1\<close> on a BIGINT column fails instead of wrapping.\<close>

definition next_fencing_token :: "writer \<Rightarrow> gateway_error + int" where
  "next_fencing_token w =
     ensure (ow_fencing_token w + 1 < 2 ^ 63) (Failure ''bigint out of range'') (Inr (ow_fencing_token w + 1))"

subsection \<open>Preparation leases\<close>

record acquire_request =
  aq_owner_id :: string
  aq_ttl_seconds :: "u32 option"

definition acquire_with_checkpoint ::
  "nat \<Rightarrow> uuid \<Rightarrow> acquire_request \<Rightarrow> checkpoint \<Rightarrow> gateway \<Rightarrow> gateway_error + reservation \<times> gateway" where
  "acquire_with_checkpoint now fresh request cp g =
     and_then (ttl (aq_ttl_seconds request)) (\<lambda>seconds.
     ensure (aq_owner_id request \<noteq> [] \<and> length (aq_owner_id request) \<le> 200)
       (conflict ''INVALID_RESERVATION'' ''ownerId must contain 1 to 200 bytes'') (
     and_then (lock now g) (\<lambda>g.
     let current = gw_writer g in
     and_then
       (if ow_reservation_id current \<noteq> None
        then ensure (\<not> (ow_job_id current \<noteq> None \<or> ow_owner_id current \<noteq> Some (aq_owner_id request)))
               (conflict ''OUTER_WRITER_BUSY'' ''another writer owns preparation or submission'')
               (Inr (current\<lparr>ow_expires_at := Some (now + seconds)\<rparr>))
        else
          and_then (ensure_no_jobs None g) (\<lambda>_.
          and_then (read_virtual_account g) (\<lambda>account.
          ensure (account_matches account cp)
            (conflict ''STALE_CHECKPOINT'' ''gateway has not caught up to the finalized checkpoint'') (
          and_then (next_fencing_token current) (\<lambda>token.
          Inr \<lparr>ow_reservation_id = Some fresh, ow_owner_id = Some (aq_owner_id request),
               ow_fencing_token = token, ow_expires_at = Some (now + seconds),
               ow_checkpoint = Some cp, ow_job_id = None\<rparr>))))) (\<lambda>w.
     and_then (owner_response w) (\<lambda>response. Inr (response, g\<lparr>gw_writer := w\<rparr>))))))"

definition renew_token ::
  "nat \<Rightarrow> reservation_token \<Rightarrow> nat \<Rightarrow> gateway \<Rightarrow> gateway_error + reservation \<times> gateway" where
  "renew_token now token seconds g =
     (let current = gw_writer g in
      ensure (owner_matches current token)
        (conflict ''RESERVATION_EXPIRED'' ''reservation was released or fenced'') (
      and_then
        (if ow_job_id current = None
         then ensure (lease_live now current)
           (conflict ''RESERVATION_EXPIRED'' ''preparation lease expired'')
           (Inr (current\<lparr>ow_expires_at := Some (now + seconds)\<rparr>))
         else Inr current) (\<lambda>w.
      and_then (owner_response w) (\<lambda>response. Inr (response, g\<lparr>gw_writer := w\<rparr>)))))"

definition renew ::
  "nat \<Rightarrow> uuid \<Rightarrow> string \<Rightarrow> u32 option \<Rightarrow> gateway \<Rightarrow> gateway_error + reservation \<times> gateway" where
  "renew now i fencing_token ttl_seconds g =
     and_then (ttl ttl_seconds) (\<lambda>seconds.
     renew_token now \<lparr>rt_id = i, rt_fencing_token = fencing_token\<rparr> seconds g)"

definition release :: "nat \<Rightarrow> uuid \<Rightarrow> string \<Rightarrow> gateway \<Rightarrow> gateway_error + gateway" where
  "release now i fencing_token g =
     and_then (lock now g) (\<lambda>g.
     let current = gw_writer g in
     if ow_reservation_id current = None then Inr g
     else
       ensure (owner_matches current \<lparr>rt_id = i, rt_fencing_token = fencing_token\<rparr>)
         (conflict ''RESERVATION_EXPIRED'' ''reservation was released or fenced'') (
       ensure (ow_job_id current = None)
         (conflict ''OUTER_WRITER_BUSY'' ''accepted job ownership lasts until its outcome is reconciled'')
         (Inr (g\<lparr>gw_writer := current\<lparr>ow_reservation_id := None, ow_owner_id := None,
            ow_expires_at := None, ow_checkpoint := None\<rparr>\<rparr>))))"

subsection \<open>Admission\<close>

definition strip_0x :: "string \<Rightarrow> string option" where
  "strip_0x s = (if take 2 s = ''0x'' then Some (drop 2 s) else None)"

definition field :: "text_codec \<Rightarrow> string option \<Rightarrow> gateway_error + string" where
  "field T v =
     and_then (expect v (Failure ''binding field must be a hex string'')) (\<lambda>encoded.
     and_then (expect (strip_0x encoded) (Failure ''binding field must be 0x-prefixed'')) (\<lambda>digits.
     and_then (expect (hex_decode T digits) (Failure ''invalid hex'')) (\<lambda>bs.
     ensure (length bs = 32) (Failure ''binding field must be 32 bytes'') (Inr (decimal T bs)))))"

definition ledger_hashes :: "text_codec \<Rightarrow> job_input \<Rightarrow> gateway_error + string \<times> string" where
  "ledger_hashes T input =
     (let source = (case ji_state_before_fields input of
            None \<Rightarrow> None | Some fs \<Rightarrow> if 2 < length fs then Some (fs ! 2) else None) in
      and_then (expect source (Failure ''missing source ledger binding'')) (\<lambda>s.
      and_then (field T s) (\<lambda>s.
      and_then (expect (ji_target_ledger input) (Failure ''missing target ledger binding'')) (\<lambda>t.
      and_then (field T t) (\<lambda>t. Inr (s, t))))))"

definition proof_matches_checkpoint :: "text_codec \<Rightarrow> job_input \<Rightarrow> checkpoint \<Rightarrow> gateway_error + bool" where
  "proof_matches_checkpoint T input cp =
     and_then (expect (ji_state_before_fields input) (Failure ''missing outer state binding'')) (\<lambda>fs.
     and_then (expect (ji_action_state_precondition input) (Failure ''missing action state binding'')) (\<lambda>action.
     and_then (try_map (field T) fs) (\<lambda>state.
     if state = cp_outer_state_fields cp
     then and_then (field T action) (\<lambda>a. Inr (a = cp_action_state cp))
     else Inr False)))"

definition attach_settlement ::
  "text_codec \<Rightarrow> nat \<Rightarrow> uuid \<Rightarrow> reservation_token option \<Rightarrow> job_input \<Rightarrow> gateway \<Rightarrow> gateway_error + gateway" where
  "attach_settlement T now job_id token input g =
     and_then (expect token (conflict ''RESERVATION_REQUIRED'' ''acquire a preparation reservation before proving'')) (\<lambda>token.
     let current = gw_writer g in
     ensure (owner_matches current token \<and> ow_job_id current = None)
       (conflict ''RESERVATION_EXPIRED'' ''preparation token is no longer the current owner'') (
     and_then (ensure_no_jobs (Some job_id) g) (\<lambda>_.
     and_then (expect (ow_checkpoint current) (Failure ''reservation checkpoint missing'')) (\<lambda>cp.
     and_then (read_virtual_account g) (\<lambda>account.
     and_then (if account_matches account cp then proof_matches_checkpoint T input cp else Inr False) (\<lambda>fresh.
     ensure fresh
       (conflict ''STALE_CHECKPOINT'' ''settlement proof does not match its reserved finalized checkpoint'') (
     and_then (ledger_hashes T input) (\<lambda>_.
     ensure (lease_live now current)
       (conflict ''RESERVATION_EXPIRED'' ''preparation lease expired before admission'')
       (Inr (g\<lparr>gw_writer := current\<lparr>ow_job_id := Some job_id, ow_expires_at := None\<rparr>\<rparr>))))))))))"

definition attach_bridge ::
  "text_codec \<Rightarrow> (uuid \<Rightarrow> string) \<Rightarrow> uuid \<Rightarrow> uuid \<Rightarrow> job_input \<Rightarrow> gateway \<Rightarrow> gateway_error + gateway" where
  "attach_bridge T show_uuid fresh job_id input g =
     (let current = gw_writer g in
      ensure (ow_reservation_id current = None)
        (conflict ''OUTER_WRITER_BUSY'' ''another writer owns preparation or submission'') (
      and_then (ensure_no_jobs (Some job_id) g) (\<lambda>_.
      and_then (expect (ji_bridge_action_state input) (Failure ''missing bridge action state'')) (\<lambda>v.
      and_then (field T v) (\<lambda>expected.
      and_then (read_virtual_account g) (\<lambda>account.
      ensure (va_action_state account = Some expected)
        (conflict ''STALE_CHECKPOINT'' ''bridge input does not match finalized gateway state'') (
      and_then (next_fencing_token current) (\<lambda>token.
      Inr (g\<lparr>gw_writer := \<lparr>ow_reservation_id = Some fresh, ow_owner_id = Some (''bridge:'' @ show_uuid job_id),
        ow_fencing_token = token, ow_expires_at = None, ow_checkpoint = None,
        ow_job_id = Some job_id\<rparr>\<rparr>)))))))))"

definition attach_job ::
  "text_codec \<Rightarrow> (uuid \<Rightarrow> string) \<Rightarrow> nat \<Rightarrow> uuid \<Rightarrow> uuid \<Rightarrow> proof_kind \<Rightarrow> job_input \<Rightarrow> gateway \<Rightarrow>
   gateway_error + gateway" where
  "attach_job T show_uuid now fresh job_id kind input g =
     (case kind of
        Bridge \<Rightarrow> attach_bridge T show_uuid fresh job_id input g
      | Settlement \<Rightarrow>
          (case ji_reservation input of
             None \<Rightarrow> attach_settlement T now job_id None input g
           | Some (Inl e) \<Rightarrow> Inl (Failure e)
           | Some (Inr token) \<Rightarrow> attach_settlement T now job_id (Some token) input g))"

subsection \<open>Outcome\<close>

definition outcome_retryable :: "job \<Rightarrow> bool" where
  "outcome_retryable j \<longleftrightarrow>
     jb_status j = Ethereum_Reverted \<or>
     (jb_transaction_hash j = None \<and> jb_prepared_transaction j = None \<and>
      jb_status j \<in> {Failed, Proof_Failed} \<and>
      jb_error_class j \<in> {Some ''stale_checkpoint'', Some ''expired''}) \<or>
     (jb_status j \<in> {Queued, Approved, Submitting} \<and>
      jb_error_class j \<noteq> Some ''proof_request_ambiguous'')"

definition outcome_finalized :: "job \<Rightarrow> bool" where
  "outcome_finalized j \<longleftrightarrow> jb_status j = Confirmed"

subsection \<open>Decimal round trip\<close>

lemma digit_value_digit_char: "d < 10 \<Longrightarrow> digit_value (digit_char d) = Some d"
  by (auto simp: digit_value_def digit_char_def)

lemma parse_digits_append:
  "parse_digits acc (xs @ ys) =
     (case parse_digits acc xs of None \<Rightarrow> None | Some n \<Rightarrow> parse_digits n ys)"
  by (induction xs arbitrary: acc) (auto split: option.splits)

lemma parse_digits_show_nat: "parse_digits 0 (show_nat n) = Some n"
proof (induction n rule: show_nat.induct)
  case (1 n)
  show ?case
  proof (cases "n < 10")
    case True
    then show ?thesis by (simp add: show_nat.simps [of n] digit_value_digit_char)
  next
    case False
    then have "n div 10 * 10 + n mod 10 = n" by simp
    with False 1 show ?thesis
      by (simp add: show_nat.simps [of n] parse_digits_append digit_value_digit_char)
  qed
qed

lemma show_nat_nonempty [simp]: "show_nat n \<noteq> []"
  by (subst show_nat.simps) simp

lemma digit_char_not_sign: "d < 10 \<Longrightarrow> digit_char d \<noteq> CHR ''-'' \<and> digit_char d \<noteq> CHR ''+''"
  using digit_value_digit_char [of d] by (auto simp: digit_value_def)

lemma hd_show_nat: "hd (show_nat n) \<noteq> CHR ''-'' \<and> hd (show_nat n) \<noteq> CHR ''+''"
proof (induction n rule: show_nat.induct)
  case (1 n)
  show ?case
    by (cases "n < 10")
       (use 1 digit_char_not_sign in \<open>simp_all add: show_nat.simps [of n] hd_append\<close>)
qed

lemma parse_show_int:
  assumes "- (2 ^ 63) \<le> i" "i < 2 ^ 63"
  shows "parse_i64 (show_int i) = Some i"
proof (cases "i < 0")
  case True
  then show ?thesis
    using assms by (simp add: parse_i64_def show_int_def parse_digits_show_nat)
next
  case False
  then show ?thesis
    using assms hd_show_nat [of "nat i"]
    by (simp add: parse_i64_def show_int_def parse_digits_show_nat)
qed

subsection \<open>The row constraint\<close>

text \<open>
  The \<open>CHECK\<close> constraint of \<open>gateway_outer_writer\<close>, and the range of the token: \<open>fencing_token\<close> starts
  at 0 in a BIGINT column.
\<close>

definition writer_ok :: "writer \<Rightarrow> bool" where
  "writer_ok w \<longleftrightarrow> 0 \<le> ow_fencing_token w \<and> ow_fencing_token w < 2 ^ 63 \<and>
     ((ow_reservation_id w = None \<and> ow_owner_id w = None \<and> ow_expires_at w = None \<and>
       ow_checkpoint w = None \<and> ow_job_id w = None) \<or>
      (ow_reservation_id w \<noteq> None \<and> ow_owner_id w \<noteq> None \<and>
       (ow_job_id w \<noteq> None \<or> ow_expires_at w \<noteq> None)))"

lemma owner_matches_show:
  "writer_ok w \<Longrightarrow> ow_reservation_id w = Some i \<Longrightarrow>
   owner_matches w \<lparr>rt_id = i, rt_fencing_token = show_int (ow_fencing_token w)\<rparr>"
  by (simp add: owner_matches_def writer_ok_def parse_show_int)

lemma lock_Inr [res_simps]:
  "lock now g = Inr g' \<longleftrightarrow> gw_recovery_ready g \<and>
     g' = (if writer_stale now g then g\<lparr>gw_writer := clear_writer (gw_writer g)\<rparr> else g)"
  by (auto simp: lock_def res_simps)

lemma writer_ok_clear [intro]: "writer_ok w \<Longrightarrow> writer_ok (clear_writer w)"
  by (simp add: writer_ok_def clear_writer_def)

lemma lock_frame:
  assumes "lock now g = Inr g'"
  shows "gw_jobs g' = gw_jobs g" "gw_outer_account g' = gw_outer_account g"
    "gw_recovery_ready g'" "ow_fencing_token (gw_writer g') = ow_fencing_token (gw_writer g)"
    "writer_ok (gw_writer g) \<Longrightarrow> writer_ok (gw_writer g')"
  using assms by (auto simp: res_simps clear_writer_def writer_ok_def)

lemma ttl_Inr [res_simps]:
  "ttl v = Inr s \<longleftrightarrow> 30 \<le> s \<and> s \<le> 600 \<and> s = unat (case v of Some x \<Rightarrow> x | None \<Rightarrow> 120)"
  by (auto simp: ttl_def Let_def word_le_nat_alt split: if_splits option.splits)

lemma next_fencing_token_Inr [res_simps]:
  "next_fencing_token w = Inr t \<longleftrightarrow> t = ow_fencing_token w + 1 \<and> t < 2 ^ 63"
  by (auto simp: next_fencing_token_def res_simps)

lemma ensure_no_jobs_Inr [res_simps]:
  "ensure_no_jobs e g = Inr u \<longleftrightarrow> \<not> list_ex (outer_job_blocks e) (gw_jobs g)"
  by (simp add: ensure_no_jobs_def res_simps)

lemma owner_response_Inr [res_simps]:
  "owner_response w = Inr r \<longleftrightarrow> ow_reservation_id w = Some (rs_reservation_id r) \<and>
     ow_checkpoint w = Some (rs_checkpoint r) \<and> rs_expires_at r = ow_expires_at w \<and>
     rs_fencing_token r = show_int (ow_fencing_token w)"
  by (cases r) (auto simp: owner_response_def res_simps)

subsection \<open>What a successful operation establishes\<close>

text \<open>The writer after \<open>lock\<close>: cleared when its lease expired or its job has a known outcome.\<close>

definition effective_writer :: "nat \<Rightarrow> gateway \<Rightarrow> writer" where
  "effective_writer now g = (if writer_stale now g then clear_writer (gw_writer g) else gw_writer g)"

lemma lock_effective: "lock now g = Inr g' \<Longrightarrow> g' = g\<lparr>gw_writer := effective_writer now g\<rparr>"
  by (auto simp: res_simps effective_writer_def)

lemma effective_token [simp]: "ow_fencing_token (effective_writer now g) = ow_fencing_token (gw_writer g)"
  by (simp add: effective_writer_def clear_writer_def)

lemma effective_ok: "writer_ok (gw_writer g) \<Longrightarrow> writer_ok (effective_writer now g)"
  by (auto simp: effective_writer_def)

text \<open>A new owner of the preparation lease: its token is one more than the last, and no job is open.\<close>

definition fresh_lease :: "nat \<Rightarrow> uuid \<Rightarrow> acquire_request \<Rightarrow> nat \<Rightarrow> checkpoint \<Rightarrow> gateway \<Rightarrow> writer" where
  "fresh_lease now fresh request seconds cp g =
     \<lparr>ow_reservation_id = Some fresh, ow_owner_id = Some (aq_owner_id request),
      ow_fencing_token = ow_fencing_token (gw_writer g) + 1, ow_expires_at = Some (now + seconds),
      ow_checkpoint = Some cp, ow_job_id = None\<rparr>"

lemma acquire_cases:
  assumes "acquire_with_checkpoint now fresh request cp g = Inr (r, g')"
  obtains (renewed) s where "30 \<le> s" "s \<le> 600"
      "ow_reservation_id (effective_writer now g) \<noteq> None" "ow_job_id (effective_writer now g) = None"
      "ow_owner_id (effective_writer now g) = Some (aq_owner_id request)"
      "g' = g\<lparr>gw_writer := (effective_writer now g)\<lparr>ow_expires_at := Some (now + s)\<rparr>\<rparr>"
      "owner_response (gw_writer g') = Inr r"
  | (new_owner) s account where "30 \<le> s" "s \<le> 600" "ow_reservation_id (effective_writer now g) = None"
      "\<not> list_ex (outer_job_blocks None) (gw_jobs g)" "gw_outer_account g = Some account"
      "account_matches account cp" "ow_fencing_token (gw_writer g) + 1 < 2 ^ 63"
      "g' = g\<lparr>gw_writer := fresh_lease now fresh request s cp g\<rparr>"
      "owner_response (gw_writer g') = Inr r"
proof -
  from assms obtain s g1 where s: "30 \<le> s" "s \<le> 600" and g1: "lock now g = Inr g1"
    and rest: "and_then
       (if ow_reservation_id (gw_writer g1) \<noteq> None
        then ensure (\<not> (ow_job_id (gw_writer g1) \<noteq> None \<or>
                 ow_owner_id (gw_writer g1) \<noteq> Some (aq_owner_id request)))
               (conflict ''OUTER_WRITER_BUSY'' ''another writer owns preparation or submission'')
               (Inr ((gw_writer g1)\<lparr>ow_expires_at := Some (now + s)\<rparr>))
        else
          and_then (ensure_no_jobs None g1) (\<lambda>_.
          and_then (read_virtual_account g1) (\<lambda>account.
          ensure (account_matches account cp)
            (conflict ''STALE_CHECKPOINT'' ''gateway has not caught up to the finalized checkpoint'') (
          and_then (next_fencing_token (gw_writer g1)) (\<lambda>token.
          Inr \<lparr>ow_reservation_id = Some fresh, ow_owner_id = Some (aq_owner_id request),
               ow_fencing_token = token, ow_expires_at = Some (now + s),
               ow_checkpoint = Some cp, ow_job_id = None\<rparr>))))) (\<lambda>w.
     and_then (owner_response w) (\<lambda>response. Inr (response, g1\<lparr>gw_writer := w\<rparr>))) = Inr (r, g')"
    unfolding acquire_with_checkpoint_def Let_def and_then_Inr ensure_Inr by (auto simp: ttl_Inr)
  have g1': "g1 = g\<lparr>gw_writer := effective_writer now g\<rparr>" by (rule lock_effective [OF g1])
  show thesis
  proof (cases "ow_reservation_id (effective_writer now g) = None")
    case True
    with rest obtain account where "\<not> list_ex (outer_job_blocks None) (gw_jobs g)"
      "gw_outer_account g = Some account" "account_matches account cp"
      "ow_fencing_token (gw_writer g) + 1 < 2 ^ 63"
      "g' = g\<lparr>gw_writer := fresh_lease now fresh request s cp g\<rparr>"
      "owner_response (gw_writer g') = Inr r"
      by (auto simp: g1' ensure_no_jobs_Inr and_then_Inr ensure_Inr read_virtual_account_def
          expect_Inr next_fencing_token_Inr fresh_lease_def)
    with True s new_owner show thesis by blast
  next
    case False
    with rest have "ow_job_id (effective_writer now g) = None"
      "ow_owner_id (effective_writer now g) = Some (aq_owner_id request)"
      "g' = g\<lparr>gw_writer := (effective_writer now g)\<lparr>ow_expires_at := Some (now + s)\<rparr>\<rparr>"
      "owner_response (gw_writer g') = Inr r"
      by (auto simp: g1' and_then_Inr ensure_Inr)
    with False s renewed show thesis by blast
  qed
qed

lemma acquire_ok:
  assumes "acquire_with_checkpoint now fresh request cp g = Inr (r, g')" "writer_ok (gw_writer g)"
  shows "writer_ok (gw_writer g')"
  using assms(1)
proof (cases rule: acquire_cases)
  case (renewed s)
  then show ?thesis using effective_ok [OF assms(2), of now] by (auto simp: writer_ok_def)
next
  case (new_owner s account)
  then show ?thesis using assms(2) by (simp add: writer_ok_def fresh_lease_def)
qed

lemma renew_cases:
  assumes "renew now i token ttl_seconds g = Inr (r, g')"
  obtains (renewed) s where "30 \<le> s" "s \<le> 600" "ow_reservation_id (gw_writer g) = Some i"
      "ow_job_id (gw_writer g) = None" "lease_live now (gw_writer g)"
      "g' = g\<lparr>gw_writer := (gw_writer g)\<lparr>ow_expires_at := Some (now + s)\<rparr>\<rparr>"
  | (attached) "ow_reservation_id (gw_writer g) = Some i" "ow_job_id (gw_writer g) \<noteq> None" "g' = g"
proof -
  from assms obtain s where s: "30 \<le> s" "s \<le> 600"
    and rest: "renew_token now \<lparr>rt_id = i, rt_fencing_token = token\<rparr> s g = Inr (r, g')"
    unfolding renew_def and_then_Inr ttl_Inr by blast
  have own: "ow_reservation_id (gw_writer g) = Some i"
    using rest by (simp add: renew_token_def Let_def ensure_Inr owner_matches_def)
  show thesis
  proof (cases "ow_job_id (gw_writer g) = None")
    case True
    with rest have "lease_live now (gw_writer g)"
      "g' = g\<lparr>gw_writer := (gw_writer g)\<lparr>ow_expires_at := Some (now + s)\<rparr>\<rparr>"
      by (auto simp: renew_token_def Let_def ensure_Inr and_then_Inr)
    with True own s renewed show thesis by blast
  next
    case False
    with rest have "g' = g" by (auto simp: renew_token_def Let_def ensure_Inr and_then_Inr)
    with False own attached show thesis by blast
  qed
qed

lemma renew_ok:
  assumes "renew now i token ttl_seconds g = Inr (r, g')" "writer_ok (gw_writer g)"
  shows "writer_ok (gw_writer g')"
  using assms(1) by (cases rule: renew_cases) (use assms(2) in \<open>auto simp: writer_ok_def\<close>)

lemma release_cases:
  assumes "release now i token g = Inr g'"
  obtains (free) "ow_reservation_id (effective_writer now g) = None"
      "g' = g\<lparr>gw_writer := effective_writer now g\<rparr>"
  | (released_lease) "ow_reservation_id (effective_writer now g) = Some i"
      "parse_i64 token = Some (ow_fencing_token (gw_writer g))"
      "ow_job_id (effective_writer now g) = None"
      "g' = g\<lparr>gw_writer := clear_writer (effective_writer now g)\<rparr>"
proof -
  from assms obtain g1 where g1: "lock now g = Inr g1"
    and rest: "(if ow_reservation_id (gw_writer g1) = None then Inr g1
     else
       ensure (owner_matches (gw_writer g1) \<lparr>rt_id = i, rt_fencing_token = token\<rparr>)
         (conflict ''RESERVATION_EXPIRED'' ''reservation was released or fenced'') (
       ensure (ow_job_id (gw_writer g1) = None)
         (conflict ''OUTER_WRITER_BUSY'' ''accepted job ownership lasts until its outcome is reconciled'')
         (Inr (g1\<lparr>gw_writer := (gw_writer g1)\<lparr>ow_reservation_id := None, ow_owner_id := None,
            ow_expires_at := None, ow_checkpoint := None\<rparr>\<rparr>)))) = Inr g'"
    unfolding release_def Let_def and_then_Inr by blast
  have g1': "g1 = g\<lparr>gw_writer := effective_writer now g\<rparr>" by (rule lock_effective [OF g1])
  show thesis
    using rest free released_lease
    by (auto simp: g1' ensure_Inr owner_matches_def clear_writer_def split: if_splits)
qed

text \<open>
  The fields a job's input commits to: the source state and action state of a settlement proof, the
  action state of a bridge batch.
\<close>

lemma proof_matches_checkpoint_True:
  "proof_matches_checkpoint T input cp = Inr True \<longleftrightarrow>
     (\<exists>fs a. ji_state_before_fields input = Some fs \<and> ji_action_state_precondition input = Some a \<and>
       try_map (field T) fs = Inr (cp_outer_state_fields cp) \<and> field T a = Inr (cp_action_state cp))"
  by (auto simp: proof_matches_checkpoint_def and_then_Inr expect_Inr split: if_splits)

lemma attach_settlement_Inr:
  "attach_settlement T now job_id token input g = Inr g' \<longleftrightarrow>
     (\<exists>t cp account hashes. token = Some t \<and> owner_matches (gw_writer g) t \<and>
        ow_job_id (gw_writer g) = None \<and> \<not> list_ex (outer_job_blocks (Some job_id)) (gw_jobs g) \<and>
        ow_checkpoint (gw_writer g) = Some cp \<and> gw_outer_account g = Some account \<and>
        account_matches account cp \<and> proof_matches_checkpoint T input cp = Inr True \<and>
        ledger_hashes T input = Inr hashes \<and> lease_live now (gw_writer g) \<and>
        g' = g\<lparr>gw_writer := (gw_writer g)\<lparr>ow_job_id := Some job_id, ow_expires_at := None\<rparr>\<rparr>)"
    (is "?run \<longleftrightarrow> ?checks")
proof
  assume ?run
  then show ?checks
    by (auto simp: attach_settlement_def Let_def and_then_Inr ensure_Inr expect_Inr ensure_no_jobs_Inr
        read_virtual_account_def split: if_splits)
next
  assume ?checks
  then show ?run
    by (elim exE conjE)
       (simp add: attach_settlement_def Let_def ensure_no_jobs_def read_virtual_account_def expect_def)
qed

lemma attach_bridge_Inr:
  "attach_bridge T show_uuid fresh job_id input g = Inr g' \<longleftrightarrow>
     (\<exists>v expected account. ow_reservation_id (gw_writer g) = None \<and>
        \<not> list_ex (outer_job_blocks (Some job_id)) (gw_jobs g) \<and>
        ji_bridge_action_state input = Some v \<and> field T v = Inr expected \<and>
        gw_outer_account g = Some account \<and> va_action_state account = Some expected \<and>
        ow_fencing_token (gw_writer g) + 1 < 2 ^ 63 \<and>
        g' = g\<lparr>gw_writer := \<lparr>ow_reservation_id = Some fresh, ow_owner_id = Some (''bridge:'' @ show_uuid job_id),
          ow_fencing_token = ow_fencing_token (gw_writer g) + 1, ow_expires_at = None,
          ow_checkpoint = None, ow_job_id = Some job_id\<rparr>\<rparr>)"
  by (auto simp: attach_bridge_def Let_def and_then_Inr ensure_Inr expect_Inr ensure_no_jobs_Inr
      read_virtual_account_def next_fencing_token_Inr)

lemma attach_job_Inr:
  "attach_job T show_uuid now fresh job_id kind input g = Inr g' \<longleftrightarrow>
     (case kind of
        Bridge \<Rightarrow> attach_bridge T show_uuid fresh job_id input g = Inr g'
      | Settlement \<Rightarrow> (\<exists>t. ji_reservation input = Some (Inr t) \<and>
          attach_settlement T now job_id (Some t) input g = Inr g'))"
  by (auto simp: attach_job_def attach_settlement_Inr split: proof_kind.splits option.splits sum.splits)

lemma attach_job_frame:
  assumes "attach_job T show_uuid now fresh job_id kind input g = Inr g'"
  shows "gw_jobs g' = gw_jobs g" "gw_outer_account g' = gw_outer_account g"
    "gw_recovery_ready g' = gw_recovery_ready g" "ow_job_id (gw_writer g') = Some job_id"
    "\<not> list_ex (outer_job_blocks (Some job_id)) (gw_jobs g)"
  using assms
  by (auto simp: attach_job_Inr attach_settlement_Inr attach_bridge_Inr split: proof_kind.splits)

lemma attach_job_ok:
  assumes "attach_job T show_uuid now fresh job_id kind input g = Inr g'" "writer_ok (gw_writer g)"
  shows "writer_ok (gw_writer g')"
  using assms
  by (auto simp: attach_job_Inr attach_settlement_Inr attach_bridge_Inr writer_ok_def owner_matches_def
      split: proof_kind.splits)

lemma account_matches_iff:
  "account_matches account cp \<longleftrightarrow> va_zkapp_state account = Some (cp_outer_state_fields cp) \<and>
     va_action_state account = Some (cp_action_state cp)"
  by (simp add: account_matches_def)

subsection \<open>A sample state\<close>

text \<open>
  Text codecs that can be run by hand: a field is written as 64 characters, one per half byte, and a
  32-byte value is shown as the same 64 characters.
\<close>

definition sample_text :: text_codec where
  "sample_text =
     \<lparr>hex_decode = (\<lambda>s. Some (map (\<lambda>c. word_of_nat (of_char c)) s)),
      u256_to_string = (\<lambda>bs. map (\<lambda>b. char_of (unat b)) (dropWhile (\<lambda>b. b = 0) bs))\<rparr>"

definition sample_field :: "char \<Rightarrow> string" where
  "sample_field c = ''0x'' @ replicate 31 (char_of (0::nat)) @ [c]"

definition sample_checkpoint :: checkpoint where
  "sample_checkpoint =
     \<lparr>cp_outer_state_fields = [''a'', ''b'', ''c''], cp_ledger_hash = ''c'', cp_action_state = ''d'',
      cp_action_state_length = 7, cp_block_number = 100, cp_block_hash = ''e''\<rparr>"

definition sample_input :: "reservation_token option \<Rightarrow> job_input" where
  "sample_input t =
     \<lparr>ji_reservation = map_option Inr t,
      ji_state_before_fields = Some (map (\<lambda>c. Some (sample_field c)) ''abc''),
      ji_action_state_precondition = Some (Some (sample_field (CHR ''d''))),
      ji_target_ledger = Some (Some (sample_field (CHR ''f''))),
      ji_bridge_action_state = Some (Some (sample_field (CHR ''d''))),
      ji_mina_transaction_hash = Some ''0x00'',
      ji_bridge_context = Inl ''missing field'', ji_recovered = False,
      ji_submission = Some \<lparr>si_outer_account = Some ''outer'', si_fee_payer = Some ''payer'', si_nonce = Some 0,
        si_actions = Some (Some []), si_inner_batch = None\<rparr>\<rparr>"

definition free_writer :: "int \<Rightarrow> writer" where
  "free_writer token =
     \<lparr>ow_reservation_id = None, ow_owner_id = None, ow_fencing_token = token, ow_expires_at = None,
      ow_checkpoint = None, ow_job_id = None\<rparr>"

definition sample_gateway :: gateway where
  "sample_gateway =
     \<lparr>gw_recovery_ready = True,
      gw_outer_account = Some \<lparr>va_zkapp_state = Some [''a'', ''b'', ''c''], va_action_state = Some ''d''\<rparr>,
      gw_writer = free_writer 41, gw_jobs = [], gw_pending_commands = []\<rparr>"

definition sample_request :: acquire_request where
  "sample_request = \<lparr>aq_owner_id = ''sequencer'', aq_ttl_seconds = Some 60\<rparr>"

lemmas sample_writer_defs = sample_text_def sample_field_def sample_checkpoint_def sample_input_def
  free_writer_def sample_gateway_def sample_request_def

subsection \<open>Properties\<close>

lemma outer_job_blocks_iff:
  "outer_job_blocks e (k, j) \<longleftrightarrow> (case e of None \<Rightarrow> True | Some i \<Rightarrow> k \<noteq> i) \<and> \<not> released j"
  using proof_kind.exhaust [of "jb_kind j"] by (auto simp: outer_job_blocks_def split: option.splits)

lemma no_other_open_job:
  "list_all (\<lambda>(k, j). k = i \<or> released j) t \<longleftrightarrow> \<not> list_ex (outer_job_blocks (Some i)) t"
  by (induction t) (auto simp: outer_job_blocks_iff)

text \<open>
  The reservation that \<open>acquire\<close> returns is usable: until it expires, \<open>renew\<close> with the returned
  identifier and token (a decimal string that \<open>renew\<close> parses back) extends exactly this lease and
  returns the same reservation, token and checkpoint.
\<close>

lemma acquire_then_renew:
  assumes "acquire_with_checkpoint now fresh request cp g = Inr (r, g')" "writer_ok (gw_writer g)"
    and "rs_expires_at r = Some e" "later < e" "ttl v = Inr s"
  shows "renew later (rs_reservation_id r) (rs_fencing_token r) v g' =
    Inr (r\<lparr>rs_expires_at := Some (later + s)\<rparr>,
         g'\<lparr>gw_writer := (gw_writer g')\<lparr>ow_expires_at := Some (later + s)\<rparr>\<rparr>)"
proof -
  have ok: "writer_ok (gw_writer g')" by (rule acquire_ok [OF assms(1,2)])
  have w: "owner_response (gw_writer g') = Inr r" "ow_job_id (gw_writer g') = None"
    using assms(1) by (cases rule: acquire_cases; simp add: fresh_lease_def)+
  note r = w(1) [unfolded owner_response_Inr]
  have "owner_matches (gw_writer g')
      \<lparr>rt_id = rs_reservation_id r, rt_fencing_token = rs_fencing_token r\<rparr>"
    using owner_matches_show [OF ok] r by simp
  moreover have "ow_expires_at (gw_writer g') = Some e" using r assms(3) by metis
  then have "lease_live later (gw_writer g')" using assms(4) by (simp add: lease_live_def)
  ultimately show ?thesis
    using w(2) r assms(5)
    by (cases r) (simp add: renew_def renew_token_def owner_response_def expect_def Let_def)
qed

lemma sample_acquire:
  "acquire_with_checkpoint 1000 7 sample_request sample_checkpoint sample_gateway =
     Inr (\<lparr>rs_reservation_id = 7, rs_fencing_token = ''42'', rs_expires_at = Some 1060,
            rs_checkpoint = sample_checkpoint\<rparr>,
          sample_gateway\<lparr>gw_writer := fresh_lease 1000 7 sample_request 60 sample_checkpoint sample_gateway\<rparr>)"
  by code_simp

text \<open>
  A live owner cannot be displaced.  While another owner's preparation lease has not expired, or a
  job whose outcome is open is attached, \<open>acquire\<close> and the admission of a bridge batch both fail
  with \<open>OUTER_WRITER_BUSY\<close>.
\<close>

lemma live_owner_excludes_others:
  assumes "gw_recovery_ready g" "ow_reservation_id (gw_writer g) \<noteq> None"
    and "ttl (aq_ttl_seconds request) = Inr s"
    and "aq_owner_id request \<noteq> []" "length (aq_owner_id request) \<le> 200"
    and "(case ow_job_id (gw_writer g) of
            None \<Rightarrow> lease_live now (gw_writer g) \<and>
                    ow_owner_id (gw_writer g) \<noteq> Some (aq_owner_id request)
          | Some i \<Rightarrow> list_all (\<lambda>(k, j). k = i \<longrightarrow> \<not> released j) (gw_jobs g))"
  shows "acquire_with_checkpoint now fresh request cp g =
      Inl (conflict ''OUTER_WRITER_BUSY'' ''another writer owns preparation or submission'') \<and>
    and_then (lock now g) (attach_bridge T show_uuid fresh job_id input) =
      Inl (conflict ''OUTER_WRITER_BUSY'' ''another writer owns preparation or submission'')"
proof
  obtain i where i: "ow_reservation_id (gw_writer g) = Some i" using assms(2) by blast
  have live: "\<not> writer_stale now g"
    using assms(6) by (auto simp: writer_stale_def lease_expired_def lease_live_def list_ex_iff
        list_all_iff split: option.splits)
  then have lock: "lock now g = Inr g" using assms(1) by (simp add: lock_def)
  show "acquire_with_checkpoint now fresh request cp g =
      Inl (conflict ''OUTER_WRITER_BUSY'' ''another writer owns preparation or submission'')"
    using i assms(3-6) lock by (auto simp: acquire_with_checkpoint_def Let_def split: option.splits)
  show "and_then (lock now g) (attach_bridge T show_uuid fresh job_id input) =
      Inl (conflict ''OUTER_WRITER_BUSY'' ''another writer owns preparation or submission'')"
    using i lock by (simp add: attach_bridge_def Let_def)
qed

text \<open>The sample gateway after the sequencer acquired the writer.\<close>

definition leased_gateway :: gateway where
  "leased_gateway =
     sample_gateway\<lparr>gw_writer := fresh_lease 1000 7 sample_request 60 sample_checkpoint sample_gateway\<rparr>"

definition rival_request :: acquire_request where
  "rival_request = \<lparr>aq_owner_id = ''rival'', aq_ttl_seconds = None\<rparr>"

text \<open>
  Admission binds a job to the finalized state.  A job is attached only when every other outer job
  has a known outcome, and its input commits to the state of the gateway's outer account: a settlement
  proof starts from its state fields and action state, a bridge batch from its action state.  The job
  then holds the writer without an expiry.
\<close>

lemma admission_binds_finalized_state:
  assumes "attach_job T show_uuid now fresh job_id kind input g = Inr g'"
  shows "\<exists>account action. gw_outer_account g = Some account \<and>
     list_all (\<lambda>(k, j). k = job_id \<or> released j) (gw_jobs g) \<and>
     ow_job_id (gw_writer g') = Some job_id \<and> ow_expires_at (gw_writer g') = None \<and>
     va_action_state account = Some action \<and>
     (case kind of
        Bridge \<Rightarrow> \<exists>v. ji_bridge_action_state input = Some v \<and> field T v = Inr action
      | Settlement \<Rightarrow> \<exists>fs v state. ji_state_before_fields input = Some fs \<and>
          try_map (field T) fs = Inr state \<and> va_zkapp_state account = Some state \<and>
          ji_action_state_precondition input = Some v \<and> field T v = Inr action)"
proof (cases kind)
  case Settlement
  with assms show ?thesis
    by (auto simp: attach_job_Inr attach_settlement_Inr account_matches_iff
        proof_matches_checkpoint_True no_other_open_job)
next
  case Bridge
  with assms show ?thesis
    by (auto simp: attach_job_Inr attach_bridge_Inr no_other_open_job)
qed

definition sample_token :: reservation_token where
  "sample_token = \<lparr>rt_id = 7, rt_fencing_token = ''42''\<rparr>"

definition attached_writer :: writer where
  "attached_writer = (gw_writer leased_gateway)\<lparr>ow_job_id := Some 5, ow_expires_at := None\<rparr>"

lemma sample_attach:
  "attach_job sample_text (\<lambda>_. []) 1059 8 5 Settlement (sample_input (Some sample_token)) leased_gateway =
     Inr (leased_gateway\<lparr>gw_writer := attached_writer\<rparr>)"
  by code_simp

end
