(* ===== verification/Submission.thy ===== *)
theory Submission
  imports Outer_Writer
begin

text \<open>
  \<open>api/src/submission.rs\<close> and the statements of \<open>api/src/main.rs\<close> that change a proof job: how a
  failure is classified and retried, how an SP1 proof request is sealed before it is sent, how a
  signed transaction is stored before it is broadcast, and how jobs are admitted, approved, cancelled
  and claimed.  Each definition is one SQL statement or one transaction; what runs between them is in
  \<open>Worker\<close>.
\<close>

subsection \<open>Failure classes\<close>

datatype failure_class =
    Snapshot_Unavailable | Rate_Limited | Transport | Insufficient_Funds | Stale_Checkpoint
  | Expired | Rejected_Class | Unknown

definition class_as_str :: "failure_class \<Rightarrow> string" where
  "class_as_str c = (case c of
       Snapshot_Unavailable \<Rightarrow> ''snapshot_unavailable''
     | Rate_Limited \<Rightarrow> ''rate_limited''
     | Transport \<Rightarrow> ''transport''
     | Insufficient_Funds \<Rightarrow> ''insufficient_funds''
     | Stale_Checkpoint \<Rightarrow> ''stale_checkpoint''
     | Expired \<Rightarrow> ''expired''
     | Rejected_Class \<Rightarrow> ''rejected''
     | Unknown \<Rightarrow> ''unknown'')"

definition class_retryable :: "failure_class \<Rightarrow> bool" where
  "class_retryable c \<longleftrightarrow>
     c \<in> {Snapshot_Unavailable, Rate_Limited, Transport, Insufficient_Funds}"

text \<open>
  An error value: its message, what \<open>rpc::classify\<close> and \<open>rpc::is_rate_limited\<close> say of it, the
  database errors in its chain of causes and the code of a coordination error.
\<close>

datatype rpc_failure_kind = Rpc_Snapshot_Unavailable | Rpc_Transient | Rpc_Insufficient_Funds | Rpc_Other

datatype sqlx_error =
    Sqlx_Io | Pool_Timed_Out | Pool_Closed | Worker_Crashed | Database "string option" | Sqlx_Other

record failure =
  fl_message :: string
  fl_rpc_kind :: rpc_failure_kind
  fl_rate_limited :: bool
  fl_sqlx :: "sqlx_error list"
  fl_code :: "string option"

definition plain_failure :: "string \<Rightarrow> failure" where
  "plain_failure m = \<lparr>fl_message = m, fl_rpc_kind = Rpc_Other, fl_rate_limited = False,
     fl_sqlx = [], fl_code = None\<rparr>"

definition coordination_failure :: "gateway_error \<Rightarrow> failure" where
  "coordination_failure e =
     (case e of Conflict code message \<Rightarrow> (plain_failure (code @ '': '' @ message))\<lparr>fl_code := Some code\<rparr>
      | Failure message \<Rightarrow> plain_failure message)"

definition to_ascii_lowercase :: "string \<Rightarrow> string" where
  "to_ascii_lowercase = map (\<lambda>c. let n = of_char c :: nat in
     if 65 \<le> n \<and> n \<le> 90 then char_of (n + 32) else c)"

fun contains :: "string \<Rightarrow> string \<Rightarrow> bool" where
  "contains [] p = (p = [])"
| "contains (c # cs) p = (take (length p) (c # cs) = p \<or> contains cs p)"

definition transient_database_error :: "failure \<Rightarrow> bool" where
  "transient_database_error e = list_ex (\<lambda>x. case x of
       Sqlx_Io \<Rightarrow> True | Pool_Timed_Out \<Rightarrow> True | Pool_Closed \<Rightarrow> True | Worker_Crashed \<Rightarrow> True
     | Database None \<Rightarrow> False
     | Database (Some code) \<Rightarrow> take 2 code = ''08'' \<or>
         code \<in> {''40001'', ''40P01'', ''53300'', ''55P03'', ''57P01'', ''57P02'', ''57P03''}
     | Sqlx_Other \<Rightarrow> False) (fl_sqlx e)"

definition classify :: "failure \<Rightarrow> failure_class" where
  "classify e =
     (let m = to_ascii_lowercase (fl_message e) in
      if fl_rpc_kind e = Rpc_Snapshot_Unavailable then Snapshot_Unavailable
      else if fl_rpc_kind e = Rpc_Insufficient_Funds \<or> contains m ''insufficient funds''
      then Insufficient_Funds
      else if fl_rate_limited e \<or> contains m ''429'' \<or> contains m ''-32007'' \<or>
        contains m ''rate limit'' \<or> contains m ''too many requests''
      then Rate_Limited
      else if contains m ''action state mismatch'' \<or>
        contains m ''outer action-state length mismatch'' \<or>
        contains m ''settlement batch sequence mismatch'' \<or>
        contains m ''stale settlement'' \<or> contains m ''stale checkpoint'' \<or>
        (contains m ''outer state field'' \<and> contains m ''mismatch'') \<or>
        fl_code e = Some ''STALE_CHECKPOINT''
      then Stale_Checkpoint
      else if contains m ''expired'' \<or> contains m ''remaining slots'' \<or> contains m ''slots remaining''
      then Expired
      else if transient_database_error e \<or> fl_rpc_kind e = Rpc_Transient \<or>
        contains m ''timed out'' \<or> contains m ''timeout'' \<or> contains m ''connection reset'' \<or>
        contains m ''connection refused'' \<or> contains m ''connection closed'' \<or>
        contains m ''error sending request'' \<or> contains m ''temporarily unavailable'' \<or>
        contains m ''http error 502'' \<or> contains m ''http error 503'' \<or> contains m ''http error 504''
      then Transport
      else if contains m ''cancelled'' \<or> contains m ''rejected'' then Rejected_Class
      else Unknown)"

text \<open>\<open>database_safe_error\<close>: a NUL character is written as a backslash and a zero.\<close>

definition database_safe_error :: "failure \<Rightarrow> string" where
  "database_safe_error e =
     concat (map (\<lambda>c. if c = char_of (0::nat) then [char_of (92::nat), CHR ''0''] else [c]) (fl_message e))"

text \<open>The delay in seconds, at the width of the source.\<close>

definition retry_delay :: "u32 \<Rightarrow> failure_class \<Rightarrow> u64 \<Rightarrow> u64" where
  "retry_delay attempt class jitter =
     (let base = (if class = Insufficient_Funds then 30 else 2);
          seconds = min (base * push_bit (unat (min attempt 8)) 1) 300
      in seconds + jitter mod (seconds div 4 + 1))"

subsection \<open>Statements on one job\<close>

text \<open>
  \<open>affect_one\<close> is an \<open>UPDATE \<dots> WHERE id = $1 AND p\<close> followed by the check that one row was changed.
\<close>

definition affect_one :: "uuid \<Rightarrow> (job \<Rightarrow> bool) \<Rightarrow> (job \<Rightarrow> job) \<Rightarrow> string \<Rightarrow> job_table \<Rightarrow> failure + job_table" where
  "affect_one i p f message t =
     (let (t', n) = update_where (\<lambda>k j. k = i \<and> p j) f t in
      ensure (n = 1) (plain_failure message) (Inr t'))"

definition recover_row :: "job \<Rightarrow> job" where
  "recover_row j =
     (let ambiguous = (jb_proof_request_intent j \<noteq> None \<and> jb_proof_request_id j = None) in
      j\<lparr>jb_status := (if ambiguous then Queued
           else if jb_transaction_hash j \<noteq> None \<and> jb_prepared_transaction j = None then Submitted
           else if jb_approved j then Approved else Queued),
        jb_error := Some (if ambiguous
           then ''SP1 request outcome is unknown; reconcile the persisted intent before retrying''
           else ''worker restarted before completion''),
        jb_error_class := (if ambiguous then Some ''proof_request_ambiguous'' else jb_error_class j),
        jb_attempts := jb_attempts j + 1\<rparr>)"

text \<open>\<open>attempts + 1\<close> on an INTEGER column fails instead of wrapping, and the statement with it.\<close>

definition attempts_fit :: "job \<Rightarrow> bool" where
  "attempts_fit j \<longleftrightarrow> jb_attempts j + 1 < 2 ^ 31"

definition interrupted :: "job \<Rightarrow> bool" where
  "interrupted j \<longleftrightarrow> jb_status j \<in> {Validating, Proof_Requested, Proving, Submitting}"

definition recover_interrupted :: "job_table \<Rightarrow> failure + job_table" where
  "recover_interrupted t =
     ensure (list_all (\<lambda>(k, j). interrupted j \<longrightarrow> attempts_fit j) t) (plain_failure ''integer out of range'')
       (Inr (fst (update_where (\<lambda>k j. interrupted j) recover_row t)))"

definition begin_proof_request :: "uuid \<Rightarrow> uuid \<Rightarrow> int \<Rightarrow> job_table \<Rightarrow> failure + job_table" where
  "begin_proof_request intent i attempts t =
     affect_one i
       (\<lambda>j. jb_attempts j = attempts \<and> jb_status j = Proving \<and>
            jb_proof_request_intent j = None \<and> jb_proof_request_id j = None)
       (\<lambda>j. j\<lparr>jb_proof_request_intent := Some intent\<rparr>)
       ''proof request already sealed or worker claim was fenced'' t"

definition finish_proof_request :: "uuid \<Rightarrow> uuid \<Rightarrow> string \<Rightarrow> job_table \<Rightarrow> failure + job_table" where
  "finish_proof_request i intent request_id t =
     affect_one i
       (\<lambda>j. jb_proof_request_intent j = Some intent \<and>
            (jb_proof_request_id j = None \<or> jb_proof_request_id j = Some request_id) \<and>
            jb_status j \<in> {Queued, Approved, Proving, Proof_Requested})
       (\<lambda>j. j\<lparr>jb_proof_request_id := Some request_id,
              jb_status := (if jb_status j = Proving then Proof_Requested else jb_status j),
              jb_error := None, jb_error_class := None, jb_next_attempt_at := None\<rparr>)
       ''proof request response does not match its durable intent'' t"

text \<open>
  \<open>send\<close> in its three statements: the proof is stored, a newly signed transaction is stored unless
  one is already there, and after the broadcast the job is marked as submitted.
\<close>

definition begin_send :: "uuid \<Rightarrow> int \<Rightarrow> bytes \<Rightarrow> bytes \<Rightarrow> job_table \<Rightarrow> failure + prepared_submission option \<times> job_table" where
  "begin_send i attempts public_values proof t =
     and_then (affect_one i
       (\<lambda>j. jb_attempts j = attempts \<and> jb_status j \<in> {Validating, Proving, Proof_Requested, Submitting})
       (\<lambda>j. j\<lparr>jb_public_values := Some public_values, jb_proof_bytes := Some proof,
              jb_transaction_hash := (case jb_prepared_transaction j of
                  Some p \<Rightarrow> Some (ps_transaction_hash p) | None \<Rightarrow> jb_transaction_hash j),
              jb_status := Submitting\<rparr>)
       ''proof job was cancelled before preparing submission'' t) (\<lambda>t'.
     Inr (case map_of t' i of Some j \<Rightarrow> jb_prepared_transaction j | None \<Rightarrow> None, t'))"

definition persist_prepared :: "uuid \<Rightarrow> int \<Rightarrow> prepared_submission \<Rightarrow> job_table \<Rightarrow> failure + job_table" where
  "persist_prepared i attempts p t =
     affect_one i
       (\<lambda>j. jb_attempts j = attempts \<and> jb_status j = Submitting \<and> jb_prepared_transaction j = None)
       (\<lambda>j. j\<lparr>jb_prepared_transaction := Some p, jb_transaction_hash := Some (ps_transaction_hash p)\<rparr>)
       ''proof job was cancelled before persisting submission'' t"

definition mark_submitted :: "uuid \<Rightarrow> int \<Rightarrow> job_table \<Rightarrow> job_table" where
  "mark_submitted i attempts t =
     fst (update_where (\<lambda>k j. k = i \<and> jb_attempts j = attempts \<and> jb_status j = Submitting)
       (\<lambda>j. j\<lparr>jb_status := Submitted, jb_error := None, jb_error_class := None,
              jb_next_attempt_at := None\<rparr>) t)"

definition settled_status :: "proof_status \<Rightarrow> bool" where
  "settled_status s \<longleftrightarrow>
     s \<in> {Confirmed, Reorged, Rejected, Ethereum_Reverted, Failed, Proof_Failed, Executed}"

text \<open>
  The retry counter as \<open>u32\<close>; a negative count reads as the largest value.  The jitter is the low half
  of the job's identifier.
\<close>

definition retry_count_u32 :: "int \<Rightarrow> u32" where
  "retry_count_u32 n = (if 0 \<le> n then word_of_int n else - 1)"

definition failed_row :: "nat \<Rightarrow> uuid \<Rightarrow> failure \<Rightarrow> job \<Rightarrow> job" where
  "failed_row now i e j =
     (let class = classify e;
          may_have_broadcast = (jb_prepared_transaction j \<noteq> None \<or> jb_transaction_hash j \<noteq> None);
          unknown_proof_request = (jb_proof_request_intent j \<noteq> None \<and> jb_proof_request_id j = None);
          delay = retry_delay (retry_count_u32 (jb_retry_count j)) class (word_of_nat i);
          message = database_safe_error e
      in if unknown_proof_request
         then j\<lparr>jb_status := Queued,
                jb_error := Some (''SP1 request outcome is unknown; reconcile the persisted intent before retrying: '' @ message),
                jb_error_class := Some ''proof_request_ambiguous'', jb_next_attempt_at := None\<rparr>
         else if class_retryable class \<or> may_have_broadcast
         then j\<lparr>jb_status := (if jb_approved j then Approved else Queued), jb_error := Some message,
                jb_error_class := Some (class_as_str class),
                jb_next_attempt_at := Some (now + unat delay),
                jb_retry_count := min (jb_retry_count j + 1) 2147483647\<rparr>
         else j\<lparr>jb_status := Failed, jb_error := Some message, jb_error_class := Some (class_as_str class),
                jb_next_attempt_at := None\<rparr>)"

definition delete_pending :: "uuid \<Rightarrow> gateway \<Rightarrow> gateway" where
  "delete_pending i g = g\<lparr>gw_pending_commands := filter (\<lambda>k. k \<noteq> i) (gw_pending_commands g)\<rparr>"

definition record_failure :: "nat \<Rightarrow> uuid \<Rightarrow> int \<Rightarrow> failure \<Rightarrow> gateway \<Rightarrow> failure + gateway" where
  "record_failure now i attempts e g =
     (case map_of (gw_jobs g) i of
        None \<Rightarrow> Inl (plain_failure ''no rows returned'')
      | Some j \<Rightarrow>
          if jb_attempts j \<noteq> attempts \<or> settled_status (jb_status j) then Inr g
          else
            let j' = failed_row now i e j;
                g' = g\<lparr>gw_jobs := fst (update_where (\<lambda>k _. k = i) (\<lambda>_. j') (gw_jobs g))\<rparr>
            in Inr (if jb_status j' = Failed then delete_pending i g' else g'))"

subsection \<open>Admission, approval, cancellation\<close>

definition active_status :: "proof_status \<Rightarrow> bool" where
  "active_status s \<longleftrightarrow>
     s \<in> {Validating, Awaiting_Approval, Approved, Proof_Requested, Proving, Submitting, Submitted}"

text \<open>The index \<open>one_active_bridge_batch\<close> also counts queued batches.\<close>

definition active_bridge :: "uuid \<times> job \<Rightarrow> bool" where
  "active_bridge = (\<lambda>(k, j). jb_kind j = Bridge \<and> (jb_status j = Queued \<or> active_status (jb_status j)))"

definition insert_job ::
  "uuid \<Rightarrow> proof_kind \<Rightarrow> job_input \<Rightarrow> string option \<Rightarrow> string \<Rightarrow> job_table \<Rightarrow> gateway_error + uuid \<times> job_table" where
  "insert_job i kind input key digest t =
     (case (if key = None then None else find (\<lambda>(k, j). jb_idempotency_key j = key) t) of
        Some (k, j) \<Rightarrow>
          ensure (jb_input_digest j = digest)
            (Failure ''idempotency key already exists with a different payload'') (Inr (k, t))
      | None \<Rightarrow>
          ensure (map_of t i = None) (Failure ''duplicate key value violates proof_jobs_pkey'') (
          ensure (\<not> (kind = Bridge \<and> list_ex active_bridge t))
            (Failure ''duplicate key value violates one_active_bridge_batch'')
            (Inr (i, t @ [(i, new_job kind input key digest)]))))"

definition default_key :: "(uuid \<Rightarrow> string) \<Rightarrow> proof_kind \<Rightarrow> job_input \<Rightarrow> string option" where
  "default_key show_uuid kind input =
     (case kind of
        Bridge \<Rightarrow> None
      | Settlement \<Rightarrow> map_option (\<lambda>hash. settlement_idempotency_key show_uuid hash
            (case ji_reservation input of Some (Inr r) \<Rightarrow> Some r | _ \<Rightarrow> None))
          (ji_mina_transaction_hash input))"

text \<open>
  \<open>create_job\<close> as one transaction: an error leaves the state as it was.  \<open>digest\<close> stands for
  \<open>proof_input_digest\<close> (SHA-256 of the JSON text).
\<close>

definition create_job ::
  "text_codec \<Rightarrow> (uuid \<Rightarrow> string) \<Rightarrow> (job_input \<Rightarrow> string) \<Rightarrow> nat \<Rightarrow> uuid \<Rightarrow> uuid \<Rightarrow> string option \<Rightarrow>
   proof_kind \<Rightarrow> job_input \<Rightarrow> gateway \<Rightarrow> gateway_error + uuid \<times> gateway" where
  "create_job T show_uuid digest now fresh i header_key kind input g =
     (let key = (case header_key of Some k \<Rightarrow> Some k | None \<Rightarrow> default_key show_uuid kind input) in
      and_then (lock now g) (\<lambda>g.
      and_then (insert_job i kind input key (digest input) (gw_jobs g)) (\<lambda>(actual, t).
      if actual = i
      then and_then (attach_job T show_uuid now fresh i kind input (g\<lparr>gw_jobs := t\<rparr>)) (\<lambda>g'. Inr (actual, g'))
      else Inr (actual, g\<lparr>gw_jobs := t\<rparr>))))"

definition parse_positive_u64 :: "string \<Rightarrow> string \<Rightarrow> failure + nat" where
  "parse_positive_u64 v name =
     (let digits = (if v \<noteq> [] \<and> hd v = CHR ''+'' then tl v else v);
          parsed = (if digits = [] then None else
            case parse_digits 0 digits of None \<Rightarrow> None | Some n \<Rightarrow> if n < 2 ^ 64 then Some n else None)
      in and_then (expect parsed (plain_failure (name @ '' must be an unsigned integer string''))) (\<lambda>n.
         ensure (0 < n) (plain_failure (name @ '' must be greater than zero'')) (Inr n)))"

record approve_request =
  ar_input_digest :: string
  ar_max_pgu :: string
  ar_max_price_per_pgu :: string

record prover_limits =
  pl_gas_limit :: "u64 option"
  pl_max_price_per_pgu :: "u64 option"

definition within :: "nat \<Rightarrow> u64 option \<Rightarrow> bool" where
  "within n cap = (case cap of None \<Rightarrow> True | Some c \<Rightarrow> n \<le> unat c)"

definition preflighted_digest :: "job \<Rightarrow> string" where
  "preflighted_digest j = (case jb_preflight_input_digest j of Some d \<Rightarrow> d | None \<Rightarrow> jb_input_digest j)"

text \<open>
  \<open>approve_proof_inner\<close>; \<open>checks\<close> is the outcome of decoding and validating the stored preflight against
  Ethereum and of the network's quote.
\<close>

definition approve_proof ::
  "bool \<Rightarrow> prover_limits \<Rightarrow> (job \<Rightarrow> failure + unit) \<Rightarrow> uuid \<Rightarrow> approve_request \<Rightarrow> job_table \<Rightarrow> failure + job_table" where
  "approve_proof require_approval limits checks i request t =
     ensure require_approval (plain_failure ''proof approval mode is disabled'') (
     and_then (parse_positive_u64 (ar_max_pgu request) ''maxPgu'') (\<lambda>max_pgu.
     and_then (parse_positive_u64 (ar_max_price_per_pgu request) ''maxPricePerPgu'') (\<lambda>max_price.
     ensure (within max_pgu (pl_gas_limit limits)) (plain_failure ''maxPgu exceeds the configured hard cap'') (
     ensure (within max_price (pl_max_price_per_pgu limits))
       (plain_failure ''maxPricePerPgu exceeds the configured hard cap'') (
     ensure (max_pgu < 2 ^ 63) (plain_failure ''maxPgu exceeds PostgreSQL BIGINT'') (
     ensure (max_price < 2 ^ 63) (plain_failure ''maxPricePerPgu exceeds PostgreSQL BIGINT'') (
     and_then (expect (map_of t i) (plain_failure ''proof job not found'')) (\<lambda>j.
     ensure (jb_status j = Awaiting_Approval) (plain_failure ''proof job is not awaiting approval'') (
     ensure (ar_input_digest request = preflighted_digest j)
       (plain_failure ''approval input digest does not match the preflighted job'') (
     ensure (jb_public_values j \<noteq> None) (plain_failure ''proof job has no public values'') (
     and_then (checks j) (\<lambda>_.
     affect_one i
       (\<lambda>j. jb_status j = Awaiting_Approval \<and> preflighted_digest j = ar_input_digest request)
       (\<lambda>j. j\<lparr>jb_status := Approved, jb_approval_max_pgu := Some (int max_pgu),
              jb_approval_max_price_per_pgu := Some (int max_price), jb_approved := True,
              jb_error := None\<rparr>)
       ''proof job approval raced with another update'' t))))))))))))"

definition cancellable :: "job \<Rightarrow> bool" where
  "cancellable j \<longleftrightarrow> jb_proof_request_id j = None \<and> jb_proof_request_intent j = None \<and>
     jb_prepared_transaction j = None \<and> jb_transaction_hash j = None \<and>
     jb_status j \<in> {Queued, Validating, Awaiting_Approval, Approved}"

definition cancel_proof :: "uuid \<Rightarrow> gateway \<Rightarrow> bool \<times> gateway" where
  "cancel_proof i g =
     (let (t', n) = update_where (\<lambda>k j. k = i \<and> cancellable j)
        (\<lambda>j. j\<lparr>jb_status := Rejected,
               jb_error := Some ''cancelled by operator before network proof request''\<rparr>) (gw_jobs g);
          g' = g\<lparr>gw_jobs := t'\<rparr>
      in (n = 1, if n = 1 then delete_pending i g' else g'))"

subsection \<open>Claiming a job\<close>

record claimed_job =
  cj_id :: uuid
  cj_attempts :: int
  cj_kind :: proof_kind
  cj_input :: job_input
  cj_proof_request_id :: "string option"
  cj_claimed_status :: proof_status
  cj_public_values :: "bytes option"
  cj_proof_bytes :: "bytes option"
  cj_prepared :: bool
  cj_cycle_count :: "int option"
  cj_approval_max_pgu :: "int option"
  cj_approval_max_price_per_pgu :: "int option"

definition claimable :: "nat \<Rightarrow> writer \<Rightarrow> job_table \<Rightarrow> uuid \<times> job \<Rightarrow> bool" where
  "claimable now w t = (\<lambda>(i, j).
     jb_status j \<in> {Queued, Approved} \<and>
     (jb_proof_request_intent j = None \<or> jb_proof_request_id j \<noteq> None) \<and>
     (case jb_next_attempt_at j of None \<Rightarrow> True | Some at \<Rightarrow> at \<le> now) \<and>
     \<not> (ow_reservation_id w \<noteq> None \<and> ow_job_id w \<noteq> Some i) \<and>
     (jb_kind j \<noteq> Settlement \<or>
       \<not> list_ex (\<lambda>(k, a). k \<noteq> i \<and> jb_kind a = Settlement \<and> active_status (jb_status a)) t) \<and>
     (jb_kind j \<notin> {Settlement, Bridge} \<or>
       \<not> list_ex (\<lambda>(k, a). k \<noteq> i \<and> jb_kind a \<noteq> jb_kind j \<and> jb_kind a \<in> {Settlement, Bridge} \<and>
          active_status (jb_status a)) t))"

definition claim_row :: "job \<Rightarrow> job" where
  "claim_row j = j\<lparr>jb_status := (if jb_status j = Approved then Proving else Validating),
     jb_attempts := jb_attempts j + 1\<rparr>"

definition claimed :: "uuid \<Rightarrow> job \<Rightarrow> claimed_job" where
  "claimed i j =
     \<lparr>cj_id = i, cj_attempts = jb_attempts j + 1, cj_kind = jb_kind j, cj_input = jb_input j,
      cj_proof_request_id = jb_proof_request_id j, cj_claimed_status = jb_status j,
      cj_public_values = jb_public_values j, cj_proof_bytes = jb_proof_bytes j,
      cj_prepared = (jb_prepared_transaction j \<noteq> None), cj_cycle_count = jb_cycle_count j,
      cj_approval_max_pgu = jb_approval_max_pgu j,
      cj_approval_max_price_per_pgu = jb_approval_max_price_per_pgu j\<rparr>"

text \<open>
  The table is in order of creation, so the first claimable row is the oldest; \<open>SKIP LOCKED\<close> passes over
  the rows that another transaction holds (\<open>locked\<close>).
\<close>

definition claim_job ::
  "nat \<Rightarrow> (uuid \<Rightarrow> bool) \<Rightarrow> gateway \<Rightarrow> gateway_error + claimed_job option \<times> gateway" where
  "claim_job now locked g =
     (if \<not> gw_recovery_ready g then Inr (None, g)
      else and_then (lock now g) (\<lambda>g.
        case find (\<lambda>(i, j). claimable now (gw_writer g) (gw_jobs g) (i, j) \<and> \<not> locked i) (gw_jobs g) of
          None \<Rightarrow> Inr (None, g)
        | Some (i, j) \<Rightarrow>
            ensure (attempts_fit j) (Failure ''integer out of range'')
              (Inr (Some (claimed i j),
                 g\<lparr>gw_jobs := fst (update_where (\<lambda>k _. k = i) claim_row (gw_jobs g))\<rparr>))))"

subsection \<open>The statements of a running job\<close>

definition validating_claim :: "int \<Rightarrow> job \<Rightarrow> bool" where
  "validating_claim attempts j \<longleftrightarrow>
     jb_attempts j = attempts \<and> jb_status j = Validating \<and> jb_proof_request_intent j = None"

definition store_input :: "uuid \<Rightarrow> int \<Rightarrow> job_input \<Rightarrow> job_table \<Rightarrow> failure + job_table" where
  "store_input i attempts input t =
     affect_one i (validating_claim attempts) (\<lambda>j. j\<lparr>jb_input := input\<rparr>) ''settlement job was cancelled'' t"

definition store_preflight_digest :: "uuid \<Rightarrow> int \<Rightarrow> string \<Rightarrow> job_table \<Rightarrow> failure + job_table" where
  "store_preflight_digest i attempts d t =
     affect_one i (validating_claim attempts) (\<lambda>j. j\<lparr>jb_preflight_input_digest := Some d\<rparr>)
       ''proof job was cancelled'' t"

definition store_preflight :: "uuid \<Rightarrow> int \<Rightarrow> bytes \<Rightarrow> int option \<Rightarrow> job_table \<Rightarrow> failure + job_table" where
  "store_preflight i attempts public_values cycles t =
     affect_one i (validating_claim attempts)
       (\<lambda>j. j\<lparr>jb_public_values := Some public_values, jb_cycle_count := cycles\<rparr>)
       ''proof job was cancelled'' t"

definition finish_preflight :: "uuid \<Rightarrow> int \<Rightarrow> proof_status \<Rightarrow> job_table \<Rightarrow> failure + job_table" where
  "finish_preflight i attempts status t =
     affect_one i (validating_claim attempts) (\<lambda>j. j\<lparr>jb_status := status\<rparr>) ''proof job was cancelled'' t"

definition set_status :: "uuid \<Rightarrow> int \<Rightarrow> proof_status \<Rightarrow> job_table \<Rightarrow> failure + job_table" where
  "set_status i attempts status t =
     affect_one i
       (\<lambda>j. jb_attempts j = attempts \<and>
            jb_status j \<notin> {Reorged, Rejected, Confirmed, Ethereum_Reverted, Failed, Executed})
       (\<lambda>j. j\<lparr>jb_status := status\<rparr>) ''proof job was cancelled'' t"

definition save_proof :: "uuid \<Rightarrow> int \<Rightarrow> bytes \<Rightarrow> bytes \<Rightarrow> job_table \<Rightarrow> failure + job_table" where
  "save_proof i attempts proof public_values t =
     affect_one i (\<lambda>j. jb_attempts j = attempts \<and> jb_status j \<in> {Proving, Proof_Requested})
       (\<lambda>j. j\<lparr>jb_proof_bytes := Some proof, jb_public_values := Some public_values\<rparr>)
       ''proof job was cancelled'' t"

definition store_metrics :: "uuid \<Rightarrow> int \<Rightarrow> int option \<Rightarrow> job_table \<Rightarrow> failure + job_table" where
  "store_metrics i attempts cycles t =
     affect_one i (\<lambda>j. jb_attempts j = attempts \<and> jb_status j \<in> {Proving, Proof_Requested})
       (\<lambda>j. j\<lparr>jb_cycle_count := cycles\<rparr>) ''proof job was cancelled before submission'' t"

definition local_mock_cycles :: "uuid \<Rightarrow> int \<Rightarrow> int option \<Rightarrow> job_table \<Rightarrow> failure + job_table" where
  "local_mock_cycles i attempts cycles t =
     affect_one i (\<lambda>j. jb_attempts j = attempts \<and> jb_status j \<in> {Validating, Proving})
       (\<lambda>j. j\<lparr>jb_cycle_count := cycles\<rparr>) ''proof job was cancelled before local submission'' t"

subsection \<open>How a row may change\<close>

text \<open>
  What holds of every row.  A request identifier belongs to a sealed intent; a cancelled job has spent
  nothing; a failed job was never signed.  No statement of the gateway writes \<open>Proof_Failed\<close>.
\<close>

definition job_ok :: "job \<Rightarrow> bool" where
  "job_ok j \<longleftrightarrow>
     (jb_proof_request_id j \<noteq> None \<longrightarrow> jb_proof_request_intent j \<noteq> None) \<and>
     (jb_status j = Rejected \<longrightarrow> jb_proof_request_intent j = None \<and>
        jb_prepared_transaction j = None \<and> jb_transaction_hash j = None) \<and>
     (jb_status j = Failed \<longrightarrow> jb_prepared_transaction j = None \<and> jb_transaction_hash j = None) \<and>
     jb_status j \<noteq> Proof_Failed"

text \<open>
  A stored transaction determines the recorded hash.  This holds until a reorganisation clears the hash of a
  job that is submitted again, or recovery from events writes the hash in the node's notation.
\<close>

definition hash_stored :: "job \<Rightarrow> bool" where
  "hash_stored j \<longleftrightarrow> (\<forall>p. jb_prepared_transaction j = Some p \<longrightarrow> jb_transaction_hash j = Some (ps_transaction_hash p))"

text \<open>
  One change of a row: it stays well formed, its kind stays, a job that gave the writer up does not
  take it back, and a sealed intent, a request identifier, a stored transaction and a cancellation
  are final.
\<close>

definition evolves :: "job \<Rightarrow> job \<Rightarrow> bool" where
  "evolves j j' \<longleftrightarrow> jb_kind j' = jb_kind j \<and> (job_ok j \<longrightarrow> job_ok j' \<and> (hash_stored j \<longrightarrow> hash_stored j') \<and>
     (released j \<longrightarrow> released j') \<and>
     (jb_proof_request_intent j \<noteq> None \<longrightarrow> jb_proof_request_intent j' = jb_proof_request_intent j) \<and>
     (jb_proof_request_id j \<noteq> None \<longrightarrow> jb_proof_request_id j' = jb_proof_request_id j) \<and>
     (jb_prepared_transaction j \<noteq> None \<longrightarrow> jb_prepared_transaction j' = jb_prepared_transaction j) \<and>
     (jb_status j = Rejected \<longrightarrow> jb_status j' = Rejected))"

definition rows_evolve :: "job_table \<Rightarrow> job_table \<Rightarrow> bool" where
  "rows_evolve t t' \<longleftrightarrow> map fst t' = map fst t \<and>
     (\<forall>i j. map_of t i = Some j \<longrightarrow> (\<exists>j'. map_of t' i = Some j' \<and> evolves j j'))"

lemma evolves_refl [simp]: "evolves j j"
  by (simp add: evolves_def)

lemma rows_evolve_refl [simp]: "rows_evolve t t"
  by (simp add: rows_evolve_def)

lemma rows_evolve_update:
  assumes "\<And>k j. map_of t k = Some j \<Longrightarrow> p k j \<Longrightarrow> evolves j (f j)"
  shows "rows_evolve t (fst (update_where p f t))"
  using assms by (auto simp: rows_evolve_def update_where_map_of)

lemma affect_one_Inr:
  assumes "affect_one i p f m t = Inr t'" "distinct (map fst t)"
  obtains j where "map_of t i = Some j" "p j" "map_of t' = (map_of t)(i \<mapsto> f j)"
    "map fst t' = map fst t"
proof -
  let ?u = "update_where (\<lambda>k j. k = i \<and> p j) f t"
  have u: "snd ?u = 1" "t' = fst ?u"
    using assms(1) by (simp_all add: affect_one_def ensure_Inr case_prod_beta)
  obtain j where j: "map_of t i = Some j" "p j"
    using update_where_count_one [OF assms(2) u(1)] by blast
  have "map_of t' = (map_of t)(i \<mapsto> f j)"
    using j by (auto simp: u(2) update_where_map_of fun_eq_iff option.map_ident_strong)
  then show thesis using that j u(2) by simp
qed

lemma affect_one_evolves:
  assumes "affect_one i p f m t = Inr t'" "\<And>j. p j \<Longrightarrow> evolves j (f j)"
  shows "rows_evolve t t'"
  using assms rows_evolve_update [of t "\<lambda>k j. k = i \<and> p j" f]
  by (auto simp: affect_one_def ensure_Inr case_prod_beta)

text \<open>The statements of a running job, of recovery and of cancellation are all such changes.\<close>

lemmas row_defs = evolves_def job_ok_def hash_stored_def released_def

lemma begin_proof_request_evolves:
  "begin_proof_request intent i a t = Inr t' \<Longrightarrow> rows_evolve t t'"
  unfolding begin_proof_request_def by (erule affect_one_evolves) (auto simp: row_defs)

lemma finish_proof_request_evolves:
  "finish_proof_request i intent rid t = Inr t' \<Longrightarrow> rows_evolve t t'"
  unfolding finish_proof_request_def by (erule affect_one_evolves) (auto simp: row_defs)

lemma begin_send_evolves: "begin_send i a pv proof t = Inr (p, t') \<Longrightarrow> rows_evolve t t'"
  unfolding begin_send_def and_then_Inr
  by (clarsimp, erule affect_one_evolves) (auto simp: row_defs split: option.splits)

lemma persist_prepared_evolves: "persist_prepared i a p t = Inr t' \<Longrightarrow> rows_evolve t t'"
  unfolding persist_prepared_def by (erule affect_one_evolves) (auto simp: row_defs)

lemma mark_submitted_evolves: "rows_evolve t (mark_submitted i a t)"
  unfolding mark_submitted_def by (rule rows_evolve_update) (auto simp: row_defs)

lemma recover_row_evolves: "interrupted j \<Longrightarrow> evolves j (recover_row j)"
  by (auto simp: row_defs interrupted_def recover_row_def Let_def)

lemma recover_interrupted_evolves: "recover_interrupted t = Inr t' \<Longrightarrow> rows_evolve t t'"
  unfolding recover_interrupted_def ensure_Inr
  by (auto intro!: rows_evolve_update recover_row_evolves)

lemma failed_row_evolves: "\<not> settled_status (jb_status j) \<Longrightarrow> evolves j (failed_row now i e j)"
  by (auto simp: row_defs failed_row_def Let_def settled_status_def)

lemma delete_pending_frame [simp]:
  "gw_jobs (delete_pending i g) = gw_jobs g" "gw_writer (delete_pending i g) = gw_writer g"
  "gw_recovery_ready (delete_pending i g) = gw_recovery_ready g"
  "gw_outer_account (delete_pending i g) = gw_outer_account g"
  by (simp_all add: delete_pending_def)

lemma record_failure_evolves:
  assumes "record_failure now i a e g = Inr g'"
  shows "rows_evolve (gw_jobs g) (gw_jobs g')" "gw_writer g' = gw_writer g"
proof -
  have "rows_evolve (gw_jobs g) (gw_jobs g') \<and> gw_writer g' = gw_writer g"
  proof (cases "g' = g")
    case False
    with assms obtain j where j: "map_of (gw_jobs g) i = Some j" "\<not> settled_status (jb_status j)"
      and g': "gw_jobs g' = fst (update_where (\<lambda>k _. k = i) (\<lambda>_. failed_row now i e j) (gw_jobs g))"
        "gw_writer g' = gw_writer g"
      by (auto simp: record_failure_def Let_def split: option.splits if_splits)
    then show ?thesis by (auto intro!: rows_evolve_update failed_row_evolves)
  qed simp
  then show "rows_evolve (gw_jobs g) (gw_jobs g')" "gw_writer g' = gw_writer g" by simp_all
qed

lemma approve_proof_evolves: "approve_proof b l c i rq t = Inr t' \<Longrightarrow> rows_evolve t t'"
  unfolding approve_proof_def
  by (clarsimp simp: and_then_Inr ensure_Inr, erule affect_one_evolves) (auto simp: row_defs)

lemma cancel_proof_evolves:
  "rows_evolve (gw_jobs g) (gw_jobs (snd (cancel_proof i g)))"
  "gw_writer (snd (cancel_proof i g)) = gw_writer g"
proof -
  have jobs: "gw_jobs (snd (cancel_proof i g)) = fst (update_where (\<lambda>k j. k = i \<and> cancellable j)
        (\<lambda>j. j\<lparr>jb_status := Rejected,
               jb_error := Some ''cancelled by operator before network proof request''\<rparr>) (gw_jobs g))"
    by (simp add: cancel_proof_def case_prod_beta Let_def)
  show "rows_evolve (gw_jobs g) (gw_jobs (snd (cancel_proof i g)))"
    unfolding jobs by (rule rows_evolve_update) (auto simp: row_defs cancellable_def)
  show "gw_writer (snd (cancel_proof i g)) = gw_writer g"
    by (simp add: cancel_proof_def case_prod_beta Let_def)
qed

lemma claim_row_evolves: "jb_status j \<in> {Queued, Approved} \<Longrightarrow> evolves j (claim_row j)"
  by (auto simp: row_defs claim_row_def)

lemma preflight_evolves:
  "store_input i a input t = Inr t' \<Longrightarrow> rows_evolve t t'"
  "store_preflight_digest i a d t = Inr t' \<Longrightarrow> rows_evolve t t'"
  "store_preflight i a pv cycles t = Inr t' \<Longrightarrow> rows_evolve t t'"
  "finish_preflight i a Executed t = Inr t' \<Longrightarrow> rows_evolve t t'"
  "finish_preflight i a Awaiting_Approval t = Inr t' \<Longrightarrow> rows_evolve t t'"
  unfolding store_input_def store_preflight_digest_def store_preflight_def finish_preflight_def
  by (erule affect_one_evolves, auto simp: row_defs validating_claim_def)+

lemma set_status_evolves: "set_status i a Proving t = Inr t' \<Longrightarrow> rows_evolve t t'"
  unfolding set_status_def by (erule affect_one_evolves) (auto simp: row_defs)

lemma save_evolves:
  "save_proof i a proof pv t = Inr t' \<Longrightarrow> rows_evolve t t'"
  "store_metrics i a cycles t = Inr t' \<Longrightarrow> rows_evolve t t'"
  "local_mock_cycles i a cycles t = Inr t' \<Longrightarrow> rows_evolve t t'"
  unfolding save_proof_def store_metrics_def local_mock_cycles_def
  by (erule affect_one_evolves, auto simp: row_defs)+

lemmas statement_evolves = begin_proof_request_evolves finish_proof_request_evolves begin_send_evolves
  persist_prepared_evolves preflight_evolves set_status_evolves save_evolves

subsection \<open>Properties\<close>

text \<open>The exponential part of the delay, without wrap-around.\<close>

definition backoff_seconds :: "nat \<Rightarrow> failure_class \<Rightarrow> nat" where
  "backoff_seconds attempt class = min ((if class = Insufficient_Funds then 30 else 2) * 2 ^ min attempt 8) 300"

lemma unat_pow2_u64:
  assumes "n \<le> 8"
  shows "unat ((2 :: u64) ^ n) = 2 ^ n"
proof -
  have "(2::nat) ^ n \<le> 2 ^ 8" using assms by (rule power_increasing) simp
  then have "unat (word_of_nat (2 ^ n) :: u64) = 2 ^ n" by (subst unat_of_nat) simp
  then show ?thesis by simp
qed

lemma unat_min: "unat (min a b) = min (unat a) (unat b)"
  by (simp add: min_def word_le_nat_alt)

lemma retry_seconds:
  fixes attempt :: u32 and base :: u64
  assumes "unat base \<le> 30"
  shows "unat (min (base * push_bit (unat (min attempt 8)) 1) 300) =
    min (unat base * 2 ^ min (unat attempt) 8) 300"
proof -
  have n: "unat (min attempt 8) = min (unat attempt) 8" by (simp add: unat_min)
  have "(2::nat) ^ min (unat attempt) 8 \<le> 2 ^ 8" by (rule power_increasing) simp_all
  then have "unat base * 2 ^ min (unat attempt) 8 \<le> 30 * 256"
    using mult_le_mono [OF assms, of "2 ^ min (unat attempt) 8" 256] by simp
  then have "unat (base * push_bit (unat (min attempt 8)) 1) = unat base * 2 ^ min (unat attempt) 8"
    by (simp add: n unat_word_ariths unat_pow2_u64)
  then show ?thesis by (simp add: unat_min)
qed

text \<open>
  The retry delay never wraps: at the source's 64-bit width it is the capped exponential backoff plus
  a jitter of at most a quarter of it, so it lies between 2 and 375 seconds, and at least 30 seconds
  pass before an account without funds is tried again.
\<close>

lemma retry_delay_bounds:
  "unat (retry_delay attempt class jitter) =
     backoff_seconds (unat attempt) class +
     unat jitter mod (backoff_seconds (unat attempt) class div 4 + 1) \<and>
   (if class = Insufficient_Funds then 30 else 2) \<le> unat (retry_delay attempt class jitter) \<and>
   unat (retry_delay attempt class jitter) \<le> 375"
proof -
  define base :: u64 where "base = (if class = Insufficient_Funds then 30 else 2)"
  define sec where "sec = min (base * push_bit (unat (min attempt 8)) 1) 300"
  have b: "unat base = (if class = Insufficient_Funds then 30 else 2)" by (simp add: base_def)
  then have sec: "unat sec = backoff_seconds (unat attempt) class"
    unfolding sec_def backoff_seconds_def by (subst retry_seconds) auto
  have pow: "(1::nat) \<le> 2 ^ min (unat attempt) 8" by simp
  have low: "2 \<le> unat sec" "class = Insufficient_Funds \<longrightarrow> 30 \<le> unat sec" "unat sec \<le> 300"
    using pow by (auto simp: sec backoff_seconds_def)
  have m: "unat (jitter mod (sec div 4 + 1)) = unat jitter mod (unat sec div 4 + 1)"
  proof -
    have "unat sec div 4 + 1 < 2 ^ 64" using low(3) by simp
    then show ?thesis by (simp add: unat_mod_distrib unat_div_distrib unat_word_ariths)
  qed
  have jit: "unat jitter mod (unat sec div 4 + 1) \<le> 75"
  proof -
    have "unat jitter mod (unat sec div 4 + 1) < unat sec div 4 + 1" by (rule mod_less_divisor) simp
    moreover have "unat sec div 4 \<le> 300 div 4" using low(3) by (rule div_le_mono)
    ultimately show ?thesis by linarith
  qed
  have "retry_delay attempt class jitter = sec + jitter mod (sec div 4 + 1)"
    by (simp add: retry_delay_def Let_def sec_def base_def)
  then have "unat (retry_delay attempt class jitter) = unat sec + unat jitter mod (unat sec div 4 + 1)"
    using low(3) jit m by (simp add: unat_word_ariths)
  then show ?thesis using low jit unfolding sec by auto
qed

text \<open>
  Once an SP1 request is sealed and its answer is unknown, no worker can buy a second proof: the job
  cannot be claimed at any time and a new intent cannot be stored, whatever its status and attempt.
\<close>

lemma ambiguous_request_not_repeated:
  assumes "distinct (map fst t)" "map_of t i = Some j"
    and "jb_proof_request_intent j \<noteq> None" "jb_proof_request_id j = None"
  shows "\<not> claimable now w t (i, j) \<and>
    begin_proof_request intent i attempts t =
      Inl (plain_failure ''proof request already sealed or worker claim was fenced'')"
proof -
  have "snd (update_where (\<lambda>k j. k = i \<and> (jb_attempts j = attempts \<and> jb_status j = Proving \<and>
      jb_proof_request_intent j = None \<and> jb_proof_request_id j = None))
      (\<lambda>j. j\<lparr>jb_proof_request_intent := Some intent\<rparr>) t) = 0"
    using update_where_count [OF assms(1,2)] assms(3) by simp
  then show ?thesis
    using assms(3,4)
    by (simp add: claimable_def begin_proof_request_def affect_one_def case_prod_beta)
qed

text \<open>
  A failure never abandons work that may have been paid for or broadcast.  If a job has a signed
  transaction, a transaction hash or a proof request whose answer is unknown, recording a failure of any
  class puts it back into the queue with its intent, request, proof, transaction and hash unchanged, and
  it keeps the outer writer and its place in the pool.
\<close>

lemma failure_keeps_spent_work:
  assumes "record_failure now i attempts e g = Inr g'" "map_of (gw_jobs g) i = Some j"
    and "jb_attempts j = attempts" "\<not> settled_status (jb_status j)"
    and "jb_prepared_transaction j \<noteq> None \<or> jb_transaction_hash j \<noteq> None \<or>
         (jb_proof_request_intent j \<noteq> None \<and> jb_proof_request_id j = None)"
  shows "\<exists>j'. map_of (gw_jobs g') i = Some j' \<and> jb_status j' \<in> {Queued, Approved} \<and> \<not> released j' \<and>
    gw_writer g' = gw_writer g \<and> gw_pending_commands g' = gw_pending_commands g \<and>
    jb_proof_request_intent j' = jb_proof_request_intent j \<and>
    jb_proof_request_id j' = jb_proof_request_id j \<and> jb_proof_bytes j' = jb_proof_bytes j \<and>
    jb_public_values j' = jb_public_values j \<and>
    jb_prepared_transaction j' = jb_prepared_transaction j \<and>
    jb_transaction_hash j' = jb_transaction_hash j"
proof -
  have st: "jb_status (failed_row now i e j) \<in> {Queued, Approved}"
    using assms(5) by (auto simp: failed_row_def Let_def)
  then have g': "g' = g\<lparr>gw_jobs := fst (update_where (\<lambda>k _. k = i) (\<lambda>_. failed_row now i e j) (gw_jobs g))\<rparr>"
    using assms(1-4) by (auto simp: record_failure_def Let_def)
  then have "map_of (gw_jobs g') i = Some (failed_row now i e j)"
    using assms(2) by (simp add: update_where_map_of)
  moreover have "\<not> released (failed_row now i e j)" using st by (auto simp: released_def)
  ultimately show ?thesis
    using st g' by (auto simp: failed_row_def Let_def)
qed

text \<open>A job whose proof request was sent by a worker that then lost the connection.\<close>

definition sample_job :: job where
  "sample_job = (new_job Settlement (sample_input (Some sample_token)) (Some ''k'') ''d'')
     \<lparr>jb_status := Proving, jb_attempts := 1, jb_public_values := Some [1, 2],
      jb_proof_request_intent := Some 77\<rparr>"

definition sample_failure :: failure where
  "sample_failure = plain_failure ''Connection reset by peer''"

definition busy_gateway :: "job \<Rightarrow> gateway" where
  "busy_gateway j = sample_gateway\<lparr>gw_jobs := [(5, j)], gw_pending_commands := [5]\<rparr>"

lemma sample_record_failure:
  "record_failure 100 5 1 sample_failure (busy_gateway sample_job) =
     Inr (busy_gateway (failed_row 100 5 sample_failure sample_job))"
  by code_simp

subsection \<open>Admission\<close>

lemma find_append_None: "find P xs = None \<Longrightarrow> find P (xs @ ys) = find P ys"
  by (induction xs) auto

lemma find_in_set: "find P xs = Some (k, v) \<Longrightarrow> k \<in> fst ` set xs \<and> P (k, v)"
  by (induction xs) (auto split: if_splits)

lemma insert_job_cases:
  assumes "insert_job i kind input key digest t = Inr (k, t')"
  obtains (existing) j where "key \<noteq> None" "find (\<lambda>(k, j). jb_idempotency_key j = key) t = Some (k, j)"
      "jb_input_digest j = digest" "t' = t"
  | (inserted) "key = None \<or> find (\<lambda>(k, j). jb_idempotency_key j = key) t = None" "map_of t i = None"
      "k = i" "t' = t @ [(i, new_job kind input key digest)]"
proof (cases "key = None \<or> find (\<lambda>(k, j). jb_idempotency_key j = key) t = None")
  case True
  then have "(if key = None then None else find (\<lambda>(k, j). jb_idempotency_key j = key) t) = None" by auto
  with assms have "map_of t i = None" "k = i" "t' = t @ [(i, new_job kind input key digest)]"
    unfolding insert_job_def by (auto simp: ensure_Inr simp del: split_paired_All)
  with True inserted show thesis by blast
next
  case False
  then obtain k' j where f: "key \<noteq> None" "find (\<lambda>(k, j). jb_idempotency_key j = key) t = Some (k', j)" by auto
  with assms have "k = k'" "jb_input_digest j = digest" "t' = t"
    by (auto simp: insert_job_def ensure_Inr)
  with f existing show thesis by blast
qed

lemma insert_job_again:
  assumes "insert_job i kind input key digest t = Inr (k, t')" "key \<noteq> None"
  shows "insert_job i' kind input key digest t' = Inr (k, t')"
  using assms(1)
proof (cases rule: insert_job_cases)
  case (existing j)
  then show ?thesis by (auto simp: insert_job_def)
next
  case inserted
  then have "find (\<lambda>(k, j). jb_idempotency_key j = key) t' = Some (i, new_job kind input key digest)"
    using assms(2) by (auto simp: find_append_None new_job_def)
  then show ?thesis using assms(2) inserted(3) by (auto simp: insert_job_def new_job_def)
qed

text \<open>The parts of a successful admission.\<close>

lemma create_job_cases:
  assumes "create_job T show_uuid digest now fresh i header_key kind input g = Inr (k, g')"
  obtains t where "gw_recovery_ready g"
    "insert_job i kind input (case header_key of Some k \<Rightarrow> Some k | None \<Rightarrow> default_key show_uuid kind input)
       (digest input) (gw_jobs g) = Inr (k, t)" "gw_jobs g' = t" "gw_recovery_ready g'"
    "if k = i then attach_job T show_uuid now fresh i kind input
         (g\<lparr>gw_writer := effective_writer now g, gw_jobs := t\<rparr>) = Inr g'
     else g' = g\<lparr>gw_writer := effective_writer now g, gw_jobs := t\<rparr>"
proof -
  let ?key = "case header_key of Some k \<Rightarrow> Some k | None \<Rightarrow> default_key show_uuid kind input"
  from assms obtain g1 t where g1: "lock now g = Inr g1"
    and t: "insert_job i kind input ?key (digest input) (gw_jobs g1) = Inr (k, t)"
    and rest: "(if k = i then and_then (attach_job T show_uuid now fresh i kind input (g1\<lparr>gw_jobs := t\<rparr>))
          (\<lambda>g'. Inr (k, g')) else Inr (k, g1\<lparr>gw_jobs := t\<rparr>)) = Inr (k, g')"
    unfolding create_job_def Let_def and_then_Inr
    by (auto simp: and_then_Inr split: prod.splits if_splits)
  have g1': "g1 = g\<lparr>gw_writer := effective_writer now g\<rparr>" by (rule lock_effective [OF g1])
  have ready: "gw_recovery_ready g" using g1 by (simp add: lock_Inr)
  show thesis
  proof (cases "k = i")
    case True
    with rest have a: "attach_job T show_uuid now fresh i kind input (g1\<lparr>gw_jobs := t\<rparr>) = Inr g'"
      by (auto simp: and_then_Inr)
    show thesis
      using that [OF ready, of t] t a attach_job_frame(1,3) [OF a] True ready by (simp add: g1')
  next
    case False
    then show thesis using that [OF ready, of t] t rest ready by (auto simp: g1')
  qed
qed

text \<open>
  Admission is idempotent.  When a job was admitted under an idempotency key, the same request again,
  at any later time and with whatever new identifiers, returns the same job and changes nothing but
  what \<open>lock\<close> does: no second job, no second attachment, no new fencing token.
\<close>

lemma create_job_idempotent:
  assumes "create_job T show_uuid digest now fresh i header_key kind input g = Inr (k, g')"
    and "(case header_key of Some k \<Rightarrow> Some k | None \<Rightarrow> default_key show_uuid kind input) \<noteq> None"
    and "map_of (gw_jobs g') i' = None"
  shows "create_job T show_uuid digest later fresh' i' header_key kind input g' =
    Inr (k, g'\<lparr>gw_writer := effective_writer later g'\<rparr>)"
  using assms(1)
proof (cases rule: create_job_cases)
  case (1 t)
  have again: "insert_job i' kind input (case header_key of Some k \<Rightarrow> Some k | None \<Rightarrow> default_key show_uuid kind input)
      (digest input) t = Inr (k, t)"
    by (rule insert_job_again [OF 1(2) assms(2)])
  have "k \<in> fst ` set t"
    using 1(2) by (cases rule: insert_job_cases) (auto dest!: find_in_set)
  then have "k \<noteq> i'" using assms(3) 1(3) by (auto simp: map_of_eq_None_iff)
  moreover have "lock later g' = Inr (g'\<lparr>gw_writer := effective_writer later g'\<rparr>)"
    using 1(4) by (simp add: lock_def effective_writer_def)
  ultimately show ?thesis using again 1(3) by (simp add: create_job_def Let_def)
qed

lemma sample_create:
  "create_job sample_text (\<lambda>_. ''u'') (\<lambda>_. ''d'') 1059 8 5 None Settlement (sample_input (Some sample_token))
     leased_gateway =
   Inr (5, leased_gateway\<lparr>gw_writer := attached_writer,
     gw_jobs := [(5, new_job Settlement (sample_input (Some sample_token)) (Some ''0x00:reservation:u'') ''d'')]\<rparr>)"
  by code_simp

end
