(* ===== verification/Wire.thy ===== *)
theory Wire
  imports Prelude
begin

text \<open>
  Fixed-layout buffers as \<open>lib/src/lib.rs\<close> reads and writes them: a zeroed output array and a
  moving cursor (\<open>write_bytes\<close>, \<open>read_array\<close>), the in-place replacement of the two version
  bytes, and the contract of a codec (\<open>codec\<close>), which all receipt versions satisfy.
\<close>

datatype wire_error =
    Wrong_Length nat nat
  | Invalid_Magic
  | Unsupported_Version u16
  | Reserved_Not_Zero
  | Unsupported_Da_Mode u8
  | Unsupported_Length nat
  | Truncated_Header
  | Length_Overflow
  | Slice_Panic

subsection \<open>Cursor writes\<close>

text \<open>\<open>output[at..at + len].copy_from_slice(bs)\<close>: a panic when the range leaves the buffer.\<close>

definition copy_from_slice :: "bytes \<Rightarrow> nat \<Rightarrow> bytes \<Rightarrow> wire_error + bytes" where
  "copy_from_slice out at bs =
     (if at + length bs \<le> length out
      then Inr (take at out @ bs @ drop (at + length bs) out) else Inl Slice_Panic)"

fun write_bytes :: "bytes \<Rightarrow> bytes \<times> nat \<Rightarrow> wire_error + bytes \<times> nat" where
  "write_bytes bs (out, cursor) =
     and_then (copy_from_slice out cursor bs) (\<lambda>out. Inr (out, cursor + length bs))"

fun write_all :: "bytes list \<Rightarrow> bytes \<times> nat \<Rightarrow> wire_error + bytes \<times> nat" where
  "write_all [] st = Inr st"
| "write_all (bs # bss) st = and_then (write_bytes bs st) (write_all bss)"

lemma write_all_fill:
  assumes "cursor + length (concat bss) \<le> length out"
  shows "write_all bss (out, cursor) =
    Inr (take cursor out @ concat bss @ drop (cursor + length (concat bss)) out,
         cursor + length (concat bss))"
  using assms
proof (induction bss arbitrary: out cursor)
  case (Cons bs bss)
  let ?out = "take cursor out @ bs @ drop (cursor + length bs) out"
  have "write_all bss (?out, cursor + length bs) =
      Inr (take (cursor + length bs) ?out @ concat bss @
           drop (cursor + length bs + length (concat bss)) ?out,
           cursor + length bs + length (concat bss))"
    using Cons.prems by (intro Cons.IH) simp
  then show ?case
    using Cons.prems by (simp add: copy_from_slice_def ac_simps)
qed simp

lemma write_all_exact:
  assumes "length (concat bss) = length out"
  shows "write_all bss (out, 0) = Inr (concat bss, length out)"
  using write_all_fill [of 0 bss out] assms by simp

subsection \<open>Cursor reads\<close>

definition read_array :: "nat \<Rightarrow> bytes \<Rightarrow> nat \<Rightarrow> wire_error + bytes \<times> nat" where
  "read_array n input cursor =
     (if cursor + n \<le> length input then Inr (take n (drop cursor input), cursor + n)
      else Inl Slice_Panic)"

text \<open>\<open>for field in &mut fields { *field = read_array(input, &mut cursor) }\<close> over \<open>k\<close> fields.\<close>

fun read_arrays :: "nat \<Rightarrow> nat \<Rightarrow> bytes \<Rightarrow> nat \<Rightarrow> wire_error + bytes list \<times> nat" where
  "read_arrays 0 n input cursor = Inr ([], cursor)"
| "read_arrays (Suc k) n input cursor =
     and_then (read_array n input cursor) (\<lambda>(x, cursor).
     and_then (read_arrays k n input cursor) (\<lambda>(xs, cursor). Inr (x # xs, cursor)))"

fun split_every :: "nat \<Rightarrow> nat \<Rightarrow> 'a list \<Rightarrow> 'a list list" where
  "split_every 0 n xs = []"
| "split_every (Suc k) n xs = take n xs # split_every k n (drop n xs)"

lemma read_array_ok:
  "cursor + n \<le> length input \<Longrightarrow> read_array n input cursor = Inr (slice input cursor n, cursor + n)"
  by (simp add: read_array_def slice_def)

lemma read_arrays_ok:
  "cursor + k * n \<le> length input \<Longrightarrow>
   read_arrays k n input cursor = Inr (split_every k n (slice input cursor (k * n)), cursor + k * n)"
  by (induction k arbitrary: cursor)
    (simp_all add: read_array_ok slice_def take_drop ac_simps)

lemma concat_split_every: "length xs = k * n \<Longrightarrow> concat (split_every k n xs) = xs"
  by (induction k arbitrary: xs) simp_all

lemma length_split_every [simp]: "length (split_every k n xs) = k"
  by (induction k arbitrary: xs) simp_all

lemma list_all_split_every: "length xs = k * n \<Longrightarrow> list_all (\<lambda>x. length x = n) (split_every k n xs)"
  by (induction k arbitrary: xs) simp_all

lemma split_every_concat:
  "list_all (\<lambda>x. length x = n) xss \<Longrightarrow> length xss = k \<Longrightarrow> split_every k n (concat xss) = xss"
  by (induction xss arbitrary: k) auto

lemma length_concat_all: "list_all (\<lambda>x. length x = n) xss \<Longrightarrow> length (concat xss) = length xss * n"
  by (induction xss) simp_all

subsection \<open>The version bytes\<close>

definition patch_version :: "u16 \<Rightarrow> bytes \<Rightarrow> bytes" where
  "patch_version v bs = take 4 bs @ u16_to_be v @ drop 6 bs"

lemma copy_version: "6 \<le> length bs \<Longrightarrow> copy_from_slice bs 4 (u16_to_be v) = Inr (patch_version v bs)"
  by (simp add: copy_from_slice_def patch_version_def)

lemma length_patch_version [simp]: "6 \<le> length bs \<Longrightarrow> length (patch_version v bs) = length bs"
  by (simp add: patch_version_def)

lemma patch_version_patch: "6 \<le> length bs \<Longrightarrow> patch_version v (patch_version w bs) = patch_version v bs"
  by (simp add: patch_version_def)

lemma patch_version_same:
  assumes "6 \<le> length bs" "u16_from_be (slice bs 4 2) = v"
  shows "patch_version v bs = bs"
proof -
  have "u16_to_be v = slice bs 4 2" using assms by auto
  moreover have "take 4 bs @ slice bs 4 2 @ drop 6 bs = bs"
    using append_take_drop_id [of 4 bs] append_take_drop_id [of 2 "drop 4 bs"]
    by (simp add: slice_def)
  ultimately show ?thesis by (simp add: patch_version_def)
qed

lemma slice_patch_version:
  assumes "6 \<le> length bs"
  shows "slice (patch_version v bs) 4 2 = u16_to_be v" "slice (patch_version v bs) 0 4 = slice bs 0 4"
    and "6 \<le> a \<Longrightarrow> slice (patch_version v bs) a n = slice bs a n"
  using assms by (simp_all add: patch_version_def slice_def)

subsection \<open>The contract of a codec\<close>

text \<open>
  Encoding a well-formed value succeeds, decoding gives the value back, and a byte string that
  decodes is the encoding of a well-formed value: there is exactly one wire form per value.
\<close>

locale codec =
  fixes enc :: "'a \<Rightarrow> wire_error + bytes"
    and dec :: "bytes \<Rightarrow> wire_error + 'a"
    and wf :: "'a \<Rightarrow> bool"
  assumes enc_total: "wf v \<Longrightarrow> \<exists>bs. enc v = Inr bs"
    and dec_enc: "wf v \<Longrightarrow> enc v = Inr bs \<Longrightarrow> dec bs = Inr v"
    and enc_dec: "dec bs = Inr v \<Longrightarrow> wf v \<and> enc v = Inr bs"
begin

lemma round_trip: "wf v \<Longrightarrow> \<exists>bs. enc v = Inr bs \<and> dec bs = Inr v"
  using enc_total dec_enc by blast

lemma dec_iff_enc: "dec bs = Inr v \<longleftrightarrow> wf v \<and> enc v = Inr bs"
  using dec_enc enc_dec by blast

lemma enc_inject: "wf v \<Longrightarrow> wf w \<Longrightarrow> enc v = enc w \<longleftrightarrow> v = w"
  using round_trip dec_enc by (metis sum.inject(2))

lemma dec_inject: "dec a = Inr v \<Longrightarrow> dec b = Inr v \<Longrightarrow> a = b"
  using enc_dec by (metis sum.inject(2))

end

end
