(* ===== verification/Public_Values.thy ===== *)
theory Public_Values
  imports Wire
begin

text \<open>
  The settlement receipts of \<open>lib/src/lib.rs\<close>: \<open>SettlementPublicValuesV1\<close> to \<open>V4\<close> with their
  \<open>encode\<close> and \<open>decode\<close>, and the length-dispatched \<open>SettlementPublicValues\<close>.  V2 extends the V1
  prefix, V3 and V4 extend the V2 prefix; only the two version bytes of the prefix differ.
  (\<open>debug_assert_eq!\<close> on the final cursor is not part of a release build; that the cursor ends at
  the buffer's end is a consequence of the round-trip lemmas.)
\<close>

definition SETTLEMENT_PUBLIC_VALUES_MAGIC :: bytes where
  "SETTLEMENT_PUBLIC_VALUES_MAGIC = [0x5A, 0x4B, 0x53, 0x54]"

definition SETTLEMENT_PUBLIC_VALUES_VERSION :: u16 where
  "SETTLEMENT_PUBLIC_VALUES_VERSION = 1"

definition SETTLEMENT_PUBLIC_VALUES_V2_VERSION :: u16 where
  "SETTLEMENT_PUBLIC_VALUES_V2_VERSION = 2"

definition SETTLEMENT_PUBLIC_VALUES_V3_VERSION :: u16 where
  "SETTLEMENT_PUBLIC_VALUES_V3_VERSION = 3"

definition SETTLEMENT_PUBLIC_VALUES_V4_VERSION :: u16 where
  "SETTLEMENT_PUBLIC_VALUES_V4_VERSION = 4"

definition SETTLEMENT_PUBLIC_VALUES_V1_LENGTH :: nat where
  "SETTLEMENT_PUBLIC_VALUES_V1_LENGTH = 768"

definition SETTLEMENT_PUBLIC_VALUES_V2_LENGTH :: nat where
  "SETTLEMENT_PUBLIC_VALUES_V2_LENGTH = 828"

definition SETTLEMENT_PUBLIC_VALUES_V3_LENGTH :: nat where
  "SETTLEMENT_PUBLIC_VALUES_V3_LENGTH = 932"

definition SETTLEMENT_PUBLIC_VALUES_V4_LENGTH :: nat where
  "SETTLEMENT_PUBLIC_VALUES_V4_LENGTH = 904"

lemmas spv_consts =
  SETTLEMENT_PUBLIC_VALUES_MAGIC_def SETTLEMENT_PUBLIC_VALUES_VERSION_def
  SETTLEMENT_PUBLIC_VALUES_V2_VERSION_def SETTLEMENT_PUBLIC_VALUES_V3_VERSION_def
  SETTLEMENT_PUBLIC_VALUES_V4_VERSION_def SETTLEMENT_PUBLIC_VALUES_V1_LENGTH_def
  SETTLEMENT_PUBLIC_VALUES_V2_LENGTH_def SETTLEMENT_PUBLIC_VALUES_V3_LENGTH_def
  SETTLEMENT_PUBLIC_VALUES_V4_LENGTH_def

subsection \<open>Data\<close>

datatype da_mode = Multisig

record outer_state =
  os_fields :: "bytes list"

definition pause_key :: "outer_state \<Rightarrow> bytes" where
  "pause_key s = os_fields s ! 0"

definition status_flags :: "outer_state \<Rightarrow> bytes" where
  "status_flags s = os_fields s ! 1"

definition ledger_hash :: "outer_state \<Rightarrow> bytes" where
  "ledger_hash s = os_fields s ! 2"

definition inner_action_state :: "outer_state \<Rightarrow> bytes" where
  "inner_action_state s = os_fields s ! 3"

definition inner_action_state_length :: "outer_state \<Rightarrow> bytes" where
  "inner_action_state_length s = os_fields s ! 4"

definition sequencer :: "outer_state \<Rightarrow> bytes" where
  "sequencer s = os_fields s ! 5"

definition da_key :: "outer_state \<Rightarrow> bytes" where
  "da_key s = os_fields s ! 6"

definition account_set :: "outer_state \<Rightarrow> bytes" where
  "account_set s = os_fields s ! 7"

definition wf_outer_state :: "outer_state \<Rightarrow> bool" where
  "wf_outer_state s \<longleftrightarrow> length (os_fields s) = 8 \<and> list_all (\<lambda>f. length f = 32) (os_fields s)"

record spv1 =
  pv_da_mode :: da_mode
  pv_chain_id :: u64
  pv_settlement_contract :: bytes
  pv_batch_sequence :: u64
  pv_vk_hash :: bytes
  pv_app_statement :: bytes
  pv_mina_transaction_hash :: bytes
  pv_state_before :: outer_state
  pv_state_after :: outer_state
  pv_outer_action_state_before :: bytes
  pv_outer_action_state_after :: bytes
  pv_outer_action_state_length_before :: u32
  pv_outer_action_state_length_after :: u32
  pv_synchronized_outer_action_state :: bytes
  pv_synchronized_outer_action_state_length :: u32
  pv_slot_lower :: u32
  pv_slot_upper :: u32

record spv2 =
  pv2_settlement :: spv1
  pv2_bridge_address :: bytes
  pv2_inner_action_root :: bytes
  pv2_inner_action_start_index :: u32
  pv2_inner_action_count :: u32

record spv3 =
  pv3_settlement :: spv2
  pv3_asset_registry_root :: bytes
  pv3_asset_registry_count :: u32
  pv3_asset_registry_schema_version :: u32
  pv3_asset_record_hash :: bytes
  pv3_asset_record_commitment :: bytes

record spv4 =
  pv4_settlement :: spv2
  pv4_asset_registry_root :: bytes
  pv4_asset_registry_count :: u32
  pv4_asset_registry_schema_version :: u32
  pv4_asset_record_batch_root :: bytes
  pv4_asset_record_batch_count :: u32

text \<open>The lengths that Rust's array types guarantee.\<close>

definition wf_spv1 :: "spv1 \<Rightarrow> bool" where
  "wf_spv1 v \<longleftrightarrow> length (pv_settlement_contract v) = 20 \<and> length (pv_vk_hash v) = 32 \<and>
     length (pv_app_statement v) = 32 \<and> length (pv_mina_transaction_hash v) = 32 \<and>
     wf_outer_state (pv_state_before v) \<and> wf_outer_state (pv_state_after v) \<and>
     length (pv_outer_action_state_before v) = 32 \<and> length (pv_outer_action_state_after v) = 32 \<and>
     length (pv_synchronized_outer_action_state v) = 32"

definition wf_spv2 :: "spv2 \<Rightarrow> bool" where
  "wf_spv2 v \<longleftrightarrow> wf_spv1 (pv2_settlement v) \<and> length (pv2_bridge_address v) = 20 \<and>
     length (pv2_inner_action_root v) = 32"

definition wf_spv3 :: "spv3 \<Rightarrow> bool" where
  "wf_spv3 v \<longleftrightarrow> wf_spv2 (pv3_settlement v) \<and> length (pv3_asset_registry_root v) = 32 \<and>
     length (pv3_asset_record_hash v) = 32 \<and> length (pv3_asset_record_commitment v) = 32"

definition wf_spv4 :: "spv4 \<Rightarrow> bool" where
  "wf_spv4 v \<longleftrightarrow> wf_spv2 (pv4_settlement v) \<and> length (pv4_asset_registry_root v) = 32 \<and>
     length (pv4_asset_record_batch_root v) = 32"

subsection \<open>V1\<close>

definition da_mode_byte :: "da_mode \<Rightarrow> u8" where
  "da_mode_byte m = (case m of Multisig \<Rightarrow> 1)"

definition encode_v1 :: "spv1 \<Rightarrow> wire_error + bytes" where
  "encode_v1 v =
     and_then (write_all
       ([SETTLEMENT_PUBLIC_VALUES_MAGIC,
         u16_to_be SETTLEMENT_PUBLIC_VALUES_VERSION,
         [da_mode_byte (pv_da_mode v), 0],
         u64_to_be (pv_chain_id v),
         pv_settlement_contract v,
         u64_to_be (pv_batch_sequence v),
         pv_vk_hash v,
         pv_app_statement v,
         pv_mina_transaction_hash v] @
        os_fields (pv_state_before v) @
        os_fields (pv_state_after v) @
        [pv_outer_action_state_before v,
         pv_outer_action_state_after v,
         u32_to_be (pv_outer_action_state_length_before v),
         u32_to_be (pv_outer_action_state_length_after v),
         pv_synchronized_outer_action_state v,
         u32_to_be (pv_synchronized_outer_action_state_length v),
         u32_to_be (pv_slot_lower v),
         u32_to_be (pv_slot_upper v)])
       (replicate SETTLEMENT_PUBLIC_VALUES_V1_LENGTH 0, 0))
     (\<lambda>(output, cursor). Inr output)"

definition decode_v1 :: "bytes \<Rightarrow> wire_error + spv1" where
  "decode_v1 input =
     ensure (length input = SETTLEMENT_PUBLIC_VALUES_V1_LENGTH)
       (Wrong_Length SETTLEMENT_PUBLIC_VALUES_V1_LENGTH (length input)) (
     and_then (read_array 4 input 0) (\<lambda>(magic, cursor).
     ensure (magic = SETTLEMENT_PUBLIC_VALUES_MAGIC) Invalid_Magic (
     and_then (read_array 2 input cursor) (\<lambda>(ver, cursor).
     ensure (u16_from_be ver = SETTLEMENT_PUBLIC_VALUES_VERSION)
       (Unsupported_Version (u16_from_be ver)) (
     and_then (read_array 1 input cursor) (\<lambda>(mode, cursor).
     and_then (read_array 1 input cursor) (\<lambda>(reserved, cursor).
     ensure (reserved ! 0 = 0) Reserved_Not_Zero (
     and_then (if mode ! 0 = 1 then Inr Multisig else Inl (Unsupported_Da_Mode (mode ! 0))) (\<lambda>da_mode.
     and_then (read_array 8 input cursor) (\<lambda>(chain_id, cursor).
     and_then (read_array 20 input cursor) (\<lambda>(settlement_contract, cursor).
     and_then (read_array 8 input cursor) (\<lambda>(batch_sequence, cursor).
     and_then (read_array 32 input cursor) (\<lambda>(vk_hash, cursor).
     and_then (read_array 32 input cursor) (\<lambda>(app_statement, cursor).
     and_then (read_array 32 input cursor) (\<lambda>(mina_transaction_hash, cursor).
     and_then (read_arrays 8 32 input cursor) (\<lambda>(state_before, cursor).
     and_then (read_arrays 8 32 input cursor) (\<lambda>(state_after, cursor).
     and_then (read_array 32 input cursor) (\<lambda>(outer_before, cursor).
     and_then (read_array 32 input cursor) (\<lambda>(outer_after, cursor).
     and_then (read_array 4 input cursor) (\<lambda>(len_before, cursor).
     and_then (read_array 4 input cursor) (\<lambda>(len_after, cursor).
     and_then (read_array 32 input cursor) (\<lambda>(sync_state, cursor).
     and_then (read_array 4 input cursor) (\<lambda>(sync_len, cursor).
     and_then (read_array 4 input cursor) (\<lambda>(slot_lower, cursor).
     and_then (read_array 4 input cursor) (\<lambda>(slot_upper, cursor).
     Inr \<lparr>pv_da_mode = da_mode,
          pv_chain_id = u64_from_be chain_id,
          pv_settlement_contract = settlement_contract,
          pv_batch_sequence = u64_from_be batch_sequence,
          pv_vk_hash = vk_hash,
          pv_app_statement = app_statement,
          pv_mina_transaction_hash = mina_transaction_hash,
          pv_state_before = \<lparr>os_fields = state_before\<rparr>,
          pv_state_after = \<lparr>os_fields = state_after\<rparr>,
          pv_outer_action_state_before = outer_before,
          pv_outer_action_state_after = outer_after,
          pv_outer_action_state_length_before = u32_from_be len_before,
          pv_outer_action_state_length_after = u32_from_be len_after,
          pv_synchronized_outer_action_state = sync_state,
          pv_synchronized_outer_action_state_length = u32_from_be sync_len,
          pv_slot_lower = u32_from_be slot_lower,
          pv_slot_upper = u32_from_be slot_upper\<rparr>
     )))))))))))))))))))))))))"


text \<open>The value a V1 buffer of the right length holds, and its layout.\<close>

definition v1_of :: "bytes \<Rightarrow> spv1" where
  "v1_of input =
     \<lparr>pv_da_mode = Multisig,
      pv_chain_id = u64_from_be (slice input 8 8),
      pv_settlement_contract = slice input 16 20,
      pv_batch_sequence = u64_from_be (slice input 36 8),
      pv_vk_hash = slice input 44 32,
      pv_app_statement = slice input 76 32,
      pv_mina_transaction_hash = slice input 108 32,
      pv_state_before = \<lparr>os_fields = split_every 8 32 (slice input 140 256)\<rparr>,
      pv_state_after = \<lparr>os_fields = split_every 8 32 (slice input 396 256)\<rparr>,
      pv_outer_action_state_before = slice input 652 32,
      pv_outer_action_state_after = slice input 684 32,
      pv_outer_action_state_length_before = u32_from_be (slice input 716 4),
      pv_outer_action_state_length_after = u32_from_be (slice input 720 4),
      pv_synchronized_outer_action_state = slice input 724 32,
      pv_synchronized_outer_action_state_length = u32_from_be (slice input 756 4),
      pv_slot_lower = u32_from_be (slice input 760 4),
      pv_slot_upper = u32_from_be (slice input 764 4)\<rparr>"

definition v1_layout :: "spv1 \<Rightarrow> bytes" where
  "v1_layout v =
     SETTLEMENT_PUBLIC_VALUES_MAGIC @ u16_to_be SETTLEMENT_PUBLIC_VALUES_VERSION @
     [da_mode_byte (pv_da_mode v), 0] @ u64_to_be (pv_chain_id v) @ pv_settlement_contract v @
     u64_to_be (pv_batch_sequence v) @ pv_vk_hash v @ pv_app_statement v @
     pv_mina_transaction_hash v @ concat (os_fields (pv_state_before v)) @
     concat (os_fields (pv_state_after v)) @ pv_outer_action_state_before v @
     pv_outer_action_state_after v @ u32_to_be (pv_outer_action_state_length_before v) @
     u32_to_be (pv_outer_action_state_length_after v) @ pv_synchronized_outer_action_state v @
     u32_to_be (pv_synchronized_outer_action_state_length v) @ u32_to_be (pv_slot_lower v) @
     u32_to_be (pv_slot_upper v)"

lemma length_magic [simp]: "length SETTLEMENT_PUBLIC_VALUES_MAGIC = 4"
  by (simp add: spv_consts)

lemma length_outer_fields: "wf_outer_state s \<Longrightarrow> length (concat (os_fields s)) = 256"
  using length_concat_all [of 32 "os_fields s"] by (simp add: wf_outer_state_def)

lemma length_v1_layout: "wf_spv1 v \<Longrightarrow> length (v1_layout v) = 768"
  by (simp add: wf_spv1_def v1_layout_def length_outer_fields)

lemma encode_v1_layout: "wf_spv1 v \<Longrightarrow> encode_v1 v = Inr (v1_layout v)"
  unfolding encode_v1_def
  by (subst write_all_exact)
    (use length_v1_layout [of v] in
      \<open>simp_all add: v1_layout_def SETTLEMENT_PUBLIC_VALUES_V1_LENGTH_def\<close>)

lemma decode_v1_eq:
  "decode_v1 input =
    (if length input \<noteq> 768 then Inl (Wrong_Length 768 (length input))
     else if slice input 0 4 \<noteq> SETTLEMENT_PUBLIC_VALUES_MAGIC then Inl Invalid_Magic
     else if u16_from_be (slice input 4 2) \<noteq> 1
       then Inl (Unsupported_Version (u16_from_be (slice input 4 2)))
     else if slice input 7 1 ! 0 \<noteq> 0 then Inl Reserved_Not_Zero
     else if slice input 6 1 ! 0 \<noteq> 1 then Inl (Unsupported_Da_Mode (slice input 6 1 ! 0))
     else Inr (v1_of input))"
  by (simp add: decode_v1_def read_array_ok read_arrays_ok v1_of_def ensure_def
      SETTLEMENT_PUBLIC_VALUES_V1_LENGTH_def SETTLEMENT_PUBLIC_VALUES_VERSION_def)

lemma singleton_slice: "Suc a \<le> length xs \<Longrightarrow> slice xs a (Suc 0) = [xs ! a]"
  by (simp add: slice_def take_Suc_conv_app_nth hd_drop_conv_nth)

lemma outer_state_split:
  "wf_outer_state s \<Longrightarrow> \<lparr>os_fields = split_every 8 32 (concat (os_fields s))\<rparr> = s"
  by (rule outer_state.equality) (simp_all add: wf_outer_state_def split_every_concat)

lemma pv_da_mode_eq: "pv_da_mode v = Multisig"
  by (cases "pv_da_mode v") simp

lemma v1_of_layout: "wf_spv1 v \<Longrightarrow> v1_of (v1_layout v) = v"
  by (rule spv1.equality)
    (simp_all add: v1_of_def v1_layout_def wf_spv1_def slice_simps length_outer_fields
      outer_state_split pv_da_mode_eq)

lemma decode_encode_v1: "wf_spv1 v \<Longrightarrow> decode_v1 (v1_layout v) = Inr v"
  by (simp add: decode_v1_eq length_v1_layout v1_of_layout)
    (simp add: v1_layout_def slice_simps da_mode_byte_def SETTLEMENT_PUBLIC_VALUES_VERSION_def
      pv_da_mode_eq)

lemma wf_v1_of: "length input = 768 \<Longrightarrow> wf_spv1 (v1_of input)"
  by (simp add: wf_spv1_def v1_of_def wf_outer_state_def list_all_split_every)

lemma encode_decode_v1:
  assumes "decode_v1 input = Inr v"
  shows "wf_spv1 v \<and> encode_v1 v = Inr input"
proof -
  from assms have len: "length input = 768" and v: "v = v1_of input"
    and magic: "slice input 0 4 = SETTLEMENT_PUBLIC_VALUES_MAGIC"
    and ver: "u16_from_be (slice input 4 2) = 1"
    and res: "slice input 7 1 ! 0 = 0" and mode: "slice input 6 1 ! 0 = 1"
    by (simp_all add: decode_v1_eq split: if_splits)
  have wf: "wf_spv1 v" using len v by (simp add: wf_v1_of)
  have ver': "u16_to_be 1 = slice input 4 2" using ver len by (auto dest: arg_cong [of _ _ u16_to_be])
  have tag: "[1, 0] = slice input 6 1 @ slice input 7 1"
    using res mode len by (simp add: singleton_slice)
  have "v1_layout v = slice input 0 768"
    unfolding v v1_layout_def v1_of_def magic [symmetric] SETTLEMENT_PUBLIC_VALUES_VERSION_def ver'
    by (simp add: da_mode_byte_def len concat_split_every tag [simplified])
      (simp add: slice_joins len)
  then show ?thesis
    using wf len by (simp add: encode_v1_layout slice_whole)
qed

interpretation v1: codec encode_v1 decode_v1 wf_spv1
  by unfold_locales (auto simp: encode_v1_layout decode_encode_v1 dest: encode_decode_v1)


subsection \<open>V2\<close>

definition encode_v2 :: "spv2 \<Rightarrow> wire_error + bytes" where
  "encode_v2 v =
     and_then (encode_v1 (pv2_settlement v)) (\<lambda>prefix.
     and_then (copy_from_slice (replicate SETTLEMENT_PUBLIC_VALUES_V2_LENGTH 0) 0 prefix) (\<lambda>output.
     and_then (copy_from_slice output 4 (u16_to_be SETTLEMENT_PUBLIC_VALUES_V2_VERSION)) (\<lambda>output.
     and_then (write_all
       [pv2_bridge_address v,
        pv2_inner_action_root v,
        u32_to_be (pv2_inner_action_start_index v),
        u32_to_be (pv2_inner_action_count v)]
       (output, SETTLEMENT_PUBLIC_VALUES_V1_LENGTH)) (\<lambda>(output, cursor).
     Inr output))))"

definition decode_v2 :: "bytes \<Rightarrow> wire_error + spv2" where
  "decode_v2 input =
     ensure (length input = SETTLEMENT_PUBLIC_VALUES_V2_LENGTH)
       (Wrong_Length SETTLEMENT_PUBLIC_VALUES_V2_LENGTH (length input)) (
     ensure (take 4 input = SETTLEMENT_PUBLIC_VALUES_MAGIC) Invalid_Magic (
     let version = u16_from_be (slice input 4 2) in
     ensure (version = SETTLEMENT_PUBLIC_VALUES_V2_VERSION) (Unsupported_Version version) (
     and_then (copy_from_slice (take SETTLEMENT_PUBLIC_VALUES_V1_LENGTH input) 4
       (u16_to_be SETTLEMENT_PUBLIC_VALUES_VERSION)) (\<lambda>v1_prefix.
     and_then (decode_v1 v1_prefix) (\<lambda>settlement.
     and_then (read_array 20 input SETTLEMENT_PUBLIC_VALUES_V1_LENGTH) (\<lambda>(bridge_address, cursor).
     and_then (read_array 32 input cursor) (\<lambda>(inner_action_root, cursor).
     and_then (read_array 4 input cursor) (\<lambda>(start_index, cursor).
     and_then (read_array 4 input cursor) (\<lambda>(count, cursor).
     Inr \<lparr>pv2_settlement = settlement,
          pv2_bridge_address = bridge_address,
          pv2_inner_action_root = inner_action_root,
          pv2_inner_action_start_index = u32_from_be start_index,
          pv2_inner_action_count = u32_from_be count\<rparr>)))))))))"

subsection \<open>V3 and V4\<close>

definition encode_v3 :: "spv3 \<Rightarrow> wire_error + bytes" where
  "encode_v3 v =
     and_then (encode_v2 (pv3_settlement v)) (\<lambda>prefix.
     and_then (copy_from_slice (replicate SETTLEMENT_PUBLIC_VALUES_V3_LENGTH 0) 0 prefix) (\<lambda>output.
     and_then (copy_from_slice output 4 (u16_to_be SETTLEMENT_PUBLIC_VALUES_V3_VERSION)) (\<lambda>output.
     and_then (write_all
       [pv3_asset_registry_root v,
        u32_to_be (pv3_asset_registry_count v),
        u32_to_be (pv3_asset_registry_schema_version v),
        pv3_asset_record_hash v,
        pv3_asset_record_commitment v]
       (output, SETTLEMENT_PUBLIC_VALUES_V2_LENGTH)) (\<lambda>(output, cursor).
     Inr output))))"

definition decode_v3 :: "bytes \<Rightarrow> wire_error + spv3" where
  "decode_v3 input =
     ensure (length input = SETTLEMENT_PUBLIC_VALUES_V3_LENGTH)
       (Wrong_Length SETTLEMENT_PUBLIC_VALUES_V3_LENGTH (length input)) (
     ensure (take 4 input = SETTLEMENT_PUBLIC_VALUES_MAGIC) Invalid_Magic (
     let version = u16_from_be (slice input 4 2) in
     ensure (version = SETTLEMENT_PUBLIC_VALUES_V3_VERSION) (Unsupported_Version version) (
     and_then (copy_from_slice (take SETTLEMENT_PUBLIC_VALUES_V2_LENGTH input) 4
       (u16_to_be SETTLEMENT_PUBLIC_VALUES_V2_VERSION)) (\<lambda>v2_prefix.
     and_then (decode_v2 v2_prefix) (\<lambda>settlement.
     and_then (read_array 32 input SETTLEMENT_PUBLIC_VALUES_V2_LENGTH) (\<lambda>(registry_root, cursor).
     and_then (read_array 4 input cursor) (\<lambda>(registry_count, cursor).
     and_then (read_array 4 input cursor) (\<lambda>(schema_version, cursor).
     and_then (read_array 32 input cursor) (\<lambda>(record_hash, cursor).
     and_then (read_array 32 input cursor) (\<lambda>(record_commitment, cursor).
     Inr \<lparr>pv3_settlement = settlement,
          pv3_asset_registry_root = registry_root,
          pv3_asset_registry_count = u32_from_be registry_count,
          pv3_asset_registry_schema_version = u32_from_be schema_version,
          pv3_asset_record_hash = record_hash,
          pv3_asset_record_commitment = record_commitment\<rparr>))))))))))"

definition encode_v4 :: "spv4 \<Rightarrow> wire_error + bytes" where
  "encode_v4 v =
     and_then (encode_v2 (pv4_settlement v)) (\<lambda>prefix.
     and_then (copy_from_slice (replicate SETTLEMENT_PUBLIC_VALUES_V4_LENGTH 0) 0 prefix) (\<lambda>output.
     and_then (copy_from_slice output 4 (u16_to_be SETTLEMENT_PUBLIC_VALUES_V4_VERSION)) (\<lambda>output.
     and_then (write_all
       [pv4_asset_registry_root v,
        u32_to_be (pv4_asset_registry_count v),
        u32_to_be (pv4_asset_registry_schema_version v),
        pv4_asset_record_batch_root v,
        u32_to_be (pv4_asset_record_batch_count v)]
       (output, SETTLEMENT_PUBLIC_VALUES_V2_LENGTH)) (\<lambda>(output, cursor).
     Inr output))))"

definition decode_v4 :: "bytes \<Rightarrow> wire_error + spv4" where
  "decode_v4 input =
     ensure (length input = SETTLEMENT_PUBLIC_VALUES_V4_LENGTH)
       (Wrong_Length SETTLEMENT_PUBLIC_VALUES_V4_LENGTH (length input)) (
     ensure (take 4 input = SETTLEMENT_PUBLIC_VALUES_MAGIC) Invalid_Magic (
     let version = u16_from_be (slice input 4 2) in
     ensure (version = SETTLEMENT_PUBLIC_VALUES_V4_VERSION) (Unsupported_Version version) (
     and_then (copy_from_slice (take SETTLEMENT_PUBLIC_VALUES_V2_LENGTH input) 4
       (u16_to_be SETTLEMENT_PUBLIC_VALUES_V2_VERSION)) (\<lambda>v2_prefix.
     and_then (decode_v2 v2_prefix) (\<lambda>settlement.
     and_then (read_array 32 input SETTLEMENT_PUBLIC_VALUES_V2_LENGTH) (\<lambda>(registry_root, cursor).
     and_then (read_array 4 input cursor) (\<lambda>(registry_count, cursor).
     and_then (read_array 4 input cursor) (\<lambda>(schema_version, cursor).
     and_then (read_array 32 input cursor) (\<lambda>(batch_root, cursor).
     and_then (read_array 4 input cursor) (\<lambda>(batch_count, cursor).
     Inr \<lparr>pv4_settlement = settlement,
          pv4_asset_registry_root = registry_root,
          pv4_asset_registry_count = u32_from_be registry_count,
          pv4_asset_registry_schema_version = u32_from_be schema_version,
          pv4_asset_record_batch_root = batch_root,
          pv4_asset_record_batch_count = u32_from_be batch_count\<rparr>))))))))))"

subsection \<open>Dispatch on the length\<close>

datatype settlement_public_values = V1 spv1 | V2 spv2 | V3 spv3 | V4 spv4

definition decode_public_values :: "bytes \<Rightarrow> wire_error + settlement_public_values" where
  "decode_public_values input =
     (if length input = SETTLEMENT_PUBLIC_VALUES_V1_LENGTH then
        and_then (decode_v1 input) (\<lambda>v. Inr (V1 v))
      else if length input = SETTLEMENT_PUBLIC_VALUES_V2_LENGTH then
        and_then (decode_v2 input) (\<lambda>v. Inr (V2 v))
      else if length input = SETTLEMENT_PUBLIC_VALUES_V3_LENGTH then
        and_then (decode_v3 input) (\<lambda>v. Inr (V3 v))
      else if length input = SETTLEMENT_PUBLIC_VALUES_V4_LENGTH then
        and_then (decode_v4 input) (\<lambda>v. Inr (V4 v))
      else Inl (Unsupported_Length (length input)))"

fun settlement :: "settlement_public_values \<Rightarrow> spv1" where
  "settlement (V1 v) = v"
| "settlement (V2 v) = pv2_settlement v"
| "settlement (V3 v) = pv2_settlement (pv3_settlement v)"
| "settlement (V4 v) = pv2_settlement (pv4_settlement v)"

fun inner_action_batch :: "settlement_public_values \<Rightarrow> spv2 option" where
  "inner_action_batch (V1 _) = None"
| "inner_action_batch (V2 v) = Some v"
| "inner_action_batch (V3 v) = Some (pv3_settlement v)"
| "inner_action_batch (V4 v) = Some (pv4_settlement v)"

subsection \<open>Extending a receipt\<close>

text \<open>
  An extended receipt is the patched prefix followed by its own fields.  The lemma
  \<open>extend_buffer\<close> is what the three extended \<open>encode\<close> functions do with a prefix they have
  encoded; the locale \<open>extension\<close> is the contract under which the extended pair is a codec again.
\<close>

lemma extend_buffer:
  assumes "6 \<le> length prefix" "length prefix + length (concat tail) = n"
  shows "and_then (copy_from_slice (replicate n 0) 0 prefix) (\<lambda>output.
    and_then (copy_from_slice output 4 (u16_to_be ver)) (\<lambda>output.
    and_then (write_all tail (output, length prefix)) (\<lambda>(output, cursor). Inr output))) =
    Inr (patch_version ver prefix @ concat tail)"
proof -
  let ?out = "prefix @ replicate (n - length prefix) 0"
  have "copy_from_slice (replicate n 0) 0 prefix = Inr ?out"
    using assms by (simp add: copy_from_slice_def)
  moreover have "copy_from_slice ?out 4 (u16_to_be ver) = Inr (patch_version ver ?out)"
    using assms by (intro copy_version) simp
  moreover have "patch_version ver ?out = patch_version ver prefix @ replicate (n - length prefix) 0"
    using assms by (simp add: patch_version_def)
  moreover have "write_all tail (patch_version ver prefix @ replicate (n - length prefix) 0, length prefix) =
      Inr (patch_version ver prefix @ concat tail, n)"
    using assms by (subst write_all_fill) auto
  ultimately show ?thesis by simp
qed

lemma patched_prefix:
  assumes "6 \<le> n" "n \<le> length input"
  shows "copy_from_slice (take n input) 4 (u16_to_be ver) = Inr (patch_version ver (take n input))"
  using assms by (intro copy_version) simp

definition versioned :: "nat \<Rightarrow> u16 \<Rightarrow> bytes \<Rightarrow> bool" where
  "versioned n ver bs \<longleftrightarrow> length bs = n \<and> take 4 bs = SETTLEMENT_PUBLIC_VALUES_MAGIC \<and>
     u16_from_be (slice bs 4 2) = ver"

locale extension = codec enc dec wf
  for enc :: "'a \<Rightarrow> wire_error + bytes" and dec and wf +
  fixes enc' :: "'b \<Rightarrow> wire_error + bytes"
    and dec' :: "bytes \<Rightarrow> wire_error + 'b"
    and wf' :: "'b \<Rightarrow> bool"
    and base :: "'b \<Rightarrow> 'a"
    and tail :: "'b \<Rightarrow> bytes"
    and base_len tail_len :: nat
    and base_ver ver :: u16
  assumes base_wire: "wf v \<Longrightarrow> enc v = Inr bs \<Longrightarrow> versioned base_len base_ver bs"
    and base_len: "6 \<le> base_len"
    and wf_base: "wf' x \<Longrightarrow> wf (base x) \<and> length (tail x) = tail_len"
    and enc'_eq: "wf' x \<Longrightarrow> enc (base x) = Inr bs \<Longrightarrow> enc' x = Inr (patch_version ver bs @ tail x)"
    and dec'_eq: "dec' input = Inr x \<longleftrightarrow> versioned (base_len + tail_len) ver input \<and>
      dec (patch_version base_ver (take base_len input)) = Inr (base x) \<and>
      wf' x \<and> tail x = drop base_len input"
begin

lemma ext_dec_enc:
  assumes "wf' x" "enc' x = Inr bs"
  shows "dec' bs = Inr x"
proof -
  obtain p where p: "enc (base x) = Inr p" "versioned base_len base_ver p" "dec p = Inr (base x)"
    using round_trip wf_base [OF assms(1)] base_wire by blast
  have len: "length p = base_len" "6 \<le> length p" using p base_len by (simp_all add: versioned_def)
  have bs: "bs = patch_version ver p @ tail x" using enc'_eq assms p by simp
  have "take base_len bs = patch_version ver p" using bs len by simp
  then have "patch_version base_ver (take base_len bs) = p"
    using p len by (simp add: patch_version_patch patch_version_same versioned_def)
  moreover have "versioned (base_len + tail_len) ver bs"
    using p len bs wf_base [OF assms(1)]
    by (simp add: versioned_def patch_version_def slice_simps)
  ultimately show ?thesis using assms p bs len by (simp add: dec'_eq)
qed

lemma ext_enc_dec:
  assumes "dec' bs = Inr x"
  shows "wf' x \<and> enc' x = Inr bs"
proof -
  note d = assms [unfolded dec'_eq versioned_def]
  let ?p = "patch_version base_ver (take base_len bs)"
  have "enc (base x) = Inr ?p" using d enc_dec by blast
  moreover have "patch_version ver ?p = take base_len bs"
    using d base_len by (simp add: patch_version_patch patch_version_same slice_take)
  ultimately show ?thesis using d enc'_eq by simp
qed

end

sublocale extension \<subseteq> ext: codec enc' dec' wf'
proof
  show "\<exists>bs. enc' x = Inr bs" if "wf' x" for x
    using that enc_total enc'_eq wf_base by blast
qed (fact ext_dec_enc, fact ext_enc_dec)

lemma drop_eq_slice: "drop a xs = slice xs a (length xs - a)"
  by (simp add: slice_def)

lemma u32_to_be_eq: "length bs = 4 \<Longrightarrow> u32_to_be w = bs \<longleftrightarrow> w = u32_from_be bs"
  by auto

subsection \<open>V2 to V4 are codecs\<close>

lemma v1_wire: "wf_spv1 v \<Longrightarrow> encode_v1 v = Inr bs \<Longrightarrow> versioned 768 1 bs"
  using length_v1_layout [of v]
  by (simp add: encode_v1_layout versioned_def)
    (auto simp: v1_layout_def slice_simps SETTLEMENT_PUBLIC_VALUES_VERSION_def)

definition v2_tail :: "spv2 \<Rightarrow> bytes" where
  "v2_tail v = pv2_bridge_address v @ pv2_inner_action_root v @
     u32_to_be (pv2_inner_action_start_index v) @ u32_to_be (pv2_inner_action_count v)"

lemma encode_v2_eq:
  assumes "wf_spv2 v" "encode_v1 (pv2_settlement v) = Inr bs"
  shows "encode_v2 v = Inr (patch_version 2 bs @ v2_tail v)"
proof -
  have "length bs = 768" using assms v1_wire [of "pv2_settlement v" bs]
    by (simp add: wf_spv2_def versioned_def)
  with extend_buffer [of bs "[pv2_bridge_address v, pv2_inner_action_root v,
      u32_to_be (pv2_inner_action_start_index v), u32_to_be (pv2_inner_action_count v)]" 828 2]
  show ?thesis
    using assms by (simp add: encode_v2_def spv_consts v2_tail_def wf_spv2_def del: write_all.simps)
qed

lemma decode_v2_eq:
  "decode_v2 input = Inr v \<longleftrightarrow> versioned (768 + 60) 2 input \<and>
     decode_v1 (patch_version 1 (take 768 input)) = Inr (pv2_settlement v) \<and>
     wf_spv2 v \<and> v2_tail v = drop 768 input"
proof (cases "length input = 828")
  case True
  have tail: "drop 768 input = slice input 768 20 @ slice input 788 32 @ slice input 820 4 @ slice input 824 4"
    using True by (simp add: slice_joins drop_eq_slice)
  have "decode_v2 input = Inr v \<longleftrightarrow> versioned 828 2 input \<and>
      decode_v1 (patch_version 1 (take 768 input)) = Inr (pv2_settlement v) \<and>
      pv2_bridge_address v = slice input 768 20 \<and> pv2_inner_action_root v = slice input 788 32 \<and>
      pv2_inner_action_start_index v = u32_from_be (slice input 820 4) \<and>
      pv2_inner_action_count v = u32_from_be (slice input 824 4)"
    using True
    by (cases v) (auto simp: decode_v2_def Let_def versioned_def patched_prefix read_array_ok
        res_simps spv_consts)
  also have "\<dots> \<longleftrightarrow> versioned 828 2 input \<and>
      decode_v1 (patch_version 1 (take 768 input)) = Inr (pv2_settlement v) \<and>
      wf_spv2 v \<and> v2_tail v = drop 768 input"
    using True encode_decode_v1
    by (auto simp: wf_spv2_def v2_tail_def tail u32_to_be_eq)
  finally show ?thesis by simp
qed (simp add: decode_v2_def spv_consts versioned_def)

interpretation v2: extension encode_v1 decode_v1 wf_spv1 encode_v2 decode_v2 wf_spv2
  pv2_settlement v2_tail 768 60 1 2
  by unfold_locales
    (auto simp: v1_wire encode_v2_eq decode_v2_eq wf_spv2_def v2_tail_def)


lemma v2_wire: "wf_spv2 v \<Longrightarrow> encode_v2 v = Inr bs \<Longrightarrow> versioned 828 2 bs"
  using v2.ext_dec_enc [of v bs] by (simp add: v2.dec'_eq)

definition v3_tail :: "spv3 \<Rightarrow> bytes" where
  "v3_tail v = pv3_asset_registry_root v @ u32_to_be (pv3_asset_registry_count v) @
     u32_to_be (pv3_asset_registry_schema_version v) @ pv3_asset_record_hash v @
     pv3_asset_record_commitment v"

definition v4_tail :: "spv4 \<Rightarrow> bytes" where
  "v4_tail v = pv4_asset_registry_root v @ u32_to_be (pv4_asset_registry_count v) @
     u32_to_be (pv4_asset_registry_schema_version v) @ pv4_asset_record_batch_root v @
     u32_to_be (pv4_asset_record_batch_count v)"

lemma encode_v3_eq:
  assumes "wf_spv3 v" "encode_v2 (pv3_settlement v) = Inr bs"
  shows "encode_v3 v = Inr (patch_version 3 bs @ v3_tail v)"
proof -
  have "length bs = 828" using assms v2_wire [of "pv3_settlement v" bs]
    by (simp add: wf_spv3_def versioned_def)
  with extend_buffer [of bs "[pv3_asset_registry_root v, u32_to_be (pv3_asset_registry_count v),
      u32_to_be (pv3_asset_registry_schema_version v), pv3_asset_record_hash v,
      pv3_asset_record_commitment v]" 932 3]
  show ?thesis
    using assms by (simp add: encode_v3_def spv_consts v3_tail_def wf_spv3_def del: write_all.simps)
qed

lemma encode_v4_eq:
  assumes "wf_spv4 v" "encode_v2 (pv4_settlement v) = Inr bs"
  shows "encode_v4 v = Inr (patch_version 4 bs @ v4_tail v)"
proof -
  have "length bs = 828" using assms v2_wire [of "pv4_settlement v" bs]
    by (simp add: wf_spv4_def versioned_def)
  with extend_buffer [of bs "[pv4_asset_registry_root v, u32_to_be (pv4_asset_registry_count v),
      u32_to_be (pv4_asset_registry_schema_version v), pv4_asset_record_batch_root v,
      u32_to_be (pv4_asset_record_batch_count v)]" 904 4]
  show ?thesis
    using assms by (simp add: encode_v4_def spv_consts v4_tail_def wf_spv4_def del: write_all.simps)
qed

lemma decode_v3_eq:
  "decode_v3 input = Inr v \<longleftrightarrow> versioned (828 + 104) 3 input \<and>
     decode_v2 (patch_version 2 (take 828 input)) = Inr (pv3_settlement v) \<and>
     wf_spv3 v \<and> v3_tail v = drop 828 input"
proof (cases "length input = 932")
  case True
  have tail: "drop 828 input = slice input 828 32 @ slice input 860 4 @ slice input 864 4 @
      slice input 868 32 @ slice input 900 32"
    using True by (simp add: slice_joins drop_eq_slice)
  have "decode_v3 input = Inr v \<longleftrightarrow> versioned 932 3 input \<and>
      decode_v2 (patch_version 2 (take 828 input)) = Inr (pv3_settlement v) \<and>
      pv3_asset_registry_root v = slice input 828 32 \<and>
      pv3_asset_registry_count v = u32_from_be (slice input 860 4) \<and>
      pv3_asset_registry_schema_version v = u32_from_be (slice input 864 4) \<and>
      pv3_asset_record_hash v = slice input 868 32 \<and>
      pv3_asset_record_commitment v = slice input 900 32"
    using True
    by (cases v) (auto simp: decode_v3_def Let_def versioned_def patched_prefix read_array_ok
        res_simps spv_consts)
  also have "\<dots> \<longleftrightarrow> versioned 932 3 input \<and>
      decode_v2 (patch_version 2 (take 828 input)) = Inr (pv3_settlement v) \<and>
      wf_spv3 v \<and> v3_tail v = drop 828 input"
    using True v2.ext_enc_dec
    by (auto simp: wf_spv3_def v3_tail_def tail u32_to_be_eq)
  finally show ?thesis by simp
qed (simp add: decode_v3_def spv_consts versioned_def)

lemma decode_v4_eq:
  "decode_v4 input = Inr v \<longleftrightarrow> versioned (828 + 76) 4 input \<and>
     decode_v2 (patch_version 2 (take 828 input)) = Inr (pv4_settlement v) \<and>
     wf_spv4 v \<and> v4_tail v = drop 828 input"
proof (cases "length input = 904")
  case True
  have tail: "drop 828 input = slice input 828 32 @ slice input 860 4 @ slice input 864 4 @
      slice input 868 32 @ slice input 900 4"
    using True by (simp add: slice_joins drop_eq_slice)
  have "decode_v4 input = Inr v \<longleftrightarrow> versioned 904 4 input \<and>
      decode_v2 (patch_version 2 (take 828 input)) = Inr (pv4_settlement v) \<and>
      pv4_asset_registry_root v = slice input 828 32 \<and>
      pv4_asset_registry_count v = u32_from_be (slice input 860 4) \<and>
      pv4_asset_registry_schema_version v = u32_from_be (slice input 864 4) \<and>
      pv4_asset_record_batch_root v = slice input 868 32 \<and>
      pv4_asset_record_batch_count v = u32_from_be (slice input 900 4)"
    using True
    by (cases v) (auto simp: decode_v4_def Let_def versioned_def patched_prefix read_array_ok
        res_simps spv_consts)
  also have "\<dots> \<longleftrightarrow> versioned 904 4 input \<and>
      decode_v2 (patch_version 2 (take 828 input)) = Inr (pv4_settlement v) \<and>
      wf_spv4 v \<and> v4_tail v = drop 828 input"
    using True v2.ext_enc_dec
    by (auto simp: wf_spv4_def v4_tail_def tail u32_to_be_eq)
  finally show ?thesis by simp
qed (simp add: decode_v4_def spv_consts versioned_def)

interpretation v3: extension encode_v2 decode_v2 wf_spv2 encode_v3 decode_v3 wf_spv3
  pv3_settlement v3_tail 828 104 2 3
  by unfold_locales
    (auto simp: v2_wire encode_v3_eq decode_v3_eq wf_spv3_def v3_tail_def)

interpretation v4: extension encode_v2 decode_v2 wf_spv2 encode_v4 decode_v4 wf_spv4
  pv4_settlement v4_tail 828 76 2 4
  by unfold_locales
    (auto simp: v2_wire encode_v4_eq decode_v4_eq wf_spv4_def v4_tail_def)


subsection \<open>The versioned receipt as one codec\<close>

fun encode_public_values :: "settlement_public_values \<Rightarrow> wire_error + bytes" where
  "encode_public_values (V1 v) = encode_v1 v"
| "encode_public_values (V2 v) = encode_v2 v"
| "encode_public_values (V3 v) = encode_v3 v"
| "encode_public_values (V4 v) = encode_v4 v"

fun wf_public_values :: "settlement_public_values \<Rightarrow> bool" where
  "wf_public_values (V1 v) = wf_spv1 v"
| "wf_public_values (V2 v) = wf_spv2 v"
| "wf_public_values (V3 v) = wf_spv3 v"
| "wf_public_values (V4 v) = wf_spv4 v"

lemma encoded_lengths:
  "wf_spv1 a \<Longrightarrow> encode_v1 a = Inr bs \<Longrightarrow> length bs = 768"
  "wf_spv2 b \<Longrightarrow> encode_v2 b = Inr bs \<Longrightarrow> length bs = 828"
  "wf_spv3 c \<Longrightarrow> encode_v3 c = Inr bs \<Longrightarrow> length bs = 932"
  "wf_spv4 d \<Longrightarrow> encode_v4 d = Inr bs \<Longrightarrow> length bs = 904"
  using v1_wire [of a bs] v2_wire [of b bs] v3.ext_dec_enc [of c bs] v4.ext_dec_enc [of d bs]
  by (simp_all add: versioned_def v3.dec'_eq v4.dec'_eq)

lemma decode_public_values_iff:
  "decode_public_values bs = Inr v \<longleftrightarrow> wf_public_values v \<and> encode_public_values v = Inr bs"
  using encoded_lengths [of _ bs]
  by (cases v)
    (auto simp: decode_public_values_def res_simps v1.dec_iff_enc v2.ext.dec_iff_enc
      v3.ext.dec_iff_enc v4.ext.dec_iff_enc spv_consts(6-9))

interpretation receipt: codec encode_public_values decode_public_values wf_public_values
proof
  show "\<exists>bs. encode_public_values v = Inr bs" if "wf_public_values v" for v
    using that by (cases v)
      (simp_all add: v1.enc_total v2.ext.enc_total v3.ext.enc_total v4.ext.enc_total)
qed (simp_all add: decode_public_values_iff)

lemma and_then_no_panic:
  "m \<noteq> Inl e \<Longrightarrow> (\<And>x. m = Inr x \<Longrightarrow> f x \<noteq> Inl e) \<Longrightarrow> and_then m f \<noteq> Inl e"
  by (cases m) simp_all

lemma ensure_no_panic: "x \<noteq> e \<Longrightarrow> (b \<Longrightarrow> k \<noteq> Inl e) \<Longrightarrow> ensure b x k \<noteq> Inl e"
  by (simp add: ensure_def)

lemma decode_v1_no_panic: "decode_v1 input \<noteq> Inl Slice_Panic"
  by (simp add: decode_v1_eq)

lemma decode_v2_no_panic: "decode_v2 input \<noteq> Inl Slice_Panic"
  unfolding decode_v2_def Let_def
  by (intro ensure_no_panic and_then_no_panic decode_v1_no_panic)
    (auto simp: patched_prefix read_array_ok spv_consts)

lemma decode_v3_no_panic: "decode_v3 input \<noteq> Inl Slice_Panic"
  unfolding decode_v3_def Let_def
  by (intro ensure_no_panic and_then_no_panic decode_v2_no_panic)
    (auto simp: patched_prefix read_array_ok spv_consts)

lemma decode_v4_no_panic: "decode_v4 input \<noteq> Inl Slice_Panic"
  unfolding decode_v4_def Let_def
  by (intro ensure_no_panic and_then_no_panic decode_v2_no_panic)
    (auto simp: patched_prefix read_array_ok spv_consts)

subsection \<open>Properties\<close>

text \<open>
  C30: every well-formed receipt of any version encodes without panic, and decoding the bytes by
  their length gives back the same receipt, version included.
\<close>

theorem receipt_round_trip:
  assumes "wf_public_values v"
  shows "\<exists>bs. encode_public_values v = Inr bs \<and> decode_public_values bs = Inr v"
  using assms by (rule receipt.round_trip)

definition sample_spv1 :: spv1 where
  "sample_spv1 =
     \<lparr>pv_da_mode = Multisig, pv_chain_id = 11155111, pv_settlement_contract = replicate 20 0x11,
      pv_batch_sequence = 42, pv_vk_hash = replicate 32 0x22, pv_app_statement = replicate 32 0x33,
      pv_mina_transaction_hash = replicate 32 0x44,
      pv_state_before = \<lparr>os_fields = replicate 8 (replicate 32 1)\<rparr>,
      pv_state_after = \<lparr>os_fields = replicate 8 (replicate 32 0x80)\<rparr>,
      pv_outer_action_state_before = replicate 32 0x55,
      pv_outer_action_state_after = replicate 32 0x66,
      pv_outer_action_state_length_before = 7, pv_outer_action_state_length_after = 8,
      pv_synchronized_outer_action_state = replicate 32 0x77,
      pv_synchronized_outer_action_state_length = 6, pv_slot_lower = 100, pv_slot_upper = 120\<rparr>"

lemma wf_sample_spv1: "wf_spv1 sample_spv1"
  by (simp add: sample_spv1_def wf_spv1_def wf_outer_state_def list_all_iff)

theorem receipt_round_trip_witness:
  "\<exists>bs. encode_public_values (V1 sample_spv1) = Inr bs \<and>
     decode_public_values bs = Inr (V1 sample_spv1)"
  by (rule receipt_round_trip) (simp add: wf_sample_spv1)

text \<open>
  The decoder accepts nothing but canonical receipts: a byte string it accepts is exactly the
  encoding of the receipt it returns, so two accepted byte strings with the same meaning are equal.
\<close>

lemma receipt_canonical:
  assumes "decode_public_values bs = Inr v"
  shows "wf_public_values v \<and> encode_public_values v = Inr bs \<and>
    (decode_public_values cs = Inr v \<longrightarrow> cs = bs)"
  using receipt.enc_dec [OF assms] receipt.dec_inject [OF assms] by auto

text \<open>
  Decoding never indexes out of range: for every input, of any length and content, the decoder
  of the receipts returns a value or one of its declared errors, never a slice panic.
\<close>

lemma receipt_decode_no_panic: "decode_public_values input \<noteq> Inl Slice_Panic"
  unfolding decode_public_values_def
  using decode_v1_no_panic decode_v2_no_panic decode_v3_no_panic decode_v4_no_panic
  by (auto simp: and_then_def split: sum.splits)

end
