(* ===== verification/Bridge_Receipt.thy ===== *)
theory Bridge_Receipt
  imports Wire
begin

text \<open>
  The public values of the bridge guest: \<open>BridgeOuterActionV2\<close> and
  \<open>BridgeTransitionPublicValuesV2\<close> of \<open>lib/src/lib.rs\<close> with \<open>encode\<close>, \<open>decode\<close> and
  \<open>deposit_count\<close>.  The encoding has a fixed header of 164 bytes and 192 bytes per emitted
  action; the last part interprets the codec contract on it.
\<close>

subsection \<open>Data\<close>

record bridge_outer_action =
  ba_fields :: "bytes list"
  ba_state_after :: bytes

record bridge_public_values =
  bpv_ethereum_state_before :: bytes
  bpv_ethereum_state_after :: bytes
  bpv_ethereum_nonce_before :: u64
  bpv_ethereum_nonce_after :: u64
  bpv_zeko_action_state_before :: bytes
  bpv_zeko_action_state_after :: bytes
  bpv_zeko_action_state_length_before :: u32
  bpv_zeko_action_state_length_after :: u32
  bpv_actions :: "bridge_outer_action list"

subsection \<open>The receipt on the wire\<close>

definition BRIDGE_PUBLIC_VALUES_V2_MAGIC :: bytes where
  "BRIDGE_PUBLIC_VALUES_V2_MAGIC = [0x5A, 0x4B, 0x42, 0x52]"

definition BRIDGE_PUBLIC_VALUES_V2_VERSION :: u16 where
  "BRIDGE_PUBLIC_VALUES_V2_VERSION = 2"

definition BRIDGE_PUBLIC_VALUES_V2_HEADER_LENGTH :: nat where
  "BRIDGE_PUBLIC_VALUES_V2_HEADER_LENGTH = 164"

definition BRIDGE_ACTION_FIELDS :: nat where
  "BRIDGE_ACTION_FIELDS = 5"

definition BRIDGE_ACTION_V2_LENGTH :: nat where
  "BRIDGE_ACTION_V2_LENGTH = (BRIDGE_ACTION_FIELDS + 1) * 32"

lemmas bpv_consts =
  BRIDGE_PUBLIC_VALUES_V2_VERSION_def BRIDGE_PUBLIC_VALUES_V2_HEADER_LENGTH_def
  BRIDGE_ACTION_FIELDS_def BRIDGE_ACTION_V2_LENGTH_def

definition encode_bridge :: "bridge_public_values \<Rightarrow> wire_error + bytes" where
  "encode_bridge v =
     ensure (length (bpv_actions v) < 2 ^ 32) Length_Overflow (
     let count = word_of_nat (length (bpv_actions v)) :: u32 in
     Inr (BRIDGE_PUBLIC_VALUES_V2_MAGIC @
       u16_to_be BRIDGE_PUBLIC_VALUES_V2_VERSION @
       replicate 2 0 @
       bpv_ethereum_state_before v @
       bpv_ethereum_state_after v @
       u64_to_be (bpv_ethereum_nonce_before v) @
       u64_to_be (bpv_ethereum_nonce_after v) @
       bpv_zeko_action_state_before v @
       bpv_zeko_action_state_after v @
       u32_to_be (bpv_zeko_action_state_length_before v) @
       u32_to_be (bpv_zeko_action_state_length_after v) @
       u32_to_be count @
       concat (map (\<lambda>action. concat (ba_fields action) @ ba_state_after action) (bpv_actions v))))"

fun read_actions :: "nat \<Rightarrow> bytes \<Rightarrow> nat \<Rightarrow> wire_error + bridge_outer_action list \<times> nat" where
  "read_actions 0 input cursor = Inr ([], cursor)"
| "read_actions (Suc count) input cursor =
     and_then (read_arrays BRIDGE_ACTION_FIELDS 32 input cursor) (\<lambda>(fs, cursor).
     and_then (read_array 32 input cursor) (\<lambda>(state_after, cursor).
     and_then (read_actions count input cursor) (\<lambda>(actions, cursor).
     Inr (\<lparr>ba_fields = fs, ba_state_after = state_after\<rparr> # actions, cursor))))"

definition decode_bridge :: "bytes \<Rightarrow> wire_error + bridge_public_values" where
  "decode_bridge input =
     ensure (length input \<ge> BRIDGE_PUBLIC_VALUES_V2_HEADER_LENGTH) Truncated_Header (
     ensure (take 4 input = BRIDGE_PUBLIC_VALUES_V2_MAGIC) Invalid_Magic (
     let version = u16_from_be (slice input 4 2) in
     ensure (version = BRIDGE_PUBLIC_VALUES_V2_VERSION) (Unsupported_Version version) (
     ensure (slice input 6 2 = replicate 2 0) Reserved_Not_Zero (
     and_then (read_array 32 input 8) (\<lambda>(ethereum_state_before, cursor).
     and_then (read_array 32 input cursor) (\<lambda>(ethereum_state_after, cursor).
     and_then (read_array 8 input cursor) (\<lambda>(nonce_before, cursor).
     and_then (read_array 8 input cursor) (\<lambda>(nonce_after, cursor).
     and_then (read_array 32 input cursor) (\<lambda>(zeko_before, cursor).
     and_then (read_array 32 input cursor) (\<lambda>(zeko_after, cursor).
     and_then (read_array 4 input cursor) (\<lambda>(length_before, cursor).
     and_then (read_array 4 input cursor) (\<lambda>(length_after, cursor).
     and_then (read_array 4 input cursor) (\<lambda>(cnt, cursor).
     let count = unat (u32_from_be cnt);
         expected = BRIDGE_PUBLIC_VALUES_V2_HEADER_LENGTH + count * BRIDGE_ACTION_V2_LENGTH in
     ensure (expected < 2 ^ 64) Length_Overflow (
     ensure (length input = expected) (Wrong_Length expected (length input)) (
     and_then (read_actions count input cursor) (\<lambda>(actions, cursor).
     Inr \<lparr>bpv_ethereum_state_before = ethereum_state_before,
          bpv_ethereum_state_after = ethereum_state_after,
          bpv_ethereum_nonce_before = u64_from_be nonce_before,
          bpv_ethereum_nonce_after = u64_from_be nonce_after,
          bpv_zeko_action_state_before = zeko_before,
          bpv_zeko_action_state_after = zeko_after,
          bpv_zeko_action_state_length_before = u32_from_be length_before,
          bpv_zeko_action_state_length_after = u32_from_be length_after,
          bpv_actions = actions\<rparr>))))))))))))))))"

definition deposit_count :: "bridge_public_values \<Rightarrow> u32" where
  "deposit_count v = word_of_nat (length (bpv_actions v))"

subsection \<open>The codec contract\<close>

definition encode_action :: "bridge_outer_action \<Rightarrow> bytes" where
  "encode_action a = concat (ba_fields a) @ ba_state_after a"

definition wf_action :: "bridge_outer_action \<Rightarrow> bool" where
  "wf_action a \<longleftrightarrow> length (ba_fields a) = 5 \<and> list_all (\<lambda>f. length f = 32) (ba_fields a) \<and>
     length (ba_state_after a) = 32"

definition wf_bridge_public_values :: "bridge_public_values \<Rightarrow> bool" where
  "wf_bridge_public_values v \<longleftrightarrow>
     length (bpv_ethereum_state_before v) = 32 \<and> length (bpv_ethereum_state_after v) = 32 \<and>
     length (bpv_zeko_action_state_before v) = 32 \<and> length (bpv_zeko_action_state_after v) = 32 \<and>
     list_all wf_action (bpv_actions v) \<and> length (bpv_actions v) < 2 ^ 32"

lemma length_encode_action: "wf_action a \<Longrightarrow> length (encode_action a) = 192"
  using length_concat_all [of 32 "ba_fields a"] by (simp add: encode_action_def wf_action_def)

lemma length_encode_actions:
  "list_all wf_action as \<Longrightarrow> length (concat (map encode_action as)) = 192 * length as"
  by (induction as) (simp_all add: length_encode_action)

definition action_of :: "bytes \<Rightarrow> bridge_outer_action" where
  "action_of bs = \<lparr>ba_fields = split_every 5 32 (slice bs 0 160), ba_state_after = slice bs 160 32\<rparr>"

lemma wf_action_of: "length bs = 192 \<Longrightarrow> wf_action (action_of bs)"
  by (simp add: wf_action_def action_of_def list_all_split_every)

lemma encode_action_of: "length bs = 192 \<Longrightarrow> encode_action (action_of bs) = bs"
  by (simp add: encode_action_def action_of_def concat_split_every slice_joins slice_whole)

lemma action_of_encode: "wf_action a \<Longrightarrow> action_of (encode_action a) = a"
  using length_concat_all [of 32 "ba_fields a"]
  by (intro bridge_outer_action.equality)
    (simp_all add: action_of_def encode_action_def wf_action_def slice_simps split_every_concat)

lemma slice_slice: "b + m \<le> n \<Longrightarrow> slice (slice xs a n) b m = slice xs (a + b) m"
  by (simp add: slice_def take_drop ac_simps min_def)

lemma slice_split:
  "take n (slice xs a (n + m)) = slice xs a n" "drop n (slice xs a (n + m)) = slice xs (a + n) m"
  by (simp_all add: slice_def take_drop ac_simps)

lemma read_actions_ok:
  "cursor + 192 * count \<le> length input \<Longrightarrow>
   read_actions count input cursor =
     Inr (map action_of (split_every count 192 (slice input cursor (192 * count))),
          cursor + 192 * count)"
proof (induction count arbitrary: cursor)
  case (Suc count)
  show ?case
    using Suc.prems Suc.IH [of "cursor + 192"]
    by (simp add: bpv_consts read_arrays_ok read_array_ok action_of_def slice_slice slice_split
        add.assoc)
qed simp

definition bridge_layout :: "bridge_public_values \<Rightarrow> bytes" where
  "bridge_layout v =
     BRIDGE_PUBLIC_VALUES_V2_MAGIC @ u16_to_be 2 @ replicate 2 0 @
     bpv_ethereum_state_before v @ bpv_ethereum_state_after v @
     u64_to_be (bpv_ethereum_nonce_before v) @ u64_to_be (bpv_ethereum_nonce_after v) @
     bpv_zeko_action_state_before v @ bpv_zeko_action_state_after v @
     u32_to_be (bpv_zeko_action_state_length_before v) @
     u32_to_be (bpv_zeko_action_state_length_after v) @
     u32_to_be (word_of_nat (length (bpv_actions v))) @
     concat (map encode_action (bpv_actions v))"

definition bridge_of :: "bytes \<Rightarrow> bridge_public_values" where
  "bridge_of input =
     (let count = unat (u32_from_be (slice input 160 4)) in
      \<lparr>bpv_ethereum_state_before = slice input 8 32,
       bpv_ethereum_state_after = slice input 40 32,
       bpv_ethereum_nonce_before = u64_from_be (slice input 72 8),
       bpv_ethereum_nonce_after = u64_from_be (slice input 80 8),
       bpv_zeko_action_state_before = slice input 88 32,
       bpv_zeko_action_state_after = slice input 120 32,
       bpv_zeko_action_state_length_before = u32_from_be (slice input 152 4),
       bpv_zeko_action_state_length_after = u32_from_be (slice input 156 4),
       bpv_actions = map action_of (split_every count 192 (slice input 164 (192 * count)))\<rparr>)"

lemma length_bridge_magic [simp]: "length BRIDGE_PUBLIC_VALUES_V2_MAGIC = 4"
  by (simp add: BRIDGE_PUBLIC_VALUES_V2_MAGIC_def)

lemma encode_bridge_layout: "wf_bridge_public_values v \<Longrightarrow> encode_bridge v = Inr (bridge_layout v)"
  by (simp add: encode_bridge_def bridge_layout_def wf_bridge_public_values_def
      BRIDGE_PUBLIC_VALUES_V2_VERSION_def Let_def flip: encode_action_def)

text \<open>
  The length check that the source writes with \<open>checked_mul\<close> and \<open>checked_add\<close> can not
  overflow a 64-bit \<open>usize\<close>: the count is a 32-bit number.
\<close>

lemma decode_bridge_eq:
  "decode_bridge input =
    (let count = unat (u32_from_be (slice input 160 4)) in
     if length input < 164 then Inl Truncated_Header
     else if slice input 0 4 \<noteq> BRIDGE_PUBLIC_VALUES_V2_MAGIC then Inl Invalid_Magic
     else if u16_from_be (slice input 4 2) \<noteq> 2
       then Inl (Unsupported_Version (u16_from_be (slice input 4 2)))
     else if slice input 6 2 \<noteq> replicate 2 0 then Inl Reserved_Not_Zero
     else if length input \<noteq> 164 + 192 * count then Inl (Wrong_Length (164 + 192 * count) (length input))
     else Inr (bridge_of input))"
proof -
  let ?count = "unat (u32_from_be (slice input 160 4))"
  have "192 * ?count + 164 < 2 ^ 64"
    using unat_less_pow [of "u32_from_be (slice input 160 4)"] by simp
  then show ?thesis
    by (simp add: decode_bridge_def read_array_ok read_actions_ok bridge_of_def ensure_def Let_def
        bpv_consts take_eq_slice ac_simps not_le)
qed

lemma length_bridge_layout:
  "wf_bridge_public_values v \<Longrightarrow> length (bridge_layout v) = 164 + 192 * length (bpv_actions v)"
  by (simp add: bridge_layout_def wf_bridge_public_values_def length_encode_actions del: length_concat)

lemma bridge_of_layout:
  assumes "wf_bridge_public_values v"
  shows "bridge_of (bridge_layout v) = v"
proof -
  have acts: "list_all (\<lambda>x. length x = 192) (map encode_action (bpv_actions v))"
    and inv: "map (action_of \<circ> encode_action) (bpv_actions v) = bpv_actions v"
    using assms by (auto simp: wf_bridge_public_values_def list_all_iff length_encode_action
        action_of_encode intro!: map_idI)
  show ?thesis
    using assms inv split_every_concat [OF acts refl]
    by (intro bridge_public_values.equality)
      (simp_all add: bridge_of_def bridge_layout_def wf_bridge_public_values_def slice_simps Let_def
        unat_of_nat take_bit_nat_eq_self length_encode_actions del: length_concat)
qed

lemma decode_bridge_layout: "wf_bridge_public_values v \<Longrightarrow> decode_bridge (bridge_layout v) = Inr v"
  by (simp add: decode_bridge_eq length_bridge_layout bridge_of_layout Let_def)
    (simp add: bridge_layout_def slice_simps wf_bridge_public_values_def unat_of_nat
      take_bit_nat_eq_self)

lemma encode_decode_bridge:
  assumes "decode_bridge input = Inr v"
  shows "wf_bridge_public_values v \<and> encode_bridge v = Inr input"
proof -
  define count where "count = unat (u32_from_be (slice input 160 4))"
  from assms have len: "length input = 164 + 192 * count" and v: "v = bridge_of input"
    and magic: "slice input 0 4 = BRIDGE_PUBLIC_VALUES_V2_MAGIC"
    and ver: "u16_from_be (slice input 4 2) = 2" and res: "slice input 6 2 = replicate 2 0"
    by (simp_all add: decode_bridge_eq Let_def count_def split: if_splits)
  let ?chunks = "split_every count 192 (slice input 164 (192 * count))"
  have chunk: "list_all (\<lambda>x. length x = 192) ?chunks"
    using len by (intro list_all_split_every) simp
  have small: "count < 2 ^ 32"
    unfolding count_def using unat_less_pow [of "u32_from_be (slice input 160 4)"] by simp
  have wf: "wf_bridge_public_values v"
    using len small chunk
    by (simp add: v wf_bridge_public_values_def bridge_of_def Let_def flip: count_def)
      (auto simp: list_all_iff wf_action_of)
  have "map (encode_action \<circ> action_of) ?chunks = ?chunks"
    using chunk by (auto simp: list_all_iff encode_action_of intro!: map_idI)
  then have acts: "concat (map encode_action (bpv_actions v)) = slice input 164 (192 * count)"
    using len by (simp add: v bridge_of_def Let_def concat_split_every flip: count_def)
  have n: "u32_to_be (word_of_nat (length (bpv_actions v))) = slice input 160 4"
    using len by (simp add: v bridge_of_def Let_def)
  have ver': "u16_to_be 2 = slice input 4 2" using ver len by (auto dest: arg_cong [of _ _ u16_to_be])
  have "bridge_layout v = slice input 0 (164 + 192 * count)"
    unfolding bridge_layout_def acts n magic [symmetric] ver' res [symmetric]
    by (simp add: v bridge_of_def Let_def len) (simp add: slice_joins)
  then show ?thesis
    using wf len by (simp add: encode_bridge_layout slice_whole)
qed

interpretation bridge: codec encode_bridge decode_bridge wf_bridge_public_values
  by unfold_locales (auto simp: encode_bridge_layout decode_bridge_layout dest: encode_decode_bridge)

end
