(* ===== verification/Preflight.thy ===== *)
theory Preflight
  imports Submission Public_Values Bridge_Receipt
begin

text \<open>
  Checks of a receipt against Ethereum before it is paid for or submitted: \<open>Preflight::decode\<close>
  (\<open>api/src/prover_types.rs\<close>), \<open>validate_preflight\<close> and the lifetime checks (\<open>api/src/main.rs\<close>).  The
  receipts are those of the two guests, read with their own decoders; what the Ethereum node answers
  is \<open>ethereum_view\<close>, and \<open>describe\<close> is the text of a decoding error.
\<close>

subsection \<open>Decoding\<close>

datatype preflight = Pf_Settlement settlement_public_values | Pf_Bridge bridge_public_values

definition decode_error :: "(wire_error \<Rightarrow> string) \<Rightarrow> wire_error + 'a \<Rightarrow> failure + 'a" where
  "decode_error describe r = (case r of Inl e \<Rightarrow> Inl (plain_failure (describe e)) | Inr v \<Rightarrow> Inr v)"

definition preflight_decode ::
  "(wire_error \<Rightarrow> string) \<Rightarrow> proof_kind \<Rightarrow> bytes \<Rightarrow> failure + preflight" where
  "preflight_decode describe kind public_values =
     (case kind of
        Settlement \<Rightarrow> and_then (decode_error describe (decode_public_values public_values)) (\<lambda>v. Inr (Pf_Settlement v))
      | Bridge \<Rightarrow> and_then (decode_error describe (decode_bridge public_values)) (\<lambda>v. Inr (Pf_Bridge v)))"

definition preflight_kind :: "preflight \<Rightarrow> proof_kind" where
  "preflight_kind p = (case p of Pf_Settlement _ \<Rightarrow> Settlement | Pf_Bridge _ \<Rightarrow> Bridge)"

subsection \<open>Validation\<close>

record bridge_state =
  bs_program_vkey :: string
  bs_deposit_nonce :: u64
  bs_current_deposit_state :: bytes
  bs_bridged_deposit_nonce :: u64
  bs_action_state_processed :: "bool option"
  bs_paused :: bool

record ethereum_view =
  ev_program_vkey :: "failure + string"
  ev_chain_id :: "failure + u64"
  ev_settlement_address :: bytes
  ev_bridge_address :: bytes
  ev_settlement_state :: "failure + settlement_state"
  ev_latest_block :: "failure + u64"
  ev_bridge_state_at :: "u64 \<Rightarrow> u64 option \<Rightarrow> bytes option \<Rightarrow> failure + bridge_state \<times> bytes option"
  ev_settlement_state_at :: "u64 \<Rightarrow> failure + settlement_state"
  ev_current_virtual_slot :: "failure + u64"

definition ensure_bytes_eq :: "bytes \<Rightarrow> bytes \<Rightarrow> string \<Rightarrow> failure + unit" where
  "ensure_bytes_eq actual expected name =
     ensure (actual = expected) (plain_failure (name @ '' mismatch'')) (Inr ())"

definition ensure_hex_eq :: "string \<Rightarrow> string \<Rightarrow> string \<Rightarrow> failure + unit" where
  "ensure_hex_eq actual expected name =
     ensure (to_ascii_lowercase actual = to_ascii_lowercase expected)
       (plain_failure (name @ '' mismatch: local='' @ actual @ '', onchain='' @ expected)) (Inr ())"

definition field_mismatch :: "nat \<Rightarrow> failure" where
  "field_mismatch index = plain_failure (''outer state field '' @ show_nat index @ '' mismatch'')"

text \<open>\<open>zip\<close> and \<open>enumerate\<close>: the first field that differs is reported with its index.\<close>

fun ensure_fields_eq :: "nat \<Rightarrow> bytes list \<Rightarrow> bytes list \<Rightarrow> failure + unit" where
  "ensure_fields_eq index (a # as) (b # bs) =
     ensure (a = b) (field_mismatch index)
       (ensure_fields_eq (index + 1) as bs)"
| "ensure_fields_eq index _ _ = Inr ()"

definition validate_settlement :: "ethereum_view \<Rightarrow> string \<Rightarrow> spv1 \<Rightarrow> failure + unit" where
  "validate_settlement V local_vkey values =
     and_then (ev_settlement_state V) (\<lambda>chain.
     and_then (ensure_hex_eq local_vkey (ss_program_vkey chain) ''settlement program vkey'') (\<lambda>_.
     and_then (ensure_bytes_eq (pv_vk_hash values) (ss_vk_hash chain) ''vk hash'') (\<lambda>_.
     and_then (ev_chain_id V) (\<lambda>chain_id.
     ensure (pv_chain_id values = chain_id) (plain_failure ''settlement chain id mismatch'') (
     ensure (pv_settlement_contract values = ev_settlement_address V)
       (plain_failure ''settlement contract address mismatch'') (
     ensure (pv_batch_sequence values = ss_batch_sequence chain + 1)
       (plain_failure ''settlement batch sequence mismatch'') (
     and_then (ensure_bytes_eq (pv_outer_action_state_before values) (ss_action_state chain) ''action state'') (\<lambda>_.
     ensure (pv_outer_action_state_length_before values = ss_outer_action_state_length chain)
       (plain_failure ''outer action-state length mismatch'') (
     and_then (ensure_fields_eq 0 (os_fields (pv_state_before values)) (ss_outer_state chain)) (\<lambda>_.
     ensure_bytes_eq (ledger_hash (pv_state_before values)) (ss_current_root chain) ''current root''))))))))))"

definition validate_bridge ::
  "ethereum_view \<Rightarrow> string \<Rightarrow> job_input \<Rightarrow> bridge_public_values \<Rightarrow> failure + unit" where
  "validate_bridge V local_vkey input values =
     and_then (case ji_bridge_context input of Inl e \<Rightarrow> Inl (plain_failure e) | Inr c \<Rightarrow> Inr c) (\<lambda>(input_chain, address).
     and_then (ev_chain_id V) (\<lambda>chain_id.
     and_then (ev_latest_block V) (\<lambda>block.
     ensure (input_chain = chain_id) (plain_failure ''chain id mismatch'') (
     ensure (address = ev_bridge_address V) (plain_failure ''bridge address mismatch'') (
     and_then (ev_bridge_state_at V block (Some (bpv_ethereum_nonce_before values))
         (Some (bpv_zeko_action_state_after values))) (\<lambda>(chain, historical).
     ensure (\<not> bs_paused chain) (plain_failure ''bridge contract is paused'') (
     ensure (bpv_ethereum_nonce_before values = bs_bridged_deposit_nonce chain)
       (plain_failure ''bridge batch does not start at the next unbridged nonce'') (
     ensure (bs_action_state_processed chain = Some False)
       (plain_failure ''bridge action state already processed'') (
     and_then (ensure_hex_eq local_vkey (bs_program_vkey chain) ''bridge program vkey'') (\<lambda>_.
     and_then (expect historical (plain_failure ''missing historical deposit state'')) (\<lambda>historical.
     and_then (ensure_bytes_eq (bpv_ethereum_state_before values) historical ''historical deposit state'') (\<lambda>_.
     ensure (bpv_ethereum_nonce_after values = bs_deposit_nonce chain)
       (plain_failure ''deposit nonce after mismatch'') (
     and_then (ensure_bytes_eq (bpv_ethereum_state_after values) (bs_current_deposit_state chain)
       ''current deposit state'') (\<lambda>_.
     and_then (ev_settlement_state_at V block) (\<lambda>settlement.
     and_then (ensure_bytes_eq (bpv_zeko_action_state_before values) (ss_action_state settlement)
       ''settlement outer action state'') (\<lambda>_.
     ensure (bpv_zeko_action_state_length_before values = ss_outer_action_state_length settlement)
       (plain_failure ''settlement outer action-state length mismatch'') (
     ensure (length (bpv_actions values) < 2 ^ 32)
       (plain_failure ''out of range integral type conversion attempted'') (
     and_then (expect (checked_add (bpv_zeko_action_state_length_before values) (word_of_nat (length (bpv_actions values))))
       (plain_failure ''bridge action-state length overflow'')) (\<lambda>len.
     ensure (bpv_zeko_action_state_length_after values = len)
       (plain_failure ''bridge action-state length transition mismatch'') (
     ensure (map_option ba_state_after (if bpv_actions values = [] then None else Some (last (bpv_actions values))) =
         Some (bpv_zeko_action_state_after values))
       (plain_failure ''bridge final action-state checkpoint mismatch'') (Inr ())))))))))))))))))))))"

definition validate_preflight :: "ethereum_view \<Rightarrow> job_input \<Rightarrow> preflight \<Rightarrow> failure + unit" where
  "validate_preflight V input p =
     and_then (ev_program_vkey V) (\<lambda>local_vkey.
     case p of
       Pf_Settlement values \<Rightarrow> validate_settlement V local_vkey (settlement values)
     | Pf_Bridge values \<Rightarrow> validate_bridge V local_vkey input values)"

subsection \<open>Lifetime\<close>

definition settlement_lifetime ::
  "(wire_error \<Rightarrow> string) \<Rightarrow> ethereum_view \<Rightarrow> proof_kind \<Rightarrow> bytes \<Rightarrow> failure + (u64 \<times> u64) option" where
  "settlement_lifetime describe V kind public_values =
     (if kind \<noteq> Settlement then Inr None
      else and_then (decode_error describe (decode_public_values public_values)) (\<lambda>values.
           and_then (ev_current_virtual_slot V) (\<lambda>current.
           Inr (Some (current, ucast (pv_slot_upper (settlement values)))))))"

definition require_settlement_lifetime ::
  "(wire_error \<Rightarrow> string) \<Rightarrow> ethereum_view \<Rightarrow> proof_kind \<Rightarrow> bytes \<Rightarrow> u64 \<Rightarrow> failure + unit" where
  "require_settlement_lifetime describe V kind public_values min_remaining_slots =
     and_then (settlement_lifetime describe V kind public_values) (\<lambda>l.
     case l of
       None \<Rightarrow> Inr ()
     | Some (current, upper) \<Rightarrow>
         and_then (expect (checked_sub upper current) (plain_failure ''settlement proof expired'')) (\<lambda>remaining.
         ensure (remaining \<ge> min_remaining_slots)
           (plain_failure (''settlement proof has '' @ show_nat (unat remaining) @
              '' slots remaining; at least '' @ show_nat (unat min_remaining_slots) @ '' are required''))
           (Inr ())))"

subsection \<open>Properties\<close>

lemma ensure_fields_eq_Inr:
  "length as = length bs \<Longrightarrow> ensure_fields_eq n as bs = Inr () \<longleftrightarrow> as = bs"
  by (induction n as bs rule: ensure_fields_eq.induct) (auto simp: ensure_Inr)

lemma ensure_fields_eq_Inl:
  "ensure_fields_eq n as bs = Inl e \<Longrightarrow>
     \<exists>k < n + length as. e = field_mismatch k"
proof (induction n as bs rule: ensure_fields_eq.induct)
  case (1 index a as b bs)
  show ?case
  proof (cases "a = b")
    case True
    then show ?thesis using 1 by simp
  next
    case False
    then have "e = field_mismatch index" using 1(2) by simp
    then show ?thesis by (intro exI [of _ index]) simp
  qed
qed simp_all

lemma classify_field_mismatch:
  assumes "k < 8"
  shows "classify (field_mismatch k) = Stale_Checkpoint"
proof -
  have "list_all (\<lambda>k. classify (field_mismatch k) =
      Stale_Checkpoint) [0..<8]"
    by code_simp
  then show ?thesis using assms by (simp add: list_all_iff)
qed

lemma classify_stale_messages:
  "classify (plain_failure ''settlement batch sequence mismatch'') = Stale_Checkpoint"
  "classify (plain_failure (''action state'' @ '' mismatch'')) = Stale_Checkpoint"
  "classify (plain_failure ''outer action-state length mismatch'') = Stale_Checkpoint"
  by code_simp+

text \<open>
  A settlement that lost a race is recognised.  A receipt for the right program, chain and contract
  validates exactly when it is the next batch on top of the contract's state: sequence, action state and
  its length, and all eight state fields; any other receipt of this kind fails with an error that
  \<open>classify\<close> takes for a stale checkpoint, the class a client is told to retry.
\<close>

lemma settlement_validation_exact:
  assumes "ev_settlement_state V = Inr chain" "ev_chain_id V = Inr (pv_chain_id values)"
    and "to_ascii_lowercase vkey = to_ascii_lowercase (ss_program_vkey chain)"
    and "pv_vk_hash values = ss_vk_hash chain" "pv_settlement_contract values = ev_settlement_address V"
    and "wf_spv1 values" "length (ss_outer_state chain) = 8" "ss_current_root chain = ss_outer_state chain ! 2"
  shows "if pv_batch_sequence values = ss_batch_sequence chain + 1 \<and>
      pv_outer_action_state_before values = ss_action_state chain \<and>
      pv_outer_action_state_length_before values = ss_outer_action_state_length chain \<and>
      os_fields (pv_state_before values) = ss_outer_state chain
    then validate_settlement V vkey values = Inr ()
    else \<exists>e. validate_settlement V vkey values = Inl e \<and> classify e = Stale_Checkpoint"
proof -
  let ?f = "os_fields (pv_state_before values)"
  have len: "length ?f = 8" using assms(6) by (simp add: wf_spv1_def wf_outer_state_def)
  have run: "validate_settlement V vkey values =
     ensure (pv_batch_sequence values = ss_batch_sequence chain + 1)
       (plain_failure ''settlement batch sequence mismatch'') (
     and_then (ensure_bytes_eq (pv_outer_action_state_before values) (ss_action_state chain) ''action state'') (\<lambda>_.
     ensure (pv_outer_action_state_length_before values = ss_outer_action_state_length chain)
       (plain_failure ''outer action-state length mismatch'') (
     and_then (ensure_fields_eq 0 ?f (ss_outer_state chain)) (\<lambda>_.
     ensure_bytes_eq (ledger_hash (pv_state_before values)) (ss_current_root chain) ''current root''))))"
    using assms(1-5) by (simp add: validate_settlement_def ensure_hex_eq_def ensure_bytes_eq_def)
  have root: "ledger_hash (pv_state_before values) = ?f ! 2" by (simp add: ledger_hash_def)
  show ?thesis
  proof (cases "ensure_fields_eq 0 ?f (ss_outer_state chain)")
    case (Inl e)
    then have "classify e = Stale_Checkpoint" "?f \<noteq> ss_outer_state chain"
      using ensure_fields_eq_Inl [OF Inl] ensure_fields_eq_Inr [of ?f "ss_outer_state chain" 0]
        classify_field_mismatch assms(7) len by auto
    then show ?thesis using Inl classify_stale_messages by (simp add: run ensure_bytes_eq_def ensure_def)
  next
    case (Inr u)
    then have "?f = ss_outer_state chain"
      using ensure_fields_eq_Inr [of ?f "ss_outer_state chain" 0] assms(7) len by simp
    then show ?thesis
      using Inr root assms(8) classify_stale_messages by (simp add: run ensure_bytes_eq_def ensure_def)
  qed
qed

text \<open>
  An expired settlement proof is never bought or submitted: the lifetime check of a receipt accepts
  exactly when the current slot is not past the receipt's upper slot and the configured number of slots
  remains, over the naturals, also with a margin of zero.
\<close>

lemma lifetime_check_exact:
  assumes "decode_public_values bs = Inr values" "ev_current_virtual_slot V = Inr slot"
  shows "require_settlement_lifetime describe V Settlement bs margin = Inr () \<longleftrightarrow>
    unat slot + unat margin \<le> unat (pv_slot_upper (settlement values))"
proof -
  let ?u = "ucast (pv_slot_upper (settlement values)) :: u64"
  have u: "unat ?u = unat (pv_slot_upper (settlement values))"
    by (simp add: unsigned_ucast_eq take_bit_nat_eq_self less_trans [OF unat_less_pow])
  have "require_settlement_lifetime describe V Settlement bs margin = Inr () \<longleftrightarrow>
      (\<exists>r. checked_sub ?u slot = Some r \<and> margin \<le> r)"
    using assms by (simp add: require_settlement_lifetime_def settlement_lifetime_def decode_error_def
        and_then_Inr ensure_Inr expect_Inr)
  also have "\<dots> \<longleftrightarrow> unat slot + unat margin \<le> unat ?u"
    by (auto simp: checked_sub_def word_le_nat_alt unat_sub)
  finally show ?thesis by (simp only: u)
qed

text \<open>
  The text of a lifetime error can be taken for a rate limit.  With 429 slots left and more required,
  the error is classified as \<open>Rate_Limited\<close> and retried, while with any other count, here 430, the same error is
  classified as \<open>Expired\<close>, because the classifier looks for the digits 429 anywhere in the message.
\<close>

lemma lifetime_error_misclassified:
  "classify (plain_failure (''settlement proof has '' @ show_nat 429 @ '' slots remaining; at least '' @
      show_nat 500 @ '' are required'')) = Rate_Limited \<and>
   classify (plain_failure (''settlement proof has '' @ show_nat 430 @ '' slots remaining; at least '' @
      show_nat 500 @ '' are required'')) = Expired \<and>
   class_retryable Rate_Limited \<and> \<not> class_retryable Expired"
  by code_simp

text \<open>A receipt for batch 12 and a contract that has settled batch 11.\<close>

definition sample_chain :: "u64 \<Rightarrow> settlement_state" where
  "sample_chain n =
     \<lparr>ss_program_vkey = ''0xAB'', ss_vk_hash = pv_vk_hash sample_spv1,
      ss_action_state = pv_outer_action_state_before sample_spv1,
      ss_current_root = os_fields (pv_state_before sample_spv1) ! 2,
      ss_outer_state = os_fields (pv_state_before sample_spv1),
      ss_outer_action_state_length = pv_outer_action_state_length_before sample_spv1,
      ss_batch_sequence = n\<rparr>"

definition sample_view :: "u64 \<Rightarrow> ethereum_view" where
  "sample_view n =
     \<lparr>ev_program_vkey = Inr ''0xab'', ev_chain_id = Inr (pv_chain_id sample_spv1),
      ev_settlement_address = pv_settlement_contract sample_spv1, ev_bridge_address = [],
      ev_settlement_state = Inr (sample_chain n), ev_latest_block = Inr 7,
      ev_bridge_state_at = (\<lambda>_ _ _. Inl (plain_failure ''no bridge'')),
      ev_settlement_state_at = (\<lambda>_. Inr (sample_chain n)), ev_current_virtual_slot = Inr 1\<rparr>"

end
