(* ===== verification/Worker.thy ===== *)
theory Worker
  imports Preflight
begin

text \<open>
  The worker of \<open>api/src/main.rs\<close> (\<open>process_job\<close>) and \<open>reconcile_jobs\<close> of \<open>indexer.rs\<close>.  A claimed job is a
  \<open>task\<close>, the point of \<open>process_job\<close> it has reached with the values it carries; \<open>run_task\<close> takes it past its
  next database statement or external effect.  Between two steps anything else may happen: other
  tasks, a crash of the worker, the recovery of a new one, requests to the API, reconciliation with
  Ethereum.  What the prover network and the Ethereum node answer is an argument (\<open>environment\<close>).
\<close>

subsection \<open>Tasks\<close>

record configuration =
  cf_execute_only :: bool
  cf_require_proof_approval :: bool
  cf_local_mock_submit :: bool
  cf_min_remaining_slots :: u64
  cf_submission_min_remaining_slots :: u64
  cf_limits :: prover_limits

record environment =
  en_now :: nat
  en_fresh :: uuid
  en_view :: ethereum_view
  en_describe :: "wire_error \<Rightarrow> string"
  en_input_digest :: "job_input \<Rightarrow> string"
  en_hydrate :: "job_input \<Rightarrow> failure + job_input"
  en_execute :: "proof_kind \<Rightarrow> job_input \<Rightarrow> bool \<Rightarrow> failure + bytes \<times> u64 option"
  en_request_proof :: "proof_kind \<Rightarrow> job_input \<Rightarrow> prover_limits \<Rightarrow> failure + string"
  en_wait_proof :: "string \<Rightarrow> failure + bytes \<times> bytes"
  en_metrics_cycles :: "u64 option"
  en_prepare :: "proof_kind \<Rightarrow> bytes \<Rightarrow> bytes \<Rightarrow> failure + prepared_submission"
  en_broadcast :: "prepared_submission \<Rightarrow> failure + string"

datatype task =
    Start claimed_job
  | Digesting claimed_job
  | Preflighting claimed_job
  | Storing claimed_job bytes "int option"
  | Preflighted claimed_job bytes "int option"
  | Ready claimed_job bytes "int option"
  | Purchasing claimed_job bytes "int option"
  | Requesting claimed_job bytes "int option" uuid
  | Requested claimed_job bytes "int option" uuid string
  | Waiting claimed_job bytes "int option" string
  | Metering claimed_job bytes "int option" bytes
  | Checking claimed_job bytes bytes
  | Sending claimed_job bytes bytes
  | Preparing claimed_job bytes bytes
  | Broadcasting claimed_job prepared_submission
  | Marking claimed_job
  | Failing claimed_job failure

fun task_claim :: "task \<Rightarrow> claimed_job" where
  "task_claim (Start c) = c"
| "task_claim (Digesting c) = c"
| "task_claim (Preflighting c) = c"
| "task_claim (Storing c _ _) = c"
| "task_claim (Preflighted c _ _) = c"
| "task_claim (Ready c _ _) = c"
| "task_claim (Purchasing c _ _) = c"
| "task_claim (Requesting c _ _ _) = c"
| "task_claim (Requested c _ _ _ _) = c"
| "task_claim (Waiting c _ _ _) = c"
| "task_claim (Metering c _ _ _) = c"
| "task_claim (Checking c _ _) = c"
| "task_claim (Sending c _ _) = c"
| "task_claim (Preparing c _ _) = c"
| "task_claim (Broadcasting c _) = c"
| "task_claim (Marking c) = c"
| "task_claim (Failing c _) = c"

definition i64_of_u64 :: "u64 \<Rightarrow> int option" where
  "i64_of_u64 n = (if uint n < 2 ^ 63 then Some (uint n) else None)"

definition cycles_i64 :: "u64 option \<Rightarrow> failure + int option" where
  "cycles_i64 c = (case c of None \<Rightarrow> Inr None | Some n \<Rightarrow>
     and_then (expect (i64_of_u64 n) (plain_failure ''SP1 preflight cycle count exceeds PostgreSQL BIGINT''))
       (\<lambda>v. Inr (Some v)))"

text \<open>\<open>u64::try_from\<close> on a stored BIGINT.\<close>

definition non_negative :: "int \<Rightarrow> failure + unit" where
  "non_negative n = ensure (0 \<le> n) (plain_failure ''out of range integral type conversion attempted'') (Inr ())"

definition optional_non_negative :: "int option \<Rightarrow> failure + unit" where
  "optional_non_negative m = (case m of None \<Rightarrow> Inr () | Some n \<Rightarrow> non_negative n)"

text \<open>\<open>require_proof_lifetime\<close>, \<open>require_submission_lifetime\<close> and the validation of stored values.\<close>

definition require_proof_lifetime :: "configuration \<Rightarrow> environment \<Rightarrow> proof_kind \<Rightarrow> bytes \<Rightarrow> failure + unit" where
  "require_proof_lifetime cf E kind pv =
     require_settlement_lifetime (en_describe E) (en_view E) kind pv (cf_min_remaining_slots cf)"

definition require_submission_lifetime :: "configuration \<Rightarrow> environment \<Rightarrow> proof_kind \<Rightarrow> bytes \<Rightarrow> failure + unit" where
  "require_submission_lifetime cf E kind pv =
     require_settlement_lifetime (en_describe E) (en_view E) kind pv (cf_submission_min_remaining_slots cf)"

definition validate_values :: "environment \<Rightarrow> claimed_job \<Rightarrow> bytes \<Rightarrow> failure + unit" where
  "validate_values E c pv =
     and_then (preflight_decode (en_describe E) (cj_kind c) pv) (\<lambda>p.
     validate_preflight (en_view E) (cj_input c) p)"

text \<open>\<open>prover::preflight\<close>: an execution of the guest, and the decoding of what it published.\<close>

definition run_preflight :: "configuration \<Rightarrow> environment \<Rightarrow> claimed_job \<Rightarrow> failure + bytes \<times> u64 option" where
  "run_preflight cf E c =
     and_then (en_execute E (cj_kind c) (cj_input c) (cf_execute_only cf)) (\<lambda>(pv, cycles).
     and_then (preflight_decode (en_describe E) (cj_kind c) pv) (\<lambda>_. Inr (pv, cycles)))"

text \<open>The ways \<open>process_job\<close> begins: a stored proof, a stored preflight, or a new preflight.\<close>

definition resume_send :: "configuration \<Rightarrow> environment \<Rightarrow> claimed_job \<Rightarrow> bytes \<Rightarrow> failure + task" where
  "resume_send cf E c proof =
     and_then (expect (cj_public_values c) (plain_failure ''persisted proof has no public values'')) (\<lambda>pv.
     and_then
       (if cj_prepared c then Inr ()
        else and_then (require_submission_lifetime cf E (cj_kind c) pv) (\<lambda>_. validate_values E c pv)) (\<lambda>_.
     Inr (Sending c pv proof)))"

definition resume_approved :: "environment \<Rightarrow> claimed_job \<Rightarrow> failure + task" where
  "resume_approved E c =
     and_then (expect (cj_public_values c) (plain_failure ''approved proof job has no public values'')) (\<lambda>pv.
     and_then (optional_non_negative (cj_cycle_count c)) (\<lambda>_.
     and_then (validate_values E c pv) (\<lambda>_.
     and_then (expect (cj_approval_max_pgu c) (plain_failure ''approved proof job has no max PGU'')) (\<lambda>pgu.
     and_then (non_negative pgu) (\<lambda>_.
     and_then (expect (cj_approval_max_price_per_pgu c)
       (plain_failure ''approved proof job has no max price per PGU'')) (\<lambda>price.
     and_then (non_negative price) (\<lambda>_.
     Inr (Ready c pv (cj_cycle_count c)))))))))"

definition resume_request :: "environment \<Rightarrow> claimed_job \<Rightarrow> failure + task" where
  "resume_request E c =
     and_then (expect (cj_public_values c) (plain_failure ''requested proof has no persisted preflight'')) (\<lambda>pv.
     and_then (optional_non_negative (cj_cycle_count c)) (\<lambda>_.
     and_then (preflight_decode (en_describe E) (cj_kind c) pv) (\<lambda>_.
     Inr (Ready c pv (cj_cycle_count c)))))"

text \<open>The caps under which a proof is requested: those of the approval, or the configured ones.\<close>

definition request_config :: "configuration \<Rightarrow> claimed_job \<Rightarrow> prover_limits" where
  "request_config cf c =
     (if cj_claimed_status c = Approved \<and> cj_proof_request_id c = None
      then (cf_limits cf)\<lparr>pl_gas_limit := map_option word_of_int (cj_approval_max_pgu c),
             pl_max_price_per_pgu := map_option word_of_int (cj_approval_max_price_per_pgu c)\<rparr>
      else cf_limits cf)"

text \<open>\<open>execute r k g\<close> is a statement with outcome \<open>r\<close> on the job table, after which the task is at \<open>k\<close>.\<close>

definition execute :: "failure + job_table \<Rightarrow> task option \<Rightarrow> gateway \<Rightarrow> failure + task option \<times> gateway" where
  "execute r k g = and_then r (\<lambda>t. Inr (k, g\<lparr>gw_jobs := t\<rparr>))"

definition run_start ::
  "configuration \<Rightarrow> environment \<Rightarrow> claimed_job \<Rightarrow> gateway \<Rightarrow> failure + task option \<times> gateway" where
  "run_start cf E c g =
     (case cj_proof_bytes c of
        Some proof \<Rightarrow> and_then (resume_send cf E c proof) (\<lambda>k. Inr (Some k, g))
      | None \<Rightarrow>
          if cj_claimed_status c = Approved \<and> cj_proof_request_id c = None
          then and_then (resume_approved E c) (\<lambda>k. Inr (Some k, g))
          else if cj_proof_request_id c \<noteq> None
          then and_then (resume_request E c) (\<lambda>k. Inr (Some k, g))
          else if cj_kind c = Settlement
          then and_then (en_hydrate E (cj_input c)) (\<lambda>input.
               execute (store_input (cj_id c) (cj_attempts c) input (gw_jobs g))
                 (Some (Digesting (c\<lparr>cj_input := input\<rparr>))) g)
          else Inr (Some (Digesting c), g))"

text \<open>The remaining program points.\<close>

fun run_task ::
  "configuration \<Rightarrow> environment \<Rightarrow> task \<Rightarrow> gateway \<Rightarrow> failure + task option \<times> gateway" where
  "run_task cf E (Start c) g = run_start cf E c g"
| "run_task cf E (Digesting c) g =
     execute (store_preflight_digest (cj_id c) (cj_attempts c) (en_input_digest E (cj_input c)) (gw_jobs g))
       (Some (Preflighting c)) g"
| "run_task cf E (Preflighting c) g =
     and_then (run_preflight cf E c) (\<lambda>(pv, cycles).
     and_then (validate_values E c pv) (\<lambda>_.
     and_then (cycles_i64 cycles) (\<lambda>n. Inr (Some (Storing c pv n), g))))"
| "run_task cf E (Storing c pv n) g =
     execute (store_preflight (cj_id c) (cj_attempts c) pv n (gw_jobs g)) (Some (Preflighted c pv n)) g"
| "run_task cf E (Preflighted c pv n) g =
     (if cf_execute_only cf
      then execute (finish_preflight (cj_id c) (cj_attempts c) Executed (gw_jobs g)) None g
      else if cf_require_proof_approval cf
      then execute (finish_preflight (cj_id c) (cj_attempts c) Awaiting_Approval (gw_jobs g)) None g
      else Inr (Some (Ready c pv n), g))"
| "run_task cf E (Ready c pv n) g =
     (if cf_local_mock_submit cf
      then execute (local_mock_cycles (cj_id c) (cj_attempts c) n (gw_jobs g)) (Some (Sending c pv [])) g
      else execute (set_status (cj_id c) (cj_attempts c) Proving (gw_jobs g)) (Some (Purchasing c pv n)) g)"
| "run_task cf E (Purchasing c pv n) g =
     (case cj_proof_request_id c of
        Some rid \<Rightarrow> Inr (Some (Waiting c pv n rid), g)
      | None \<Rightarrow>
          and_then (require_proof_lifetime cf E (cj_kind c) pv) (\<lambda>_.
          execute (begin_proof_request (en_fresh E) (cj_id c) (cj_attempts c) (gw_jobs g))
            (Some (Requesting c pv n (en_fresh E))) g))"
| "run_task cf E (Requesting c pv n intent) g =
     and_then (en_request_proof E (cj_kind c) (cj_input c) (request_config cf c)) (\<lambda>rid. Inr (Some (Requested c pv n intent rid), g))"
| "run_task cf E (Requested c pv n intent rid) g =
     execute (finish_proof_request (cj_id c) intent rid (gw_jobs g)) (Some (Waiting c pv n rid)) g"
| "run_task cf E (Waiting c pv n rid) g =
     and_then (en_wait_proof E rid) (\<lambda>(pv', proof).
     ensure (pv' = pv) (plain_failure ''network proof public values differ from local SP1 preflight'') (
     execute (save_proof (cj_id c) (cj_attempts c) proof pv' (gw_jobs g)) (Some (Metering c pv n proof)) g))"
| "run_task cf E (Metering c pv n proof) g =
     execute (store_metrics (cj_id c) (cj_attempts c)
         (case en_metrics_cycles E of Some m \<Rightarrow> i64_of_u64 m | None \<Rightarrow> n) (gw_jobs g))
       (Some (Checking c pv proof)) g"
| "run_task cf E (Checking c pv proof) g =
     and_then (require_submission_lifetime cf E (cj_kind c) pv) (\<lambda>_.
     and_then (validate_values E c pv) (\<lambda>_. Inr (Some (Sending c pv proof), g)))"
| "run_task cf E (Sending c pv proof) g =
     and_then (begin_send (cj_id c) (cj_attempts c) pv proof (gw_jobs g)) (\<lambda>(prepared, t).
     Inr (Some (case prepared of Some p \<Rightarrow> Broadcasting c p | None \<Rightarrow> Preparing c pv proof),
          g\<lparr>gw_jobs := t\<rparr>))"
| "run_task cf E (Preparing c pv proof) g =
     and_then (en_prepare E (cj_kind c) pv proof) (\<lambda>p.
     execute (persist_prepared (cj_id c) (cj_attempts c) p (gw_jobs g)) (Some (Broadcasting c p)) g)"
| "run_task cf E (Broadcasting c p) g =
     and_then (en_broadcast E p) (\<lambda>hash.
     ensure (hash = ps_transaction_hash p) (plain_failure ''broadcast returned a different transaction hash'')
       (Inr (Some (Marking c), g)))"
| "run_task cf E (Marking c) g =
     Inr (None, g\<lparr>gw_jobs := mark_submitted (cj_id c) (cj_attempts c) (gw_jobs g)\<rparr>)"
| "run_task cf E (Failing c e) g =
     and_then (record_failure (en_now E) (cj_id c) (cj_attempts c) e g) (\<lambda>g. Inr (None, g))"

text \<open>
  An error leaves the state as it was and is recorded by \<open>record_failure\<close>; an error of \<open>record_failure\<close> itself
  ends the worker.
\<close>

definition advance ::
  "configuration \<Rightarrow> environment \<Rightarrow> task \<Rightarrow> gateway \<Rightarrow> task option \<times> gateway" where
  "advance cf E k g =
     (case run_task cf E k g of
        Inr r \<Rightarrow> r
      | Inl e \<Rightarrow> ((case k of Failing _ _ \<Rightarrow> None | _ \<Rightarrow> Some (Failing (task_claim k) e)), g))"

subsection \<open>Reconciliation with Ethereum\<close>

datatype finality_mode = Finalized | Confirmations

definition transaction_is_finalized :: "finality_mode \<Rightarrow> u64 \<Rightarrow> u64 \<Rightarrow> u64 \<Rightarrow> u64 option \<Rightarrow> bool" where
  "transaction_is_finalized mode block_number confirmations required finalized_height =
     (case mode of
        Finalized \<Rightarrow> (case finalized_height of None \<Rightarrow> False | Some h \<Rightarrow> block_number \<le> h)
      | Confirmations \<Rightarrow> max required 1 \<le> confirmations)"

record receipt_view =
  rv_block_number :: u64
  rv_block_hash :: bytes
  rv_canonical :: bool
  rv_succeeded :: bool

text \<open>
  One iteration of \<open>reconcile_jobs\<close> for a job with a receipt (its new status), after the Ethereum state has been
  applied.  \<open>rv_canonical\<close> says that the receipt's block is the indexed canonical one.
\<close>

definition reconciled_status ::
  "finality_mode \<Rightarrow> u64 \<Rightarrow> u64 \<Rightarrow> u64 option \<Rightarrow> receipt_view \<Rightarrow> proof_status \<Rightarrow> proof_status option" where
  "reconciled_status mode head required finalized_height r previous =
     (let confirmations = (if rv_block_number r \<le> head then head - rv_block_number r else 0) + 1;
          confirmed = transaction_is_finalized mode (rv_block_number r) confirmations required finalized_height
      in if \<not> rv_canonical r then None
         else if previous = Reorged \<and> (\<not> confirmed \<or> rv_succeeded r) then None
         else if \<not> rv_succeeded r \<and> confirmed then Some Ethereum_Reverted
         else Some (if confirmed then Confirmed else Submitted))"

definition reconcilable :: "job \<Rightarrow> bool" where
  "reconcilable j \<longleftrightarrow> jb_transaction_hash j \<noteq> None \<and> jb_status j \<in> {Submitted, Confirmed, Reorged}"

definition reconcile_job ::
  "finality_mode \<Rightarrow> u64 \<Rightarrow> u64 \<Rightarrow> u64 option \<Rightarrow> receipt_view \<Rightarrow> uuid \<Rightarrow> gateway \<Rightarrow> gateway" where
  "reconcile_job mode head required finalized_height r i g =
     (case map_of (gw_jobs g) i of
        None \<Rightarrow> g
      | Some j \<Rightarrow>
          if \<not> reconcilable j \<or> i64_of_u64 (rv_block_number r) = None then g
          else case reconciled_status mode head required finalized_height r (jb_status j) of
              None \<Rightarrow> g
            | Some s \<Rightarrow>
                let j' = (if s = Ethereum_Reverted
                     then j\<lparr>jb_status := s, jb_error := Some ''Ethereum transaction reverted''\<rparr>
                     else j\<lparr>jb_status := s, jb_submitted_block_number := i64_of_u64 (rv_block_number r),
                               jb_submitted_block_hash := Some (rv_block_hash r)\<rparr>);
                    g' = g\<lparr>gw_jobs := fst (update_where (\<lambda>k _. k = i) (\<lambda>_. j') (gw_jobs g))\<rparr>
                in if s = Ethereum_Reverted then delete_pending i g' else g')"

end
