(* ===== verification/Transition_System.thy ===== *)
theory Transition_System
  imports Main
begin

text \<open>
  Runs of a nondeterministic system.  \<open>invariant_system\<close> is the contract of an inductive invariant;
  \<open>monotone_system\<close> adds a preorder that every step follows, for facts that once true stay true.
\<close>

locale invariant_system =
  fixes init :: "'s \<Rightarrow> bool" and step :: "'s \<Rightarrow> 's \<Rightarrow> bool" and inv :: "'s \<Rightarrow> bool"
  assumes init_inv: "init s \<Longrightarrow> inv s"
    and step_inv: "inv s \<Longrightarrow> step s s' \<Longrightarrow> inv s'"
begin

lemma steps_inv: "inv s \<Longrightarrow> step\<^sup>*\<^sup>* s s' \<Longrightarrow> inv s'"
  by (rotate_tac, induction rule: rtranclp_induct) (auto intro: step_inv)

lemma run_inv: "init s \<Longrightarrow> step\<^sup>*\<^sup>* s s' \<Longrightarrow> inv s'"
  by (blast intro: init_inv steps_inv)

end

locale monotone_system = invariant_system +
  fixes later :: "'s \<Rightarrow> 's \<Rightarrow> bool"
  assumes later_refl: "later s s"
    and later_trans: "later s t \<Longrightarrow> later t u \<Longrightarrow> later s u"
    and step_later: "inv s \<Longrightarrow> step s s' \<Longrightarrow> later s s'"
begin

lemma steps_later:
  assumes "inv s" "step\<^sup>*\<^sup>* s s'"
  shows "later s s'"
  using assms(2)
proof (induction rule: rtranclp_induct)
  case base
  show ?case by (rule later_refl)
next
  case (step t u)
  then have "later t u" using step_later steps_inv [OF assms(1)] by blast
  with step.IH show ?case by (rule later_trans)
qed

lemma run_later: "init s0 \<Longrightarrow> step\<^sup>*\<^sup>* s0 s \<Longrightarrow> step\<^sup>*\<^sup>* s s' \<Longrightarrow> later s s'"
  by (blast intro: steps_later run_inv)

end

end
