(* ===== verification/Gateway_System.thy ===== *)
theory Gateway_System
  imports Worker Transition_System
begin

text \<open>
  The gateway as a system of concurrent activities, and what its runs keep: one open outer job at a time, at
  most one proof request per job, one signed transaction per job.

  A step is one database transaction, one external effect of a worker, a crash, or a change of the
  finalized account state.  Any number of tasks may run, with any interleaving and any answers from
  outside.  Not steps of this system, and so not in \<open>reachable\<close>, are the rollback of a reorganised chain, recovery from
  events, and the two ways in for a job beside \<open>create_job\<close>; \<open>Gateway_Chain\<close> adds them, and for that purpose the lemmas of
  this theory are about any well-formed tables (\<open>rows_ok\<close>, \<open>keeps\<close>), not only those of a run.  The system records what cannot
  be undone: each request for a proof that was sent, and each signed transaction that was handed to the node.
\<close>

subsection \<open>Steps\<close>

record system =
  sy_gateway :: gateway
  sy_tasks :: "task list"
  sy_requests :: "(uuid \<times> uuid) list"
  sy_broadcasts :: "(uuid \<times> prepared_submission) list"

text \<open>The effect outside of the database that a task has when it runs.\<close>

definition requests_of :: "task \<Rightarrow> (uuid \<times> uuid) list" where
  "requests_of k = (case k of Requesting c _ _ intent \<Rightarrow> [(cj_id c, intent)] | _ \<Rightarrow> [])"

definition broadcasts_of :: "task \<Rightarrow> (uuid \<times> prepared_submission) list" where
  "broadcasts_of k = (case k of Broadcasting c p \<Rightarrow> [(cj_id c, p)] | _ \<Rightarrow> [])"

definition tasks_of :: "task option \<Rightarrow> task list" where
  "tasks_of k = (case k of None \<Rightarrow> [] | Some k \<Rightarrow> [k])"

definition initial :: "system \<Rightarrow> bool" where
  "initial s \<longleftrightarrow> gw_jobs (sy_gateway s) = [] \<and> writer_ok (gw_writer (sy_gateway s)) \<and>
     sy_tasks s = [] \<and> sy_requests s = [] \<and> sy_broadcasts s = []"

inductive gw_step :: "configuration \<Rightarrow> system \<Rightarrow> system \<Rightarrow> bool" for cf where
  claim: "claim_job now locked (sy_gateway s) = Inr (c, g) \<Longrightarrow>
    gw_step cf s (s\<lparr>sy_gateway := g, sy_tasks := sy_tasks s @ tasks_of (map_option Start c)\<rparr>)"
| work: "sy_tasks s = ks @ k # ks' \<Longrightarrow> advance cf E k (sy_gateway s) = (k', g) \<Longrightarrow>
    gw_step cf s (s\<lparr>sy_gateway := g, sy_tasks := ks @ tasks_of k' @ ks',
      sy_requests := sy_requests s @ requests_of k, sy_broadcasts := sy_broadcasts s @ broadcasts_of k\<rparr>)"
| crash: "sy_tasks s = ks @ k # ks' \<Longrightarrow> gw_step cf s (s\<lparr>sy_tasks := ks @ ks'\<rparr>)"
| recover: "recover_interrupted (gw_jobs (sy_gateway s)) = Inr t \<Longrightarrow>
    gw_step cf s (s\<lparr>sy_gateway := (sy_gateway s)\<lparr>gw_jobs := t\<rparr>\<rparr>)"
| acquire: "acquire_with_checkpoint now fresh request cp (sy_gateway s) = Inr (r, g) \<Longrightarrow>
    gw_step cf s (s\<lparr>sy_gateway := g\<rparr>)"
| renew: "renew now i token ttl_seconds (sy_gateway s) = Inr (r, g) \<Longrightarrow> gw_step cf s (s\<lparr>sy_gateway := g\<rparr>)"
| release: "release now i token (sy_gateway s) = Inr g \<Longrightarrow> gw_step cf s (s\<lparr>sy_gateway := g\<rparr>)"
| create: "create_job T show_uuid digest now fresh i key kind input (sy_gateway s) = Inr (actual, g) \<Longrightarrow>
    gw_step cf s (s\<lparr>sy_gateway := g\<rparr>)"
| approve: "approve_proof require limits checks i request (gw_jobs (sy_gateway s)) = Inr t \<Longrightarrow>
    gw_step cf s (s\<lparr>sy_gateway := (sy_gateway s)\<lparr>gw_jobs := t\<rparr>\<rparr>)"
| cancel: "gw_step cf s (s\<lparr>sy_gateway := snd (cancel_proof i (sy_gateway s))\<rparr>)"
| reconcile: "map_of (gw_jobs (sy_gateway s)) i = Some j \<Longrightarrow> jb_status j \<noteq> Confirmed \<Longrightarrow>
    gw_step cf s (s\<lparr>sy_gateway := reconcile_job mode head required finalized r i (sy_gateway s)\<rparr>)"
| index: "gw_step cf s (s\<lparr>sy_gateway := (sy_gateway s)\<lparr>gw_outer_account := account, gw_recovery_ready := ready\<rparr>\<rparr>)"

definition reachable :: "configuration \<Rightarrow> system \<Rightarrow> bool" where
  "reachable cf s \<longleftrightarrow> (\<exists>s0. initial s0 \<and> (gw_step cf)\<^sup>*\<^sup>* s0 s)"

subsection \<open>The invariant of the tables\<close>

text \<open>What holds of the tables whatever the chain does.\<close>

definition rows_ok :: "gateway \<Rightarrow> bool" where
  "rows_ok g \<longleftrightarrow> distinct (map fst (gw_jobs g)) \<and> writer_ok (gw_writer g) \<and>
     (\<forall>i j. map_of (gw_jobs g) i = Some j \<longrightarrow> job_ok j)"

text \<open>The jobs that have not given up the outer writer, and when the writer stands behind all of them.\<close>

definition open_jobs :: "gateway \<Rightarrow> uuid set" where
  "open_jobs g = {i. \<exists>j. map_of (gw_jobs g) i = Some j \<and> \<not> released j}"

definition exclusive :: "gateway \<Rightarrow> bool" where
  "exclusive g \<longleftrightarrow> (\<forall>i. i \<in> open_jobs g \<longrightarrow> ow_job_id (gw_writer g) = Some i)"

definition hashes_stored :: "gateway \<Rightarrow> bool" where
  "hashes_stored g \<longleftrightarrow> (\<forall>i j. map_of (gw_jobs g) i = Some j \<longrightarrow> hash_stored j)"

definition gateway_ok :: "gateway \<Rightarrow> bool" where
  "gateway_ok g \<longleftrightarrow> rows_ok g \<and> exclusive g \<and> hashes_stored g"

lemma gateway_ok_iff:
  "gateway_ok g \<longleftrightarrow> distinct (map fst (gw_jobs g)) \<and> writer_ok (gw_writer g) \<and>
     (\<forall>i j. map_of (gw_jobs g) i = Some j \<longrightarrow>
        job_ok j \<and> hash_stored j \<and> (\<not> released j \<longrightarrow> ow_job_id (gw_writer g) = Some i))"
  by (auto simp: gateway_ok_def rows_ok_def exclusive_def open_jobs_def hashes_stored_def)

text \<open>
  One operation: it keeps the rows well formed and the writer exclusive, and it opens a job only so that
  the writer stands behind every open job afterwards.
\<close>

definition progress :: "gateway \<Rightarrow> gateway \<Rightarrow> bool" where
  "progress g g' \<longleftrightarrow> rows_ok g' \<and> (exclusive g \<longrightarrow> exclusive g') \<and> (open_jobs g' \<subseteq> open_jobs g \<or> exclusive g')"

lemma progress_refl: "rows_ok g \<Longrightarrow> progress g g"
  by (simp add: progress_def)

lemma progress_trans: "progress a b \<Longrightarrow> progress b c \<Longrightarrow> progress a c"
  by (auto simp: progress_def)

text \<open>What one job has bound itself to, and how the tables of a later state relate to an earlier one.\<close>

definition sealed :: "gateway \<Rightarrow> uuid \<Rightarrow> uuid option" where
  "sealed g i = Option.bind (map_of (gw_jobs g) i) jb_proof_request_intent"

definition signed :: "gateway \<Rightarrow> uuid \<Rightarrow> prepared_submission option" where
  "signed g i = Option.bind (map_of (gw_jobs g) i) jb_prepared_transaction"

definition cancelled :: "gateway \<Rightarrow> uuid \<Rightarrow> bool" where
  "cancelled g i \<longleftrightarrow> (\<exists>j. map_of (gw_jobs g) i = Some j \<and> jb_status j = Rejected)"

text \<open>The fencing token never falls, and under one token the reservation is only ever given up.\<close>

definition fences :: "gateway \<Rightarrow> gateway \<Rightarrow> bool" where
  "fences g g' \<longleftrightarrow> ow_fencing_token (gw_writer g) \<le> ow_fencing_token (gw_writer g') \<and>
     (ow_fencing_token (gw_writer g') = ow_fencing_token (gw_writer g) \<longrightarrow>
        ow_reservation_id (gw_writer g') \<in> {None, ow_reservation_id (gw_writer g)})"

definition follows :: "gateway \<Rightarrow> gateway \<Rightarrow> bool" where
  "follows g g' \<longleftrightarrow>
     (\<forall>i n. sealed g i = Some n \<longrightarrow> sealed g' i = Some n) \<and>
     (\<forall>i p. signed g i = Some p \<longrightarrow> signed g' i = Some p) \<and>
     (\<forall>i. cancelled g i \<longrightarrow> cancelled g' i) \<and>
     (hashes_stored g \<longrightarrow> hashes_stored g') \<and> fences g g'"

lemma fences_refl [simp]: "fences g g"
  by (simp add: fences_def)

lemma fences_trans: "fences a b \<Longrightarrow> fences b c \<Longrightarrow> fences a c"
  unfolding fences_def by force

lemma follows_refl [simp]: "follows g g"
  by (simp add: follows_def)

lemma follows_trans: "follows a b \<Longrightarrow> follows b c \<Longrightarrow> follows a c"
  using fences_trans by (auto simp: follows_def)

text \<open>\<open>keeps\<close> is what every operation does, \<open>gateway_ok\<close> or not.\<close>

definition keeps :: "gateway \<Rightarrow> gateway \<Rightarrow> bool" where
  "keeps g g' \<longleftrightarrow> progress g g' \<and> follows g g'"

lemma keeps_same: "rows_ok g \<Longrightarrow> keeps g g"
  by (simp add: keeps_def progress_refl)

lemma keeps_then: "keeps a b \<Longrightarrow> keeps b c \<Longrightarrow> keeps a c"
  using progress_trans follows_trans by (auto simp: keeps_def)

lemma keeps_rows: "keeps g g' \<Longrightarrow> rows_ok g'"
  by (simp add: keeps_def progress_def)

lemma keeps_ok: "gateway_ok g \<Longrightarrow> keeps g g' \<Longrightarrow> gateway_ok g' \<and> follows g g'"
  by (auto simp: gateway_ok_def keeps_def progress_def follows_def)

lemma rows_evolve_lookup:
  assumes "rows_evolve t t'" "map_of t' i = Some j'"
  obtains j where "map_of t i = Some j" "evolves j j'"
proof -
  have "i \<in> fst ` set t"
    using assms by (metis map_of_eq_None_iff option.distinct(1) rows_evolve_def set_map)
  then obtain j where j: "map_of t i = Some j" by (metis map_of_eq_None_iff not_None_eq)
  then have "evolves j j'" using assms by (fastforce simp: rows_evolve_def)
  with j that show thesis by blast
qed

lemma evolve_keeps:
  assumes "rows_ok g" "rows_evolve (gw_jobs g) (gw_jobs g')" "gw_writer g' = gw_writer g"
  shows "keeps g g'"
proof -
  have earlier: "\<exists>j. map_of (gw_jobs g) i = Some j \<and> evolves j j' \<and> job_ok j"
    if "map_of (gw_jobs g') i = Some j'" for i j'
  proof -
    from assms(2) that obtain j where "map_of (gw_jobs g) i = Some j" "evolves j j'" by (rule rows_evolve_lookup)
    then show ?thesis using assms(1) by (auto simp: rows_ok_def)
  qed
  have ahead: "\<exists>j'. map_of (gw_jobs g') i = Some j' \<and> evolves j j' \<and> job_ok j"
    if "map_of (gw_jobs g) i = Some j" for i j
    using that assms by (auto simp: rows_evolve_def rows_ok_def)
  have sub: "open_jobs g' \<subseteq> open_jobs g"
    using earlier by (fastforce simp: open_jobs_def evolves_def)
  have "rows_ok g'"
    unfolding rows_ok_def
  proof (intro conjI allI impI)
    show "distinct (map fst (gw_jobs g'))" "writer_ok (gw_writer g')"
      using assms by (simp_all add: rows_ok_def rows_evolve_def)
    show "job_ok j'" if "map_of (gw_jobs g') i = Some j'" for i j'
      using earlier [OF that] by (auto simp: evolves_def)
  qed
  moreover have "exclusive g \<longrightarrow> exclusive g'" using sub by (auto simp: exclusive_def assms(3))
  ultimately have "progress g g'" using sub by (simp add: progress_def)
  moreover have "hashes_stored g'" if "hashes_stored g"
    unfolding hashes_stored_def
  proof (intro allI impI)
    fix i j' assume "map_of (gw_jobs g') i = Some j'"
    from earlier [OF this] \<open>hashes_stored g\<close> show "hash_stored j'" by (auto simp: hashes_stored_def evolves_def)
  qed
  moreover have "fences g g'" by (simp add: fences_def assms(3))
  moreover have "sealed g' i = Some n" if "sealed g i = Some n" for i n
    using that ahead by (fastforce simp: sealed_def evolves_def bind_eq_Some_conv)
  moreover have "signed g' i = Some p" if "signed g i = Some p" for i p
    using that ahead by (fastforce simp: signed_def evolves_def bind_eq_Some_conv)
  moreover have "cancelled g' i" if "cancelled g i" for i
    using that ahead by (fastforce simp: cancelled_def evolves_def)
  ultimately show ?thesis by (simp add: keeps_def follows_def)
qed

subsection \<open>Every operation keeps it\<close>

text \<open>A change of the writer alone.\<close>

lemma open_jobs_cong: "gw_jobs g' = gw_jobs g \<Longrightarrow> open_jobs g' = open_jobs g"
  by (simp add: open_jobs_def)

lemma writer_keeps:
  assumes "rows_ok g" "gw_jobs g' = gw_jobs g" "writer_ok (gw_writer g')" "fences g g'" "exclusive g \<longrightarrow> exclusive g'"
  shows "keeps g g'"
  using assms open_jobs_cong [OF assms(2)]
  by (auto simp: keeps_def progress_def rows_ok_def follows_def hashes_stored_def sealed_def signed_def cancelled_def)

lemma exclusive_writer:
  "exclusive g \<Longrightarrow> gw_jobs g' = gw_jobs g \<Longrightarrow> ow_job_id (gw_writer g') = ow_job_id (gw_writer g) \<Longrightarrow> exclusive g'"
  by (simp add: exclusive_def open_jobs_def)

lemma exclusive_free: "exclusive g \<Longrightarrow> ow_job_id (gw_writer g) = None \<Longrightarrow> open_jobs g = {}"
  by (auto simp: exclusive_def)

lemma exclusive_empty: "open_jobs g = {} \<Longrightarrow> exclusive g"
  by (simp add: exclusive_def)

lemma effective_writer_keeps:
  assumes "rows_ok g"
  shows "keeps g (g\<lparr>gw_writer := effective_writer now g\<rparr>)"
proof (rule writer_keeps [OF assms])
  let ?g = "g\<lparr>gw_writer := effective_writer now g\<rparr>"
  show "gw_jobs ?g = gw_jobs g" by simp
  show "writer_ok (gw_writer ?g)" using assms effective_ok by (simp add: rows_ok_def)
  show "fences g ?g" by (auto simp: fences_def effective_writer_def clear_writer_def)
  show "exclusive g \<longrightarrow> exclusive ?g"
  proof
    assume e: "exclusive g"
    show "exclusive ?g"
    proof (cases "writer_stale now g")
      case False
      then show ?thesis using e by (auto simp: effective_writer_def)
    next
      case True
      have "open_jobs g = {}"
      proof (cases "ow_job_id (gw_writer g)")
        case None
        then show ?thesis by (rule exclusive_free [OF e])
      next
        case (Some k)
        with True obtain j where j: "(k, j) \<in> set (gw_jobs g)" "released j"
          by (auto simp: writer_stale_def list_ex_iff)
        then have "map_of (gw_jobs g) k = Some j" using assms by (simp add: rows_ok_def)
        then have "k \<notin> open_jobs g" using j(2) by (simp add: open_jobs_def)
        then show ?thesis using e Some by (auto simp: exclusive_def)
      qed
      then show ?thesis using open_jobs_cong [of ?g g] by (intro exclusive_empty) simp
    qed
  qed
qed

lemma not_blocked: "\<not> list_ex (outer_job_blocks None) (gw_jobs g) \<Longrightarrow> open_jobs g = {}"
  by (force simp: open_jobs_def list_ex_iff outer_job_blocks_iff dest: map_of_SomeD)

lemma acquire_step:
  assumes "rows_ok g" "acquire_with_checkpoint now fresh request cp g = Inr (r, g')"
  shows "keeps g g'"
proof -
  have w: "writer_ok (gw_writer g')" using acquire_ok [OF assms(2)] assms(1) by (simp add: rows_ok_def)
  let ?e = "g\<lparr>gw_writer := effective_writer now g\<rparr>"
  note eff = effective_writer_keeps [OF assms(1), of now]
  from assms(2) show ?thesis
  proof (cases rule: acquire_cases)
    case (renewed s)
    have "keeps ?e g'"
      using renewed(6) w keeps_rows [OF eff] exclusive_writer [of ?e g']
      by (intro writer_keeps) (auto simp: fences_def)
    with eff show ?thesis by (rule keeps_then)
  next
    case (new_owner s account)
    have "exclusive g'" using not_blocked [OF new_owner(4)] open_jobs_cong [of g' g] new_owner(8) by (intro exclusive_empty) simp
    then show ?thesis
      using new_owner(8) w by (intro writer_keeps [OF assms(1)]) (simp_all add: fences_def fresh_lease_def)
  qed
qed

lemma renew_step:
  assumes "rows_ok g" "renew now i token ttl_seconds g = Inr (r, g')"
  shows "keeps g g'"
proof -
  have w: "writer_ok (gw_writer g')" using renew_ok [OF assms(2)] assms(1) by (simp add: rows_ok_def)
  from assms(2) show ?thesis
    by (cases rule: renew_cases)
      (use assms(1) w exclusive_writer [of g g'] in \<open>auto intro!: writer_keeps simp: fences_def\<close>)
qed

lemma release_step:
  assumes "rows_ok g" "release now i token g = Inr g'"
  shows "keeps g g'"
proof -
  let ?e = "g\<lparr>gw_writer := effective_writer now g\<rparr>"
  note eff = effective_writer_keeps [OF assms(1), of now]
  from assms(2) show ?thesis
  proof (cases rule: release_cases)
    case free
    then show ?thesis using eff by simp
  next
    case released_lease
    have "exclusive g'" if "exclusive ?e"
      using exclusive_free [OF that] released_lease(3,4) open_jobs_cong [of g' ?e] by (intro exclusive_empty) simp
    moreover have "writer_ok (gw_writer g')" using keeps_rows [OF eff] released_lease(4) by (auto simp: rows_ok_def)
    ultimately have "keeps ?e g'"
      using keeps_rows [OF eff] released_lease(4) by (intro writer_keeps) (auto simp: fences_def clear_writer_def)
    with eff show ?thesis by (rule keeps_then)
  qed
qed

text \<open>Admission adds one row, which then holds the writer.\<close>

lemma insert_job_table:
  assumes "insert_job i kind input key digest t = Inr (k, t')" "distinct (map fst t)"
  shows "distinct (map fst t')" "\<And>x j. map_of t x = Some j \<Longrightarrow> map_of t' x = Some j"
    "\<And>x j. map_of t' x = Some j \<Longrightarrow> map_of t x = Some j \<or> x = i \<and> k = i \<and> j = new_job kind input key digest"
    "k \<noteq> i \<Longrightarrow> t' = t"
proof -
  have "t' = t \<or> k = i \<and> map_of t i = None \<and> t' = t @ [(i, new_job kind input key digest)]"
    using assms(1) by (cases rule: insert_job_cases) auto
  then show "distinct (map fst t')" "\<And>x j. map_of t x = Some j \<Longrightarrow> map_of t' x = Some j"
    "\<And>x j. map_of t' x = Some j \<Longrightarrow> map_of t x = Some j \<or> x = i \<and> k = i \<and> j = new_job kind input key digest"
    "k \<noteq> i \<Longrightarrow> t' = t"
    using assms(2) by (auto simp: map_of_eq_None_iff map_add_def split: option.splits if_splits)
qed

lemma job_ok_new [simp]: "job_ok (new_job kind input key digest)" "hash_stored (new_job kind input key digest)"
  by (simp_all add: job_ok_def hash_stored_def new_job_def)

lemma attach_job_fences:
  assumes "attach_job T show_uuid now fresh i kind input g = Inr g'"
  shows "fences g g'"
  using assms
  by (auto simp: attach_job_Inr attach_settlement_Inr attach_bridge_Inr fences_def split: proof_kind.splits)

lemma admission_keeps:
  assumes "rows_ok e" "insert_job i kind input key digest (gw_jobs e) = Inr (i, t)"
    and "attach_job T show_uuid now fresh i kind input' (e\<lparr>gw_jobs := t\<rparr>) = Inr g'"
  shows "keeps e g'"
proof -
  have d: "distinct (map fst (gw_jobs e))" using assms(1) by (simp add: rows_ok_def)
  note t = insert_job_table [OF assms(2) d] and f = attach_job_frame [OF assms(3)]
  have jobs: "gw_jobs g' = t" using f(1) by simp
  have "released j" if "map_of t x = Some j" "x \<noteq> i" for x j
    using that f(5) by (force simp: list_ex_iff outer_job_blocks_iff dest: map_of_SomeD)
  then have "exclusive g'" using f(4) by (auto simp: exclusive_def open_jobs_def jobs)
  moreover have "writer_ok (gw_writer g')" by (rule attach_job_ok [OF assms(3)]) (use assms(1) in \<open>simp add: rows_ok_def\<close>)
  moreover have "job_ok j" if "map_of t x = Some j" for x j
    using t(3) [OF that] assms(1) by (auto simp: rows_ok_def)
  ultimately have "progress e g'" using t(1) by (simp add: progress_def rows_ok_def jobs)
  moreover have "hashes_stored g'" if "hashes_stored e"
    using that t(3) by (fastforce simp: hashes_stored_def jobs)
  moreover have "fences e g'" using attach_job_fences [OF assms(3)] by (simp add: fences_def)
  ultimately show ?thesis
    using t(2) by (auto simp: keeps_def follows_def sealed_def signed_def cancelled_def jobs bind_eq_Some_conv)
qed

lemma create_step:
  assumes "rows_ok g" "create_job T show_uuid digest now fresh i key kind input g = Inr (k, g')"
  shows "keeps g g'"
  using assms(2)
proof (cases rule: create_job_cases)
  case (1 t)
  let ?e = "g\<lparr>gw_writer := effective_writer now g\<rparr>"
  note eff = effective_writer_keeps [OF assms(1), of now]
  show ?thesis
  proof (cases "k = i")
    case False
    have "distinct (map fst (gw_jobs g))" using assms(1) by (simp add: rows_ok_def)
    then have "g' = ?e" using 1(5) insert_job_table(4) [OF 1(2)] False by simp
    then show ?thesis using eff by simp
  next
    case True
    then have "keeps ?e g'" using 1(2,5) by (intro admission_keeps [OF keeps_rows [OF eff]]) auto
    with eff show ?thesis by (rule keeps_then)
  qed
qed

lemma find_mem: "find P xs = Some x \<Longrightarrow> x \<in> set xs \<and> P x"
  by (induction xs) (auto split: if_splits)

lemma claim_step:
  assumes "rows_ok g" "claim_job now locked g = Inr (c, g')"
  shows "keeps g g'"
proof (cases "gw_recovery_ready g")
  case False
  then show ?thesis using assms by (simp add: claim_job_def keeps_same)
next
  case True
  let ?e = "g\<lparr>gw_writer := effective_writer now g\<rparr>"
  note eff = effective_writer_keeps [OF assms(1), of now]
  have lock: "lock now g = Inr ?e" using True by (simp add: lock_def effective_writer_def)
  show ?thesis
  proof (cases "find (\<lambda>(i, j). claimable now (gw_writer ?e) (gw_jobs ?e) (i, j) \<and> \<not> locked i) (gw_jobs ?e)")
    case None
    then have "g' = ?e" using assms(2) True lock by (simp add: claim_job_def)
    then show ?thesis using eff by simp
  next
    case (Some ij)
    obtain i j where ij: "ij = (i, j)" by force
    have "ij \<in> set (gw_jobs g)" "claimable now (gw_writer ?e) (gw_jobs ?e) (i, j)"
      using find_mem [OF Some] ij by auto
    then have j: "jb_status j \<in> {Queued, Approved}" "map_of (gw_jobs g) i = Some j"
      using ij assms(1) by (simp_all add: claimable_def rows_ok_def)
    have g': "g' = ?e\<lparr>gw_jobs := fst (update_where (\<lambda>k _. k = i) claim_row (gw_jobs g))\<rparr>"
      using assms(2) True lock Some ij by (simp add: claim_job_def ensure_Inr)
    have "rows_evolve (gw_jobs ?e) (gw_jobs g')"
      unfolding g' using j by (auto intro!: rows_evolve_update claim_row_evolves)
    then have "keeps ?e g'" using keeps_rows [OF eff] g' by (intro evolve_keeps) simp_all
    with eff show ?thesis by (rule keeps_then)
  qed
qed

lemma reconcile_evolves:
  assumes "map_of (gw_jobs g) i = Some j" "jb_status j \<noteq> Confirmed"
  shows "rows_evolve (gw_jobs g) (gw_jobs (reconcile_job mode head required finalized r i g))"
    "gw_writer (reconcile_job mode head required finalized r i g) = gw_writer g"
proof -
  let ?g = "reconcile_job mode head required finalized r i g"
  have "rows_evolve (gw_jobs g) (gw_jobs ?g) \<and> gw_writer ?g = gw_writer g"
  proof (cases "reconcilable j \<and> i64_of_u64 (rv_block_number r) \<noteq> None \<and>
      reconciled_status mode head required finalized r (jb_status j) \<noteq> None")
    case False
    then show ?thesis using assms(1) by (auto simp: reconcile_job_def)
  next
    case True
    then obtain s where s: "reconciled_status mode head required finalized r (jb_status j) = Some s" by auto
    define j' where "j' = (if s = Ethereum_Reverted
      then j\<lparr>jb_status := s, jb_error := Some ''Ethereum transaction reverted''\<rparr>
      else j\<lparr>jb_status := s, jb_submitted_block_number := i64_of_u64 (rv_block_number r), jb_submitted_block_hash := Some (rv_block_hash r)\<rparr>)"
    have "evolves j j'"
      using True s assms(2)
      by (auto simp: j'_def reconcilable_def reconciled_status_def Let_def row_defs split: if_splits)
    then have "rows_evolve (gw_jobs g) (fst (update_where (\<lambda>k _. k = i) (\<lambda>_. j') (gw_jobs g)))"
      using assms(1) by (auto intro!: rows_evolve_update)
    then show ?thesis
      using True s assms(1) unfolding reconcile_job_def
      by (cases "s = Ethereum_Reverted") (simp_all add: Let_def j'_def)
  qed
  then show "rows_evolve (gw_jobs g) (gw_jobs ?g)" "gw_writer ?g = gw_writer g" by simp_all
qed

subsection \<open>The tasks of the worker\<close>

lemma execute_Inr [res_simps]:
  "execute r k g = Inr (k', g') \<longleftrightarrow> (\<exists>t. r = Inr t \<and> k' = k \<and> g' = g\<lparr>gw_jobs := t\<rparr>)"
  by (auto simp: execute_def and_then_Inr)

lemma run_start_evolves:
  "run_start cf E c g = Inr (k', g') \<Longrightarrow> rows_evolve (gw_jobs g) (gw_jobs g') \<and> gw_writer g' = gw_writer g"
  unfolding run_start_def
  by (auto simp: res_simps split: option.splits if_splits intro: preflight_evolves)

lemma run_task_evolves:
  "run_task cf E k g = Inr (k', g') \<Longrightarrow> rows_evolve (gw_jobs g) (gw_jobs g') \<and> gw_writer g' = gw_writer g"
proof (cases k)
  case (Sending c pv pr)
  assume "run_task cf E k g = Inr (k', g')"
  with Sending obtain p t where "begin_send (cj_id c) (cj_attempts c) pv pr (gw_jobs g) = Inr (p, t)"
    "g' = g\<lparr>gw_jobs := t\<rparr>"
    by (auto simp: and_then_Inr)
  then show ?thesis by (auto intro: begin_send_evolves)
qed (auto simp: res_simps run_start_evolves mark_submitted_evolves record_failure_evolves
       split: option.splits if_splits intro: statement_evolves)

lemma advance_evolves:
  assumes "advance cf E k g = (k', g')"
  shows "rows_evolve (gw_jobs g) (gw_jobs g')" "gw_writer g' = gw_writer g"
  using assms run_task_evolves [of cf E k g]
  by (auto simp: advance_def split: sum.splits)

lemma advance_step:
  assumes "rows_ok g" "advance cf E k g = (k', g')"
  shows "keeps g g'"
  using evolve_keeps [OF assms(1) advance_evolves [OF assms(2)]] .

text \<open>
  A task that is about to send a proof request holds the intent of its job, and one that is about to
  broadcast holds the stored transaction of its job.
\<close>

definition task_ok :: "gateway \<Rightarrow> task \<Rightarrow> bool" where
  "task_ok g k \<longleftrightarrow> (case k of
       Requesting c _ _ intent \<Rightarrow> sealed g (cj_id c) = Some intent
     | Broadcasting c p \<Rightarrow> signed g (cj_id c) = Some p
     | _ \<Rightarrow> True)"

definition asks :: "uuid \<Rightarrow> task \<Rightarrow> bool" where
  "asks i k \<longleftrightarrow> (case k of Requesting c _ _ _ \<Rightarrow> cj_id c = i | _ \<Rightarrow> False)"

lemma task_ok_follows: "follows g g' \<Longrightarrow> task_ok g k \<Longrightarrow> task_ok g' k"
  by (cases k) (auto simp: task_ok_def follows_def)

lemma run_start_next:
  "run_start cf E c g = Inr (Some k', g') \<Longrightarrow> task_ok g' k' \<and> \<not> asks i k'"
  unfolding run_start_def
  by (auto simp: res_simps resume_send_def resume_approved_def resume_request_def task_ok_def asks_def
      split: option.splits if_splits)

lemma begin_proof_request_seals:
  assumes "begin_proof_request n i a (gw_jobs g) = Inr t" "gateway_ok g"
  shows "sealed g i = None" "sealed (g\<lparr>gw_jobs := t\<rparr>) i = Some n"
proof -
  have d: "distinct (map fst (gw_jobs g))" using assms(2) by (simp add: gateway_ok_iff)
  show "sealed g i = None" "sealed (g\<lparr>gw_jobs := t\<rparr>) i = Some n"
    using assms(1) unfolding begin_proof_request_def
    by (auto elim!: affect_one_Inr [OF _ d] simp: sealed_def)
qed

lemma begin_send_signed:
  assumes "begin_send i a pv proof (gw_jobs g) = Inr (Some p, t)" "gateway_ok g"
  shows "signed (g\<lparr>gw_jobs := t\<rparr>) i = Some p"
  using assms(1) by (auto simp: begin_send_def and_then_Inr signed_def split: option.splits)

lemma persist_prepared_signs:
  assumes "persist_prepared i a p (gw_jobs g) = Inr t" "gateway_ok g"
  shows "signed (g\<lparr>gw_jobs := t\<rparr>) i = Some p"
proof -
  have d: "distinct (map fst (gw_jobs g))" using assms(2) by (simp add: gateway_ok_iff)
  show ?thesis
    using assms(1) unfolding persist_prepared_def by (auto elim!: affect_one_Inr [OF _ d] simp: signed_def)
qed

lemma run_task_next:
  assumes "run_task cf E k g = Inr (Some k', g')" "gateway_ok g"
  shows "task_ok g' k' \<and> (asks i k' \<longrightarrow> \<not> asks i k \<and> sealed g i = None \<and> sealed g' i \<noteq> None)"
proof (cases k)
  case (Start c)
  then show ?thesis using assms(1) run_start_next by auto
next
  case (Purchasing c pv n)
  then show ?thesis
    using assms begin_proof_request_seals
    by (auto simp: res_simps task_ok_def asks_def split: option.splits)
next
  case (Sending c pv pr)
  then show ?thesis
    using assms begin_send_signed
    by (auto simp: res_simps task_ok_def asks_def split: option.splits)
next
  case (Preparing c pv pr)
  then show ?thesis
    using assms persist_prepared_signs by (auto simp: res_simps task_ok_def asks_def)
qed (insert assms(1), auto simp: res_simps task_ok_def asks_def split: option.splits if_splits)

lemma advance_next:
  assumes "advance cf E k g = (Some k', g')" "gateway_ok g"
  shows "task_ok g' k'" "asks i k' \<Longrightarrow> \<not> asks i k \<and> sealed g i = None \<and> sealed g' i \<noteq> None"
proof -
  have "task_ok g' k' \<and> (asks i k' \<longrightarrow> \<not> asks i k \<and> sealed g i = None \<and> sealed g' i \<noteq> None)"
  proof (cases "run_task cf E k g")
    case (Inl e)
    then show ?thesis using assms(1) by (auto simp: advance_def task_ok_def asks_def split: task.splits)
  next
    case (Inr r)
    then show ?thesis using assms run_task_next [of cf E k g k' g'] by (auto simp: advance_def)
  qed
  then show "task_ok g' k'" "asks i k' \<Longrightarrow> \<not> asks i k \<and> sealed g i = None \<and> sealed g' i \<noteq> None"
    by simp_all
qed

subsection \<open>The invariant of the system\<close>

definition requests_for :: "uuid \<Rightarrow> system \<Rightarrow> (uuid \<times> uuid) list" where
  "requests_for i s = filter (\<lambda>(k, _). k = i) (sy_requests s)"

text \<open>
  A job has sent, or is about to send, at most one request, and only once an intent is stored.
\<close>

definition system_ok :: "system \<Rightarrow> bool" where
  "system_ok s \<longleftrightarrow> gateway_ok (sy_gateway s) \<and> (\<forall>k \<in> set (sy_tasks s). task_ok (sy_gateway s) k) \<and>
     (\<forall>(i, n) \<in> set (sy_requests s). sealed (sy_gateway s) i = Some n) \<and>
     (\<forall>(i, p) \<in> set (sy_broadcasts s). signed (sy_gateway s) i = Some p) \<and>
     (\<forall>i. length (requests_for i s) + length (filter (asks i) (sy_tasks s)) \<le>
       (if sealed (sy_gateway s) i = None then 0 else 1))"

lemma initial_ok: "initial s \<Longrightarrow> system_ok s"
  by (simp add: initial_def system_ok_def gateway_ok_iff requests_for_def)

text \<open>A step without an effect outside, after which no more requests are pending than before.\<close>

lemma quiet_step:
  assumes "system_ok s" "gateway_ok g" "follows (sy_gateway s) g"
    and "\<And>k. k \<in> set ks \<Longrightarrow> k \<in> set (sy_tasks s) \<or> task_ok g k"
    and "\<And>i. length (filter (asks i) ks) \<le> length (filter (asks i) (sy_tasks s))"
  shows "system_ok (s\<lparr>sy_gateway := g, sy_tasks := ks\<rparr>)"
proof -
  have count: "length (requests_for i s) + length (filter (asks i) ks) \<le> (if sealed g i = None then 0 else 1)" for i
  proof -
    have "length (requests_for i s) + length (filter (asks i) ks) \<le> (if sealed (sy_gateway s) i = None then 0 else 1)"
      using assms(1) assms(5) [of i] unfolding system_ok_def
      by (meson add_left_mono le_trans)
    also have "\<dots> \<le> (if sealed g i = None then 0 else 1)"
      using assms(3) by (cases "sealed (sy_gateway s) i") (auto simp: follows_def)
    finally show ?thesis .
  qed
  have "task_ok g k" if "k \<in> set ks" for k
    using assms(4) [OF that] assms(1,3) task_ok_follows by (auto simp: system_ok_def)
  then show ?thesis
    using assms(1-3) count
    by (auto simp: system_ok_def follows_def requests_for_def)
qed

lemma quiet_gateway:
  assumes "system_ok s" "gateway_ok g" "follows (sy_gateway s) g"
  shows "system_ok (s\<lparr>sy_gateway := g\<rparr>)"
  using quiet_step [OF assms, of "sy_tasks s"] by simp

lemma work_step:
  assumes "system_ok s" "sy_tasks s = ks @ k # ks'" "advance cf E k (sy_gateway s) = (k', g)"
  shows "system_ok (s\<lparr>sy_gateway := g, sy_tasks := ks @ tasks_of k' @ ks',
      sy_requests := sy_requests s @ requests_of k, sy_broadcasts := sy_broadcasts s @ broadcasts_of k\<rparr>)"
proof -
  let ?g = "sy_gateway s"
  have ok: "gateway_ok ?g" "task_ok ?g k" using assms(1,2) by (auto simp: system_ok_def)
  have g: "gateway_ok g" "follows ?g g"
    using keeps_ok [OF ok(1) advance_step [OF _ assms(3)]] ok(1) by (simp_all add: gateway_ok_def)
  have tasks: "task_ok g x" if "x \<in> set (ks @ tasks_of k' @ ks')" for x
    using that assms(1,2) task_ok_follows [OF g(2)] advance_next(1) [OF _ ok(1)] assms(3)
    by (auto simp: system_ok_def tasks_of_def split: option.splits)
  have logs: "\<forall>(i, n) \<in> set (sy_requests s @ requests_of k). sealed g i = Some n"
    "\<forall>(i, p) \<in> set (sy_broadcasts s @ broadcasts_of k). signed g i = Some p"
    using assms(1) ok(2) g(2)
    by (auto simp: system_ok_def task_ok_def follows_def requests_of_def broadcasts_of_def split: task.splits)
  have count: "length (filter (\<lambda>(x, _). x = i) (sy_requests s @ requests_of k)) +
      length (filter (asks i) (ks @ tasks_of k' @ ks')) \<le> (if sealed g i = None then 0 else 1)" for i
  proof -
    have old: "length (requests_for i s) + length (filter (asks i) (ks @ k # ks')) \<le> (if sealed ?g i = None then 0 else 1)"
      using assms(1,2) by (simp add: system_ok_def)
    have req: "length (filter (\<lambda>(x, _). x = i) (requests_of k)) = (if asks i k then 1 else 0)"
      by (simp add: requests_of_def asks_def split: task.splits)
    have mono: "(if sealed ?g i = None then 0 else 1) \<le> (if sealed g i = None then 0 else (1::nat))"
      using g(2) by (cases "sealed ?g i") (auto simp: follows_def)
    show ?thesis
    proof (cases "\<exists>x. k' = Some x \<and> asks i x")
      case True
      then have "\<not> asks i k" "sealed ?g i = None" "sealed g i \<noteq> None"
        using advance_next(2) [OF _ ok(1)] assms(3) by blast+
      then show ?thesis
        using True old req by (auto simp: requests_for_def tasks_of_def filter_empty_conv)
    next
      case False
      then have "filter (asks i) (tasks_of k') = []" by (auto simp: tasks_of_def split: option.splits)
      then show ?thesis
        using old req mono by (auto simp: requests_for_def split: if_splits)
    qed
  qed
  show ?thesis using g(1) tasks logs count by (simp add: system_ok_def requests_for_def)
qed

text \<open>Every step, from whatever tables, keeps the rows well formed and opens at most one job, for which the writer stands.\<close>

lemma gw_step_keeps:
  assumes "rows_ok (sy_gateway s)" "gw_step cf s s'"
  shows "keeps (sy_gateway s) (sy_gateway s')"
  using assms(2)
proof cases
  case (recover t)
  then show ?thesis using evolve_keeps [OF assms(1)] recover_interrupted_evolves [OF recover(2)] by simp
next
  case (approve require limits checks i request t)
  then show ?thesis using evolve_keeps [OF assms(1)] approve_proof_evolves [OF approve(2)] by simp
next
  case (cancel i)
  then show ?thesis using evolve_keeps [OF assms(1)] cancel_proof_evolves [where g = "sy_gateway s" and i = i] by simp
next
  case (reconcile i j mode head required finalized r)
  then show ?thesis using evolve_keeps [OF assms(1) reconcile_evolves [OF reconcile(2,3)]] by simp
next
  case (index ready account)
  then show ?thesis using evolve_keeps [OF assms(1)] by simp
qed (use keeps_same [OF assms(1)] claim_step [OF assms(1)] advance_step [OF assms(1)] acquire_step [OF assms(1)]
      renew_step [OF assms(1)] release_step [OF assms(1)] create_step [OF assms(1)] in simp_all)

lemma gw_step_ok:
  assumes "system_ok s" "gw_step cf s s'"
  shows "system_ok s' \<and> follows (sy_gateway s) (sy_gateway s')"
proof -
  have ok: "gateway_ok (sy_gateway s)" using assms(1) by (simp add: system_ok_def)
  then have g: "gateway_ok (sy_gateway s')" "follows (sy_gateway s) (sy_gateway s')"
    using keeps_ok [OF ok gw_step_keeps [OF _ assms(2)]] by (simp_all add: gateway_ok_def)
  from assms(2) show ?thesis
  proof cases
    case (claim now locked c g')
    have "system_ok s'"
      unfolding claim(1) using assms(1) g claim(1)
      by (intro quiet_step) (auto simp: tasks_of_def task_ok_def asks_def split: option.splits)
    with g show ?thesis by simp
  next
    case (work ks k ks' E k' g')
    then show ?thesis using work_step [OF assms(1)] g by simp
  next
    case (crash ks k ks')
    have "system_ok s'"
      using quiet_step [OF assms(1) ok, of "ks @ ks'"] crash by simp
    then show ?thesis using crash by simp
  qed (use quiet_gateway [OF assms(1) g] g in simp_all)
qed

interpretation gateway: monotone_system initial "gw_step cf" system_ok "\<lambda>s s'. follows (sy_gateway s) (sy_gateway s')" for cf
  by unfold_locales (auto simp: initial_ok gw_step_ok intro: follows_trans)

lemma reachable_ok: "reachable cf s \<Longrightarrow> system_ok s"
  unfolding reachable_def by (blast intro: gateway.run_inv)

end
