(* ===== verification/Gateway_Run.thy ===== *)
theory Gateway_Run
  imports Gateway_System
begin

text \<open>
  Runs of the gateway: what every run of \<open>gw_step\<close> guarantees, that a claimed job is carried through to its
  submission when the answers from outside are favourable, and one concrete run.  Reorganisations of the chain are in
  \<open>Gateway_Chain\<close>.
\<close>

subsection \<open>One task\<close>

text \<open>\<open>work_first\<close> advances the oldest task.\<close>

definition work_first :: "configuration \<Rightarrow> environment \<Rightarrow> system \<Rightarrow> system" where
  "work_first cf E s = (case sy_tasks s of
       [] \<Rightarrow> s
     | k # ks \<Rightarrow> (case advance cf E k (sy_gateway s) of (k', g) \<Rightarrow>
         s\<lparr>sy_gateway := g, sy_tasks := tasks_of k' @ ks,
           sy_requests := sy_requests s @ requests_of k, sy_broadcasts := sy_broadcasts s @ broadcasts_of k\<rparr>))"

lemma reachable_step: "reachable cf s \<Longrightarrow> gw_step cf s s' \<Longrightarrow> reachable cf s'"
  unfolding reachable_def by (meson rtranclp.rtrancl_into_rtrancl)

lemma work_first_reachable: "reachable cf s \<Longrightarrow> reachable cf (work_first cf E s)"
  using gw_step.work [of s "[]" _ _ cf E]
  by (auto simp: work_first_def intro: reachable_step split: list.splits prod.splits)

lemma works_reachable: "reachable cf s \<Longrightarrow> reachable cf ((work_first cf E ^^ n) s)"
  by (induction n) (simp_all add: work_first_reachable)

text \<open>
  \<open>point k i j r b s\<close>: the oldest task of \<open>s\<close> is \<open>k\<close>, the row of job \<open>i\<close> is \<open>j\<close>, and the requests and the
  broadcasts so far are \<open>r\<close> and \<open>b\<close>.
\<close>

definition row_is :: "uuid \<Rightarrow> job \<Rightarrow> system \<Rightarrow> bool" where
  "row_is i j s \<longleftrightarrow> distinct (map fst (gw_jobs (sy_gateway s))) \<and> map_of (gw_jobs (sy_gateway s)) i = Some j"

definition point ::
  "task option \<Rightarrow> uuid \<Rightarrow> job \<Rightarrow> (uuid \<times> uuid) list \<Rightarrow> (uuid \<times> prepared_submission) list \<Rightarrow> system \<Rightarrow> bool" where
  "point k i j r b s \<longleftrightarrow> row_is i j s \<and> (k \<noteq> None \<longrightarrow> (\<exists>ks. sy_tasks s = tasks_of k @ ks)) \<and>
     sy_requests s = r \<and> sy_broadcasts s = b"

lemma affect_one_applies:
  assumes "distinct (map fst t)" "map_of t i = Some j" "p j"
  shows "\<exists>t'. affect_one i p f m t = Inr t' \<and> map fst t' = map fst t \<and> map_of t' i = Some (f j)"
proof -
  let ?u = "update_where (\<lambda>k j. k = i \<and> p j) f t"
  have "affect_one i p f m t = Inr (fst ?u)"
    using update_where_count [OF assms(1,2), of p f] assms(3) by (simp add: affect_one_def case_prod_beta)
  moreover have "map_of (fst ?u) i = Some (f j)" using assms(2,3) by (simp add: update_where_map_of)
  ultimately show ?thesis by auto
qed

text \<open>A statement whose condition holds, and a step that leaves the tables alone.\<close>

lemma point_statement:
  assumes "point (Some k) i j r b s" "p j"
    and "run_task cf E k (sy_gateway s) = execute (affect_one i p f m (gw_jobs (sy_gateway s))) k' (sy_gateway s)"
  shows "point k' i (f j) (r @ requests_of k) (b @ broadcasts_of k) (work_first cf E s)"
proof -
  obtain t where "affect_one i p f m (gw_jobs (sy_gateway s)) = Inr t" "map_of t i = Some (f j)"
    "map fst t = map fst (gw_jobs (sy_gateway s))"
    using assms(1,2) affect_one_applies [of "gw_jobs (sy_gateway s)" i j p f m] by (auto simp: point_def row_is_def)
  then show ?thesis
    using assms by (auto simp: point_def row_is_def work_first_def advance_def execute_def tasks_of_def)
qed

lemma point_evolve:
  assumes "point (Some k) i j r b s"
    and "run_task cf E k (sy_gateway s) = execute (affect_one i p f m (gw_jobs (sy_gateway s))) k' (sy_gateway s)"
    and "p j" "Q (f j)"
  shows "\<exists>j'. point k' i j' (r @ requests_of k) (b @ broadcasts_of k) (work_first cf E s) \<and> Q j'"
  using point_statement [OF assms(1,3,2)] assms(4) by blast

lemma point_silent:
  assumes "point (Some k) i j r b s" "run_task cf E k (sy_gateway s) = Inr (k', sy_gateway s)"
  shows "point k' i j (r @ requests_of k) (b @ broadcasts_of k) (work_first cf E s)"
  using assms by (auto simp: point_def row_is_def work_first_def advance_def tasks_of_def)

text \<open>The answers under which a newly claimed job runs through.\<close>

definition favourable ::
  "configuration \<Rightarrow> environment \<Rightarrow> claimed_job \<Rightarrow> bytes \<Rightarrow> u64 option \<Rightarrow> int option \<Rightarrow> string \<Rightarrow> bytes \<Rightarrow> prepared_submission \<Rightarrow> bool" where
  "favourable cf E c pv cycles n rid pr p \<longleftrightarrow>
     \<not> cf_execute_only cf \<and> \<not> cf_require_proof_approval cf \<and> \<not> cf_local_mock_submit cf \<and>
     en_execute E (cj_kind c) (cj_input c) False = Inr (pv, cycles) \<and> cycles_i64 cycles = Inr n \<and>
     validate_values E c pv = Inr () \<and> require_proof_lifetime cf E (cj_kind c) pv = Inr () \<and>
     require_submission_lifetime cf E (cj_kind c) pv = Inr () \<and>
     en_request_proof E (cj_kind c) (cj_input c) (request_config cf c) = Inr rid \<and> en_wait_proof E rid = Inr (pv, pr) \<and>
     en_prepare E (cj_kind c) pv pr = Inr p \<and> en_broadcast E p = Inr (ps_transaction_hash p)"

definition hydrated :: "environment \<Rightarrow> claimed_job \<Rightarrow> claimed_job \<Rightarrow> bool" where
  "hydrated E c c' \<longleftrightarrow> (if cj_kind c = Settlement
     then (\<exists>input. en_hydrate E (cj_input c) = Inr input \<and> c' = c\<lparr>cj_input := input\<rparr>) else c' = c)"

text \<open>A row that a worker has claimed for the first time.\<close>

definition newly_claimed :: "claimed_job \<Rightarrow> job \<Rightarrow> bool" where
  "newly_claimed c j \<longleftrightarrow> cj_attempts c = jb_attempts j \<and> cj_proof_bytes c = None \<and>
     cj_proof_request_id c = None \<and> cj_claimed_status c = Queued \<and> jb_status j = Validating \<and>
     jb_proof_request_intent j = None \<and> jb_proof_request_id j = None \<and> jb_prepared_transaction j = None"


subsection \<open>From the claim to the submission\<close>

lemma validate_values_decodes:
  "validate_values E c pv = Inr () \<Longrightarrow> \<exists>x. preflight_decode (en_describe E) (cj_kind c) pv = Inr x"
  by (auto simp: validate_values_def and_then_Inr)

lemma funpow_four: "(f ^^ 4) x = f (f (f (f x)))"
  by (simp add: eval_nat_numeral)

lemma funpow_six: "(f ^^ 6) x = f (f (f (f (f (f x)))))"
  by (simp add: eval_nat_numeral)

lemmas task_effects = requests_of_def broadcasts_of_def

text \<open>The row while its preflight is stored: nothing has been bought or signed.\<close>

definition unspent :: "claimed_job \<Rightarrow> proof_status \<Rightarrow> job \<Rightarrow> bool" where
  "unspent c st j \<longleftrightarrow> jb_attempts j = cj_attempts c \<and> jb_status j = st \<and>
     jb_proof_request_intent j = None \<and> jb_proof_request_id j = None \<and> jb_prepared_transaction j = None"

lemma start_point:
  assumes "point (Some (Start c)) (cj_id c) j r b s" "newly_claimed c j" "hydrated E c c'"
  shows "\<exists>j'. point (Some (Digesting c')) (cj_id c) j' r b (work_first cf E s) \<and> unspent c Validating j'"
proof (cases "cj_kind c")
  case Settlement
  with assms(3) obtain input where h: "en_hydrate E (cj_input c) = Inr input" "c' = c\<lparr>cj_input := input\<rparr>"
    by (auto simp: hydrated_def)
  have "run_task cf E (Start c) (sy_gateway s) =
      execute (affect_one (cj_id c) (validating_claim (cj_attempts c)) (\<lambda>j. j\<lparr>jb_input := input\<rparr>)
        ''settlement job was cancelled'' (gw_jobs (sy_gateway s))) (Some (Digesting c')) (sy_gateway s)"
    using assms(2) Settlement h by (simp add: run_start_def newly_claimed_def store_input_def)
  from point_statement [OF assms(1) _ this] show ?thesis
    using assms(2) by (auto simp: newly_claimed_def unspent_def validating_claim_def task_effects)
next
  case Bridge
  then have "run_task cf E (Start c) (sy_gateway s) = Inr (Some (Digesting c'), sy_gateway s)"
    using assms(2,3) by (simp add: run_start_def newly_claimed_def hydrated_def)
  from point_silent [OF assms(1) this] show ?thesis
    using assms(2) by (auto simp: newly_claimed_def unspent_def task_effects)
qed

text \<open>The statements that a task executes, as conditional updates of its row.\<close>

lemmas task_statements =
  run_task.simps(2) [unfolded store_preflight_digest_def]
  run_task.simps(4) [unfolded store_preflight_def]
  run_task.simps(9) [unfolded finish_proof_request_def]
  run_task.simps(11) [unfolded store_metrics_def]

lemma ready_statement:
  "favourable cf E c pv cycles n rid pr p \<Longrightarrow> run_task cf E (Ready c pv' m) g =
     execute (affect_one (cj_id c)
       (\<lambda>j. jb_attempts j = cj_attempts c \<and> jb_status j \<notin> {Reorged, Rejected, Confirmed, Ethereum_Reverted, Failed, Executed})
       (\<lambda>j. j\<lparr>jb_status := Proving\<rparr>) ''proof job was cancelled'' (gw_jobs g)) (Some (Purchasing c pv' m)) g"
  by (simp add: favourable_def set_status_def)

lemma preflight_points:
  assumes "point (Some (Start c)) (cj_id c) j r b s" "newly_claimed c j" "hydrated E c c'"
    and "favourable cf E c' pv cycles n rid pr p"
  shows "\<exists>j'. point (Some (Purchasing c' pv n)) (cj_id c') j' r b ((work_first cf E ^^ 6) s) \<and> unspent c' Proving j'"
proof -
  let ?W = "work_first cf E" and ?i = "cj_id c'"
  have c': "cj_id c = ?i" "unspent c = unspent c'"
    using assms(3) by (auto simp: hydrated_def unspent_def fun_eq_iff split: if_splits)
  obtain x where x: "preflight_decode (en_describe E) (cj_kind c') pv = Inr x"
    using assms(4) validate_values_decodes [of E c' pv] by (auto simp: favourable_def)
  obtain j1 where 1: "point (Some (Digesting c')) ?i j1 r b (?W s)" "unspent c' Validating j1"
    using start_point [OF assms(1-3)] unfolding c' by blast
  obtain j2 where 2: "point (Some (Preflighting c')) ?i j2 r b (?W (?W s))" "unspent c' Validating j2"
    using point_evolve [OF 1(1) task_statements(1) [of cf E], where Q = "unspent c' Validating"] 1(2)
    by (auto simp: unspent_def validating_claim_def task_effects)
  have 3: "point (Some (Storing c' pv n)) ?i j2 r b (?W (?W (?W s)))"
    using point_silent [OF 2(1), of cf E "Some (Storing c' pv n)"] assms(4) x
    by (simp add: run_preflight_def favourable_def task_effects)
  obtain j4 where 4: "point (Some (Preflighted c' pv n)) ?i j4 r b (?W (?W (?W (?W s))))" "unspent c' Validating j4"
    using point_evolve [OF 3 task_statements(2) [of cf E], where Q = "unspent c' Validating"] 2(2)
    by (auto simp: unspent_def validating_claim_def task_effects)
  have 5: "point (Some (Ready c' pv n)) ?i j4 r b (?W (?W (?W (?W (?W s)))))"
    using point_silent [OF 4(1), of cf E "Some (Ready c' pv n)"] assms(4) by (simp add: favourable_def task_effects)
  obtain j6 where "point (Some (Purchasing c' pv n)) ?i j6 r b (?W (?W (?W (?W (?W (?W s))))))" "unspent c' Proving j6"
    using point_evolve [OF 5 ready_statement [OF assms(4)], where Q = "unspent c' Proving"] 4(2)
    by (auto simp: unspent_def task_effects)
  then show ?thesis unfolding funpow_six by blast
qed

text \<open>The row once the proof is requested.\<close>

definition bought :: "claimed_job \<Rightarrow> proof_status \<Rightarrow> uuid \<Rightarrow> job \<Rightarrow> bool" where
  "bought c st intent j \<longleftrightarrow> jb_attempts j = cj_attempts c \<and> jb_status j = st \<and>
     jb_proof_request_intent j = Some intent \<and> jb_prepared_transaction j = None"

lemma purchase_points:
  assumes "point (Some (Purchasing c pv n)) (cj_id c) j r b s" "unspent c Proving j" "cj_proof_request_id c = None"
    and "favourable cf E c pv cycles n rid pr p"
  shows "\<exists>j'. point (Some (Sending c pv pr)) (cj_id c) j' (r @ [(cj_id c, en_fresh E)]) b ((work_first cf E ^^ 6) s) \<and>
    bought c Proof_Requested (en_fresh E) j'"
proof -
  let ?W = "work_first cf E" and ?i = "cj_id c" and ?n = "en_fresh E"
  let ?r = "r @ [(?i, ?n)]"
  have e: "run_task cf E (Purchasing c pv n) g = execute (affect_one ?i
       (\<lambda>j. jb_attempts j = cj_attempts c \<and> jb_status j = Proving \<and>
            jb_proof_request_intent j = None \<and> jb_proof_request_id j = None)
       (\<lambda>j. j\<lparr>jb_proof_request_intent := Some ?n\<rparr>)
       ''proof request already sealed or worker claim was fenced'' (gw_jobs g)) (Some (Requesting c pv n ?n)) g" for g
    using assms(3,4) by (simp add: favourable_def begin_proof_request_def)
  have w: "run_task cf E (Waiting c pv n rid) g = execute (affect_one ?i
       (\<lambda>j. jb_attempts j = cj_attempts c \<and> jb_status j \<in> {Proving, Proof_Requested})
       (\<lambda>j. j\<lparr>jb_proof_bytes := Some pr, jb_public_values := Some pv\<rparr>) ''proof job was cancelled'' (gw_jobs g))
       (Some (Metering c pv n pr)) g" for g
    using assms(4) by (simp add: favourable_def save_proof_def)
  obtain j1 where 1: "point (Some (Requesting c pv n ?n)) ?i j1 r b (?W s)"
    "bought c Proving ?n j1 \<and> jb_proof_request_id j1 = None"
    using point_evolve [OF assms(1) e, where Q = "\<lambda>j. bought c Proving ?n j \<and> jb_proof_request_id j = None"] assms(2)
    by (auto simp: unspent_def bought_def task_effects)
  have 2: "point (Some (Requested c pv n ?n rid)) ?i j1 ?r b (?W (?W s))"
    using point_silent [OF 1(1), of cf E "Some (Requested c pv n ?n rid)"] assms(4)
    by (simp add: favourable_def task_effects)
  obtain j3 where 3: "point (Some (Waiting c pv n rid)) ?i j3 ?r b (?W (?W (?W s)))" "bought c Proof_Requested ?n j3"
    using point_evolve [OF 2 task_statements(3) [of cf E], where Q = "bought c Proof_Requested ?n"] 1(2)
    by (auto simp: bought_def task_effects)
  obtain j4 where 4: "point (Some (Metering c pv n pr)) ?i j4 ?r b (?W (?W (?W (?W s))))" "bought c Proof_Requested ?n j4"
    using point_evolve [OF 3(1) w, where Q = "bought c Proof_Requested ?n"] 3(2)
    by (auto simp: bought_def task_effects)
  obtain j5 where 5: "point (Some (Checking c pv pr)) ?i j5 ?r b (?W (?W (?W (?W (?W s)))))" "bought c Proof_Requested ?n j5"
    using point_evolve [OF 4(1) task_statements(4) [of cf E], where Q = "bought c Proof_Requested ?n"] 4(2)
    by (auto simp: bought_def task_effects)
  have "point (Some (Sending c pv pr)) ?i j5 ?r b (?W (?W (?W (?W (?W (?W s))))))"
    using point_silent [OF 5(1), of cf E "Some (Sending c pv pr)"] assms(4) by (simp add: favourable_def task_effects)
  then show ?thesis using 5(2) unfolding funpow_six by blast
qed

lemma begin_send_unsigned:
  assumes "row_is i j s" "jb_attempts j = a" "jb_status j = Proof_Requested" "jb_prepared_transaction j = None"
  shows "\<exists>t. begin_send i a pv pr (gw_jobs (sy_gateway s)) = Inr (None, t) \<and>
    map fst t = map fst (gw_jobs (sy_gateway s)) \<and>
    map_of t i = Some (j\<lparr>jb_public_values := Some pv, jb_proof_bytes := Some pr, jb_status := Submitting\<rparr>)"
proof -
  let ?f = "\<lambda>j. j\<lparr>jb_public_values := Some pv, jb_proof_bytes := Some pr,
      jb_transaction_hash := (case jb_prepared_transaction j of
          Some p \<Rightarrow> Some (ps_transaction_hash p) | None \<Rightarrow> jb_transaction_hash j),
      jb_status := Submitting\<rparr>"
  have "?f j = j\<lparr>jb_public_values := Some pv, jb_proof_bytes := Some pr, jb_status := Submitting\<rparr>"
    using assms(4) by simp
  then show ?thesis
    using assms affect_one_applies [of "gw_jobs (sy_gateway s)" i j
        "\<lambda>j. jb_attempts j = a \<and> jb_status j \<in> {Validating, Proving, Proof_Requested, Submitting}" ?f
        "''proof job was cancelled before preparing submission''"]
    by (auto simp: begin_send_def row_is_def)
qed

lemma mark_submitted_point:
  assumes "point (Some (Marking c)) (cj_id c) j r b s" "jb_attempts j = cj_attempts c" "jb_status j = Submitting"
  shows "point None (cj_id c) (j\<lparr>jb_status := Submitted, jb_error := None, jb_error_class := None,
    jb_next_attempt_at := None\<rparr>) r b (work_first cf E s)"
  using assms
  by (auto simp: point_def row_is_def work_first_def advance_def tasks_of_def mark_submitted_def
      update_where_map_of task_effects)

lemma send_points:
  assumes "point (Some (Sending c pv pr)) (cj_id c) j r b s" "bought c Proof_Requested intent j"
    and "favourable cf E c pv cycles n rid pr p"
  shows "\<exists>j'. point None (cj_id c) j' r (b @ [(cj_id c, p)]) ((work_first cf E ^^ 4) s) \<and>
    jb_status j' = Submitted \<and> jb_prepared_transaction j' = Some p \<and>
    jb_transaction_hash j' = Some (ps_transaction_hash p) \<and> jb_proof_request_intent j' = Some intent"
proof -
  let ?W = "work_first cf E" and ?i = "cj_id c"
  let ?Q = "\<lambda>j'. bought c Submitting intent (j'\<lparr>jb_prepared_transaction := None\<rparr>) \<and>
      jb_prepared_transaction j' = Some p \<and> jb_transaction_hash j' = Some (ps_transaction_hash p)"
  have pr: "run_task cf E (Preparing c pv pr) g = execute (affect_one ?i
       (\<lambda>j. jb_attempts j = cj_attempts c \<and> jb_status j = Submitting \<and> jb_prepared_transaction j = None)
       (\<lambda>j. j\<lparr>jb_prepared_transaction := Some p, jb_transaction_hash := Some (ps_transaction_hash p)\<rparr>)
       ''proof job was cancelled before persisting submission'' (gw_jobs g)) (Some (Broadcasting c p)) g" for g
    using assms(3) by (simp add: favourable_def persist_prepared_def)
  have row: "row_is ?i j s" "jb_attempts j = cj_attempts c" "jb_status j = Proof_Requested" "jb_prepared_transaction j = None"
    using assms(1,2) by (auto simp: point_def bought_def)
  obtain j1 where 1: "point (Some (Preparing c pv pr)) ?i j1 r b (?W s)" "bought c Submitting intent j1"
    using begin_send_unsigned [OF row, of pv pr] assms(1,2)
    by (auto simp: point_def row_is_def work_first_def advance_def tasks_of_def task_effects bought_def)
  obtain j2 where 2: "point (Some (Broadcasting c p)) ?i j2 r b (?W (?W s))" "?Q j2"
    using point_evolve [OF 1(1) pr, where Q = ?Q] 1(2) by (auto simp: bought_def task_effects)
  have 3: "point (Some (Marking c)) ?i j2 r (b @ [(?i, p)]) (?W (?W (?W s)))"
    using point_silent [OF 2(1), of cf E "Some (Marking c)"] assms(3) by (simp add: favourable_def task_effects)
  show ?thesis
    unfolding funpow_four using mark_submitted_point [OF 3] 2(2) by (fastforce simp: bought_def)
qed

lemma submitted_points:
  assumes "point (Some (Start c)) (cj_id c) j r b s" "newly_claimed c j" "hydrated E c c'"
    and "favourable cf E c' pv cycles n rid pr p"
  shows "\<exists>j'. point None (cj_id c) j' (r @ [(cj_id c, en_fresh E)]) (b @ [(cj_id c, p)]) ((work_first cf E ^^ 16) s) \<and>
    jb_status j' = Submitted \<and> jb_prepared_transaction j' = Some p \<and>
    jb_transaction_hash j' = Some (ps_transaction_hash p) \<and> jb_proof_request_intent j' = Some (en_fresh E)"
proof -
  let ?W = "work_first cf E"
  have c': "cj_id c' = cj_id c" "cj_proof_request_id c' = None"
    using assms(2,3) by (auto simp: hydrated_def newly_claimed_def split: if_splits)
  have "(?W ^^ 16) s = (?W ^^ 4) ((?W ^^ 6) ((?W ^^ 6) s))"
    by (simp flip: comp_apply [of "?W ^^ _"] funpow_add)
  with preflight_points [OF assms] purchase_points [OF _ _ c'(2) assms(4)] send_points [OF _ _ assms(4)] c'(1)
  show ?thesis by metis
qed

subsection \<open>A concrete run\<close>

definition run_config :: configuration where
  "run_config = \<lparr>cf_execute_only = False, cf_require_proof_approval = False, cf_local_mock_submit = False,
     cf_min_remaining_slots = 0, cf_submission_min_remaining_slots = 0,
     cf_limits = \<lparr>pl_gas_limit = None, pl_max_price_per_pgu = None\<rparr>\<rparr>"

definition run_values :: bridge_public_values where
  "run_values =
     \<lparr>bpv_ethereum_state_before = replicate 32 0, bpv_ethereum_state_after = replicate 32 1,
      bpv_ethereum_nonce_before = 0, bpv_ethereum_nonce_after = 1,
      bpv_zeko_action_state_before = replicate 32 2, bpv_zeko_action_state_after = replicate 32 3,
      bpv_zeko_action_state_length_before = 7, bpv_zeko_action_state_length_after = 8,
      bpv_actions = [\<lparr>ba_fields = replicate 5 (replicate 32 0), ba_state_after = replicate 32 3\<rparr>]\<rparr>"

definition run_bytes :: bytes where
  "run_bytes = (case encode_bridge run_values of Inr bs \<Rightarrow> bs | Inl _ \<Rightarrow> [])"

definition run_view :: ethereum_view where
  "run_view = (sample_view 0)
     \<lparr>ev_chain_id := Inr 1,
      ev_bridge_state_at := (\<lambda>_ _ _. Inr (\<lparr>bs_program_vkey = ''0xab'', bs_deposit_nonce = 1,
         bs_current_deposit_state = replicate 32 1, bs_bridged_deposit_nonce = 0,
         bs_action_state_processed = Some False, bs_paused = False\<rparr>, Some (replicate 32 0))),
      ev_settlement_state_at := (\<lambda>_. Inr ((sample_chain 0)\<lparr>ss_action_state := replicate 32 2,
         ss_outer_action_state_length := 7\<rparr>))\<rparr>"

definition run_transaction :: prepared_submission where
  "run_transaction = \<lparr>ps_transaction_hash = ''0xh'', ps_raw_transaction = ''0x02'', ps_sender = ''0xs'', ps_nonce = 3\<rparr>"

definition run_environment :: environment where
  "run_environment =
     \<lparr>en_now = 2000, en_fresh = 77, en_view = run_view, en_describe = (\<lambda>_. []), en_input_digest = (\<lambda>_. ''d''),
      en_hydrate = Inr, en_execute = (\<lambda>_ _ _. Inr (run_bytes, Some 100)), en_request_proof = (\<lambda>_ _ _. Inr ''r''),
      en_wait_proof = (\<lambda>_. Inr (run_bytes, [9])), en_metrics_cycles = None,
      en_prepare = (\<lambda>_ _ _. Inr run_transaction), en_broadcast = (\<lambda>p. Inr (ps_transaction_hash p))\<rparr>"

definition run_input :: job_input where
  "run_input = (sample_input None)\<lparr>ji_bridge_context := Inr (1, [])\<rparr>"

definition run_initial :: system where
  "run_initial = \<lparr>sy_gateway = sample_gateway, sy_tasks = [], sy_requests = [], sy_broadcasts = []\<rparr>"

definition admit :: "system \<Rightarrow> system" where
  "admit s = (case create_job sample_text (\<lambda>_. ''u'') (\<lambda>_. ''d'') 1000 8 5 None Bridge run_input (sy_gateway s) of
       Inr (_, g) \<Rightarrow> s\<lparr>sy_gateway := g\<rparr> | Inl _ \<Rightarrow> s)"

definition take_job :: "system \<Rightarrow> system" where
  "take_job s = (case claim_job 2000 (\<lambda>_. False) (sy_gateway s) of
       Inr (c, g) \<Rightarrow> s\<lparr>sy_gateway := g, sy_tasks := sy_tasks s @ tasks_of (map_option Start c)\<rparr> | Inl _ \<Rightarrow> s)"

lemma admit_reachable: "reachable cf s \<Longrightarrow> reachable cf (admit s)"
  by (auto simp: admit_def intro: reachable_step gw_step.create split: sum.splits)

lemma take_job_reachable: "reachable cf s \<Longrightarrow> reachable cf (take_job s)"
  by (auto simp: take_job_def intro: reachable_step gw_step.claim split: sum.splits)

definition run_admitted :: system where
  "run_admitted = admit run_initial"

definition run_submitted :: system where
  "run_submitted = (work_first run_config run_environment ^^ 16) (take_job run_admitted)"

lemma run_initial_reachable: "reachable cf run_initial"
proof -
  have "initial run_initial" by (simp add: initial_def run_initial_def sample_gateway_def free_writer_def writer_ok_def)
  then show ?thesis unfolding reachable_def by blast
qed

lemma run_reachable: "reachable run_config run_admitted" "reachable run_config run_submitted"
  unfolding run_submitted_def run_admitted_def
  by (intro works_reachable take_job_reachable admit_reachable run_initial_reachable)+

lemma run_values_ok: "decode_bridge run_bytes = Inr run_values"
proof -
  have "wf_bridge_public_values run_values"
    by (simp add: wf_bridge_public_values_def run_values_def wf_action_def list_all_length)
  then show ?thesis using bridge.round_trip [of run_values] by (auto simp: run_bytes_def)
qed

definition run_row :: job where
  "run_row = claim_row (new_job Bridge run_input None ''d'')"

definition run_claim :: claimed_job where
  "run_claim = claimed 5 (new_job Bridge run_input None ''d'')"

lemma run_taken:
  "sy_tasks (take_job run_admitted) = [Start run_claim]" "gw_jobs (sy_gateway (take_job run_admitted)) = [(5, run_row)]"
  "sy_requests (take_job run_admitted) = []" "sy_broadcasts (take_job run_admitted) = []"
  by code_simp+

lemma run_valid: "validate_values run_environment run_claim run_bytes = Inr ()"
proof -
  have "cj_kind run_claim = Bridge" "ji_bridge_context (cj_input run_claim) = Inr (1, [])"
    by (simp_all add: run_claim_def claimed_def new_job_def run_input_def)
  moreover have "to_ascii_lowercase ''0xab'' = ''0xab''" by code_simp
  ultimately show ?thesis
    by (simp add: validate_values_def preflight_decode_def decode_error_def run_values_ok validate_preflight_def
        validate_bridge_def ensure_hex_eq_def ensure_bytes_eq_def run_environment_def run_view_def sample_view_def
        run_values_def checked_add_def expect_def)
qed

lemma run_favourable:
  "favourable run_config run_environment run_claim run_bytes (Some 100) (Some 100) ''r'' [9] run_transaction"
proof -
  have "cj_kind run_claim = Bridge" by (simp add: run_claim_def claimed_def new_job_def)
  moreover have "cycles_i64 (Some 100) = Inr (Some 100)" by code_simp
  ultimately show ?thesis
    using run_valid
    by (simp add: favourable_def run_config_def require_proof_lifetime_def require_submission_lifetime_def
        require_settlement_lifetime_def settlement_lifetime_def)
      (simp add: run_environment_def)
qed

lemma run_point:
  "point (Some (Start run_claim)) (cj_id run_claim) run_row [] [] (take_job run_admitted)"
  "newly_claimed run_claim run_row" "hydrated run_environment run_claim run_claim"
  by (simp_all add: point_def row_is_def run_taken tasks_of_def newly_claimed_def hydrated_def run_claim_def
      run_row_def claimed_def claim_row_def new_job_def)

lemma run_submitted_point:
  "\<exists>j. point None 5 j [(5, 77)] [(5, run_transaction)] run_submitted \<and> jb_status j = Submitted"
proof -
  have "\<exists>j. point None (cj_id run_claim) j [(cj_id run_claim, en_fresh run_environment)]
      [(cj_id run_claim, run_transaction)] run_submitted \<and> jb_status j = Submitted"
    unfolding run_submitted_def using submitted_points [OF run_point run_favourable] by fastforce
  then show ?thesis by (simp add: run_claim_def claimed_def run_environment_def)
qed

subsection \<open>Properties\<close>

text \<open>
  C10: A proof is bought at most once per job: in every reachable state, however often the job was
  claimed, retried or recovered after a crash, at most one request was sent for it, under the intent stored in
  its row.
\<close>

theorem one_purchase_per_job:
  assumes "reachable cf s"
  shows "length (requests_for i s) \<le> 1 \<and> list_all (\<lambda>(k, n). sealed (sy_gateway s) k = Some n) (sy_requests s)"
proof -
  note ok = reachable_ok [OF assms, unfolded system_ok_def]
  have "length (requests_for i s) \<le> (if sealed (sy_gateway s) i = None then 0 else 1)"
    using ok by (meson add_leD1)
  then show ?thesis using ok by (auto simp: list_all_iff split: if_splits)
qed

text \<open>
  C11: Only the stored transaction is broadcast: whatever was handed to the Ethereum node for a job is the
  signed transaction in its row, under the recorded hash, so two broadcasts of a job carry the same
  transaction.
\<close>

theorem broadcast_is_stored:
  assumes "reachable cf s" "(i, p) \<in> set (sy_broadcasts s)" "(i, p') \<in> set (sy_broadcasts s)"
  shows "p' = p \<and> (\<exists>j. map_of (gw_jobs (sy_gateway s)) i = Some j \<and> jb_prepared_transaction j = Some p \<and>
    jb_transaction_hash j = Some (ps_transaction_hash p))"
proof -
  have "signed (sy_gateway s) i = Some p" "signed (sy_gateway s) i = Some p'" "gateway_ok (sy_gateway s)"
    using reachable_ok [OF assms(1)] assms(2,3) by (auto simp: system_ok_def)
  moreover from this obtain j where "map_of (gw_jobs (sy_gateway s)) i = Some j" "jb_prepared_transaction j = Some p"
    by (auto simp: signed_def bind_eq_Some_conv)
  ultimately show ?thesis unfolding gateway_ok_iff hash_stored_def by simp
qed

text \<open>
  C15: A cancelled job spends nothing: once a job is cancelled, in every later state it is still
  cancelled and no proof request and no transaction was ever sent for it.
\<close>

theorem cancelled_job_spends_nothing:
  assumes "reachable cf s" "cancelled (sy_gateway s) i" "(gw_step cf)\<^sup>*\<^sup>* s s'"
  shows "cancelled (sy_gateway s') i \<and> requests_for i s' = [] \<and> i \<notin> fst ` set (sy_broadcasts s')"
proof -
  have ok: "system_ok s" "system_ok s'" using reachable_ok [OF assms(1)] gateway.steps_inv assms(3) by blast+
  have "follows (sy_gateway s) (sy_gateway s')" by (rule gateway.steps_later [OF ok(1) assms(3)])
  then have c: "cancelled (sy_gateway s') i" using assms(2) by (simp add: follows_def)
  have "sealed (sy_gateway s') i = None" "signed (sy_gateway s') i = None"
    using c ok(2) by (auto simp: cancelled_def system_ok_def gateway_ok_iff job_ok_def sealed_def signed_def)
  moreover have "requests_for i s' = []" if "sealed (sy_gateway s') i = None"
    using ok(2) that unfolding system_ok_def by (metis add_is_0 le_zero_eq length_0_conv)
  moreover have "(i, p) \<notin> set (sy_broadcasts s')" if "signed (sy_gateway s') i = None" for p
    using ok(2) that by (auto simp: system_ok_def)
  ultimately show ?thesis using c by auto
qed

text \<open>
  C16: A job gets through: when the prover and the Ethereum node answer favourably, sixteen steps take a newly
  claimed job to \<open>Submitted\<close>, with one proof request under a fresh intent and one broadcast of the transaction
  that is then stored in its row.
\<close>

theorem claimed_job_submitted:
  assumes "point (Some (Start c)) (cj_id c) j r b s" "newly_claimed c j" "hydrated E c c'"
    and "favourable cf E c' pv cycles n rid pr p"
  shows "\<exists>j'. row_is (cj_id c) j' ((work_first cf E ^^ 16) s) \<and> jb_status j' = Submitted \<and>
    jb_prepared_transaction j' = Some p \<and> jb_proof_request_intent j' = Some (en_fresh E) \<and>
    sy_requests ((work_first cf E ^^ 16) s) = r @ [(cj_id c, en_fresh E)] \<and>
    sy_broadcasts ((work_first cf E ^^ 16) s) = b @ [(cj_id c, p)]"
  using submitted_points [OF assms] by (auto simp: point_def)

subsection \<open>Witnesses\<close>

definition run_cancelled :: system where
  "run_cancelled = run_admitted\<lparr>sy_gateway := snd (cancel_proof 5 (sy_gateway run_admitted))\<rparr>"

definition run_leased :: system where
  "run_leased = run_initial\<lparr>sy_gateway := leased_gateway\<rparr>"

definition run_released :: system where
  "run_released = run_initial\<lparr>sy_gateway := sample_gateway\<lparr>gw_writer := free_writer 42\<rparr>\<rparr>"

lemma run_lease_steps:
  "reachable cf run_leased" "gw_step cf run_leased run_released"
proof -
  have "acquire_with_checkpoint 1000 7 sample_request sample_checkpoint (sy_gateway run_initial) =
    Inr (\<lparr>rs_reservation_id = 7, rs_fencing_token = ''42'', rs_expires_at = Some 1060,
      rs_checkpoint = sample_checkpoint\<rparr>, leased_gateway)"
    using sample_acquire by (simp add: run_initial_def leased_gateway_def)
  from reachable_step [OF run_initial_reachable gw_step.acquire [OF this]]
  show "reachable cf run_leased" by (simp add: run_leased_def)
  have "release 1001 7 ''42'' (sy_gateway run_leased) = Inr (sample_gateway\<lparr>gw_writer := free_writer 42\<rparr>)"
    by code_simp
  from gw_step.release [OF this] show "gw_step cf run_leased run_released"
    by (simp add: run_released_def run_leased_def)
qed

theorem one_purchase_per_job_witness:
  "sy_requests run_submitted = [(5, 77)] \<and> length (requests_for 5 run_submitted) \<le> 1 \<and>
   sealed (sy_gateway run_submitted) 5 = Some 77"
  using one_purchase_per_job [OF run_reachable(2), of 5] run_submitted_point by (auto simp: point_def)

theorem broadcast_is_stored_witness:
  "\<exists>j. map_of (gw_jobs (sy_gateway run_submitted)) 5 = Some j \<and> jb_prepared_transaction j = Some run_transaction \<and>
    jb_transaction_hash j = Some (ps_transaction_hash run_transaction)"
proof -
  have "(5, run_transaction) \<in> set (sy_broadcasts run_submitted)" using run_submitted_point by (auto simp: point_def)
  then show ?thesis using broadcast_is_stored [OF run_reachable(2)] by blast
qed

theorem cancelled_job_spends_nothing_witness:
  "cancelled (snd (cancel_proof 5 (sy_gateway run_cancelled))) 5"
proof -
  have r: "reachable run_config run_cancelled"
    unfolding run_cancelled_def by (rule reachable_step [OF run_reachable(1) gw_step.cancel])
  have "cancelled (sy_gateway run_cancelled) 5"
  proof -
    have "map_option jb_status (map_of (gw_jobs (sy_gateway run_cancelled)) 5) = Some Rejected" by code_simp
    then show ?thesis by (auto simp: cancelled_def)
  qed
  moreover have "(gw_step run_config)\<^sup>*\<^sup>* run_cancelled
      (run_cancelled\<lparr>sy_gateway := snd (cancel_proof 5 (sy_gateway run_cancelled))\<rparr>)"
    by (rule r_into_rtranclp) (rule gw_step.cancel)
  ultimately show ?thesis using cancelled_job_spends_nothing [OF r] by fastforce
qed

theorem claimed_job_submitted_witness:
  "\<exists>j. row_is 5 j run_submitted \<and> jb_status j = Submitted \<and> jb_prepared_transaction j = Some run_transaction"
proof -
  have "point (Some (Start run_claim)) (cj_id run_claim) run_row [] [] (take_job run_admitted)"
    "newly_claimed run_claim run_row" "hydrated run_environment run_claim run_claim"
    by (rule run_point)+
  from claimed_job_submitted [OF this run_favourable] show ?thesis
    by (auto simp: run_submitted_def run_claim_def claimed_def)
qed

end
