(* ===== verification/Account_Update.thy ===== *)
theory Account_Update
  imports Mina_Field
begin

text \<open>
  Hashing of Mina account updates in \<open>program/settlement/src/receipt.rs\<close>: the chunked random
  oracle input of an account-update body is packed into field elements and hashed
  (\<open>hash_account_update_body\<close>), and a forest of child calls is hashed and searched
  (\<open>hash_call_forest\<close>, \<open>count_registry_checkpoint_calls\<close>).

  The packing theorem says that the multiply-and-add loop over field elements never wraps: every
  packed element is the plain concatenation of the bits of a run of chunks.
\<close>

subsection \<open>Data\<close>

datatype mina_signature_kind = Mainnet | Testnet

record packed_field =
  pf_value :: bytes
  pf_bits :: u16

record chunked_input =
  ci_field_elements :: "bytes list"
  ci_packed :: "packed_field list"

datatype call_forest_node = Call_Forest_Node chunked_input "call_forest_node list"

definition MODULUS_BIT_SIZE :: nat where
  "MODULUS_BIT_SIZE = 255"

subsection \<open>The body hash\<close>

definition pow2 :: "nat \<Rightarrow> fp" where
  "pow2 bits = ((\<lambda>value. value + value) ^^ bits) 1"

text \<open>\<open>BigInteger::num_bits\<close>: the length of the binary representation.\<close>

fun num_bits :: "nat \<Rightarrow> nat" where
  "num_bits n = (if n = 0 then 0 else Suc (num_bits (n div 2)))"

declare num_bits.simps [simp del]

record packing =
  pk_packed_fields :: "fp list"
  pk_accumulator :: fp
  pk_accumulator_bits :: nat

definition pack_chunk :: "packed_field \<Rightarrow> packing \<Rightarrow> string + packing" where
  "pack_chunk chunk st =
     (let bits = unat (pf_bits chunk) in
      ensure (bits > 0) ''packed field width must be non-zero'' (
      ensure (bits < MODULUS_BIT_SIZE) ''packed field width exceeds Mina field capacity'' (
      and_then (field_from_bytes (pf_value chunk)) (\<lambda>value.
      ensure (num_bits (nat_of_fp value) \<le> bits) ''packed field does not fit declared width'' (
      if pk_accumulator_bits st + bits < MODULUS_BIT_SIZE
      then Inr (st\<lparr>pk_accumulator := pk_accumulator st * pow2 bits + value,
                   pk_accumulator_bits := pk_accumulator_bits st + bits\<rparr>)
      else Inr (st\<lparr>pk_packed_fields := pk_packed_fields st @ [pk_accumulator st],
                   pk_accumulator := value,
                   pk_accumulator_bits := bits\<rparr>))))))"

fun pack_loop :: "packed_field list \<Rightarrow> packing \<Rightarrow> string + packing" where
  "pack_loop [] st = Inr st"
| "pack_loop (chunk # chunks) st = and_then (pack_chunk chunk st) (pack_loop chunks)"

definition pack_fields :: "packed_field list \<Rightarrow> string + fp list" where
  "pack_fields chunks =
     and_then (pack_loop chunks \<lparr>pk_packed_fields = [], pk_accumulator = 0, pk_accumulator_bits = 0\<rparr>)
       (\<lambda>st. Inr (if pk_accumulator_bits st > 0
                  then pk_packed_fields st @ [pk_accumulator st] else pk_packed_fields st))"

definition body_hash_input :: "chunked_input \<Rightarrow> string + fp list" where
  "body_hash_input input =
     and_then (try_map field_from_bytes (ci_field_elements input)) (\<lambda>hash_input.
     and_then (pack_fields (ci_packed input)) (\<lambda>packed_fields.
     Inr (hash_input @ packed_fields)))"

definition body_prefix :: "mina_signature_kind \<Rightarrow> string" where
  "body_prefix kind =
     (case kind of Mainnet \<Rightarrow> ''MainnetZkappBody****'' | Testnet \<Rightarrow> ''TestnetZkappBody****'')"

definition hash_account_update_body ::
  "crypto \<Rightarrow> mina_signature_kind \<Rightarrow> chunked_input \<Rightarrow> string + fp" where
  "hash_account_update_body H kind input =
     and_then (body_hash_input input) (\<lambda>hash_input.
     Inr (hash_with_prefix H (body_prefix kind) hash_input))"

subsection \<open>Call forests\<close>

definition hash_call_forest_node :: "crypto \<Rightarrow> fp \<Rightarrow> fp \<Rightarrow> fp \<Rightarrow> fp" where
  "hash_call_forest_node H account_update calls tail =
     (let tree = hash_with_prefix H ''MinaAcctUpdateNode**'' [account_update, calls]
      in hash_with_prefix H ''MinaAcctUpdateCons**'' [tree, tail])"

text \<open>The source folds over the reversed list, so the last node is hashed first.\<close>

fun hash_call_forest :: "crypto \<Rightarrow> mina_signature_kind \<Rightarrow> call_forest_node list \<Rightarrow> string + fp" where
  "hash_call_forest H kind [] = Inr 0"
| "hash_call_forest H kind (Call_Forest_Node body calls # forest) =
     and_then (hash_call_forest H kind forest) (\<lambda>tail.
     and_then (hash_account_update_body H kind body) (\<lambda>account_update.
     and_then (hash_call_forest H kind calls) (\<lambda>calls_hash.
     Inr (hash_call_forest_node H account_update calls_hash tail))))"

definition unpack_public_key :: "bytes \<Rightarrow> string + fp \<times> fp" where
  "unpack_public_key packed =
     (let is_odd = (packed ! 0 AND 0x80 \<noteq> 0);
          x = packed[0 := packed ! 0 AND 0x7F]
      in and_then (field_from_bytes x) (\<lambda>x. Inr (x, fp_from_bool is_odd)))"

definition BODY_CALL_DATA :: nat where
  "BODY_CALL_DATA = 16"

definition registry_checkpoint_call_data ::
  "crypto \<Rightarrow> bytes \<Rightarrow> bytes \<Rightarrow> u32 \<Rightarrow> u32 \<Rightarrow> string + bytes" where
  "registry_checkpoint_call_data H registry_public_key rt count schema_version =
     and_then (unpack_public_key registry_public_key) (\<lambda>(registry_x, registry_is_odd).
     and_then (field_from_bytes rt) (\<lambda>root_field.
     Inr (field_to_bytes (hash_with_prefix H ''Zeko registry checkpoint V2''
       [registry_x, registry_is_odd, root_field, fp_from_u32 count, fp_from_u32 schema_version]))))"

text \<open>
  The expected call data is recomputed at every level of the recursion; it depends on the
  arguments only, so computing it once per forest, as here, fails in the same cases.
\<close>

fun count_matching :: "bytes \<Rightarrow> call_forest_node list \<Rightarrow> nat" where
  "count_matching expected [] = 0"
| "count_matching expected (Call_Forest_Node body calls # forest) =
     (let fs = ci_field_elements body;
          matches = (length fs > BODY_CALL_DATA \<and> fs ! BODY_CALL_DATA = expected)
      in of_bool matches + count_matching expected calls + count_matching expected forest)"

definition count_registry_checkpoint_calls ::
  "crypto \<Rightarrow> call_forest_node list \<Rightarrow> bytes \<Rightarrow> bytes \<Rightarrow> u32 \<Rightarrow> u32 \<Rightarrow> string + nat" where
  "count_registry_checkpoint_calls H forest registry_public_key rt count schema_version =
     and_then (registry_checkpoint_call_data H registry_public_key rt count schema_version)
       (\<lambda>expected. Inr (count_matching expected forest))"

subsection \<open>Packing as bit concatenation\<close>

definition concat_bits :: "packed_field list \<Rightarrow> nat" where
  "concat_bits cs = foldl (\<lambda>acc c. acc * 2 ^ unat (pf_bits c) + of_be (pf_value c)) 0 cs"

definition width :: "packed_field list \<Rightarrow> nat" where
  "width cs = sum_list (map (\<lambda>c. unat (pf_bits c)) cs)"

definition fits :: "packed_field \<Rightarrow> bool" where
  "fits c \<longleftrightarrow> 0 < unat (pf_bits c) \<and> unat (pf_bits c) < 255 \<and> length (pf_value c) = 32 \<and>
     of_be (pf_value c) < 2 ^ unat (pf_bits c)"

text \<open>The runs of chunks that share a field element: greedy, at most 254 bits each.\<close>

fun pack_groups :: "packed_field list \<Rightarrow> packed_field list \<Rightarrow> packed_field list list" where
  "pack_groups run [] = (if run = [] then [] else [run])"
| "pack_groups run (c # cs) =
     (if width run + unat (pf_bits c) < 255 then pack_groups (run @ [c]) cs
      else run # pack_groups [c] cs)"

lemma num_bits_le: "num_bits n \<le> b \<longleftrightarrow> n < 2 ^ b"
proof (induction n arbitrary: b rule: num_bits.induct)
  case (1 n)
  show ?case
  proof (cases "n = 0")
    case False
    then have n: "num_bits n = Suc (num_bits (n div 2))" by (subst num_bits.simps) simp
    show ?thesis
    proof (cases b)
      case (Suc k)
      have "n div 2 < 2 ^ k \<longleftrightarrow> n < 2 * 2 ^ k" by (simp add: div_less_iff_less_mult ac_simps)
      then show ?thesis using 1 [OF False, of k] by (simp add: n Suc)
    qed (use False n in simp)
  qed (simp add: num_bits.simps)
qed

lemma pow2_eq: "pow2 n = fp_of_nat (2 ^ n)"
proof (induction n)
  case (Suc n)
  then show ?case by (simp add: pow2_def fp_eq_iff mod_simps mult_2)
qed (simp add: pow2_def fp_eq_iff fp_modulus_def)

lemma width_simps [simp]:
  "width [] = 0" "width (c # cs) = unat (pf_bits c) + width cs" "width (xs @ ys) = width xs + width ys"
  by (simp_all add: width_def)

lemma concat_bits_snoc:
  "concat_bits (cs @ [c]) = concat_bits cs * 2 ^ unat (pf_bits c) + of_be (pf_value c)"
  by (simp add: concat_bits_def)

lemma concat_bits_less: "list_all fits cs \<Longrightarrow> concat_bits cs < 2 ^ width cs"
proof (induction cs rule: rev_induct)
  case (snoc c cs)
  then have "concat_bits cs + 1 \<le> 2 ^ width cs" by simp
  then have "(concat_bits cs + 1) * 2 ^ unat (pf_bits c) \<le> 2 ^ width cs * 2 ^ unat (pf_bits c)"
    by (rule mult_right_mono) simp
  moreover have "of_be (pf_value c) < 2 ^ unat (pf_bits c)" using snoc.prems by (simp add: fits_def)
  ultimately show ?case by (simp add: concat_bits_snoc power_add algebra_simps)
qed (simp add: concat_bits_def)

lemma pack_chunk_eq:
  assumes "length (pf_value c) = 32"
  shows "pack_chunk c st = Inr st' \<longleftrightarrow> fits c \<and>
    st' = (if pk_accumulator_bits st + unat (pf_bits c) < 255
      then st\<lparr>pk_accumulator := pk_accumulator st * fp_of_nat (2 ^ unat (pf_bits c)) + fp_of_nat (of_be (pf_value c)),
              pk_accumulator_bits := pk_accumulator_bits st + unat (pf_bits c)\<rparr>
      else st\<lparr>pk_packed_fields := pk_packed_fields st @ [pk_accumulator st],
              pk_accumulator := fp_of_nat (of_be (pf_value c)), pk_accumulator_bits := unat (pf_bits c)\<rparr>)"
proof -
  let ?v = "of_be (pf_value c)" and ?b = "unat (pf_bits c)"
  have small: "?v < fp_modulus" if "?v < 2 ^ ?b" "?b < 255"
  proof -
    have "(2 :: nat) ^ ?b \<le> 2 ^ 254" using that(2) by (intro power_increasing) simp_all
    then show ?thesis using that(1) fp_modulus_bounds(1) by linarith
  qed
  show ?thesis
    using small assms
    by (cases "?v < fp_modulus")
      (auto simp: pack_chunk_def Let_def res_simps field_from_bytes_cases num_bits_le fits_def
        MODULUS_BIT_SIZE_def pow2_eq)
qed

definition finish_packing :: "packing \<Rightarrow> fp list" where
  "finish_packing st =
     (if pk_accumulator_bits st > 0 then pk_packed_fields st @ [pk_accumulator st] else pk_packed_fields st)"

lemma fp_of_nat_mult_add: "fp_of_nat a * fp_of_nat b + fp_of_nat c = fp_of_nat (a * b + c)"
  by (simp add: fp_eq_iff mod_simps)

lemma width_pos: "list_all fits cs \<Longrightarrow> 0 < width cs \<longleftrightarrow> cs \<noteq> []"
  by (cases cs) (simp_all add: fits_def)

lemma pack_loop_groups:
  assumes "list_all (\<lambda>c. length (pf_value c) = 32) cs" "list_all fits run"
    and "pk_accumulator st = fp_of_nat (concat_bits run)" "pk_accumulator_bits st = width run"
  shows "(\<exists>st'. pack_loop cs st = Inr st' \<and> finish_packing st' = out) \<longleftrightarrow>
    list_all fits cs \<and>
    out = pk_packed_fields st @ map (\<lambda>g. fp_of_nat (concat_bits g)) (pack_groups run cs)"
  using assms
proof (induction cs arbitrary: run st)
  case Nil
  then show ?case using width_pos [of run] by (auto simp: finish_packing_def)
next
  case (Cons c cs)
  note step = pack_chunk_eq [of c st]
  show ?case
  proof (cases "fits c")
    case True
    let ?more = "width run + unat (pf_bits c) < 255"
    obtain st1 where st1: "pack_chunk c st = Inr st1" using step Cons.prems(1) True by simp
    then have s: "st1 = (if ?more
      then st\<lparr>pk_accumulator := fp_of_nat (concat_bits (run @ [c])), pk_accumulator_bits := width (run @ [c])\<rparr>
      else st\<lparr>pk_packed_fields := pk_packed_fields st @ [fp_of_nat (concat_bits run)],
              pk_accumulator := fp_of_nat (concat_bits [c]), pk_accumulator_bits := width [c]\<rparr>)"
      using step Cons.prems True
      by (simp add: fp_of_nat_mult_add concat_bits_snoc) (simp add: concat_bits_def)
    show ?thesis
      using Cons.IH [of "if ?more then run @ [c] else [c]" st1] Cons.prems True st1 s
      by (cases ?more) simp_all
  next
    case False
    then have "\<nexists>st1. pack_chunk c st = Inr st1" using step Cons.prems(1) by simp
    then show ?thesis using False by (auto simp: res_simps)
  qed
qed

lemma pack_fields_Inr:
  assumes "list_all (\<lambda>c. length (pf_value c) = 32) cs"
  shows "pack_fields cs = Inr out \<longleftrightarrow>
    list_all fits cs \<and> out = map (\<lambda>g. fp_of_nat (concat_bits g)) (pack_groups [] cs)"
  using pack_loop_groups [OF assms, of "[]" "\<lparr>pk_packed_fields = [], pk_accumulator = 0, pk_accumulator_bits = 0\<rparr>" out]
  by (simp add: pack_fields_def res_simps concat_bits_def flip: finish_packing_def)

lemma concat_pack_groups: "concat (pack_groups run cs) = run @ cs"
  by (induction run cs rule: pack_groups.induct) simp_all

lemma pack_groups_bounds:
  assumes "list_all fits run" "list_all fits cs" "width run < 255"
  shows "list_all (\<lambda>g. list_all fits g \<and> width g < 255) (pack_groups run cs)"
  using assms by (induction run cs rule: pack_groups.induct) (simp_all add: fits_def)

lemma pack_groups_nonempty: "run \<noteq> [] \<or> list_all fits cs \<Longrightarrow> [] \<notin> set (pack_groups run cs)"
  by (induction run cs rule: pack_groups.induct) (auto simp: fits_def)

subsection \<open>Searching a forest\<close>

fun forest_bodies :: "call_forest_node list \<Rightarrow> chunked_input list" where
  "forest_bodies [] = []"
| "forest_bodies (Call_Forest_Node body calls # forest) = body # forest_bodies calls @ forest_bodies forest"

definition has_call_data :: "bytes \<Rightarrow> chunked_input \<Rightarrow> bool" where
  "has_call_data expected body \<longleftrightarrow> BODY_CALL_DATA < length (ci_field_elements body) \<and>
     ci_field_elements body ! BODY_CALL_DATA = expected"

lemma count_matching_eq:
  "count_matching expected forest = length (filter (has_call_data expected) (forest_bodies forest))"
  by (induction expected forest rule: count_matching.induct) (simp_all add: has_call_data_def Let_def)

subsection \<open>Properties\<close>

text \<open>
  C31: packing never wraps.  A body whose chunks all fit their declared widths (and only such a
  body) is packed; the packed field elements are, in order, the bit concatenations of consecutive
  non-empty runs of chunks that together are all the chunks, and each run has at most 254 bits, so
  the field element is that integer itself and not a residue of it.
\<close>

theorem packing_exact:
  assumes "list_all (\<lambda>c. length (pf_value c) = 32) cs"
  shows "pack_fields cs = Inr out \<longleftrightarrow>
    list_all fits cs \<and> map nat_of_fp out = map concat_bits (pack_groups [] cs) \<and>
    concat (pack_groups [] cs) = cs \<and>
    list_all (\<lambda>g. g \<noteq> [] \<and> width g \<le> 254) (pack_groups [] cs)"
proof (cases "list_all fits cs")
  case True
  let ?gs = "pack_groups [] cs"
  have gs: "list_all (\<lambda>g. list_all fits g \<and> width g < 255) ?gs" "[] \<notin> set ?gs"
    using True by (simp_all add: pack_groups_bounds pack_groups_nonempty)
  have small: "concat_bits g < fp_modulus" if "g \<in> set ?gs" for g
  proof -
    from that gs(1) have g: "list_all fits g" "width g \<le> 254" by (auto simp: list_all_iff)
    have "(2 :: nat) ^ width g \<le> 2 ^ 254" using g(2) by (rule power_increasing) simp
    with concat_bits_less [OF g(1)] show ?thesis using fp_modulus_bounds(1) by linarith
  qed
  then have "map nat_of_fp (map (\<lambda>g. fp_of_nat (concat_bits g)) ?gs) = map concat_bits ?gs"
    by simp
  moreover have "map nat_of_fp out = map nat_of_fp xs \<longleftrightarrow> out = xs" for xs
    by (rule inj_map_eq_map) (simp add: inj_def nat_of_fp_inject)
  ultimately have "map nat_of_fp out = map concat_bits ?gs \<longleftrightarrow>
      out = map (\<lambda>g. fp_of_nat (concat_bits g)) ?gs" by metis
  then show ?thesis
    using True gs by (auto simp: pack_fields_Inr [OF assms] concat_pack_groups list_all_iff)
qed (simp add: pack_fields_Inr [OF assms])

definition sample_chunks :: "packed_field list" where
  "sample_chunks =
     [\<lparr>pf_value = replicate 31 0 @ [3], pf_bits = 200\<rparr>, \<lparr>pf_value = replicate 31 0 @ [5], pf_bits = 8\<rparr>,
      \<lparr>pf_value = replicate 31 0 @ [1], pf_bits = 64\<rparr>]"

theorem packing_exact_witness:
  "pack_fields sample_chunks = Inr [fp_of_nat (3 * 2 ^ 8 + 5), fp_of_nat 1]"
proof -
  have "list_all (\<lambda>c. length (pf_value c) = 32) sample_chunks"
    by (simp add: sample_chunks_def)
  from packing_exact [OF this] show ?thesis
    by (simp add: sample_chunks_def fits_def of_be_append of_be_Cons concat_bits_def fp_modulus_def)
qed

text \<open>
  The checkpoint search visits every call of the forest, nested calls included, exactly once:
  its result is the number of account updates in the forest whose seventeenth body field is the
  call data that commits to the registry key, root, count and schema.
\<close>

lemma checkpoint_search_complete:
  "count_registry_checkpoint_calls H forest key rt count schema = Inr n \<longleftrightarrow>
   (\<exists>expected. registry_checkpoint_call_data H key rt count schema = Inr expected \<and>
      n = length (filter (has_call_data expected) (forest_bodies forest)))"
  by (auto simp: count_registry_checkpoint_calls_def res_simps count_matching_eq)

end
