(* ===== verification/Asset_Registry.thy ===== *)
theory Asset_Registry
  imports Inner_Action_Tree Account_Update
begin

text \<open>
  The asset registry as \<open>program/settlement/src/receipt.rs\<close> checks it: canonical asset records
  with their Keccak identity and Poseidon leaf, the append of a record to the depth-8 Poseidon
  tree, the single-record checkpoint (V3), the batch checkpoint (V4), and the depth-8 Keccak tree
  of record identities that the V4 receipt publishes.

  The abstract registry is the list of the 256 leaves of the tree.  A validated batch is shown to
  be a run of appends to that list: the slots from the old count on were empty, hold the new
  leaves afterwards, and nothing else changed.
\<close>

subsection \<open>Data\<close>

record asset_record =
  ar_schema_version :: u32
  ar_registry_index :: u32
  ar_asset_id :: bytes
  ar_ethereum_token :: bytes
  ar_token_owner_l2 :: bytes
  ar_token_id_l2 :: bytes
  ar_decimals :: u8
  ar_inventory_cap :: u64
  ar_mft_standard_vk_id :: bytes
  ar_vault_public_key :: bytes
  ar_universal_bridge_vk_id :: bytes

record registry_append =
  ra_record :: asset_record
  ra_append_path :: "bytes list"

record registry_checkpoint =
  rc_checkpoint_version :: u32
  rc_registry_public_key :: bytes
  rc_root :: bytes
  rc_count :: u32
  rc_schema_version :: u32
  rc_record_hash :: bytes
  rc_record :: asset_record
  rc_append_path :: "bytes list"
  rc_old_root :: bytes
  rc_old_count :: u32

record registry_batch =
  rb_checkpoint_version :: u32
  rb_registry_public_key :: bytes
  rb_root :: bytes
  rb_count :: u32
  rb_schema_version :: u32
  rb_old_root :: bytes
  rb_old_count :: u32
  rb_appends :: "registry_append list"

definition ASSET_REGISTRY_TREE_DEPTH :: nat where
  "ASSET_REGISTRY_TREE_DEPTH = 8"

definition MAX_ASSET_RECORDS :: nat where
  "MAX_ASSET_RECORDS = push_bit ASSET_REGISTRY_TREE_DEPTH 1"

lemma registry_consts [simp]: "MAX_ASSET_RECORDS = 256" "ASSET_REGISTRY_TREE_DEPTH = 8"
  by (simp_all add: MAX_ASSET_RECORDS_def ASSET_REGISTRY_TREE_DEPTH_def)

subsection \<open>Records\<close>

definition field_from_address :: "bytes \<Rightarrow> string + fp" where
  "field_from_address address = field_from_bytes (replicate 12 0 @ address)"

definition compute_asset_id :: "crypto \<Rightarrow> asset_record \<Rightarrow> u64 \<Rightarrow> bytes \<Rightarrow> bytes" where
  "compute_asset_id H record chain_id bridge_address =
     keccak256 H
       (keccak_str H ''ZEKO_ERC20_ASSET_V1'' @
        u64_word chain_id @
        address_word bridge_address @
        address_word (ar_ethereum_token record) @
        ar_token_owner_l2 record @
        ar_token_id_l2 record @
        u64_word (ucast (ar_decimals record)))"

definition hash_canonical_asset_record :: "crypto \<Rightarrow> asset_record \<Rightarrow> bytes" where
  "hash_canonical_asset_record H record =
     keccak256 H
       (keccak_str H ''ZEKO_ERC20_ASSET_RECORD_V1'' @
        u32_word (ar_schema_version record) @
        u32_word (ar_registry_index record) @
        ar_asset_id record @
        address_word (ar_ethereum_token record) @
        ar_token_owner_l2 record @
        ar_token_id_l2 record @
        u64_word (ucast (ar_decimals record)) @
        u64_word (ar_inventory_cap record) @
        ar_mft_standard_vk_id record @
        ar_vault_public_key record @
        ar_universal_bridge_vk_id record)"

definition validate_canonical_asset_record ::
  "crypto \<Rightarrow> asset_record \<Rightarrow> u64 \<Rightarrow> bytes \<Rightarrow> string + unit" where
  "validate_canonical_asset_record H record chain_id bridge_address =
     ensure (ar_decimals record \<le> 9) ''asset decimals exceed the Zeko maximum'' (
     ensure (ar_ethereum_token record \<noteq> replicate 20 0) ''asset token is zero'' (
     ensure (ar_asset_id record \<noteq> replicate 32 0) ''asset ID is zero'' (
     ensure (ar_token_owner_l2 record \<noteq> replicate 32 0) ''asset owner is zero'' (
     ensure (ar_token_id_l2 record \<noteq> replicate 32 0) ''asset token ID is zero'' (
     ensure (ar_inventory_cap record \<noteq> 0) ''asset inventory cap is zero'' (
     ensure (ar_mft_standard_vk_id record \<noteq> replicate 32 0) ''asset MFT standard VK is zero'' (
     ensure (ar_vault_public_key record \<noteq> replicate 32 0) ''asset vault public key is zero'' (
     ensure (ar_universal_bridge_vk_id record \<noteq> replicate 32 0)
       ''asset universal bridge VK is zero'' (
     ensure (ar_token_owner_l2 record \<noteq> ar_vault_public_key record)
       ''asset owner and shared vault must differ'' (
     ensure (compute_asset_id H record chain_id bridge_address = ar_asset_id record)
       ''canonical Ethereum asset ID mismatch''
     (Inr ())))))))))))"

definition hash_registry_record_leaf :: "crypto \<Rightarrow> asset_record \<Rightarrow> string + fp" where
  "hash_registry_record_leaf H record =
     (let asset_high = replicate 16 0 @ take 16 (ar_asset_id record);
          asset_low = replicate 16 0 @ drop 16 (ar_asset_id record)
      in and_then (unpack_public_key (ar_token_owner_l2 record)) (\<lambda>(owner_x, owner_is_odd).
         and_then (unpack_public_key (ar_vault_public_key record)) (\<lambda>(vault_x, vault_is_odd).
         and_then (field_from_bytes asset_high) (\<lambda>high.
         and_then (field_from_bytes asset_low) (\<lambda>low.
         and_then (field_from_address (ar_ethereum_token record)) (\<lambda>token.
         and_then (field_from_bytes (ar_token_id_l2 record)) (\<lambda>token_id.
         and_then (field_from_bytes (ar_mft_standard_vk_id record)) (\<lambda>mft_vk.
         and_then (field_from_bytes (ar_universal_bridge_vk_id record)) (\<lambda>bridge_vk.
         Inr (hash_with_prefix H ''Ethereum asset registry leaf V1''
           [fp_from_u32 (ar_schema_version record),
            fp_from_u32 (ar_registry_index record),
            high,
            low,
            token,
            owner_x,
            owner_is_odd,
            token_id,
            fp_from_u8 (ar_decimals record),
            fp_from_u64 (ar_inventory_cap record),
            mft_vk,
            vault_x,
            vault_is_odd,
            bridge_vk]))))))))))"

subsection \<open>The Poseidon tree\<close>

definition registry_node :: "crypto \<Rightarrow> fp \<Rightarrow> fp \<Rightarrow> fp" where
  "registry_node H left right = hash_with_prefix H ''Ethereum asset registry node V1'' [left, right]"

fun implied_root_loop :: "crypto \<Rightarrow> u32 \<Rightarrow> nat \<Rightarrow> fp \<Rightarrow> bytes list \<Rightarrow> string + fp" where
  "implied_root_loop H index level current [] = Inr current"
| "implied_root_loop H index level current (sibling_bytes # path) =
     and_then (field_from_bytes sibling_bytes) (\<lambda>sibling.
     implied_root_loop H index (level + 1)
       (if index AND push_bit level 1 = 0 then registry_node H current sibling
        else registry_node H sibling current) path)"

definition registry_implied_root :: "crypto \<Rightarrow> fp \<Rightarrow> u32 \<Rightarrow> bytes list \<Rightarrow> string + fp" where
  "registry_implied_root H leaf index path = implied_root_loop H index 0 leaf path"

subsection \<open>Checkpoints\<close>

definition validate_registry_append ::
  "crypto \<Rightarrow> registry_append \<Rightarrow> u32 \<Rightarrow> bytes \<Rightarrow> u32 \<Rightarrow> u64 \<Rightarrow> bytes \<Rightarrow> string + bytes" where
  "validate_registry_append H entry expected_index old_root schema_version chain_id bridge_address =
     (let record = ra_record entry in
      ensure (length (ra_append_path entry) = ASSET_REGISTRY_TREE_DEPTH)
        ''invalid registry append path'' (
      ensure (ar_schema_version record = schema_version) ''asset and registry schema mismatch'' (
      ensure (ar_registry_index record = expected_index)
        ''asset record is not a dense ordered append'' (
      and_then (validate_canonical_asset_record H record chain_id bridge_address) (\<lambda>_.
      and_then (registry_implied_root H 0 expected_index (ra_append_path entry)) (\<lambda>implied_old_root.
      ensure (field_to_bytes implied_old_root = old_root)
        ''registry append slot is not empty under the running root'' (
      and_then (hash_registry_record_leaf H record) (\<lambda>leaf.
      and_then (registry_implied_root H leaf expected_index (ra_append_path entry)) (\<lambda>new_root.
      Inr (field_to_bytes new_root))))))))))"

fun append_loop ::
  "crypto \<Rightarrow> registry_batch \<Rightarrow> u64 \<Rightarrow> bytes \<Rightarrow> nat \<Rightarrow> registry_append list \<Rightarrow> bytes \<Rightarrow>
   string + bytes \<times> (u32 \<times> bytes \<times> bytes) list" where
  "append_loop H checkpoint chain_id bridge_address offset [] running_root = Inr (running_root, [])"
| "append_loop H checkpoint chain_id bridge_address offset (entry # appends) running_root =
     and_then (expect (checked_add (rb_old_count checkpoint) (word_of_nat offset))
       ''asset registry index overflow'') (\<lambda>expected_index.
     and_then (validate_registry_append H entry expected_index running_root
       (rb_schema_version checkpoint) chain_id bridge_address) (\<lambda>running_root.
     and_then (hash_registry_record_leaf H (ra_record entry)) (\<lambda>leaf.
     and_then (append_loop H checkpoint chain_id bridge_address (offset + 1) appends running_root)
       (\<lambda>(final_root, record_identities).
     Inr (final_root,
       (expected_index, hash_canonical_asset_record H (ra_record entry), field_to_bytes leaf) #
       record_identities)))))"

definition validate_registry_batch ::
  "crypto \<Rightarrow> registry_batch \<Rightarrow> u64 \<Rightarrow> bytes \<Rightarrow> string + (u32 \<times> bytes \<times> bytes) list" where
  "validate_registry_batch H checkpoint chain_id bridge_address =
     ensure (rb_schema_version checkpoint = 1) ''unsupported asset registry schema'' (
     ensure (rb_root checkpoint \<noteq> replicate 32 0) ''asset registry root is zero'' (
     ensure (rb_appends checkpoint \<noteq> []) ''asset registry batch is empty'' (
     ensure (length (rb_appends checkpoint) \<le> MAX_ASSET_RECORDS)
       ''asset registry batch exceeds capacity'' (
     let append_count = word_of_nat (length (rb_appends checkpoint)) in
     and_then (expect (checked_add (rb_old_count checkpoint) append_count)
       ''asset registry count overflow'') (\<lambda>count.
     ensure (rb_count checkpoint = count) ''asset registry count does not match batch length'' (
     ensure (unat (rb_count checkpoint) \<le> MAX_ASSET_RECORDS)
       ''asset registry count exceeds capacity'' (
     and_then (append_loop H checkpoint chain_id bridge_address 0 (rb_appends checkpoint)
       (rb_old_root checkpoint)) (\<lambda>(running_root, record_identities).
     ensure (running_root = rb_root checkpoint) ''registry appends do not produce the settled root''
     (Inr record_identities)))))))))"

definition validate_registry_transition ::
  "crypto \<Rightarrow> registry_checkpoint \<Rightarrow> u64 \<Rightarrow> bytes \<Rightarrow> string + unit" where
  "validate_registry_transition H checkpoint chain_id bridge_address =
     (let record = rc_record checkpoint in
      ensure (length (rc_append_path checkpoint) = 8) ''invalid registry append path'' (
      ensure (ar_schema_version record = 1) ''unsupported canonical asset schema'' (
      ensure (ar_schema_version record = rc_schema_version checkpoint)
        ''asset and registry schema mismatch'' (
      ensure (ar_registry_index record = rc_old_count checkpoint)
        ''asset record is not appended at the committed count'' (
      and_then (expect (checked_add (rc_old_count checkpoint) 1) ''asset registry count overflow'') (\<lambda>count.
      ensure (rc_count checkpoint = count) ''asset registry count must increase exactly once'' (
      ensure (unat (rc_count checkpoint) \<le> MAX_ASSET_RECORDS)
        ''asset registry count exceeds capacity'' (
      and_then (validate_canonical_asset_record H record chain_id bridge_address) (\<lambda>_.
      ensure (hash_canonical_asset_record H record = rc_record_hash checkpoint)
        ''canonical asset record hash mismatch'' (
      and_then (registry_implied_root H 0 (ar_registry_index record) (rc_append_path checkpoint)) (\<lambda>old_root.
      ensure (field_to_bytes old_root = rc_old_root checkpoint)
        ''registry append slot is not empty under the old root'' (
      and_then (hash_registry_record_leaf H record) (\<lambda>leaf.
      and_then (registry_implied_root H leaf (ar_registry_index record) (rc_append_path checkpoint)) (\<lambda>new_root.
      ensure (field_to_bytes new_root = rc_root checkpoint)
        ''registry append does not produce the settled root''
      (Inr ())))))))))))))))"

subsection \<open>The record batch tree\<close>

definition asset_record_batch_leaf :: "crypto \<Rightarrow> bytes \<Rightarrow> bytes \<Rightarrow> bytes" where
  "asset_record_batch_leaf H record_hash record_commitment =
     keccak256 H (keccak_str H ''ZEKO_ASSET_RECORD_BATCH_LEAF_V2'' @ record_hash @ record_commitment)"

definition batch_node_preimage :: "crypto \<Rightarrow> bytes \<Rightarrow> bytes \<Rightarrow> bytes" where
  "batch_node_preimage H left right = keccak_str H ''ZEKO_ASSET_RECORD_BATCH_NODE_V1'' @ left @ right"

definition batch_node :: "crypto \<Rightarrow> bytes \<Rightarrow> bytes \<Rightarrow> bytes" where
  "batch_node H left right = keccak256 H (batch_node_preimage H left right)"

fun place_leaves :: "crypto \<Rightarrow> (u32 \<times> bytes \<times> bytes) list \<Rightarrow> bytes list \<Rightarrow> string + bytes list" where
  "place_leaves H [] level = Inr level"
| "place_leaves H ((index, record_hash, record_commitment) # identities) level =
     ensure (unat index < MAX_ASSET_RECORDS) ''asset registry index exceeds capacity'' (
     ensure (level ! unat index = replicate 32 0) ''duplicate asset record batch index''
     (place_leaves H identities
       (level[unat index := asset_record_batch_leaf H record_hash record_commitment])))"

text \<open>\<open>chunks_exact(2)\<close> drops an odd last element, as \<open>pairs\<close> does.\<close>

definition asset_record_batch_root :: "crypto \<Rightarrow> (u32 \<times> bytes \<times> bytes) list \<Rightarrow> string + bytes" where
  "asset_record_batch_root H record_identities =
     and_then (place_leaves H record_identities (replicate MAX_ASSET_RECORDS (replicate 32 0))) (\<lambda>level.
     Inr (((pairs (batch_node H) ^^ ASSET_REGISTRY_TREE_DEPTH) level) ! 0))"

subsection \<open>Paths\<close>

lemma and_exp_iff: "(index :: u32) AND 2 ^ level = 0 \<longleftrightarrow> even (unat index div 2 ^ level)"
proof -
  have "bit (unat index) level \<longleftrightarrow> bit index level"
    by (auto simp: bit_unsigned_iff dest: bit_imp_possible_bit)
  then show ?thesis
    by (simp add: and_exp_eq_0_iff_not_bit) (simp add: bit_iff_odd)
qed

definition path_fields :: "bytes list \<Rightarrow> fp list" where
  "path_fields path = map from_be_bytes_mod_order path"

definition canonical :: "bytes \<Rightarrow> bool" where
  "canonical bs \<longleftrightarrow> field_to_bytes (from_be_bytes_mod_order bs) = bs"

lemma field_from_bytes_canonical:
  "field_from_bytes bs = Inr v \<longleftrightarrow> canonical bs \<and> v = from_be_bytes_mod_order bs"
  by (auto simp: field_from_bytes_def Let_def ensure_Inr canonical_def)

lemma implied_root_loop_Inr:
  "implied_root_loop H index level current path = Inr r \<longleftrightarrow> list_all canonical path \<and>
     r = path_root (registry_node H) current (unat index div 2 ^ level) (path_fields path)"
proof (induction path arbitrary: level current)
  case Nil
  then show ?case by (auto simp: path_fields_def)
next
  case (Cons sib path)
  then show ?case
    by (simp add: res_simps field_from_bytes_canonical and_exp_iff path_fields_def
        div_mult2_eq [symmetric] mult.commute [of _ 2])
qed

lemma registry_implied_root_Inr:
  "registry_implied_root H leaf index path = Inr r \<longleftrightarrow> list_all canonical path \<and>
     r = path_root (registry_node H) leaf (unat index) (path_fields path)"
  by (simp add: registry_implied_root_def implied_root_loop_Inr)

interpretation registry: merkle_node "registry_node H"
  "hash_with_prefix H ''Ethereum asset registry node V1''" "\<lambda>l r. [l, r]" "\<lambda>_. True" for H
  by unfold_locales (simp_all add: registry_node_def)

interpretation records: merkle_node "batch_node H" "keccak256 H" "batch_node_preimage H"
  "\<lambda>x. length x = 32" for H
  by unfold_locales (auto simp: batch_node_def batch_node_preimage_def)

subsection \<open>Appends to the list of leaves\<close>

definition fill :: "'a list \<Rightarrow> nat \<Rightarrow> 'a list \<Rightarrow> 'a list" where
  "fill t i ls = take i t @ ls @ drop (i + length ls) t"

lemma fill_Nil [simp]: "fill t i [] = t"
  by (simp add: fill_def)

lemma fill_Cons: "i < length t \<Longrightarrow> fill (t[i := l]) (Suc i) ls = fill t i (l # ls)"
  by (simp add: fill_def take_Suc_conv_app_nth drop_update_cancel)

lemma length_fill [simp]: "i + length ls \<le> length t \<Longrightarrow> length (fill t i ls) = length t"
  by (simp add: fill_def)

lemma fill_nth:
  assumes "i + length ls \<le> length t" "j < length t"
  shows "fill t i ls ! j = (if i \<le> j \<and> j < i + length ls then ls ! (j - i) else t ! j)"
  using assms by (auto simp: fill_def nth_append min_def)

definition record_leaf :: "crypto \<Rightarrow> registry_append \<Rightarrow> fp" where
  "record_leaf H a = projr (hash_registry_record_leaf H (ra_record a))"

fun identities :: "crypto \<Rightarrow> nat \<Rightarrow> registry_append list \<Rightarrow> (u32 \<times> bytes \<times> bytes) list" where
  "identities H i [] = []"
| "identities H i (a # as) =
     (word_of_nat i, hash_canonical_asset_record H (ra_record a), field_to_bytes (record_leaf H a)) #
     identities H (Suc i) as"

text \<open>The node inputs that checking the appends and recomputing the tree hash.\<close>

fun registry_inputs :: "crypto \<Rightarrow> fp list \<Rightarrow> nat \<Rightarrow> registry_append list \<Rightarrow> fp list set" where
  "registry_inputs H t i [] = {}"
| "registry_inputs H t i (a # as) =
     set (path_inputs (registry_node H) (\<lambda>l r. [l, r]) 0 i (path_fields (ra_append_path a))) \<union>
     set (path_inputs (registry_node H) (\<lambda>l r. [l, r]) (t ! i) i (tree_path (registry_node H) 8 t i)) \<union>
     registry_inputs H (t[i := record_leaf H a]) (Suc i) as"

lemma validate_registry_append_Inr:
  "validate_registry_append H a index old schema chain bridge = Inr new \<longleftrightarrow>
     length (ra_append_path a) = 8 \<and> ar_schema_version (ra_record a) = schema \<and>
     ar_registry_index (ra_record a) = index \<and>
     validate_canonical_asset_record H (ra_record a) chain bridge = Inr () \<and>
     list_all canonical (ra_append_path a) \<and>
     old = field_to_bytes (path_root (registry_node H) 0 (unat index) (path_fields (ra_append_path a))) \<and>
     hash_registry_record_leaf H (ra_record a) = Inr (record_leaf H a) \<and>
     new = field_to_bytes
       (path_root (registry_node H) (record_leaf H a) (unat index) (path_fields (ra_append_path a)))"
  by (auto simp: validate_registry_append_def Let_def res_simps registry_implied_root_Inr record_leaf_def)

lemma append_loop_Cons:
  assumes "unat (rb_old_count cp) + off < 2 ^ 32"
  defines "index \<equiv> word_of_nat (unat (rb_old_count cp) + off)"
  shows "append_loop H cp chain bridge off (a # as) old = Inr (r, ids) \<longleftrightarrow>
    (\<exists>new ids'. validate_registry_append H a index old (rb_schema_version cp) chain bridge = Inr new \<and>
       append_loop H cp chain bridge (Suc off) as new = Inr (r, ids') \<and>
       ids = (index, hash_canonical_asset_record H (ra_record a), field_to_bytes (record_leaf H a)) # ids')"
proof -
  have "checked_add (rb_old_count cp) (word_of_nat off) = Some index"
    using assms(1) by (simp add: checked_add_Some index_def unat_of_nat take_bit_nat_eq_self del: of_nat_add)
  then show ?thesis
    by (auto simp: res_simps validate_registry_append_Inr expect_def simp del: of_nat_add)
qed

lemma append_loop_refines:
  assumes "append_loop H cp chain bridge off as (field_to_bytes (perfect_root (registry_node H) 8 t)) = Inr (r, ids)"
    and "length t = 256" and "unat (rb_old_count cp) + off + length as \<le> 256"
    and "inj_on (hash_with_prefix H ''Ethereum asset registry node V1'')
      (registry_inputs H t (unat (rb_old_count cp) + off) as)"
  defines "i \<equiv> unat (rb_old_count cp) + off"
  shows "r = field_to_bytes (perfect_root (registry_node H) 8 (fill t i (map (record_leaf H) as))) \<and>
    take (length as) (drop i t) = replicate (length as) 0 \<and> ids = identities H i as"
  using assms(1-4) unfolding i_def
proof (induction as arbitrary: off t r ids)
  case (Cons a as)
  let ?i = "unat (rb_old_count cp) + off" and ?node = "registry_node H"
  let ?p = "path_fields (ra_append_path a)" and ?l = "record_leaf H a"
  have i: "?i < 256" "off < 2 ^ 32" using Cons.prems(3) by simp_all
  define index :: u32 where "index = word_of_nat ?i"
  have idx: "unat index = ?i"
    using i by (simp add: index_def unat_of_nat take_bit_nat_eq_self del: of_nat_add)
  from Cons.prems(1) i obtain new ids' where
    app: "validate_registry_append H a index (field_to_bytes (perfect_root ?node 8 t))
      (rb_schema_version cp) chain bridge = Inr new"
    and rest: "append_loop H cp chain bridge (Suc off) as new = Inr (r, ids')"
    and ids: "ids = (index, hash_canonical_asset_record H (ra_record a), field_to_bytes ?l) # ids'"
    by (auto simp: append_loop_Cons index_def simp del: append_loop.simps of_nat_add)
  have old: "path_root ?node 0 ?i ?p = perfect_root ?node 8 t" "length ?p = 8"
    and new: "new = field_to_bytes (path_root ?node ?l ?i ?p)"
    using app by (auto simp: validate_registry_append_Inr idx path_fields_def)
  have "t ! ?i = 0 \<and> path_root ?node x ?i ?p = perfect_root ?node 8 (t[?i := x])" for x
    using old i Cons.prems(2) inj_on_subset [OF Cons.prems(4)]
    by (intro registry.path_append) (auto simp: list_all_iff)
  then have empty: "t ! ?i = 0" and "new = field_to_bytes (perfect_root ?node 8 (t[?i := ?l]))"
    by (simp_all add: new)
  then have "r = field_to_bytes (perfect_root ?node 8 (fill (t[?i := ?l]) (Suc ?i) (map (record_leaf H) as))) \<and>
      take (length as) (drop (Suc ?i) (t[?i := ?l])) = replicate (length as) 0 \<and> ids' = identities H (Suc ?i) as"
    using Cons.IH [of "Suc off" "t[?i := ?l]" r ids'] rest Cons.prems by (auto simp: inj_on_subset)
  moreover have "drop ?i t = 0 # drop (Suc ?i) t"
    using empty i Cons.prems(2) by (metis Cons_nth_drop_Suc)
  ultimately show ?case
    using i Cons.prems(2) ids by (simp add: fill_Cons index_def)
qed (simp add: i_def)

lemma validate_registry_batch_Inr:
  "validate_registry_batch H cp chain bridge = Inr ids \<longleftrightarrow>
     rb_schema_version cp = 1 \<and> rb_root cp \<noteq> replicate 32 0 \<and> rb_appends cp \<noteq> [] \<and>
     unat (rb_count cp) = unat (rb_old_count cp) + length (rb_appends cp) \<and> unat (rb_count cp) \<le> 256 \<and>
     append_loop H cp chain bridge 0 (rb_appends cp) (rb_old_root cp) = Inr (rb_root cp, ids)"
proof (cases "length (rb_appends cp) \<le> 256")
  case True
  then show ?thesis
    by (auto simp: validate_registry_batch_def Let_def res_simps checked_add_Some unat_of_nat
        take_bit_nat_eq_self)
qed (auto simp: validate_registry_batch_def res_simps)

lemma append_loop_identities:
  assumes "append_loop H cp chain bridge off as old = Inr (r, ids)"
    and "unat (rb_old_count cp) + off + length as \<le> 256"
  shows "ids = identities H (unat (rb_old_count cp) + off) as"
  using assms
proof (induction as arbitrary: off old ids)
  case (Cons a as)
  then have "unat (rb_old_count cp) + off < 2 ^ 32" by simp
  then show ?case
    using Cons.IH [of "Suc off"] Cons.prems
    by (auto simp: append_loop_Cons simp del: append_loop.simps)
qed simp

subsection \<open>The batch root\<close>

lemma funpow_pairs: "length t = 2 ^ d \<Longrightarrow> (pairs node ^^ d) t = [perfect_root node d t]"
proof (induction d arbitrary: t)
  case 0
  then show ?case by (cases t) simp_all
next
  case (Suc d)
  then show ?case
    using Suc.IH [of "pairs node t"]
    by (simp add: length_pairs perfect_root_pairs funpow_Suc_right del: funpow.simps perfect_root.simps(2))
qed

definition identity_leaf :: "crypto \<Rightarrow> registry_append \<Rightarrow> bytes" where
  "identity_leaf H a =
     asset_record_batch_leaf H (hash_canonical_asset_record H (ra_record a)) (field_to_bytes (record_leaf H a))"

lemma place_identities:
  assumes "length level = 256" "i + length as \<le> 256"
    and "\<And>j. i \<le> j \<Longrightarrow> j < 256 \<Longrightarrow> level ! j = replicate 32 0"
  shows "place_leaves H (identities H i as) level = Inr (fill level i (map (identity_leaf H) as))"
  using assms
proof (induction as arbitrary: i level)
  case (Cons a as)
  then have "unat (word_of_nat i :: u32) = i" by (simp add: unat_of_nat take_bit_nat_eq_self)
  then show ?case
    using Cons.IH [of "level[i := identity_leaf H a]" "Suc i"] Cons.prems
    by (simp add: fill_Cons flip: identity_leaf_def)
qed simp

lemma asset_record_batch_root_identities:
  assumes "i + length as \<le> 256"
  shows "asset_record_batch_root H (identities H i as) = Inr (perfect_root (batch_node H) 8
    (fill (replicate 256 (replicate 32 0)) i (map (identity_leaf H) as)))"
  using assms by (simp add: asset_record_batch_root_def place_identities funpow_pairs del: funpow.simps)

subsection \<open>Properties\<close>

text \<open>
  C28: a validated V4 batch is a run of appends to the registry.  If the old root is that of a tree
  with the 256 leaves \<open>t\<close>, then the slots from the old count on were empty, the settled root is
  that of \<open>t\<close> with exactly those slots filled by the leaves of the batch's records in order, the
  count grew by the size of the batch and stays within capacity, and the identities the receipt
  commits to are those of the records at their indices; unless two node inputs hashed on the way
  collide under Poseidon.
\<close>

theorem registry_batch_appends:
  assumes "validate_registry_batch H cp chain bridge = Inr ids"
    and "length t = 256" "rb_old_root cp = field_to_bytes (perfect_root (registry_node H) 8 t)"
    and "inj_on (hash_with_prefix H ''Ethereum asset registry node V1'')
      (registry_inputs H t (unat (rb_old_count cp)) (rb_appends cp))"
  defines "old \<equiv> unat (rb_old_count cp)" and "n \<equiv> length (rb_appends cp)"
  shows "take n (drop old t) = replicate n 0 \<and>
    rb_root cp = field_to_bytes (perfect_root (registry_node H) 8 (fill t old (map (record_leaf H) (rb_appends cp)))) \<and>
    unat (rb_count cp) = old + n \<and> old + n \<le> 256 \<and> ids = identities H old (rb_appends cp)"
proof -
  have v: "unat (rb_count cp) = old + n" "unat (rb_count cp) \<le> 256"
    and loop: "append_loop H cp chain bridge 0 (rb_appends cp) (field_to_bytes (perfect_root (registry_node H) 8 t))
      = Inr (rb_root cp, ids)"
    using assms(1,3) by (simp_all add: validate_registry_batch_Inr old_def n_def)
  have "unat (rb_old_count cp) + 0 + length (rb_appends cp) \<le> 256" using v by (simp add: old_def n_def)
  from append_loop_refines [OF loop assms(2) this] assms(4) v show ?thesis
    by (simp add: old_def n_def)
qed

text \<open>
  The batch root that a V4 receipt publishes is the root of the full depth-8 Keccak tree that
  holds the identity of every record at its registry index and zero elsewhere; computing it
  succeeds for every validated batch (no index is out of range or used twice).
\<close>

lemma batch_root_reference:
  assumes "validate_registry_batch H cp chain bridge = Inr ids"
  shows "asset_record_batch_root H ids = Inr (perfect_root (batch_node H) 8
    (fill (replicate 256 (replicate 32 0)) (unat (rb_old_count cp))
      (map (identity_leaf H) (rb_appends cp))))"
proof -
  have le: "unat (rb_old_count cp) + length (rb_appends cp) \<le> 256"
    using assms by (auto simp: validate_registry_batch_Inr)
  moreover from this have "ids = identities H (unat (rb_old_count cp)) (rb_appends cp)"
    using assms append_loop_identities [of H cp chain bridge 0 "rb_appends cp" "rb_old_root cp" "rb_root cp" ids]
    by (simp add: validate_registry_batch_Inr)
  ultimately show ?thesis by (simp add: asset_record_batch_root_identities)
qed

definition as_batch :: "registry_checkpoint \<Rightarrow> registry_batch" where
  "as_batch c = \<lparr>rb_checkpoint_version = rc_checkpoint_version c,
     rb_registry_public_key = rc_registry_public_key c, rb_root = rc_root c, rb_count = rc_count c,
     rb_schema_version = rc_schema_version c, rb_old_root = rc_old_root c, rb_old_count = rc_old_count c,
     rb_appends = [\<lparr>ra_record = rc_record c, ra_append_path = rc_append_path c\<rparr>]\<rparr>"

text \<open>
  The V3 checkpoint is the V4 checkpoint of a batch of one.  A V3 checkpoint with a non-zero
  root passes exactly when the one-record batch passes with the identity that the V3 receipt
  publishes: the record hash and the Poseidon commitment of the record, at the old count.
\<close>

lemma v3_checkpoint_is_batch_of_one:
  "validate_registry_transition H c chain bridge = Inr () \<and> rc_root c \<noteq> replicate 32 0 \<longleftrightarrow>
   (\<exists>leaf. hash_registry_record_leaf H (rc_record c) = Inr leaf \<and>
     validate_registry_batch H (as_batch c) chain bridge =
       Inr [(rc_old_count c, rc_record_hash c, field_to_bytes leaf)])"
  by (auto simp: validate_registry_transition_def validate_registry_batch_Inr as_batch_def Let_def
      res_simps checked_add_Some validate_registry_append_Inr registry_implied_root_Inr record_leaf_def)

subsection \<open>A first registration\<close>

text \<open>
  A concrete run for the witnesses: one record appended to the empty registry, with a block
  cipher under which a node hashes to its right child plus one.
\<close>

definition ladder_crypto :: crypto where
  "ladder_crypto = \<lparr>keccak256 = sample_keccak,
     block_cipher = (\<lambda>(a, b, c). if c = 0 then (0, 0, 1) else (b + 1, 0, 1))\<rparr>"

definition small_bytes :: "u8 \<Rightarrow> bytes" where
  "small_bytes n = 0 # replicate 30 0 @ [n]"

definition sample_asset :: asset_record where
  "sample_asset = \<lparr>ar_schema_version = 1, ar_registry_index = 0, ar_asset_id = u64_word 5,
     ar_ethereum_token = replicate 20 9, ar_token_owner_l2 = small_bytes 3, ar_token_id_l2 = small_bytes 4,
     ar_decimals = 6, ar_inventory_cap = 1000, ar_mft_standard_vk_id = small_bytes 5,
     ar_vault_public_key = small_bytes 6, ar_universal_bridge_vk_id = small_bytes 7\<rparr>"

definition sample_batch :: registry_batch where
  "sample_batch = \<lparr>rb_checkpoint_version = 2, rb_registry_public_key = small_bytes 8,
     rb_root = small_bytes 8, rb_count = 1, rb_schema_version = 1, rb_old_root = small_bytes 8,
     rb_old_count = 0,
     rb_appends = [\<lparr>ra_record = sample_asset, ra_append_path = map small_bytes [0, 1, 2, 3, 4, 5, 6, 7]\<rparr>]\<rparr>"

lemma small_bytes_simps [simp]:
  "length (small_bytes n) = 32" "of_be (small_bytes n) = unat n" "small_bytes n ! 0 = 0"
  "small_bytes m = small_bytes n \<longleftrightarrow> m = n" "(small_bytes n)[0 := 0] = small_bytes n"
  by (simp_all add: small_bytes_def of_be_Cons of_be_append)

lemma small_bytes_zero: "small_bytes n = replicate 32 0 \<longleftrightarrow> n = 0"
  using of_be_inject [of "small_bytes n" "replicate 32 0"] by (simp add: word_unat_eq_iff)

lemma fp_of_nat_numeral: "fp_of_nat (numeral n) = numeral n"
proof -
  have "fp_of_nat k = of_nat k" for k by (induction k) (simp_all add: fp_eq_iff, metis mod_Suc_eq)
  then show ?thesis by simp
qed

lemma small_bytes_field [simp]: "field_from_bytes (small_bytes n) = Inr (fp_from_u8 n)"
  using unat_less_fp_modulus(1) [of n] by (simp add: field_from_bytes_cases fp_from_u8_def)

lemma ladder_keccak [simp]: "keccak256 ladder_crypto = sample_keccak"
  by (simp add: ladder_crypto_def)

lemma ladder_node: "hash_with_prefix ladder_crypto p [l, r] = r + 1"
  by (simp add: hash_with_prefix_def poseidon_update_def ladder_crypto_def)

lemma u64_word_0: "u64_word 0 = replicate 32 0"
  by (simp add: u64_word_def u64_to_be_def flip: replicate_add)

lemma sample_asset_valid:
  "validate_canonical_asset_record ladder_crypto sample_asset 5 (replicate 20 7) = Inr ()"
proof -
  have "compute_asset_id ladder_crypto sample_asset 5 (replicate 20 7) = u64_word 5"
    by (simp add: compute_asset_id_def sample_keccak_second keccak_str_def)
  moreover have "u64_word 5 \<noteq> replicate 32 0" unfolding u64_word_0 [symmetric] by simp
  ultimately show ?thesis
    by (simp add: validate_canonical_asset_record_def sample_asset_def small_bytes_zero)
qed

lemma sample_asset_leaf: "\<exists>l. hash_registry_record_leaf ladder_crypto sample_asset = Inr l"
proof -
  have "of_be (replicate 16 0 @ take 16 (u64_word 5)) < fp_modulus"
    "of_be (replicate 16 0 @ drop 16 (u64_word 5)) < fp_modulus"
    using of_be_less [of "take 16 (u64_word 5)"] of_be_less [of "drop 16 (u64_word 5)"]
    by (simp_all add: of_be_append fp_modulus_def)
  moreover have "of_be (replicate 12 0 @ replicate 20 9) < fp_modulus"
    using of_be_less [of "replicate 20 9"] by (simp add: of_be_append fp_modulus_def)
  ultimately show ?thesis
    by (simp add: hash_registry_record_leaf_def sample_asset_def unpack_public_key_def
        field_from_address_def field_from_bytes_cases Let_def)
qed

lemma tree_path_empty: "tree_path node d (replicate (2 ^ d) z) 0 = zero_ladder node d z"
proof (induction d arbitrary: z)
  case (Suc d)
  have "pairs node (replicate (2 * m) z) = replicate m (node z z)" for m
    by (induction m) simp_all
  moreover have "Suc 0 < 2 * 2 ^ d" using zero_less_power [of "2 :: nat" d] by linarith
  ultimately show ?case using Suc by (simp del: replicate.simps)
qed simp

lemma sample_path:
  "path_fields (map small_bytes [0, 1, 2, 3, 4, 5, 6, 7]) = [0, 1, 2, 3, 4, 5, 6, 7]"
  "tree_path (registry_node ladder_crypto) 8 (replicate 256 0) 0 = [0, 1, 2, 3, 4, 5, 6, 7]"
proof -
  have "fp_of_nat 1 = 1" by (simp add: fp_eq_iff fp_modulus_def)
  then show "path_fields (map small_bytes [0, 1, 2, 3, 4, 5, 6, 7]) = [0, 1, 2, 3, 4, 5, 6, 7]"
    by (simp add: path_fields_def from_be_bytes_mod_order_def fp_of_nat_numeral)
  have "zero_ladder (registry_node ladder_crypto) 8 0 = [0, 1, 2, 3, 4, 5, 6, 7]"
    by (simp add: eval_nat_numeral registry_node_def ladder_node)
  then show "tree_path (registry_node ladder_crypto) 8 (replicate 256 0) 0 = [0, 1, 2, 3, 4, 5, 6, 7]"
    using tree_path_empty [of "registry_node ladder_crypto" 8 0] by (simp del: replicate.simps)
qed

lemma sample_roots:
  "field_to_bytes 8 = small_bytes 8"
  "perfect_root (registry_node ladder_crypto) 8 (replicate 256 0) = 8"
  "path_root (registry_node ladder_crypto) x 0 [0, 1, 2, 3, 4, 5, 6, 7] = 8"
proof -
  have "nat_of_fp 8 = nat_of_fp (fp_of_nat 8)" by (simp only: fp_of_nat_numeral)
  also have "\<dots> = 8" by (simp add: fp_modulus_def)
  finally have "of_be (field_to_bytes 8) = of_be (small_bytes 8)" by simp
  then show "field_to_bytes 8 = small_bytes 8" by (subst (asm) of_be_inject) simp_all
  show p: "path_root (registry_node ladder_crypto) y 0 [0, 1, 2, 3, 4, 5, 6, 7] = 8" for y
    by (simp add: registry_node_def ladder_node)
  have upd: "(replicate 256 (0 :: fp))[0 := 0] = replicate 256 0"
    by (subst list_update_same_conv) simp_all
  show "perfect_root (registry_node ladder_crypto) 8 (replicate 256 0) = 8"
    using path_root_update [of "replicate 256 0" 8 0 "registry_node ladder_crypto" 0] p [of 0]
    by (simp add: sample_path upd del: replicate.simps)
qed

lemma sample_batch_validates:
  "\<exists>ids. validate_registry_batch ladder_crypto sample_batch 5 (replicate 20 7) = Inr ids"
proof -
  have can: "list_all canonical (map small_bytes xs)" for xs
    using small_bytes_field unfolding field_from_bytes_canonical by (auto simp: list_all_iff)
  obtain l where l: "hash_registry_record_leaf ladder_crypto sample_asset = Inr l"
    using sample_asset_leaf by blast
  have "validate_registry_append ladder_crypto (hd (rb_appends sample_batch)) 0 (small_bytes 8) 1 5
      (replicate 20 7) = Inr (small_bytes 8)"
    using can [of "[0, 1, 2, 3, 4, 5, 6, 7]"] sample_path(1) l
    by (simp add: validate_registry_append_Inr sample_batch_def sample_asset_valid sample_roots
        record_leaf_def) (simp add: sample_asset_def registry_node_def ladder_node sample_roots(1))
  then show ?thesis
    using l small_bytes_zero [of 8]
    by (simp add: validate_registry_batch_Inr sample_batch_def checked_add_def expect_def)
qed

theorem registry_batch_appends_witness:
  "take 1 (drop 0 (replicate 256 (0 :: fp))) = replicate 1 0 \<and>
   rb_root sample_batch = field_to_bytes (perfect_root (registry_node ladder_crypto) 8
     (fill (replicate 256 0) 0 (map (record_leaf ladder_crypto) (rb_appends sample_batch))))"
proof -
  obtain ids where ids: "validate_registry_batch ladder_crypto sample_batch 5 (replicate 20 7) = Inr ids"
    using sample_batch_validates by blast
  have old: "rb_old_root sample_batch = field_to_bytes (perfect_root (registry_node ladder_crypto) 8 (replicate 256 0))"
    by (simp add: sample_roots sample_batch_def del: replicate.simps)
  let ?h = "hash_with_prefix ladder_crypto ''Ethereum asset registry node V1''"
  have "registry_inputs ladder_crypto (replicate 256 0) (unat (rb_old_count sample_batch)) (rb_appends sample_batch)
      \<subseteq> (\<lambda>x. [x, x]) ` UNIV"
    using sample_path
    by (simp add: sample_batch_def registry_node_def ladder_node del: replicate.simps)
  moreover have "inj_on ?h ((\<lambda>x. [x, x]) ` UNIV)"
    by (auto simp: inj_on_def ladder_node fp_eq_iff mod_Suc nat_of_fp_less split: if_splits)
  ultimately have inj: "inj_on ?h (registry_inputs ladder_crypto (replicate 256 0)
      (unat (rb_old_count sample_batch)) (rb_appends sample_batch))"
    using inj_on_subset by blast
  show ?thesis
    using registry_batch_appends [OF ids _ old inj] by (simp add: sample_batch_def del: replicate.simps)
qed

end
