(* ===== verification/Hash_Chain.thy ===== *)
theory Hash_Chain
  imports Prelude
begin

text \<open>
  Accumulators built by repeated hashing, as the bridge keeps them: a state, and a push that
  hashes the state together with a new leaf.  The locale \<open>hash_chain\<close> states what such an
  accumulator relies on (the preimage of a push determines the old state and the leaf) and
  proves once that the final state determines the start and all leaves, as long as the hash has
  no collision among the preimages that occur.
\<close>

fun chain :: "('s \<Rightarrow> 'l \<Rightarrow> 's) \<Rightarrow> 's \<Rightarrow> 'l list \<Rightarrow> 's" where
  "chain push s [] = s"
| "chain push s (l # ls) = chain push (push s l) ls"

fun chain_inputs :: "('s \<Rightarrow> 'l \<Rightarrow> 's) \<Rightarrow> ('s \<Rightarrow> 'l \<Rightarrow> 'i) \<Rightarrow> 's \<Rightarrow> 'l list \<Rightarrow> 'i list" where
  "chain_inputs push pre s [] = []"
| "chain_inputs push pre s (l # ls) = pre s l # chain_inputs push pre (push s l) ls"

lemma chain_append: "chain push s (xs @ ys) = chain push (chain push s xs) ys"
  by (induction xs arbitrary: s) simp_all

lemma chain_foldl: "chain push s xs = foldl push s xs"
  by (induction xs arbitrary: s) simp_all

lemma chain_inputs_append:
  "chain_inputs push pre s (xs @ ys) = chain_inputs push pre s xs @ chain_inputs push pre (chain push s xs) ys"
  by (induction xs arbitrary: s) simp_all

locale hash_chain =
  fixes push :: "'s \<Rightarrow> 'l \<Rightarrow> 's"
    and h :: "'i \<Rightarrow> 's"
    and pre :: "'s \<Rightarrow> 'l \<Rightarrow> 'i"
    and wf_state :: "'s \<Rightarrow> bool"
    and wf_leaf :: "'l \<Rightarrow> bool"
  assumes push_hash: "push s l = h (pre s l)"
    and pre_inject:
      "wf_state s \<Longrightarrow> wf_leaf l \<Longrightarrow> wf_state t \<Longrightarrow> wf_leaf k \<Longrightarrow> pre s l = pre t k \<Longrightarrow> s = t \<and> l = k"
begin

lemma chain_wf:
  assumes "wf_state s" "\<And>x. wf_state (h x)"
  shows "wf_state (chain push s ls)"
  using assms by (induction ls arbitrary: s) (simp_all add: push_hash)

lemma chain_determines:
  assumes "length ls = length ks" and "chain push s ls = chain push t ks"
    and "inj_on h (set (chain_inputs push pre s ls) \<union> set (chain_inputs push pre t ks))"
    and "wf_state s" "wf_state t" "list_all wf_leaf ls" "list_all wf_leaf ks"
    and wf_h: "\<And>x. wf_state (h x)"
  shows "s = t \<and> ls = ks"
  using assms(1-7)
proof (induction ls ks arbitrary: s t rule: list_induct2)
  case (Cons l ls k ks)
  have "inj_on h (set (chain_inputs push pre (push s l) ls) \<union> set (chain_inputs push pre (push t k) ks))"
    using Cons.prems(2) by (rule inj_on_subset) auto
  then have eq: "push s l = push t k" and tl: "ls = ks"
    using Cons.IH [of "push s l" "push t k"] Cons.prems by (simp_all add: push_hash wf_h)
  from eq have "pre s l = pre t k"
    unfolding push_hash by (rule inj_onD [OF Cons.prems(2)]) simp_all
  then have "s = t \<and> l = k"
    using pre_inject [of s l t k] Cons.prems(3-6) by simp
  then show ?case using tl by simp
qed simp

end

end
