(* ===== verification/Inner_Action_Replay.thy ===== *)
theory Inner_Action_Replay
  imports Asset_Registry Public_Values Hash_Chain
begin

text \<open>
  The V2 receipt of \<open>program/settlement/src/receipt.rs\<close>: \<open>derive_v2_receipt\<close> replays the inner
  actions a settlement covers, checks that they lead from the proof-bound action state before to
  the one after, checks every clear withdrawal against the action it claims to open, and commits
  to the leaves with the depth-16 Keccak tree of \<open>Inner_Action_Tree\<close>.

  The specification is by lists: which actions are acceptable, the state they replay to, and
  their leaves at consecutive global indices.
\<close>

subsection \<open>Data\<close>

definition INNER_ACTION_FIELDS :: nat where
  "INNER_ACTION_FIELDS = 3"

definition field_bytes_to_u32 :: "bytes \<Rightarrow> string + u32" where
  "field_bytes_to_u32 v =
     ensure (list_all (\<lambda>b. b = 0) (take 28 v)) ''field does not fit u32''
       (Inr (u32_from_be (drop 28 v)))"

subsection \<open>Withdrawal preimages\<close>

definition assert_native_withdrawal_preimage ::
  "crypto \<Rightarrow> fp list \<Rightarrow> native_withdrawal \<Rightarrow> string + unit" where
  "assert_native_withdrawal_preimage H fs withdrawal =
     ensure (nw_amount withdrawal > 0) ''native withdrawal amount must be non-zero'' (
     and_then (field_from_address (nw_recipient withdrawal)) (\<lambda>recipient_x.
     let expected_aux = hash_with_prefix H ''Withdrawal_params - qFB3jXP*)''
           [0, fp_from_u64 (nw_amount withdrawal), recipient_x, 0]
     in ensure (fs ! 1 = expected_aux) ''withdrawal preimage does not match action aux'' (Inr ())))"

definition assert_erc20_withdrawal_preimage ::
  "crypto \<Rightarrow> fp list \<Rightarrow> token_withdrawal \<Rightarrow> string + unit" where
  "assert_erc20_withdrawal_preimage H fs withdrawal =
     ensure (tw_token withdrawal \<noteq> replicate 20 0) ''ERC20 withdrawal token is zero'' (
     ensure (tw_asset_id withdrawal \<noteq> replicate 32 0) ''ERC20 withdrawal asset id is zero'' (
     ensure (tw_amount withdrawal > 0) ''ERC20 withdrawal amount must be non-zero'' (
     and_then (try_map field_from_bytes (tw_params_fields withdrawal)) (\<lambda>params.
     ensure (length params \<ge> 9) ''registry ERC20 withdrawal parameter preimage is truncated'' (
     let asset_high = replicate 16 0 @ take 16 (tw_asset_id withdrawal);
         asset_low = replicate 16 0 @ drop 16 (tw_asset_id withdrawal) in
     ensure (tw_encoding_version withdrawal = ERC20_ACTION_ENCODING_V2)
       ''unsupported ERC20 withdrawal encoding version'' (
     ensure (tw_record_commitment withdrawal \<noteq> replicate 32 0)
       ''registry ERC20 withdrawal record commitment is zero'' (
     ensure (params ! 0 = fp_from_u32 ERC20_ACTION_ENCODING_V2)
       ''ERC20 withdrawal encoding version mismatch'' (
     ensure (params ! 1 = fp_from_u32 (tw_registry_index withdrawal))
       ''ERC20 withdrawal registry index mismatch'' (
     and_then (field_from_bytes (tw_record_commitment withdrawal)) (\<lambda>commitment.
     ensure (params ! 2 = commitment) ''ERC20 withdrawal record commitment mismatch'' (
     let asset_offset = 3 in
     and_then (field_from_bytes asset_high) (\<lambda>high.
     ensure (params ! asset_offset = high) ''ERC20 withdrawal asset high limb mismatch'' (
     and_then (field_from_bytes asset_low) (\<lambda>low.
     ensure (params ! (asset_offset + 1) = low) ''ERC20 withdrawal asset low limb mismatch'' (
     let base = length params - 4 in
     ensure (params ! (base + 1) = fp_from_u64 (tw_amount withdrawal))
       ''ERC20 withdrawal amount mismatch'' (
     and_then (field_from_address (tw_recipient withdrawal)) (\<lambda>recipient.
     ensure (params ! (base + 2) = recipient) ''ERC20 withdrawal recipient mismatch'' (
     ensure (params ! (base + 3) = 0) ''ERC20 withdrawal recipient parity must be even'' (
     let expected_aux = hash_with_prefix H ''Ethereum ERC20 withdrawal V2'' params in
     ensure (fs ! 1 = expected_aux) ''ERC20 withdrawal preimage does not match action aux''
     (Inr ()))))))))))))))))))))"

subsection \<open>The replay\<close>

definition inner_action_leaf ::
  "crypto \<Rightarrow> spv1 \<Rightarrow> bytes \<Rightarrow> u32 \<Rightarrow> inner_action_witness \<Rightarrow> fp list \<Rightarrow> bytes \<Rightarrow> string + bytes" where
  "inner_action_leaf H v1 bridge_address global_index action fs fields_hash =
     (case (iw_withdrawal action, iw_token_withdrawal action) of
        (Some withdrawal, None) \<Rightarrow>
          and_then (assert_native_withdrawal_preimage H fs withdrawal) (\<lambda>_.
          Inr (native_withdrawal_leaf H (pv_chain_id v1) bridge_address global_index
            withdrawal fields_hash))
      | (None, Some withdrawal) \<Rightarrow>
          and_then (assert_erc20_withdrawal_preimage H fs withdrawal) (\<lambda>_.
          erc20_withdrawal_leaf H (pv_chain_id v1) bridge_address global_index
            withdrawal fields_hash)
      | (None, None) \<Rightarrow>
          Inr (raw_inner_action_leaf H (pv_chain_id v1) bridge_address global_index fields_hash)
      | (Some _, Some _) \<Rightarrow> Inl ''inner action has multiple withdrawal preimages'')"

fun replay_loop ::
  "crypto \<Rightarrow> spv1 \<Rightarrow> bytes \<Rightarrow> u32 \<Rightarrow> nat \<Rightarrow> inner_action_witness list \<Rightarrow> fp \<Rightarrow>
   string + fp \<times> bytes list" where
  "replay_loop H v1 bridge_address start_index offset [] replayed_state =
     Inr (replayed_state, [])"
| "replay_loop H v1 bridge_address start_index offset (action # actions) replayed_state =
     ensure (length (iw_fields action) = INNER_ACTION_FIELDS) ''invalid Zeko inner action width'' (
     and_then (try_map field_from_bytes (iw_fields action)) (\<lambda>fs.
     ensure (fs ! 0 = 0) ''invalid inner action tag'' (
     let empty_action_list_hash = empty_hash_with_prefix H ''MinaZkappActionsEmpty'';
         event_hash = hash_with_prefix H ''MinaZkappEvent******'' fs;
         action_list_hash = hash_with_prefix H ''MinaZkappSeqEvents**'' [empty_action_list_hash, event_hash];
         replayed_state = hash_with_prefix H ''MinaZkappSeqEvents**'' [replayed_state, action_list_hash] in
     and_then (expect (checked_add start_index (word_of_nat offset)) ''inner action index overflow'') (\<lambda>global_index.
     and_then (action_fields_hash H (iw_fields action)) (\<lambda>fields_hash.
     and_then (inner_action_leaf H v1 bridge_address global_index action fs fields_hash) (\<lambda>leaf.
     and_then (replay_loop H v1 bridge_address start_index (offset + 1) actions replayed_state)
       (\<lambda>(final_state, leaves). Inr (final_state, leaf # leaves))))))))"

definition derive_v2_receipt ::
  "crypto \<Rightarrow> spv1 \<Rightarrow> inner_action_batch_witness \<Rightarrow> string + spv2" where
  "derive_v2_receipt H v1 batch =
     ensure (length (ib_actions batch) \<le> MAX_LEAVES) ''too many inner actions'' (
     and_then (field_from_bytes (inner_action_state (pv_state_before v1))) (\<lambda>state_before.
     and_then (field_from_bytes (inner_action_state (pv_state_after v1))) (\<lambda>state_after.
     and_then (field_bytes_to_u32 (inner_action_state_length (pv_state_before v1))) (\<lambda>start_index.
     and_then (field_bytes_to_u32 (inner_action_state_length (pv_state_after v1))) (\<lambda>end_index.
     let count = word_of_nat (length (ib_actions batch)) in
     ensure (checked_sub end_index start_index = Some count)
       ''inner action count does not match committed length transition'' (
     and_then (replay_loop H v1 (ib_bridge_address batch) start_index 0 (ib_actions batch) state_before)
       (\<lambda>(replayed_state, leaves).
     ensure (replayed_state = state_after) ''inner actions do not reach proof-bound action state'' (
     and_then (root H leaves) (\<lambda>inner_action_root.
     Inr \<lparr>pv2_settlement = v1,
          pv2_bridge_address = ib_bridge_address batch,
          pv2_inner_action_root = inner_action_root,
          pv2_inner_action_start_index = start_index,
          pv2_inner_action_count = count\<rparr>)))))))))"

subsection \<open>Specification\<close>

definition fields_of :: "inner_action_witness \<Rightarrow> fp list" where
  "fields_of a = map from_be_bytes_mod_order (iw_fields a)"

definition action_list_hash :: "crypto \<Rightarrow> fp list \<Rightarrow> fp" where
  "action_list_hash H fs = hash_with_prefix H ''MinaZkappSeqEvents**''
     [empty_hash_with_prefix H ''MinaZkappActionsEmpty'', hash_with_prefix H ''MinaZkappEvent******'' fs]"

definition push_actions :: "crypto \<Rightarrow> fp \<Rightarrow> fp \<Rightarrow> fp" where
  "push_actions H s l = hash_with_prefix H ''MinaZkappSeqEvents**'' [s, l]"

interpretation inner_actions: hash_chain "push_actions H" "hash_with_prefix H ''MinaZkappSeqEvents**''"
  "\<lambda>s l. [s, l]" "\<lambda>_. True" "\<lambda>_. True" for H
  by unfold_locales (simp_all add: push_actions_def)

definition fields_hash_of :: "crypto \<Rightarrow> inner_action_witness \<Rightarrow> bytes" where
  "fields_hash_of H a =
     keccak256 H (keccak_str H ''ZEKO_INNER_ACTION_FIELDS_V2'' @
       u32_word (word_of_nat (length (iw_fields a))) @ concat (iw_fields a))"

definition leaf_of :: "crypto \<Rightarrow> u64 \<Rightarrow> bytes \<Rightarrow> u32 \<Rightarrow> inner_action_witness \<Rightarrow> bytes" where
  "leaf_of H cid bridge index a =
     (case iw_withdrawal a of
        Some w \<Rightarrow> native_withdrawal_leaf H cid bridge index w (fields_hash_of H a)
      | None \<Rightarrow>
          (case iw_token_withdrawal a of
             Some w \<Rightarrow> keccak256 H (erc20_withdrawal_preimage H cid bridge index w (fields_hash_of H a))
           | None \<Rightarrow> raw_inner_action_leaf H cid bridge index (fields_hash_of H a)))"

text \<open>
  What a clear ERC-20 withdrawal must say: the parameter fields hash to the action's auxiliary
  field, start with the encoding version, registry index, record commitment and the two halves of
  the asset id, and end with amount, recipient and even parity.
\<close>

definition opens_native :: "crypto \<Rightarrow> inner_action_witness \<Rightarrow> native_withdrawal \<Rightarrow> bool" where
  "opens_native H a w \<longleftrightarrow> 0 < nw_amount w \<and> canonical (address_word (nw_recipient w)) \<and>
     fields_of a ! 1 = hash_with_prefix H ''Withdrawal_params - qFB3jXP*)''
       [0, fp_from_u64 (nw_amount w), from_be_bytes_mod_order (address_word (nw_recipient w)), 0]"

definition opens_erc20 :: "crypto \<Rightarrow> inner_action_witness \<Rightarrow> token_withdrawal \<Rightarrow> bool" where
  "opens_erc20 H a w \<longleftrightarrow>
     (let params = tw_params_fields w in
      tw_token w \<noteq> replicate 20 0 \<and> tw_asset_id w \<noteq> replicate 32 0 \<and> 0 < tw_amount w \<and>
      tw_record_commitment w \<noteq> replicate 32 0 \<and> tw_encoding_version w = 2 \<and>
      list_all canonical params \<and> 9 \<le> length params \<and>
      take 5 params = [u32_word 2, u32_word (tw_registry_index w), tw_record_commitment w,
        replicate 16 0 @ take 16 (tw_asset_id w), replicate 16 0 @ drop 16 (tw_asset_id w)] \<and>
      drop (length params - 3) params =
        [u64_word (tw_amount w), address_word (tw_recipient w), replicate 32 0] \<and>
      fields_of a ! 1 = hash_with_prefix H ''Ethereum ERC20 withdrawal V2''
        (map from_be_bytes_mod_order params))"

definition valid_inner_action :: "crypto \<Rightarrow> inner_action_witness \<Rightarrow> bool" where
  "valid_inner_action H a \<longleftrightarrow> length (iw_fields a) = 3 \<and> list_all canonical (iw_fields a) \<and>
     fields_of a ! 0 = 0 \<and>
     (iw_withdrawal a = None \<or> iw_token_withdrawal a = None) \<and>
     (\<forall>w. iw_withdrawal a = Some w \<longrightarrow> opens_native H a w) \<and>
     (\<forall>w. iw_token_withdrawal a = Some w \<longrightarrow> opens_erc20 H a w)"

lemma try_map_fields:
  "try_map field_from_bytes bs = Inr vs \<longleftrightarrow> list_all canonical bs \<and> vs = map from_be_bytes_mod_order bs"
  by (induction bs arbitrary: vs) (auto simp: res_simps field_from_bytes_canonical)

lemma field_from_address_canonical:
  "field_from_address a = Inr v \<longleftrightarrow> canonical (address_word a) \<and> v = from_be_bytes_mod_order (address_word a)"
  by (simp add: field_from_address_def field_from_bytes_canonical address_word_def)

lemma canonical_eq: "canonical b \<Longrightarrow> from_be_bytes_mod_order b = v \<longleftrightarrow> b = field_to_bytes v"
  by (auto simp: canonical_def from_be_bytes_mod_order_def)

lemma field_to_bytes_words:
  "field_to_bytes (fp_from_u32 a) = u32_word a" "field_to_bytes (fp_from_u64 b) = u64_word b"
  "field_to_bytes 0 = replicate 32 0"
proof -
  have "of_be (field_to_bytes (fp_from_u32 a)) = of_be (u32_word a)"
    "of_be (field_to_bytes (fp_from_u64 b)) = of_be (u64_word b)"
    using unat_less_pow [of a] unat_less_pow [of b]
    by (simp_all add: u32_word_def u64_word_def of_be_append u32_to_be_def u64_to_be_def of_be_be_bytes)
  then show "field_to_bytes (fp_from_u32 a) = u32_word a" "field_to_bytes (fp_from_u64 b) = u64_word b"
    by (simp_all only: of_be_inject length_field_to_bytes length_words)
  show "field_to_bytes 0 = replicate 32 0" by (simp add: field_to_bytes_eq)
qed

lemma take5: "5 \<le> length xs \<Longrightarrow> take 5 xs = [xs ! 0, xs ! 1, xs ! 2, xs ! 3, xs ! 4]"
  by (auto simp: eval_nat_numeral Suc_le_length_iff)

lemma drop3:
  assumes "4 \<le> length xs"
  defines "base \<equiv> length xs - 4"
  shows "drop (length xs - 3) xs = [xs ! (base + 1), xs ! (base + 2), xs ! (base + 3)]"
proof -
  have len: "length xs = base + 4" using assms(1) by (simp add: base_def)
  show ?thesis
    by (rule nth_equalityI) (auto simp: len less_Suc_eq eval_nat_numeral)
qed

lemma assert_erc20_Inr: "assert_erc20_withdrawal_preimage H (fields_of a) w = Inr () \<longleftrightarrow> opens_erc20 H a w"
proof (cases "list_all canonical (tw_params_fields w) \<and> 9 \<le> length (tw_params_fields w)")
  case True
  let ?ps = "tw_params_fields w"
  have can: "canonical (?ps ! i)" if "i < length ?ps" for i
    using that True by (simp add: list_all_length)
  have num: "map from_be_bytes_mod_order ?ps ! i = v \<longleftrightarrow> ?ps ! i = field_to_bytes v" if "i < length ?ps" for i v
    using that can by (simp add: canonical_eq)
  have inv: "field_to_bytes (map from_be_bytes_mod_order ?ps ! i) = ?ps ! i" if "i < length ?ps" for i
    using that can [OF that] by (simp add: canonical_def)
  have ex: "(\<exists>x. b = field_to_bytes x \<and> ?ps ! i = field_to_bytes x \<and> R) \<longleftrightarrow> ?ps ! i = b \<and> R"
    if "i < length ?ps" for i b R
    using inv [OF that] by metis
  have bounds: "Suc (length ?ps - 4) < length ?ps" "Suc (Suc (length ?ps - 4)) < length ?ps"
    "length ?ps - Suc 0 < length ?ps" "?ps \<noteq> []"
    using True by (linarith, linarith, linarith, auto)
  have ps: "try_map field_from_bytes ?ps = Inr (map from_be_bytes_mod_order ?ps)"
    using True by (simp add: try_map_fields)
  show ?thesis
    using True unfolding opens_erc20_def
    by (simp add: assert_erc20_withdrawal_preimage_def res_simps Let_def ps num inv ex bounds
        field_from_bytes_Inr field_from_address_def ERC20_ACTION_ENCODING_V2_def
        take5 drop3 field_to_bytes_words address_word_def del: nth_map)
      blast
qed (auto simp: assert_erc20_withdrawal_preimage_def opens_erc20_def res_simps try_map_fields Let_def)

lemma inner_action_leaf_Inr:
  "inner_action_leaf H v bridge index a (fields_of a) (fields_hash_of H a) = Inr l \<longleftrightarrow>
     (iw_withdrawal a = None \<or> iw_token_withdrawal a = None) \<and>
     (\<forall>w. iw_withdrawal a = Some w \<longrightarrow> opens_native H a w) \<and>
     (\<forall>w. iw_token_withdrawal a = Some w \<longrightarrow> opens_erc20 H a w) \<and>
     l = leaf_of H (pv_chain_id v) bridge index a"
  by (auto simp: inner_action_leaf_def leaf_of_def opens_native_def res_simps assert_erc20_Inr
      assert_native_withdrawal_preimage_def field_from_address_canonical erc20_withdrawal_leaf_def
      Let_def opens_erc20_def ERC20_ACTION_ENCODING_V2_def split: option.splits)

fun leaves_of :: "crypto \<Rightarrow> u64 \<Rightarrow> bytes \<Rightarrow> nat \<Rightarrow> inner_action_witness list \<Rightarrow> bytes list" where
  "leaves_of H cid bridge i [] = []"
| "leaves_of H cid bridge i (a # as) =
     leaf_of H cid bridge (word_of_nat i) a # leaves_of H cid bridge (Suc i) as"

definition replayed :: "crypto \<Rightarrow> fp \<Rightarrow> inner_action_witness list \<Rightarrow> fp" where
  "replayed H s as = chain (push_actions H) s (map (\<lambda>a. action_list_hash H (fields_of a)) as)"

lemma replay_loop_Inr:
  assumes "unat start + off + length as < 2 ^ 32"
  shows "replay_loop H v bridge start off as s = Inr (t, ls) \<longleftrightarrow>
    list_all (valid_inner_action H) as \<and> t = replayed H s as \<and>
    ls = leaves_of H (pv_chain_id v) bridge (unat start + off) as"
  using assms
proof (induction as arbitrary: off s ls)
  case (Cons a as)
  have idx: "checked_add start (word_of_nat off) = Some (word_of_nat (unat start + off))"
    using Cons.prems by (simp add: checked_add_Some unat_of_nat take_bit_nat_eq_self del: of_nat_add)
  have fh: "length (iw_fields a) = 3 \<Longrightarrow> action_fields_hash H (iw_fields a) = Inr (fields_hash_of H a)"
    by (simp add: action_fields_hash_def fields_hash_of_def)
  show ?case
    using Cons.IH [of "Suc off"] Cons.prems
    by (auto simp: res_simps idx fh try_map_fields INNER_ACTION_FIELDS_def Let_def valid_inner_action_def
        inner_action_leaf_Inr replayed_def push_actions_def action_list_hash_def expect_def
        simp flip: fields_of_def simp del: of_nat_add)
qed (auto simp: replayed_def)

definition v2_accepts :: "crypto \<Rightarrow> spv1 \<Rightarrow> inner_action_batch_witness \<Rightarrow> bool" where
  "v2_accepts H v b \<longleftrightarrow>
     (let before = pv_state_before v; after = pv_state_after v in
      length (ib_actions b) \<le> 65536 \<and>
      canonical (inner_action_state before) \<and>
      list_all (valid_inner_action H) (ib_actions b) \<and>
      inner_action_state after =
        field_to_bytes (replayed H (from_be_bytes_mod_order (inner_action_state before)) (ib_actions b)) \<and>
      of_be (inner_action_state_length after) =
        of_be (inner_action_state_length before) + length (ib_actions b) \<and>
      of_be (inner_action_state_length after) < 2 ^ 32)"

definition v2_output :: "crypto \<Rightarrow> spv1 \<Rightarrow> inner_action_batch_witness \<Rightarrow> spv2" where
  "v2_output H v b =
     (let start = of_be (inner_action_state_length (pv_state_before v));
          leaves = leaves_of H (pv_chain_id v) (ib_bridge_address b) start (ib_actions b)
      in \<lparr>pv2_settlement = v,
          pv2_bridge_address = ib_bridge_address b,
          pv2_inner_action_root = perfect_root (hash_node H) 16
            (leaves @ replicate (65536 - length leaves) (replicate 32 0)),
          pv2_inner_action_start_index = word_of_nat start,
          pv2_inner_action_count = word_of_nat (length (ib_actions b))\<rparr>)"

lemma length_leaves_of [simp]: "length (leaves_of H cid bridge i as) = length as"
  by (induction as arbitrary: i) simp_all

lemma field_bytes_to_u32_Inr:
  assumes "length bs = 32"
  shows "field_bytes_to_u32 bs = Inr w \<longleftrightarrow> of_be bs < 2 ^ 32 \<and> unat w = of_be bs"
proof -
  have "field_bytes_to_u32 bs = Inr w \<longleftrightarrow> of_be bs < 2 ^ 32 \<and> u32_from_be (drop 28 bs) = w"
    using assms by (simp add: field_bytes_to_u32_def ensure_Inr take28_zero_iff)
  also have "\<dots> \<longleftrightarrow> of_be bs < 2 ^ 32 \<and> unat w = of_be bs"
    using assms by (auto simp: word_unat_eq_iff unat_uN_from_be of_be_drop28)
  finally show ?thesis .
qed

lemma wf_outer_lengths:
  "wf_outer_state s \<Longrightarrow> length (inner_action_state s) = 32"
  "wf_outer_state s \<Longrightarrow> length (inner_action_state_length s) = 32"
  by (simp_all add: wf_outer_state_def inner_action_state_def inner_action_state_length_def list_all_length)

lemma derive_v2_receipt_Inr:
  assumes "wf_spv1 v"
  shows "derive_v2_receipt H v b = Inr out \<longleftrightarrow> v2_accepts H v b \<and> out = v2_output H v b"
proof -
  let ?before = "pv_state_before v" and ?after = "pv_state_after v" and ?n = "length (ib_actions b)"
  let ?s = "of_be (inner_action_state_length ?before)" and ?e = "of_be (inner_action_state_length ?after)"
  have len: "length (inner_action_state_length ?before) = 32" "length (inner_action_state_length ?after) = 32"
    using assms by (simp_all add: wf_spv1_def wf_outer_lengths)
  show ?thesis
  proof (cases "?n \<le> 65536 \<and> ?e = ?s + ?n \<and> ?e < 2 ^ 32")
    case True
    then have n: "?n \<le> 65536" "?e = ?s + ?n" "?s + ?n < 2 ^ 32" by auto
    let ?start = "word_of_nat ?s :: u32"
    have start: "unat ?start = ?s" "unat (word_of_nat ?n :: u32) = ?n" "unat (word_of_nat ?e :: u32) = ?e"
      using n by (simp_all add: unat_of_nat take_bit_nat_eq_self del: of_nat_add)
    have u32: "field_bytes_to_u32 (inner_action_state_length ?before) = Inr ?start"
      "field_bytes_to_u32 (inner_action_state_length ?after) = Inr (word_of_nat ?e)"
      using n start by (simp_all add: field_bytes_to_u32_Inr len del: of_nat_add)
    have sub: "checked_sub (word_of_nat (?s + ?n)) ?start = Some (word_of_nat ?n)"
      using start by (simp add: checked_sub_Some n(2) del: of_nat_add)
    have loop: "replay_loop H v (ib_bridge_address b) ?start 0 (ib_actions b) s = Inr (t, ls) \<longleftrightarrow>
        list_all (valid_inner_action H) (ib_actions b) \<and> t = replayed H s (ib_actions b) \<and>
        ls = leaves_of H (pv_chain_id v) (ib_bridge_address b) ?s (ib_actions b)" for s t ls
      using replay_loop_Inr [of ?start 0 "ib_actions b" H v "ib_bridge_address b" s t ls] n start by simp
    show ?thesis
      using n
      by (auto simp: derive_v2_receipt_def res_simps Let_def u32 sub loop field_from_bytes_canonical
          root_is_perfect_root v2_accepts_def v2_output_def TREE_DEPTH_def canonical_def
          from_be_bytes_mod_order_def simp del: of_nat_add)
  next
    case False
    then have "\<not> v2_accepts H v b" by (auto simp: v2_accepts_def Let_def)
    moreover have "derive_v2_receipt H v b \<noteq> Inr out"
    proof
      assume "derive_v2_receipt H v b = Inr out"
      then obtain s e :: u32 where "?n \<le> 65536" "unat s = ?s" "unat e = ?e" "?e < 2 ^ 32"
        "checked_sub e s = Some (word_of_nat ?n)"
        by (auto simp: derive_v2_receipt_def res_simps Let_def field_bytes_to_u32_Inr len)
      then show False using False
        by (auto simp: checked_sub_Some unat_of_nat take_bit_nat_eq_self)
    qed
    ultimately show ?thesis by blast
  qed
qed

subsection \<open>The replayed state binds the actions\<close>

definition replay_inputs :: "crypto \<Rightarrow> fp \<Rightarrow> inner_action_witness list \<Rightarrow> fp list set" where
  "replay_inputs H s as =
     set (chain_inputs (push_actions H) (\<lambda>s l. [s, l]) s (map (\<lambda>a. action_list_hash H (fields_of a)) as)) \<union>
     (\<lambda>a. [empty_hash_with_prefix H ''MinaZkappActionsEmpty'',
       hash_with_prefix H ''MinaZkappEvent******'' (fields_of a)]) ` set as"

lemma fields_of_inject:
  assumes "valid_inner_action H a" "valid_inner_action H b" "fields_of a = fields_of b"
  shows "iw_fields a = iw_fields b"
proof -
  have "map field_to_bytes (fields_of x) = iw_fields x" if "valid_inner_action H x" for x
    using that by (auto simp: valid_inner_action_def fields_of_def list_all_iff canonical_def intro!: map_idI)
  from this [OF assms(1)] this [OF assms(2)] assms(3) show ?thesis by metis
qed

lemma replayed_determines:
  assumes "length as = length bs" "replayed H s as = replayed H s bs"
    and seq: "inj_on (hash_with_prefix H ''MinaZkappSeqEvents**'') (replay_inputs H s as \<union> replay_inputs H s bs)"
    and ev: "inj_on (hash_with_prefix H ''MinaZkappEvent******'') (fields_of ` set as \<union> fields_of ` set bs)"
    and valid: "list_all (valid_inner_action H) as" "list_all (valid_inner_action H) bs"
  shows "map iw_fields as = map iw_fields bs"
proof -
  let ?l = "\<lambda>a. action_list_hash H (fields_of a)"
  have "map ?l as = map ?l bs"
    using assms(1,2) inj_on_subset [OF seq]
    by (intro inner_actions.chain_determines [where H = H, THEN conjunct2])
      (auto simp: replayed_def replay_inputs_def list_all_iff)
  then have hashes: "?l (as ! i) = ?l (bs ! i)" if "i < length as" for i
    using that assms(1) by (metis nth_map)
  have "iw_fields (as ! i) = iw_fields (bs ! i)" if i: "i < length as" for i
  proof -
    have mem: "as ! i \<in> set as" "bs ! i \<in> set bs" using i assms(1) by simp_all
    have "[empty_hash_with_prefix H ''MinaZkappActionsEmpty'', hash_with_prefix H ''MinaZkappEvent******'' (fields_of (as ! i))] =
      [empty_hash_with_prefix H ''MinaZkappActionsEmpty'', hash_with_prefix H ''MinaZkappEvent******'' (fields_of (bs ! i))]"
      using hashes [OF i] mem by (intro inj_onD [OF seq]) (auto simp: action_list_hash_def replay_inputs_def)
    then have "fields_of (as ! i) = fields_of (bs ! i)"
      using mem by (intro inj_onD [OF ev]) auto
    then show ?thesis using valid mem by (auto simp: list_all_iff intro: fields_of_inject)
  qed
  then show ?thesis using assms(1) by (auto intro: nth_equalityI)
qed

subsection \<open>Properties\<close>

text \<open>
  \<open>derive_v2_receipt\<close> is exact.  It succeeds precisely when the batch is within capacity, the
  committed 32-bit lengths differ by the number of actions, every action is well formed and every
  clear withdrawal opens the action it is attached to (amount positive, recipient and, for an
  ERC-20, version, registry index, record commitment, asset and parameters as the action's
  auxiliary hash commits them), and replaying the actions from the old action state gives the new
  one.  The receipt then holds the reference root over the leaves at consecutive global indices.
\<close>

lemma v2_receipt_exact:
  assumes "wf_spv1 v"
  shows "derive_v2_receipt H v b = Inr out \<longleftrightarrow> v2_accepts H v b \<and> out = v2_output H v b"
  using assms by (rule derive_v2_receipt_Inr)

definition sample_withdrawal :: inner_action_witness where
  "sample_withdrawal = \<lparr>iw_fields = [small_bytes 0, small_bytes 1, small_bytes 0],
     iw_withdrawal = Some \<lparr>nw_recipient = replicate 20 9, nw_amount = 4\<rparr>, iw_token_withdrawal = None\<rparr>"

definition sample_v1 :: spv1 where
  "sample_v1 = sample_spv1
     \<lparr>pv_state_before := \<lparr>os_fields = map small_bytes [0, 0, 1, 5, 7, 0, 0, 0]\<rparr>,
      pv_state_after := \<lparr>os_fields = map small_bytes [0, 0, 2, 3, 8, 0, 0, 0]\<rparr>\<rparr>"

definition sample_inner_batch :: inner_action_batch_witness where
  "sample_inner_batch = \<lparr>ib_bridge_address = replicate 20 7, ib_actions = [sample_withdrawal]\<rparr>"

lemma small_bytes_canonical [simp]: "canonical (small_bytes n)"
  using small_bytes_field [of n] unfolding field_from_bytes_canonical by blast

lemma small_bytes_value: "from_be_bytes_mod_order (small_bytes n) = fp_from_u8 n"
  by (simp add: from_be_bytes_mod_order_def fp_from_u8_def)

lemma fp_from_u8_numerals:
  "fp_from_u8 0 = 0" "fp_from_u8 1 = 1" "fp_from_u8 (numeral n) = fp_of_nat (unat (numeral n :: u8))"
  by (simp_all add: fp_from_u8_def) (simp add: fp_eq_iff fp_modulus_def)

lemma ladder_three: "hash_with_prefix ladder_crypto p [a, b, c] = 1"
  by (simp add: hash_with_prefix_def poseidon_update_def ladder_crypto_def)

lemma ladder_four: "hash_with_prefix ladder_crypto p [a, b, c, d] = d + 1"
  by (simp add: hash_with_prefix_def poseidon_update_def ladder_crypto_def)

lemma address_canonical: "length a = 20 \<Longrightarrow> canonical (address_word a)"
  using of_be_less [of a]
  by (auto simp: canonical_def from_be_bytes_mod_order_def address_word_def of_be_append field_to_bytes_eq
      fp_modulus_def intro!: be_bytes_of_be [of "replicate 12 0 @ a" 32, simplified of_be_append, simplified])

lemma sample_v2_accepts:
  "wf_spv1 sample_v1" "v2_accepts ladder_crypto sample_v1 sample_inner_batch"
proof -
  show "wf_spv1 sample_v1"
    using wf_sample_spv1 by (simp add: sample_v1_def wf_spv1_def wf_outer_state_def)
  have fs: "fields_of sample_withdrawal = [0, 1, 0]"
    by (simp add: fields_of_def sample_withdrawal_def small_bytes_value fp_from_u8_numerals)
  have "opens_native ladder_crypto sample_withdrawal \<lparr>nw_recipient = replicate 20 9, nw_amount = 4\<rparr>"
    by (simp add: opens_native_def fs ladder_four address_canonical)
  then have valid: "valid_inner_action ladder_crypto sample_withdrawal"
    by (simp add: valid_inner_action_def fs) (simp add: sample_withdrawal_def)
  have "replayed ladder_crypto x [sample_withdrawal] = 3" for x
    by (simp add: replayed_def fs push_actions_def action_list_hash_def ladder_node ladder_three)
  moreover have "field_to_bytes 3 = small_bytes 3"
    using small_bytes_canonical [of 3] unfolding canonical_def small_bytes_value fp_from_u8_numerals
    by (simp add: fp_of_nat_numeral)
  ultimately show "v2_accepts ladder_crypto sample_v1 sample_inner_batch"
    using valid by (simp add: v2_accepts_def sample_v1_def sample_inner_batch_def inner_action_state_def
        inner_action_state_length_def)
qed

text \<open>
  The proof-bound action states leave the host no choice of actions.  If two batches are
  accepted for the same settlement, they have the same actions, field by field and in order (only
  the clear withdrawals attached to them may differ), unless Poseidon collides on the inputs of
  the two replays.
\<close>

lemma inner_actions_unique:
  assumes "wf_spv1 v" "derive_v2_receipt H v b = Inr out" "derive_v2_receipt H v c = Inr out'"
    and "inj_on (hash_with_prefix H ''MinaZkappSeqEvents**'')
      (replay_inputs H (from_be_bytes_mod_order (inner_action_state (pv_state_before v))) (ib_actions b) \<union>
       replay_inputs H (from_be_bytes_mod_order (inner_action_state (pv_state_before v))) (ib_actions c))"
    and "inj_on (hash_with_prefix H ''MinaZkappEvent******'')
      (fields_of ` set (ib_actions b) \<union> fields_of ` set (ib_actions c))"
  shows "map iw_fields (ib_actions b) = map iw_fields (ib_actions c) \<and>
    pv2_inner_action_start_index out = pv2_inner_action_start_index out' \<and>
    pv2_inner_action_count out = pv2_inner_action_count out'"
proof -
  have b: "v2_accepts H v b" "out = v2_output H v b" and c: "v2_accepts H v c" "out' = v2_output H v c"
    using assms(1-3) by (simp_all add: derive_v2_receipt_Inr)
  then have len: "length (ib_actions b) = length (ib_actions c)"
    by (auto simp: v2_accepts_def Let_def)
  moreover have "map iw_fields (ib_actions b) = map iw_fields (ib_actions c)"
    using b c len assms(4,5) by (intro replayed_determines) (auto simp: v2_accepts_def Let_def)
  ultimately show ?thesis by (simp add: b c v2_output_def Let_def)
qed

end
