(* ===== verification/Chain_Tables.thy ===== *)
theory Chain_Tables
  imports Worker Inner_Action_Replay
begin

text \<open>
  The tables that the indexer of \<open>api/src/indexer.rs\<close> keeps beside the jobs: Ethereum blocks, bridge deposits,
  explorer events, the virtual Mina accounts with their history, published actions and inner-action
  leaves; and \<open>rollback_after\<close>, the transaction that takes all of them back to a common ancestor after a
  chain reorganisation.

  Block numbers are BIGINT columns (\<open>int\<close>), and a conversion from \<open>u64\<close> that does not fit is an error.
  Hexadecimal columns hold the bytes.
\<close>

subsection \<open>Rows\<close>

definition bigint :: "u64 \<Rightarrow> failure + int" where
  "bigint n = expect (i64_of_u64 n) (plain_failure ''out of range integral type conversion attempted'')"

record block_ref =
  br_number :: u64
  br_hash :: bytes
  br_parent_hash :: bytes

record block_row =
  bw_hash :: bytes
  bw_parent_hash :: bytes
  bw_canonical :: bool
  bw_finalized :: bool

type_synonym block_table = "(int \<times> block_row) list"

datatype erc20_deposit_identity =
    Historical_V1 bytes
  | Registry_V2 bytes u32 bytes

record bridge_deposit_log =
  dl_nonce :: u64
  dl_deposit_leaf :: bytes
  dl_old_deposit_state :: bytes
  dl_new_deposit_state :: bytes
  dl_token :: bytes
  dl_sender :: bytes
  dl_zeko_recipient :: bytes
  dl_amount :: nat
  dl_zeko_amount :: nat
  dl_timeout :: u64
  dl_erc20_identity :: "erc20_deposit_identity option"
  dl_block_number :: u64
  dl_block_hash :: bytes
  dl_transaction_hash :: bytes
  dl_log_index :: u64

record deposit_row =
  dp_log :: bridge_deposit_log
  dp_removed :: bool
  dp_bridge_job_id :: "uuid option"
  dp_outer_action_sequence :: "int option"
  dp_outer_action_state_after :: "string option"
  dp_synchronized_job_id :: "uuid option"
  dp_synchronized_sequence :: "int option"

record bridge_transition_log =
  tl_old_action_state :: bytes
  tl_new_action_state :: bytes
  tl_new_deposit_state :: bytes
  tl_new_deposit_nonce :: u64
  tl_block_number :: u64
  tl_block_hash :: bytes
  tl_transaction_hash :: bytes
  tl_log_index :: u64

record transition_row =
  tr_log :: bridge_transition_log
  tr_removed :: bool

record settlement_accepted_log =
  sl_batch_sequence :: u64
  sl_mina_transaction_hash :: bytes
  sl_ledger_hash :: bytes
  sl_outer_action_state :: bytes
  sl_outer_action_state_length :: u32
  sl_inner_action_state :: bytes
  sl_inner_action_state_length :: u32
  sl_slot_lower :: u32
  sl_slot_upper :: u32
  sl_block_number :: u64
  sl_block_hash :: bytes
  sl_transaction_hash :: bytes
  sl_log_index :: u64

record inner_action_batch_log =
  bl_batch_sequence :: u64
  bl_state_after :: bytes
  bl_root :: bytes
  bl_start_index :: u32
  bl_count :: u32
  bl_claimable_slot :: u32
  bl_transaction_hash :: bytes

record settlement_row =
  se_log :: settlement_accepted_log
  se_batch :: "inner_action_batch_log option"
  se_removed :: bool

record withdrawal_claimed_log =
  wl_settlement_sequence :: u64
  wl_global_action_index :: u32
  wl_recipient :: bytes
  wl_zeko_amount :: u64
  wl_ethereum_amount :: nat
  wl_action_fields_hash :: bytes
  wl_block_number :: u64
  wl_block_hash :: bytes
  wl_transaction_hash :: bytes
  wl_log_index :: u64

record claim_row_data =
  wc_log :: withdrawal_claimed_log
  wc_removed :: bool

text \<open>
  A virtual Mina account: the members of its JSON object that the gateway reads or writes, and the rest
  of the object.  A field element is a decimal string.
\<close>

record account_json =
  aj_zkapp_state :: "string list option"
  aj_action_state :: "string list option"
  aj_nonce :: "string option"
  aj_proved_state :: "bool option"
  aj_rest :: string

record account_row =
  ar_account :: account_json
  ar_block :: "(int \<times> bytes) option"

record history_row =
  hs_job_id :: uuid
  hs_public_key :: string
  hs_account_before :: account_json
  hs_block_number :: int

record action_row =
  ac_address :: string
  ac_sequence :: int
  ac_state_before :: string
  ac_state_after :: string
  ac_data :: "string list list"
  ac_block_number :: int
  ac_transaction_hash :: bytes
  ac_log_index :: int
  ac_removed :: bool

record leaf_row =
  lr_settlement_sequence :: int
  lr_action_offset :: int
  lr_global_action_index :: u32
  lr_action :: inner_action_witness
  lr_action_fields_hash :: bytes
  lr_leaf :: bytes
  lr_inner_action_root :: bytes
  lr_commit_slot_upper :: u32
  lr_block_number :: int
  lr_transaction_hash :: bytes
  lr_removed :: bool

text \<open>The whole database; \<open>gateway\<close> holds the jobs, the pending commands and the outer writer.\<close>

record chain_db =
  cd_gateway :: gateway
  cd_outer_public_key :: "string option"
  cd_head :: "(int \<times> bytes) option"
  cd_blocks :: block_table
  cd_accounts :: "(string \<times> account_row) list"
  cd_history :: "history_row list"
  cd_actions :: "action_row list"
  cd_deposits :: "(int \<times> deposit_row) list"
  cd_leaves :: "leaf_row list"
  cd_settlements :: "settlement_row list"
  cd_transitions :: "transition_row list"
  cd_claims :: "claim_row_data list"
  cd_explorer_last :: "int option"

subsection \<open>Rollback of the chain data\<close>

definition mark_removed ::
  "('a \<Rightarrow> int) \<Rightarrow> ('a \<Rightarrow> bool) \<Rightarrow> ('a \<Rightarrow> 'a) \<Rightarrow> int \<Rightarrow> 'a list \<Rightarrow> 'a list" where
  "mark_removed block removed remove ancestor =
     map (\<lambda>r. if \<not> removed r \<and> ancestor < block r then remove r else r)"

definition rollback_blocks :: "int \<Rightarrow> block_table \<Rightarrow> block_table" where
  "rollback_blocks ancestor t =
     fst (update_where (\<lambda>n b. bw_canonical b \<and> ancestor < n) (\<lambda>b. b\<lparr>bw_canonical := False, bw_finalized := False\<rparr>) t)"

text \<open>
  The histories above the ancestor are undone from the newest to the oldest: by block, and within a
  block by creation.  The table is in order of creation, and the sort is stable.
\<close>

definition restore_account :: "history_row \<Rightarrow> (string \<times> account_row) list \<Rightarrow> (string \<times> account_row) list" where
  "restore_account h t =
     fst (update_where (\<lambda>k _. k = hs_public_key h) (\<lambda>_. \<lparr>ar_account = hs_account_before h, ar_block = None\<rparr>) t)"

definition orphaned_histories :: "int \<Rightarrow> history_row list \<Rightarrow> history_row list" where
  "orphaned_histories ancestor hs =
     sort_key (\<lambda>h. - hs_block_number h) (rev (filter (\<lambda>h. ancestor < hs_block_number h) hs))"

definition restore_accounts ::
  "int \<Rightarrow> history_row list \<Rightarrow> (string \<times> account_row) list \<Rightarrow> (string \<times> account_row) list" where
  "restore_accounts ancestor hs t = fold restore_account (orphaned_histories ancestor hs) t"

text \<open>A job whose submission was in a block above the ancestor.\<close>

definition orphaned :: "int \<Rightarrow> job \<Rightarrow> bool" where
  "orphaned ancestor j \<longleftrightarrow> (case jb_submitted_block_number j of None \<Rightarrow> False | Some n \<Rightarrow> ancestor < n)"

definition job_orphaned :: "int \<Rightarrow> job_table \<Rightarrow> uuid option \<Rightarrow> bool" where
  "job_orphaned ancestor t i \<longleftrightarrow>
     (case Option.bind i (map_of t) of None \<Rightarrow> False | Some j \<Rightarrow> orphaned ancestor j)"

definition rollback_deposit :: "int \<Rightarrow> job_table \<Rightarrow> deposit_row \<Rightarrow> deposit_row" where
  "rollback_deposit ancestor jobs d =
     (let d = (if \<not> dp_removed d \<and> ancestor < uint (dl_block_number (dp_log d)) then d\<lparr>dp_removed := True\<rparr> else d);
          d = (if job_orphaned ancestor jobs (dp_synchronized_job_id d)
               then d\<lparr>dp_synchronized_job_id := None, dp_synchronized_sequence := None\<rparr> else d)
      in if job_orphaned ancestor jobs (dp_bridge_job_id d)
         then d\<lparr>dp_bridge_job_id := None, dp_outer_action_sequence := None, dp_outer_action_state_after := None,
                dp_synchronized_job_id := None, dp_synchronized_sequence := None\<rparr>
         else d)"

definition rollback_data :: "int \<Rightarrow> chain_db \<Rightarrow> chain_db" where
  "rollback_data ancestor db = db
     \<lparr>cd_accounts := restore_accounts ancestor (cd_history db) (cd_accounts db),
      cd_history := filter (\<lambda>h. \<not> ancestor < hs_block_number h) (cd_history db),
      cd_blocks := rollback_blocks ancestor (cd_blocks db),
      cd_actions := mark_removed ac_block_number ac_removed (\<lambda>r. r\<lparr>ac_removed := True\<rparr>) ancestor (cd_actions db),
      cd_deposits := map (\<lambda>(n, d). (n, rollback_deposit ancestor (gw_jobs (cd_gateway db)) d)) (cd_deposits db),
      cd_leaves := mark_removed lr_block_number lr_removed (\<lambda>r. r\<lparr>lr_removed := True\<rparr>) ancestor (cd_leaves db),
      cd_settlements := mark_removed (\<lambda>r. uint (sl_block_number (se_log r))) se_removed
        (\<lambda>r. r\<lparr>se_removed := True\<rparr>) ancestor (cd_settlements db),
      cd_transitions := mark_removed (\<lambda>r. uint (tl_block_number (tr_log r))) tr_removed
        (\<lambda>r. r\<lparr>tr_removed := True\<rparr>) ancestor (cd_transitions db),
      cd_claims := mark_removed (\<lambda>r. uint (wl_block_number (wc_log r))) wc_removed
        (\<lambda>r. r\<lparr>wc_removed := True\<rparr>) ancestor (cd_claims db),
      cd_explorer_last := map_option (\<lambda>n. min n ancestor) (cd_explorer_last db)\<rparr>"

subsection \<open>Rollback of the jobs\<close>

text \<open>The settlement that is submitted again: the first orphaned one, unless it was rebuilt from events.\<close>

definition retry_settlement :: "int \<Rightarrow> job_table \<Rightarrow> uuid option" where
  "retry_settlement ancestor t =
     (case sort_key (\<lambda>(i, j). case jb_submitted_block_number j of Some n \<Rightarrow> n | None \<Rightarrow> 0)
        (filter (\<lambda>(i, j). jb_kind j = Settlement \<and> \<not> ji_recovered (jb_input j) \<and> orphaned ancestor j \<and>
           jb_status j \<in> {Submitted, Confirmed}) t) of
        [] \<Rightarrow> None
      | (i, _) # _ \<Rightarrow> Some i)"

definition recovered_orphan :: "int \<Rightarrow> job \<Rightarrow> bool" where
  "recovered_orphan ancestor j \<longleftrightarrow> ji_recovered (jb_input j) \<and> orphaned ancestor j"

text \<open>A recovered job that a signed transaction, the writer or a pending command still refers to.\<close>

definition referenced :: "gateway \<Rightarrow> uuid \<Rightarrow> job \<Rightarrow> bool" where
  "referenced g i j \<longleftrightarrow> jb_prepared_transaction j \<noteq> None \<or> ow_job_id (gw_writer g) = Some i \<or>
     i \<in> set (gw_pending_commands g)"

definition orphan_recovered :: "int \<Rightarrow> gateway \<Rightarrow> job_table \<Rightarrow> job_table" where
  "orphan_recovered ancestor g t =
     fst (update_where (\<lambda>i j. recovered_orphan ancestor j \<and> referenced g i j)
       (\<lambda>j. j\<lparr>jb_status := Reorged,
              jb_error := Some ''Recovered Ethereum submission was orphaned; awaiting canonical reconciliation''\<rparr>) t)"

definition deleted_orphan :: "int \<Rightarrow> gateway \<Rightarrow> uuid \<times> job \<Rightarrow> bool" where
  "deleted_orphan ancestor g = (\<lambda>(i, j). recovered_orphan ancestor j \<and> \<not> referenced g i j)"

definition invalidate_settlements :: "uuid option \<Rightarrow> job_table \<Rightarrow> job_table" where
  "invalidate_settlements retry t =
     (case retry of None \<Rightarrow> t | Some r \<Rightarrow>
        fst (update_where (\<lambda>i j. jb_kind j = Settlement \<and> i \<noteq> r \<and>
             jb_status j \<in> {Queued, Validating, Awaiting_Approval, Approved, Proof_Requested, Proving,
               Submitting, Submitted, Confirmed})
          (\<lambda>j. j\<lparr>jb_status := Reorged,
                 jb_error := Some ''Settlement depends on state removed by an Ethereum reorganization''\<rparr>) t))"

definition requeue_orphans :: "int \<Rightarrow> uuid option \<Rightarrow> job_table \<Rightarrow> job_table" where
  "requeue_orphans ancestor retry t =
     fst (update_where (\<lambda>i j. orphaned ancestor j \<and> jb_status j \<in> {Submitted, Confirmed} \<and>
          (jb_kind j \<noteq> Settlement \<or> retry = Some i))
       (\<lambda>j. j\<lparr>jb_status := (if jb_approved j then Approved else Queued), jb_transaction_hash := None,
              jb_submitted_block_number := None, jb_submitted_block_hash := None,
              jb_error := Some ''Ethereum submission was removed by a chain reorganization''\<rparr>) t)"

text \<open>The unique indexes \<open>one_active_settlement\<close> and \<open>one_active_bridge_batch\<close>.\<close>

definition active_settlement :: "uuid \<times> job \<Rightarrow> bool" where
  "active_settlement = (\<lambda>(k, j). jb_kind j = Settlement \<and> active_status (jb_status j))"

definition unique_active :: "job_table \<Rightarrow> bool" where
  "unique_active t \<longleftrightarrow> length (filter active_bridge t) \<le> 1 \<and> length (filter active_settlement t) \<le> 1"

definition rollback_pending :: "uuid option \<Rightarrow> job_table \<Rightarrow> uuid list \<Rightarrow> uuid list" where
  "rollback_pending retry t pending =
     (let kept = filter (\<lambda>i. case map_of t i of None \<Rightarrow> True | Some j \<Rightarrow>
            \<not> (jb_status j = Reorged \<and> jb_transaction_hash j = None \<and> jb_prepared_transaction j = None)) pending
      in case Option.bind retry (map_of t) of
           None \<Rightarrow> kept
         | Some j \<Rightarrow> if ji_submission (jb_input j) \<noteq> None \<and> the retry \<notin> set kept then kept @ [the retry] else kept)"

definition rollback_after :: "u64 \<Rightarrow> chain_db \<Rightarrow> failure + chain_db" where
  "rollback_after ancestor db =
     and_then (bigint ancestor) (\<lambda>a.
     let g = cd_gateway db;
         retry = retry_settlement a (gw_jobs g);
         db = rollback_data a db;
         jobs = orphan_recovered a g (gw_jobs g);
         gone = filter (deleted_orphan a g) jobs;
         jobs = invalidate_settlements retry (filter (\<lambda>r. \<not> deleted_orphan a g r) jobs);
         jobs = requeue_orphans a retry jobs
     in ensure (unique_active jobs) (plain_failure ''duplicate key value violates unique constraint'')
          (Inr (db\<lparr>cd_history := filter (\<lambda>h. hs_job_id h \<notin> fst ` set gone) (cd_history db),
             cd_gateway := g\<lparr>gw_recovery_ready := False, gw_jobs := jobs,
               gw_pending_commands := rollback_pending retry jobs (gw_pending_commands g)\<rparr>\<rparr>)))"

text \<open>\<open>rollback_canonical_chain\<close>: in finalized mode a block that was reported as finalized is never taken back.\<close>

definition rollback_canonical_chain :: "finality_mode \<Rightarrow> u64 \<Rightarrow> chain_db \<Rightarrow> failure + chain_db" where
  "rollback_canonical_chain mode ancestor db =
     and_then
       (if mode = Finalized
        then and_then (bigint ancestor) (\<lambda>a.
          ensure (\<not> list_ex (\<lambda>(n, b). bw_canonical b \<and> bw_finalized b \<and> a < n) (cd_blocks db))
            (plain_failure (''Ethereum canonical chain conflicts with a consensus-finalized checkpoint above block '' @
               show_nat (unat ancestor))) (Inr ()))
        else Inr ()) (\<lambda>_.
     rollback_after ancestor db)"

subsection \<open>What a rollback leaves\<close>

lemma mark_removed_clean:
  assumes "r \<in> set (mark_removed block removed remove a rows)" "\<And>r. removed (remove r)"
    and "\<And>r. block (remove r) = block r"
  shows "removed r \<or> block r \<le> a"
  using assms by (force simp: mark_removed_def)

lemma rollback_blocks_lookup:
  "map_of (rollback_blocks a t) n =
     map_option (\<lambda>b. if bw_canonical b \<and> a < n then b\<lparr>bw_canonical := False, bw_finalized := False\<rparr> else b) (map_of t n)"
  by (simp add: rollback_blocks_def update_where_map_of)

lemma rollback_blocks_keys [simp]: "map fst (rollback_blocks a t) = map fst t"
  by (simp add: rollback_blocks_def)

lemma update_where_cases:
  assumes "(k, v) \<in> set (fst (update_where p f t))"
  obtains (kept) "(k, v) \<in> set t" "\<not> p k v" | (changed) u where "(k, u) \<in> set t" "p k u" "v = f u"
  using assms unfolding update_where_in by (metis (full_types))

text \<open>The rows that a rollback leaves, with what happened to each.\<close>

definition rolled_back_jobs :: "int \<Rightarrow> gateway \<Rightarrow> job_table" where
  "rolled_back_jobs a g =
     requeue_orphans a (retry_settlement a (gw_jobs g)) (invalidate_settlements (retry_settlement a (gw_jobs g))
       (filter (\<lambda>r. \<not> deleted_orphan a g r) (orphan_recovered a g (gw_jobs g))))"

lemma rollback_after_Inr:
  "rollback_after n db = Inr db' \<longleftrightarrow> (\<exists>a. i64_of_u64 n = Some a \<and> unique_active (rolled_back_jobs a (cd_gateway db)) \<and>
     db' = (rollback_data a db)
       \<lparr>cd_history := filter (\<lambda>h. hs_job_id h \<notin> fst ` set (filter (deleted_orphan a (cd_gateway db))
            (orphan_recovered a (cd_gateway db) (gw_jobs (cd_gateway db))))) (cd_history (rollback_data a db)),
        cd_gateway := (cd_gateway db)\<lparr>gw_recovery_ready := False, gw_jobs := rolled_back_jobs a (cd_gateway db),
          gw_pending_commands := rollback_pending (retry_settlement a (gw_jobs (cd_gateway db)))
            (rolled_back_jobs a (cd_gateway db)) (gw_pending_commands (cd_gateway db))\<rparr>\<rparr>)"
  unfolding rollback_after_def bigint_def and_then_Inr expect_Inr Let_def ensure_Inr rolled_back_jobs_def by auto

lemma retry_settlement_None:
  assumes "retry_settlement a t = None" "(i, j) \<in> set t" "jb_kind j = Settlement" "orphaned a j"
    and "jb_status j \<in> {Submitted, Confirmed}"
  shows "ji_recovered (jb_input j)"
proof -
  have "filter (\<lambda>(i, j). jb_kind j = Settlement \<and> \<not> ji_recovered (jb_input j) \<and> orphaned a j \<and>
      jb_status j \<in> {Submitted, Confirmed}) t = []"
    using assms(1) unfolding retry_settlement_def
    by (metis (no_types, lifting) length_0_conv length_sort list.case_eq_if option.distinct(1) prod.case_eq_if)
  then show ?thesis using assms(2-5) by (auto simp: filter_empty_conv)
qed

lemma orphan_recovered_in:
  assumes "(i, j) \<in> set (filter (\<lambda>r. \<not> deleted_orphan a g r) (orphan_recovered a g t))"
  shows "\<exists>k. (i, k) \<in> set t \<and> (j = k \<and> \<not> recovered_orphan a k \<or> jb_status j = Reorged)"
proof -
  have "(i, j) \<in> set (orphan_recovered a g t)" "\<not> deleted_orphan a g (i, j)" using assms by auto
  then obtain k where k: "(i, k) \<in> set t" "j = k \<and> \<not> (recovered_orphan a k \<and> referenced g i k) \<or> jb_status j = Reorged"
    unfolding orphan_recovered_def update_where_in by (elim exE conjE) (auto split: if_split_asm)
  then show ?thesis using \<open>\<not> deleted_orphan a g (i, j)\<close> by (auto simp: deleted_orphan_def)
qed

lemma rolled_back_settled:
  assumes "(i, j) \<in> set (rolled_back_jobs a g)" "jb_status j \<in> {Submitted, Confirmed}"
  shows "\<not> orphaned a j"
proof
  assume o: "orphaned a j"
  let ?r = "retry_settlement a (gw_jobs g)"
  let ?t = "filter (\<lambda>r. \<not> deleted_orphan a g r) (orphan_recovered a g (gw_jobs g))"
  have j: "(i, j) \<in> set (invalidate_settlements ?r ?t)" "jb_kind j = Settlement" "?r \<noteq> Some i"
    using assms(1) o assms(2) unfolding rolled_back_jobs_def requeue_orphans_def
    by (cases rule: update_where_cases; auto simp: orphaned_def)+
  show False
  proof (cases ?r)
    case None
    then have "(i, j) \<in> set ?t" using j(1) by (simp add: invalidate_settlements_def)
    from orphan_recovered_in [OF this] obtain k where k: "(i, k) \<in> set (gw_jobs g)" "j = k" "\<not> recovered_orphan a k"
      using assms(2) by auto
    then show False using retry_settlement_None [OF None, of i j] j(2) o assms(2) by (auto simp: recovered_orphan_def)
  next
    case (Some r)
    with j(1) have "(i, j) \<in> set (fst (update_where (\<lambda>i j. jb_kind j = Settlement \<and> i \<noteq> r \<and>
             jb_status j \<in> {Queued, Validating, Awaiting_Approval, Approved, Proof_Requested, Proving,
               Submitting, Submitted, Confirmed})
          (\<lambda>j. j\<lparr>jb_status := Reorged,
                 jb_error := Some ''Settlement depends on state removed by an Ethereum reorganization''\<rparr>) ?t))"
      by (simp add: invalidate_settlements_def)
    then show False using j(2,3) assms(2) Some by (cases rule: update_where_cases) auto
  qed
qed

text \<open>
  C26: A rollback leaves nothing of the removed blocks.  Afterwards no block above the common ancestor is
  canonical, every event, action, deposit and leaf from above it is marked as removed, no account history from
  above it remains, no job counts as submitted or confirmed there, and job processing waits for recovery.
\<close>

theorem rollback_is_clean:
  assumes "rollback_after n db = Inr db'"
  shows "(\<forall>k b. map_of (cd_blocks db') k = Some b \<longrightarrow> bw_canonical b \<longrightarrow> k \<le> uint n) \<and>
    list_all (\<lambda>r. ac_removed r \<or> ac_block_number r \<le> uint n) (cd_actions db') \<and>
    list_all (\<lambda>(_, d). dp_removed d \<or> uint (dl_block_number (dp_log d)) \<le> uint n) (cd_deposits db') \<and>
    list_all (\<lambda>r. lr_removed r \<or> lr_block_number r \<le> uint n) (cd_leaves db') \<and>
    list_all (\<lambda>r. se_removed r \<or> uint (sl_block_number (se_log r)) \<le> uint n) (cd_settlements db') \<and>
    list_all (\<lambda>r. tr_removed r \<or> uint (tl_block_number (tr_log r)) \<le> uint n) (cd_transitions db') \<and>
    list_all (\<lambda>r. wc_removed r \<or> uint (wl_block_number (wc_log r)) \<le> uint n) (cd_claims db') \<and>
    list_all (\<lambda>h. hs_block_number h \<le> uint n) (cd_history db') \<and>
    list_all (\<lambda>(_, j). jb_status j \<in> {Submitted, Confirmed} \<longrightarrow> \<not> orphaned (uint n) j) (gw_jobs (cd_gateway db')) \<and>
    \<not> gw_recovery_ready (cd_gateway db')"
proof -
  obtain a where a: "a = uint n" and db': "cd_blocks db' = rollback_blocks a (cd_blocks db)"
    "cd_actions db' = cd_actions (rollback_data a db)" "cd_deposits db' = cd_deposits (rollback_data a db)"
    "cd_leaves db' = cd_leaves (rollback_data a db)" "cd_settlements db' = cd_settlements (rollback_data a db)"
    "cd_transitions db' = cd_transitions (rollback_data a db)" "cd_claims db' = cd_claims (rollback_data a db)"
    "set (cd_history db') \<subseteq> set (cd_history (rollback_data a db))"
    "gw_jobs (cd_gateway db') = rolled_back_jobs a (cd_gateway db)" "\<not> gw_recovery_ready (cd_gateway db')"
    using assms unfolding rollback_after_Inr by (auto simp: i64_of_u64_def rollback_data_def split: if_splits)
  have "dp_removed (rollback_deposit a t d) \<or> uint (dl_block_number (dp_log (rollback_deposit a t d))) \<le> a" for t d
    by (simp add: rollback_deposit_def Let_def)
  then have "list_all (\<lambda>(_, d). dp_removed d \<or> uint (dl_block_number (dp_log d)) \<le> a) (cd_deposits db')"
    unfolding db' by (auto simp: rollback_data_def list_all_iff)
  moreover have "\<forall>k b. map_of (cd_blocks db') k = Some b \<longrightarrow> bw_canonical b \<longrightarrow> k \<le> a"
  proof (intro allI impI)
    fix k b assume k: "map_of (cd_blocks db') k = Some b" "bw_canonical b"
    then obtain z where "b = (if bw_canonical z \<and> a < k then z\<lparr>bw_canonical := False, bw_finalized := False\<rparr> else z)"
      unfolding db' rollback_blocks_lookup by blast
    then show "k \<le> a" using k(2) by (cases "bw_canonical z \<and> a < k") auto
  qed
  moreover have "list_all (\<lambda>(_, j). jb_status j \<in> {Submitted, Confirmed} \<longrightarrow> \<not> orphaned a j) (gw_jobs (cd_gateway db'))"
    unfolding db' list_all_iff using rolled_back_settled by blast
  moreover have "list_all (\<lambda>h. hs_block_number h \<le> a) (cd_history db')"
    using db'(8) by (auto simp: list_all_iff rollback_data_def)
  ultimately show ?thesis
    using db'(10) unfolding a [symmetric] db'(2,4-7)
    by (simp add: list_all_iff rollback_data_def) (auto dest!: mark_removed_clean)
qed

text \<open>
  C36: Two confirmed bridge batches in removed blocks stop the indexer.  When a reorganisation removes the
  submissions of two bridge batches, requeueing both violates the index that admits one queued or active batch,
  so the rollback fails and the database keeps the removed blocks; every later attempt fails in the same way.
\<close>

theorem two_bridge_batches_block_rollback:
  assumes "i64_of_u64 n = Some a" "(i, j) \<in> set (gw_jobs (cd_gateway db))" "(k, l) \<in> set (gw_jobs (cd_gateway db))"
    and "i \<noteq> k" "jb_kind j = Bridge" "jb_kind l = Bridge" "jb_status j = Confirmed" "jb_status l = Confirmed"
    and "orphaned a j" "orphaned a l" "\<not> ji_recovered (jb_input j)" "\<not> ji_recovered (jb_input l)"
  shows "rollback_after n db = Inl (plain_failure ''duplicate key value violates unique constraint'')"
proof -
  let ?g = "cd_gateway db" and ?u = "\<lambda>j. j\<lparr>jb_status := (if jb_approved j then Approved else Queued),
    jb_transaction_hash := None, jb_submitted_block_number := None, jb_submitted_block_hash := None,
    jb_error := Some ''Ethereum submission was removed by a chain reorganization''\<rparr>"
  have kept: "(x, ?u y) \<in> set (rolled_back_jobs a ?g)"
    if "(x, y) \<in> set (gw_jobs ?g)" "jb_kind y = Bridge" "jb_status y = Confirmed" "orphaned a y"
      "\<not> ji_recovered (jb_input y)" for x y
  proof -
    have "(x, y) \<in> set (filter (\<lambda>r. \<not> deleted_orphan a ?g r) (orphan_recovered a ?g (gw_jobs ?g)))"
      using that unfolding orphan_recovered_def
      by (auto simp: update_where_in deleted_orphan_def recovered_orphan_def intro!: exI [of _ y])
    then have "(x, y) \<in> set (invalidate_settlements r (filter (\<lambda>r. \<not> deleted_orphan a ?g r) (orphan_recovered a ?g (gw_jobs ?g))))" for r
      using that(2) unfolding invalidate_settlements_def update_where_in
      by (cases r) (simp, simp only: option.case update_where_in, intro exI [of _ y], simp)
    then show ?thesis
      using that unfolding rolled_back_jobs_def requeue_orphans_def update_where_in by (intro exI [of _ y]) simp
  qed
  have "active_bridge (x, ?u y)" if "jb_kind y = Bridge" for x y
    using that by (simp add: active_bridge_def active_status_def)
  then have "{(i, ?u j), (k, ?u l)} \<subseteq> set (filter active_bridge (rolled_back_jobs a ?g))"
    using kept [OF assms(2,5,7,9,11)] kept [OF assms(3,6,8,10,12)] assms(5,6) by simp
  then have "card {(i, ?u j), (k, ?u l)} \<le> length (filter active_bridge (rolled_back_jobs a ?g))"
    by (meson List.finite_set card_length card_mono le_trans)
  then have "\<not> unique_active (rolled_back_jobs a ?g)" using assms(4) by (simp add: unique_active_def)
  then show ?thesis
    using assms(1) unfolding rollback_after_def bigint_def expect_def rolled_back_jobs_def by (simp add: Let_def)
qed

text \<open>Bridge batches confirmed in blocks 101 and 103, over blocks 100 to 103.\<close>

definition sample_batch :: "int \<Rightarrow> job" where
  "sample_batch n = (new_job Bridge (sample_input None) None ''d'')
     \<lparr>jb_status := Confirmed, jb_transaction_hash := Some ''0xh'', jb_submitted_block_number := Some n\<rparr>"

definition sample_db :: "job_table \<Rightarrow> chain_db" where
  "sample_db jobs =
     \<lparr>cd_gateway = sample_gateway\<lparr>gw_jobs := jobs\<rparr>, cd_outer_public_key = Some ''outer'', cd_head = None,
      cd_blocks = map (\<lambda>n. (n, \<lparr>bw_hash = [word_of_int n], bw_parent_hash = [word_of_int (n - 1)],
        bw_canonical = True, bw_finalized = False\<rparr>)) [100, 101, 102, 103],
      cd_accounts = [], cd_history = [], cd_actions = [], cd_deposits = [], cd_leaves = [], cd_settlements = [],
      cd_transitions = [], cd_claims = [], cd_explorer_last = Some 103\<rparr>"

theorem rollback_is_clean_witness:
  "\<exists>db. rollback_after 101 (sample_db [(5, sample_batch 101), (6, sample_batch 103)]) = Inr db \<and>
     list_all (\<lambda>(_, j). jb_status j \<in> {Submitted, Confirmed} \<longrightarrow> \<not> orphaned 101 j) (gw_jobs (cd_gateway db))"
proof -
  have "\<not> isl (rollback_after 101 (sample_db [(5, sample_batch 101), (6, sample_batch 103)]))" by code_simp
  then obtain db where "rollback_after 101 (sample_db [(5, sample_batch 101), (6, sample_batch 103)]) = Inr db"
    by (auto simp: isl_def split: sum.splits) (meson sum.exhaust)
  then show ?thesis using rollback_is_clean [of 101 "sample_db [(5, sample_batch 101), (6, sample_batch 103)]" db] by simp
qed

theorem two_bridge_batches_block_rollback_witness:
  "rollback_after 100 (sample_db [(5, sample_batch 101), (6, sample_batch 103)]) =
     Inl (plain_failure ''duplicate key value violates unique constraint'')"
proof (rule two_bridge_batches_block_rollback)
  show "i64_of_u64 100 = Some 100" by code_simp
  show "(5, sample_batch 101) \<in> set (gw_jobs (cd_gateway (sample_db [(5, sample_batch 101), (6, sample_batch 103)])))"
    "(6, sample_batch 103) \<in> set (gw_jobs (cd_gateway (sample_db [(5, sample_batch 101), (6, sample_batch 103)])))"
    by (simp_all add: sample_db_def)
qed (simp_all add: sample_batch_def new_job_def orphaned_def sample_input_def)

end
