(* ===== verification/Block_Index.thy ===== *)
theory Block_Index
  imports Chain_Tables
begin

text \<open>
  \<open>index_blocks\<close> of \<open>api/src/indexer.rs\<close>: how the indexer follows the Ethereum chain, detects a
  reorganisation, rolls back to the common ancestor and marks finalized blocks.

  The node is a parameter: \<open>nd_block N k n\<close> is its answer to the request for block \<open>n\<close> when it is the \<open>k\<close>th request, so
  the chain may change between any two requests.  Two loops follow the answers of the node and are
  partial functions; an operation returns \<open>None\<close> when it does not end.  An operation that fails keeps what was
  committed before, so the database is part of every result.
\<close>

subsection \<open>The node and the configuration\<close>

record node =
  nd_block :: "nat \<Rightarrow> u64 \<Rightarrow> failure + block_ref"
  nd_deposits :: "nat \<Rightarrow> block_ref \<Rightarrow> failure + bridge_deposit_log list"

record index_config =
  ic_start_block :: "u64 option"
  ic_finality_mode :: finality_mode
  ic_confirmations :: u64
  ic_fee_payer_public_key :: "string option"

type_synonym 'a outcome = "(failure + 'a) \<times> chain_db \<times> nat"

text \<open>What the node documents: block \<open>n\<close> has the number \<open>n\<close>.\<close>

definition honest :: "node \<Rightarrow> bool" where
  "honest N \<longleftrightarrow> (\<forall>k n b. nd_block N k n = Inr b \<longrightarrow> br_number b = n)"

subsection \<open>Blocks and deposits\<close>

definition canonical_hash :: "int \<Rightarrow> block_table \<Rightarrow> bytes option" where
  "canonical_hash n t =
     (case map_of t n of None \<Rightarrow> None | Some b \<Rightarrow> if bw_canonical b then Some (bw_hash b) else None)"

definition latest_canonical :: "block_table \<Rightarrow> (int \<times> bytes) option" where
  "latest_canonical t =
     (case map fst (filter (\<lambda>(_, b). bw_canonical b) t) of
        [] \<Rightarrow> None
      | n # ns \<Rightarrow> let m = fold max ns n in map_option (\<lambda>h. (m, h)) (canonical_hash m t))"

text \<open>\<open>ON CONFLICT \<dots> DO UPDATE\<close>: the row of the key is replaced, or added.\<close>

definition upsert :: "'k \<Rightarrow> 'v \<Rightarrow> ('k \<times> 'v) list \<Rightarrow> ('k \<times> 'v) list" where
  "upsert k v t = (if map_of t k = None then t @ [(k, v)] else map (\<lambda>(x, u). (x, if x = k then v else u)) t)"

definition insert_block :: "block_ref \<Rightarrow> block_table \<Rightarrow> failure + block_table" where
  "insert_block block t =
     and_then (bigint (br_number block)) (\<lambda>n.
     ensure (\<not> list_ex (\<lambda>(k, b). k \<noteq> n \<and> bw_hash b = br_hash block) t)
       (plain_failure ''duplicate key value violates unique constraint'')
       (Inr (upsert n \<lparr>bw_hash = br_hash block, bw_parent_hash = br_parent_hash block,
          bw_canonical = True, bw_finalized = False\<rparr> t)))"

definition new_deposit :: "bridge_deposit_log \<Rightarrow> deposit_row" where
  "new_deposit d = \<lparr>dp_log = d, dp_removed = False, dp_bridge_job_id = None, dp_outer_action_sequence = None,
     dp_outer_action_state_after = None, dp_synchronized_job_id = None, dp_synchronized_sequence = None\<rparr>"

text \<open>
  A deposit that is already known keeps its link to a bridge batch and a settlement.  The table admits one row for each
  transaction and log index, also among the removed ones.
\<close>

definition log_taken :: "int \<Rightarrow> bridge_deposit_log \<Rightarrow> (int \<times> deposit_row) list \<Rightarrow> bool" where
  "log_taken nonce d t = list_ex (\<lambda>(k, r). k \<noteq> nonce \<and> dl_transaction_hash (dp_log r) = dl_transaction_hash d \<and>
     dl_log_index (dp_log r) = dl_log_index d) t"

definition store_deposit ::
  "block_ref \<Rightarrow> bridge_deposit_log \<Rightarrow> (int \<times> deposit_row) list \<Rightarrow> failure + (int \<times> deposit_row) list" where
  "store_deposit block d t =
     ensure (dl_block_number d = br_number block \<and> dl_block_hash d = br_hash block)
       (plain_failure ''bridge deposit RPC returned logs outside the requested block'') (
     and_then (bigint (dl_nonce d)) (\<lambda>nonce.
     and_then (bigint (dl_timeout d)) (\<lambda>_.
     and_then (bigint (dl_block_number d)) (\<lambda>_.
     and_then (bigint (dl_log_index d)) (\<lambda>_.
     ensure (0 < nonce \<and> 0 < dl_amount d \<and> 0 < dl_zeko_amount d)
       (plain_failure ''new row violates check constraint'') (
     ensure (\<not> log_taken nonce d t) (plain_failure ''duplicate key value violates unique constraint'') (
     Inr (upsert nonce
       (case map_of t nonce of None \<Rightarrow> new_deposit d | Some r \<Rightarrow> r\<lparr>dp_log := d, dp_removed := False\<rparr>) t))))))))"

fun store_deposits ::
  "block_ref \<Rightarrow> bridge_deposit_log list \<Rightarrow> (int \<times> deposit_row) list \<Rightarrow> failure + (int \<times> deposit_row) list" where
  "store_deposits block [] t = Inr t"
| "store_deposits block (d # ds) t = and_then (store_deposit block d t) (store_deposits block ds)"

definition index_bridge_deposits :: "node \<Rightarrow> block_ref \<Rightarrow> chain_db \<Rightarrow> nat \<Rightarrow> unit outcome" where
  "index_bridge_deposits N block db k =
     (let r = and_then (nd_deposits N k block) (\<lambda>ds.
              and_then (store_deposits block ds (cd_deposits db)) (\<lambda>deposits.
              and_then (insert_block block (cd_blocks db)) (\<lambda>blocks.
              Inr (db\<lparr>cd_deposits := deposits, cd_blocks := blocks\<rparr>))))
      in case r of Inl e \<Rightarrow> (Inl e, db, Suc k) | Inr db' \<Rightarrow> (Inr (), db', Suc k))"

subsection \<open>Reorganisations\<close>

partial_function (option) common_ancestor ::
  "node \<Rightarrow> block_table \<Rightarrow> nat \<Rightarrow> block_ref \<Rightarrow> ((failure + u64) \<times> nat) option" where
  "common_ancestor N t k remote =
     (case bigint (br_number remote) of
        Inl e \<Rightarrow> Some (Inl e, k)
      | Inr n \<Rightarrow> (case canonical_hash n t of
          None \<Rightarrow> Some (Inr (br_number remote), k)
        | Some h \<Rightarrow>
            if h = br_hash remote then Some (Inr (br_number remote), k)
            else if br_number remote = 0 then Some (Inl (plain_failure ''Ethereum genesis hash changed''), k)
            else (case nd_block N k (br_number remote - 1) of
                Inl e \<Rightarrow> Some (Inl e, Suc k)
              | Inr parent \<Rightarrow> common_ancestor N t (Suc k) parent)))"

text \<open>A rollback to the common ancestor of the index and a block of the node.\<close>

definition rollback_to ::
  "node \<Rightarrow> finality_mode \<Rightarrow> block_ref \<Rightarrow> chain_db \<Rightarrow> nat \<Rightarrow> u64 outcome option" where
  "rollback_to N mode remote db k =
     (case common_ancestor N (cd_blocks db) k remote of
        None \<Rightarrow> None
      | Some (Inl e, k) \<Rightarrow> Some (Inl e, db, k)
      | Some (Inr ancestor, k) \<Rightarrow> (case rollback_canonical_chain mode ancestor db of
          Inl e \<Rightarrow> Some (Inl e, db, k)
        | Inr db' \<Rightarrow> Some (Inr ancestor, db', k)))"

definition ensure_parent ::
  "node \<Rightarrow> finality_mode \<Rightarrow> block_ref \<Rightarrow> chain_db \<Rightarrow> nat \<Rightarrow> unit outcome option" where
  "ensure_parent N mode block db k =
     (if br_number block = 0 then Some (Inr (), db, k)
      else case bigint (br_number block - 1) of
        Inl e \<Rightarrow> Some (Inl e, db, k)
      | Inr n \<Rightarrow> (case canonical_hash n (cd_blocks db) of
          None \<Rightarrow> Some (Inr (), db, k)
        | Some h \<Rightarrow>
            if h = br_parent_hash block then Some (Inr (), db, k)
            else (case nd_block N k (br_number block - 1) of
                Inl e \<Rightarrow> Some (Inl e, db, Suc k)
              | Inr parent \<Rightarrow>
                  if br_hash parent \<noteq> br_parent_hash block
                  then Some (Inl (plain_failure ''Ethereum parent changed while indexing; refetch the child block''), db, Suc k)
                  else (case rollback_to N mode parent db (Suc k) of
                      None \<Rightarrow> None
                    | Some (Inl e, db, k) \<Rightarrow> Some (Inl e, db, k)
                    | Some (Inr ancestor, db, k) \<Rightarrow> Some
                        (if ancestor + 1 = br_number block then Inr ()
                         else Inl (plain_failure (''Ethereum reorg rolled back to '' @ show_nat (unat ancestor) @
                           ''; caller must refetch from the new tip'')), db, k)))))"

partial_function (option) index_loop ::
  "node \<Rightarrow> finality_mode \<Rightarrow> u64 \<Rightarrow> u64 \<Rightarrow> chain_db \<Rightarrow> nat \<Rightarrow> unit outcome option" where
  "index_loop N mode head nxt db k =
     (if head < nxt then Some (Inr (), db, k)
      else case nd_block N k nxt of
        Inl e \<Rightarrow> Some (Inl e, db, Suc k)
      | Inr block \<Rightarrow> (case ensure_parent N mode block db (Suc k) of
          None \<Rightarrow> None
        | Some (Inl e, db, k) \<Rightarrow> Some (Inl e, db, k)
        | Some (Inr _, db, k) \<Rightarrow> (case index_bridge_deposits N block db k of
            (Inl e, db, k) \<Rightarrow> Some (Inl e, db, k)
          | (Inr _, db, k) \<Rightarrow> index_loop N mode head (br_number block + 1) db k)))"

declare common_ancestor.simps [code] index_loop.simps [code]

subsection \<open>One pass of the indexer\<close>

text \<open>A head that did not advance, or went back, is compared with the tip of the index.\<close>

definition check_tip :: "node \<Rightarrow> finality_mode \<Rightarrow> u64 \<Rightarrow> chain_db \<Rightarrow> nat \<Rightarrow> unit outcome option" where
  "check_tip N mode head db k =
     (case latest_canonical (cd_blocks db) of
        None \<Rightarrow> Some (Inr (), db, k)
      | Some (n, h) \<Rightarrow>
          if n < 0 then Some (Inl (plain_failure ''out of range integral type conversion attempted''), db, k)
          else if n < uint head then Some (Inr (), db, k)
          else (case nd_block N k head of
              Inl e \<Rightarrow> Some (Inl e, db, Suc k)
            | Inr remote \<Rightarrow>
                if uint head < n \<or> h \<noteq> br_hash remote
                then (case rollback_to N mode remote db (Suc k) of
                    None \<Rightarrow> None
                  | Some (Inl e, db, k) \<Rightarrow> Some (Inl e, db, k)
                  | Some (Inr _, db, k) \<Rightarrow> Some (Inr (), db, k))
                else Some (Inr (), db, Suc k)))"

definition first_block :: "index_config \<Rightarrow> u64 \<Rightarrow> block_table \<Rightarrow> failure + u64" where
  "first_block cfg head t =
     (case latest_canonical t of
        Some (n, _) \<Rightarrow> ensure (0 \<le> n) (plain_failure ''negative indexed Ethereum block'') (Inr (word_of_int n + 1))
      | None \<Rightarrow> Inr (min (case ic_start_block cfg of Some b \<Rightarrow> b | None \<Rightarrow> head) head))"

definition highest_finalized :: "block_table \<Rightarrow> int option" where
  "highest_finalized t =
     (case map fst (filter (\<lambda>(_, b). bw_canonical b \<and> bw_finalized b) t) of
        [] \<Rightarrow> None | n # ns \<Rightarrow> Some (fold max ns n))"

definition finalized_through ::
  "index_config \<Rightarrow> u64 \<Rightarrow> block_ref option \<Rightarrow> block_table \<Rightarrow> failure + u64 option" where
  "finalized_through cfg head finalized_block t =
     (case finalized_block of
        Some block \<Rightarrow>
          ensure (br_number block \<le> head)
            (plain_failure (''Ethereum finalized head '' @ show_nat (unat (br_number block)) @ '' is above latest head '' @
               show_nat (unat head))) (
          and_then (bigint (br_number block)) (\<lambda>n.
          ensure (case canonical_hash n t of None \<Rightarrow> True | Some h \<Rightarrow> h = br_hash block)
            (plain_failure (''Ethereum finalized head '' @ show_nat (unat (br_number block)) @
               '' does not match the indexed canonical hash'')) (
          ensure (case highest_finalized t of None \<Rightarrow> True | Some f \<Rightarrow> 0 \<le> f)
            (plain_failure ''negative finalized Ethereum block'') (
          ensure (case highest_finalized t of None \<Rightarrow> True | Some f \<Rightarrow> f \<le> uint (br_number block))
            (plain_failure (''Ethereum finalized head regressed from '' @
               show_nat (case highest_finalized t of None \<Rightarrow> 0 | Some f \<Rightarrow> nat f) @ '' to '' @
               show_nat (unat (br_number block))))
            (Inr (Some (br_number block)))))))
      | None \<Rightarrow> Inr (checked_sub head (max (ic_confirmations cfg) 1 - 1)))"

definition mark_finalized :: "int option \<Rightarrow> block_table \<Rightarrow> block_table" where
  "mark_finalized through =
     map (\<lambda>(n, b). (n, b\<lparr>bw_finalized := (bw_canonical b \<and> (case through of None \<Rightarrow> False | Some f \<Rightarrow> n \<le> f))\<rparr>))"

definition optional_bigint :: "u64 option \<Rightarrow> failure + int option" where
  "optional_bigint m = (case m of None \<Rightarrow> Inr None | Some n \<Rightarrow> and_then (bigint n) (\<lambda>v. Inr (Some v)))"

text \<open>The last part of \<open>index_blocks\<close>, with the head block that the node returned.\<close>

definition advance_finality ::
  "index_config \<Rightarrow> u64 \<Rightarrow> block_ref option \<Rightarrow> block_ref \<Rightarrow> chain_db \<Rightarrow> failure + chain_db" where
  "advance_finality cfg head finalized_block head_block db =
     and_then (bigint head) (\<lambda>n.
     ensure (canonical_hash n (cd_blocks db) = Some (br_hash head_block))
       (plain_failure ''Ethereum head changed while indexing; retry before advancing finality'') (
     and_then (finalized_through cfg head finalized_block (cd_blocks db)) (\<lambda>through.
     and_then (optional_bigint through) (\<lambda>f.
     Inr (db\<lparr>cd_blocks := mark_finalized f (cd_blocks db), cd_head := Some (n, br_hash head_block)\<rparr>)))))"

definition index_blocks ::
  "index_config \<Rightarrow> node \<Rightarrow> u64 \<Rightarrow> block_ref option \<Rightarrow> chain_db \<Rightarrow> nat \<Rightarrow> unit outcome option" where
  "index_blocks cfg N head finalized_block db k =
     (case check_tip N (ic_finality_mode cfg) head db k of
        None \<Rightarrow> None
      | Some (Inl e, db, k) \<Rightarrow> Some (Inl e, db, k)
      | Some (Inr _, db, k) \<Rightarrow> (case first_block cfg head (cd_blocks db) of
          Inl e \<Rightarrow> Some (Inl e, db, k)
        | Inr nxt \<Rightarrow> (case index_loop N (ic_finality_mode cfg) head nxt db k of
            None \<Rightarrow> None
          | Some (Inl e, db, k) \<Rightarrow> Some (Inl e, db, k)
          | Some (Inr _, db, k) \<Rightarrow> (case nd_block N k head of
              Inl e \<Rightarrow> Some (Inl e, db, Suc k)
            | Inr head_block \<Rightarrow> (case advance_finality cfg head finalized_block head_block db of
                Inl e \<Rightarrow> Some (Inl e, db, Suc k)
              | Inr db' \<Rightarrow> Some (Inr (), db', Suc k))))))"

subsection \<open>The canonical rows\<close>

definition canon :: "block_table \<Rightarrow> int \<Rightarrow> block_row option" where
  "canon t n = Option.bind (map_of t n) (\<lambda>b. if bw_canonical b then Some b else None)"

lemma canonical_hash_canon: "canonical_hash n t = map_option bw_hash (canon t n)"
  by (simp add: canonical_hash_def canon_def split: option.splits)

lemma canon_rollback: "canon (rollback_blocks a t) n = (if a < n then None else canon t n)"
  by (cases "map_of t n") (auto simp: canon_def rollback_blocks_lookup)

lemma upsert_lookup: "map_of (upsert k v t) x = (if x = k then Some v else map_of t x)"
proof (cases "map_of t k")
  case None
  then show ?thesis by (auto simp: upsert_def map_add_def split: option.splits)
next
  case (Some u)
  have "map_of (map (\<lambda>(x, u). (x, if x = k then v else u)) t) x = map_option (\<lambda>u. if x = k then v else u) (map_of t x)"
    by (induction t) auto
  then show ?thesis using Some by (cases "map_of t x") (auto simp: upsert_def)
qed

lemma upsert_distinct: "distinct (map fst t) \<Longrightarrow> distinct (map fst (upsert k v t))"
proof -
  assume "distinct (map fst t)"
  moreover have "map fst (map (\<lambda>(x, u). (x, if x = k then v else u)) t) = map fst t" by (induction t) auto
  ultimately show ?thesis
    by (cases "map_of t k = None") (simp_all only: upsert_def if_True if_False, simp add: map_of_eq_None_iff)
qed

lemma canon_mark_finalized:
  "canon (mark_finalized f t) n = map_option (\<lambda>b. b\<lparr>bw_finalized := (case f of None \<Rightarrow> False | Some f \<Rightarrow> n \<le> f)\<rparr>) (canon t n)"
proof -
  have "map_of (mark_finalized f t) n =
      map_option (\<lambda>b. b\<lparr>bw_finalized := (bw_canonical b \<and> (case f of None \<Rightarrow> False | Some f \<Rightarrow> n \<le> f))\<rparr>) (map_of t n)"
    by (cases f) (induction t; auto simp: mark_finalized_def)+
  then show ?thesis by (cases "map_of t n") (auto simp: canon_def)
qed

text \<open>
  The canonical rows are a contiguous chain: each names the row below it as its parent.
\<close>

definition chain_ok :: "block_table \<Rightarrow> bool" where
  "chain_ok t \<longleftrightarrow> distinct (map fst t) \<and> (\<forall>n. canon t n \<noteq> None \<longrightarrow> 0 \<le> n \<and> n < 2 ^ 63) \<and>
     (\<forall>n b c. canon t n = Some b \<longrightarrow> canon t (n + 1) = Some c \<longrightarrow> bw_parent_hash c = bw_hash b) \<and>
     (\<forall>m n. m < n \<longrightarrow> canon t m \<noteq> None \<longrightarrow> canon t n \<noteq> None \<longrightarrow> canon t (m + 1) \<noteq> None)"

definition keeps_finalized :: "block_table \<Rightarrow> block_table \<Rightarrow> bool" where
  "keeps_finalized t t' \<longleftrightarrow> (\<forall>n b. canon t n = Some b \<longrightarrow> bw_finalized b \<longrightarrow>
     (\<exists>b'. canon t' n = Some b' \<and> bw_finalized b' \<and> bw_hash b' = bw_hash b))"

lemma keeps_refl [simp]: "keeps_finalized t t"
  by (simp add: keeps_finalized_def)

lemma keeps_trans: "keeps_finalized a b \<Longrightarrow> keeps_finalized b c \<Longrightarrow> keeps_finalized a c"
  unfolding keeps_finalized_def by metis

lemma fold_max: "n \<in> set (m # ms) \<Longrightarrow> n \<le> fold max ms (m::int)" "fold max ms m \<in> set (m # ms)"
  by (simp_all only: Max.set_eq_fold [symmetric]) (simp_all only: List.finite_set Max_ge, rule Max_in, simp_all)

lemma canonical_keys:
  assumes "distinct (map fst t)"
  shows "n \<in> set (map fst (filter (\<lambda>(_, b). bw_canonical b) t)) \<longleftrightarrow> canon t n \<noteq> None"
  using assms by (force simp: canon_def bind_eq_Some_conv)

lemma latest_canonical_Some:
  assumes "distinct (map fst t)" "latest_canonical t = Some (m, h)"
  shows "canon t m \<noteq> None" "canonical_hash m t = Some h" "canon t n \<noteq> None \<Longrightarrow> n \<le> m"
proof -
  obtain k ks where k: "map fst (filter (\<lambda>(_, b). bw_canonical b) t) = k # ks" and m: "m = fold max ks k"
    and h: "canonical_hash m t = Some h"
    using assms(2) by (auto simp: latest_canonical_def Let_def split: list.splits)
  show "canonical_hash m t = Some h" by (rule h)
  then show "canon t m \<noteq> None" by (auto simp: canonical_hash_canon)
  show "n \<le> m" if "canon t n \<noteq> None"
    using that canonical_keys [OF assms(1)] fold_max(1) k m by metis
qed

lemma latest_canonical_None:
  assumes "distinct (map fst t)" "latest_canonical t = None"
  shows "canon t n = None"
proof (cases "map fst (filter (\<lambda>(_, b). bw_canonical b) t)")
  case Nil
  then show ?thesis using canonical_keys [OF assms(1), of n] by simp
next
  case (Cons k ks)
  then have "canon t (fold max ks k) \<noteq> None" using canonical_keys [OF assms(1)] fold_max(2) by metis
  then show ?thesis using assms(2) Cons by (auto simp: latest_canonical_def canonical_hash_canon)
qed

subsection \<open>Every operation keeps the chain\<close>

lemma bigint_Inr [res_simps]: "bigint n = Inr v \<longleftrightarrow> v = uint n \<and> uint n < 2 ^ 63"
  by (auto simp: bigint_def expect_Inr i64_of_u64_def split: if_splits)

lemma rollback_after_blocks:
  assumes "rollback_after n db = Inr db'"
  shows "cd_blocks db' = rollback_blocks (uint n) (cd_blocks db)"
  using assms unfolding rollback_after_Inr by (auto simp: i64_of_u64_def rollback_data_def split: if_splits)

lemma chain_ok_rollback: "chain_ok t \<Longrightarrow> chain_ok (rollback_blocks a t)"
  unfolding chain_ok_def by (auto simp: canon_rollback)

lemma rollback_canonical_chain_ok:
  assumes "rollback_canonical_chain mode n db = Inr db'" "chain_ok (cd_blocks db)"
  shows "chain_ok (cd_blocks db')" "mode = Finalized \<Longrightarrow> keeps_finalized (cd_blocks db) (cd_blocks db')"
    "canon (cd_blocks db') k = (if uint n < k then None else canon (cd_blocks db) k)"
proof -
  have r: "rollback_after n db = Inr db'" using assms(1) by (auto simp: rollback_canonical_chain_def and_then_Inr)
  note b = rollback_after_blocks [OF r]
  show "chain_ok (cd_blocks db')" using assms(2) by (simp add: b chain_ok_rollback)
  show "canon (cd_blocks db') k = (if uint n < k then None else canon (cd_blocks db) k)" by (simp add: b canon_rollback)
  show "keeps_finalized (cd_blocks db) (cd_blocks db')" if "mode = Finalized"
  proof -
    have "list_all (\<lambda>(k, b). bw_canonical b \<and> bw_finalized b \<longrightarrow> k \<le> uint n) (cd_blocks db)"
      using assms(1) that by (auto simp: rollback_canonical_chain_def res_simps list_ex_iff list_all_iff)
    then have "k \<le> uint n" if "canon (cd_blocks db) k = Some b" "bw_finalized b" for k b
      using that by (auto simp: canon_def bind_eq_Some_conv list_all_iff split: if_splits dest!: map_of_SomeD)
    then show ?thesis unfolding keeps_finalized_def b canon_rollback by fastforce
  qed
qed

text \<open>A new tip.\<close>

definition extends_chain :: "block_ref \<Rightarrow> block_table \<Rightarrow> bool" where
  "extends_chain block t \<longleftrightarrow> (\<forall>n. canon t n \<noteq> None \<longrightarrow> n < uint (br_number block) \<and> canon t (uint (br_number block) - 1) \<noteq> None) \<and>
     (\<forall>b. canon t (uint (br_number block) - 1) = Some b \<longrightarrow> bw_hash b = br_parent_hash block)"

lemma insert_block_ok:
  assumes "insert_block block t = Inr t'" "chain_ok t" "extends_chain block t"
  shows "chain_ok t'" "keeps_finalized t t'" "canon t' n \<noteq> None \<Longrightarrow> n \<le> uint (br_number block)"
    "canon t' (uint (br_number block)) \<noteq> None" "uint (br_number block) < 2 ^ 63"
proof -
  let ?n = "uint (br_number block)" and ?b = "\<lparr>bw_hash = br_hash block, bw_parent_hash = br_parent_hash block,
    bw_canonical = True, bw_finalized = False\<rparr>"
  have t': "t' = upsert ?n ?b t" and big: "?n < 2 ^ 63"
    using assms(1) by (auto simp: insert_block_def res_simps)
  have c: "canon t' k = (if k = ?n then Some ?b else canon t k)" for k
    by (simp add: canon_def t' upsert_lookup)
  note e = assms(3) [unfolded extends_chain_def]
  show "uint (br_number block) < 2 ^ 63" by (rule big)
  show "canon t' ?n \<noteq> None" by (simp add: c)
  show "n \<le> ?n" if "canon t' n \<noteq> None" using that e by (auto simp: c split: if_splits)
  show "keeps_finalized t t'" unfolding keeps_finalized_def c using e by fastforce
  have above: "canon t k = None" if "?n \<le> k" for k using e that by fastforce
  have "distinct (map fst t')" using assms(2) by (simp add: t' upsert_distinct chain_ok_def)
  moreover have "0 \<le> k \<and> k < 2 ^ 63" if "canon t' k \<noteq> None" for k
    using that assms(2) big by (auto simp: c chain_ok_def split: if_splits)
  moreover have "bw_parent_hash y = bw_hash x" if "canon t' k = Some x" "canon t' (k + 1) = Some y" for k x y
  proof (cases "k + 1 = ?n")
    case True
    then have "k = ?n - 1" by simp
    then show ?thesis using that e by (auto simp: c split: if_splits)
  next
    case False
    then show ?thesis using that assms(2) above [of "k + 1"] by (auto simp: c chain_ok_def split: if_splits)
  qed
  moreover have "canon t' (k + 1) \<noteq> None" if "k < m" "canon t' k \<noteq> None" "canon t' m \<noteq> None" for k m
  proof (cases "k + 1 = ?n")
    case False
    have k: "canon t k \<noteq> None" "k < ?n" using that above [of m] e by (auto simp: c split: if_splits)
    then have "canon t (?n - 1) \<noteq> None" "k < ?n - 1" using e False by auto
    then show ?thesis using assms(2) k(1) by (auto simp: c chain_ok_def)
  qed (simp add: c)
  ultimately show "chain_ok t'" unfolding chain_ok_def by blast
qed

subsection \<open>The loops\<close>

lemma word_pred_less: "(n::u64) \<noteq> 0 \<Longrightarrow> n - 1 < n"
  by (simp add: word_less_nat_alt unat_minus_one unat_gt_0)

lemma uint_pred: "(n::u64) \<noteq> 0 \<Longrightarrow> uint (n - 1) = uint n - 1"
proof -
  assume "n \<noteq> 0"
  then have "unat (n - 1) = unat n - 1" "0 < unat n" by (simp_all add: unat_minus_one unat_gt_0)
  then have "int (unat (n - 1)) = int (unat n) - 1" by linarith
  then show ?thesis by (simp only: uint_nat)
qed

lemma common_ancestor_le:
  assumes "common_ancestor N t k remote = Some (Inr a, k')" "honest N"
  shows "a \<le> br_number remote"
  using assms
proof (induction "unat (br_number remote)" arbitrary: k remote rule: less_induct)
  case less
  from less.prems(1) have "a = br_number remote \<or> (\<exists>parent. br_number remote \<noteq> 0 \<and>
      nd_block N k (br_number remote - 1) = Inr parent \<and> common_ancestor N t (Suc k) parent = Some (Inr a, k'))"
    by (subst (asm) common_ancestor.simps) (auto split: sum.splits option.splits if_splits)
  then show ?case
  proof
    assume "\<exists>parent. br_number remote \<noteq> 0 \<and> nd_block N k (br_number remote - 1) = Inr parent \<and>
      common_ancestor N t (Suc k) parent = Some (Inr a, k')"
    then obtain parent where p: "br_number remote \<noteq> 0" "nd_block N k (br_number remote - 1) = Inr parent"
      "common_ancestor N t (Suc k) parent = Some (Inr a, k')" by blast
    then have n: "br_number parent < br_number remote"
      using less.prems(2) word_pred_less by (auto simp: honest_def)
    then have "a \<le> br_number parent" using less.hyps p(3) less.prems(2) by (simp add: word_less_nat_alt)
    then show ?case using n by simp
  qed simp
qed

lemma common_ancestor_below:
  assumes "common_ancestor N t k remote = Some (Inr a, k')" "honest N"
    and "canonical_hash (uint (br_number remote)) t = Some h" "h \<noteq> br_hash remote"
  shows "a < br_number remote"
proof -
  from assms(1) obtain parent where p: "br_number remote \<noteq> 0" "nd_block N k (br_number remote - 1) = Inr parent"
    "common_ancestor N t (Suc k) parent = Some (Inr a, k')"
    using assms(3,4) by (subst (asm) common_ancestor.simps) (auto simp: bigint_Inr split: sum.splits option.splits if_splits)
  then have "br_number parent < br_number remote" using assms(2) word_pred_less by (auto simp: honest_def)
  moreover have "a \<le> br_number parent" using common_ancestor_le [OF p(3) assms(2)] .
  ultimately show ?thesis by simp
qed

lemma common_ancestor_returns: "honest N \<Longrightarrow> common_ancestor N t k remote \<noteq> None"
proof (induction "unat (br_number remote)" arbitrary: k remote rule: less_induct)
  case less
  have "common_ancestor N t (Suc k) parent \<noteq> None"
    if "br_number remote \<noteq> 0" "nd_block N k (br_number remote - 1) = Inr parent" for parent
    using that less word_pred_less [of "br_number remote"] by (auto simp: honest_def word_less_nat_alt)
  then show ?case by (subst common_ancestor.simps) (auto split: sum.splits option.splits)
qed

text \<open>How an operation may leave the blocks when it does not add one.\<close>

definition rolled :: "finality_mode \<Rightarrow> chain_db \<Rightarrow> chain_db \<Rightarrow> bool" where
  "rolled mode db db' \<longleftrightarrow> db' = db \<or> (\<exists>a. rollback_canonical_chain mode a db = Inr db')"

lemma rolled_refl [simp]: "rolled mode db db"
  by (simp add: rolled_def)

lemma rolled_ok:
  assumes "rolled mode db db'" "chain_ok (cd_blocks db)"
  shows "chain_ok (cd_blocks db')" "mode = Finalized \<Longrightarrow> keeps_finalized (cd_blocks db) (cd_blocks db')"
  using assms rollback_canonical_chain_ok unfolding rolled_def by auto

lemma rollback_to_cases:
  assumes "rollback_to N mode remote db k = Some (r, db', k')"
  shows "rolled mode db db'" "r = Inr a \<Longrightarrow> \<exists>k''. common_ancestor N (cd_blocks db) k remote = Some (Inr a, k'') \<and>
    rollback_canonical_chain mode a db = Inr db'"
  using assms by (auto simp: rollback_to_def rolled_def split: option.splits sum.splits prod.splits)

text \<open>
  \<open>ensure_parent\<close> lets a block pass only when it extends the index: after a rollback it always asks the
  caller to start again.
\<close>

lemma ensure_parent_cases:
  assumes "ensure_parent N mode block db k = Some (r, db', k')" "honest N"
  shows "rolled mode db db'" "r = Inr () \<Longrightarrow> db' = db \<and> (\<forall>b. br_number block \<noteq> 0 \<longrightarrow>
    canon (cd_blocks db) (uint (br_number block) - 1) = Some b \<longrightarrow> bw_hash b = br_parent_hash block)"
proof -
  have u: "uint (br_number block - 1) = uint (br_number block) - 1" if "br_number block \<noteq> 0"
    by (rule uint_pred [OF that])
  show "rolled mode db db'"
    using assms(1) unfolding ensure_parent_def
    by (auto split: if_splits sum.splits option.splits prod.splits dest: rollback_to_cases(1))
  assume r: "r = Inr ()"
  show "db' = db \<and> (\<forall>b. br_number block \<noteq> 0 \<longrightarrow>
    canon (cd_blocks db) (uint (br_number block) - 1) = Some b \<longrightarrow> bw_hash b = br_parent_hash block)"
  proof (cases "br_number block = 0 \<or> canonical_hash (uint (br_number block) - 1) (cd_blocks db) \<in> {None, Some (br_parent_hash block)}")
    case True
    then show ?thesis
      using assms(1) r u by (auto simp: ensure_parent_def canonical_hash_canon bigint_Inr split: sum.splits if_splits)
  next
    case False
    then obtain h where h: "canonical_hash (uint (br_number block - 1)) (cd_blocks db) = Some h" "h \<noteq> br_parent_hash block"
      "br_number block \<noteq> 0" using u by auto
    then obtain parent a k'' where p: "nd_block N k (br_number block - 1) = Inr parent" "br_hash parent = br_parent_hash block"
      "rollback_to N mode parent db (Suc k) = Some (Inr a, db', k'')" "a + 1 = br_number block"
      using assms(1) r by (auto simp: ensure_parent_def bigint_Inr split: sum.splits if_splits option.splits prod.splits)
    then have n: "br_number parent = br_number block - 1" using assms(2) by (auto simp: honest_def)
    obtain k3 where "common_ancestor N (cd_blocks db) (Suc k) parent = Some (Inr a, k3)"
      using rollback_to_cases(2) [OF p(3)] by blast
    from common_ancestor_below [OF this assms(2)] have "a < br_number block - 1" using h n p(2) by simp
    moreover have "a = br_number block - 1" using p(4) by (metis add_diff_cancel)
    ultimately show ?thesis by simp
  qed
qed

lemma rollback_to_returns: "honest N \<Longrightarrow> (rollback_to N mode remote db k = None) = False"
  using common_ancestor_returns [of N "cd_blocks db" k remote]
  by (auto simp: rollback_to_def split: option.splits sum.splits prod.splits)

lemma ensure_parent_returns: "honest N \<Longrightarrow> ensure_parent N mode block db k \<noteq> None"
  by (simp add: ensure_parent_def rollback_to_returns split: sum.splits option.splits prod.splits)

text \<open>The index is ready for block \<open>nxt\<close>.\<close>

definition ready :: "u64 \<Rightarrow> block_table \<Rightarrow> bool" where
  "ready nxt t \<longleftrightarrow> (\<forall>n. canon t n \<noteq> None \<longrightarrow> n < uint nxt \<and> canon t (uint nxt - 1) \<noteq> None)"

lemma index_bridge_deposits_cases:
  assumes "index_bridge_deposits N block db k = (r, db', k')"
  shows "r = Inr () \<Longrightarrow> insert_block block (cd_blocks db) = Inr (cd_blocks db')" "r = Inl e \<Longrightarrow> db' = db"
  using assms by (auto simp: index_bridge_deposits_def Let_def res_simps split: sum.splits)

lemma uint_succ: "uint (n::u64) < 2 ^ 63 \<Longrightarrow> uint (n + 1) = uint n + 1"
  by (simp add: uint_word_arith_bintrs take_bit_int_eq_self)

lemma unat_succ: "uint (n::u64) < 2 ^ 63 \<Longrightarrow> unat (n + 1) = unat n + 1"
proof -
  assume "uint n < 2 ^ 63"
  then have "int (unat (n + 1)) = int (unat n) + 1" unfolding uint_nat [symmetric] by (rule uint_succ)
  then show ?thesis by linarith
qed

text \<open>One iteration.\<close>

lemma index_block_ok:
  assumes "honest N" "nd_block N k nxt = Inr block" "ready nxt (cd_blocks db)" "chain_ok (cd_blocks db)"
    and "ensure_parent N mode block db (Suc k) = Some (Inr (), db1, k1)"
    and "index_bridge_deposits N block db1 k1 = (Inr (), db2, k2)"
  shows "chain_ok (cd_blocks db2)" "keeps_finalized (cd_blocks db) (cd_blocks db2)"
    "ready (br_number block + 1) (cd_blocks db2)" "br_number block = nxt" "uint nxt < 2 ^ 63"
    "canon (cd_blocks db2) (uint nxt) \<noteq> None"
proof -
  show n: "br_number block = nxt" using assms(1,2) by (simp add: honest_def)
  note e = ensure_parent_cases(2) [OF assms(5,1) refl]
  have nonneg: "canon (cd_blocks db) k = None" if "k < 0" for k
    using assms(4) that unfolding chain_ok_def by (meson not_le)
  have "extends_chain block (cd_blocks db)"
    using e assms(3) nonneg [of "- 1"] unfolding extends_chain_def ready_def n by (cases "nxt = 0") auto
  moreover have "insert_block block (cd_blocks db) = Inr (cd_blocks db2)"
    using index_bridge_deposits_cases(1) [OF assms(6) refl] e by simp
  ultimately have i: "chain_ok (cd_blocks db2)" "keeps_finalized (cd_blocks db) (cd_blocks db2)"
    "\<And>n. canon (cd_blocks db2) n \<noteq> None \<Longrightarrow> n \<le> uint nxt" "canon (cd_blocks db2) (uint nxt) \<noteq> None" "uint nxt < 2 ^ 63"
    using insert_block_ok [OF _ assms(4)] n by blast+
  then show "chain_ok (cd_blocks db2)" "keeps_finalized (cd_blocks db) (cd_blocks db2)" "uint nxt < 2 ^ 63"
    "canon (cd_blocks db2) (uint nxt) \<noteq> None" by blast+
  show "ready (br_number block + 1) (cd_blocks db2)"
    using i(3,4) uint_succ [OF i(5)] unfolding ready_def n by force
qed

lemma index_loop_unfold:
  "nxt \<le> head \<Longrightarrow> index_loop N mode head nxt db k = (case nd_block N k nxt of
        Inl e \<Rightarrow> Some (Inl e, db, Suc k)
      | Inr block \<Rightarrow> (case ensure_parent N mode block db (Suc k) of
          None \<Rightarrow> None
        | Some (Inl e, db, k) \<Rightarrow> Some (Inl e, db, k)
        | Some (Inr _, db, k) \<Rightarrow> (case index_bridge_deposits N block db k of
            (Inl e, db, k) \<Rightarrow> Some (Inl e, db, k)
          | (Inr _, db, k) \<Rightarrow> index_loop N mode head (br_number block + 1) db k)))"
  by (subst index_loop.simps) (simp add: leD)

lemma index_loop_done: "\<not> nxt \<le> head \<Longrightarrow> index_loop N mode head nxt db k = Some (Inr (), db, k)"
  by (subst index_loop.simps) (simp add: not_le)

lemma index_loop_Suc:
  assumes "index_loop N mode head nxt db k = Some (r, db', k')" "nxt \<le> head"
  obtains (failed) "db' = db" "r \<noteq> Inr ()"
    | (parent) block e where "nd_block N k nxt = Inr block" "ensure_parent N mode block db (Suc k) = Some (Inl e, db', k')" "r = Inl e"
    | (unstored) block db1 k1 e where "nd_block N k nxt = Inr block"
        "ensure_parent N mode block db (Suc k) = Some (Inr (), db1, k1)" "index_bridge_deposits N block db1 k1 = (Inl e, db', k')" "r = Inl e"
    | (stored) block db1 k1 db2 k2 where "nd_block N k nxt = Inr block"
        "ensure_parent N mode block db (Suc k) = Some (Inr (), db1, k1)" "index_bridge_deposits N block db1 k1 = (Inr (), db2, k2)"
        "index_loop N mode head (br_number block + 1) db2 k2 = Some (r, db', k')"
proof -
  note e = assms(1) [unfolded index_loop_unfold [OF assms(2)]]
  show thesis
  proof (cases "nd_block N k nxt")
    case (Inl x)
    then have "db' = db \<and> r \<noteq> Inr ()" using e by auto
    then show ?thesis using failed by blast
  next
    case (Inr block)
    then obtain r1 db1 k1 where 1: "ensure_parent N mode block db (Suc k) = Some (r1, db1, k1)"
      using e by (cases "ensure_parent N mode block db (Suc k)") auto
    obtain r2 db2 k2 where 2: "index_bridge_deposits N block db1 k1 = (r2, db2, k2)" by (metis prod_cases3)
    show ?thesis
    proof (cases r1)
      case (Inl x)
      then have "r1 = r \<and> db1 = db' \<and> k1 = k'" using Inr 1 e by simp
      then show ?thesis using Inr 1 Inl parent by blast
    next
      case (Inr u)
      then have r1: "ensure_parent N mode block db (Suc k) = Some (Inr (), db1, k1)" using 1 by simp
      show ?thesis
      proof (cases r2)
        case (Inl x)
        then have "r2 = r \<and> db2 = db' \<and> k2 = k'" using \<open>nd_block N k nxt = Inr block\<close> r1 2 e by simp
        then show ?thesis using unstored [OF \<open>nd_block N k nxt = Inr block\<close> r1] 2 Inl by blast
      next
        case (Inr v)
        then have "index_loop N mode head (br_number block + 1) db2 k2 = Some (r, db', k')"
          using \<open>nd_block N k nxt = Inr block\<close> r1 2 e by simp
        then show ?thesis using stored [OF \<open>nd_block N k nxt = Inr block\<close> r1] 2 Inr by simp
      qed
    qed
  qed
qed

text \<open>What the loop guarantees, whatever the node answers in between.\<close>

lemma index_loop_ok:
  assumes "index_loop N mode head nxt db k = Some (r, db', k')" "honest N"
    and "ready nxt (cd_blocks db)" "chain_ok (cd_blocks db)" "uint nxt \<le> uint head + 1"
  shows "chain_ok (cd_blocks db') \<and> (mode = Finalized \<longrightarrow> keeps_finalized (cd_blocks db) (cd_blocks db')) \<and>
    (r = Inr () \<longrightarrow> (\<forall>n. canon (cd_blocks db') n \<noteq> None \<longrightarrow> n \<le> uint head))"
  using assms
proof (induction "unat head + 1 - unat nxt" arbitrary: nxt db k rule: less_induct)
  case less
  show ?case
  proof (cases "nxt \<le> head")
    case False
    then have "index_loop N mode head nxt db k = Some (Inr (), db, k)" by (rule index_loop_done)
    then have "db' = db" using less.prems(1) by simp
    then show ?thesis using less.prems(3-5) by (fastforce simp: ready_def)
  next
    case True
    from less.prems(1) True show ?thesis
    proof (cases rule: index_loop_Suc)
      case failed
      then show ?thesis using less.prems by simp
    next
      case (parent block e)
      then show ?thesis using rolled_ok [OF ensure_parent_cases(1) [OF parent(2) less.prems(2)] less.prems(4)] by simp
    next
      case (unstored block db1 k1 e)
      then have "db' = db" using index_bridge_deposits_cases(2) ensure_parent_cases(2) [OF _ less.prems(2)] by metis
      then show ?thesis using less.prems unstored(4) by simp
    next
      case (stored block db1 k1 db2 k2)
      note i = index_block_ok [OF less.prems(2) stored(1) less.prems(3,4) stored(2,3)]
      have u: "uint (nxt + 1) = uint nxt + 1" by (rule uint_succ [OF i(5)])
      have "unat (nxt + 1) = unat nxt + 1" by (rule unat_succ [OF i(5)])
      then have m: "unat head + 1 - unat (nxt + 1) < unat head + 1 - unat nxt" using True by (simp add: word_le_nat_alt)
      have "uint (nxt + 1) \<le> uint head + 1" using True u by (simp add: word_le_def)
      from less.hyps [OF m stored(4) [unfolded i(4)] less.prems(2) i(3) [unfolded i(4)] i(1) this]
      show ?thesis using keeps_trans [OF i(2)] by simp
    qed
  qed
qed

lemma index_loop_returns:
  assumes "honest N" "ready nxt (cd_blocks db)" "chain_ok (cd_blocks db)"
  shows "index_loop N mode head nxt db k \<noteq> None"
  using assms
proof (induction "unat head + 1 - unat nxt" arbitrary: nxt db k rule: less_induct)
  case less
  show ?case
  proof
    assume none: "index_loop N mode head nxt db k = None"
    then have le: "nxt \<le> head" using index_loop_done by fastforce
    note e = none [unfolded index_loop_unfold [OF le]]
    from e obtain block where b: "nd_block N k nxt = Inr block" by (cases "nd_block N k nxt") auto
    obtain r1 db1 k1 where 1: "ensure_parent N mode block db (Suc k) = Some (r1, db1, k1)"
      using ensure_parent_returns [OF less.prems(1)] by (metis not_None_eq prod_cases3)
    obtain r2 db2 k2 where 2: "index_bridge_deposits N block db1 k1 = (r2, db2, k2)" by (metis prod_cases3)
    have 3: "r1 = Inr ()" using e b 1 by (cases r1) simp_all
    have 4: "r2 = Inr ()" using e b 1 2 3 by (cases r2) simp_all
    have 5: "index_loop N mode head (br_number block + 1) db2 k2 = None" using e b 1 2 3 4 by simp
    have i: "chain_ok (cd_blocks db2)" "ready (br_number block + 1) (cd_blocks db2)" "br_number block = nxt" "uint nxt < 2 ^ 63"
      using index_block_ok [OF less.prems(1) b less.prems(2,3) 1 [unfolded 3] 2 [unfolded 4]] by simp_all
    have "unat (nxt + 1) = unat nxt + 1" by (rule unat_succ [OF i(4)])
    then have m: "unat head + 1 - unat (nxt + 1) < unat head + 1 - unat nxt"
      using le [unfolded word_le_nat_alt] by linarith
    show False using less.hyps [OF m less.prems(1) i(2) [unfolded i(3)] i(1), of k2] 5 i(3) by simp
  qed
qed

lemma check_tip_cases:
  assumes "check_tip N mode head db k = Some (r, db', k')" "honest N" "chain_ok (cd_blocks db)"
  shows "rolled mode db db'" "r = Inr () \<Longrightarrow> canon (cd_blocks db') n \<noteq> None \<Longrightarrow> n \<le> uint head"
proof -
  show "rolled mode db db'"
    using assms(1) unfolding check_tip_def
    by (auto split: option.splits if_splits sum.splits prod.splits dest: rollback_to_cases(1))
  assume r: "r = Inr ()" and n: "canon (cd_blocks db') n \<noteq> None"
  have d: "distinct (map fst (cd_blocks db))" using assms(3) by (simp add: chain_ok_def)
  show "n \<le> uint head"
  proof (cases "latest_canonical (cd_blocks db)")
    case None
    then show ?thesis using assms(1) r n latest_canonical_None [OF d None] by (simp add: check_tip_def)
  next
    case (Some mh)
    then obtain m h where mh: "latest_canonical (cd_blocks db) = Some (m, h)" by (cases mh) simp
    note l = latest_canonical_Some [OF d mh]
    consider "db' = db" "m \<le> uint head"
      | remote a k2 k3 where "nd_block N k head = Inr remote" "rollback_to N mode remote db k2 = Some (Inr a, db', k3)"
      using assms(1) r mh unfolding check_tip_def
      by (auto split: if_splits sum.splits option.splits prod.splits)
    then show ?thesis
    proof cases
      case 1
      then show ?thesis using l(3) [of n] n by simp
    next
      case (2 remote a k2 k3)
      then obtain k4 where c: "common_ancestor N (cd_blocks db) k2 remote = Some (Inr a, k4)"
        "rollback_canonical_chain mode a db = Inr db'" using rollback_to_cases(2) by blast
      have "a \<le> head" using common_ancestor_le [OF c(1) assms(2)] 2(1) assms(2) by (simp add: honest_def)
      moreover have "n \<le> uint a" using rollback_canonical_chain_ok(3) [OF c(2) assms(3), of n] n by (simp split: if_splits)
      ultimately show ?thesis by (simp add: word_le_def)
    qed
  qed
qed

lemma check_tip_returns: "honest N \<Longrightarrow> check_tip N mode head db k \<noteq> None"
  by (simp add: check_tip_def rollback_to_returns split: option.splits sum.splits prod.splits)

lemma first_block_ready:
  assumes "first_block cfg head t = Inr nxt" "chain_ok t" "\<And>n. canon t n \<noteq> None \<Longrightarrow> n \<le> uint head"
  shows "ready nxt t" "uint nxt \<le> uint head + 1"
proof -
  have d: "distinct (map fst t)" using assms(2) by (simp add: chain_ok_def)
  have "ready nxt t \<and> uint nxt \<le> uint head + 1"
  proof (cases "latest_canonical t")
    case None
    then show ?thesis
      using assms(1) latest_canonical_None [OF d None] by (auto simp: first_block_def ready_def min_def word_le_def)
  next
    case (Some mh)
    then obtain m h where mh: "latest_canonical t = Some (m, h)" by (cases mh) simp
    note l = latest_canonical_Some [OF d mh]
    have m: "0 \<le> m" "m < 2 ^ 63" using l(1) assms(2) by (simp_all add: chain_ok_def)
    then have "uint (word_of_int m :: u64) = m" by (simp add: uint_word_of_int_eq take_bit_int_eq_self)
    then have "uint nxt = m + 1" using uint_succ [of "word_of_int m"] m assms(1) mh by (auto simp: first_block_def ensure_Inr)
    then show ?thesis using l assms(3) by (fastforce simp: ready_def)
  qed
  then show "ready nxt t" "uint nxt \<le> uint head + 1" by simp_all
qed

lemma highest_finalized_le:
  assumes "distinct (map fst t)" "canon t n = Some b" "bw_finalized b"
  shows "\<exists>f. highest_finalized t = Some f \<and> n \<le> f"
proof -
  have "n \<in> set (map fst (filter (\<lambda>(_, b). bw_canonical b \<and> bw_finalized b) t))"
    using assms by (force simp: canon_def bind_eq_Some_conv split: if_splits dest: map_of_SomeD)
  then obtain m ms where m: "map fst (filter (\<lambda>(_, b). bw_canonical b \<and> bw_finalized b) t) = m # ms" "n \<in> set (m # ms)"
    by (metis list.exhaust list.set_cases)
  then show ?thesis using fold_max(1) [OF m(2)] by (simp add: highest_finalized_def)
qed

lemma mark_finalized_keys [simp]: "map fst (mark_finalized f t) = map fst t"
  by (induction t) (auto simp: mark_finalized_def)

lemma chain_ok_mark_finalized: "chain_ok t \<Longrightarrow> chain_ok (mark_finalized f t)"
  unfolding chain_ok_def canon_mark_finalized mark_finalized_keys by fastforce

lemma advance_finality_ok:
  assumes "advance_finality cfg head finalized_block head_block db = Inr db'" "chain_ok (cd_blocks db)"
  shows "chain_ok (cd_blocks db')" "canon (cd_blocks db') n \<noteq> None \<longleftrightarrow> canon (cd_blocks db) n \<noteq> None"
    "canonical_hash (uint head) (cd_blocks db') = Some (br_hash head_block)" "cd_head db' = Some (uint head, br_hash head_block)"
    "finalized_block \<noteq> None \<Longrightarrow> keeps_finalized (cd_blocks db) (cd_blocks db')"
proof -
  obtain through f where t: "finalized_through cfg head finalized_block (cd_blocks db) = Inr through"
    "optional_bigint through = Inr f" "cd_blocks db' = mark_finalized f (cd_blocks db)"
    "canonical_hash (uint head) (cd_blocks db) = Some (br_hash head_block)" "cd_head db' = Some (uint head, br_hash head_block)"
    using assms(1) by (auto simp: advance_finality_def res_simps)
  have c: "canon (cd_blocks db') k = map_option (\<lambda>b. b\<lparr>bw_finalized := (case f of None \<Rightarrow> False | Some f \<Rightarrow> k \<le> f)\<rparr>)
      (canon (cd_blocks db) k)" for k by (simp add: t(3) canon_mark_finalized)
  show "cd_head db' = Some (uint head, br_hash head_block)" by (rule t(5))
  show "canonical_hash (uint head) (cd_blocks db') = Some (br_hash head_block)"
    using t(4) by (auto simp: canonical_hash_canon c)
  show "canon (cd_blocks db') n \<noteq> None \<longleftrightarrow> canon (cd_blocks db) n \<noteq> None" by (simp add: c)
  show "chain_ok (cd_blocks db')" using assms(2) by (simp add: t(3) chain_ok_mark_finalized)
  show "keeps_finalized (cd_blocks db) (cd_blocks db')" if fb: "finalized_block \<noteq> None"
    unfolding keeps_finalized_def
  proof (intro allI impI)
    fix k b assume b: "canon (cd_blocks db) k = Some b" "bw_finalized b"
    then obtain g where g: "highest_finalized (cd_blocks db) = Some g" "k \<le> g"
      using highest_finalized_le [OF _ b] assms(2) unfolding chain_ok_def by blast
    from fb obtain block where "finalized_block = Some block" by blast
    with t(1,2) g have "f = Some (uint (br_number block))" "k \<le> uint (br_number block)"
      by (auto simp: finalized_through_def optional_bigint_def res_simps split: option.splits)
    then show "\<exists>b'. canon (cd_blocks db') k = Some b' \<and> bw_finalized b' \<and> bw_hash b' = bw_hash b" using b by (simp add: c)
  qed
qed

lemma index_blocks_cases:
  assumes "index_blocks cfg N head finalized_block db k = Some (r, db', k')"
  obtains (tip) e where "check_tip N (ic_finality_mode cfg) head db k = Some (Inl e, db', k')" "r = Inl e"
    | (first) e k1 where "check_tip N (ic_finality_mode cfg) head db k = Some (Inr (), db', k1)" "r = Inl e"
    | (loop) db1 k1 nxt db2 k2 r2 where "check_tip N (ic_finality_mode cfg) head db k = Some (Inr (), db1, k1)"
        "first_block cfg head (cd_blocks db1) = Inr nxt"
        "index_loop N (ic_finality_mode cfg) head nxt db1 k1 = Some (r2, db2, k2)" "db' = db2" "r \<noteq> Inr ()"
    | (finality) db1 k1 nxt db2 k2 head_block where "check_tip N (ic_finality_mode cfg) head db k = Some (Inr (), db1, k1)"
        "first_block cfg head (cd_blocks db1) = Inr nxt"
        "index_loop N (ic_finality_mode cfg) head nxt db1 k1 = Some (Inr (), db2, k2)"
        "nd_block N k2 head = Inr head_block" "advance_finality cfg head finalized_block head_block db2 = Inr db'"
proof -
  note e = assms [unfolded index_blocks_def]
  obtain r1 db1 k1 where 1: "check_tip N (ic_finality_mode cfg) head db k = Some (r1, db1, k1)"
    using e by (cases "check_tip N (ic_finality_mode cfg) head db k") auto
  show thesis
  proof (cases r1)
    case (Inl x)
    then have "r1 = r \<and> db1 = db' \<and> k1 = k'" using e 1 by simp
    then show ?thesis using 1 Inl tip by blast
  next
    case (Inr u)
    then have 1: "check_tip N (ic_finality_mode cfg) head db k = Some (Inr (), db1, k1)" using 1 by simp
    show ?thesis
    proof (cases "first_block cfg head (cd_blocks db1)")
      case (Inl x)
      then have "r = Inl x \<and> db1 = db'" using e 1 by auto
      then show ?thesis using 1 first by blast
    next
      case (Inr nxt)
      then obtain r2 db2 k2 where 2: "index_loop N (ic_finality_mode cfg) head nxt db1 k1 = Some (r2, db2, k2)"
        using e 1 by (cases "index_loop N (ic_finality_mode cfg) head nxt db1 k1") auto
      show ?thesis
      proof (cases "\<exists>hb. r2 = Inr () \<and> nd_block N k2 head = Inr hb \<and> \<not> isl (advance_finality cfg head finalized_block hb db2)")
        case True
        then show ?thesis using e 1 Inr 2 finality [OF 1 Inr] by (auto split: sum.splits)
      next
        case False
        then have "db' = db2 \<and> r \<noteq> Inr ()" using e 1 Inr 2 by (auto split: sum.splits)
        then show ?thesis using loop [OF 1 Inr 2] by blast
      qed
    qed
  qed
qed

subsection \<open>Properties\<close>

text \<open>
  C23: The index is a chain that ends in the head of the node.  Whatever blocks the node returns while it is asked,
  after a successful pass the canonical rows are contiguous, each row names the row below it as its parent, the
  row at the head's height has the hash of the head block that the node then returned, and no canonical row is above it.
\<close>

theorem index_ends_in_head:
  assumes "honest N" "chain_ok (cd_blocks db)" "index_blocks cfg N head finalized_block db k = Some (Inr (), db', k')"
  shows "chain_ok (cd_blocks db') \<and>
    (\<exists>j b. nd_block N j head = Inr b \<and> canonical_hash (uint head) (cd_blocks db') = Some (br_hash b) \<and>
       cd_head db' = Some (uint head, br_hash b)) \<and>
    (\<forall>n. uint head < n \<longrightarrow> canonical_hash n (cd_blocks db') = None)"
  using assms(3)
proof (cases rule: index_blocks_cases)
  case (finality db1 k1 nxt db2 k2 head_block)
  have 1: "chain_ok (cd_blocks db1)" using rolled_ok(1) [OF check_tip_cases(1) [OF finality(1) assms(1,2)] assms(2)] .
  have top: "n \<le> uint head" if "canon (cd_blocks db1) n \<noteq> None" for n
    using check_tip_cases(2) [OF finality(1) assms(1,2) refl that] .
  note l = index_loop_ok [OF finality(3) assms(1) first_block_ready(1) [OF finality(2) 1 top] 1
    first_block_ready(2) [OF finality(2) 1 top]]
  have 2: "chain_ok (cd_blocks db2)" using l by blast
  note a = advance_finality_ok [OF finality(5) 2]
  have "canon (cd_blocks db') n = None" if "uint head < n" for n
  proof -
    have "canon (cd_blocks db2) n = None" using l that by fastforce
    then show ?thesis using a(2) [of n] by blast
  qed
  then show ?thesis using a(1,3,4) finality(4) by (auto simp: canonical_hash_canon)
qed simp_all

text \<open>
  C24: A finalized block is permanent.  In finalized mode no pass of the indexer, successful or not, changes the hash of
  a block that was marked as finalized, makes it non-canonical or takes its finality back, however the node answers.
\<close>

theorem finalized_blocks_permanent:
  assumes "honest N" "chain_ok (cd_blocks db)" "ic_finality_mode cfg = Finalized"
    and "index_blocks cfg N head (Some f) db k = Some (r, db', k')"
  shows "keeps_finalized (cd_blocks db) (cd_blocks db') \<and> chain_ok (cd_blocks db')"
proof -
  have tip: "chain_ok (cd_blocks db1)" "keeps_finalized (cd_blocks db) (cd_blocks db1)"
    if "check_tip N (ic_finality_mode cfg) head db k = Some (r1, db1, k1)" for r1 db1 k1
    using rolled_ok [OF check_tip_cases(1) [OF that assms(1,2)] assms(2)] assms(3) by simp_all
  have passed: "chain_ok (cd_blocks db2)" "keeps_finalized (cd_blocks db) (cd_blocks db2)"
    if "check_tip N (ic_finality_mode cfg) head db k = Some (Inr (), db1, k1)" "first_block cfg head (cd_blocks db1) = Inr nxt"
      "index_loop N (ic_finality_mode cfg) head nxt db1 k1 = Some (r2, db2, k2)" for db1 k1 nxt r2 db2 k2
  proof -
    note top = check_tip_cases(2) [OF that(1) assms(1,2) refl]
    note f = first_block_ready [OF that(2) tip(1) [OF that(1)] top]
    have "chain_ok (cd_blocks db2) \<and> keeps_finalized (cd_blocks db1) (cd_blocks db2)"
      using index_loop_ok [OF that(3) assms(1) f(1) tip(1) [OF that(1)] f(2)] assms(3) by simp
    then show "chain_ok (cd_blocks db2)" "keeps_finalized (cd_blocks db) (cd_blocks db2)"
      using keeps_trans [OF tip(2) [OF that(1)]] by simp_all
  qed
  from assms(4) show ?thesis
  proof (cases rule: index_blocks_cases)
    case (finality db1 k1 nxt db2 k2 head_block)
    note l = passed [OF finality(1-3)]
    note a = advance_finality_ok [OF finality(5) l(1)]
    show ?thesis using a(1) keeps_trans [OF l(2) a(5)] by simp
  next
    case (loop db1 k1 nxt db2 k2 r2)
    then show ?thesis using passed [OF loop(1-3)] by simp
  qed (use tip in simp_all)
qed

text \<open>
  C25: The indexer does not hang.  A pass ends with a result or an error for every state of the index and every
  sequence of answers, also when the node changes the chain between any two requests.
\<close>

theorem index_blocks_returns:
  assumes "honest N" "chain_ok (cd_blocks db)"
  shows "\<exists>r db' k'. index_blocks cfg N head finalized_block db k = Some (r, db', k')"
proof -
  obtain r1 db1 k1 where 1: "check_tip N (ic_finality_mode cfg) head db k = Some (r1, db1, k1)"
    using check_tip_returns [OF assms(1)] by (metis not_None_eq prod_cases3)
  show ?thesis
  proof (cases "\<exists>nxt. r1 = Inr () \<and> first_block cfg head (cd_blocks db1) = Inr nxt")
    case False
    then show ?thesis using 1 by (auto simp: index_blocks_def split: sum.splits)
  next
    case True
    then obtain nxt where n: "r1 = Inr ()" "first_block cfg head (cd_blocks db1) = Inr nxt" by blast
    have c: "chain_ok (cd_blocks db1)" using rolled_ok(1) [OF check_tip_cases(1) [OF 1 assms] assms(2)] .
    have "ready nxt (cd_blocks db1)"
      using first_block_ready(1) [OF n(2) c] check_tip_cases(2) [OF 1 assms n(1)] by blast
    from index_loop_returns [OF assms(1) this c, of "ic_finality_mode cfg" head k1]
    obtain r2 db2 k2 where "index_loop N (ic_finality_mode cfg) head nxt db1 k1 = Some (r2, db2, k2)"
      by (metis not_None_eq prod_cases3)
    then show ?thesis using 1 n by (auto simp: index_blocks_def split: sum.splits)
  qed
qed

text \<open>
  A node whose chain forks after block 101 from the one that was indexed: a pass over the fork rolls back to block 101 and
  follows it.
\<close>

definition fork_block :: "u64 \<Rightarrow> block_ref" where
  "fork_block n = \<lparr>br_number = n, br_hash = (if n \<le> 101 then [ucast n] else [ucast n, 1]),
     br_parent_hash = (if n \<le> 102 then [ucast n - 1] else [ucast n - 1, 1])\<rparr>"

definition fork_node :: node where
  "fork_node = \<lparr>nd_block = (\<lambda>_ n. Inr (fork_block n)), nd_deposits = (\<lambda>_ _. Inr [])\<rparr>"

definition fork_config :: index_config where
  "fork_config = \<lparr>ic_start_block = None, ic_finality_mode = Finalized, ic_confirmations = 1,
     ic_fee_payer_public_key = None\<rparr>"

definition fork_db :: chain_db where
  "fork_db = (sample_db [])\<lparr>cd_blocks := mark_finalized (Some 101) (cd_blocks (sample_db []))\<rparr>"

definition fork_pass :: "unit outcome option" where
  "fork_pass = index_blocks fork_config fork_node 103 (Some (fork_block 101)) fork_db 0"

lemma fork_honest: "honest fork_node"
  by (simp add: honest_def fork_node_def fork_block_def)

lemma fork_chain_ok: "chain_ok (cd_blocks fork_db)"
proof -
  have "chain_ok (cd_blocks (sample_db []))"
    by (auto simp: chain_ok_def canon_def sample_db_def split: if_splits)
  then show ?thesis by (simp add: fork_db_def chain_ok_mark_finalized)
qed

lemma fork_pass_succeeds: "map_option (\<lambda>(r, _). isl r) fork_pass = Some False"
  by code_simp

lemma fork_pass_result:
  obtains db k where "index_blocks fork_config fork_node 103 (Some (fork_block 101)) fork_db 0 = Some (Inr (), db, k)"
proof -
  obtain r db k where r: "fork_pass = Some (r, db, k)" "\<not> isl r" using fork_pass_succeeds by auto
  then have "r = Inr ()" by (cases r) simp_all
  then show thesis using that r by (simp add: fork_pass_def)
qed

theorem index_ends_in_head_witness:
  "\<exists>db k. fork_pass = Some (Inr (), db, k) \<and> canonical_hash 103 (cd_blocks db) = Some [103, 1] \<and> chain_ok (cd_blocks db)"
proof -
  obtain db k where p: "index_blocks fork_config fork_node 103 (Some (fork_block 101)) fork_db 0 = Some (Inr (), db, k)"
    by (rule fork_pass_result)
  have "br_hash (fork_block 103) = [103, 1]" by code_simp
  then show ?thesis
    using index_ends_in_head [OF fork_honest fork_chain_ok p] p by (auto simp: fork_node_def fork_pass_def)
qed

theorem finalized_blocks_permanent_witness:
  "\<exists>db k. fork_pass = Some (Inr (), db, k) \<and> (\<exists>b. canon (cd_blocks db) 101 = Some b \<and> bw_finalized b \<and> bw_hash b = [101])"
proof -
  obtain db k where p: "index_blocks fork_config fork_node 103 (Some (fork_block 101)) fork_db 0 = Some (Inr (), db, k)"
    by (rule fork_pass_result)
  have f: "ic_finality_mode fork_config = Finalized" by (simp add: fork_config_def)
  obtain b where b: "canon (cd_blocks fork_db) 101 = Some b" "bw_finalized b" "bw_hash b = [101]"
  proof
    show "canon (cd_blocks fork_db) 101 = Some \<lparr>bw_hash = [101], bw_parent_hash = [100], bw_canonical = True, bw_finalized = True\<rparr>"
      by code_simp
  qed simp_all
  show ?thesis
    using finalized_blocks_permanent [OF fork_honest fork_chain_ok f p] b p
    unfolding keeps_finalized_def fork_pass_def by metis
qed

theorem index_blocks_returns_witness:
  "\<exists>r db k. index_blocks fork_config fork_node 103 (Some (fork_block 101)) fork_db 0 = Some (r, db, k)"
  by (rule index_blocks_returns [OF fork_honest fork_chain_ok])

subsection \<open>Deposits that change their order\<close>

text \<open>
  C37: A deposit that gets another nonce in the new chain stops the indexer.  A rollback keeps the rows of removed deposits,
  so when a transaction is included again with the same log index and another nonce (two deposits in neighbouring blocks
  that swap places), the unique index over transaction and log refuses the row and its block cannot be indexed.
\<close>

theorem reordered_deposit_blocks_index:
  assumes "rollback_after ancestor db = Inr db'" "(n, r) \<in> set (cd_deposits db)" "nd_deposits N k block = Inr (d # ds)"
    and "n \<noteq> uint (dl_nonce d)" "dl_transaction_hash (dp_log r) = dl_transaction_hash d"
    and "dl_log_index (dp_log r) = dl_log_index d"
  shows "\<exists>e. index_bridge_deposits N block db' k = (Inl e, db', Suc k)"
proof -
  have l: "dp_log (rollback_deposit a t r) = dp_log r" for a t by (simp add: rollback_deposit_def Let_def)
  obtain a h g where "db' = (rollback_data a db)\<lparr>cd_history := h, cd_gateway := g\<rparr>"
    using assms(1) unfolding rollback_after_Inr by blast
  then have "cd_deposits db' = map (\<lambda>(n, d). (n, rollback_deposit a (gw_jobs (cd_gateway db)) d)) (cd_deposits db)"
    by (simp add: rollback_data_def)
  then have "log_taken (uint (dl_nonce d)) d (cd_deposits db')"
    using assms(2,4-6) l unfolding log_taken_def list_ex_iff
    by (intro bexI [of _ "(n, rollback_deposit a (gw_jobs (cd_gateway db)) r)"]) (auto intro: rev_image_eqI)
  then have "\<exists>e. store_deposit block d (cd_deposits db') = Inl e"
    by (auto simp: store_deposit_def ensure_def bigint_def expect_def i64_of_u64_def split: option.splits)
  then show ?thesis using assms(3) by (auto simp: index_bridge_deposits_def)
qed

definition swapped_log :: "u64 \<Rightarrow> bytes \<Rightarrow> u64 \<Rightarrow> bridge_deposit_log" where
  "swapped_log nonce tx n =
     \<lparr>dl_nonce = nonce, dl_deposit_leaf = [], dl_old_deposit_state = [], dl_new_deposit_state = [], dl_token = [],
      dl_sender = [], dl_zeko_recipient = [], dl_amount = 1, dl_zeko_amount = 1, dl_timeout = 0, dl_erc20_identity = None,
      dl_block_number = n, dl_block_hash = br_hash (fork_block n), dl_transaction_hash = tx, dl_log_index = 0\<rparr>"

theorem reordered_deposit_blocks_index_witness:
  "\<exists>db' e. rollback_after 101 (fork_db\<lparr>cd_deposits := [(1, new_deposit (swapped_log 1 [1] 102)), (2, new_deposit (swapped_log 2 [2] 103))]\<rparr>) =
       Inr db' \<and>
     index_bridge_deposits (fork_node\<lparr>nd_deposits := (\<lambda>_ _. Inr [swapped_log 1 [2] 102])\<rparr>) (fork_block 102) db' 0 = (Inl e, db', 1)"
proof -
  let ?db = "fork_db\<lparr>cd_deposits := [(1, new_deposit (swapped_log 1 [1] 102)), (2, new_deposit (swapped_log 2 [2] 103))]\<rparr>"
  have "\<not> isl (rollback_after 101 ?db)" by code_simp
  then obtain db' where r: "rollback_after 101 ?db = Inr db'" by (cases "rollback_after 101 ?db") auto
  have "(2, new_deposit (swapped_log 2 [2] 103)) \<in> set (cd_deposits ?db)" by simp
  from reordered_deposit_blocks_index [OF r this, of "fork_node\<lparr>nd_deposits := (\<lambda>_ _. Inr [swapped_log 1 [2] 102])\<rparr>" 0 "fork_block 102"
      "swapped_log 1 [2] 102" "[]"] r
  show ?thesis by (auto simp: swapped_log_def new_deposit_def)
qed

end
