(* ===== verification/Explorer_Events.thy ===== *)
theory Explorer_Events
  imports Block_Index
begin

text \<open>
  \<open>index_explorer_events_through\<close> of \<open>api/src/indexer.rs\<close>: after the blocks, the accepted bridge transitions, the
  accepted settlements, their inner-action batches and the native claims are read from the contract logs, in ranges of at most a
  thousand blocks, up to the head of the pass.  The last block that was read is stored after each range, so a failed
  pass continues from there.

  As in \<open>Block_Index\<close> the node answers each request by its number, and a failure keeps the rows that were written before.
\<close>

subsection \<open>The logs\<close>

record log_node =
  ln_transitions :: "nat \<Rightarrow> u64 \<Rightarrow> u64 \<Rightarrow> failure + bridge_transition_log list"
  ln_settlements :: "nat \<Rightarrow> u64 \<Rightarrow> u64 \<Rightarrow> failure + settlement_accepted_log list"
  ln_batches :: "nat \<Rightarrow> u64 \<Rightarrow> u64 \<Rightarrow> failure + inner_action_batch_log list"
  ln_claims :: "nat \<Rightarrow> u64 \<Rightarrow> u64 \<Rightarrow> failure + withdrawal_claimed_log list"

text \<open>\<open>ON CONFLICT \<dots> DO UPDATE\<close> of every column but the key.\<close>

definition put_row :: "('r \<Rightarrow> 'k) \<Rightarrow> 'r \<Rightarrow> 'r list \<Rightarrow> 'r list" where
  "put_row key r t = (if list_ex (\<lambda>x. key x = key r) t then map (\<lambda>x. if key x = key r then r else x) t else t @ [r])"

definition transition_key :: "transition_row \<Rightarrow> bytes \<times> u64" where
  "transition_key r = (tl_transaction_hash (tr_log r), tl_log_index (tr_log r))"

definition settlement_key :: "settlement_row \<Rightarrow> bytes \<times> u64" where
  "settlement_key r = (sl_transaction_hash (se_log r), sl_log_index (se_log r))"

definition claim_key :: "claim_row_data \<Rightarrow> u64 \<times> u32" where
  "claim_key r = (wl_settlement_sequence (wc_log r), wl_global_action_index (wc_log r))"

definition store_transition :: "bridge_transition_log \<Rightarrow> chain_db \<Rightarrow> failure + chain_db" where
  "store_transition l db =
     and_then (bigint (tl_new_deposit_nonce l)) (\<lambda>_.
     and_then (bigint (tl_block_number l)) (\<lambda>_.
     and_then (bigint (tl_log_index l)) (\<lambda>_.
     Inr (db\<lparr>cd_transitions := put_row transition_key \<lparr>tr_log = l, tr_removed = False\<rparr> (cd_transitions db)\<rparr>))))"

definition store_settlement :: "settlement_accepted_log \<Rightarrow> chain_db \<Rightarrow> failure + chain_db" where
  "store_settlement l db =
     and_then (bigint (sl_batch_sequence l)) (\<lambda>_.
     and_then (bigint (sl_block_number l)) (\<lambda>_.
     and_then (bigint (sl_log_index l)) (\<lambda>_.
     Inr (db\<lparr>cd_settlements :=
       put_row settlement_key \<lparr>se_log = l, se_batch = None, se_removed = False\<rparr> (cd_settlements db)\<rparr>))))"

definition batch_of_settlement :: "inner_action_batch_log \<Rightarrow> settlement_row \<Rightarrow> bool" where
  "batch_of_settlement l r \<longleftrightarrow> sl_batch_sequence (se_log r) = bl_batch_sequence l \<and>
     sl_transaction_hash (se_log r) = bl_transaction_hash l \<and> sl_inner_action_state (se_log r) = bl_state_after l \<and>
     \<not> se_removed r"

text \<open>The update is committed before the number of rows is checked.\<close>

definition store_batch :: "inner_action_batch_log \<Rightarrow> chain_db \<Rightarrow> (failure + unit) \<times> chain_db" where
  "store_batch l db =
     (case bigint (bl_batch_sequence l) of
        Inl e \<Rightarrow> (Inl e, db)
      | Inr _ \<Rightarrow>
          (ensure (length (filter (batch_of_settlement l) (cd_settlements db)) = 1)
             (plain_failure ''inner-action batch event did not match its settlement event'') (Inr ()),
           db\<lparr>cd_settlements := map (\<lambda>r. if batch_of_settlement l r then r\<lparr>se_batch := Some l\<rparr> else r) (cd_settlements db)\<rparr>))"

text \<open>The table of claims also admits one row for each transaction and log index.\<close>

definition store_claim :: "withdrawal_claimed_log \<Rightarrow> chain_db \<Rightarrow> failure + chain_db" where
  "store_claim l db =
     and_then (bigint (wl_settlement_sequence l)) (\<lambda>_.
     and_then (bigint (wl_block_number l)) (\<lambda>_.
     and_then (bigint (wl_log_index l)) (\<lambda>_.
     let r = \<lparr>wc_log = l, wc_removed = False\<rparr> in
     ensure (\<not> list_ex (\<lambda>x. claim_key x \<noteq> claim_key r \<and> wl_transaction_hash (wc_log x) = wl_transaction_hash l \<and>
         wl_log_index (wc_log x) = wl_log_index l) (cd_claims db))
       (plain_failure ''duplicate key value violates unique constraint'')
       (Inr (db\<lparr>cd_claims := put_row claim_key r (cd_claims db)\<rparr>)))))"

text \<open>A statement that changes nothing when it fails.\<close>

definition atomically :: "('l \<Rightarrow> chain_db \<Rightarrow> failure + chain_db) \<Rightarrow> 'l \<Rightarrow> chain_db \<Rightarrow> (failure + unit) \<times> chain_db" where
  "atomically f l db = (case f l db of Inl e \<Rightarrow> (Inl e, db) | Inr db' \<Rightarrow> (Inr (), db'))"

fun store_logs ::
  "('l \<Rightarrow> chain_db \<Rightarrow> (failure + unit) \<times> chain_db) \<Rightarrow> 'l list \<Rightarrow> chain_db \<Rightarrow> (failure + unit) \<times> chain_db" where
  "store_logs f [] db = (Inr (), db)"
| "store_logs f (l # ls) db =
     (case f l db of (Inl e, db') \<Rightarrow> (Inl e, db') | (Inr _, db') \<Rightarrow> store_logs f ls db')"

definition index_logs ::
  "failure + 'l list \<Rightarrow> ('l \<Rightarrow> chain_db \<Rightarrow> (failure + unit) \<times> chain_db) \<Rightarrow> chain_db \<Rightarrow> nat \<Rightarrow> unit outcome" where
  "index_logs answer f db k =
     (case answer of
        Inl e \<Rightarrow> (Inl e, db, Suc k)
      | Inr ls \<Rightarrow> (case store_logs f ls db of (r, db') \<Rightarrow> (r, db', Suc k)))"

definition continue :: "unit outcome \<Rightarrow> (chain_db \<Rightarrow> nat \<Rightarrow> unit outcome) \<Rightarrow> unit outcome" where
  "continue r f = (case r of (Inl e, db, k) \<Rightarrow> (Inl e, db, k) | (Inr _, db, k) \<Rightarrow> f db k)"

definition index_explorer_events :: "log_node \<Rightarrow> u64 \<Rightarrow> u64 \<Rightarrow> chain_db \<Rightarrow> nat \<Rightarrow> unit outcome" where
  "index_explorer_events L from_block to_block db k =
     continue (index_logs (ln_transitions L k from_block to_block) (atomically store_transition) db k) (\<lambda>db k.
     continue (index_logs (ln_settlements L k from_block to_block) (atomically store_settlement) db k) (\<lambda>db k.
     continue (index_logs (ln_batches L k from_block to_block) store_batch db k) (\<lambda>db k.
     index_logs (ln_claims L k from_block to_block) (atomically store_claim) db k)))"

subsection \<open>The ranges\<close>

definition saturating_add :: "u64 \<Rightarrow> u64 \<Rightarrow> u64" where
  "saturating_add a b = (case checked_add a b of Some c \<Rightarrow> c | None \<Rightarrow> - 1)"

definition range_end :: "u64 \<Rightarrow> u64 \<Rightarrow> u64" where
  "range_end nxt head = min (saturating_add nxt 999) head"

lemma unat_range_end: "unat (range_end nxt head) = min (unat nxt + 999) (unat head)"
proof -
  have "unat (saturating_add nxt 999) = min (unat nxt + 999) (2 ^ 64 - 1)"
  proof (cases "checked_add nxt 999")
    case None
    then have "2 ^ 64 \<le> unat nxt + 999" by (auto simp: checked_add_def split: if_splits)
    then show ?thesis using None by (simp add: saturating_add_def unsigned_minus_1_eq_mask mask_eq_exp_minus_1)
  next
    case (Some c)
    then have "unat c = unat nxt + 999" by (simp add: checked_add_Some)
    then show ?thesis using Some unat_less_pow [of c] by (simp add: saturating_add_def)
  qed
  then show ?thesis using unat_less_pow [of head] by (simp add: range_end_def min_def word_le_nat_alt)
qed

function explorer_loop :: "log_node \<Rightarrow> u64 \<Rightarrow> u64 \<Rightarrow> chain_db \<Rightarrow> nat \<Rightarrow> unit outcome" where
  "explorer_loop L head nxt db k =
     (if head < nxt then (Inr (), db, k)
      else case index_explorer_events L nxt (range_end nxt head) db k of
          (Inl e, db, k) \<Rightarrow> (Inl e, db, k)
        | (Inr _, db, k) \<Rightarrow>
            (case bigint (range_end nxt head) of
               Inl e \<Rightarrow> (Inl e, db, k)
             | Inr n \<Rightarrow>
                 if range_end nxt head = head then (Inr (), db\<lparr>cd_explorer_last := Some n\<rparr>, k)
                 else explorer_loop L head (range_end nxt head + 1) (db\<lparr>cd_explorer_last := Some n\<rparr>) k))"
  by pat_completeness auto

text \<open>Each range ends below the head and the next one starts behind it, so the loop ends.\<close>

termination explorer_loop
proof (relation "measure (\<lambda>(L, head, nxt, db, k). Suc (unat head) - unat nxt)", goal_cases)
  case (2 L head nxt db k)
  have "unat (range_end nxt head) < unat head"
    using 2(6) unat_range_end [of nxt head] by (metis min.cobounded2 nat_less_le word_unat_eq_iff)
  moreover from this have "unat (range_end nxt head + 1) = Suc (unat (range_end nxt head))"
    using unat_less_pow [of head] by (simp add: unat_word_ariths)
  ultimately show ?case using 2(1) unat_range_end [of nxt head] by (simp add: word_less_nat_alt)
qed simp

declare explorer_loop.simps [simp del]

definition first_indexed :: "block_table \<Rightarrow> int option" where
  "first_indexed t =
     (case map fst (filter (\<lambda>(_, b). bw_canonical b) t) of [] \<Rightarrow> None | n # ns \<Rightarrow> Some (fold min ns n))"

definition explorer_start :: "index_config \<Rightarrow> u64 \<Rightarrow> chain_db \<Rightarrow> failure + u64" where
  "explorer_start cfg head db =
     (case cd_explorer_last db of
        Some n \<Rightarrow> ensure (0 \<le> n) (plain_failure ''negative explorer index block'') (Inr (word_of_int n + 1))
      | None \<Rightarrow> Inr (min (case ic_start_block cfg of Some b \<Rightarrow> b
            | None \<Rightarrow> (case first_indexed (cd_blocks db) of None \<Rightarrow> head
                | Some n \<Rightarrow> if 0 \<le> n then word_of_int n else head)) head))"

definition index_explorer_events_through :: "index_config \<Rightarrow> log_node \<Rightarrow> u64 \<Rightarrow> chain_db \<Rightarrow> nat \<Rightarrow> unit outcome" where
  "index_explorer_events_through cfg L head db k =
     (case explorer_start cfg head db of
        Inl e \<Rightarrow> (Inl e, db, k)
      | Inr nxt \<Rightarrow> explorer_loop L head nxt db k)"

subsection \<open>Stored events\<close>

lemma put_row_in: "r \<in> set (put_row key r t)"
  by (auto simp: put_row_def list_ex_iff image_iff)

lemma put_row_keeps: "x \<in> set t \<Longrightarrow> key x \<noteq> key r \<Longrightarrow> x \<in> set (put_row key r t)"
  by (auto simp: put_row_def image_iff)

lemma store_logs_frame:
  assumes "\<And>l db. part (snd (f l db)) = part db"
  shows "part (snd (store_logs f ls db)) = part db"
proof (induction ls arbitrary: db)
  case (Cons l ls)
  obtain r db' where f: "f l db = (r, db')" by fastforce
  then have "part db' = part db" using assms [of l db] by simp
  then show ?case using Cons.IH [of db'] f by (cases r) simp_all
qed simp

text \<open>
  A table of events: storing an event makes it present, and keeps the events with another key.  Then a run that succeeds
  makes all events of the list present.
\<close>

locale event_table =
  fixes store :: "'l \<Rightarrow> chain_db \<Rightarrow> (failure + unit) \<times> chain_db" and present :: "'l \<Rightarrow> chain_db \<Rightarrow> bool" and key :: "'l \<Rightarrow> 'k"
  assumes stored: "store l db = (Inr u, db') \<Longrightarrow> present l db'"
    and kept: "store l db = (r, db') \<Longrightarrow> present m db \<Longrightarrow> key m \<noteq> key l \<Longrightarrow> present m db'"
begin

lemma logs_present:
  assumes "store_logs store ls db = (Inr u, db')" "inj_on key (S \<union> set ls)" "\<And>m. m \<in> S \<Longrightarrow> present m db"
    and "m \<in> S \<union> set ls"
  shows "present m db'"
  using assms
proof (induction ls arbitrary: S db)
  case (Cons l ls)
  obtain v d where d: "store l db = (Inr v, d)" "store_logs store ls d = (Inr u, db')"
    using Cons.prems(1) by (auto split: prod.splits sum.splits)
  have "present x d" if "x \<in> insert l S" for x
    using stored [OF d(1)] kept [OF d(1)] Cons.prems(2,3) that by (cases "x = l") (auto simp: inj_on_def)
  then show ?case
    using Cons.IH [OF d(2), of "insert l S"] Cons.prems(2,4) by auto
qed simp

end

definition transition_present :: "bridge_transition_log \<Rightarrow> chain_db \<Rightarrow> bool" where
  "transition_present l db \<longleftrightarrow> \<lparr>tr_log = l, tr_removed = False\<rparr> \<in> set (cd_transitions db)"

definition settlement_present :: "settlement_accepted_log \<Rightarrow> chain_db \<Rightarrow> bool" where
  "settlement_present l db \<longleftrightarrow> (\<exists>b. \<lparr>se_log = l, se_batch = b, se_removed = False\<rparr> \<in> set (cd_settlements db))"

definition claim_present :: "withdrawal_claimed_log \<Rightarrow> chain_db \<Rightarrow> bool" where
  "claim_present l db \<longleftrightarrow> \<lparr>wc_log = l, wc_removed = False\<rparr> \<in> set (cd_claims db)"

lemma atomically_Inr: "atomically f l db = (Inr u, db') \<longleftrightarrow> f l db = Inr db'"
  by (simp add: atomically_def split: sum.splits)

lemma atomically_cases: "atomically f l db = (r, db') \<Longrightarrow> f l db = Inr db' \<or> db' = db"
  by (auto simp: atomically_def split: sum.splits)

interpretation transitions: event_table "atomically store_transition" transition_present
  "\<lambda>l. (tl_transaction_hash l, tl_log_index l)"
  by unfold_locales
    (auto simp: atomically_Inr store_transition_def res_simps transition_present_def put_row_in transition_key_def
      dest!: atomically_cases intro!: put_row_keeps)

interpretation settlements: event_table "atomically store_settlement" settlement_present
  "\<lambda>l. (sl_transaction_hash l, sl_log_index l)"
proof
  fix l u db db' assume "atomically store_settlement l db = (Inr u, db')"
  then show "settlement_present l db'"
    using put_row_in [of "\<lparr>se_log = l, se_batch = None, se_removed = False\<rparr>" settlement_key "cd_settlements db"]
    by (auto simp: atomically_Inr store_settlement_def res_simps settlement_present_def)
next
  fix l db r db' m
  assume "atomically store_settlement l db = (r, db')" "settlement_present m db"
    "(sl_transaction_hash m, sl_log_index m) \<noteq> (sl_transaction_hash l, sl_log_index l)"
  then show "settlement_present m db'"
    using put_row_keeps [of "\<lparr>se_log = m, se_batch = _, se_removed = False\<rparr>" "cd_settlements db" settlement_key
        "\<lparr>se_log = l, se_batch = None, se_removed = False\<rparr>"]
    by (auto simp: store_settlement_def res_simps settlement_present_def settlement_key_def dest!: atomically_cases) blast+
qed

interpretation claims: event_table "atomically store_claim" claim_present
  "\<lambda>l. (wl_settlement_sequence l, wl_global_action_index l)"
  by unfold_locales
    (auto simp: atomically_Inr store_claim_def res_simps claim_present_def put_row_in claim_key_def Let_def
      dest!: atomically_cases intro!: put_row_keeps)

text \<open>The other tables.\<close>

lemma atomically_frame: "(\<And>db'. f l db = Inr db' \<Longrightarrow> part db' = part db) \<Longrightarrow> part (snd (atomically f l db)) = part db"
  by (simp add: atomically_def split: sum.splits)

lemma store_frames:
  "cd_settlements (snd (atomically store_transition l db)) = cd_settlements db"
  "cd_claims (snd (atomically store_transition l db)) = cd_claims db"
  "cd_transitions (snd (atomically store_settlement m db)) = cd_transitions db"
  "cd_claims (snd (atomically store_settlement m db)) = cd_claims db"
  "cd_transitions (snd (store_batch b db)) = cd_transitions db"
  "cd_claims (snd (store_batch b db)) = cd_claims db"
  "cd_transitions (snd (atomically store_claim c db)) = cd_transitions db"
  "cd_settlements (snd (atomically store_claim c db)) = cd_settlements db"
  by (auto intro!: atomically_frame simp: store_transition_def store_settlement_def store_batch_def store_claim_def res_simps Let_def
      split: sum.splits)

lemma batch_keeps_settlement: "settlement_present l db \<Longrightarrow> settlement_present l (snd (store_batch b db))"
proof -
  assume "settlement_present l db"
  then obtain x where x: "\<lparr>se_log = l, se_batch = x, se_removed = False\<rparr> \<in> set (cd_settlements db)" (is "?r \<in> _")
    by (auto simp: settlement_present_def)
  let ?f = "\<lambda>r. if batch_of_settlement b r then r\<lparr>se_batch := Some b\<rparr> else r"
  obtain y where y: "?f ?r = \<lparr>se_log = l, se_batch = y, se_removed = False\<rparr>"
    by (cases "batch_of_settlement b ?r") simp_all
  have "?f ?r \<in> set (map ?f (cd_settlements db))" using x by (simp only: set_map image_eqI)
  then have "\<exists>y. \<lparr>se_log = l, se_batch = y, se_removed = False\<rparr> \<in> set (map ?f (cd_settlements db))" unfolding y by blast
  then show ?thesis
    using x unfolding settlement_present_def store_batch_def by (cases "bigint (bl_batch_sequence b)") auto
qed

subsection \<open>Completeness\<close>

text \<open>
  The events of a chain, and what \<open>eth_getLogs\<close> documents: a request that succeeds returns the events of the range.
  Transaction and log index identify an event, and a withdrawal is claimed once.
\<close>

record chain_events =
  ce_transitions :: "bridge_transition_log set"
  ce_settlements :: "settlement_accepted_log set"
  ce_claims :: "withdrawal_claimed_log set"

definition returns :: "('l \<Rightarrow> u64) \<Rightarrow> 'l set \<Rightarrow> (nat \<Rightarrow> u64 \<Rightarrow> u64 \<Rightarrow> failure + 'l list) \<Rightarrow> bool" where
  "returns block E ask \<longleftrightarrow> (\<forall>k a b ls. ask k a b = Inr ls \<longrightarrow> set ls = {l \<in> E. a \<le> block l \<and> block l \<le> b})"

definition serves :: "chain_events \<Rightarrow> log_node \<Rightarrow> bool" where
  "serves E L \<longleftrightarrow> returns tl_block_number (ce_transitions E) (ln_transitions L) \<and>
     returns sl_block_number (ce_settlements E) (ln_settlements L) \<and> returns wl_block_number (ce_claims E) (ln_claims L)"

definition distinct_events :: "chain_events \<Rightarrow> bool" where
  "distinct_events E \<longleftrightarrow> inj_on (\<lambda>l. (tl_transaction_hash l, tl_log_index l)) (ce_transitions E) \<and>
     inj_on (\<lambda>l. (sl_transaction_hash l, sl_log_index l)) (ce_settlements E) \<and>
     inj_on (\<lambda>l. (wl_settlement_sequence l, wl_global_action_index l)) (ce_claims E)"

definition recorded :: "chain_events \<Rightarrow> int set \<Rightarrow> chain_db \<Rightarrow> bool" where
  "recorded E R db \<longleftrightarrow>
     (\<forall>l \<in> ce_transitions E. uint (tl_block_number l) \<in> R \<longrightarrow> transition_present l db) \<and>
     (\<forall>l \<in> ce_settlements E. uint (sl_block_number l) \<in> R \<longrightarrow> settlement_present l db) \<and>
     (\<forall>l \<in> ce_claims E. uint (wl_block_number l) \<in> R \<longrightarrow> claim_present l db)"

lemma index_logs_Inr:
  "index_logs answer f db k = (Inr u, db', k') \<longleftrightarrow>
     (\<exists>ls. answer = Inr ls \<and> store_logs f ls db = (Inr u, db') \<and> k' = Suc k)"
  by (auto simp: index_logs_def split: sum.splits prod.splits)

lemma continue_Inr: "continue r f = (Inr u, db', k') \<longleftrightarrow> (\<exists>v db k. r = (Inr v, db, k) \<and> f db k = (Inr u, db', k'))"
  by (auto simp: continue_def split: prod.splits sum.splits)

lemma run_frame:
  assumes "store_logs f ls db = (r, db')" "\<And>l db. part (snd (f l db)) = part db"
  shows "part db' = part db"
  using store_logs_frame [of part f ls db, OF assms(2)] assms(1) by simp

lemma batches_keep_settlement:
  assumes "store_logs store_batch bs db = (r, db')" "settlement_present l db"
  shows "settlement_present l db'"
  using assms
proof (induction bs arbitrary: db)
  case (Cons b bs)
  obtain v d where d: "store_batch b db = (v, d)" by fastforce
  then have "settlement_present l d" using batch_keeps_settlement [OF Cons.prems(2), of b] by simp
  then show ?case using Cons.IH [of d] Cons.prems(1) d by (cases v) simp_all
qed simp

lemma range_recorded:
  assumes "index_explorer_events L a b db k = (Inr u, db', k')" "serves E L" "distinct_events E" "recorded E R db"
  shows "recorded E (R \<union> {uint a..uint b}) db'"
proof -
  obtain ts ss bs cs d1 d2 d3 i j m where run:
    "ln_transitions L i a b = Inr ts" "store_logs (atomically store_transition) ts db = (Inr (), d1)"
    "ln_settlements L j a b = Inr ss" "store_logs (atomically store_settlement) ss d1 = (Inr (), d2)"
    "store_logs store_batch bs d2 = (Inr (), d3)"
    "ln_claims L m a b = Inr cs" "store_logs (atomically store_claim) cs d3 = (Inr (), db')"
    using assms(1) unfolding index_explorer_events_def continue_Inr index_logs_Inr by auto
  have t: "cd_transitions db' = cd_transitions d1"
    using run_frame [OF run(4), of cd_transitions] run_frame [OF run(5), of cd_transitions] run_frame [OF run(7), of cd_transitions]
      store_frames by simp
  have s: "cd_settlements d1 = cd_settlements db" "cd_settlements db' = cd_settlements d3"
    using run_frame [OF run(2), of cd_settlements] run_frame [OF run(7), of cd_settlements] store_frames by simp_all
  have c: "cd_claims d3 = cd_claims db"
    using run_frame [OF run(2), of cd_claims] run_frame [OF run(4), of cd_claims] run_frame [OF run(5), of cd_claims]
      store_frames by simp
  have logs: "set ts = {l \<in> ce_transitions E. a \<le> tl_block_number l \<and> tl_block_number l \<le> b}"
      "set ss = {l \<in> ce_settlements E. a \<le> sl_block_number l \<and> sl_block_number l \<le> b}"
      "set cs = {l \<in> ce_claims E. a \<le> wl_block_number l \<and> wl_block_number l \<le> b}"
    using assms(2) run(1,3,6) by (auto simp: serves_def returns_def)
  let ?T = "{l \<in> ce_transitions E. uint (tl_block_number l) \<in> R}" and ?S = "{l \<in> ce_settlements E. uint (sl_block_number l) \<in> R}"
  let ?C = "{l \<in> ce_claims E. uint (wl_block_number l) \<in> R}"
  have "transition_present l d1" if "l \<in> ?T \<union> set ts" for l
    by (rule transitions.logs_present [OF run(2) _ _ that])
      (use assms(3,4) logs(1) in \<open>auto simp: distinct_events_def recorded_def intro: inj_on_subset\<close>)
  moreover have "settlement_present l d2" if "l \<in> ?S \<union> set ss" for l
    by (rule settlements.logs_present [OF run(4) _ _ that])
      (use assms(3,4) logs(2) s(1) in \<open>auto simp: distinct_events_def recorded_def settlement_present_def intro: inj_on_subset\<close>)
  moreover have "claim_present l db'" if "l \<in> ?C \<union> set cs" for l
    by (rule claims.logs_present [OF run(7) _ _ that])
      (use assms(3,4) logs(3) c in \<open>auto simp: distinct_events_def recorded_def claim_present_def intro: inj_on_subset\<close>)
  ultimately show ?thesis
    unfolding recorded_def using batches_keep_settlement [OF run(5)]
    by (auto simp: logs word_le_def t s(2) transition_present_def settlement_present_def)
qed

lemma recorded_last [simp]: "recorded E R (db\<lparr>cd_explorer_last := x\<rparr>) = recorded E R db"
  by (simp add: recorded_def transition_present_def settlement_present_def claim_present_def)

lemma bigint_uint: "bigint w = Inr n \<Longrightarrow> n = uint w \<and> uint w < 2 ^ 63"
  by (auto simp: bigint_def expect_def i64_of_u64_def split: option.splits if_splits)

lemma range_end_next:
  assumes "range_end nxt head \<noteq> head"
  shows "uint (range_end nxt head + 1) = uint (range_end nxt head) + 1" "range_end nxt head < head"
proof -
  have "unat (range_end nxt head) < unat head"
    using assms unat_range_end [of nxt head] by (metis min.cobounded2 nat_less_le word_unat_eq_iff)
  then show "range_end nxt head < head" by (simp add: word_less_nat_alt)
  have "unat (range_end nxt head + 1) = unat (range_end nxt head) + 1"
    using \<open>unat (range_end nxt head) < unat head\<close> unat_less_pow [of head] by (simp add: unat_word_ariths)
  then show "uint (range_end nxt head + 1) = uint (range_end nxt head) + 1" by (metis of_nat_1 of_nat_add uint_nat)
qed

lemma loop_recorded:
  assumes "explorer_loop L head nxt db k = (Inr u, db', k')" "serves E L" "distinct_events E" "recorded E R db"
  shows "recorded E (R \<union> {uint nxt..uint head}) db' \<and>
    cd_explorer_last db' = (if head < nxt then cd_explorer_last db else Some (uint head)) \<and> (head < nxt \<or> uint head < 2 ^ 63)"
  using assms(1,2,4)
proof (induction L head nxt db k arbitrary: R rule: explorer_loop.induct)
  case (1 L head nxt db k)
  show ?case
  proof (cases "head < nxt")
    case True
    then have "db' = db" "{uint nxt..uint head} = {}" using 1(2) by (subst (asm) explorer_loop.simps, auto simp: word_less_def)+
    then show ?thesis using 1(4) True by simp
  next
    case False
    let ?e = "range_end nxt head"
    obtain v d j n where d: "index_explorer_events L nxt ?e db k = (Inr v, d, j)" "bigint ?e = Inr n"
      using 1(2) False by (subst (asm) explorer_loop.simps) (auto split: prod.splits sum.splits)
    have n: "n = uint ?e" "uint ?e < 2 ^ 63" using bigint_uint [OF d(2)] by simp_all
    have r: "recorded E (R \<union> {uint nxt..uint ?e}) (d\<lparr>cd_explorer_last := Some n\<rparr>)"
      using range_recorded [OF d(1) 1(3) assms(3) 1(4)] by simp
    show ?thesis
    proof (cases "?e = head")
      case True
      then have "db' = d\<lparr>cd_explorer_last := Some n\<rparr>" using 1(2) False d by (subst (asm) explorer_loop.simps) simp
      then show ?thesis using r n True False by simp
    next
      case more: False
      then have "explorer_loop L head (?e + 1) (d\<lparr>cd_explorer_last := Some n\<rparr>) j = (Inr u, db', k')"
        using 1(2) False d by (subst (asm) explorer_loop.simps) simp
      from 1(1) [OF False d(1) [symmetric] refl refl d(2) more this 1(3) r]
      have "recorded E (R \<union> {uint nxt..uint ?e} \<union> {uint ?e + 1..uint head}) db'"
          "cd_explorer_last db' = Some (uint head)" "uint head < 2 ^ 63"
        using range_end_next [OF more] by (simp_all add: word_less_def)
      moreover have "R \<union> {uint nxt..uint ?e} \<union> {uint ?e + 1..uint head} \<supseteq> R \<union> {uint nxt..uint head}" by auto
      ultimately show ?thesis using False by (auto simp: recorded_def)
    qed
  qed
qed

subsection \<open>Properties\<close>

text \<open>The events of all blocks from \<open>from\<close> to the last one that was read are in the tables.\<close>

definition explorer_complete :: "chain_events \<Rightarrow> int \<Rightarrow> chain_db \<Rightarrow> bool" where
  "explorer_complete E from db \<longleftrightarrow>
     (case cd_explorer_last db of None \<Rightarrow> False | Some n \<Rightarrow> 0 \<le> n \<and> n < 2 ^ 63 \<and> recorded E {from..n} db)"

lemma explorer_pass_complete:
  assumes "index_explorer_events_through cfg L head db k = (Inr u, db', k')" "serves E L" "distinct_events E"
    and "explorer_complete E from db \<or>
      cd_explorer_last db = None \<and> (\<exists>nxt. explorer_start cfg head db = Inr nxt \<and> uint nxt \<le> from)"
  shows "recorded E {from..uint head} db' \<and> explorer_complete E from db'"
proof -
  obtain nxt where nxt: "explorer_start cfg head db = Inr nxt" "explorer_loop L head nxt db k = (Inr u, db', k')"
    using assms(1) by (auto simp: index_explorer_events_through_def split: sum.splits)
  have loop: "recorded E (R \<union> {uint nxt..uint head}) db'"
      "cd_explorer_last db' = (if head < nxt then cd_explorer_last db else Some (uint head))" "head < nxt \<or> uint head < 2 ^ 63"
      if "recorded E R db" for R
    using loop_recorded [OF nxt(2) assms(2,3) that] by simp_all
  from assms(4) show ?thesis
  proof
    assume "explorer_complete E from db"
    then obtain n where n: "cd_explorer_last db = Some n" "0 \<le> n" "n < 2 ^ 63" "recorded E {from..n} db"
      by (auto simp: explorer_complete_def split: option.splits)
    then have next_uint: "uint nxt = n + 1" using nxt(1) by (auto simp: explorer_start_def uint_word_ariths unsigned_of_int take_bit_int_eq_self)
    have r: "recorded E ({from..n} \<union> {n + 1..uint head}) db'" using loop(1) [OF n(4)] next_uint by simp
    then have "recorded E {from..max n (uint head)} db'" by (auto simp: recorded_def)
    then show ?thesis
      using loop(2,3) [OF n(4)] n next_uint by (auto simp: explorer_complete_def recorded_def word_less_def)
  next
    assume "cd_explorer_last db = None \<and> (\<exists>nxt. explorer_start cfg head db = Inr nxt \<and> uint nxt \<le> from)"
    then have a: "cd_explorer_last db = None" "uint nxt \<le> from" "nxt \<le> head"
      using nxt(1) by (auto simp: explorer_start_def)
    have "recorded E {} db" by (simp add: recorded_def)
    from loop [OF this] have "recorded E {uint nxt..uint head} db'" "cd_explorer_last db' = Some (uint head)" "uint head < 2 ^ 63"
      using a(3) by (auto simp: leD)
    then show ?thesis using a(2) by (auto simp: explorer_complete_def recorded_def)
  qed
qed

text \<open>
  No accepted event is missed.  A pass that succeeds has every bridge transition, settlement and claim of the chain from the
  first block on up to the head in its tables, none is lost at the border of two ranges, and the next pass continues behind
  the last block that was read.
\<close>

lemma explorer_events_complete:
  assumes "index_explorer_events_through cfg L head db k = (Inr u, db', k')" "serves E L" "distinct_events E"
    and "explorer_complete E from db \<or>
      cd_explorer_last db = None \<and> (\<exists>nxt. explorer_start cfg head db = Inr nxt \<and> uint nxt \<le> from)"
  shows "recorded E {from..uint head} db' \<and> explorer_complete E from db'"
  using assms by (rule explorer_pass_complete)

text \<open>A pass of two ranges with an event in the second.\<close>

definition sample_transition :: bridge_transition_log where
  "sample_transition = \<lparr>tl_old_action_state = [], tl_new_action_state = [], tl_new_deposit_state = [], tl_new_deposit_nonce = 1,
     tl_block_number = 1100, tl_block_hash = [1], tl_transaction_hash = [2], tl_log_index = 0\<rparr>"

definition sample_logs :: log_node where
  "sample_logs = \<lparr>ln_transitions = (\<lambda>k a b. Inr (filter (\<lambda>l. a \<le> tl_block_number l \<and> tl_block_number l \<le> b) [sample_transition])),
     ln_settlements = (\<lambda>k a b. Inr []), ln_batches = (\<lambda>k a b. Inr []), ln_claims = (\<lambda>k a b. Inr [])\<rparr>"

definition sample_index_config :: index_config where
  "sample_index_config = \<lparr>ic_start_block = Some 100, ic_finality_mode = Finalized, ic_confirmations = 1,
     ic_fee_payer_public_key = None\<rparr>"

text \<open>A rollback keeps it for every chain that agrees with the old one up to the ancestor.\<close>

lemma mark_removed_keeps: "r \<in> set t \<Longrightarrow> block r \<le> a \<Longrightarrow> r \<in> set (mark_removed block removed remove a t)"
  by (force simp: mark_removed_def image_iff)

lemma rollback_keeps_events:
  assumes "rollback_after n db = Inr db'" "explorer_complete E from db"
    and "\<And>l. l \<in> ce_transitions E' \<Longrightarrow> tl_block_number l \<le> n \<Longrightarrow> l \<in> ce_transitions E"
    and "\<And>l. l \<in> ce_settlements E' \<Longrightarrow> sl_block_number l \<le> n \<Longrightarrow> l \<in> ce_settlements E"
    and "\<And>l. l \<in> ce_claims E' \<Longrightarrow> wl_block_number l \<le> n \<Longrightarrow> l \<in> ce_claims E"
  shows "explorer_complete E' from db'"
proof -
  obtain a where a: "i64_of_u64 n = Some a" "cd_transitions db' = cd_transitions (rollback_data a db)"
      "cd_settlements db' = cd_settlements (rollback_data a db)" "cd_claims db' = cd_claims (rollback_data a db)"
      "cd_explorer_last db' = map_option (\<lambda>m. min m a) (cd_explorer_last db)"
    using assms(1) unfolding rollback_after_Inr by (auto simp: rollback_data_def)
  have n: "a = uint n" "0 \<le> a" "a < 2 ^ 63" using a(1) by (auto simp: i64_of_u64_def split: if_splits)
  obtain m where m: "cd_explorer_last db = Some m" "0 \<le> m" "m < 2 ^ 63" "recorded E {from..m} db"
    using assms(2) by (auto simp: explorer_complete_def split: option.splits)
  have "recorded E' {from..min m a} db'"
    unfolding recorded_def transition_present_def settlement_present_def claim_present_def a(2-4)
  proof (intro conjI ballI impI)
    fix l assume "l \<in> ce_transitions E'" "uint (tl_block_number l) \<in> {from..min m a}"
    then show "\<lparr>tr_log = l, tr_removed = False\<rparr> \<in> set (cd_transitions (rollback_data a db))"
      using assms(3) [of l] m(4) n(1) by (auto simp: rollback_data_def recorded_def transition_present_def word_le_def intro!: mark_removed_keeps)
  next
    fix l assume l: "l \<in> ce_settlements E'" "uint (sl_block_number l) \<in> {from..min m a}"
    then obtain b where "\<lparr>se_log = l, se_batch = b, se_removed = False\<rparr> \<in> set (cd_settlements db)"
      using assms(4) [of l] m(4) n(1) by (auto simp: recorded_def settlement_present_def word_le_def)
    then have "\<lparr>se_log = l, se_batch = b, se_removed = False\<rparr> \<in> set (cd_settlements (rollback_data a db))"
      using l(2) by (auto simp: rollback_data_def intro!: mark_removed_keeps)
    then show "\<exists>b. \<lparr>se_log = l, se_batch = b, se_removed = False\<rparr> \<in> set (cd_settlements (rollback_data a db))" by blast
  next
    fix l assume "l \<in> ce_claims E'" "uint (wl_block_number l) \<in> {from..min m a}"
    then show "\<lparr>wc_log = l, wc_removed = False\<rparr> \<in> set (cd_claims (rollback_data a db))"
      using assms(5) [of l] m(4) n(1) by (auto simp: rollback_data_def recorded_def claim_present_def word_le_def intro!: mark_removed_keeps)
  qed
  then show ?thesis using a(5) m n by (simp add: explorer_complete_def)
qed

end
