(* ===== verification/Virtual_Accounts.thy ===== *)
theory Virtual_Accounts
  imports Chain_Tables
begin

text \<open>
  The second half of \<open>api/src/indexer.rs\<close>: how a confirmed settlement or bridge receipt is applied to the
  virtual Mina accounts, the published actions, the bridge deposits and the inner-action leaves.  Each
  application is one transaction and takes a snapshot of every account it changes, which \<open>rollback_after\<close> uses to
  undo it.  The receipts are those of the guests, read with their decoders.
\<close>

subsection \<open>Accounts\<close>

definition lookup_account :: "string \<Rightarrow> string \<Rightarrow> chain_db \<Rightarrow> failure + account_json" where
  "lookup_account what key db =
     and_then (expect (map_of (cd_accounts db) key)
       (plain_failure (what @ '' virtual Mina account '' @ key @ '' is not configured''))) (\<lambda>row. Inr (ar_account row))"

text \<open>\<open>ON CONFLICT (job_id, public_key, token_id) DO NOTHING\<close>.\<close>

definition snapshot_account :: "uuid \<Rightarrow> string \<Rightarrow> account_json \<Rightarrow> u64 \<Rightarrow> chain_db \<Rightarrow> failure + chain_db" where
  "snapshot_account job_id key account block_number db =
     and_then (bigint block_number) (\<lambda>n.
     Inr (if list_ex (\<lambda>h. hs_job_id h = job_id \<and> hs_public_key h = key) (cd_history db) then db
          else db\<lparr>cd_history := cd_history db @
            [\<lparr>hs_job_id = job_id, hs_public_key = key, hs_account_before = account, hs_block_number = n\<rparr>]\<rparr>))"

definition store_account :: "string \<Rightarrow> account_json \<Rightarrow> u64 \<Rightarrow> bytes \<Rightarrow> chain_db \<Rightarrow> failure + chain_db" where
  "store_account key account block_number block_hash db =
     and_then (bigint block_number) (\<lambda>n.
     Inr (db\<lparr>cd_accounts := fst (update_where (\<lambda>k _. k = key)
       (\<lambda>_. \<lparr>ar_account = account, ar_block = Some (n, block_hash)\<rparr>) (cd_accounts db))\<rparr>))"

definition old_actions :: "account_json \<Rightarrow> string list" where
  "old_actions account = (case aj_action_state account of Some as \<Rightarrow> as | None \<Rightarrow> replicate 5 ''0'')"

definition update_outer_account ::
  "text_codec \<Rightarrow> uuid \<Rightarrow> string \<Rightarrow> spv1 \<Rightarrow> u64 \<Rightarrow> bytes \<Rightarrow> chain_db \<Rightarrow> failure + chain_db" where
  "update_outer_account T job_id key receipt block_number block_hash db =
     and_then (lookup_account ''outer'' key db) (\<lambda>account.
     and_then (snapshot_account job_id key account block_number db) (\<lambda>db.
     store_account key (account
       \<lparr>aj_zkapp_state := Some (map (decimal T) (os_fields (pv_state_after receipt))),
        aj_action_state := Some ([decimal T (pv_outer_action_state_after receipt),
          decimal T (pv_outer_action_state_before receipt)] @ take 3 (old_actions account)),
        aj_proved_state := Some True\<rparr>) block_number block_hash db))"

definition update_outer_account_actions ::
  "text_codec \<Rightarrow> uuid \<Rightarrow> string \<Rightarrow> bytes \<Rightarrow> bytes list \<Rightarrow> u64 \<Rightarrow> bytes \<Rightarrow> chain_db \<Rightarrow> failure + chain_db" where
  "update_outer_account_actions T job_id key expected_state_before states_after block_number block_hash db =
     and_then (lookup_account ''outer'' key db) (\<lambda>account.
     and_then (snapshot_account job_id key account block_number db) (\<lambda>db.
     ensure (take 1 (old_actions account) = [decimal T expected_state_before])
       (plain_failure ''virtual Mina outer account action state is stale'') (
     store_account key (account\<lparr>aj_action_state :=
       Some (take 5 (rev (map (decimal T) states_after) @ old_actions account))\<rparr>) block_number block_hash db)))"

definition fee_payer_nonce_after :: "u64 \<Rightarrow> u64 \<Rightarrow> failure + u64" where
  "fee_payer_nonce_after current_nonce increment =
     expect (checked_add current_nonce increment) (plain_failure ''fee-payer nonce overflow'')"

text \<open>\<open>parse::<u64>\<close>.\<close>

definition parse_u64 :: "string \<Rightarrow> u64 option" where
  "parse_u64 v =
     (let digits = (if v \<noteq> [] \<and> hd v = CHR ''+'' then tl v else v)
      in if digits = [] then None
         else case parse_digits 0 digits of None \<Rightarrow> None | Some n \<Rightarrow> if n < 2 ^ 64 then Some (word_of_nat n) else None)"

definition advance_fee_payer ::
  "uuid \<Rightarrow> string \<Rightarrow> u64 option \<Rightarrow> u64 \<Rightarrow> u64 \<Rightarrow> bytes \<Rightarrow> chain_db \<Rightarrow> failure + chain_db" where
  "advance_fee_payer job_id key expected_nonce increment block_number block_hash db =
     and_then (lookup_account ''fee-payer'' key db) (\<lambda>account.
     and_then (expect (parse_u64 (case aj_nonce account of Some s \<Rightarrow> s | None \<Rightarrow> ''0''))
       (plain_failure ''virtual Mina fee-payer nonce is invalid'')) (\<lambda>current.
     ensure (case expected_nonce of None \<Rightarrow> True | Some e \<Rightarrow> current = e)
       (plain_failure (''virtual Mina fee-payer nonce '' @ show_nat (unat current) @ '' does not match expected nonce '' @
          show_nat (case expected_nonce of None \<Rightarrow> 0 | Some e \<Rightarrow> unat e))) (
     and_then (snapshot_account job_id key account block_number db) (\<lambda>db.
     and_then (fee_payer_nonce_after current increment) (\<lambda>nonce.
     store_account key (account\<lparr>aj_nonce := Some (show_nat (unat nonce))\<rparr>) block_number block_hash db)))))"

definition update_fee_payer :: "uuid \<Rightarrow> string \<Rightarrow> u64 \<Rightarrow> u64 \<Rightarrow> bytes \<Rightarrow> chain_db \<Rightarrow> failure + chain_db" where
  "update_fee_payer job_id key nonce = advance_fee_payer job_id key (Some nonce) 1"

subsection \<open>Bridge receipts\<close>

definition linkable :: "uuid \<Rightarrow> deposit_row \<Rightarrow> bool" where
  "linkable job_id d \<longleftrightarrow> \<not> dp_removed d \<and> (dp_bridge_job_id d = None \<or> dp_bridge_job_id d = Some job_id)"

definition link_deposit ::
  "text_codec \<Rightarrow> uuid \<Rightarrow> bridge_public_values \<Rightarrow> nat \<Rightarrow> bridge_outer_action \<Rightarrow>
   (int \<times> deposit_row) list \<Rightarrow> failure + (int \<times> deposit_row) list" where
  "link_deposit T job_id v off action t =
     and_then (expect (Option.bind (checked_add (bpv_ethereum_nonce_before v) (word_of_nat off)) (\<lambda>n. checked_add n 1))
       (plain_failure ''bridge deposit nonce overflow'')) (\<lambda>nonce.
     and_then (expect (Option.bind (checked_add (bpv_zeko_action_state_length_before v) (word_of_nat off)) (\<lambda>n. checked_add n 1))
       (plain_failure ''bridge action sequence overflow'')) (\<lambda>sequence.
     and_then (bigint nonce) (\<lambda>n.
     let (t', count) = update_where (\<lambda>k d. k = n \<and> linkable job_id d)
       (\<lambda>d. d\<lparr>dp_bridge_job_id := Some job_id, dp_outer_action_sequence := Some (uint sequence),
              dp_outer_action_state_after := Some (decimal T (ba_state_after action))\<rparr>) t
     in ensure (count = 1)
       (plain_failure (''confirmed bridge receipt does not map to canonical deposit nonce '' @ show_nat (unat nonce)))
       (Inr t'))))"

fun link_deposits ::
  "text_codec \<Rightarrow> uuid \<Rightarrow> bridge_public_values \<Rightarrow> nat \<Rightarrow> bridge_outer_action list \<Rightarrow>
   (int \<times> deposit_row) list \<Rightarrow> failure + (int \<times> deposit_row) list" where
  "link_deposits T job_id v off [] t = Inr t"
| "link_deposits T job_id v off (a # as) t =
     and_then (link_deposit T job_id v off a t) (link_deposits T job_id v (off + 1) as)"

definition check_bridge_receipt :: "bridge_public_values \<Rightarrow> failure + unit" where
  "check_bridge_receipt v =
     ensure (bpv_actions v \<noteq> []) (plain_failure ''bridge receipt contains no actions'') (
     ensure (length (bpv_actions v) < 2 ^ 32) (plain_failure ''out of range integral type conversion attempted'') (
     and_then (expect (checked_add (bpv_zeko_action_state_length_before v) (word_of_nat (length (bpv_actions v))))
       (plain_failure ''bridge action-state length overflow'')) (\<lambda>len.
     ensure (bpv_zeko_action_state_length_after v = len) (plain_failure ''bridge receipt action-state length mismatch'') (
     ensure (ba_state_after (last (bpv_actions v)) = bpv_zeko_action_state_after v)
       (plain_failure ''bridge receipt final action state mismatch'') (Inr ())))))"

text \<open>The unique key of an action is its transaction, log index and sequence.\<close>

definition same_action :: "action_row \<Rightarrow> action_row \<Rightarrow> bool" where
  "same_action a b \<longleftrightarrow> ac_transaction_hash a = ac_transaction_hash b \<and> ac_log_index a = ac_log_index b \<and>
     ac_sequence a = ac_sequence b"

definition put_action :: "(action_row \<Rightarrow> action_row) \<Rightarrow> action_row \<Rightarrow> action_row list \<Rightarrow> action_row list" where
  "put_action update a t =
     (if list_ex (same_action a) t then map (\<lambda>b. if same_action a b then update b else b) t else t @ [a])"

definition bridge_action ::
  "text_codec \<Rightarrow> string \<Rightarrow> bridge_public_values \<Rightarrow> u64 \<Rightarrow> bytes \<Rightarrow> nat \<Rightarrow> bytes \<Rightarrow> bridge_outer_action \<Rightarrow> failure + action_row" where
  "bridge_action T key v block_number transaction_hash off state_before action =
     and_then (expect (Option.bind (checked_add (bpv_zeko_action_state_length_before v) (word_of_nat off)) (\<lambda>n. checked_add n 1))
       (plain_failure ''bridge action sequence overflow'')) (\<lambda>sequence.
     and_then (bigint block_number) (\<lambda>n.
     Inr \<lparr>ac_address = key, ac_sequence = uint sequence, ac_state_before = decimal T state_before,
       ac_state_after = decimal T (ba_state_after action), ac_data = [map (decimal T) (ba_fields action)],
       ac_block_number = n, ac_transaction_hash = transaction_hash, ac_log_index = int off, ac_removed = False\<rparr>))"

fun publish_actions ::
  "text_codec \<Rightarrow> string \<Rightarrow> bridge_public_values \<Rightarrow> u64 \<Rightarrow> bytes \<Rightarrow> nat \<Rightarrow> bytes \<Rightarrow>
   bridge_outer_action list \<Rightarrow> action_row list \<Rightarrow> failure + action_row list" where
  "publish_actions T key v block_number tx off state_before [] t = Inr t"
| "publish_actions T key v block_number tx off state_before (action # actions) t =
     and_then (bridge_action T key v block_number tx off state_before action) (\<lambda>a.
     publish_actions T key v block_number tx (off + 1) (ba_state_after action) actions
       (put_action (\<lambda>b. a\<lparr>ac_address := ac_address b\<rparr>) a t))"

definition applied :: "uuid \<Rightarrow> chain_db \<Rightarrow> bool" where
  "applied job_id db \<longleftrightarrow> list_ex (\<lambda>h. hs_job_id h = job_id) (cd_history db)"

definition apply_confirmed_bridge ::
  "text_codec \<Rightarrow> (wire_error \<Rightarrow> string) \<Rightarrow> uuid \<Rightarrow> bytes \<Rightarrow> u64 \<Rightarrow> bytes \<Rightarrow> bytes \<Rightarrow> chain_db \<Rightarrow> failure + chain_db" where
  "apply_confirmed_bridge T describe job_id public_values block_number block_hash transaction_hash db =
     and_then (decode_error describe (decode_bridge public_values)) (\<lambda>v.
     and_then (check_bridge_receipt v) (\<lambda>_.
     and_then (link_deposits T job_id v 0 (bpv_actions v) (cd_deposits db)) (\<lambda>deposits.
     let db = db\<lparr>cd_deposits := deposits\<rparr> in
     if applied job_id db then Inr db
     else
       and_then (expect (cd_outer_public_key db)
         (plain_failure ''VIRTUAL_MINA_OUTER_PUBLIC_KEY is required before applying a bridge receipt'')) (\<lambda>key.
       and_then (update_outer_account_actions T job_id key (bpv_zeko_action_state_before v)
         (map ba_state_after (bpv_actions v)) block_number block_hash db) (\<lambda>db.
       and_then (publish_actions T key v block_number transaction_hash 0 (bpv_zeko_action_state_before v)
         (bpv_actions v) (cd_actions db)) (\<lambda>actions.
       Inr (db\<lparr>cd_actions := actions\<rparr>)))))))"

subsection \<open>Inner-action leaves\<close>

definition guest_failure :: "string + 'a \<Rightarrow> failure + 'a" where
  "guest_failure r = (case r of Inl e \<Rightarrow> Inl (plain_failure e) | Inr v \<Rightarrow> Inr v)"

text \<open>The leaf of one action, and the row that is stored for it.\<close>

definition stored_leaf ::
  "crypto \<Rightarrow> spv2 \<Rightarrow> bytes \<Rightarrow> nat \<Rightarrow> inner_action_witness \<Rightarrow> failure + u32 \<times> bytes \<times> bytes" where
  "stored_leaf H receipt bridge_address off action =
     and_then (guest_failure (action_fields_hash H (iw_fields action))) (\<lambda>fields_hash.
     ensure (off < 2 ^ 32) (plain_failure ''out of range integral type conversion attempted'') (
     and_then (expect (checked_add (pv2_inner_action_start_index receipt) (word_of_nat off))
       (plain_failure ''inner action index overflow'')) (\<lambda>global_index.
     let cid = pv_chain_id (pv2_settlement receipt) in
     and_then
       (case (iw_withdrawal action, iw_token_withdrawal action) of
          (Some w, None) \<Rightarrow> Inr (native_withdrawal_leaf H cid bridge_address global_index w fields_hash)
        | (None, Some w) \<Rightarrow> guest_failure (erc20_withdrawal_leaf H cid bridge_address global_index w fields_hash)
        | (None, None) \<Rightarrow> Inr (raw_inner_action_leaf H cid bridge_address global_index fields_hash)
        | (Some _, Some _) \<Rightarrow> Inl (plain_failure ''inner action has multiple withdrawal preimages'')) (\<lambda>leaf.
     Inr (global_index, fields_hash, leaf)))))"

fun stored_leaves ::
  "crypto \<Rightarrow> spv2 \<Rightarrow> bytes \<Rightarrow> nat \<Rightarrow> inner_action_witness list \<Rightarrow> failure + (u32 \<times> bytes \<times> bytes) list" where
  "stored_leaves H receipt bridge_address off [] = Inr []"
| "stored_leaves H receipt bridge_address off (a # as) =
     and_then (stored_leaf H receipt bridge_address off a) (\<lambda>l.
     and_then (stored_leaves H receipt bridge_address (off + 1) as) (\<lambda>ls. Inr (l # ls)))"

text \<open>\<open>ON CONFLICT (settlement_sequence, action_offset) DO UPDATE\<close>.\<close>

definition put_leaf :: "leaf_row \<Rightarrow> leaf_row list \<Rightarrow> leaf_row list" where
  "put_leaf r t =
     (let same = (\<lambda>x. lr_settlement_sequence x = lr_settlement_sequence r \<and> lr_action_offset x = lr_action_offset r)
      in if list_ex same t then map (\<lambda>x. if same x then r else x) t else t @ [r])"

definition leaf_row_of ::
  "spv2 \<Rightarrow> int \<Rightarrow> int \<Rightarrow> bytes \<Rightarrow> nat \<Rightarrow> inner_action_witness \<Rightarrow> u32 \<times> bytes \<times> bytes \<Rightarrow> leaf_row" where
  "leaf_row_of receipt sequence n transaction_hash off action = (\<lambda>(global_index, fields_hash, leaf).
     \<lparr>lr_settlement_sequence = sequence, lr_action_offset = int off, lr_global_action_index = global_index,
      lr_action = action, lr_action_fields_hash = fields_hash, lr_leaf = leaf,
      lr_inner_action_root = pv2_inner_action_root receipt,
      lr_commit_slot_upper = pv_slot_upper (pv2_settlement receipt), lr_block_number = n,
      lr_transaction_hash = transaction_hash, lr_removed = False\<rparr>)"

definition store_inner_action_leaves ::
  "crypto \<Rightarrow> failure + inner_action_batch_witness \<Rightarrow> spv2 \<Rightarrow> u64 \<Rightarrow> bytes \<Rightarrow> leaf_row list \<Rightarrow> failure + leaf_row list" where
  "store_inner_action_leaves H input receipt block_number transaction_hash t =
     and_then input (\<lambda>batch.
     ensure (ib_bridge_address batch = pv2_bridge_address receipt)
       (plain_failure ''inner-action bridge address does not match receipt'') (
     ensure (length (ib_actions batch) = unat (pv2_inner_action_count receipt))
       (plain_failure ''inner-action count does not match receipt'') (
     and_then (stored_leaves H receipt (ib_bridge_address batch) 0 (ib_actions batch)) (\<lambda>rows.
     and_then (guest_failure (root H (map (\<lambda>(_, _, leaf). leaf) rows))) (\<lambda>r.
     ensure (r = pv2_inner_action_root receipt)
       (plain_failure ''stored inner actions do not reproduce settlement root'') (
     and_then (bigint (pv_batch_sequence (pv2_settlement receipt))) (\<lambda>sequence.
     and_then (bigint block_number) (\<lambda>n.
     Inr (fold (\<lambda>(off, action, row). put_leaf (leaf_row_of receipt sequence n transaction_hash off action row))
       (zip [0..<length rows] (zip (ib_actions batch) rows)) t)))))))))"

subsection \<open>Settlement receipts\<close>

definition action_field :: "text_codec \<Rightarrow> string option \<Rightarrow> failure + string" where
  "action_field T v =
     and_then (expect v (plain_failure ''action field must be hex'')) (\<lambda>encoded.
     and_then (expect (hex_decode T (case strip_0x encoded of Some d \<Rightarrow> d | None \<Rightarrow> encoded)) (plain_failure ''invalid hex'')) (\<lambda>bs.
     ensure (length bs = 32) (plain_failure ''action field must be 32 bytes'') (Inr (decimal T bs))))"

definition fields_to_decimal :: "text_codec \<Rightarrow> string option list option list option \<Rightarrow> failure + string list list" where
  "fields_to_decimal T value =
     and_then (expect value (plain_failure ''settlement actions must be an array'')) (\<lambda>events.
     try_map (\<lambda>event. and_then (expect event (plain_failure ''settlement action must be an array''))
       (try_map (action_field T))) events)"

definition synchronize_deposit :: "uuid \<Rightarrow> int \<Rightarrow> u32 \<Rightarrow> deposit_row \<Rightarrow> deposit_row" where
  "synchronize_deposit job_id sequence len d =
     (if \<not> dp_removed d \<and> dp_bridge_job_id d \<noteq> None \<and> dp_synchronized_job_id d = None \<and>
         (case dp_outer_action_sequence d of None \<Rightarrow> False | Some n \<Rightarrow> n \<le> uint len)
      then d\<lparr>dp_synchronized_job_id := Some job_id, dp_synchronized_sequence := Some sequence\<rparr> else d)"

definition settlement_action ::
  "text_codec \<Rightarrow> string \<Rightarrow> spv1 \<Rightarrow> string list list \<Rightarrow> int \<Rightarrow> bytes \<Rightarrow> action_row" where
  "settlement_action T key receipt actions n transaction_hash =
     \<lparr>ac_address = key, ac_sequence = uint (pv_outer_action_state_length_after receipt),
      ac_state_before = decimal T (pv_outer_action_state_before receipt),
      ac_state_after = decimal T (pv_outer_action_state_after receipt), ac_data = actions, ac_block_number = n,
      ac_transaction_hash = transaction_hash, ac_log_index = 0, ac_removed = False\<rparr>"

text \<open>The part for a settlement with a Mina command, after the deposits.\<close>

definition apply_submission ::
  "crypto \<Rightarrow> text_codec \<Rightarrow> uuid \<Rightarrow> settlement_input \<Rightarrow> settlement_public_values \<Rightarrow> u64 \<Rightarrow> bytes \<Rightarrow>
   bytes \<Rightarrow> chain_db \<Rightarrow> failure + chain_db" where
  "apply_submission H T job_id input decoded block_number block_hash transaction_hash db =
     and_then (expect (si_outer_account input) (plain_failure ''outerAccountPublicKey missing'')) (\<lambda>outer.
     and_then (expect (si_fee_payer input) (plain_failure ''feePayerPublicKey missing'')) (\<lambda>fee_payer.
     and_then (expect (si_nonce input) (plain_failure ''fee payer nonce missing'')) (\<lambda>nonce.
     and_then (expect (si_actions input) (plain_failure ''settlement actions missing'')) (\<lambda>actions.
     let receipt = settlement decoded; db = db\<lparr>cd_outer_public_key := Some outer\<rparr> in
     and_then (update_outer_account T job_id outer receipt block_number block_hash db) (\<lambda>db.
     and_then (update_fee_payer job_id fee_payer nonce block_number block_hash db) (\<lambda>db.
     and_then (fields_to_decimal T actions) (\<lambda>actions.
     and_then (bigint block_number) (\<lambda>n.
     let a = settlement_action T outer receipt actions n transaction_hash;
         db = db\<lparr>cd_actions := put_action (\<lambda>b. b\<lparr>ac_removed := False\<rparr>) a (cd_actions db),
                 cd_gateway := delete_pending job_id (cd_gateway db)\<rparr> in
     case si_inner_batch input of
       None \<Rightarrow> Inr db
     | Some batch \<Rightarrow>
         and_then (expect (inner_action_batch decoded)
           (plain_failure ''settlement receipt does not bind an inner-action batch'')) (\<lambda>v2.
         and_then (store_inner_action_leaves H (guest_failure batch) v2 block_number transaction_hash (cd_leaves db)) (\<lambda>leaves.
         Inr (db\<lparr>cd_leaves := leaves\<rparr>)))))))))))"

definition apply_confirmed_settlement ::
  "crypto \<Rightarrow> text_codec \<Rightarrow> (wire_error \<Rightarrow> string) \<Rightarrow> uuid \<Rightarrow> settlement_input option \<Rightarrow> bytes \<Rightarrow> u64 \<Rightarrow> bytes \<Rightarrow>
   bytes \<Rightarrow> chain_db \<Rightarrow> failure + chain_db" where
  "apply_confirmed_settlement H T describe job_id submission public_values block_number block_hash transaction_hash db =
     and_then (decode_error describe (decode_public_values public_values)) (\<lambda>decoded.
     let receipt = settlement decoded in
     and_then (bigint (pv_batch_sequence receipt)) (\<lambda>sequence.
     let db = db\<lparr>cd_deposits := map (\<lambda>(n, d). (n, synchronize_deposit job_id sequence
           (pv_synchronized_outer_action_state_length receipt) d)) (cd_deposits db)\<rparr> in
     if applied job_id db then Inr db
     else case submission of
       None \<Rightarrow> Inr db
     | Some input \<Rightarrow> apply_submission H T job_id input decoded block_number block_hash transaction_hash db))"

subsection \<open>Undoing an application\<close>

definition account_at :: "(string \<times> account_row) list \<Rightarrow> string \<Rightarrow> account_json option" where
  "account_at t k = map_option ar_account (map_of t k)"

lemma account_at_restore:
  "account_at (restore_account h t) k =
     (if k = hs_public_key h then map_option (\<lambda>_. hs_account_before h) (account_at t k) else account_at t k)"
  by (cases "map_of t k") (auto simp: account_at_def restore_account_def update_where_map_of)

lemma account_at_restores_cong:
  "account_at t = account_at u \<Longrightarrow> account_at (fold restore_account hs t) = account_at (fold restore_account hs u)"
proof (induction hs arbitrary: t u)
  case (Cons h hs)
  have "account_at (restore_account h t) = account_at (restore_account h u)"
    by (rule ext) (simp add: account_at_restore Cons.prems)
  from Cons.IH [OF this] show ?case by simp
qed simp

text \<open>Restoring does not depend on the value of an account that has a snapshot.\<close>

lemma account_at_restores_covered:
  assumes "\<And>k. k \<noteq> key \<Longrightarrow> account_at t k = account_at u k" "account_at t key = None \<longleftrightarrow> account_at u key = None"
    and "h \<in> set hs" "hs_public_key h = key"
  shows "account_at (fold restore_account hs t) = account_at (fold restore_account hs u)"
  using assms
proof (induction hs arbitrary: t u)
  case (Cons x hs)
  show ?case
  proof (cases "hs_public_key x = key")
    case True
    have "account_at (restore_account x t) = account_at (restore_account x u)"
    proof
      fix k show "account_at (restore_account x t) k = account_at (restore_account x u) k"
        using Cons.prems(1,2) True by (cases "account_at t k"; cases "account_at u k"; cases "k = key") (auto simp: account_at_restore)
    qed
    from account_at_restores_cong [OF this] show ?thesis by simp
  next
    case False
    then show ?thesis
      using Cons.IH [of "restore_account x t" "restore_account x u"] Cons.prems
      by (auto simp: account_at_restore)
  qed
qed simp

text \<open>
  \<open>undoable job n hs t hs' t'\<close>: the change of the accounts from \<open>t\<close> to \<open>t'\<close> by a job in block \<open>n\<close> is covered by the
  snapshots that were added to the history.
\<close>

definition undoable ::
  "uuid \<Rightarrow> int \<Rightarrow> chain_db \<Rightarrow> chain_db \<Rightarrow> bool" where
  "undoable job n db db' \<longleftrightarrow> (\<exists>new. cd_history db' = cd_history db @ new \<and>
     (\<forall>h \<in> set new. hs_job_id h = job \<and> hs_block_number h = n) \<and>
     account_at (fold restore_account (rev new) (cd_accounts db')) = account_at (cd_accounts db))"

lemma undoable_same:
  "cd_history db' = cd_history db \<Longrightarrow> cd_accounts db' = cd_accounts db \<Longrightarrow> undoable job n db db'"
  by (auto simp: undoable_def)

lemma undoable_rest:
  assumes "undoable job n db db'" "cd_history db2 = cd_history db'" "cd_accounts db2 = cd_accounts db'"
    "cd_history db1 = cd_history db" "cd_accounts db1 = cd_accounts db"
  shows "undoable job n db1 db2"
  using assms by (simp add: undoable_def)

lemma snapshot_then_store:
  assumes "undoable job n0 db0 db" "\<not> applied job db0" "n0 = uint n"
    and "map_of (cd_accounts db) key = Some row" "snapshot_account job key (ar_account row) n db = Inr db1"
    and "store_account key account n hash db1 = Inr db2"
  shows "undoable job n0 db0 db2"
proof -
  obtain new where new: "cd_history db = cd_history db0 @ new" "\<forall>h \<in> set new. hs_job_id h = job \<and> hs_block_number h = n0"
    "account_at (fold restore_account (rev new) (cd_accounts db)) = account_at (cd_accounts db0)"
    using assms(1) by (auto simp: undoable_def)
  let ?h = "\<lparr>hs_job_id = job, hs_public_key = key, hs_account_before = ar_account row, hs_block_number = n0\<rparr>"
  have acc: "cd_accounts db2 = fst (update_where (\<lambda>k _. k = key) (\<lambda>_. \<lparr>ar_account = account, ar_block = Some (n0, hash)\<rparr>) (cd_accounts db))"
    and hist: "cd_history db2 = (if list_ex (\<lambda>h. hs_job_id h = job \<and> hs_public_key h = key) (cd_history db) then cd_history db
      else cd_history db @ [?h])"
    using assms(3,5,6) by (auto simp: store_account_def snapshot_account_def res_simps bigint_def i64_of_u64_def split: if_splits)
  have a2: "account_at (cd_accounts db2) k = (if k = key then Some account else account_at (cd_accounts db) k)" for k
    using assms(4) unfolding acc account_at_def by (simp add: update_where_map_of option.map_comp comp_def)
  show ?thesis
  proof (cases "list_ex (\<lambda>h. hs_job_id h = job \<and> hs_public_key h = key) (cd_history db)")
    case True
    then obtain h where "h \<in> set (rev new)" "hs_public_key h = key"
      using new(1) assms(2) by (auto simp: list_ex_iff applied_def)
    from account_at_restores_covered [OF _ _ this, of "cd_accounts db2" "cd_accounts db"]
    have "account_at (fold restore_account (rev new) (cd_accounts db2)) = account_at (cd_accounts db0)"
      using a2 [of key] a2 assms(4) new(3) by (auto simp: account_at_def [of "cd_accounts db"])
    then show ?thesis using True new(1,2) hist unfolding undoable_def by auto
  next
    case False
    have "account_at (restore_account ?h (cd_accounts db2)) = account_at (cd_accounts db)"
      using assms(4) by (intro ext) (auto simp: account_at_restore a2 account_at_def [of "cd_accounts db"])
    from account_at_restores_cong [OF this, of "rev new"]
    have "account_at (fold restore_account (rev (new @ [?h])) (cd_accounts db2)) = account_at (cd_accounts db0)"
      using new(3) by simp
    then show ?thesis using False new(1,2) hist unfolding undoable_def by (intro exI [of _ "new @ [?h]"]) auto
  qed
qed

lemma lookup_account_Inr [res_simps]:
  "lookup_account what key db = Inr account \<longleftrightarrow> (\<exists>row. map_of (cd_accounts db) key = Some row \<and> account = ar_account row)"
  by (auto simp: lookup_account_def res_simps)

text \<open>What every update of an account guarantees: it can be undone, and it marks the job as applied.\<close>

lemma snapshot_applied:
  assumes "snapshot_account job key account n db = Inr db1" "store_account key account' n hash db1 = Inr db2"
  shows "applied job db2"
proof (cases "list_ex (\<lambda>h. hs_job_id h = job \<and> hs_public_key h = key) (cd_history db)")
  case True
  then have "applied job db" by (auto simp: applied_def list_ex_iff)
  then show ?thesis using assms True by (auto simp: snapshot_account_def store_account_def res_simps applied_def)
next
  case False
  then show ?thesis using assms by (auto simp: snapshot_account_def store_account_def res_simps applied_def)
qed

definition account_update :: "uuid \<Rightarrow> u64 \<Rightarrow> chain_db \<Rightarrow> chain_db \<Rightarrow> bool" where
  "account_update job n db db' \<longleftrightarrow> (\<exists>key row account hash db1. map_of (cd_accounts db) key = Some row \<and>
     snapshot_account job key (ar_account row) n db = Inr db1 \<and> store_account key account n hash db1 = Inr db')"

lemma account_updates:
  "update_outer_account T job key receipt n hash db = Inr db' \<Longrightarrow> account_update job n db db'"
  "update_outer_account_actions T job key before states n hash db = Inr db' \<Longrightarrow> account_update job n db db'"
  "update_fee_payer job key nonce n hash db = Inr db' \<Longrightarrow> account_update job n db db'"
  unfolding account_update_def update_outer_account_def update_outer_account_actions_def update_fee_payer_def advance_fee_payer_def
  by (fastforce simp: and_then_Inr ensure_Inr lookup_account_Inr)+

lemma account_update_undoable:
  "account_update job n db db' \<Longrightarrow> undoable job (uint n) db0 db \<Longrightarrow> \<not> applied job db0 \<Longrightarrow> undoable job (uint n) db0 db'"
  unfolding account_update_def using snapshot_then_store by blast

lemma account_update_applied: "account_update job n db db' \<Longrightarrow> applied job db'"
  unfolding account_update_def using snapshot_applied by blast

lemma account_update_frame:
  "account_update job n db db' \<Longrightarrow> cd_deposits db' = cd_deposits db"
  "account_update job n db db' \<Longrightarrow> cd_actions db' = cd_actions db"
  by (auto simp: account_update_def snapshot_account_def store_account_def res_simps)

text \<open>The two applications, as account updates with changes elsewhere.\<close>

lemma apply_confirmed_bridge_cases:
  assumes "apply_confirmed_bridge T describe job pv n hash tx db = Inr db'"
  obtains v deposits where "decode_bridge pv = Inr v" "check_bridge_receipt v = Inr ()"
    "link_deposits T job v 0 (bpv_actions v) (cd_deposits db) = Inr deposits"
    "applied job db \<and> db' = db\<lparr>cd_deposits := deposits\<rparr> \<or>
     \<not> applied job db \<and> (\<exists>db1 actions. account_update job n (db\<lparr>cd_deposits := deposits\<rparr>) db1 \<and> db' = db1\<lparr>cd_actions := actions\<rparr>)"
proof -
  obtain v deposits where v: "decode_bridge pv = Inr v" "check_bridge_receipt v = Inr ()"
    "link_deposits T job v 0 (bpv_actions v) (cd_deposits db) = Inr deposits" and
    r: "(if applied job (db\<lparr>cd_deposits := deposits\<rparr>) then Inr (db\<lparr>cd_deposits := deposits\<rparr>)
     else
       and_then (expect (cd_outer_public_key (db\<lparr>cd_deposits := deposits\<rparr>))
         (plain_failure ''VIRTUAL_MINA_OUTER_PUBLIC_KEY is required before applying a bridge receipt'')) (\<lambda>key.
       and_then (update_outer_account_actions T job key (bpv_zeko_action_state_before v)
         (map ba_state_after (bpv_actions v)) n hash (db\<lparr>cd_deposits := deposits\<rparr>)) (\<lambda>db.
       and_then (publish_actions T key v n tx 0 (bpv_zeko_action_state_before v)
         (bpv_actions v) (cd_actions db)) (\<lambda>actions.
       Inr (db\<lparr>cd_actions := actions\<rparr>))))) = Inr db'"
    using assms unfolding apply_confirmed_bridge_def Let_def
    by (auto simp: and_then_Inr decode_error_def split: sum.splits)
  show thesis
  proof (rule that [OF v])
    show "applied job db \<and> db' = db\<lparr>cd_deposits := deposits\<rparr> \<or>
     \<not> applied job db \<and> (\<exists>db1 actions. account_update job n (db\<lparr>cd_deposits := deposits\<rparr>) db1 \<and> db' = db1\<lparr>cd_actions := actions\<rparr>)"
      using r by (auto simp: applied_def and_then_Inr dest!: account_updates split: if_splits)
  qed
qed

definition synchronize_rows :: "uuid \<Rightarrow> spv1 \<Rightarrow> (int \<times> deposit_row) list \<Rightarrow> (int \<times> deposit_row) list" where
  "synchronize_rows job receipt = map (\<lambda>(n, d). (n, synchronize_deposit job (uint (pv_batch_sequence receipt))
     (pv_synchronized_outer_action_state_length receipt) d))"

definition synchronized :: "uuid \<Rightarrow> spv1 \<Rightarrow> chain_db \<Rightarrow> chain_db" where
  "synchronized job receipt db = db\<lparr>cd_deposits := synchronize_rows job receipt (cd_deposits db)\<rparr>"

lemma synchronize_rows_idem [simp]:
  "synchronize_rows job receipt (synchronize_rows job receipt t) = synchronize_rows job receipt t"
proof -
  have "synchronize_deposit job a b (synchronize_deposit job a b d) = synchronize_deposit job a b d" for a b d
    by (simp add: synchronize_deposit_def split: option.splits)
  then show ?thesis by (simp add: synchronize_rows_def case_prod_beta comp_def)
qed

lemma apply_submission_updates:
  assumes "apply_submission H T job input decoded n hash tx db = Inr db'"
  obtains outer db1 db2 where "account_update job n (db\<lparr>cd_outer_public_key := outer\<rparr>) db1" "account_update job n db1 db2"
    "cd_history db' = cd_history db2" "cd_accounts db' = cd_accounts db2" "cd_deposits db' = cd_deposits db2"
    "\<exists>key actions m. cd_actions db' = put_action (\<lambda>b. b\<lparr>ac_removed := False\<rparr>)
       (settlement_action T key (settlement decoded) actions m tx) (cd_actions db)"
proof -
  obtain outer fee_payer nonce db1 db2 actions m where u:
    "update_outer_account T job outer (settlement decoded) n hash (db\<lparr>cd_outer_public_key := Some outer\<rparr>) = Inr db1"
    "update_fee_payer job fee_payer nonce n hash db1 = Inr db2"
    and r: "cd_history db' = cd_history db2" "cd_accounts db' = cd_accounts db2" "cd_deposits db' = cd_deposits db2"
    and a: "cd_actions db' = put_action (\<lambda>b. b\<lparr>ac_removed := False\<rparr>)
      (settlement_action T outer (settlement decoded) actions m tx) (cd_actions db2)"
    using assms unfolding apply_submission_def Let_def
    by (auto simp: and_then_Inr split: option.splits)
  have "account_update job n (db\<lparr>cd_outer_public_key := Some outer\<rparr>) db1" "account_update job n db1 db2"
    using account_updates(1) [OF u(1)] account_updates(3) [OF u(2)] by simp_all
  moreover from this have "cd_actions db2 = cd_actions db" by (simp add: account_update_frame)
  ultimately show thesis using that r a by metis
qed

lemma apply_confirmed_settlement_cases:
  assumes "apply_confirmed_settlement H T describe job submission pv n hash tx db = Inr db'"
  obtains (synchronized) v where "decode_public_values pv = Inr v" "applied job db \<or> submission = None"
      "db' = synchronized job (settlement v) db"
    | (submitted) v input where "decode_public_values pv = Inr v" "\<not> applied job db" "submission = Some input"
      "apply_submission H T job input v n hash tx (synchronized job (settlement v) db) = Inr db'"
proof -
  obtain v where v: "decode_public_values pv = Inr v" and
    r: "(if applied job (synchronized job (settlement v) db) then Inr (synchronized job (settlement v) db)
     else case submission of None \<Rightarrow> Inr (synchronized job (settlement v) db)
     | Some input \<Rightarrow> apply_submission H T job input v n hash tx (synchronized job (settlement v) db)) = Inr db'"
    using assms unfolding apply_confirmed_settlement_def Let_def synchronized_def synchronize_rows_def
    by (auto simp: and_then_Inr decode_error_def bigint_def expect_Inr i64_of_u64_def split: sum.splits if_splits)
  have a: "applied job (synchronized job (settlement v) db) = applied job db" by (simp add: applied_def synchronized_def)
  show thesis
  proof (cases "applied job db \<or> submission = None")
    case True
    then have "db' = synchronized job (settlement v) db" using r a by auto
    then show ?thesis using synchronized [OF v True] by blast
  next
    case False
    then obtain input where "submission = Some input" by auto
    then show ?thesis using submitted [OF v] False r a by simp
  qed
qed

lemma applications_undoable:
  "apply_confirmed_bridge T describe job pv n hash tx db = Inr db' \<Longrightarrow> undoable job (uint n) db db'"
  "apply_confirmed_settlement H T describe job submission pv n hash tx db = Inr db' \<Longrightarrow> undoable job (uint n) db db'"
proof -
  assume "apply_confirmed_bridge T describe job pv n hash tx db = Inr db'"
  then obtain deposits where "applied job db \<and> db' = db\<lparr>cd_deposits := deposits\<rparr> \<or> \<not> applied job db \<and>
      (\<exists>db1 actions. account_update job n (db\<lparr>cd_deposits := deposits\<rparr>) db1 \<and> db' = db1\<lparr>cd_actions := actions\<rparr>)"
    by (cases rule: apply_confirmed_bridge_cases) blast
  then show "undoable job (uint n) db db'"
  proof
    assume "\<not> applied job db \<and> (\<exists>db1 actions. account_update job n (db\<lparr>cd_deposits := deposits\<rparr>) db1 \<and> db' = db1\<lparr>cd_actions := actions\<rparr>)"
    then obtain db1 actions where u: "\<not> applied job db" "account_update job n (db\<lparr>cd_deposits := deposits\<rparr>) db1"
      "db' = db1\<lparr>cd_actions := actions\<rparr>" by blast
    have "undoable job (uint n) db db1" by (rule account_update_undoable [OF u(2) _ u(1)]) (simp add: undoable_same)
    then show ?thesis using u(3) by (simp add: undoable_rest)
  qed (simp add: undoable_same)
next
  assume "apply_confirmed_settlement H T describe job submission pv n hash tx db = Inr db'"
  then show "undoable job (uint n) db db'"
  proof (cases rule: apply_confirmed_settlement_cases)
    case (synchronized v)
    then show ?thesis by (simp add: undoable_same synchronized_def)
  next
    case (submitted v input)
    from submitted(4) obtain outer db1 db2 where u:
      "account_update job n ((synchronized job (settlement v) db)\<lparr>cd_outer_public_key := outer\<rparr>) db1"
      "account_update job n db1 db2" "cd_history db' = cd_history db2" "cd_accounts db' = cd_accounts db2"
      by (rule apply_submission_updates)
    have "undoable job (uint n) db db1"
      by (rule account_update_undoable [OF u(1) _ submitted(2)]) (simp add: undoable_same synchronized_def)
    from account_update_undoable [OF u(2) this submitted(2)] show ?thesis using u(3,4) by (simp add: undoable_rest)
  qed
qed

lemma orphaned_histories_append:
  assumes "\<And>h. h \<in> set hs \<Longrightarrow> hs_block_number h \<le> n" "\<And>h. h \<in> set new \<Longrightarrow> hs_block_number h = n" "a < n"
  shows "orphaned_histories a (hs @ new) = rev new @ orphaned_histories a hs"
proof -
  have front: "sort_key (\<lambda>h. - hs_block_number h) (xs @ ys) = xs @ sort_key (\<lambda>h. - hs_block_number h) ys"
    if "\<And>h. h \<in> set xs \<Longrightarrow> hs_block_number h = n" "\<And>h. h \<in> set ys \<Longrightarrow> hs_block_number h \<le> n" for xs ys
    using that by (induction xs) (simp_all add: insort_is_Cons ball_Un)
  have "filter (\<lambda>h. a < hs_block_number h) new = new" using assms(2,3) by (simp add: filter_id_conv)
  then show ?thesis
    using front [of "rev new" "rev (filter (\<lambda>h. a < hs_block_number h) hs)"] assms(1,2)
    unfolding orphaned_histories_def by simp
qed

subsection \<open>Linking deposits again\<close>

definition linked_row :: "text_codec \<Rightarrow> uuid \<Rightarrow> int \<Rightarrow> bridge_outer_action \<Rightarrow> deposit_row \<Rightarrow> deposit_row" where
  "linked_row T job sequence a d = d\<lparr>dp_bridge_job_id := Some job, dp_outer_action_sequence := Some sequence,
     dp_outer_action_state_after := Some (decimal T (ba_state_after a))\<rparr>"

lemma checked_add_uint:
  "checked_add (a :: 'a::len word) b = Some c \<Longrightarrow> uint c = uint a + uint b"
proof -
  assume "checked_add a b = Some c"
  then have "unat c = unat a + unat b" by (simp add: checked_add_Some)
  then have "int (unat c) = int (unat a) + int (unat b)" by simp
  then show ?thesis by (simp only: uint_nat)
qed

lemma link_deposit_Inr:
  assumes "link_deposit T job v off a t = Inr t'" "off < 2 ^ 32"
  obtains sequence where "t' = fst (update_where (\<lambda>k d. k = uint (bpv_ethereum_nonce_before v) + int off + 1 \<and> linkable job d)
      (linked_row T job sequence a) t)"
    "length (filter (\<lambda>(k, d). k = uint (bpv_ethereum_nonce_before v) + int off + 1 \<and> linkable job d) t) = 1"
    "\<And>u. length (filter (\<lambda>(k, d). k = uint (bpv_ethereum_nonce_before v) + int off + 1 \<and> linkable job d) u) = 1 \<Longrightarrow>
      link_deposit T job v off a u = Inr (fst (update_where (\<lambda>k d. k = uint (bpv_ethereum_nonce_before v) + int off + 1 \<and> linkable job d)
        (linked_row T job sequence a) u))"
proof -
  obtain n1 nonce s1 sequence where n: "checked_add (bpv_ethereum_nonce_before v) (word_of_nat off) = Some n1" "checked_add n1 1 = Some nonce"
    "checked_add (bpv_zeko_action_state_length_before v) (word_of_nat off) = Some s1" "checked_add s1 1 = Some sequence"
    "bigint nonce = Inr (uint nonce)"
    using assms(1) unfolding link_deposit_def
    by (auto simp: and_then_Inr expect_Inr bind_eq_Some_conv bigint_def i64_of_u64_def expect_def split: if_splits option.splits)
  have "uint (word_of_nat off :: u64) = int off" using assms(2) by (simp add: uint_nat unat_of_nat take_bit_nat_eq_self)
  then have u: "uint nonce = uint (bpv_ethereum_nonce_before v) + int off + 1"
    using checked_add_uint [OF n(1)] checked_add_uint [OF n(2)] by simp
  have run: "link_deposit T job v off a w = (let (t', count) = update_where
      (\<lambda>k d. k = uint (bpv_ethereum_nonce_before v) + int off + 1 \<and> linkable job d) (linked_row T job (uint sequence) a) w
     in ensure (count = 1)
       (plain_failure (''confirmed bridge receipt does not map to canonical deposit nonce '' @ show_nat (unat nonce))) (Inr t'))" for w
    using n by (simp add: link_deposit_def expect_def u linked_row_def [abs_def])
  show thesis
    by (rule that [of "uint sequence"]) (use assms(1) in \<open>auto simp: run ensure_Inr update_where_def\<close>)
qed

lemma link_deposits_other:
  assumes "link_deposits T job v off as t = Inr t'" "off + length as < 2 ^ 32" "n \<le> uint (bpv_ethereum_nonce_before v) + int off"
  shows "filter (\<lambda>(k, d). k = n \<and> linkable job d) t' = filter (\<lambda>(k, d). k = n \<and> linkable job d) t"
  using assms
proof (induction as arbitrary: off t)
  case (Cons a as)
  then obtain t1 where t1: "link_deposit T job v off a t = Inr t1" "link_deposits T job v (off + 1) as t1 = Inr t'"
    by (auto simp: and_then_Inr)
  obtain sequence where s: "t1 = fst (update_where (\<lambda>k d. k = uint (bpv_ethereum_nonce_before v) + int off + 1 \<and> linkable job d)
      (linked_row T job sequence a) t)"
    using link_deposit_Inr [OF t1(1)] Cons.prems(2) by auto
  have "filter (\<lambda>(k, d). k = n \<and> linkable job d) t1 = filter (\<lambda>(k, d). k = n \<and> linkable job d) t"
    using Cons.prems(3) unfolding s by (induction t) (auto simp: update_where_def)
  then show ?case using Cons.IH [OF t1(2)] Cons.prems by simp
qed simp

lemma linked_row_idem [simp]:
  "linked_row T job s a (linked_row T job s a d) = linked_row T job s a d"
  "linkable job d \<Longrightarrow> linkable job (linked_row T job s a d)"
  by (simp_all add: linked_row_def linkable_def)

lemma link_deposits_again:
  assumes "link_deposits T job v off as t = Inr t'" "off + length as < 2 ^ 32"
  shows "link_deposits T job v off as t' = Inr t'"
  using assms
proof (induction as arbitrary: off t)
  case (Cons a as)
  let ?n = "uint (bpv_ethereum_nonce_before v) + int off + 1"
  obtain t1 where t1: "link_deposit T job v off a t = Inr t1" "link_deposits T job v (off + 1) as t1 = Inr t'"
    using Cons.prems(1) by (auto simp: and_then_Inr)
  have off: "off < 2 ^ 32" using Cons.prems(2) by simp
  obtain sequence where s: "t1 = fst (update_where (\<lambda>k d. k = ?n \<and> linkable job d) (linked_row T job sequence a) t)"
    "length (filter (\<lambda>(k, d). k = ?n \<and> linkable job d) t) = 1"
    "\<And>u. length (filter (\<lambda>(k, d). k = ?n \<and> linkable job d) u) = 1 \<Longrightarrow>
      link_deposit T job v off a u = Inr (fst (update_where (\<lambda>k d. k = ?n \<and> linkable job d) (linked_row T job sequence a) u))"
    using link_deposit_Inr [OF t1(1) off] by blast
  let ?f = "filter (\<lambda>(k, d). k = ?n \<and> linkable job d)"
  have f1: "?f t1 = map (\<lambda>(k, d). (k, linked_row T job sequence a d)) (?f t)"
    unfolding s(1) by (induction t) (auto simp: update_where_def split: if_splits)
  have f: "?f t' = ?f t1" using link_deposits_other [OF t1(2)] Cons.prems(2) by simp
  have "linked_row T job sequence a d = d" if "(k, d) \<in> set (?f t')" for k d
    using that unfolding f f1 by auto
  then have "fst (update_where (\<lambda>k d. k = ?n \<and> linkable job d) (linked_row T job sequence a) t') = t'"
    unfolding update_where_def by (auto intro!: map_idI)
  moreover have "length (?f t') = 1" using f f1 s(2) by simp
  ultimately have "link_deposit T job v off a t' = Inr t'" using s(3) by simp
  then show ?case using Cons.IH [OF t1(2)] Cons.prems(2) by simp
qed simp

subsection \<open>Properties\<close>

text \<open>
  C27: A rollback undoes what the removed receipts did to the accounts.  When a bridge or settlement receipt was applied in
  a block above the common ancestor, after everything that was applied before it, restoring the accounts to the
  ancestor gives the same accounts as if it had never been applied, also when the outer account pays the fees itself.
\<close>

theorem rollback_undoes_receipts:
  assumes "apply_confirmed_bridge T describe job pv n hash tx db = Inr db' \<or>
      apply_confirmed_settlement H T describe job submission pv n hash tx db = Inr db'"
    and "ancestor < uint n" "list_all (\<lambda>h. hs_block_number h \<le> uint n) (cd_history db)"
  shows "account_at (restore_accounts ancestor (cd_history db') (cd_accounts db')) =
    account_at (restore_accounts ancestor (cd_history db) (cd_accounts db))"
proof -
  obtain new where new: "cd_history db' = cd_history db @ new" "\<forall>h \<in> set new. hs_block_number h = uint n"
    "account_at (fold restore_account (rev new) (cd_accounts db')) = account_at (cd_accounts db)"
    using assms(1) applications_undoable by (metis undoable_def)
  have "orphaned_histories ancestor (cd_history db') = rev new @ orphaned_histories ancestor (cd_history db)"
    unfolding new(1) by (rule orphaned_histories_append) (use new(2) assms(2,3) in \<open>auto simp: list_all_iff\<close>)
  then show ?thesis
    using account_at_restores_cong [OF new(3)] by (simp add: restore_accounts_def)
qed

text \<open>
  Applying a confirmed receipt twice is the same as applying it once, for both kinds.  A restart between the
  application and the update of the job's status, after which the recovery applies the receipt again, changes nothing.
\<close>

lemma application_idempotent:
  assumes "apply_confirmed_bridge T describe job pv n hash tx db = Inr db'"
    and "apply_confirmed_settlement H T describe job' submission pv' n' hash' tx' db2 = Inr db2'"
  shows "apply_confirmed_bridge T describe job pv n hash tx db' = Inr db' \<and>
    apply_confirmed_settlement H T describe job' submission pv' n' hash' tx' db2' = Inr db2'"
proof
  from assms(1) obtain v deposits where v: "decode_bridge pv = Inr v" "check_bridge_receipt v = Inr ()"
    "link_deposits T job v 0 (bpv_actions v) (cd_deposits db) = Inr deposits"
    and r: "applied job db \<and> db' = db\<lparr>cd_deposits := deposits\<rparr> \<or>
     \<not> applied job db \<and> (\<exists>db1 actions. account_update job n (db\<lparr>cd_deposits := deposits\<rparr>) db1 \<and> db' = db1\<lparr>cd_actions := actions\<rparr>)"
    by (rule apply_confirmed_bridge_cases)
  have "length (bpv_actions v) < 2 ^ 32" using v(2) by (auto simp: check_bridge_receipt_def ensure_Inr)
  then have "link_deposits T job v 0 (bpv_actions v) deposits = Inr deposits" using link_deposits_again [OF v(3)] by simp
  moreover have "applied job db' \<and> cd_deposits db' = deposits"
    using r account_update_applied account_update_frame(1) by (fastforce simp: applied_def)
  ultimately show "apply_confirmed_bridge T describe job pv n hash tx db' = Inr db'"
    using v by (simp add: apply_confirmed_bridge_def decode_error_def applied_def)
next
  have again: "apply_confirmed_settlement H T describe job' submission pv' n' hash' tx' db2' = Inr db2'"
    if "decode_public_values pv' = Inr v" "synchronized job' (settlement v) db2' = db2'" "applied job' db2' \<or> submission = None" for v
  proof -
    have "bigint (pv_batch_sequence (settlement v)) = Inr (uint (pv_batch_sequence (settlement v)))"
      using assms(2) that(1) unfolding apply_confirmed_settlement_def Let_def
      by (auto simp: and_then_Inr decode_error_def bigint_def expect_Inr i64_of_u64_def expect_def split: if_splits option.splits)
    then show ?thesis
      using that by (auto simp: apply_confirmed_settlement_def decode_error_def Let_def simp flip: synchronize_rows_def synchronized_def)
  qed
  from assms(2) show "apply_confirmed_settlement H T describe job' submission pv' n' hash' tx' db2' = Inr db2'"
  proof (cases rule: apply_confirmed_settlement_cases)
    case (synchronized v)
    then show ?thesis using again [OF synchronized(1)] by (auto simp: applied_def synchronized_def)
  next
    case (submitted v input)
    from submitted(4) obtain outer db1 db3 where u:
      "account_update job' n' ((synchronized job' (settlement v) db2)\<lparr>cd_outer_public_key := outer\<rparr>) db1"
      "account_update job' n' db1 db3" "cd_history db2' = cd_history db3" "cd_deposits db2' = cd_deposits db3"
      by (rule apply_submission_updates)
    have "cd_deposits db2' = cd_deposits (synchronized job' (settlement v) db2)"
      using u(1,2,4) by (simp add: account_update_frame)
    then have "synchronized job' (settlement v) db2' = db2'" by (simp add: synchronized_def)
    moreover have "applied job' db2'" using account_update_applied [OF u(2)] u(3) by (simp add: applied_def)
    ultimately show ?thesis using again [OF submitted(1)] by blast
  qed
qed

text \<open>
  C39: A settlement's action can be lost by two reorganisations.  When the transaction of a settlement was removed and is included
  again in an earlier block, its action is published again under the old block number, so a later rollback to a block
  between the two removes the action although the settlement stays applied and is therefore never published again.
\<close>

theorem republished_action_lost:
  assumes "apply_confirmed_settlement H T describe job (Some input) pv n hash tx db = Inr db'" "\<not> applied job db"
    and "decode_public_values pv = Inr v" "cd_actions db = [old]" "ac_transaction_hash old = tx" "ac_log_index old = 0"
    and "ac_sequence old = uint (pv_outer_action_state_length_after (settlement v))"
    and "uint n \<le> ancestor" "ancestor < ac_block_number old"
  shows "cd_actions db' = [old\<lparr>ac_removed := False\<rparr>] \<and> applied job (rollback_data ancestor db') \<and>
    list_all ac_removed (cd_actions (rollback_data ancestor db'))"
proof -
  obtain outer db1 db2 key actions m where u: "account_update job n ((synchronized job (settlement v) db)\<lparr>cd_outer_public_key := outer\<rparr>) db1"
    "account_update job n db1 db2" "cd_history db' = cd_history db2"
    and a: "cd_actions db' = put_action (\<lambda>b. b\<lparr>ac_removed := False\<rparr>) (settlement_action T key (settlement v) actions m tx)
      (cd_actions (synchronized job (settlement v) db))"
    using assms(1)
  proof (cases rule: apply_confirmed_settlement_cases)
    case (submitted w input')
    have "w = v" using submitted(1) assms(3) by simp
    then show ?thesis using that by - (rule apply_submission_updates [OF submitted(4)], blast)
  qed (use assms(2) in auto)
  have act: "cd_actions db' = [old\<lparr>ac_removed := False\<rparr>]"
    using assms(4-7) unfolding a by (simp add: synchronized_def put_action_def same_action_def settlement_action_def)
  have "applied job db'" using account_update_applied [OF u(2)] u(3) by (simp add: applied_def)
  moreover obtain new where "cd_history db' = cd_history db @ new" "\<forall>h \<in> set new. hs_block_number h = uint n"
    using applications_undoable(2) [OF assms(1)] by (auto simp: undoable_def)
  ultimately have "applied job (rollback_data ancestor db')"
    using assms(2,8) by (auto simp: applied_def rollback_data_def list_ex_iff)
  then show ?thesis using act assms(9) by (simp add: rollback_data_def mark_removed_def)
qed

subsection \<open>A bridge receipt and a settlement receipt in block 102\<close>

definition receipt_log :: bridge_deposit_log where
  "receipt_log =
     \<lparr>dl_nonce = 1, dl_deposit_leaf = [], dl_old_deposit_state = [], dl_new_deposit_state = [], dl_token = [],
      dl_sender = [], dl_zeko_recipient = [], dl_amount = 0, dl_zeko_amount = 0, dl_timeout = 0,
      dl_erc20_identity = None, dl_block_number = 101, dl_block_hash = [], dl_transaction_hash = [], dl_log_index = 0\<rparr>"

definition receipt_db :: chain_db where
  "receipt_db = (sample_db [])
     \<lparr>cd_deposits := [(1, \<lparr>dp_log = receipt_log, dp_removed = False, dp_bridge_job_id = None,
        dp_outer_action_sequence = None, dp_outer_action_state_after = None, dp_synchronized_job_id = None,
        dp_synchronized_sequence = None\<rparr>)],
      cd_accounts := [(''outer'', \<lparr>ar_account = \<lparr>aj_zkapp_state = None,
        aj_action_state = Some [decimal sample_text (replicate 32 2), ''8'', ''7'', ''6'', ''5''], aj_nonce = Some ''3'',
        aj_proved_state = None, aj_rest = []\<rparr>, ar_block = None\<rparr>)]\<rparr>"

definition receipt_values :: bridge_public_values where
  "receipt_values =
     \<lparr>bpv_ethereum_state_before = replicate 32 0, bpv_ethereum_state_after = replicate 32 1,
      bpv_ethereum_nonce_before = 0, bpv_ethereum_nonce_after = 1,
      bpv_zeko_action_state_before = replicate 32 2, bpv_zeko_action_state_after = replicate 32 3,
      bpv_zeko_action_state_length_before = 7, bpv_zeko_action_state_length_after = 8,
      bpv_actions = [\<lparr>ba_fields = replicate 5 (replicate 32 0), ba_state_after = replicate 32 3\<rparr>]\<rparr>"

definition receipt_submission :: settlement_input where
  "receipt_submission =
     \<lparr>si_outer_account = Some ''outer'', si_fee_payer = Some ''outer'', si_nonce = Some 3, si_actions = Some (Some []),
      si_inner_batch = None\<rparr>"

lemma receipt_bridge_applies:
  "\<exists>pv db. apply_confirmed_bridge sample_text (\<lambda>_. []) 5 pv 102 [1] [2] receipt_db = Inr db"
proof -
  have "wf_bridge_public_values receipt_values"
    by (simp add: wf_bridge_public_values_def receipt_values_def wf_action_def list_all_length)
  then obtain pv where pv: "decode_bridge pv = Inr receipt_values" using bridge.round_trip by blast
  have c: "check_bridge_receipt receipt_values = Inr ()"
    by (simp add: check_bridge_receipt_def receipt_values_def checked_add_def expect_def ensure_def)
  obtain ds where d: "link_deposits sample_text 5 receipt_values 0 (bpv_actions receipt_values) (cd_deposits receipt_db) = Inr ds"
    by (simp add: receipt_values_def receipt_db_def link_deposit_def checked_add_def expect_def ensure_def bigint_def i64_of_u64_def
        update_where_def linkable_def)
  have "decimal sample_text (replicate 32 2) = decimal sample_text (bpv_zeko_action_state_before receipt_values)"
    by (simp add: receipt_values_def)
  then show ?thesis
    using pv c d
    by (intro exI [of _ pv], simp add: apply_confirmed_bridge_def decode_error_def applied_def receipt_db_def sample_db_def
        expect_def update_outer_account_actions_def lookup_account_def snapshot_account_def store_account_def bigint_def
        i64_of_u64_def old_actions_def ensure_def)
      (simp add: receipt_values_def bridge_action_def checked_add_def expect_def bigint_def i64_of_u64_def)
qed

definition receipt_action :: action_row where
  "receipt_action =
     \<lparr>ac_address = ''outer'', ac_sequence = 8, ac_state_before = [], ac_state_after = [], ac_data = [], ac_block_number = 104,
      ac_transaction_hash = [2], ac_log_index = 0, ac_removed = True\<rparr>"

lemma receipt_settlement_applies:
  "\<exists>pv db. decode_public_values pv = Inr (V1 sample_spv1) \<and>
     apply_confirmed_settlement ladder_crypto sample_text (\<lambda>_. []) 6 (Some receipt_submission) pv 102 [1] [2]
       (receipt_db\<lparr>cd_actions := actions\<rparr>) = Inr db"
proof -
  obtain pv where pv: "decode_public_values pv = Inr (V1 sample_spv1)"
    using receipt.round_trip [of "V1 sample_spv1"] wf_sample_spv1 by auto
  have "bigint (pv_batch_sequence sample_spv1) = Inr 42"
    by (simp add: bigint_def i64_of_u64_def expect_def sample_spv1_def)
  moreover have "parse_u64 ''3'' = Some 3" by (simp add: parse_u64_def digit_value_def of_char_def)
  ultimately show ?thesis
    using pv
    by (intro exI [of _ pv], simp add: apply_confirmed_settlement_def decode_error_def applied_def receipt_db_def sample_db_def
        apply_submission_def receipt_submission_def expect_def update_outer_account_def update_fee_payer_def
        advance_fee_payer_def fee_payer_nonce_after_def checked_add_def lookup_account_def snapshot_account_def
        store_account_def bigint_def i64_of_u64_def old_actions_def ensure_def fields_to_decimal_def update_where_def)
qed

theorem rollback_undoes_receipts_witness:
  "\<exists>pv db. apply_confirmed_settlement ladder_crypto sample_text (\<lambda>_. []) 6 (Some receipt_submission) pv 102 [1] [2] receipt_db = Inr db \<and>
     account_at (restore_accounts 101 (cd_history db) (cd_accounts db)) = account_at (cd_accounts receipt_db)"
proof -
  obtain pv db where r: "apply_confirmed_settlement ladder_crypto sample_text (\<lambda>_. []) 6 (Some receipt_submission) pv 102 [1] [2] receipt_db = Inr db"
    using receipt_settlement_applies [of "cd_actions receipt_db"] by auto
  have h: "cd_history receipt_db = []" by (simp add: receipt_db_def sample_db_def)
  then show ?thesis
    using r rollback_undoes_receipts [OF disjI2 [OF r], of 101]
    by (intro exI [of _ pv] exI [of _ db]) (simp add: restore_accounts_def orphaned_histories_def)
qed

theorem republished_action_lost_witness:
  "\<exists>pv db. apply_confirmed_settlement ladder_crypto sample_text (\<lambda>_. []) 6 (Some receipt_submission) pv 102 [1] [2]
       (receipt_db\<lparr>cd_actions := [receipt_action]\<rparr>) = Inr db \<and> list_all ac_removed (cd_actions (rollback_data 103 db))"
proof -
  obtain pv db where r: "decode_public_values pv = Inr (V1 sample_spv1)"
    "apply_confirmed_settlement ladder_crypto sample_text (\<lambda>_. []) 6 (Some receipt_submission) pv 102 [1] [2]
       (receipt_db\<lparr>cd_actions := [receipt_action]\<rparr>) = Inr db"
    using receipt_settlement_applies by blast
  show ?thesis
    using r republished_action_lost [OF r(2) _ r(1), of receipt_action 103]
    by (auto simp: applied_def receipt_db_def sample_db_def receipt_action_def sample_spv1_def)
qed

end
