(* ===== verification/Settlement_Receipt.thy ===== *)
theory Settlement_Receipt
  imports Inner_Action_Replay
begin

text \<open>
  The settlement guest: \<open>derive_receipt_for_app_state\<close> and \<open>derive_receipt_bytes\<close> of
  \<open>program/settlement/src/receipt.rs\<close> and \<open>main\<close> of \<open>program/settlement/src/main.rs\<close>.  The guest
  verifies a Pickles proof, checks that the host's witness is the preimage of the proof's two
  statement fields, and publishes the settlement receipt in the version that the optional parts of
  the witness select.

  The Pickles verifier (\<open>pickles_verifier::verify\<close> on the verifier blob that the build bakes in)
  is the parameter \<open>verify\<close>; a proof is represented by its application state.
\<close>

subsection \<open>Data\<close>

record settlement_binding =
  sb_mina_signature_kind :: mina_signature_kind
  sb_account_update_body :: chunked_input
  sb_actions :: "bytes list list"
  sb_state_before :: outer_state
  sb_call_forest :: "call_forest_node list"

record settlement_context =
  sc_chain_id :: u64
  sc_settlement_contract :: bytes
  sc_batch_sequence :: u64
  sc_mina_transaction_hash :: bytes
  sc_outer_action_state_length_before :: u32

record settlement_witness =
  sw_binding :: settlement_binding
  sw_context :: settlement_context
  sw_inner_action_batch :: "inner_action_batch_witness option"
  sw_asset_registry_checkpoint :: "registry_checkpoint option"
  sw_asset_registry_batch :: "registry_batch option"

definition BODY_UPDATE_STATE_START :: nat where
  "BODY_UPDATE_STATE_START = 2"

definition BODY_ACTIONS_HASH :: nat where
  "BODY_ACTIONS_HASH = 15"

definition BODY_PRECONDITION_STATE_START :: nat where
  "BODY_PRECONDITION_STATE_START = 28"

definition BODY_PRECONDITION_ACTION_STATE :: nat where
  "BODY_PRECONDITION_ACTION_STATE = 36"

definition OUTER_COMMIT_ACTION_FIELDS :: nat where
  "OUTER_COMMIT_ACTION_FIELDS = 8"

definition ASSET_REGISTRY_CHECKPOINT_VERSION :: u32 where
  "ASSET_REGISTRY_CHECKPOINT_VERSION = 2"

lemmas body_consts =
  BODY_UPDATE_STATE_START_def BODY_ACTIONS_HASH_def BODY_PRECONDITION_STATE_START_def
  BODY_PRECONDITION_ACTION_STATE_def OUTER_COMMIT_ACTION_FIELDS_def
  ASSET_REGISTRY_CHECKPOINT_VERSION_def

subsection \<open>The V1 receipt\<close>

definition hash_actions :: "crypto \<Rightarrow> fp list list \<Rightarrow> fp" where
  "hash_actions H actions =
     foldl (\<lambda>result event. hash_with_prefix H ''MinaZkappSeqEvents**''
         [result, hash_with_prefix H ''MinaZkappEvent******'' event])
       (empty_hash_with_prefix H ''MinaZkappActionsEmpty'') (rev actions)"

text \<open>The registry part of the statement check: the two branches differ in their last message.\<close>

definition check_registry_call ::
  "crypto \<Rightarrow> settlement_binding \<Rightarrow> u32 \<Rightarrow> bytes \<Rightarrow> bytes \<Rightarrow> u32 \<Rightarrow> u32 \<Rightarrow> string \<Rightarrow> string + unit" where
  "check_registry_call H binding checkpoint_version registry_public_key rt count schema_version message =
     ensure (checkpoint_version = ASSET_REGISTRY_CHECKPOINT_VERSION)
       ''unsupported registry checkpoint commitment version'' (
     and_then (count_registry_checkpoint_calls H (sb_call_forest binding) registry_public_key rt count
       schema_version) (\<lambda>matching_registry_calls.
     ensure (matching_registry_calls = 1) message (Inr ())))"

definition check_registry_statement ::
  "crypto \<Rightarrow> fp list \<Rightarrow> settlement_witness \<Rightarrow> string + unit" where
  "check_registry_statement H app_state witness =
     (let binding = sw_binding witness in
      and_then
        (if sw_asset_registry_checkpoint witness \<noteq> None \<or> sw_asset_registry_batch witness \<noteq> None
         then and_then (hash_call_forest H (sb_mina_signature_kind binding) (sb_call_forest binding)) (\<lambda>h.
              ensure (h = app_state ! 1)
                ''child call forest does not match the verified Pickles statement'' (Inr ()))
         else Inr ()) (\<lambda>_.
      and_then
        (case sw_asset_registry_checkpoint witness of
           None \<Rightarrow> Inr ()
         | Some checkpoint \<Rightarrow>
             check_registry_call H binding (rc_checkpoint_version checkpoint)
               (rc_registry_public_key checkpoint) (rc_root checkpoint) (rc_count checkpoint)
               (rc_schema_version checkpoint)
               ''registry checkpoint must match exactly one authenticated child call'') (\<lambda>_.
      (case sw_asset_registry_batch witness of
         None \<Rightarrow> Inr ()
       | Some checkpoint \<Rightarrow>
           check_registry_call H binding (rb_checkpoint_version checkpoint)
             (rb_registry_public_key checkpoint) (rb_root checkpoint) (rb_count checkpoint)
             (rb_schema_version checkpoint)
             ''registry batch must match exactly one authenticated child call''))))"

text \<open>\<open>for index in [1, 2, 3, 4, 7] { state_after[index] = body[2 + index] }\<close>\<close>

definition updated_state :: "fp list \<Rightarrow> fp list \<Rightarrow> fp list" where
  "updated_state state_before_fields body_fields =
     foldl (\<lambda>st index. st[index := body_fields ! (BODY_UPDATE_STATE_START + index)])
       state_before_fields [1, 2, 3, 4, 7]"

definition derive_receipt_for_app_state ::
  "crypto \<Rightarrow> fp list \<Rightarrow> settlement_witness \<Rightarrow> bytes \<Rightarrow> string + spv1" where
  "derive_receipt_for_app_state H app_state witness vk_hash =
     ensure (length app_state = 2) ''Zeko settlement statement must contain body and calls digests'' (
     let binding = sw_binding witness; context = sw_context witness in
     and_then (try_map field_from_bytes (ci_field_elements (sb_account_update_body binding))) (\<lambda>body_fields.
     ensure (length body_fields > BODY_PRECONDITION_ACTION_STATE)
       ''account-update body input is missing Zeko binding fields'' (
     and_then (hash_account_update_body H (sb_mina_signature_kind binding)
       (sb_account_update_body binding)) (\<lambda>body_hash.
     ensure (body_hash = app_state ! 0)
       ''account-update body does not match the verified Pickles statement'' (
     and_then (check_registry_statement H app_state witness) (\<lambda>_.
     and_then (try_map (try_map field_from_bytes) (sb_actions binding)) (\<lambda>actions.
     ensure (length actions = 1) ''outer commit must emit exactly one action'' (
     let action = actions ! 0 in
     ensure (length action = OUTER_COMMIT_ACTION_FIELDS) ''invalid Zeko outer commit action width'' (
     ensure (action ! 0 = 0) ''outer action is not a commit'' (
     let actions_hash = hash_actions H actions in
     ensure (actions_hash = body_fields ! BODY_ACTIONS_HASH)
       ''actions do not match the verified account-update body'' (
     and_then (try_map field_from_bytes (os_fields (sb_state_before binding))) (\<lambda>state_before_fields.
     ensure (list_all (\<lambda>index. state_before_fields ! index =
         body_fields ! (BODY_PRECONDITION_STATE_START + index)) [1..<8])
       ''source outer state does not match account preconditions'' (
     ensure (state_before_fields ! 1 = 0)
       ''multisig commit source must not be paused or in emergency mode'' (
     let state_after_fields = updated_state state_before_fields body_fields in
     ensure (action ! 1 = state_after_fields ! 2) ''commit ledger mismatch'' (
     ensure (action ! 2 = state_after_fields ! 3) ''commit inner action state mismatch'' (
     ensure (action ! 3 = state_after_fields ! 4) ''commit inner action length mismatch'' (
     ensure (state_after_fields ! 1 = 0) ''multisig commit must clear paused/emergency flags'' (
     let outer_action_state_before = body_fields ! BODY_PRECONDITION_ACTION_STATE;
         outer_action_state_after = hash_with_prefix H ''MinaZkappSeqEvents**''
           [outer_action_state_before, actions_hash];
         before_length = sc_outer_action_state_length_before context in
     and_then (expect (checked_add before_length 1) ''outer action-state length overflow'') (\<lambda>after_length.
     and_then (field_to_u32 (action ! 5)) (\<lambda>synchronized_length.
     and_then (field_to_u32 (action ! 6)) (\<lambda>slot_lower.
     and_then (field_to_u32 (action ! 7)) (\<lambda>slot_upper.
     Inr \<lparr>pv_da_mode = Multisig,
          pv_chain_id = sc_chain_id context,
          pv_settlement_contract = sc_settlement_contract context,
          pv_batch_sequence = sc_batch_sequence context,
          pv_vk_hash = vk_hash,
          pv_app_statement = field_to_bytes (app_state ! 0),
          pv_mina_transaction_hash = sc_mina_transaction_hash context,
          pv_state_before = \<lparr>os_fields = map (\<lambda>index. field_to_bytes (state_before_fields ! index)) [0..<8]\<rparr>,
          pv_state_after = \<lparr>os_fields = map (\<lambda>index. field_to_bytes (state_after_fields ! index)) [0..<8]\<rparr>,
          pv_outer_action_state_before = field_to_bytes outer_action_state_before,
          pv_outer_action_state_after = field_to_bytes outer_action_state_after,
          pv_outer_action_state_length_before = before_length,
          pv_outer_action_state_length_after = after_length,
          pv_synchronized_outer_action_state = field_to_bytes (action ! 4),
          pv_synchronized_outer_action_state_length = synchronized_length,
          pv_slot_lower = slot_lower,
          pv_slot_upper = slot_upper\<rparr>))))))))))))))))))))))"

subsection \<open>The receipt in its version\<close>

datatype guest_error = Panic string | Encoding wire_error

definition panic :: "string + 'a \<Rightarrow> guest_error + 'a" where
  "panic r = (case r of Inl e \<Rightarrow> Inl (Panic e) | Inr x \<Rightarrow> Inr x)"

definition encoded :: "wire_error + 'a \<Rightarrow> guest_error + 'a" where
  "encoded r = (case r of Inl e \<Rightarrow> Inl (Encoding e) | Inr x \<Rightarrow> Inr x)"

definition derive_receipt_bytes ::
  "crypto \<Rightarrow> fp list \<Rightarrow> settlement_witness \<Rightarrow> bytes \<Rightarrow> guest_error + bytes" where
  "derive_receipt_bytes H app_state witness vk_hash =
     (let chain_id = sc_chain_id (sw_context witness) in
      and_then (panic (derive_receipt_for_app_state H app_state witness vk_hash)) (\<lambda>v1.
      case (sw_inner_action_batch witness, sw_asset_registry_checkpoint witness,
            sw_asset_registry_batch witness) of
        (None, None, None) \<Rightarrow> encoded (encode_v1 v1)
      | (Some batch, None, None) \<Rightarrow>
          and_then (panic (derive_v2_receipt H v1 batch)) (\<lambda>v2. encoded (encode_v2 v2))
      | (Some batch, Some checkpoint, None) \<Rightarrow>
          and_then (panic (validate_registry_transition H checkpoint chain_id (ib_bridge_address batch))) (\<lambda>_.
          and_then (panic (
            ensure (rc_root checkpoint \<noteq> replicate 32 0) ''asset registry root is zero'' (
            ensure (rc_count checkpoint > 0) ''asset registry count is zero'' (
            ensure (rc_schema_version checkpoint = 1) ''unsupported asset registry schema'' (
            ensure (rc_record_hash checkpoint \<noteq> replicate 32 0) ''asset registry record hash is zero''
            (Inr ())))))) (\<lambda>_.
          and_then (panic (derive_v2_receipt H v1 batch)) (\<lambda>v2.
          and_then (panic (hash_registry_record_leaf H (rc_record checkpoint))) (\<lambda>leaf.
          encoded (encode_v3
            \<lparr>pv3_settlement = v2,
             pv3_asset_registry_root = rc_root checkpoint,
             pv3_asset_registry_count = rc_count checkpoint,
             pv3_asset_registry_schema_version = rc_schema_version checkpoint,
             pv3_asset_record_hash = rc_record_hash checkpoint,
             pv3_asset_record_commitment = field_to_bytes leaf\<rparr>)))))
      | (Some batch, None, Some checkpoint) \<Rightarrow>
          and_then (panic (validate_registry_batch H checkpoint chain_id (ib_bridge_address batch))) (\<lambda>record_identities.
          and_then (panic (asset_record_batch_root H record_identities)) (\<lambda>batch_root.
          and_then (panic (derive_v2_receipt H v1 batch)) (\<lambda>v2.
          and_then (panic (ensure (length record_identities < 2 ^ 32) ''asset record batch length fits u32''
            (Inr ()))) (\<lambda>_.
          encoded (encode_v4
            \<lparr>pv4_settlement = v2,
             pv4_asset_registry_root = rb_root checkpoint,
             pv4_asset_registry_count = rb_count checkpoint,
             pv4_asset_registry_schema_version = rb_schema_version checkpoint,
             pv4_asset_record_batch_root = batch_root,
             pv4_asset_record_batch_count = word_of_nat (length record_identities)\<rparr>)))))
      | (_, Some _, Some _) \<Rightarrow>
          Inl (Panic ''V3 and V4 asset registry checkpoints are mutually exclusive'')
      | (None, _, _) \<Rightarrow>
          Inl (Panic ''asset registry checkpoint requires a V2 inner-action batch'')))"

subsection \<open>The program\<close>

definition commit_zkapp_public_values :: "bytes \<Rightarrow> bool \<Rightarrow> bytes" where
  "commit_zkapp_public_values vk_hash proof_valid =
     (let empty_state = replicate 8 (replicate 32 0); empty_action_state = replicate 32 0 in
      [if proof_valid then 1 else 0] @ vk_hash @ concat empty_state @ concat empty_state @ empty_action_state)"

record 'p verifiable_proof =
  vp_app_state :: "fp list"
  vp_proof :: 'p

definition settlement_main ::
  "crypto \<Rightarrow> ('p verifiable_proof \<Rightarrow> bool) \<Rightarrow> bytes \<Rightarrow> 'p verifiable_proof \<Rightarrow>
   settlement_witness option \<Rightarrow> guest_error + bytes" where
  "settlement_main H verify vk_hash proof settlement_input =
     (let proof_valid = verify proof in
      ensure proof_valid (Panic ''Pickles proof verification failed'') (
      case settlement_input of
        Some witness \<Rightarrow> derive_receipt_bytes H (vp_app_state proof) witness vk_hash
      | None \<Rightarrow> Inr (commit_zkapp_public_values vk_hash proof_valid)))"

subsection \<open>What the V1 receipt rests on\<close>

abbreviation num :: "bytes \<Rightarrow> fp" where
  "num \<equiv> from_be_bytes_mod_order"

definition body_of :: "settlement_witness \<Rightarrow> fp list" where
  "body_of w = map num (ci_field_elements (sb_account_update_body (sw_binding w)))"

definition commit_of :: "settlement_witness \<Rightarrow> fp list" where
  "commit_of w = map num (hd (sb_actions (sw_binding w)))"

definition source_of :: "settlement_witness \<Rightarrow> fp list" where
  "source_of w = map num (os_fields (sb_state_before (sw_binding w)))"

definition target_of :: "settlement_witness \<Rightarrow> fp list" where
  "target_of w =
     (let s = source_of w; b = body_of w in [s ! 0, b ! 3, b ! 4, b ! 5, b ! 6, s ! 5, s ! 6, b ! 9])"

definition single_action_hash :: "crypto \<Rightarrow> fp list \<Rightarrow> fp" where
  "single_action_hash H action = hash_actions H [action]"

definition v1_accepts :: "crypto \<Rightarrow> fp list \<Rightarrow> settlement_witness \<Rightarrow> bool" where
  "v1_accepts H app_state w \<longleftrightarrow>
     (let binding = sw_binding w; b = body_of w; a = commit_of w; s = source_of w in
      length app_state = 2 \<and>
      list_all canonical (ci_field_elements (sb_account_update_body binding)) \<and> 36 < length b \<and>
      hash_account_update_body H (sb_mina_signature_kind binding) (sb_account_update_body binding) =
        Inr (app_state ! 0) \<and>
      check_registry_statement H app_state w = Inr () \<and>
      length (sb_actions binding) = 1 \<and> list_all canonical (hd (sb_actions binding)) \<and>
      list_all canonical (os_fields (sb_state_before binding)) \<and>
      length a = 8 \<and> a ! 0 = 0 \<and>
      single_action_hash H a = b ! 15 \<and>
      (\<forall>i \<in> {1..<8}. s ! i = b ! (28 + i)) \<and>
      s ! 1 = 0 \<and> b ! 3 = 0 \<and> a ! 1 = b ! 4 \<and> a ! 2 = b ! 5 \<and> a ! 3 = b ! 6 \<and>
      unat (sc_outer_action_state_length_before (sw_context w)) + 1 < 2 ^ 32 \<and>
      nat_of_fp (a ! 5) < 2 ^ 32 \<and> nat_of_fp (a ! 6) < 2 ^ 32 \<and> nat_of_fp (a ! 7) < 2 ^ 32)"

definition v1_output :: "crypto \<Rightarrow> fp list \<Rightarrow> settlement_witness \<Rightarrow> bytes \<Rightarrow> spv1" where
  "v1_output H app_state w vk_hash =
     (let c = sw_context w; b = body_of w; a = commit_of w in
      \<lparr>pv_da_mode = Multisig,
       pv_chain_id = sc_chain_id c,
       pv_settlement_contract = sc_settlement_contract c,
       pv_batch_sequence = sc_batch_sequence c,
       pv_vk_hash = vk_hash,
       pv_app_statement = field_to_bytes (app_state ! 0),
       pv_mina_transaction_hash = sc_mina_transaction_hash c,
       pv_state_before = sb_state_before (sw_binding w),
       pv_state_after = \<lparr>os_fields = map field_to_bytes (target_of w)\<rparr>,
       pv_outer_action_state_before = field_to_bytes (b ! 36),
       pv_outer_action_state_after = field_to_bytes (push_actions H (b ! 36) (b ! 15)),
       pv_outer_action_state_length_before = sc_outer_action_state_length_before c,
       pv_outer_action_state_length_after = sc_outer_action_state_length_before c + 1,
       pv_synchronized_outer_action_state = field_to_bytes (a ! 4),
       pv_synchronized_outer_action_state_length = word_of_nat (nat_of_fp (a ! 5)),
       pv_slot_lower = word_of_nat (nat_of_fp (a ! 6)),
       pv_slot_upper = word_of_nat (nat_of_fp (a ! 7))\<rparr>)"

text \<open>The lengths that Rust's array types fix in a witness.\<close>

definition wf_settlement_witness :: "settlement_witness \<Rightarrow> bool" where
  "wf_settlement_witness w \<longleftrightarrow>
     length (os_fields (sb_state_before (sw_binding w))) = 8 \<and>
     length (sc_settlement_contract (sw_context w)) = 20 \<and>
     length (sc_mina_transaction_hash (sw_context w)) = 32 \<and>
     (\<forall>b. sw_inner_action_batch w = Some b \<longrightarrow> length (ib_bridge_address b) = 20)"

lemma num_field: "num (field_to_bytes x) = x"
  by (simp add: from_be_bytes_mod_order_def)

lemma try_map_events:
  "try_map (try_map field_from_bytes) bss = Inr vss \<longleftrightarrow>
     list_all (list_all canonical) bss \<and> vss = map (map num) bss"
  by (induction bss arbitrary: vss) (auto simp: res_simps try_map_fields)

lemma field_to_u32_cases: "field_to_u32 v = Inr w \<longleftrightarrow> nat_of_fp v < 2 ^ 32 \<and> w = word_of_nat (nat_of_fp v)"
proof -
  have "v = fp_from_u32 w \<longleftrightarrow> nat_of_fp v = unat w" by (simp add: fp_eq_iff)
  also have "\<dots> \<longleftrightarrow> nat_of_fp v < 2 ^ 32 \<and> w = word_of_nat (nat_of_fp v)"
    using unat_less_pow [of w] by (auto simp: unat_of_nat take_bit_nat_eq_self)
  finally show ?thesis by (simp add: field_to_u32_Inr)
qed

lemma length_8: "length xs = 8 \<Longrightarrow> xs = [xs ! 0, xs ! 1, xs ! 2, xs ! 3, xs ! 4, xs ! 5, xs ! 6, xs ! 7]"
  by (auto simp: eval_nat_numeral length_Suc_conv)

lemma updated_state_eq:
  assumes "length st = 8"
  shows "updated_state st body = [st ! 0, body ! 3, body ! 4, body ! 5, body ! 6, st ! 5, st ! 6, body ! 9]"
  by (subst length_8 [OF assms]) (simp add: updated_state_def BODY_UPDATE_STATE_START_def eval_nat_numeral)

lemma map_upt_8: "map f [0..<8] = [f 0, f 1, f 2, f 3, f 4, f 5, f 6, f (7 :: nat)]"
  by (simp add: eval_nat_numeral)

lemma outer_state_bytes:
  assumes "list_all canonical (os_fields s)" "length (os_fields s) = 8"
  shows "\<lparr>os_fields = map (\<lambda>i. field_to_bytes (map num (os_fields s) ! i)) [0..<8]\<rparr> = s"
proof -
  have "map (\<lambda>i. field_to_bytes (map num (os_fields s) ! i)) [0..<8] = os_fields s"
    using assms by (intro nth_equalityI) (auto simp: list_all_length canonical_def)
  then show ?thesis by simp
qed

lemma derive_receipt_Inr:
  assumes "wf_settlement_witness w"
  shows "derive_receipt_for_app_state H app_state w vk = Inr out \<longleftrightarrow>
    v1_accepts H app_state w \<and> out = v1_output H app_state w vk"
proof -
  let ?bind = "sw_binding w" and ?c = "sw_context w"
  let ?s = "os_fields (sb_state_before ?bind)" and ?n = "sc_outer_action_state_length_before ?c"
  have len: "length ?s = 8" using assms by (simp add: wf_settlement_witness_def)
  have target: "updated_state (map num ?s) (body_of w) = target_of w"
    by (simp add: updated_state_eq len target_of_def source_of_def Let_def)
  have [simp]: "target_of w ! 1 = body_of w ! 3" "target_of w ! Suc 0 = body_of w ! 3"
    "target_of w ! 2 = body_of w ! 4" "target_of w ! 3 = body_of w ! 5" "target_of w ! 4 = body_of w ! 6"
    by (simp_all add: target_of_def Let_def)
  have after: "map (\<lambda>i. field_to_bytes (target_of w ! i)) [0..<8] = map field_to_bytes (target_of w)"
    using map_nth [of "map field_to_bytes (target_of w)"]
    by (simp add: target_of_def Let_def map_upt_8)
  have range: "list_all P [Suc 0..<8] \<longleftrightarrow> (\<forall>i \<in> {Suc 0..<8}. P i)" for P
    by (auto simp: list_all_iff)
  have add1: "checked_add ?n 1 = Some m \<longleftrightarrow> unat ?n + 1 < 2 ^ 32 \<and> m = ?n + 1" for m
    by (auto simp: checked_add_def)
  show ?thesis
  proof (cases "length (sb_actions ?bind) = 1 \<and> list_all canonical (hd (sb_actions ?bind)) \<and> list_all canonical ?s")
    case True
    then obtain bs where bs: "sb_actions ?bind = [bs]" "list_all canonical bs" "list_all canonical ?s"
      by (auto simp: length_Suc_conv)
    then have ev: "try_map (try_map field_from_bytes) (sb_actions ?bind) = Inr [commit_of w]"
      unfolding try_map_events by (simp add: commit_of_def)
    have st: "try_map field_from_bytes ?s = Inr (source_of w)"
      using bs unfolding try_map_fields by (simp add: source_of_def)
    have before: "\<lparr>os_fields = map (\<lambda>i. field_to_bytes (source_of w ! i)) [0..<8]\<rparr> = sb_state_before ?bind"
      unfolding source_of_def using bs(3) len by (rule outer_state_bytes)
    show ?thesis
      using True
      by (simp add: derive_receipt_for_app_state_def res_simps Let_def ev st try_map_fields
          target [folded source_of_def] before after range add1 body_consts field_to_u32_cases
          v1_accepts_def v1_output_def push_actions_def single_action_hash_def
          flip: body_of_def) auto
  next
    case False
    then have "\<not> v1_accepts H app_state w" by (auto simp: v1_accepts_def Let_def)
    moreover have "derive_receipt_for_app_state H app_state w vk \<noteq> Inr out"
    proof
      assume "derive_receipt_for_app_state H app_state w vk = Inr out"
      then obtain acts where "try_map (try_map field_from_bytes) (sb_actions ?bind) = Inr acts"
        "length acts = 1" "\<exists>st. try_map field_from_bytes ?s = Inr st"
        by (auto simp: derive_receipt_for_app_state_def res_simps Let_def)
      then show False using False by (auto simp: try_map_events try_map_fields length_Suc_conv)
    qed
    ultimately show ?thesis by blast
  qed
qed

subsection \<open>What each version publishes\<close>

definition v3_accepts :: "crypto \<Rightarrow> u64 \<Rightarrow> bytes \<Rightarrow> registry_checkpoint \<Rightarrow> bool" where
  "v3_accepts H cid bridge c \<longleftrightarrow> validate_registry_transition H c cid bridge = Inr () \<and>
     rc_root c \<noteq> replicate 32 0 \<and> rc_record_hash c \<noteq> replicate 32 0"

definition v3_output :: "crypto \<Rightarrow> spv2 \<Rightarrow> registry_checkpoint \<Rightarrow> spv3" where
  "v3_output H v2 c =
     \<lparr>pv3_settlement = v2, pv3_asset_registry_root = rc_root c, pv3_asset_registry_count = rc_count c,
      pv3_asset_registry_schema_version = 1, pv3_asset_record_hash = rc_record_hash c,
      pv3_asset_record_commitment = field_to_bytes (projr (hash_registry_record_leaf H (rc_record c)))\<rparr>"

definition v4_output :: "crypto \<Rightarrow> spv2 \<Rightarrow> registry_batch \<Rightarrow> spv4" where
  "v4_output H v2 c =
     \<lparr>pv4_settlement = v2, pv4_asset_registry_root = rb_root c, pv4_asset_registry_count = rb_count c,
      pv4_asset_registry_schema_version = 1,
      pv4_asset_record_batch_root = perfect_root (batch_node H) 8
        (fill (replicate 256 (replicate 32 0)) (unat (rb_old_count c)) (map (identity_leaf H) (rb_appends c))),
      pv4_asset_record_batch_count = word_of_nat (length (rb_appends c))\<rparr>"

definition publishes ::
  "crypto \<Rightarrow> fp list \<Rightarrow> settlement_witness \<Rightarrow> bytes \<Rightarrow> settlement_public_values \<Rightarrow> bool" where
  "publishes H app_state w vk v \<longleftrightarrow> v1_accepts H app_state w \<and>
     (let v1 = v1_output H app_state w vk; cid = sc_chain_id (sw_context w) in
      case (sw_inner_action_batch w, sw_asset_registry_checkpoint w, sw_asset_registry_batch w) of
        (None, None, None) \<Rightarrow> v = V1 v1
      | (Some b, None, None) \<Rightarrow> v2_accepts H v1 b \<and> v = V2 (v2_output H v1 b)
      | (Some b, Some c, None) \<Rightarrow> v2_accepts H v1 b \<and> v3_accepts H cid (ib_bridge_address b) c \<and>
          v = V3 (v3_output H (v2_output H v1 b) c)
      | (Some b, None, Some c) \<Rightarrow> v2_accepts H v1 b \<and>
          (\<exists>ids. validate_registry_batch H c cid (ib_bridge_address b) = Inr ids) \<and>
          v = V4 (v4_output H (v2_output H v1 b) c)
      | _ \<Rightarrow> False)"

lemma panic_Inr [res_simps]: "panic r = Inr x \<longleftrightarrow> r = Inr x"
  by (simp add: panic_def split: sum.splits)

lemma encoded_Inr [res_simps]: "encoded r = Inr x \<longleftrightarrow> r = Inr x"
  by (simp add: encoded_def split: sum.splits)

lemma canonical_length: "canonical b \<Longrightarrow> length b = 32"
  unfolding canonical_def by (metis length_field_to_bytes)

lemma wf_v1_output:
  assumes "wf_settlement_witness w" "v1_accepts H app_state w" "length vk = 32"
  shows "wf_spv1 (v1_output H app_state w vk)"
  using assms
  by (simp add: wf_spv1_def v1_output_def wf_outer_state_def Let_def wf_settlement_witness_def v1_accepts_def
      list_all_iff canonical_length target_of_def)

lemma transition_facts:
  assumes "validate_registry_transition H c cid bridge = Inr ()"
  shows "rc_schema_version c = 1" "0 < rc_count c" "length (rc_root c) = 32"
    "rc_record_hash c = hash_canonical_asset_record H (rc_record c)"
    "\<exists>l. hash_registry_record_leaf H (rc_record c) = Inr l"
  using assms
  by (auto simp: validate_registry_transition_def res_simps Let_def checked_add_Some word_less_nat_alt
      dest!: sym [of "field_to_bytes _"])

lemma identities_length [simp]: "length (identities H i as) = length as"
  by (induction as arbitrary: i) simp_all

lemma append_loop_root:
  "append_loop H cp cid bridge off as old = Inr (r, ids) \<Longrightarrow> as \<noteq> [] \<Longrightarrow> length r = 32"
proof (induction as arbitrary: off old ids)
  case (Cons a as)
  then show ?case
    by (cases "as = []") (auto simp: res_simps validate_registry_append_Inr)
qed simp

lemma batch_facts:
  assumes "validate_registry_batch H c cid bridge = Inr ids"
  shows "rb_schema_version c = 1" "length ids = length (rb_appends c)" "length ids \<le> 256" "length (rb_root c) = 32"
    "asset_record_batch_root H ids = Inr (perfect_root (batch_node H) 8
      (fill (replicate 256 (replicate 32 0)) (unat (rb_old_count c)) (map (identity_leaf H) (rb_appends c))))"
proof -
  have v: "rb_appends c \<noteq> []" "unat (rb_old_count c) + length (rb_appends c) \<le> 256"
    and loop: "append_loop H c cid bridge 0 (rb_appends c) (rb_old_root c) = Inr (rb_root c, ids)"
    using assms by (auto simp: validate_registry_batch_Inr)
  show "rb_schema_version c = 1" using assms by (simp add: validate_registry_batch_Inr)
  have ids: "ids = identities H (unat (rb_old_count c)) (rb_appends c)"
    using append_loop_identities [OF loop] v by simp
  then show "length ids = length (rb_appends c)" by simp
  then show "length ids \<le> 256" using v by simp
  show "length (rb_root c) = 32" using append_loop_root [OF loop v(1)] .
  show "asset_record_batch_root H ids = Inr (perfect_root (batch_node H) 8
      (fill (replicate 256 (replicate 32 0)) (unat (rb_old_count c)) (map (identity_leaf H) (rb_appends c))))"
    unfolding ids using v(2) by (rule asset_record_batch_root_identities)
qed

lemma length_perfect_root:
  assumes "\<And>l r. length (node l r) = 32"
  shows "0 < d \<Longrightarrow> length (perfect_root node d xs) = 32"
  by (cases d) (simp_all add: assms)

lemma wf_v2_output:
  assumes "wf_spv1 v" "length (ib_bridge_address b) = 20" "\<And>x. length (keccak256 H x) = 32"
  shows "wf_spv2 (v2_output H v b)"
  using assms by (simp add: wf_spv2_def v2_output_def Let_def length_perfect_root hash_node_def)

lemma derive_receipt_bytes_Inr:
  assumes wf: "wf_settlement_witness w" "length vk = 32" and keccak: "\<And>x. length (keccak256 H x) = 32"
  shows "derive_receipt_bytes H app_state w vk = Inr bs \<longleftrightarrow>
    (\<exists>v. publishes H app_state w vk v \<and> decode_public_values bs = Inr v)"
proof (cases "v1_accepts H app_state w")
  case True
  let ?v1 = "v1_output H app_state w vk" and ?cid = "sc_chain_id (sw_context w)"
  have d: "derive_receipt_for_app_state H app_state w vk = Inr ?v1"
    using True wf(1) by (simp add: derive_receipt_Inr)
  have wf1: "wf_spv1 ?v1" using wf_v1_output wf True by blast
  have v2: "derive_v2_receipt H ?v1 b = Inr o2 \<longleftrightarrow> v2_accepts H ?v1 b \<and> o2 = v2_output H ?v1 b" for b o2
    using wf1 by (rule derive_v2_receipt_Inr)
  have wf2: "wf_spv2 (v2_output H ?v1 b)" if "sw_inner_action_batch w = Some b" for b
    using that wf(1) by (intro wf_v2_output wf1 keccak) (simp add: wf_settlement_witness_def)
  have wf3: "wf_spv3 (v3_output H (v2_output H ?v1 b) c)"
    if "sw_inner_action_batch w = Some b" "v3_accepts H cid bridge c" for b c cid bridge
    using that wf2 transition_facts [of H c cid bridge]
    by (simp add: wf_spv3_def v3_output_def v3_accepts_def hash_canonical_asset_record_def keccak)
  have wf4: "wf_spv4 (v4_output H (v2_output H ?v1 b) c)"
    if "sw_inner_action_batch w = Some b" "validate_registry_batch H c cid bridge = Inr ids" for b c cid bridge ids
    using that wf2 batch_facts [of H c cid bridge ids]
    by (simp add: wf_spv4_def v4_output_def length_perfect_root batch_node_def keccak)
  show ?thesis
  proof (cases "sw_inner_action_batch w")
    case None
    then show ?thesis
      using True wf1
      by (auto simp: derive_receipt_bytes_def publishes_def d res_simps Let_def decode_public_values_iff
          split: option.splits)
  next
    case (Some b)
    note unfold = derive_receipt_bytes_def publishes_def Let_def res_simps d v2 decode_public_values_iff
    consider "sw_asset_registry_checkpoint w = None" "sw_asset_registry_batch w = None"
      | c where "sw_asset_registry_checkpoint w = Some c" "sw_asset_registry_batch w = None"
      | c where "sw_asset_registry_checkpoint w = None" "sw_asset_registry_batch w = Some c"
      | c c' where "sw_asset_registry_checkpoint w = Some c" "sw_asset_registry_batch w = Some c'"
      by fastforce
    then show ?thesis
    proof cases
      case 1
      then show ?thesis using True Some wf2 [OF Some] by (auto simp: unfold)
    next
      case (2 c)
      show ?thesis
        using True Some 2 wf3 [OF Some, of ?cid "ib_bridge_address b" c]
          transition_facts [of H c ?cid "ib_bridge_address b"]
        by (auto simp: unfold v3_accepts_def v3_output_def)
    next
      case (3 c)
      show ?thesis
      proof (cases "validate_registry_batch H c ?cid (ib_bridge_address b)")
        case (Inr ids)
        then show ?thesis
          using True Some 3 wf4 [OF Some, of c ?cid "ib_bridge_address b" ids] batch_facts [OF Inr]
          by (auto simp: unfold v4_output_def)
      qed (use True Some 3 in \<open>simp add: unfold\<close>)
    next
      case (4 c c')
      then show ?thesis using True Some by (simp add: unfold)
    qed
  qed
next
  case False
  then show ?thesis
    using wf(1) by (auto simp: derive_receipt_bytes_def publishes_def derive_receipt_Inr res_simps Let_def)
qed

subsection \<open>A concrete settlement\<close>

definition sample_binding :: "u8 \<Rightarrow> settlement_binding" where
  "sample_binding pause =
     \<lparr>sb_mina_signature_kind = Testnet,
      sb_account_update_body = \<lparr>ci_field_elements = map small_bytes
        [0, 0, 0, 0, 2, 3, 8, 0, 0, 21, 0, 0, 0, 0, 0, 14, 0, 0, 0, 0, 0, 0, 0, 0, 0, 0, 0, 0, 0,
         0, 1, 5, 7, 11, 13, 17, 33], ci_packed = []\<rparr>,
      sb_actions = [map small_bytes [0, 2, 3, 8, 4, 6, 10, 12]],
      sb_state_before = \<lparr>os_fields = map small_bytes [pause, 0, 1, 5, 7, 11, 13, 17]\<rparr>,
      sb_call_forest = []\<rparr>"

definition sample_witness :: "u8 \<Rightarrow> settlement_witness" where
  "sample_witness pause =
     \<lparr>sw_binding = sample_binding pause,
      sw_context = \<lparr>sc_chain_id = 5, sc_settlement_contract = replicate 20 0x11, sc_batch_sequence = 42,
        sc_mina_transaction_hash = replicate 32 0x44, sc_outer_action_state_length_before = 7\<rparr>,
      sw_inner_action_batch = Some sample_inner_batch,
      sw_asset_registry_checkpoint = None,
      sw_asset_registry_batch = None\<rparr>"

lemma ladder_odd: "odd (length xs) \<Longrightarrow> hash_with_prefix ladder_crypto p xs = 1"
proof -
  have "fst (foldl (\<lambda>s c. block_cipher ladder_crypto (absorb s c)) (a, 0, 1) (chunks2 xs)) = 1"
    if "odd (length xs)" for a
    using that by (induction xs arbitrary: a rule: chunks2.induct) (simp_all add: ladder_crypto_def)
  then show "odd (length xs) \<Longrightarrow> ?thesis"
    by (auto simp: hash_with_prefix_def poseidon_update_def) (simp add: ladder_crypto_def)
qed

lemma ladder_eight: "hash_with_prefix ladder_crypto p [a, b, c, d, e, f, g, h] = h + 1"
  by (simp add: hash_with_prefix_def poseidon_update_def ladder_crypto_def)

lemma sample_parts:
  "body_of (sample_witness k) = map fp_from_u8
     [0, 0, 0, 0, 2, 3, 8, 0, 0, 21, 0, 0, 0, 0, 0, 14, 0, 0, 0, 0, 0, 0, 0, 0, 0, 0, 0, 0, 0,
      0, 1, 5, 7, 11, 13, 17, 33]"
  "commit_of (sample_witness k) = map fp_from_u8 [0, 2, 3, 8, 4, 6, 10, 12]"
  "source_of (sample_witness k) = map fp_from_u8 [k, 0, 1, 5, 7, 11, 13, 17]"
  by (simp_all add: body_of_def commit_of_def source_of_def sample_witness_def sample_binding_def small_bytes_value)

lemma sample_body_input:
  "body_hash_input (sb_account_update_body (sample_binding k)) = Inr (body_of (sample_witness k))"
proof -
  have "list_all canonical (ci_field_elements (sb_account_update_body (sample_binding k)))"
    by (simp add: sample_binding_def)
  then have "try_map field_from_bytes (ci_field_elements (sb_account_update_body (sample_binding k))) =
      Inr (body_of (sample_witness k))"
    unfolding try_map_fields by (simp add: body_of_def sample_witness_def)
  moreover have "pack_fields (ci_packed (sb_account_update_body (sample_binding k))) = Inr []"
    by (simp add: sample_binding_def pack_fields_def)
  ultimately show ?thesis by (simp add: body_hash_input_def)
qed

lemma sample_wf: "wf_settlement_witness (sample_witness k)"
  by (simp add: wf_settlement_witness_def sample_witness_def sample_binding_def sample_inner_batch_def)

lemma sample_accepts: "v1_accepts ladder_crypto [1, 0] (sample_witness k)"
proof -
  let ?w = "sample_witness k"
  have hash: "hash_account_update_body ladder_crypto Testnet (sb_account_update_body (sample_binding k)) = Inr 1"
    unfolding hash_account_update_body_def sample_body_input by (simp add: ladder_odd sample_parts)
  have reg: "check_registry_statement ladder_crypto [1, 0] ?w = Inr ()"
    by (simp add: check_registry_statement_def sample_witness_def Let_def)
  have "single_action_hash ladder_crypto (commit_of ?w) = 14"
    by (simp add: single_action_hash_def hash_actions_def sample_parts ladder_eight ladder_node
        fp_from_u8_numerals fp_of_nat_numeral)
  moreover have "\<forall>i \<in> {1..<8}. source_of ?w ! i = body_of ?w ! (28 + i)"
    by (simp add: sample_parts atLeastLessThan_nat_numeral)
  moreover have "nat_of_fp (commit_of ?w ! 5) < 2 ^ 32" "nat_of_fp (commit_of ?w ! 6) < 2 ^ 32"
    "nat_of_fp (commit_of ?w ! 7) < 2 ^ 32"
    by (simp_all add: sample_parts)
  ultimately show ?thesis
    using hash reg
    by (simp add: v1_accepts_def sample_parts Let_def fp_from_u8_numerals fp_of_nat_numeral)
      (simp add: sample_witness_def sample_binding_def)
qed

subsection \<open>Properties\<close>

text \<open>
  C1: the settlement guest is exact, from the witness to the published bytes.  It publishes bytes
  for a settlement witness precisely when the Pickles proof verifies and the witness is accepted
  in the version it selects, and decoding these bytes gives the specified receipt: the V1 core
  derived from the proof's statement, extended by the inner-action range (V2), by one registered
  asset (V3) or by a batch of them (V4).  A registry checkpoint without an inner-action batch, and
  both kinds of checkpoint together, never publish anything.
\<close>

theorem settlement_main_exact:
  assumes "wf_settlement_witness w" "length vk = 32" and "\<And>x. length (keccak256 H x) = 32"
  shows "settlement_main H verify vk proof (Some w) = Inr bs \<longleftrightarrow>
    verify proof \<and> (\<exists>v. publishes H (vp_app_state proof) w vk v \<and> decode_public_values bs = Inr v)"
  using assms by (simp add: settlement_main_def Let_def ensure_Inr derive_receipt_bytes_Inr)

lemma sample_publishes:
  "publishes ladder_crypto [1, 0] (sample_witness k) (replicate 32 0x22)
     (V2 (v2_output ladder_crypto (v1_output ladder_crypto [1, 0] (sample_witness k) (replicate 32 0x22))
       sample_inner_batch))"
proof -
  let ?v1 = "v1_output ladder_crypto [1, 0] (sample_witness k) (replicate 32 0x22)"
  have fb: "field_to_bytes (fp_from_u8 n) = small_bytes n" for n
    using small_bytes_canonical [of n] unfolding canonical_def small_bytes_value by simp
  have "inner_action_state (pv_state_before ?v1) = small_bytes 5"
    "inner_action_state (pv_state_after ?v1) = small_bytes 3"
    "inner_action_state_length (pv_state_before ?v1) = small_bytes 7"
    "inner_action_state_length (pv_state_after ?v1) = small_bytes 8"
    by (simp_all add: v1_output_def Let_def inner_action_state_def inner_action_state_length_def
        target_of_def sample_parts fb) (simp_all add: sample_witness_def sample_binding_def)
  then have "v2_accepts ladder_crypto ?v1 sample_inner_batch"
    using sample_v2_accepts(2)
    by (simp add: v2_accepts_def sample_v1_def inner_action_state_def inner_action_state_length_def)
  then show ?thesis
    using sample_accepts [of k] by (simp add: publishes_def sample_witness_def)
qed

theorem settlement_main_exact_witness:
  "\<exists>bs v. settlement_main ladder_crypto (\<lambda>_. True) (replicate 32 0x22)
       \<lparr>vp_app_state = [1, 0], vp_proof = ()\<rparr> (Some (sample_witness 9)) = Inr bs \<and>
     decode_public_values bs = Inr (V2 v) \<and> pv2_inner_action_count v = 1"
proof -
  let ?v = "v2_output ladder_crypto (v1_output ladder_crypto [1, 0] (sample_witness 9) (replicate 32 0x22)) sample_inner_batch"
  have "wf_spv2 ?v"
    by (intro wf_v2_output wf_v1_output sample_wf sample_accepts) (simp_all add: sample_inner_batch_def)
  then obtain bs where "decode_public_values bs = Inr (V2 ?v)"
    using receipt.round_trip [of "V2 ?v"] by auto
  then have "settlement_main ladder_crypto (\<lambda>_. True) (replicate 32 0x22)
      \<lparr>vp_app_state = [1, 0], vp_proof = ()\<rparr> (Some (sample_witness 9)) = Inr bs"
    using sample_publishes [of 9] by (intro settlement_main_exact [THEN iffD2] sample_wf) auto
  moreover have "pv2_inner_action_count ?v = 1" by (simp add: v2_output_def sample_inner_batch_def Let_def)
  ultimately show ?thesis using \<open>decode_public_values bs = Inr (V2 ?v)\<close> by blast
qed

text \<open>
  Without a valid Pickles proof nothing is published, whatever the witness: the guest stops with
  a panic before it reads the settlement.
\<close>

lemma no_proof_no_receipt:
  "\<not> verify proof \<Longrightarrow> settlement_main H verify vk proof w = Inl (Panic ''Pickles proof verification failed'')"
  by (simp add: settlement_main_def Let_def)

text \<open>
  C3: what every V1 receipt guarantees about the outer account.  The statement field is the hash of
  the account-update body; the pause key, the sequencer and the DA key do not change; the
  account is neither paused nor in emergency mode before or after; the ledger, the inner action
  state and the inner action length of the new state are those of the commit action; the outer
  action state advances by exactly this action and its length by one, without wrap-around.
\<close>

theorem v1_receipt_guarantees:
  assumes "wf_settlement_witness w" "length vk = 32"
    and "derive_receipt_for_app_state H app_state w vk = Inr v"
  shows "wf_spv1 v \<and>
    hash_account_update_body H (sb_mina_signature_kind (sw_binding w)) (sb_account_update_body (sw_binding w))
      = Inr (num (pv_app_statement v)) \<and>
    pause_key (pv_state_after v) = pause_key (pv_state_before v) \<and>
    sequencer (pv_state_after v) = sequencer (pv_state_before v) \<and>
    da_key (pv_state_after v) = da_key (pv_state_before v) \<and>
    status_flags (pv_state_before v) = replicate 32 0 \<and> status_flags (pv_state_after v) = replicate 32 0 \<and>
    map field_to_bytes (take 4 (commit_of w)) =
      [replicate 32 0, ledger_hash (pv_state_after v), inner_action_state (pv_state_after v),
       inner_action_state_length (pv_state_after v)] \<and>
    pv_outer_action_state_after v =
      field_to_bytes (push_actions H (num (pv_outer_action_state_before v)) (single_action_hash H (commit_of w))) \<and>
    unat (pv_outer_action_state_length_after v) = unat (pv_outer_action_state_length_before v) + 1"
proof -
  let ?b = "body_of w" and ?a = "commit_of w" and ?s = "source_of w"
  have acc: "v1_accepts H app_state w" and v: "v = v1_output H app_state w vk"
    using assms by (simp_all add: derive_receipt_Inr)
  have len: "length ?a = 8" using acc by (simp add: v1_accepts_def Let_def)
  have eqs: "?s ! 1 = 0" "?b ! 3 = 0" "?a ! 0 = 0" "?a ! 1 = ?b ! 4" "?a ! 2 = ?b ! 5" "?a ! 3 = ?b ! 6"
    "single_action_hash H ?a = ?b ! 15"
    using acc by (simp_all add: v1_accepts_def Let_def)
  have src: "os_fields (pv_state_before v) ! i = field_to_bytes (?s ! i)" if "i < 8" for i
    using that acc assms(1)
    by (simp add: v v1_output_def v1_accepts_def Let_def source_of_def wf_settlement_witness_def
        list_all_length canonical_def)
  have "unat (sc_outer_action_state_length_before (sw_context w)) + 1 < 2 ^ 32"
    using acc by (simp add: v1_accepts_def Let_def)
  then have "unat (pv_outer_action_state_length_after v) = unat (pv_outer_action_state_length_before v) + 1"
    by (simp add: v v1_output_def Let_def unat_word_ariths)
  moreover have "map field_to_bytes (take 4 ?a) =
      [replicate 32 0, ledger_hash (pv_state_after v), inner_action_state (pv_state_after v),
       inner_action_state_length (pv_state_after v)]"
    by (subst length_8 [OF len]) (simp add: eqs [simplified] v v1_output_def Let_def target_of_def field_to_bytes_words
        ledger_hash_def inner_action_state_def inner_action_state_length_def)
  moreover have "wf_spv1 v" unfolding v using assms(1) acc assms(2) by (rule wf_v1_output)
  moreover have "hash_account_update_body H (sb_mina_signature_kind (sw_binding w))
      (sb_account_update_body (sw_binding w)) = Inr (num (pv_app_statement v))"
    using acc by (simp add: v v1_output_def v1_accepts_def Let_def num_field)
  ultimately show ?thesis
    using src [of 0] src [of 1] src [of 5] src [of 6] eqs
    by (simp add: pause_key_def sequencer_def da_key_def status_flags_def field_to_bytes_words)
      (simp add: v v1_output_def Let_def target_of_def num_field field_to_bytes_words)
qed

theorem v1_receipt_guarantees_witness:
  "\<exists>v. derive_receipt_for_app_state ladder_crypto [1, 0] (sample_witness 9) (replicate 32 0x22) = Inr v \<and>
     unat (pv_outer_action_state_length_after v) = unat (pv_outer_action_state_length_before v) + 1"
proof -
  have "derive_receipt_for_app_state ladder_crypto [1, 0] (sample_witness 9) (replicate 32 0x22) =
      Inr (v1_output ladder_crypto [1, 0] (sample_witness 9) (replicate 32 0x22))"
    by (simp add: derive_receipt_Inr sample_wf sample_accepts)
  with v1_receipt_guarantees [OF sample_wf _ this] show ?thesis by auto
qed

definition receipt_inputs :: "crypto \<Rightarrow> settlement_witness \<Rightarrow> (string \<times> fp list) set" where
  "receipt_inputs H w =
     {(body_prefix (sb_mina_signature_kind (sw_binding w)),
       projr (body_hash_input (sb_account_update_body (sw_binding w)))),
      (''MinaZkappSeqEvents**'', [empty_hash_with_prefix H ''MinaZkappActionsEmpty'',
        hash_with_prefix H ''MinaZkappEvent******'' (commit_of w)]),
      (''MinaZkappEvent******'', commit_of w)}"

definition with_pause_key :: "bytes \<Rightarrow> spv1 \<Rightarrow> spv1" where
  "with_pause_key k v = v
     \<lparr>pv_state_before := \<lparr>os_fields = (os_fields (pv_state_before v))[0 := k]\<rparr>,
      pv_state_after := \<lparr>os_fields = (os_fields (pv_state_after v))[0 := k]\<rparr>\<rparr>"

lemma body_hash_input_nth:
  assumes "body_hash_input (sb_account_update_body (sw_binding w)) = Inr hs" "i < length (body_of w)"
  shows "hs ! i = body_of w ! i"
  using assms by (auto simp: body_hash_input_def res_simps try_map_fields body_of_def nth_append)

lemma accepted_bodies_agree:
  assumes "v1_accepts H app w" "v1_accepts H app w'"
    and inj: "inj_on (\<lambda>(p, xs). hash_with_prefix H p xs) (receipt_inputs H w \<union> receipt_inputs H w')"
  shows "(\<forall>i \<le> 36. body_of w ! i = body_of w' ! i) \<and> commit_of w = commit_of w'"
proof -
  let ?h = "\<lambda>(p, xs). hash_with_prefix H p xs"
  let ?in = "\<lambda>w. projr (body_hash_input (sb_account_update_body (sw_binding w)))"
  let ?p = "\<lambda>w. body_prefix (sb_mina_signature_kind (sw_binding w))"
  let ?e = "empty_hash_with_prefix H ''MinaZkappActionsEmpty''" and ?ev = "''MinaZkappEvent******''"
  have hs: "body_hash_input (sb_account_update_body (sw_binding x)) = Inr (?in x)"
    "?h (?p x, ?in x) = app ! 0" "36 < length (body_of x)"
    "?h (''MinaZkappSeqEvents**'', [?e, ?h (?ev, commit_of x)]) = body_of x ! 15" if "x \<in> {w, w'}" for x
    using that assms(1,2)
    by (auto simp: v1_accepts_def Let_def hash_account_update_body_def res_simps single_action_hash_def hash_actions_def)
  have "(?p w, ?in w) = (?p w', ?in w')"
    by (rule inj_onD [OF inj]) (use hs in \<open>auto simp: receipt_inputs_def\<close>)
  then have body: "body_of w ! i = body_of w' ! i" if "i \<le> 36" for i
    using that body_hash_input_nth [OF hs(1), of w i] body_hash_input_nth [OF hs(1), of w' i] hs(3) by force
  have "(''MinaZkappSeqEvents**'', [?e, ?h (?ev, commit_of w)]) = (''MinaZkappSeqEvents**'', [?e, ?h (?ev, commit_of w')])"
    by (rule inj_onD [OF inj]) (use hs(4) body [of 15] in \<open>auto simp: receipt_inputs_def\<close>)
  then have "?h (?ev, commit_of w) = ?h (?ev, commit_of w')" by simp
  then have "(?ev, commit_of w) = (?ev, commit_of w')"
    by (rule inj_onD [OF inj]) (auto simp: receipt_inputs_def)
  with body show ?thesis by simp
qed

text \<open>
  C4: the proof's statement determines the receipt.  Two witnesses that are accepted for the same
  statement field and the same Ethereum context publish the same V1 receipt, except for the pause
  key, which the statement does not bind and the receipt copies from the source state to the
  target state; unless Poseidon collides on the inputs of the two derivations.
\<close>

theorem statement_determines_receipt:
  assumes "wf_settlement_witness w" "wf_settlement_witness w'" "sw_context w = sw_context w'"
    and "derive_receipt_for_app_state H app w vk = Inr v" "derive_receipt_for_app_state H app w' vk = Inr v'"
    and "inj_on (\<lambda>(p, xs). hash_with_prefix H p xs) (receipt_inputs H w \<union> receipt_inputs H w')"
  shows "v' = with_pause_key (pause_key (pv_state_before v')) v"
proof -
  have acc: "v1_accepts H app w" "v1_accepts H app w'" and v: "v = v1_output H app w vk" "v' = v1_output H app w' vk"
    using assms(1,2,4,5) by (simp_all add: derive_receipt_Inr)
  note agree = accepted_bodies_agree [OF acc assms(6)]
  then have commit: "commit_of w' = commit_of w" by simp
  have body: "body_of w' ! i = body_of w ! i" if "i \<le> 36" for i
    using agree that by simp
  have source: "source_of x ! i = body_of x ! (28 + i)" if "i \<in> {1..<8}" "x \<in> {w, w'}" for i x
    using that acc by (auto simp: v1_accepts_def Let_def)
  have bytes: "os_fields (sb_state_before (sw_binding x)) = map field_to_bytes (source_of x)" if "x \<in> {w, w'}" for x
    using that acc by (auto simp: v1_accepts_def Let_def source_of_def list_all_iff canonical_def intro!: map_idI [symmetric])
  have len: "length (source_of w) = 8" "length (source_of w') = 8"
    using assms(1,2) by (simp_all add: source_of_def wf_settlement_witness_def)
  have tail: "source_of w' = (source_of w)[0 := source_of w' ! 0]"
  proof (rule nth_equalityI)
    fix i assume "i < length (source_of w')"
    then show "source_of w' ! i = (source_of w)[0 := source_of w' ! 0] ! i"
      using source [of i] body [of "28 + i"] len by (cases "i = 0") auto
  qed (simp add: len)
  then have pk: "pause_key (pv_state_before v') = field_to_bytes (source_of w' ! 0)"
    using len by (simp add: v v1_output_def Let_def pause_key_def bytes)
  have before: "os_fields (sb_state_before (sw_binding w')) =
      (os_fields (sb_state_before (sw_binding w)))[0 := field_to_bytes (source_of w' ! 0)]"
    using tail by (simp add: bytes map_update [symmetric])
  have "target_of w' = (target_of w)[0 := source_of w' ! 0]"
    using body source [of 5] source [of 6] by (simp add: target_of_def Let_def)
  then show ?thesis
    using body [of 36] body [of 15] before assms(3) commit pk
    by (simp add: v v1_output_def Let_def with_pause_key_def map_update)
qed

theorem statement_determines_receipt_witness:
  "v1_output ladder_crypto [1, 0] (sample_witness 10) (replicate 32 0x22) =
     with_pause_key (small_bytes 10) (v1_output ladder_crypto [1, 0] (sample_witness 9) (replicate 32 0x22))"
proof -
  let ?h = "\<lambda>(p, xs). hash_with_prefix ladder_crypto p xs"
  let ?v = "\<lambda>k. v1_output ladder_crypto [1, 0] (sample_witness k) (replicate 32 0x22)"
  have d: "derive_receipt_for_app_state ladder_crypto [1, 0] (sample_witness k) (replicate 32 0x22) = Inr (?v k)" for k
    by (simp add: derive_receipt_Inr sample_wf sample_accepts)
  have ctx: "sw_context (sample_witness 9) = sw_context (sample_witness 10)" by (simp add: sample_witness_def)
  define B where "B = (body_prefix Testnet, body_of (sample_witness 9))"
  define S where "S = (''MinaZkappSeqEvents**'', [empty_hash_with_prefix ladder_crypto ''MinaZkappActionsEmpty'',
    hash_with_prefix ladder_crypto ''MinaZkappEvent******'' (commit_of (sample_witness 9))])"
  define E where "E = (''MinaZkappEvent******'', commit_of (sample_witness 9))"
  have same: "body_of (sample_witness 10) = body_of (sample_witness 9)"
    "commit_of (sample_witness 10) = commit_of (sample_witness 9)"
    by (simp_all add: sample_parts)
  have kind: "sb_mina_signature_kind (sample_binding k) = Testnet"
    "sw_binding (sample_witness k) = sample_binding k" for k
    by (simp_all add: sample_witness_def sample_binding_def)
  have hs: "projr (body_hash_input (sb_account_update_body (sample_binding k))) = body_of (sample_witness k)" for k
    by (simp only: sample_body_input sum.sel)
  have inputs: "receipt_inputs ladder_crypto (sample_witness 9) = {B, S, E}"
    "receipt_inputs ladder_crypto (sample_witness 10) = {B, S, E}"
    unfolding receipt_inputs_def kind hs same B_def S_def E_def by (rule refl)+
  have vals: "?h B = fp_of_nat 1" "?h S = fp_of_nat 14" "?h E = fp_of_nat 13"
    by (simp_all add: B_def S_def E_def sample_parts ladder_odd ladder_eight ladder_node fp_from_u8_numerals
        fp_of_nat_numeral) (simp add: fp_eq_iff fp_modulus_def)
  have "fp_of_nat 1 \<noteq> fp_of_nat 14" "fp_of_nat 1 \<noteq> fp_of_nat 13" "fp_of_nat 14 \<noteq> fp_of_nat 13"
    by (simp_all add: fp_eq_iff fp_modulus_def)
  then have "inj_on ?h {B, S, E}" unfolding inj_on_def using vals by auto
  then have "inj_on ?h (receipt_inputs ladder_crypto (sample_witness 9) \<union> receipt_inputs ladder_crypto (sample_witness 10))"
    by (simp only: inputs Un_absorb)
  from statement_determines_receipt [OF sample_wf sample_wf ctx d d this]
  have "?v 10 = with_pause_key (pause_key (pv_state_before (?v 10))) (?v 9)" .
  moreover have "pause_key (pv_state_before (?v 10)) = small_bytes 10"
    by (simp add: v1_output_def Let_def pause_key_def sample_witness_def sample_binding_def)
  ultimately show ?thesis by simp
qed

end
