(* ===== verification/Chain_Recovery.thy ===== *)
theory Chain_Recovery
  imports Explorer_Events Virtual_Accounts Settlement_Receipt
begin

text \<open>
  The rest of a pass of \<open>api/src/indexer.rs\<close>: \<open>recover_gateway_state\<close> gives every finalized event of the contracts a
  confirmed job and applies its receipt, also when the database knows nothing of it, \<open>reconcile_jobs\<close> follows the receipts of
  submitted transactions, and \<open>tick\<close> runs the whole pass and then opens the gateway for new work.

  Each statement is committed on its own, so the database is part of every result, as in \<open>Block_Index\<close>.
\<close>

subsection \<open>Events\<close>

record transaction_receipt =
  rc_block_number :: u64
  rc_block_hash :: bytes
  rc_gas_used :: u64
  rc_succeeded :: bool

text \<open>
  The client of the Ethereum node, each answer by the number of the request, the new job ids, and the texts of a hash
  (\<open>B256::to_string\<close> and \<open>parse\<close>), of bytes (\<open>hex::encode\<close>) and of the error for an input that is no bridge batch.
\<close>

record chain_client =
  cc_head :: "nat \<Rightarrow> failure + u64"
  cc_finalized_block :: "nat \<Rightarrow> failure + block_ref"
  cc_public_values :: "nat \<Rightarrow> proof_kind \<Rightarrow> bytes \<Rightarrow> failure + bytes"
  cc_receipt :: "nat \<Rightarrow> bytes \<Rightarrow> failure + transaction_receipt option"
  cc_new_id :: "nat \<Rightarrow> uuid"
  cc_show_hash :: "bytes \<Rightarrow> string"
  cc_parse_hash :: "string \<Rightarrow> bytes option"
  cc_hex :: "bytes \<Rightarrow> string"
  cc_not_a_batch :: string

record accepted_event =
  ae_kind :: proof_kind
  ae_block_number :: u64
  ae_block_hash :: bytes
  ae_transaction_hash :: bytes
  ae_log_index :: u64

definition final_with_hash :: "block_table \<Rightarrow> int \<Rightarrow> bytes \<Rightarrow> bool" where
  "final_with_hash t n h \<longleftrightarrow>
     (case map_of t n of None \<Rightarrow> False | Some b \<Rightarrow> bw_hash b = h \<and> bw_canonical b \<and> bw_finalized b)"

definition transition_event :: "bridge_transition_log \<Rightarrow> accepted_event" where
  "transition_event l = \<lparr>ae_kind = Bridge, ae_block_number = tl_block_number l, ae_block_hash = tl_block_hash l,
     ae_transaction_hash = tl_transaction_hash l, ae_log_index = tl_log_index l\<rparr>"

definition settlement_event :: "settlement_accepted_log \<Rightarrow> accepted_event" where
  "settlement_event l = \<lparr>ae_kind = Settlement, ae_block_number = sl_block_number l, ae_block_hash = sl_block_hash l,
     ae_transaction_hash = sl_transaction_hash l, ae_log_index = sl_log_index l\<rparr>"

definition accepted_events :: "chain_db \<Rightarrow> accepted_event list" where
  "accepted_events db =
     sort_key (\<lambda>e. ae_block_number e) (sort_key (\<lambda>e. ae_log_index e)
       (filter (\<lambda>e. final_with_hash (cd_blocks db) (uint (ae_block_number e)) (ae_block_hash e))
         (map (\<lambda>r. transition_event (tr_log r)) (filter (\<lambda>r. \<not> tr_removed r) (cd_transitions db)) @
          map (\<lambda>r. settlement_event (se_log r)) (filter (\<lambda>r. \<not> se_removed r) (cd_settlements db)))))"

subsection \<open>Recovery of one event\<close>

definition same_hash :: "string option \<Rightarrow> string \<Rightarrow> bool" where
  "same_hash m h \<longleftrightarrow> (case m of None \<Rightarrow> False | Some s \<Rightarrow> to_ascii_lowercase s = to_ascii_lowercase h)"

definition already_applied :: "string \<Rightarrow> chain_db \<Rightarrow> bool" where
  "already_applied tx db \<longleftrightarrow>
     list_ex (\<lambda>h. case map_of (gw_jobs (cd_gateway db)) (hs_job_id h) of None \<Rightarrow> False
       | Some j \<Rightarrow> same_hash (jb_transaction_hash j) tx \<and> jb_status j = Confirmed) (cd_history db)"

text \<open>The oldest job with the transaction; the table is in order of creation.\<close>

definition job_of_transaction :: "string \<Rightarrow> job_table \<Rightarrow> (uuid \<times> job) option" where
  "job_of_transaction tx t =
     List.find (\<lambda>(i, j). same_hash (jb_transaction_hash j) tx \<or>
       same_hash (map_option ps_transaction_hash (jb_prepared_transaction j)) tx) t"

text \<open>An input with the flag \<open>recoveredFromEthereum\<close> and no other member but the Mina command.\<close>

definition recovered_input :: "chain_client \<Rightarrow> settlement_input option \<Rightarrow> string option option \<Rightarrow> job_input" where
  "recovered_input X submission target_ledger =
     \<lparr>ji_reservation = None, ji_state_before_fields = None, ji_action_state_precondition = None,
      ji_target_ledger = target_ledger, ji_bridge_action_state = None, ji_mina_transaction_hash = None,
      ji_bridge_context = Inl (cc_not_a_batch X), ji_recovered = True, ji_submission = submission\<rparr>"

definition recovered_action :: "spv1 \<Rightarrow> bytes list" where
  "recovered_action receipt =
     (let state_after = os_fields (pv_state_after receipt) in
      [replicate 32 0, state_after ! 2, state_after ! 3, state_after ! 4, pv_synchronized_outer_action_state receipt,
       u32_word (pv_synchronized_outer_action_state_length receipt), u32_word (pv_slot_lower receipt),
       u32_word (pv_slot_upper receipt)])"

definition recovered_settlement_input ::
  "chain_client \<Rightarrow> (wire_error \<Rightarrow> string) \<Rightarrow> index_config \<Rightarrow> bytes \<Rightarrow> chain_db \<Rightarrow> failure + job_input" where
  "recovered_settlement_input X describe cfg public_values db =
     and_then (decode_error describe (decode_public_values public_values)) (\<lambda>decoded.
     and_then (expect (cd_outer_public_key db)
       (plain_failure ''VIRTUAL_MINA_OUTER_PUBLIC_KEY is required for gateway recovery'')) (\<lambda>outer.
     and_then (expect (ic_fee_payer_public_key cfg)
       (plain_failure ''VIRTUAL_MINA_FEE_PAYER_PUBLIC_KEY is required for gateway recovery'')) (\<lambda>fee_payer.
     and_then (expect (map_of (cd_accounts db) fee_payer)
       (plain_failure ''no rows returned by a query that expected to return at least one row'')) (\<lambda>row.
     and_then (expect (parse_u64 (case aj_nonce (ar_account row) of Some s \<Rightarrow> s | None \<Rightarrow> ''0''))
       (plain_failure ''virtual Mina fee-payer nonce is invalid'')) (\<lambda>nonce.
     let action = map (\<lambda>f. Some (''0x'' @ cc_hex X f)) (recovered_action (settlement decoded)) in
     Inr (recovered_input X
       (Some \<lparr>si_outer_account = Some outer, si_fee_payer = Some fee_payer, si_nonce = Some nonce,
          si_actions = Some (Some [Some action]), si_inner_batch = None\<rparr>)
       (Some (action ! 1))))))))"

definition recovered_job ::
  "proof_kind \<Rightarrow> job_input \<Rightarrow> bytes \<Rightarrow> int \<Rightarrow> bytes \<Rightarrow> string \<Rightarrow> job" where
  "recovered_job kind input public_values n block_hash tx =
     (new_job kind input (Some (''recovered:'' @ kind_as_str kind @ '':'' @ to_ascii_lowercase tx)) [])
       \<lparr>jb_status := Confirmed, jb_public_values := Some public_values, jb_transaction_hash := Some tx,
        jb_submitted_block_number := Some n, jb_submitted_block_hash := Some block_hash\<rparr>"

text \<open>The primary key and the unique index on the idempotency key.\<close>

definition insert_recovered :: "uuid \<Rightarrow> job \<Rightarrow> chain_db \<Rightarrow> failure + chain_db" where
  "insert_recovered i j db =
     (let t = gw_jobs (cd_gateway db) in
      ensure (map_of t i = None \<and> \<not> list_ex (\<lambda>(_, k). jb_idempotency_key k = jb_idempotency_key j) t)
        (plain_failure ''duplicate key value violates unique constraint'')
        (Inr (db\<lparr>cd_gateway := (cd_gateway db)\<lparr>gw_jobs := t @ [(i, j)]\<rparr>\<rparr>)))"

definition update_job :: "uuid \<Rightarrow> (job \<Rightarrow> job) \<Rightarrow> chain_db \<Rightarrow> chain_db" where
  "update_job i f db =
     db\<lparr>cd_gateway := (cd_gateway db)\<lparr>gw_jobs := fst (update_where (\<lambda>k _. k = i) f (gw_jobs (cd_gateway db)))\<rparr>\<rparr>"

definition apply_confirmed ::
  "crypto \<Rightarrow> text_codec \<Rightarrow> (wire_error \<Rightarrow> string) \<Rightarrow> proof_kind \<Rightarrow> uuid \<Rightarrow> job_input \<Rightarrow> bytes \<Rightarrow> u64 \<Rightarrow> bytes \<Rightarrow> bytes \<Rightarrow>
   chain_db \<Rightarrow> failure + chain_db" where
  "apply_confirmed H T describe kind i input public_values block_number block_hash tx db =
     (case kind of
        Bridge \<Rightarrow> apply_confirmed_bridge T describe i public_values block_number block_hash tx db
      | Settlement \<Rightarrow>
          apply_confirmed_settlement H T describe i (ji_submission input) public_values block_number block_hash tx db)"

text \<open>The job of an event: the one that is known, or a new one.\<close>

definition event_input ::
  "chain_client \<Rightarrow> (wire_error \<Rightarrow> string) \<Rightarrow> index_config \<Rightarrow> accepted_event \<Rightarrow> bytes \<Rightarrow> job_input option \<Rightarrow> chain_db \<Rightarrow>
   failure + job_input" where
  "event_input X describe cfg e public_values original db =
     (if ae_kind e = Settlement \<and> (case original of None \<Rightarrow> True | Some input \<Rightarrow> ji_submission input = None)
      then recovered_settlement_input X describe cfg public_values db
      else Inr (case original of None \<Rightarrow> recovered_input X None None | Some input \<Rightarrow> input))"

definition event_job ::
  "chain_client \<Rightarrow> (wire_error \<Rightarrow> string) \<Rightarrow> index_config \<Rightarrow> accepted_event \<Rightarrow> bytes \<Rightarrow> uuid \<Rightarrow> chain_db \<Rightarrow>
   failure + (uuid \<times> job_input) \<times> chain_db" where
  "event_job X describe cfg e public_values fresh db =
     (let tx = cc_show_hash X (ae_transaction_hash e) in
      case job_of_transaction tx (gw_jobs (cd_gateway db)) of
        Some (i, j) \<Rightarrow>
          and_then (event_input X describe cfg e public_values (Some (jb_input j)) db) (\<lambda>input. Inr ((i, input), db))
      | None \<Rightarrow>
          and_then (event_input X describe cfg e public_values None db) (\<lambda>input.
          and_then (bigint (ae_block_number e)) (\<lambda>n.
          and_then (insert_recovered fresh (recovered_job (ae_kind e) input public_values n (ae_block_hash e) tx) db) (\<lambda>db.
          Inr ((fresh, input), db)))))"

definition confirm_recovered :: "bytes \<Rightarrow> int \<Rightarrow> bytes \<Rightarrow> string \<Rightarrow> job \<Rightarrow> job" where
  "confirm_recovered public_values n block_hash tx j =
     j\<lparr>jb_status := Confirmed, jb_public_values := Some public_values, jb_submitted_block_number := Some n,
       jb_submitted_block_hash := Some block_hash, jb_transaction_hash := Some tx\<rparr>"

definition recover_event ::
  "crypto \<Rightarrow> text_codec \<Rightarrow> chain_client \<Rightarrow> (wire_error \<Rightarrow> string) \<Rightarrow> index_config \<Rightarrow> accepted_event \<Rightarrow> chain_db \<Rightarrow> nat \<Rightarrow> unit outcome" where
  "recover_event H T X describe cfg e db k =
     (let tx = cc_show_hash X (ae_transaction_hash e) in
      if already_applied tx db then (Inr (), db, k)
      else case cc_public_values X k (ae_kind e) (ae_transaction_hash e) of
          Inl err \<Rightarrow> (Inl err, db, Suc k)
        | Inr public_values \<Rightarrow> (case event_job X describe cfg e public_values (cc_new_id X k) db of
            Inl err \<Rightarrow> (Inl err, db, Suc k)
          | Inr ((i, input), db) \<Rightarrow>
              (case apply_confirmed H T describe (ae_kind e) i input public_values (ae_block_number e) (ae_block_hash e)
                  (ae_transaction_hash e) db of
                 Inl err \<Rightarrow> (Inl err, db, Suc k)
               | Inr db \<Rightarrow> (case bigint (ae_block_number e) of
                     Inl err \<Rightarrow> (Inl err, db, Suc k)
                   | Inr n \<Rightarrow> (Inr (), update_job i (confirm_recovered public_values n (ae_block_hash e) tx) db, Suc k)))))"

fun recover_events ::
  "crypto \<Rightarrow> text_codec \<Rightarrow> chain_client \<Rightarrow> (wire_error \<Rightarrow> string) \<Rightarrow> index_config \<Rightarrow> accepted_event list \<Rightarrow> chain_db \<Rightarrow> nat \<Rightarrow>
   unit outcome" where
  "recover_events H T X describe cfg [] db k = (Inr (), db, k)"
| "recover_events H T X describe cfg (e # es) db k =
     continue (recover_event H T X describe cfg e db k) (recover_events H T X describe cfg es)"

definition recover_gateway_state ::
  "crypto \<Rightarrow> text_codec \<Rightarrow> chain_client \<Rightarrow> (wire_error \<Rightarrow> string) \<Rightarrow> index_config \<Rightarrow> chain_db \<Rightarrow> nat \<Rightarrow> unit outcome" where
  "recover_gateway_state H T X describe cfg db k = recover_events H T X describe cfg (accepted_events db) db k"

subsection \<open>Reconciliation\<close>

text \<open>The jobs whose receipt is asked for, with the status and the flag \<open>state_applied\<close> of the query.\<close>

definition settled_job :: "u64 option \<Rightarrow> chain_db \<Rightarrow> uuid \<Rightarrow> job \<Rightarrow> bool" where
  "settled_job finalized db i j \<longleftrightarrow> jb_status j = Confirmed \<and>
     (case (jb_submitted_block_number j, jb_submitted_block_hash j, finalized) of
        (Some n, Some h, Some f) \<Rightarrow> final_with_hash (cd_blocks db) n h \<and> n \<le> uint f
      | _ \<Rightarrow> False) \<and>
     \<not> ((jb_kind j = Bridge \<or> ji_submission (jb_input j) \<noteq> None) \<and> \<not> applied i db)"

definition reconcile_rows :: "finality_mode \<Rightarrow> u64 option \<Rightarrow> chain_db \<Rightarrow> (uuid \<times> job \<times> bool) list" where
  "reconcile_rows mode finalized db =
     map (\<lambda>(i, j). (i, j, applied i db \<or> jb_kind j = Settlement \<and> ji_submission (jb_input j) = None))
       (filter (\<lambda>(i, j). reconcilable j \<and> (mode = Confirmations \<or> \<not> settled_job finalized db i j)) (gw_jobs (cd_gateway db)))"

definition reconcile_update :: "bool \<Rightarrow> transaction_receipt \<Rightarrow> int \<Rightarrow> job \<Rightarrow> job" where
  "reconcile_update confirmed r n j =
     j\<lparr>jb_status := (if confirmed then Confirmed else Submitted), jb_submitted_block_number := Some n,
       jb_submitted_block_hash := Some (rc_block_hash r)\<rparr>"

definition reconcile_receipt ::
  "crypto \<Rightarrow> text_codec \<Rightarrow> chain_client \<Rightarrow> (wire_error \<Rightarrow> string) \<Rightarrow> index_config \<Rightarrow> u64 \<Rightarrow> u64 option \<Rightarrow> uuid \<Rightarrow> job \<Rightarrow> bool \<Rightarrow>
   transaction_receipt \<Rightarrow> bytes \<Rightarrow> chain_db \<Rightarrow> (failure + unit) \<times> chain_db" where
  "reconcile_receipt H T X describe cfg head finalized i j state_applied r tx db =
     (case bigint (rc_block_number r) of
        Inl e \<Rightarrow> (Inl e, db)
      | Inr n \<Rightarrow>
          let confirmations = (if rc_block_number r \<le> head then head - rc_block_number r else 0) + 1;
              confirmed = transaction_is_finalized (ic_finality_mode cfg) (rc_block_number r) confirmations
                (ic_confirmations cfg) finalized
          in if canonical_hash n (cd_blocks db) \<noteq> Some (rc_block_hash r) then (Inr (), db)
             else if jb_status j = Reorged \<and> (\<not> confirmed \<or> rc_succeeded r) then (Inr (), db)
             else if \<not> rc_succeeded r \<and> confirmed
             then (case bigint (rc_gas_used r) of
                 Inl e \<Rightarrow> (Inl e, db)
               | Inr _ \<Rightarrow>
                   let db = update_job i (\<lambda>j. j\<lparr>jb_status := Ethereum_Reverted, jb_error := Some ''Ethereum transaction reverted''\<rparr>) db
                   in (Inr (), db\<lparr>cd_gateway := delete_pending i (cd_gateway db)\<rparr>))
             else (case (if confirmed \<and> (jb_status j \<noteq> Confirmed \<or> \<not> state_applied)
                     then and_then (expect (jb_public_values j) (plain_failure (kind_as_str (jb_kind j) @ '' public values missing'')))
                       (\<lambda>pv. apply_confirmed H T describe (jb_kind j) i (jb_input j) pv (rc_block_number r) (rc_block_hash r) tx db)
                     else Inr db) of
                 Inl e \<Rightarrow> (Inl e, db)
               | Inr db \<Rightarrow> (case bigint (rc_gas_used r) of
                     Inl e \<Rightarrow> (Inl e, db)
                   | Inr _ \<Rightarrow> (Inr (), update_job i (reconcile_update confirmed r n) db))))"

text \<open>\<open>Ethereum::transaction_receipt\<close> parses the text of the hash first.\<close>

definition reconcile_row ::
  "crypto \<Rightarrow> text_codec \<Rightarrow> chain_client \<Rightarrow> (wire_error \<Rightarrow> string) \<Rightarrow> index_config \<Rightarrow> u64 \<Rightarrow> u64 option \<Rightarrow>
   uuid \<times> job \<times> bool \<Rightarrow> chain_db \<Rightarrow> nat \<Rightarrow> unit outcome" where
  "reconcile_row H T X describe cfg head finalized = (\<lambda>(i, j, state_applied) db k.
     case jb_transaction_hash j of
       None \<Rightarrow> (Inr (), db, k)
     | Some text \<Rightarrow> (case cc_parse_hash X text of
         None \<Rightarrow> (Inl (plain_failure ''invalid Ethereum transaction hash''), db, k)
       | Some tx \<Rightarrow> (case cc_receipt X k tx of
           Inl e \<Rightarrow> (Inl e, db, Suc k)
         | Inr None \<Rightarrow> (Inr (), db, Suc k)
         | Inr (Some r) \<Rightarrow>
             (case reconcile_receipt H T X describe cfg head finalized i j state_applied r tx db of
                (res, db) \<Rightarrow> (res, db, Suc k)))))"

fun reconcile_loop ::
  "crypto \<Rightarrow> text_codec \<Rightarrow> chain_client \<Rightarrow> (wire_error \<Rightarrow> string) \<Rightarrow> index_config \<Rightarrow> u64 \<Rightarrow> u64 option \<Rightarrow>
   (uuid \<times> job \<times> bool) list \<Rightarrow> chain_db \<Rightarrow> nat \<Rightarrow> unit outcome" where
  "reconcile_loop H T X describe cfg head finalized [] db k = (Inr (), db, k)"
| "reconcile_loop H T X describe cfg head finalized (row # rows) db k =
     continue (reconcile_row H T X describe cfg head finalized row db k) (reconcile_loop H T X describe cfg head finalized rows)"

definition reconcile_jobs ::
  "crypto \<Rightarrow> text_codec \<Rightarrow> chain_client \<Rightarrow> (wire_error \<Rightarrow> string) \<Rightarrow> index_config \<Rightarrow> u64 \<Rightarrow> block_ref option \<Rightarrow> chain_db \<Rightarrow> nat \<Rightarrow>
   unit outcome" where
  "reconcile_jobs H T X describe cfg head finalized_block db k =
     (case optional_bigint (map_option br_number finalized_block) of
        Inl e \<Rightarrow> (Inl e, db, k)
      | Inr _ \<Rightarrow> reconcile_loop H T X describe cfg head (map_option br_number finalized_block)
          (reconcile_rows (ic_finality_mode cfg) (map_option br_number finalized_block) db) db k)"

subsection \<open>A pass\<close>

definition tick ::
  "crypto \<Rightarrow> text_codec \<Rightarrow> chain_client \<Rightarrow> node \<Rightarrow> log_node \<Rightarrow> (wire_error \<Rightarrow> string) \<Rightarrow> index_config \<Rightarrow> chain_db \<Rightarrow> nat \<Rightarrow>
   unit outcome option" where
  "tick H T X N L describe cfg db k =
     (case cc_head X k of
        Inl e \<Rightarrow> Some (Inl e, db, Suc k)
      | Inr head \<Rightarrow>
          (case (if ic_finality_mode cfg = Finalized then and_then (cc_finalized_block X (Suc k)) (\<lambda>b. Inr (Some b)) else Inr None) of
             Inl e \<Rightarrow> Some (Inl e, db, k + 2)
           | Inr finalized_block \<Rightarrow>
               (case index_blocks cfg N head finalized_block db (k + 2) of
                  None \<Rightarrow> None
                | Some r \<Rightarrow> Some (
                    continue r (\<lambda>db k.
                    continue (index_explorer_events_through cfg L head db k) (\<lambda>db k.
                    continue (recover_gateway_state H T X describe cfg db k) (\<lambda>db k.
                    continue (reconcile_jobs H T X describe cfg head finalized_block db k) (\<lambda>db k.
                    (Inr (), db\<lparr>cd_gateway := (cd_gateway db)\<lparr>gw_recovery_ready := True\<rparr>\<rparr>, k)))))))))"

subsection \<open>What an application keeps\<close>

definition same_chain :: "chain_db \<Rightarrow> chain_db \<Rightarrow> bool" where
  "same_chain db db' \<longleftrightarrow> cd_blocks db' = cd_blocks db \<and> cd_transitions db' = cd_transitions db \<and>
     cd_settlements db' = cd_settlements db \<and> cd_claims db' = cd_claims db \<and> cd_explorer_last db' = cd_explorer_last db \<and>
     set (cd_history db) \<subseteq> set (cd_history db')"

definition same_jobs :: "chain_db \<Rightarrow> chain_db \<Rightarrow> bool" where
  "same_jobs db db' \<longleftrightarrow> gw_jobs (cd_gateway db') = gw_jobs (cd_gateway db) \<and> gw_writer (cd_gateway db') = gw_writer (cd_gateway db)"

lemma same_chain_refl [simp]: "same_chain db db"
  by (simp add: same_chain_def)

lemma same_chain_trans: "same_chain a b \<Longrightarrow> same_chain b c \<Longrightarrow> same_chain a c"
  by (auto simp: same_chain_def)

lemma same_chain_applied: "same_chain db db' \<Longrightarrow> applied i db \<Longrightarrow> applied i db'"
  by (auto simp: same_chain_def applied_def list_ex_iff)

lemma same_chain_events: "same_chain db db' \<Longrightarrow> accepted_events db' = accepted_events db"
  by (simp add: same_chain_def accepted_events_def)

lemma snapshot_keeps:
  assumes "snapshot_account i key account n db = Inr db'"
  shows "same_chain db db'" "same_jobs db db'" "applied i db'"
  using assms by (auto simp: snapshot_account_def res_simps same_chain_def same_jobs_def applied_def list_ex_iff)

lemma store_keeps:
  assumes "store_account key account n h db = Inr db'"
  shows "same_chain db db'" "same_jobs db db'" "applied i db \<Longrightarrow> applied i db'"
  using assms by (auto simp: store_account_def res_simps same_chain_def same_jobs_def applied_def)

lemma outer_account_keeps:
  assumes "update_outer_account T i key receipt n h db = Inr db'"
  shows "same_chain db db'" "same_jobs db db'" "applied i db'"
proof -
  obtain a d b where d: "snapshot_account i key a n db = Inr d" "store_account key b n h d = Inr db'"
    using assms unfolding update_outer_account_def and_then_Inr by blast
  show "same_chain db db'" "same_jobs db db'" "applied i db'"
    using snapshot_keeps [OF d(1)] store_keeps [OF d(2)] same_chain_trans by (auto simp: same_jobs_def)
qed

lemma outer_actions_keeps:
  assumes "update_outer_account_actions T i key s ss n h db = Inr db'"
  shows "same_chain db db'" "same_jobs db db'" "applied i db'"
proof -
  obtain a d b where d: "snapshot_account i key a n db = Inr d" "store_account key b n h d = Inr db'"
    using assms unfolding update_outer_account_actions_def and_then_Inr ensure_Inr by blast
  show "same_chain db db'" "same_jobs db db'" "applied i db'"
    using snapshot_keeps [OF d(1)] store_keeps [OF d(2)] same_chain_trans by (auto simp: same_jobs_def)
qed

lemma fee_payer_keeps:
  assumes "update_fee_payer i key nonce n h db = Inr db'"
  shows "same_chain db db'" "same_jobs db db'"
proof -
  obtain a d b where d: "snapshot_account i key a n db = Inr d" "store_account key b n h d = Inr db'"
    using assms unfolding update_fee_payer_def advance_fee_payer_def and_then_Inr ensure_Inr by blast
  show "same_chain db db'" "same_jobs db db'"
    using snapshot_keeps [OF d(1)] store_keeps [OF d(2)] same_chain_trans by (auto simp: same_jobs_def)
qed

lemma bridge_keeps:
  assumes "apply_confirmed_bridge T describe i pv n h tx db = Inr db'"
  shows "same_chain db db' \<and> same_jobs db db' \<and> applied i db'"
proof -
  obtain v ds where step: "(if applied i (db\<lparr>cd_deposits := ds\<rparr>) then Inr (db\<lparr>cd_deposits := ds\<rparr>)
      else and_then (expect (cd_outer_public_key (db\<lparr>cd_deposits := ds\<rparr>))
         (plain_failure ''VIRTUAL_MINA_OUTER_PUBLIC_KEY is required before applying a bridge receipt'')) (\<lambda>key.
       and_then (update_outer_account_actions T i key (bpv_zeko_action_state_before v)
         (map ba_state_after (bpv_actions v)) n h (db\<lparr>cd_deposits := ds\<rparr>)) (\<lambda>db.
       and_then (publish_actions T key v n tx 0 (bpv_zeko_action_state_before v) (bpv_actions v) (cd_actions db)) (\<lambda>actions.
       Inr (db\<lparr>cd_actions := actions\<rparr>))))) = Inr db'"
    using assms unfolding apply_confirmed_bridge_def and_then_Inr Let_def by blast
  show ?thesis
  proof (cases "applied i (db\<lparr>cd_deposits := ds\<rparr>)")
    case True
    then show ?thesis using step by (auto simp: same_chain_def same_jobs_def applied_def)
  next
    case False
    then obtain key d as where d: "update_outer_account_actions T i key (bpv_zeko_action_state_before v)
         (map ba_state_after (bpv_actions v)) n h (db\<lparr>cd_deposits := ds\<rparr>) = Inr d" "db' = d\<lparr>cd_actions := as\<rparr>"
      using step by (auto simp: and_then_Inr)
    show ?thesis using outer_actions_keeps [OF d(1)] by (simp add: d(2) same_chain_def same_jobs_def applied_def)
  qed
qed

lemma submission_keeps:
  assumes "apply_submission H T i input decoded n h tx db = Inr db'"
  shows "same_chain db db' \<and> same_jobs db db' \<and> applied i db'"
proof -
  obtain outer fee_payer nonce d e where d:
    "update_outer_account T i outer (settlement decoded) n h (db\<lparr>cd_outer_public_key := Some outer\<rparr>) = Inr d"
    "update_fee_payer i fee_payer nonce n h d = Inr e" and e: "same_chain e db' \<and> same_jobs e db'"
  proof -
    assume *: "\<And>outer d fee_payer nonce e.
      update_outer_account T i outer (settlement decoded) n h (db\<lparr>cd_outer_public_key := Some outer\<rparr>) = Inr d \<Longrightarrow>
      update_fee_payer i fee_payer nonce n h d = Inr e \<Longrightarrow> same_chain e db' \<and> same_jobs e db' \<Longrightarrow> thesis"
    show thesis
      using assms unfolding apply_submission_def and_then_Inr Let_def
      by (elim exE conjE, intro *) (auto simp: and_then_Inr same_chain_def same_jobs_def delete_pending_def split: option.splits)
  qed
  have "same_chain db (db\<lparr>cd_outer_public_key := Some outer\<rparr>)" by (simp add: same_chain_def)
  from same_chain_trans [OF this outer_account_keeps(1) [OF d(1)]] have "same_chain db e"
    using fee_payer_keeps(1) [OF d(2)] by (rule same_chain_trans)
  moreover have "applied i e" by (rule same_chain_applied [OF fee_payer_keeps(1) [OF d(2)] outer_account_keeps(3) [OF d(1)]])
  moreover have "same_jobs db db'"
    using outer_account_keeps(2) [OF d(1)] fee_payer_keeps(2) [OF d(2)] e by (simp add: same_jobs_def)
  ultimately show ?thesis using e same_chain_trans [of db e db'] same_chain_applied [of e db' i] by simp
qed

lemma settlement_keeps:
  assumes "apply_confirmed_settlement H T describe i submission pv n h tx db = Inr db'"
  shows "same_chain db db' \<and> same_jobs db db' \<and> (submission \<noteq> None \<longrightarrow> applied i db')"
proof -
  obtain decoded ds where step: "(if applied i (db\<lparr>cd_deposits := ds\<rparr>) then Inr (db\<lparr>cd_deposits := ds\<rparr>)
      else case submission of None \<Rightarrow> Inr (db\<lparr>cd_deposits := ds\<rparr>)
        | Some input \<Rightarrow> apply_submission H T i input decoded n h tx (db\<lparr>cd_deposits := ds\<rparr>)) = Inr db'"
    using assms unfolding apply_confirmed_settlement_def and_then_Inr Let_def by blast
  have same: "same_chain db (db\<lparr>cd_deposits := ds\<rparr>)" "same_jobs db (db\<lparr>cd_deposits := ds\<rparr>)"
    by (simp_all add: same_chain_def same_jobs_def)
  show ?thesis
  proof (cases "applied i (db\<lparr>cd_deposits := ds\<rparr>) \<or> submission = None")
    case True
    then have "db' = db\<lparr>cd_deposits := ds\<rparr>" using step by (auto split: if_splits)
    then show ?thesis using same True by auto
  next
    case False
    then obtain input where "apply_submission H T i input decoded n h tx (db\<lparr>cd_deposits := ds\<rparr>) = Inr db'"
      using step by auto
    from submission_keeps [OF this] show ?thesis using same same_chain_trans by (auto simp: same_jobs_def)
  qed
qed

lemma apply_keeps:
  assumes "apply_confirmed H T describe kind i input pv n h tx db = Inr db'"
  shows "same_chain db db'" "same_jobs db db'" "kind = Bridge \<or> ji_submission input \<noteq> None \<Longrightarrow> applied i db'"
  using assms bridge_keeps settlement_keeps unfolding apply_confirmed_def by (cases kind; fastforce)+

subsection \<open>Recovered events\<close>

text \<open>
  The job table: ids are unique, and the hash of the submitted transaction is the hash of the signed one.
\<close>

definition hashes_agree :: "job_table \<Rightarrow> bool" where
  "hashes_agree t \<longleftrightarrow> distinct (map fst t) \<and>
     list_all (\<lambda>(i, j). case (jb_transaction_hash j, jb_prepared_transaction j) of
       (Some h, Some p) \<Rightarrow> to_ascii_lowercase (ps_transaction_hash p) = to_ascii_lowercase h | _ \<Rightarrow> True) t"

text \<open>A transaction whose job is confirmed and whose receipt has been applied to the accounts.\<close>

definition recovered :: "string \<Rightarrow> chain_db \<Rightarrow> bool" where
  "recovered tx db \<longleftrightarrow> (\<exists>i j. map_of (gw_jobs (cd_gateway db)) i = Some j \<and> jb_status j = Confirmed \<and>
     same_hash (jb_transaction_hash j) tx \<and> applied i db)"

lemma already_applied_recovered: "already_applied tx db \<longleftrightarrow> recovered tx db"
  by (auto simp: already_applied_def recovered_def applied_def list_ex_iff split: option.splits)

definition names_transaction :: "string \<Rightarrow> job \<Rightarrow> bool" where
  "names_transaction tx j \<longleftrightarrow> same_hash (jb_transaction_hash j) tx \<or>
     same_hash (map_option ps_transaction_hash (jb_prepared_transaction j)) tx"

lemma named_hash:
  assumes "hashes_agree t" "map_of t i = Some j" "names_transaction tx j"
  shows "jb_prepared_transaction j = Some p \<Longrightarrow> to_ascii_lowercase (ps_transaction_hash p) = to_ascii_lowercase tx"
    and "jb_transaction_hash j = Some h \<Longrightarrow> to_ascii_lowercase h = to_ascii_lowercase tx"
  using assms map_of_SomeD [OF assms(2)]
  by (auto simp: hashes_agree_def list_all_iff names_transaction_def same_hash_def split: option.splits)

lemma recovered_append:
  assumes "recovered tx db" "gw_jobs (cd_gateway db') = gw_jobs (cd_gateway db) @ new" "same_chain db db'"
  shows "recovered tx db'"
proof -
  obtain i j where i: "map_of (gw_jobs (cd_gateway db)) i = Some j" "jb_status j = Confirmed"
    "same_hash (jb_transaction_hash j) tx" "applied i db"
    using assms(1) by (auto simp: recovered_def)
  then have "map_of (gw_jobs (cd_gateway db')) i = Some j" by (simp add: assms(2) map_add_def split: option.splits)
  then show ?thesis using i same_chain_applied [OF assms(3)] by (auto simp: recovered_def)
qed

lemma event_input_submission:
  assumes "event_input X describe cfg e pv original db = Inr input"
  shows "ae_kind e = Bridge \<or> ji_submission input \<noteq> None"
proof (cases "ae_kind e = Settlement \<and> (case original of None \<Rightarrow> True | Some input \<Rightarrow> ji_submission input = None)")
  case True
  then have "recovered_settlement_input X describe cfg pv db = Inr input" using assms by (simp add: event_input_def)
  then show ?thesis by (auto simp: recovered_settlement_input_def recovered_input_def and_then_Inr Let_def)
next
  case False
  then show ?thesis using assms by (cases "ae_kind e") (auto simp: event_input_def split: option.splits)
qed

lemma event_job_ok:
  assumes "event_job X describe cfg e pv fresh db = Inr ((i, input), db')" "hashes_agree (gw_jobs (cd_gateway db))"
  defines "tx \<equiv> cc_show_hash X (ae_transaction_hash e)"
  obtains j where "same_chain db db'" "hashes_agree (gw_jobs (cd_gateway db'))" "map_of (gw_jobs (cd_gateway db')) i = Some j"
    "names_transaction tx j" "ae_kind e = Bridge \<or> ji_submission input \<noteq> None" "\<forall>tx'. recovered tx' db \<longrightarrow> recovered tx' db'"
proof (cases "job_of_transaction tx (gw_jobs (cd_gateway db))")
  case None
  then obtain n where n: "event_input X describe cfg e pv None db = Inr input" "i = fresh"
    "insert_recovered fresh (recovered_job (ae_kind e) input pv n (ae_block_hash e) tx) db = Inr db'"
    using assms(1) by (auto simp: event_job_def and_then_Inr Let_def tx_def)
  let ?t = "gw_jobs (cd_gateway db)" and ?j = "recovered_job (ae_kind e) input pv n (ae_block_hash e) tx"
  have t: "gw_jobs (cd_gateway db') = ?t @ [(fresh, ?j)]" "map_of ?t fresh = None" "same_chain db db'"
    using n(3) by (auto simp: insert_recovered_def ensure_Inr Let_def same_chain_def)
  have "hashes_agree (gw_jobs (cd_gateway db'))"
    using assms(2) t(2) by (auto simp: t(1) hashes_agree_def recovered_job_def new_job_def map_of_eq_None_iff)
  moreover have "map_of (gw_jobs (cd_gateway db')) i = Some ?j" using t(2) by (simp add: t(1) n(2) map_add_def)
  moreover have "names_transaction tx ?j" by (simp add: names_transaction_def recovered_job_def same_hash_def)
  ultimately show thesis
    using that t(3) event_input_submission [OF n(1)] recovered_append [OF _ t(1,3)] by blast
next
  case (Some r)
  obtain k j where r: "r = (k, j)" by (cases r)
  have s: "event_input X describe cfg e pv (Some (jb_input j)) db = Inr input" "i = k" "db' = db"
    using assms(1) Some by (auto simp: event_job_def and_then_Inr Let_def tx_def r)
  have "(k, j) \<in> set (gw_jobs (cd_gateway db))" "names_transaction tx j"
    using Some by (auto simp: job_of_transaction_def find_Some_iff r names_transaction_def in_set_conv_nth)
  moreover from this have "map_of (gw_jobs (cd_gateway db)) i = Some j" using assms(2) by (simp add: s(2) hashes_agree_def)
  ultimately show thesis using that [of j] assms(2) s event_input_submission [OF s(1)] by simp
qed

lemma confirm_ok:
  fixes pv :: bytes and n :: int and h :: bytes
  assumes "hashes_agree (gw_jobs (cd_gateway db))" "map_of (gw_jobs (cd_gateway db)) i = Some j" "names_transaction tx j"
    and "applied i db"
  defines "db' \<equiv> update_job i (confirm_recovered pv n h tx) db"
  shows "same_chain db db'" "hashes_agree (gw_jobs (cd_gateway db'))" "recovered tx db'" "recovered tx' db \<Longrightarrow> recovered tx' db'"
proof -
  let ?t = "gw_jobs (cd_gateway db)" and ?f = "confirm_recovered pv n h tx"
  have t: "gw_jobs (cd_gateway db') = fst (update_where (\<lambda>k _. k = i) ?f ?t)" by (simp add: db'_def update_job_def)
  show c: "same_chain db db'" by (simp add: db'_def update_job_def same_chain_def)
  have i: "map_of (gw_jobs (cd_gateway db')) i = Some (?f j)" using assms(2) by (simp add: t update_where_map_of)
  have a: "applied k db' = applied k db" for k by (simp add: db'_def update_job_def applied_def)
  show r: "recovered tx db'"
    using i assms(4) unfolding recovered_def by (intro exI [of _ i] exI [of _ "?f j"]) (simp add: a confirm_recovered_def same_hash_def)
  have p: "to_ascii_lowercase (ps_transaction_hash p) = to_ascii_lowercase tx" if "jb_prepared_transaction j = Some p" for p
    using named_hash(1) [OF assms(1-3) that] .
  show "hashes_agree (gw_jobs (cd_gateway db'))"
    unfolding hashes_agree_def list_all_iff
  proof (intro conjI ballI)
    show "distinct (map fst (gw_jobs (cd_gateway db')))" using assms(1) by (simp add: t hashes_agree_def)
    fix row assume row: "row \<in> set (gw_jobs (cd_gateway db'))"
    obtain k v where kv: "row = (k, v)" by (rule prod.exhaust)
    obtain u where u: "(k, u) \<in> set ?t" "row = (k, if k = i then ?f u else u)"
      using row by (auto simp: t update_where_in kv)
    have "u = j" if "k = i" using u(1) that assms(1,2) by (auto simp: hashes_agree_def)
    then show "case row of (i, j) \<Rightarrow> (case (jb_transaction_hash j, jb_prepared_transaction j) of
        (Some h, Some p) \<Rightarrow> to_ascii_lowercase (ps_transaction_hash p) = to_ascii_lowercase h | _ \<Rightarrow> True)"
      using p assms(1) u by (auto simp: confirm_recovered_def hashes_agree_def list_all_iff split: option.splits)
  qed
  show "recovered tx' db'" if "recovered tx' db"
  proof -
    obtain k u where u: "map_of ?t k = Some u" "jb_status u = Confirmed" "same_hash (jb_transaction_hash u) tx'" "applied k db"
      using \<open>recovered tx' db\<close> by (auto simp: recovered_def)
    show ?thesis
    proof (cases "k = i")
      case True
      then obtain h' where "jb_transaction_hash j = Some h'" "to_ascii_lowercase h' = to_ascii_lowercase tx'"
        using u(1,3) assms(2) by (auto simp: same_hash_def split: option.splits)
      then have "to_ascii_lowercase tx = to_ascii_lowercase tx'" using named_hash(2) [OF assms(1-3)] by simp
      then show ?thesis using r by (auto simp: recovered_def same_hash_def split: option.splits)
    next
      case False
      then show ?thesis using u by (auto simp: recovered_def a t update_where_map_of intro!: exI [of _ k])
    qed
  qed
qed

lemma recover_event_ok:
  assumes "recover_event H T X describe cfg e db k = (Inr u, db', k')" "hashes_agree (gw_jobs (cd_gateway db))"
  shows "same_chain db db'" "hashes_agree (gw_jobs (cd_gateway db'))" "recovered (cc_show_hash X (ae_transaction_hash e)) db'"
    "recovered tx' db \<Longrightarrow> recovered tx' db'"
proof -
  let ?tx = "cc_show_hash X (ae_transaction_hash e)"
  have "same_chain db db' \<and> hashes_agree (gw_jobs (cd_gateway db')) \<and> recovered ?tx db' \<and> (recovered tx' db \<longrightarrow> recovered tx' db')"
  proof (cases "recovered ?tx db")
    case True
    then show ?thesis using assms by (simp add: recover_event_def already_applied_recovered)
  next
    case False
    then obtain pv i input d1 d2 n where run: "event_job X describe cfg e pv (cc_new_id X k) db = Inr ((i, input), d1)"
      "apply_confirmed H T describe (ae_kind e) i input pv (ae_block_number e) (ae_block_hash e) (ae_transaction_hash e) d1 = Inr d2"
      "db' = update_job i (confirm_recovered pv n (ae_block_hash e) ?tx) d2"
      using assms(1) by (auto simp: recover_event_def already_applied_recovered Let_def split: sum.splits prod.splits)
    obtain j where d1: "same_chain db d1" "hashes_agree (gw_jobs (cd_gateway d1))" "map_of (gw_jobs (cd_gateway d1)) i = Some j"
      "names_transaction ?tx j" "ae_kind e = Bridge \<or> ji_submission input \<noteq> None" "\<forall>tx'. recovered tx' db \<longrightarrow> recovered tx' d1"
      by (rule event_job_ok [OF run(1) assms(2)])
    note keeps = apply_keeps [OF run(2)]
    have jobs: "gw_jobs (cd_gateway d2) = gw_jobs (cd_gateway d1)" using keeps(2) by (simp add: same_jobs_def)
    note ok = confirm_ok [of d2 i j ?tx, unfolded jobs, OF d1(2-4) keeps(3) [OF d1(5)], folded run(3)]
    have "recovered tx' d2" if "recovered tx' d1"
      using that jobs same_chain_applied [OF keeps(1)] by (auto simp: recovered_def)
    moreover have "same_chain db db'" using d1(1) keeps(1) ok(1) same_chain_trans run(3) by metis
    ultimately show ?thesis using d1(6) ok(2-4) run(3) by blast
  qed
  then show "same_chain db db'" "hashes_agree (gw_jobs (cd_gateway db'))" "recovered ?tx db'" "recovered tx' db \<Longrightarrow> recovered tx' db'"
    by simp_all
qed

lemma recover_events_ok:
  assumes "recover_events H T X describe cfg es db k = (Inr u, db', k')" "hashes_agree (gw_jobs (cd_gateway db))"
  shows "same_chain db db' \<and> hashes_agree (gw_jobs (cd_gateway db')) \<and>
    (\<forall>e \<in> set es. recovered (cc_show_hash X (ae_transaction_hash e)) db') \<and> (recovered tx db \<longrightarrow> recovered tx db')"
  using assms
proof (induction es arbitrary: db k tx)
  case (Cons e es)
  obtain v d j where d: "recover_event H T X describe cfg e db k = (Inr v, d, j)"
    "recover_events H T X describe cfg es d j = (Inr u, db', k')"
    using Cons.prems(1) by (auto simp: continue_Inr)
  note ev = recover_event_ok [OF d(1) Cons.prems(2)]
  note rest = Cons.IH [OF d(2) ev(2)]
  show ?case
  proof (intro conjI ballI impI)
    show "same_chain db db'" using ev(1) rest same_chain_trans by blast
    show "hashes_agree (gw_jobs (cd_gateway db'))" using rest by blast
    show "recovered (cc_show_hash X (ae_transaction_hash x)) db'" if "x \<in> set (e # es)" for x
      using that ev(3) rest by auto
    show "recovered tx db'" if "recovered tx db" using that ev(4) rest by blast
  qed
qed simp

subsection \<open>Reconciled jobs\<close>

text \<open>The transaction is known and its receipt has been applied, whatever the status of the job.\<close>

definition accounted :: "string \<Rightarrow> chain_db \<Rightarrow> bool" where
  "accounted tx db \<longleftrightarrow> (\<exists>i j. map_of (gw_jobs (cd_gateway db)) i = Some j \<and>
     same_hash (jb_transaction_hash j) tx \<and> applied i db)"

definition keeps_hashes :: "chain_db \<Rightarrow> chain_db \<Rightarrow> bool" where
  "keeps_hashes db db' \<longleftrightarrow> same_chain db db' \<and>
     (\<forall>i. map_option jb_transaction_hash (map_of (gw_jobs (cd_gateway db')) i) =
          map_option jb_transaction_hash (map_of (gw_jobs (cd_gateway db)) i))"

lemma keeps_hashes_refl [simp]: "keeps_hashes db db"
  by (simp add: keeps_hashes_def)

lemma keeps_hashes_trans: "keeps_hashes a b \<Longrightarrow> keeps_hashes b c \<Longrightarrow> keeps_hashes a c"
  using same_chain_trans by (auto simp: keeps_hashes_def)

lemma keeps_hashes_accounted:
  assumes "keeps_hashes db db'" "accounted tx db"
  shows "accounted tx db'"
proof -
  obtain i j where i: "map_of (gw_jobs (cd_gateway db)) i = Some j" "same_hash (jb_transaction_hash j) tx" "applied i db"
    using assms(2) by (auto simp: accounted_def)
  obtain j' where "map_of (gw_jobs (cd_gateway db')) i = Some j'" "jb_transaction_hash j' = jb_transaction_hash j"
    using assms(1) i(1) unfolding keeps_hashes_def by (metis (no_types, lifting) map_option_eq_Some option.simps(9))
  then show ?thesis
    using i same_chain_applied [of db db' i] assms(1) unfolding accounted_def keeps_hashes_def
    by (intro exI [of _ i] exI [of _ j']) simp
qed

lemma update_job_hashes:
  assumes "\<And>j. jb_transaction_hash (f j) = jb_transaction_hash j"
  shows "keeps_hashes db (update_job i f db)"
  by (auto simp: keeps_hashes_def update_job_def same_chain_def update_where_map_of map_option_case assms split: option.splits)

lemma reconcile_receipt_hashes:
  assumes "reconcile_receipt H T X describe cfg head finalized i j state_applied r tx db = (res, db')"
  shows "keeps_hashes db db'"
proof -
  have u: "keeps_hashes d (update_job i (reconcile_update c r n) d)" for c n d
    by (rule update_job_hashes) (simp add: reconcile_update_def)
  have rev: "keeps_hashes db (let d = update_job i (\<lambda>j. j\<lparr>jb_status := Ethereum_Reverted, jb_error := e\<rparr>) db
      in d\<lparr>cd_gateway := delete_pending i (cd_gateway d)\<rparr>)" for e
    using update_job_hashes [of "\<lambda>j. j\<lparr>jb_status := Ethereum_Reverted, jb_error := e\<rparr>" db i]
    by (simp add: keeps_hashes_def Let_def same_chain_def delete_pending_def)
  have ap: "keeps_hashes db d" if "apply_confirmed H T describe (jb_kind j) i (jb_input j) pv n h tx db = Inr d" for pv n h d
    using apply_keeps(1,2) [OF that] by (simp add: keeps_hashes_def same_jobs_def)
  show ?thesis
    using assms unfolding reconcile_receipt_def Let_def
    by (auto simp: and_then_Inr split: sum.splits if_splits intro: u rev [unfolded Let_def] keeps_hashes_trans [OF ap u] ap)
qed

lemma reconcile_row_hashes:
  assumes "reconcile_row H T X describe cfg head finalized row db k = (res, db', k')"
  shows "keeps_hashes db db'"
  using assms unfolding reconcile_row_def
  by (auto split: prod.splits option.splits sum.splits dest: reconcile_receipt_hashes)

lemma reconcile_loop_hashes:
  assumes "reconcile_loop H T X describe cfg head finalized rows db k = (res, db', k')"
  shows "keeps_hashes db db'"
  using assms
proof (induction rows arbitrary: db k)
  case (Cons row rows)
  obtain v d j where d: "reconcile_row H T X describe cfg head finalized row db k = (v, d, j)" by (metis prod_cases3)
  note row = reconcile_row_hashes [OF d]
  show ?case
  proof (cases v)
    case (Inl e)
    then show ?thesis using Cons.prems row d by (simp add: continue_def)
  next
    case (Inr x)
    then have "keeps_hashes d db'" using Cons.IH [of d j] Cons.prems d by (simp add: continue_def)
    then show ?thesis by (rule keeps_hashes_trans [OF row])
  qed
qed simp

lemma reconcile_jobs_hashes:
  "reconcile_jobs H T X describe cfg head finalized db k = (res, db', k') \<Longrightarrow> keeps_hashes db db'"
  by (auto simp: reconcile_jobs_def split: sum.splits dest: reconcile_loop_hashes)

subsection \<open>Invariants of the block index\<close>

text \<open>
  What a rollback keeps, and does not depend on blocks, head and deposits, is kept by a pass over the blocks.
\<close>

locale index_invariant =
  fixes mode :: finality_mode and P :: "chain_db \<Rightarrow> bool"
  assumes rollback: "P db \<Longrightarrow> rollback_canonical_chain mode a db = Inr db' \<Longrightarrow> P db'"
    and deposits: "P db \<Longrightarrow> P (db\<lparr>cd_deposits := ds, cd_blocks := bs\<rparr>)"
    and finality: "P db \<Longrightarrow> P (db\<lparr>cd_blocks := bs, cd_head := h\<rparr>)"
begin

lemma rolled_kept: "rolled mode db db' \<Longrightarrow> P db \<Longrightarrow> P db'"
  using rollback by (auto simp: rolled_def)

lemma block_kept: "index_bridge_deposits N block db k = (r, db', k') \<Longrightarrow> P db \<Longrightarrow> P db'"
  using deposits by (auto simp: index_bridge_deposits_def Let_def res_simps split: sum.splits)

lemma loop_kept:
  assumes "honest N" "index_loop N mode head nxt db k = Some (r, db', k')" "P db"
  shows "P db'"
proof -
  have "\<forall>r db' k'. y = (r, db', k') \<longrightarrow> N = N' \<longrightarrow> mode = m \<longrightarrow> P d \<longrightarrow> P db'"
    if "index_loop N' m hd nx d j = Some y" for N' m hd nx d j y
  proof (rule index_loop.raw_induct [OF _ that], intro allI impI)
    fix f N' m hd nx d j y r db' k'
    assume IH: "\<And>N' m hd nx d j y. f N' m hd nx d j = Some y \<Longrightarrow>
        \<forall>r db' k'. y = (r, db', k') \<longrightarrow> N = N' \<longrightarrow> mode = m \<longrightarrow> P d \<longrightarrow> P db'"
      and body: "(if hd < nx then Some (Inr (), d, j)
        else case nd_block N' j nx of
          Inl e \<Rightarrow> Some (Inl e, d, Suc j)
        | Inr block \<Rightarrow> (case ensure_parent N' m block d (Suc j) of
            None \<Rightarrow> None
          | Some (Inl e, db, k) \<Rightarrow> Some (Inl e, db, k)
          | Some (Inr _, db, k) \<Rightarrow> (case index_bridge_deposits N' block db k of
              (Inl e, db, k) \<Rightarrow> Some (Inl e, db, k)
            | (Inr _, db, k) \<Rightarrow> f N' m hd (br_number block + 1) db k))) = Some y"
      and y: "y = (r, db', k')" "N = N'" "mode = m" "P d"
    have parent: "P e" if "ensure_parent N mode block d' i = Some (x, e, l)" "P d'" for block d' i x e l
      using rolled_kept [OF ensure_parent_cases(1) [OF that(1) assms(1)] that(2)] .
    have rest: "P db'" if "f N mode hd' nx' d' i = Some (r, db', k')" "P d'" for hd' nx' d' i
      using IH [OF that(1)] that(2) by simp
    show "P db'"
      using body parent rest block_kept y by (auto split: if_splits sum.splits option.splits prod.splits)
  qed
  then show ?thesis using assms by blast
qed

lemma pass_kept:
  assumes "honest N" "chain_ok (cd_blocks db)" "ic_finality_mode cfg = mode"
    and "index_blocks cfg N head finalized_block db k = Some (r, db', k')" "P db"
  shows "P db'"
proof -
  obtain r1 d1 k1 where tip: "check_tip N mode head db k = Some (r1, d1, k1)"
    using assms(3,4) by (auto simp: index_blocks_def split: option.splits)
  have 1: "P d1" by (rule rolled_kept [OF check_tip_cases(1) [OF tip assms(1,2)] assms(5)])
  have adv: "P e" if "advance_finality cfg head finalized_block b d = Inr e" "P d" for b d e
    using that finality by (auto simp: advance_finality_def res_simps)
  show ?thesis
    using assms(3,4) tip 1 loop_kept [OF assms(1)] adv
    by (auto simp: index_blocks_def split: sum.splits option.splits prod.splits)
qed

end

lemma rollback_canonical_after: "rollback_canonical_chain mode a db = Inr db' \<Longrightarrow> rollback_after a db = Inr db'"
  by (auto simp: rollback_canonical_chain_def res_simps split: if_splits)

lemma hashes_agree_update:
  assumes "hashes_agree t" "\<And>j. jb_prepared_transaction (f j) = jb_prepared_transaction j"
    and "\<And>j. jb_transaction_hash (f j) = None \<or> jb_transaction_hash (f j) = jb_transaction_hash j"
  shows "hashes_agree (fst (update_where p f t))"
  unfolding hashes_agree_def list_all_iff
proof (intro conjI ballI)
  show "distinct (map fst (fst (update_where p f t)))" using assms(1) by (simp add: hashes_agree_def)
  fix row assume row: "row \<in> set (fst (update_where p f t))"
  obtain k v where kv: "row = (k, v)" by (rule prod.exhaust)
  obtain u where u: "(k, u) \<in> set t" "v = (if p k u then f u else u)" using row by (auto simp: kv update_where_in)
  then show "case row of (i, j) \<Rightarrow> (case (jb_transaction_hash j, jb_prepared_transaction j) of
      (Some h, Some p) \<Rightarrow> to_ascii_lowercase (ps_transaction_hash p) = to_ascii_lowercase h | _ \<Rightarrow> True)"
    using assms(1,2) assms(3) [of u]
    by (auto simp: kv hashes_agree_def list_all_iff split: option.splits if_splits)
qed

lemma hashes_agree_filter: "hashes_agree t \<Longrightarrow> hashes_agree (filter p t)"
  by (auto simp: hashes_agree_def list_all_iff distinct_map_filter)

lemma hashes_agree_rollback: "hashes_agree (gw_jobs g) \<Longrightarrow> hashes_agree (rolled_back_jobs a g)"
  unfolding rolled_back_jobs_def requeue_orphans_def invalidate_settlements_def orphan_recovered_def
  by (auto intro!: hashes_agree_update hashes_agree_filter split: option.splits)

interpretation job_hashes: index_invariant mode "\<lambda>db. hashes_agree (gw_jobs (cd_gateway db))" for mode
proof
  fix db a db' assume "hashes_agree (gw_jobs (cd_gateway db))" "rollback_canonical_chain mode a db = Inr db'"
  then show "hashes_agree (gw_jobs (cd_gateway db'))"
    using hashes_agree_rollback [of "cd_gateway db"] by (auto dest!: rollback_canonical_after simp: rollback_after_Inr)
qed simp_all

interpretation explorer_rows: index_invariant mode "\<lambda>db. explorer_complete E from db" for mode E "from"
proof
  fix db a db'
  assume "explorer_complete E from db" "rollback_canonical_chain mode a db = Inr db'"
  moreover from this have "rollback_after a db = Inr db'" by (simp add: rollback_canonical_after)
  ultimately show "explorer_complete E from db'" using rollback_keeps_events [of a db db' E "from" E] by simp
qed (auto simp: explorer_complete_def recorded_def transition_present_def settlement_present_def claim_present_def split: option.splits)

interpretation no_explorer: index_invariant mode "\<lambda>db. cd_explorer_last db = None" for mode
  by unfold_locales (auto dest!: rollback_canonical_after simp: rollback_after_Inr rollback_data_def)

lemma index_logs_frame:
  assumes "\<And>l db. part (snd (f l db)) = part db"
  shows "part (fst (snd (index_logs answer f db k))) = part db"
  using store_logs_frame [of part f, OF assms] by (cases answer) (simp_all add: index_logs_def split_beta)

lemma continue_frame:
  assumes "part (fst (snd x)) = c" "\<And>d k. part d = c \<Longrightarrow> part (fst (snd (f d k))) = c"
  shows "part (fst (snd (continue x f))) = c"
proof -
  obtain r d k where x: "x = (r, d, k)" by (rule prod_cases3)
  then show ?thesis using assms by (cases r) (simp_all add: continue_def)
qed

lemma store_gateway:
  "cd_gateway (snd (atomically store_transition l db)) = cd_gateway db"
  "cd_gateway (snd (atomically store_settlement m db)) = cd_gateway db"
  "cd_gateway (snd (store_batch b db)) = cd_gateway db"
  "cd_gateway (snd (atomically store_claim c db)) = cd_gateway db"
  by (auto intro!: atomically_frame simp: store_transition_def store_settlement_def store_batch_def store_claim_def res_simps Let_def
      split: sum.splits)

lemma range_gateway: "cd_gateway (fst (snd (index_explorer_events L a b db k))) = cd_gateway db"
proof -
  note logs = index_logs_frame [where part = cd_gateway, OF store_gateway(1)] index_logs_frame [where part = cd_gateway, OF store_gateway(2)]
    index_logs_frame [where part = cd_gateway, OF store_gateway(3)] index_logs_frame [where part = cd_gateway, OF store_gateway(4)]
  note frame = continue_frame [where part = cd_gateway and c = "cd_gateway db"]
  show ?thesis
    unfolding index_explorer_events_def
    by (rule frame, rule logs(1), rule frame, simp add: logs(2), rule frame, simp add: logs(3), simp add: logs(4))
qed

lemma explorer_loop_gateway: "cd_gateway (fst (snd (explorer_loop L head nxt db k))) = cd_gateway db"
proof (induction L head nxt db k rule: explorer_loop.induct)
  case (1 L head nxt db k)
  obtain r d j where run: "index_explorer_events L nxt (range_end nxt head) db k = (r, d, j)" by (rule prod_cases3)
  have d: "cd_gateway d = cd_gateway db" using range_gateway [of L nxt "range_end nxt head" db k] by (simp add: run)
  show ?case
    using 1(1) [OF _ run [symmetric] _ refl] run d
    by (subst explorer_loop.simps) (simp split: sum.splits)
qed

lemma explorer_gateway:
  "index_explorer_events_through cfg L head db k = (r, db', k') \<Longrightarrow> cd_gateway db' = cd_gateway db"
  using explorer_loop_gateway [of L head _ db k]
  by (auto simp: index_explorer_events_through_def split: sum.splits) (metis fst_conv snd_conv)

subsection \<open>Properties\<close>

lemma event_accepted:
  assumes "final_with_hash (cd_blocks db) (uint n) h"
  shows "settlement_present l db \<Longrightarrow> n = sl_block_number l \<Longrightarrow> h = sl_block_hash l \<Longrightarrow> settlement_event l \<in> set (accepted_events db)"
    and "transition_present m db \<Longrightarrow> n = tl_block_number m \<Longrightarrow> h = tl_block_hash m \<Longrightarrow> transition_event m \<in> set (accepted_events db)"
  using assms
  by (force simp: accepted_events_def settlement_present_def transition_present_def settlement_event_def transition_event_def image_iff)+

lemma recovered_accounted: "recovered tx db \<Longrightarrow> accounted tx db"
  by (auto simp: recovered_def accounted_def)

text \<open>
  C20: A ready gateway has applied everything that is final.  When a pass succeeds it opens the gateway, and every
  settlement and every bridge transition that the contracts accepted in a finalized block of the index has a job with its
  transaction whose receipt has been applied to the virtual accounts, also when the database was empty before.
\<close>

theorem ready_gateway_complete:
  assumes "tick H T X N L describe cfg db k = Some (Inr u, db', k')"
    and "honest N" "chain_ok (cd_blocks db)" "hashes_agree (gw_jobs (cd_gateway db))" "serves E L" "distinct_events E"
    and "explorer_complete E from db \<or>
      cd_explorer_last db = None \<and> (\<exists>start. ic_start_block cfg = Some start \<and> uint start \<le> from)"
  shows "gw_recovery_ready (cd_gateway db') \<and> explorer_complete E from db' \<and>
    (\<exists>head. cc_head X k = Inr head \<and>
      (\<forall>l \<in> ce_settlements E. uint (sl_block_number l) \<in> {from..uint head} \<and>
         final_with_hash (cd_blocks db') (uint (sl_block_number l)) (sl_block_hash l) \<longrightarrow>
         accounted (cc_show_hash X (sl_transaction_hash l)) db') \<and>
      (\<forall>l \<in> ce_transitions E. uint (tl_block_number l) \<in> {from..uint head} \<and>
         final_with_hash (cd_blocks db') (uint (tl_block_number l)) (tl_block_hash l) \<longrightarrow>
         accounted (cc_show_hash X (tl_transaction_hash l)) db'))"
proof -
  obtain head fb d1 d2 d3 d4 k1 k2 k3 k4 where run: "cc_head X k = Inr head"
    "index_blocks cfg N head fb db (k + 2) = Some (Inr (), d1, k1)"
    "index_explorer_events_through cfg L head d1 k1 = (Inr (), d2, k2)"
    "recover_gateway_state H T X describe cfg d2 k2 = (Inr (), d3, k3)"
    "reconcile_jobs H T X describe cfg head fb d3 k3 = (Inr (), d4, k4)"
    "db' = d4\<lparr>cd_gateway := (cd_gateway d4)\<lparr>gw_recovery_ready := True\<rparr>\<rparr>"
    using assms(1) by (auto simp: tick_def continue_Inr split: sum.splits option.splits if_splits)
  have ha: "hashes_agree (gw_jobs (cd_gateway d2))"
    using job_hashes.pass_kept [OF assms(2,3) refl run(2) assms(4)] explorer_gateway [OF run(3)] by simp
  have "explorer_complete E from d1 \<or>
      cd_explorer_last d1 = None \<and> (\<exists>nxt. explorer_start cfg head d1 = Inr nxt \<and> uint nxt \<le> from)"
  proof (cases "cd_explorer_last db")
    case None
    moreover from this have "cd_explorer_last d1 = None" by (rule no_explorer.pass_kept [OF assms(2,3) refl run(2)])
    ultimately show ?thesis using assms(7) by (auto simp: explorer_complete_def explorer_start_def min_def word_le_def)
  next
    case (Some n)
    then show ?thesis
      using assms(7) explorer_rows.pass_kept [OF assms(2,3) refl run(2), of E "from"] by auto
  qed
  from explorer_pass_complete [OF run(3) assms(5,6) this]
  have rec: "recorded E {from..uint head} d2" "explorer_complete E from d2" by simp_all
  note ok = recover_events_ok [OF run(4) [unfolded recover_gateway_state_def] ha]
  have flag: "keeps_hashes d4 db'" by (simp add: run(6) keeps_hashes_def same_chain_def)
  have keep: "keeps_hashes d3 db'" by (rule keeps_hashes_trans [OF reconcile_jobs_hashes [OF run(5)] flag])
  have same: "same_chain d2 db'" using ok keep same_chain_trans [of d2 d3 db'] by (simp add: keeps_hashes_def)
  have acc: "accounted (cc_show_hash X (ae_transaction_hash e)) db'" if "e \<in> set (accepted_events d2)" for e
    using ok that keeps_hashes_accounted [OF keep] recovered_accounted by blast
  have blocks: "cd_blocks db' = cd_blocks d2" using same by (simp add: same_chain_def)
  have "recorded E R db' = recorded E R d2" for R
    using same by (simp add: recorded_def transition_present_def settlement_present_def claim_present_def same_chain_def)
  then have "explorer_complete E from db'" using rec(2) same by (auto simp: explorer_complete_def same_chain_def split: option.splits)
  moreover have "accounted (cc_show_hash X (sl_transaction_hash l)) db'"
    if "l \<in> ce_settlements E" "uint (sl_block_number l) \<in> {from..uint head}"
      "final_with_hash (cd_blocks db') (uint (sl_block_number l)) (sl_block_hash l)" for l
    using acc [OF event_accepted(1) [OF that(3) [unfolded blocks] _ refl refl]] rec(1) that(1,2)
    by (simp add: recorded_def settlement_event_def)
  moreover have "accounted (cc_show_hash X (tl_transaction_hash l)) db'"
    if "l \<in> ce_transitions E" "uint (tl_block_number l) \<in> {from..uint head}"
      "final_with_hash (cd_blocks db') (uint (tl_block_number l)) (tl_block_hash l)" for l
    using acc [OF event_accepted(2) [OF that(3) [unfolded blocks] _ refl refl]] rec(1) that(1,2)
    by (simp add: recorded_def transition_event_def)
  moreover have "gw_recovery_ready (cd_gateway db')" by (simp add: run(6))
  ultimately show ?thesis using run(1) by blast
qed

text \<open>
  A pass over the fork of \<open>Block_Index\<close> that finds a bridge transition in the finalized block 101 for the first time and knows its
  job and its application already.
\<close>

definition pass_transition :: bridge_transition_log where
  "pass_transition = sample_transition\<lparr>tl_block_number := 101, tl_block_hash := [101]\<rparr>"

definition pass_logs :: log_node where
  "pass_logs = sample_logs\<lparr>ln_transitions := (\<lambda>k a b. Inr (filter (\<lambda>l. a \<le> tl_block_number l \<and> tl_block_number l \<le> b) [pass_transition]))\<rparr>"

definition pass_client :: chain_client where
  "pass_client = \<lparr>cc_head = (\<lambda>_. Inr 103), cc_finalized_block = (\<lambda>_. Inr (fork_block 101)),
     cc_public_values = (\<lambda>_ _ _. Inl (plain_failure [])), cc_receipt = (\<lambda>_ _. Inr None), cc_new_id = (\<lambda>k. k),
     cc_show_hash = (\<lambda>_. ''0xh''), cc_parse_hash = (\<lambda>_. Some [2]), cc_hex = map (\<lambda>b. char_of (unat b)), cc_not_a_batch = []\<rparr>"

definition pass_db :: chain_db where
  "pass_db = fork_db\<lparr>cd_gateway := (cd_gateway fork_db)\<lparr>gw_recovery_ready := False, gw_jobs := [(5, sample_batch 101)]\<rparr>,
     cd_history := [\<lparr>hs_job_id = 5, hs_public_key = ''outer'', hs_account_before = \<lparr>aj_zkapp_state = None, aj_action_state = None,
       aj_nonce = None, aj_proved_state = None, aj_rest = []\<rparr>, hs_block_number = 101\<rparr>], cd_explorer_last := None\<rparr>"

definition pass_result :: "unit outcome option" where
  "pass_result = tick ladder_crypto sample_text pass_client fork_node pass_logs (\<lambda>_. []) sample_index_config pass_db 0"

definition pass_indexed :: "unit outcome option" where
  "pass_indexed = index_blocks sample_index_config fork_node 103 (Some (fork_block 101)) pass_db 2"

lemma pass_indexed_evaluates:
  "map_option (\<lambda>(r, db, _). \<not> isl r \<and> final_with_hash (cd_blocks db) 101 [101] \<and>
     gw_jobs (cd_gateway db) = [(5, sample_batch 101)] \<and> map hs_job_id (cd_history db) = [5] \<and>
     cd_explorer_last db = None \<and> cd_transitions db = [] \<and> cd_settlements db = []) pass_indexed = Some True"
  by code_simp

lemma pass_succeeds: "\<exists>db k. pass_result = Some (Inr (), db, k) \<and> final_with_hash (cd_blocks db) 101 [101]"
proof -
  obtain r d k where d: "pass_indexed = Some (r, d, k)" "\<not> isl r" "final_with_hash (cd_blocks d) 101 [101]"
    "gw_jobs (cd_gateway d) = [(5, sample_batch 101)]" "map hs_job_id (cd_history d) = [5]"
    "cd_explorer_last d = None" "cd_transitions d = []" "cd_settlements d = []"
    using pass_indexed_evaluates by auto
  then have i: "index_blocks sample_index_config fork_node 103 (Some (fork_block 101)) pass_db 2 = Some (Inr (), d, k)"
    by (cases r) (simp_all add: pass_indexed_def)
  have "range_end 100 103 = 103" by (simp add: range_end_def saturating_add_def checked_add_def)
  moreover have "bigint 103 = Inr 103" "bigint 0 = Inr 0" "bigint 1 = Inr 1" "bigint 101 = Inr 101"
    by (simp_all add: bigint_def i64_of_u64_def expect_def)
  moreover have "explorer_start sample_index_config 103 d = Inr 100"
    using d by (simp add: explorer_start_def sample_index_config_def)
  ultimately have x: "\<exists>n. index_explorer_events_through sample_index_config pass_logs 103 d k =
      (Inr (), d\<lparr>cd_transitions := [\<lparr>tr_log = pass_transition, tr_removed = False\<rparr>], cd_explorer_last := Some 103\<rparr>, n)"
    using d by (simp add: index_explorer_events_through_def explorer_loop.simps [of _ _ 100] index_explorer_events_def
        index_logs_def continue_def pass_logs_def sample_logs_def pass_transition_def sample_transition_def atomically_def
        store_transition_def put_row_def transition_key_def)
  let ?d = "d\<lparr>cd_transitions := [\<lparr>tr_log = pass_transition, tr_removed = False\<rparr>], cd_explorer_last := Some 103\<rparr>"
  obtain n where n: "index_explorer_events_through sample_index_config pass_logs 103 d k = (Inr (), ?d, n)" using x by blast
  obtain h where h: "cd_history d = [h]" "hs_job_id h = 5" using d(5) by auto
  have "already_applied ''0xh'' ?d"
    using d h by (simp add: already_applied_def same_hash_def sample_batch_def new_job_def)
  then have g: "recover_gateway_state ladder_crypto sample_text pass_client (\<lambda>_. []) sample_index_config ?d n = (Inr (), ?d, n)"
    using d by (simp add: recover_gateway_state_def accepted_events_def recover_event_def continue_def pass_client_def)
  have j: "\<exists>m. reconcile_jobs ladder_crypto sample_text pass_client (\<lambda>_. []) sample_index_config 103 (Some (fork_block 101)) ?d n = (Inr (), ?d, m)"
    using d by (auto simp: reconcile_jobs_def optional_bigint_def fork_block_def bigint_def i64_of_u64_def expect_def reconcile_rows_def
        reconcile_row_def continue_def pass_client_def sample_batch_def new_job_def)
  have c: "cc_head pass_client 0 = Inr 103" "cc_finalized_block pass_client 1 = Inr (fork_block 101)"
    "ic_finality_mode sample_index_config = Finalized"
    by (simp_all add: pass_client_def sample_index_config_def)
  obtain m where m: "reconcile_jobs ladder_crypto sample_text pass_client (\<lambda>_. []) sample_index_config 103 (Some (fork_block 101)) ?d n = (Inr (), ?d, m)"
    using j by blast
  show ?thesis using i [unfolded numeral_2_eq_2] n g m c d(3) by (simp add: pass_result_def tick_def continue_def)
qed

theorem ready_gateway_complete_witness:
  "\<exists>db' k'. pass_result = Some (Inr (), db', k') \<and> gw_recovery_ready (cd_gateway db') \<and> accounted ''0xh'' db'"
proof -
  let ?E = "\<lparr>ce_transitions = {pass_transition}, ce_settlements = {}, ce_claims = {}\<rparr>"
  obtain db' k' where r: "pass_result = Some (Inr (), db', k')" "final_with_hash (cd_blocks db') 101 [101]"
    using pass_succeeds by blast
  then have run: "tick ladder_crypto sample_text pass_client fork_node pass_logs (\<lambda>_. []) sample_index_config pass_db 0 = Some (Inr (), db', k')"
    by (simp add: pass_result_def)
  have "serves ?E pass_logs" "distinct_events ?E"
    by (auto simp: serves_def returns_def pass_logs_def sample_logs_def distinct_events_def)
  moreover have "chain_ok (cd_blocks pass_db)" "hashes_agree (gw_jobs (cd_gateway pass_db))"
    using fork_chain_ok by (simp_all add: pass_db_def hashes_agree_def sample_batch_def new_job_def)
  moreover have "cd_explorer_last pass_db = None" "ic_start_block sample_index_config = Some 100"
    by (simp_all add: pass_db_def sample_index_config_def)
  ultimately have "gw_recovery_ready (cd_gateway db') \<and> accounted (cc_show_hash pass_client [2]) db'"
    using ready_gateway_complete [OF run fork_honest, of ?E 100] r(2) by (auto simp: pass_client_def pass_transition_def sample_transition_def)
  then show ?thesis using run by (simp add: pass_result_def pass_client_def)
qed

text \<open>The commit action of a receipt, rebuilt from its public values.\<close>

lemma recovered_action_committed:
  assumes "wf_settlement_witness w" "derive_receipt_for_app_state H app_state w vk = Inr v"
  shows "sb_actions (sw_binding w) = [recovered_action v]" "list_all (\<lambda>f. length f = 32) (recovered_action v)"
proof -
  let ?a = "commit_of w" and ?b = "body_of w"
  have acc: "v1_accepts H app_state w" and v: "v = v1_output H app_state w vk" using assms by (simp_all add: derive_receipt_Inr)
  have a: "length ?a = 8" "?a ! 0 = 0" "?a ! 1 = ?b ! 4" "?a ! 2 = ?b ! 5" "?a ! 3 = ?b ! 6"
      "nat_of_fp (?a ! 5) < 2 ^ 32" "nat_of_fp (?a ! 6) < 2 ^ 32" "nat_of_fp (?a ! 7) < 2 ^ 32"
    using acc by (simp_all add: v1_accepts_def Let_def)
  obtain action where action: "sb_actions (sw_binding w) = [action]" "list_all canonical action"
    using acc by (auto simp: v1_accepts_def Let_def length_Suc_conv)
  have "map field_to_bytes ?a = action"
    using action(2) by (simp add: commit_of_def action(1) comp_def canonical_def map_idI list_all_iff)
  moreover have u32: "u32_word (word_of_nat (nat_of_fp x)) = field_to_bytes x" if "nat_of_fp x < 2 ^ 32" for x
  proof -
    have "x = fp_from_u32 (word_of_nat (nat_of_fp x))"
      using that field_to_u32_cases [of x "word_of_nat (nat_of_fp x)"] by (simp add: field_to_u32_Inr)
    then show ?thesis by (metis field_to_bytes_words(1))
  qed
  moreover have "recovered_action v = map field_to_bytes [?a ! 0, ?a ! 1, ?a ! 2, ?a ! 3, ?a ! 4, ?a ! 5, ?a ! 6, ?a ! 7]"
    using a u32 by (simp add: recovered_action_def v v1_output_def Let_def target_of_def field_to_bytes_words)
  ultimately show "sb_actions (sw_binding w) = [recovered_action v]" using length_8 [OF a(1)] action(1) by metis
  then show "list_all (\<lambda>f. length f = 32) (recovered_action v)"
    using action by (auto simp: list_all_iff canonical_def field_to_bytes_eq) (metis length_be_bytes)
qed

text \<open>
  C21: A settlement that is rebuilt from Ethereum publishes the action that was proved.  The commit action that the
  recovery writes into the input of the new job from the public values of the transaction is, field by field, the action of
  the witness from which the guest derived the receipt.
\<close>

theorem recovered_action_proved:
  assumes "wf_settlement_witness w" "derive_receipt_for_app_state H app_state w vk = Inr (settlement decoded)"
    and "decode_public_values pv = Inr decoded" "\<And>b. hex_decode T (cc_hex X b) = Some b"
    and "recovered_settlement_input X describe cfg pv db = Inr input"
  shows "\<exists>s actions. ji_submission input = Some s \<and> si_actions s = Some actions \<and>
    fields_to_decimal T actions = Inr (map (map (decimal T)) (sb_actions (sw_binding w)))"
proof -
  let ?a = "recovered_action (settlement decoded)"
  note committed = recovered_action_committed [OF assms(1,2)]
  obtain s where s: "ji_submission input = Some s" "si_actions s = Some (Some [Some (map (\<lambda>f. Some (''0x'' @ cc_hex X f)) ?a)])"
    using assms(3,5) by (auto simp: recovered_settlement_input_def recovered_input_def decode_error_def and_then_Inr Let_def)
  have field: "action_field T (Some (''0x'' @ cc_hex X f)) = Inr (decimal T f)" if "length f = 32" for f
    using that by (simp add: action_field_def expect_def strip_0x_def assms(4))
  have "try_map (action_field T) (map (\<lambda>f. Some (''0x'' @ cc_hex X f)) fs) = Inr (map (decimal T) fs)"
    if "list_all (\<lambda>f. length f = 32) fs" for fs
    using that by (induction fs) (simp_all add: field [simplified])
  then have "fields_to_decimal T (Some [Some (map (\<lambda>f. Some (''0x'' @ cc_hex X f)) ?a)]) = Inr [map (decimal T) ?a]"
    using committed(2) by (simp add: fields_to_decimal_def expect_def)
  then show ?thesis using s committed(1) by simp
qed

theorem recovered_action_proved_witness:
  "\<exists>pv input s actions. recovered_settlement_input pass_client (\<lambda>_. []) (sample_index_config\<lparr>ic_fee_payer_public_key := Some ''outer''\<rparr>)
       pv receipt_db = Inr input \<and> ji_submission input = Some s \<and> si_actions s = Some actions \<and>
     fields_to_decimal sample_text actions = Inr (map (map (decimal sample_text)) (sb_actions (sample_binding 9)))"
proof -
  let ?w = "sample_witness 9" and ?cfg = "sample_index_config\<lparr>ic_fee_payer_public_key := Some ''outer''\<rparr>"
  let ?v = "v1_output ladder_crypto [1, 0] ?w (replicate 32 0x22)"
  have "wf_spv1 ?v" by (intro wf_v1_output sample_wf sample_accepts) simp
  then obtain pv where pv: "decode_public_values pv = Inr (V1 ?v)" using receipt.round_trip [of "V1 ?v"] by auto
  have derive: "derive_receipt_for_app_state ladder_crypto [1, 0] ?w (replicate 32 0x22) = Inr (settlement (V1 ?v))"
    by (simp add: derive_receipt_Inr [OF sample_wf] sample_accepts)
  have hex: "hex_decode sample_text (cc_hex pass_client b) = Some b" for b
  proof -
    have "unat x mod 256 = unat x" for x :: u8 by (rule mod_less) (use unsigned_less [of x] in simp)
    then show ?thesis by (simp add: sample_text_def pass_client_def comp_def map_idI)
  qed
  have "parse_u64 ''3'' = Some 3" by (simp add: parse_u64_def digit_value_def of_char_def)
  then obtain input where input: "recovered_settlement_input pass_client (\<lambda>_. []) ?cfg pv receipt_db = Inr input"
    by (simp add: recovered_settlement_input_def decode_error_def pv receipt_db_def sample_db_def expect_def Let_def)
  show ?thesis
    using recovered_action_proved [OF sample_wf derive pv hex input] input by (auto simp: sample_witness_def)
qed

end
