(* ===== verification/Bridge_Guest.thy ===== *)
theory Bridge_Guest
  imports Inner_Action_Tree Bridge_Receipt Hash_Chain
begin

text \<open>
  The deposit bridge: the input and receipt types of \<open>lib/src/lib.rs\<close> (\<open>BridgeDeposit\<close> to
  \<open>BridgeTransitionPublicValuesV2\<close>, with \<open>encode\<close> and \<open>decode\<close>) and the SP1 guest
  \<open>program/bridge/src/main.rs\<close>, which replays a batch of deposits, extends the Ethereum deposit
  accumulator and the Zeko action state, and emits one outer Witness action per deposit.

  The helpers \<open>u64_word\<close>, \<open>u32_word\<close> and \<open>address_word\<close> of the guest are textually those of
  \<open>inner_action_commitment\<close>; its \<open>fp_to_bytes\<close>, \<open>fp_from_bytes\<close> and sponge are in
  \<open>Mina_Field\<close>.  Guests are built in release mode, where \<open>next_nonce += 1\<close> wraps; the model's
  nonce is a 64-bit word.
\<close>

subsection \<open>Data\<close>

record bridge_deposit =
  bd_token :: bytes
  bd_asset_id :: bytes
  bd_encoding_version :: u32
  bd_registry_index :: u32
  bd_record_commitment :: bytes
  bd_amount :: bytes
  bd_zeko_amount :: "u64 option"
  bd_zeko_recipient :: bytes
  bd_timeout :: u64

record ethereum_bridge_state =
  eb_chain_id :: u64
  eb_bridge_address :: bytes
  eb_deposit_nonce :: u64
  eb_deposit_state :: bytes

record zeko_bridge_state =
  zb_action_state :: bytes
  zb_action_state_length :: u32

record bridge_transition_input =
  bi_ethereum :: ethereum_bridge_state
  bi_zeko :: zeko_bridge_state
  bi_deposits :: "bridge_deposit list"

definition wf_bridge_deposit :: "bridge_deposit \<Rightarrow> bool" where
  "wf_bridge_deposit d \<longleftrightarrow> length (bd_token d) = 20 \<and> length (bd_asset_id d) = 32 \<and>
     length (bd_record_commitment d) = 32 \<and> length (bd_amount d) = 32 \<and>
     length (bd_zeko_recipient d) = 32"

definition wf_bridge_input :: "bridge_transition_input \<Rightarrow> bool" where
  "wf_bridge_input i \<longleftrightarrow> length (eb_bridge_address (bi_ethereum i)) = 20 \<and>
     length (eb_deposit_state (bi_ethereum i)) = 32 \<and> length (zb_action_state (bi_zeko i)) = 32 \<and>
     list_all wf_bridge_deposit (bi_deposits i)"

subsection \<open>Helpers of the guest\<close>

definition WEI_PER_ZEKO_UNIT :: u64 where
  "WEI_PER_ZEKO_UNIT = 1000000000"

definition INFINITE_TIMEOUT :: u64 where
  "INFINITE_TIMEOUT = 0xFFFFFFFF"

definition u256_from_bytes :: "bytes \<Rightarrow> u256" where
  "u256_from_bytes bs = u256_from_be bs"

definition u256_to_bytes :: "u256 \<Rightarrow> bytes" where
  "u256_to_bytes v = u256_to_be v"

definition fp_from_address :: "bytes \<Rightarrow> fp" where
  "fp_from_address a = from_be_bytes_mod_order (replicate 12 0 @ a)"

definition fp_from_u256 :: "u256 \<Rightarrow> fp" where
  "fp_from_u256 v = from_be_bytes_mod_order (u256_to_be v)"

definition field_order :: u256 where
  "field_order = 0x40000000000000000000000000000000224698fc094cf91b992d30ed00000001"

definition unpack_zeko_address :: "bytes \<Rightarrow> string + u256 \<times> bool" where
  "unpack_zeko_address address =
     (let x = u256_from_be address AND (push_bit 255 1 - 1);
          is_odd = (address ! 0 AND 0x80 \<noteq> 0)
      in ensure (x < field_order) ''invalid zeko address field'' (Inr (x, is_odd)))"

definition compute_ethereum_deposit_leaf ::
  "crypto \<Rightarrow> u64 \<Rightarrow> bytes \<Rightarrow> bytes \<Rightarrow> bytes \<Rightarrow> u256 \<Rightarrow> u64 \<Rightarrow> u64 \<Rightarrow> bytes" where
  "compute_ethereum_deposit_leaf H chain_id bridge_address token zeko_recipient zeko_amount timeout nonce =
     keccak256 H
       (keccak_str H ''ZEKO_BRIDGE_DEPOSIT_LEAF_V1'' @
        u64_word chain_id @
        address_word bridge_address @
        address_word token @
        zeko_recipient @
        u256_to_bytes zeko_amount @
        u64_word timeout @
        u64_word nonce)"

definition compute_ethereum_state :: "crypto \<Rightarrow> bytes \<Rightarrow> bytes \<Rightarrow> bytes" where
  "compute_ethereum_state H previous_state deposit_leaf =
     keccak256 H (keccak_str H ''ZEKO_BRIDGE_DEPOSIT_STATE_V1'' @ previous_state @ deposit_leaf)"

definition compute_ethereum_erc20_deposit_leaf_v2 ::
  "crypto \<Rightarrow> u64 \<Rightarrow> bytes \<Rightarrow> bytes \<Rightarrow> u32 \<Rightarrow> bytes \<Rightarrow> bytes \<Rightarrow> bytes \<Rightarrow> u256 \<Rightarrow> u64 \<Rightarrow> u64 \<Rightarrow> bytes" where
  "compute_ethereum_erc20_deposit_leaf_v2 H chain_id bridge_address token registry_index
     record_commitment asset_id zeko_recipient zeko_amount timeout nonce =
     keccak256 H
       (keccak_str H ''ZEKO_ERC20_DEPOSIT_LEAF_V3'' @
        u64_word chain_id @
        address_word bridge_address @
        address_word token @
        u32_word ERC20_ACTION_ENCODING_V2 @
        u32_word registry_index @
        record_commitment @
        asset_id @
        zeko_recipient @
        u256_to_bytes zeko_amount @
        u64_word timeout @
        u64_word nonce)"

definition compute_deposit_aux :: "crypto \<Rightarrow> bytes \<Rightarrow> u256 \<Rightarrow> u256 \<Rightarrow> bool \<Rightarrow> u64 \<Rightarrow> fp" where
  "compute_deposit_aux H holder_account_l1 zeko_amount zeko_recipient_x zeko_recipient_is_odd timeout =
     hash_with_prefix H ''Ethereum deposit V1''
       [0,
        fp_from_address holder_account_l1,
        0,
        fp_from_u256 zeko_amount,
        fp_from_u256 zeko_recipient_x,
        fp_from_bool zeko_recipient_is_odd,
        fp_from_u64 timeout]"

definition compute_erc20_deposit_aux_v2 ::
  "crypto \<Rightarrow> u32 \<Rightarrow> bytes \<Rightarrow> bytes \<Rightarrow> bytes \<Rightarrow> u256 \<Rightarrow> u256 \<Rightarrow> bool \<Rightarrow> u64 \<Rightarrow> string + fp" where
  "compute_erc20_deposit_aux_v2 H registry_index record_commitment asset_id holder_account_l1
     zeko_amount zeko_recipient_x zeko_recipient_is_odd timeout =
     (let asset_high = u256_from_be (take 16 asset_id);
          asset_low = u256_from_be (drop 16 asset_id)
      in and_then (fp_from_bytes record_commitment) (\<lambda>commitment.
         Inr (hash_with_prefix H ''Ethereum ERC20 deposit V2''
           [fp_from_u32 ERC20_ACTION_ENCODING_V2,
            fp_from_u32 registry_index,
            commitment,
            fp_from_u256 asset_high,
            fp_from_u256 asset_low,
            0,
            fp_from_address holder_account_l1,
            0,
            fp_from_u256 zeko_amount,
            fp_from_u256 zeko_recipient_x,
            fp_from_bool zeko_recipient_is_odd,
            fp_from_u64 timeout])))"

definition compute_zeko_outer_witness_fields :: "fp \<Rightarrow> fp \<Rightarrow> u64 \<Rightarrow> u64 \<Rightarrow> fp list" where
  "compute_zeko_outer_witness_fields aux children_digest slot_range_lower slot_range_upper =
     [1, aux, children_digest, fp_from_u64 slot_range_lower, fp_from_u64 slot_range_upper]"

definition action_list_add_fields :: "crypto \<Rightarrow> fp \<Rightarrow> fp list \<Rightarrow> fp" where
  "action_list_add_fields H list_hash action_fields =
     (let event_hash = hash_with_prefix H ''MinaZkappEvent******'' action_fields
      in hash_with_prefix H ''MinaZkappSeqEvents**'' [list_hash, event_hash])"

definition merkle_actions_add :: "crypto \<Rightarrow> fp \<Rightarrow> fp \<Rightarrow> fp" where
  "merkle_actions_add H hash actions_hash =
     hash_with_prefix H ''MinaZkappSeqEvents**'' [hash, actions_hash]"

subsection \<open>One deposit\<close>

text \<open>The checks of the loop body and the amount in Zeko units they compute.\<close>

definition deposit_zeko_amount :: "bridge_deposit \<Rightarrow> string + u256" where
  "deposit_zeko_amount deposit =
     (let ethereum_amount = u256_from_bytes (bd_amount deposit) in
      ensure (ethereum_amount > 0) ''zero deposit'' (
      let is_native = (bd_token deposit = replicate 20 0) in
      if is_native then
        ensure (bd_encoding_version deposit = 0) ''native deposit encoding version must be zero'' (
        ensure (bd_asset_id deposit = replicate 32 0) ''native asset id must be zero'' (
        ensure (bd_registry_index deposit = 0) ''native deposit has a registry index'' (
        ensure (bd_record_commitment deposit = replicate 32 0)
          ''native deposit has a record commitment'' (
        ensure (ethereum_amount mod ucast WEI_PER_ZEKO_UNIT = 0)
          ''native deposit must have 1 gwei granularity'' (
        let amount = ethereum_amount div ucast WEI_PER_ZEKO_UNIT in
        ensure (amount \<le> 0xFFFFFFFFFFFFFFFF) ''native deposit exceeds Mina amount'' (
        case bd_zeko_amount deposit of
          Some supplied \<Rightarrow> ensure (amount = ucast supplied) ''native Zeko amount mismatch'' (Inr amount)
        | None \<Rightarrow> Inr amount))))))
      else
        ensure (bd_asset_id deposit \<noteq> replicate 32 0) ''ERC20 asset id must be non-zero'' (
        ensure (bd_timeout deposit = INFINITE_TIMEOUT)
          ''canonical ERC20 deposit must use infinite timeout'' (
        ensure (bd_encoding_version deposit = ERC20_ACTION_ENCODING_V2)
          ''unsupported ERC20 deposit encoding version'' (
        ensure (bd_record_commitment deposit \<noteq> replicate 32 0)
          ''registry ERC20 deposit record commitment is zero'' (
        and_then (fp_from_bytes (bd_record_commitment deposit)) (\<lambda>_.
        ensure (ethereum_amount \<le> 0xFFFFFFFFFFFFFFFF) ''ERC20 deposit exceeds Mina amount'' (
        case bd_zeko_amount deposit of
          None \<Rightarrow> Inl ''canonical ERC20 deposit is missing Zeko amount''
        | Some supplied \<Rightarrow>
            ensure (ethereum_amount = ucast supplied)
              ''canonical ERC20 deposit must preserve base units'' (Inr (ucast supplied))))))))))"

record bridge_loop =
  bl_ethereum_state :: bytes
  bl_zeko_action_state :: fp
  bl_next_nonce :: u64
  bl_emitted_actions :: "bridge_outer_action list"

definition deposit_step ::
  "crypto \<Rightarrow> ethereum_bridge_state \<Rightarrow> fp \<Rightarrow> bridge_deposit \<Rightarrow> bridge_loop \<Rightarrow> string + bridge_loop" where
  "deposit_step H eth empty_action_list_hash deposit st =
     and_then (unpack_zeko_address (bd_zeko_recipient deposit)) (\<lambda>(recipient_x, recipient_is_odd).
     and_then (deposit_zeko_amount deposit) (\<lambda>zeko_amount.
     let is_native = (bd_token deposit = replicate 20 0);
         next_nonce = bl_next_nonce st + 1;
         leaf = (if is_native
           then compute_ethereum_deposit_leaf H (eb_chain_id eth) (eb_bridge_address eth)
             (bd_token deposit) (bd_zeko_recipient deposit) zeko_amount (bd_timeout deposit) next_nonce
           else compute_ethereum_erc20_deposit_leaf_v2 H (eb_chain_id eth) (eb_bridge_address eth)
             (bd_token deposit) (bd_registry_index deposit) (bd_record_commitment deposit)
             (bd_asset_id deposit) (bd_zeko_recipient deposit) zeko_amount (bd_timeout deposit)
             next_nonce);
         ethereum_state = compute_ethereum_state H (bl_ethereum_state st) leaf
     in and_then
       (if is_native
        then Inr (compute_deposit_aux H (eb_bridge_address eth) zeko_amount recipient_x
          recipient_is_odd (bd_timeout deposit))
        else compute_erc20_deposit_aux_v2 H (bd_registry_index deposit)
          (bd_record_commitment deposit) (bd_asset_id deposit) (eb_bridge_address eth) zeko_amount
          recipient_x recipient_is_odd (bd_timeout deposit)) (\<lambda>aux.
     let action_fields = compute_zeko_outer_witness_fields aux 0 0 INFINITE_TIMEOUT;
         action_list_hash = action_list_add_fields H empty_action_list_hash action_fields;
         zeko_action_state = merkle_actions_add H (bl_zeko_action_state st) action_list_hash
     in Inr \<lparr>bl_ethereum_state = ethereum_state,
             bl_zeko_action_state = zeko_action_state,
             bl_next_nonce = next_nonce,
             bl_emitted_actions = bl_emitted_actions st @
               [\<lparr>ba_fields = map fp_to_bytes action_fields,
                 ba_state_after = fp_to_bytes zeko_action_state\<rparr>]\<rparr>)))"

fun deposit_loop ::
  "crypto \<Rightarrow> ethereum_bridge_state \<Rightarrow> fp \<Rightarrow> bridge_deposit list \<Rightarrow> bridge_loop \<Rightarrow> string + bridge_loop" where
  "deposit_loop H eth empty_hash [] st = Inr st"
| "deposit_loop H eth empty_hash (deposit # deposits) st =
     and_then (deposit_step H eth empty_hash deposit st) (deposit_loop H eth empty_hash deposits)"

definition derive_bridge_transition ::
  "crypto \<Rightarrow> bridge_transition_input \<Rightarrow> string + bridge_public_values" where
  "derive_bridge_transition H input =
     ensure (length (bi_deposits input) \<le> 0xFFFFFFFF) ''too many deposits'' (
     ensure (bi_deposits input \<noteq> []) ''empty deposit batch'' (
     let eth = bi_ethereum input; zeko = bi_zeko input in
     and_then (fp_from_bytes (zb_action_state zeko)) (\<lambda>action_state.
     let empty_action_list_hash = empty_hash_with_prefix H ''MinaZkappActionsEmpty'' in
     and_then (deposit_loop H eth empty_action_list_hash (bi_deposits input)
       \<lparr>bl_ethereum_state = eb_deposit_state eth,
        bl_zeko_action_state = action_state,
        bl_next_nonce = eb_deposit_nonce eth,
        bl_emitted_actions = []\<rparr>) (\<lambda>st.
     and_then (fp_from_bytes (zb_action_state zeko)) (\<lambda>before.
     ensure (unat (zb_action_state_length zeko) + length (bi_deposits input) < 2 ^ 32)
       ''outer action-state length overflow'' (
     Inr \<lparr>bpv_ethereum_state_before = eb_deposit_state eth,
          bpv_ethereum_state_after = bl_ethereum_state st,
          bpv_ethereum_nonce_before = eb_deposit_nonce eth,
          bpv_ethereum_nonce_after = bl_next_nonce st,
          bpv_zeko_action_state_before = fp_to_bytes before,
          bpv_zeko_action_state_after = fp_to_bytes (bl_zeko_action_state st),
          bpv_zeko_action_state_length_before = zb_action_state_length zeko,
          bpv_zeko_action_state_length_after =
            zb_action_state_length zeko + word_of_nat (length (bi_deposits input)),
          bpv_actions = bl_emitted_actions st\<rparr>))))))"

subsection \<open>The program\<close>

definition bridge_main :: "crypto \<Rightarrow> bridge_transition_input \<Rightarrow> (wire_error + string) + bytes" where
  "bridge_main H input =
     (case derive_bridge_transition H input of
        Inl e \<Rightarrow> Inl (Inr e)
      | Inr public_values \<Rightarrow>
          (case encode_bridge public_values of Inl e \<Rightarrow> Inl (Inl e) | Inr bs \<Rightarrow> Inr bs))"


subsection \<open>What a deposit must satisfy\<close>

text \<open>
  The specification of a deposit over the naturals: which deposits are acceptable and how many
  Zeko units they credit (wei divided by \<open>10 ^ 9\<close> for native ETH, base units for an ERC-20).
\<close>

definition is_native_deposit :: "bridge_deposit \<Rightarrow> bool" where
  "is_native_deposit d \<longleftrightarrow> bd_token d = replicate 20 0"

definition zeko_units :: "bridge_deposit \<Rightarrow> nat" where
  "zeko_units d =
     (if is_native_deposit d then of_be (bd_amount d) div 10 ^ 9 else of_be (bd_amount d))"

definition valid_amount :: "bridge_deposit \<Rightarrow> bool" where
  "valid_amount d \<longleftrightarrow> 0 < of_be (bd_amount d) \<and> zeko_units d < 2 ^ 64 \<and>
     (if is_native_deposit d
      then 10 ^ 9 dvd of_be (bd_amount d) \<and> bd_encoding_version d = 0 \<and>
        bd_asset_id d = replicate 32 0 \<and> bd_registry_index d = 0 \<and>
        bd_record_commitment d = replicate 32 0 \<and>
        (bd_zeko_amount d = None \<or> bd_zeko_amount d = Some (word_of_nat (zeko_units d)))
      else bd_asset_id d \<noteq> replicate 32 0 \<and> bd_timeout d = 0xFFFFFFFF \<and>
        bd_encoding_version d = 2 \<and> bd_record_commitment d \<noteq> replicate 32 0 \<and>
        of_be (bd_record_commitment d) < fp_modulus \<and>
        bd_zeko_amount d = Some (word_of_nat (zeko_units d)))"

definition valid_recipient :: "bytes \<Rightarrow> bool" where
  "valid_recipient r \<longleftrightarrow> of_be r mod 2 ^ 255 < fp_modulus"

lemma unat_ucast_u64: "unat (ucast (w :: u64) :: u256) = unat w"
  by (simp add: unsigned_ucast_eq take_bit_nat_eq_self less_trans [OF unat_less_pow])

lemma unat_field_order: "unat field_order = fp_modulus"
  by (simp add: field_order_def fp_modulus_def)

lemma unat_and_mask255: "unat ((x :: u256) AND (push_bit 255 1 - 1)) = unat x mod 2 ^ 255"
proof -
  have "(push_bit 255 1 - 1 :: u256) = mask 255"
    by (simp only: mask_eq_exp_minus_1 push_bit_of_1)
  then have "unat (x AND (push_bit 255 1 - 1)) = unat (take_bit 255 x)"
    by (simp only: take_bit_eq_mask)
  also have "\<dots> = take_bit 255 (unat x)"
    by (rule unsigned_take_bit_eq)
  finally show ?thesis by (simp only: take_bit_eq_mod)
qed

lemma unpack_zeko_address_eq:
  assumes "length r = 32"
  shows "unpack_zeko_address r =
    (if valid_recipient r
     then Inr (word_of_nat (of_be r mod 2 ^ 255), r ! 0 AND 0x80 \<noteq> 0)
     else Inl ''invalid zeko address field'')"
proof -
  let ?x = "u256_from_be r AND (push_bit 255 1 - 1)"
  have x: "unat ?x = of_be r mod 2 ^ 255"
    unfolding unat_and_mask255 using assms by (simp add: unat_uN_from_be)
  have "word_of_nat (unat ?x) = ?x" by (simp del: push_bit_of_1)
  then have "?x = word_of_nat (of_be r mod 2 ^ 255)" unfolding x by (rule sym)
  moreover have "?x < field_order \<longleftrightarrow> valid_recipient r"
    by (simp only: word_less_nat_alt x unat_field_order valid_recipient_def)
  ultimately show ?thesis
    by (simp add: unpack_zeko_address_def Let_def ensure_def del: push_bit_of_1)
qed

lemma deposit_zeko_amount_Inr:
  assumes "wf_bridge_deposit d"
  shows "deposit_zeko_amount d = Inr a \<longleftrightarrow> valid_amount d \<and> unat a = zeko_units d"
proof -
  let ?w = "u256_from_bytes (bd_amount d)" and ?n = "of_be (bd_amount d)"
  have n: "unat ?w = ?n"
    using assms by (simp add: u256_from_bytes_def unat_uN_from_be wf_bridge_deposit_def)
  have pos: "?w > 0 \<longleftrightarrow> ?n > 0" by (simp only: word_less_nat_alt n unsigned_0)
  have gwei: "?w mod ucast WEI_PER_ZEKO_UNIT = 0 \<longleftrightarrow> 10 ^ 9 dvd ?n"
    by (simp add: word_unat_eq_iff unat_mod_distrib n WEI_PER_ZEKO_UNIT_def dvd_eq_mod_eq_0)
  have units: "unat (?w div ucast WEI_PER_ZEKO_UNIT) = ?n div 10 ^ 9"
    by (simp add: unat_div_distrib n WEI_PER_ZEKO_UNIT_def)
  have le: "x \<le> 0xFFFFFFFFFFFFFFFF \<longleftrightarrow> unat x < 2 ^ 64" for x :: u256
    by (simp add: word_le_nat_alt less_Suc_eq_le flip: Suc_le_eq)
  show ?thesis
  proof (cases "is_native_deposit d")
    case True
    then show ?thesis
      by (simp add: deposit_zeko_amount_def Let_def pos gwei le units is_native_deposit_def
          valid_amount_def zeko_units_def res_simps split: option.splits)
        (auto simp: word_unat_eq_iff units unat_ucast_u64 unat_of_nat take_bit_nat_eq_self)
  next
    case False
    have "(\<exists>x. fp_from_bytes (bd_record_commitment d) = Inr x) \<longleftrightarrow> of_be (bd_record_commitment d) < fp_modulus"
      using assms by (simp add: fp_from_bytes_eq field_from_bytes_cases wf_bridge_deposit_def)
    with False show ?thesis
      by (simp add: deposit_zeko_amount_def Let_def pos le n is_native_deposit_def
          valid_amount_def zeko_units_def res_simps INFINITE_TIMEOUT_def
          ERC20_ACTION_ENCODING_V2_def split: option.splits)
        (auto simp: word_unat_eq_iff n unat_ucast_u64 unat_of_nat take_bit_nat_eq_self)
  qed
qed


subsection \<open>The transition a batch stands for\<close>

definition valid_deposit :: "bridge_deposit \<Rightarrow> bool" where
  "valid_deposit d \<longleftrightarrow> valid_recipient (bd_zeko_recipient d) \<and> valid_amount d"

definition deposit_leaf :: "crypto \<Rightarrow> ethereum_bridge_state \<Rightarrow> bridge_deposit \<Rightarrow> u64 \<Rightarrow> bytes" where
  "deposit_leaf H eth d nonce =
     (if is_native_deposit d
      then compute_ethereum_deposit_leaf H (eb_chain_id eth) (eb_bridge_address eth) (bd_token d)
        (bd_zeko_recipient d) (word_of_nat (zeko_units d)) (bd_timeout d) nonce
      else compute_ethereum_erc20_deposit_leaf_v2 H (eb_chain_id eth) (eb_bridge_address eth)
        (bd_token d) (bd_registry_index d) (bd_record_commitment d) (bd_asset_id d)
        (bd_zeko_recipient d) (word_of_nat (zeko_units d)) (bd_timeout d) nonce)"

definition deposit_aux :: "crypto \<Rightarrow> ethereum_bridge_state \<Rightarrow> bridge_deposit \<Rightarrow> fp" where
  "deposit_aux H eth d =
     (let x = word_of_nat (of_be (bd_zeko_recipient d) mod 2 ^ 255);
          is_odd = (bd_zeko_recipient d ! 0 AND 0x80 \<noteq> 0)
      in if is_native_deposit d
         then compute_deposit_aux H (eb_bridge_address eth) (word_of_nat (zeko_units d)) x is_odd
           (bd_timeout d)
         else projr (compute_erc20_deposit_aux_v2 H (bd_registry_index d) (bd_record_commitment d)
           (bd_asset_id d) (eb_bridge_address eth) (word_of_nat (zeko_units d)) x is_odd
           (bd_timeout d)))"

definition deposit_action :: "crypto \<Rightarrow> ethereum_bridge_state \<Rightarrow> bridge_deposit \<Rightarrow> fp list" where
  "deposit_action H eth d = [1, deposit_aux H eth d, 0, 0, fp_of_nat (2 ^ 32 - 1)]"

definition zeko_push :: "crypto \<Rightarrow> ethereum_bridge_state \<Rightarrow> fp \<Rightarrow> bridge_deposit \<Rightarrow> fp" where
  "zeko_push H eth s d =
     merkle_actions_add H s (action_list_add_fields H
       (empty_hash_with_prefix H ''MinaZkappActionsEmpty'') (deposit_action H eth d))"

definition zeko_replay :: "crypto \<Rightarrow> ethereum_bridge_state \<Rightarrow> fp \<Rightarrow> bridge_deposit list \<Rightarrow> fp" where
  "zeko_replay H eth s ds = foldl (zeko_push H eth) s ds"

fun ethereum_replay ::
  "crypto \<Rightarrow> ethereum_bridge_state \<Rightarrow> bytes \<Rightarrow> u64 \<Rightarrow> bridge_deposit list \<Rightarrow> bytes" where
  "ethereum_replay H eth s nonce [] = s"
| "ethereum_replay H eth s nonce (d # ds) =
     ethereum_replay H eth (compute_ethereum_state H s (deposit_leaf H eth d (nonce + 1))) (nonce + 1) ds"

fun emitted_actions ::
  "crypto \<Rightarrow> ethereum_bridge_state \<Rightarrow> fp \<Rightarrow> bridge_deposit list \<Rightarrow> bridge_outer_action list" where
  "emitted_actions H eth s [] = []"
| "emitted_actions H eth s (d # ds) =
     \<lparr>ba_fields = map fp_to_bytes (deposit_action H eth d),
      ba_state_after = fp_to_bytes (zeko_push H eth s d)\<rparr> #
     emitted_actions H eth (zeko_push H eth s d) ds"

definition apply_deposit ::
  "crypto \<Rightarrow> ethereum_bridge_state \<Rightarrow> bridge_loop \<Rightarrow> bridge_deposit \<Rightarrow> bridge_loop" where
  "apply_deposit H eth st d =
     \<lparr>bl_ethereum_state =
        compute_ethereum_state H (bl_ethereum_state st) (deposit_leaf H eth d (bl_next_nonce st + 1)),
      bl_zeko_action_state = zeko_push H eth (bl_zeko_action_state st) d,
      bl_next_nonce = bl_next_nonce st + 1,
      bl_emitted_actions = bl_emitted_actions st @
        [\<lparr>ba_fields = map fp_to_bytes (deposit_action H eth d),
          ba_state_after = fp_to_bytes (zeko_push H eth (bl_zeko_action_state st) d)\<rparr>]\<rparr>"

lemma fp_infinite_timeout: "fp_from_u64 INFINITE_TIMEOUT = fp_of_nat (2 ^ 32 - 1)"
  by (simp add: fp_from_u64_def INFINITE_TIMEOUT_def)

lemma fp_from_u64_0 [simp]: "fp_from_u64 0 = 0"
  by (simp add: fp_from_u64_def)

lemma deposit_step_eq:
  assumes "wf_bridge_deposit d"
    and "e = empty_hash_with_prefix H ''MinaZkappActionsEmpty''"
  shows "deposit_step H eth e d st =
    (if valid_deposit d then Inr (apply_deposit H eth st d)
     else Inl (projl (deposit_step H eth e d st)))"
proof (cases "valid_deposit d")
  case True
  have valid: "valid_amount d" "zeko_units d < 2 ^ 64"
    using True unfolding valid_deposit_def valid_amount_def by blast+
  then have "unat (word_of_nat (zeko_units d) :: u256) = zeko_units d"
    by (simp add: unat_of_nat take_bit_nat_eq_self)
  with valid(1) have amount: "deposit_zeko_amount d = Inr (word_of_nat (zeko_units d))"
    by (simp only: deposit_zeko_amount_Inr [OF assms(1)])
  have commitment: "\<not> is_native_deposit d \<Longrightarrow>
      \<exists>c. compute_erc20_deposit_aux_v2 H i (bd_record_commitment d) a b z x p t = Inr c" for i a b z x p t
    using True assms
    by (simp add: compute_erc20_deposit_aux_v2_def Let_def fp_from_bytes_eq field_from_bytes_cases
        wf_bridge_deposit_def valid_deposit_def valid_amount_def)
  show ?thesis
  proof (cases "is_native_deposit d")
    case native: True
    then show ?thesis
      using True assms amount
      by (simp add: deposit_step_def unpack_zeko_address_eq wf_bridge_deposit_def valid_deposit_def
          Let_def apply_deposit_def zeko_push_def deposit_action_def deposit_aux_def deposit_leaf_def
          compute_zeko_outer_witness_fields_def fp_infinite_timeout flip: is_native_deposit_def)
  next
    case erc20: False
    from commitment [OF this] obtain c where
      c: "compute_erc20_deposit_aux_v2 H (bd_registry_index d) (bd_record_commitment d)
        (bd_asset_id d) (eb_bridge_address eth) (word_of_nat (zeko_units d))
        (word_of_nat (of_be (bd_zeko_recipient d) mod 2 ^ 255))
        (bd_zeko_recipient d ! 0 AND 0x80 \<noteq> 0) (bd_timeout d) = Inr c" by blast
    show ?thesis
      using True assms amount erc20 c
      by (simp add: deposit_step_def unpack_zeko_address_eq wf_bridge_deposit_def valid_deposit_def
          Let_def apply_deposit_def zeko_push_def deposit_action_def deposit_aux_def deposit_leaf_def
          compute_zeko_outer_witness_fields_def fp_infinite_timeout flip: is_native_deposit_def)
  qed
next
  case False
  have "deposit_step H eth e d st \<noteq> Inr st'" for st'
    using False assms deposit_zeko_amount_Inr [OF assms(1)]
    by (auto simp: deposit_step_def res_simps unpack_zeko_address_eq valid_deposit_def
        wf_bridge_deposit_def split: if_splits)
  then show ?thesis using False by (cases "deposit_step H eth e d st") auto
qed

lemma deposit_loop_Inr:
  assumes "list_all wf_bridge_deposit ds"
    and "e = empty_hash_with_prefix H ''MinaZkappActionsEmpty''"
  shows "deposit_loop H eth e ds st = Inr st' \<longleftrightarrow>
    list_all valid_deposit ds \<and> st' = foldl (apply_deposit H eth) st ds"
  using assms(1)
proof (induction ds arbitrary: st)
  case (Cons d ds)
  then show ?case
    using deposit_step_eq [of d e H eth st] assms(2)
    by (cases "valid_deposit d") (auto simp: and_then_def split: sum.splits)
qed auto

lemma foldl_apply_deposit:
  "bl_ethereum_state (foldl (apply_deposit H eth) st ds) =
     ethereum_replay H eth (bl_ethereum_state st) (bl_next_nonce st) ds"
  "bl_zeko_action_state (foldl (apply_deposit H eth) st ds) =
     zeko_replay H eth (bl_zeko_action_state st) ds"
  "bl_next_nonce (foldl (apply_deposit H eth) st ds) = bl_next_nonce st + word_of_nat (length ds)"
  "bl_emitted_actions (foldl (apply_deposit H eth) st ds) = bl_emitted_actions st @
     emitted_actions H eth (bl_zeko_action_state st) ds"
proof (induction ds arbitrary: st)
  case (Cons d ds)
  { case 1 show ?case by (simp add: Cons.IH) (simp add: apply_deposit_def) }
  { case 2 show ?case by (simp add: Cons.IH) (simp add: apply_deposit_def zeko_replay_def) }
  { case 3 show ?case by (simp add: Cons.IH) (simp add: apply_deposit_def algebra_simps) }
  { case 4 show ?case by (simp add: Cons.IH) (simp add: apply_deposit_def) }
qed (simp_all add: zeko_replay_def)

definition bridge_output ::
  "crypto \<Rightarrow> bridge_transition_input \<Rightarrow> bridge_public_values" where
  "bridge_output H input =
     (let eth = bi_ethereum input; zeko = bi_zeko input; ds = bi_deposits input;
          s = fp_of_nat (of_be (zb_action_state zeko))
      in \<lparr>bpv_ethereum_state_before = eb_deposit_state eth,
          bpv_ethereum_state_after =
            ethereum_replay H eth (eb_deposit_state eth) (eb_deposit_nonce eth) ds,
          bpv_ethereum_nonce_before = eb_deposit_nonce eth,
          bpv_ethereum_nonce_after = eb_deposit_nonce eth + word_of_nat (length ds),
          bpv_zeko_action_state_before = zb_action_state zeko,
          bpv_zeko_action_state_after = fp_to_bytes (zeko_replay H eth s ds),
          bpv_zeko_action_state_length_before = zb_action_state_length zeko,
          bpv_zeko_action_state_length_after =
            zb_action_state_length zeko + word_of_nat (length ds),
          bpv_actions = emitted_actions H eth s ds\<rparr>)"

definition bridge_accepts :: "bridge_transition_input \<Rightarrow> bool" where
  "bridge_accepts input \<longleftrightarrow> bi_deposits input \<noteq> [] \<and>
     of_be (zb_action_state (bi_zeko input)) < fp_modulus \<and>
     list_all valid_deposit (bi_deposits input) \<and>
     unat (zb_action_state_length (bi_zeko input)) + length (bi_deposits input) < 2 ^ 32"

lemma derive_bridge_transition_Inr:
  assumes "wf_bridge_input input"
  shows "derive_bridge_transition H input = Inr out \<longleftrightarrow>
    bridge_accepts input \<and> out = bridge_output H input"
proof -
  let ?z = "zb_action_state (bi_zeko input)"
  have wf: "length ?z = 32" "list_all wf_bridge_deposit (bi_deposits input)"
    using assms by (simp_all add: wf_bridge_input_def)
  show ?thesis
  proof (cases "of_be ?z < fp_modulus")
    case True
    then have z: "fp_from_bytes ?z = Inr (fp_of_nat (of_be ?z))"
      "fp_to_bytes (fp_of_nat (of_be ?z)) = ?z"
      using wf by (simp_all add: fp_from_bytes_eq field_from_bytes_cases fp_to_bytes_eq
          field_to_bytes_eq be_bytes_of_be)
    show ?thesis
      using True
      by (auto simp: derive_bridge_transition_def Let_def res_simps z deposit_loop_Inr [OF wf(2)]
          foldl_apply_deposit bridge_accepts_def bridge_output_def)
  next
    case False
    then show ?thesis
      using wf by (simp add: derive_bridge_transition_def Let_def res_simps fp_from_bytes_eq
          field_from_bytes_cases bridge_accepts_def)
  qed
qed

subsection \<open>The deposit accumulator\<close>

definition state_preimage :: "crypto \<Rightarrow> bytes \<Rightarrow> bytes \<Rightarrow> bytes" where
  "state_preimage H s l = keccak_str H ''ZEKO_BRIDGE_DEPOSIT_STATE_V1'' @ s @ l"

interpretation deposits: hash_chain "compute_ethereum_state H" "keccak256 H" "state_preimage H"
  "\<lambda>s. length s = 32" "\<lambda>l. length l = 32" for H
  by unfold_locales (auto simp: compute_ethereum_state_def state_preimage_def)

fun deposit_leaves :: "crypto \<Rightarrow> ethereum_bridge_state \<Rightarrow> u64 \<Rightarrow> bridge_deposit list \<Rightarrow> bytes list" where
  "deposit_leaves H eth nonce [] = []"
| "deposit_leaves H eth nonce (d # ds) = deposit_leaf H eth d (nonce + 1) # deposit_leaves H eth (nonce + 1) ds"

lemma ethereum_replay_chain:
  "ethereum_replay H eth s nonce ds = chain (compute_ethereum_state H) s (deposit_leaves H eth nonce ds)"
  by (induction ds arbitrary: s nonce) simp_all

lemma length_deposit_leaves [simp]: "length (deposit_leaves H eth nonce ds) = length ds"
  by (induction ds arbitrary: nonce) simp_all

lemma length_keccak_str: "(\<And>x. length (keccak256 H x) = 32) \<Longrightarrow> length (keccak_str H s) = 32"
  by (simp add: keccak_str_def)

lemma length_ethereum_replay:
  "(\<And>x. length (keccak256 H x) = 32) \<Longrightarrow> length s = 32 \<Longrightarrow> length (ethereum_replay H eth s nonce ds) = 32"
  unfolding ethereum_replay_chain by (rule deposits.chain_wf)

text \<open>The byte string a leaf hashes, and what of a deposit it holds.\<close>

definition leaf_preimage :: "crypto \<Rightarrow> ethereum_bridge_state \<Rightarrow> bridge_deposit \<Rightarrow> u64 \<Rightarrow> bytes" where
  "leaf_preimage H eth d nonce =
     (if is_native_deposit d
      then keccak_str H ''ZEKO_BRIDGE_DEPOSIT_LEAF_V1'' @ u64_word (eb_chain_id eth) @
        address_word (eb_bridge_address eth) @ address_word (bd_token d) @ bd_zeko_recipient d @
        u256_to_bytes (word_of_nat (zeko_units d)) @ u64_word (bd_timeout d) @ u64_word nonce
      else keccak_str H ''ZEKO_ERC20_DEPOSIT_LEAF_V3'' @ u64_word (eb_chain_id eth) @
        address_word (eb_bridge_address eth) @ address_word (bd_token d) @
        u32_word ERC20_ACTION_ENCODING_V2 @ u32_word (bd_registry_index d) @
        bd_record_commitment d @ bd_asset_id d @ bd_zeko_recipient d @
        u256_to_bytes (word_of_nat (zeko_units d)) @ u64_word (bd_timeout d) @ u64_word nonce)"

lemma deposit_leaf_preimage: "deposit_leaf H eth d nonce = keccak256 H (leaf_preimage H eth d nonce)"
  by (simp add: deposit_leaf_def leaf_preimage_def compute_ethereum_deposit_leaf_def
      compute_ethereum_erc20_deposit_leaf_v2_def)

fun leaf_preimages :: "crypto \<Rightarrow> ethereum_bridge_state \<Rightarrow> u64 \<Rightarrow> bridge_deposit list \<Rightarrow> bytes list" where
  "leaf_preimages H eth nonce [] = []"
| "leaf_preimages H eth nonce (d # ds) =
     leaf_preimage H eth d (nonce + 1) # leaf_preimages H eth (nonce + 1) ds"

definition batch_preimages :: "crypto \<Rightarrow> bridge_transition_input \<Rightarrow> bytes set" where
  "batch_preimages H input =
     (let eth = bi_ethereum input; ds = bi_deposits input in
      set (chain_inputs (compute_ethereum_state H) (state_preimage H) (eb_deposit_state eth)
        (deposit_leaves H eth (eb_deposit_nonce eth) ds)) \<union>
      set (leaf_preimages H eth (eb_deposit_nonce eth) ds))"

definition same_deposit :: "bridge_deposit \<Rightarrow> bridge_deposit \<Rightarrow> bool" where
  "same_deposit d d' \<longleftrightarrow> bd_token d = bd_token d' \<and> bd_zeko_recipient d = bd_zeko_recipient d' \<and>
     bd_amount d = bd_amount d' \<and> bd_timeout d = bd_timeout d' \<and>
     bd_asset_id d = bd_asset_id d' \<and> bd_registry_index d = bd_registry_index d' \<and>
     bd_record_commitment d = bd_record_commitment d'"

lemma units_determine_amount:
  assumes "wf_bridge_deposit d" "wf_bridge_deposit d'" "valid_amount d" "valid_amount d'"
    and "is_native_deposit d = is_native_deposit d'"
    and "(word_of_nat (zeko_units d) :: u256) = word_of_nat (zeko_units d')"
  shows "bd_amount d = bd_amount d'"
proof -
  have "zeko_units d < 2 ^ 64" "zeko_units d' < 2 ^ 64"
    using assms(3,4) unfolding valid_amount_def by blast+
  then have units: "zeko_units d = zeko_units d'"
    using assms(6) by (simp add: word_unat_eq_iff unat_of_nat take_bit_nat_eq_self)
  have amt: "of_be (bd_amount x) = zeko_units x * (if is_native_deposit x then 10 ^ 9 else 1)"
    if "valid_amount x" for x
    using that unfolding valid_amount_def zeko_units_def by (auto simp: dvd_div_mult_self)
  have "of_be (bd_amount d) = of_be (bd_amount d')"
    using amt [OF assms(3)] amt [OF assms(4)] units assms(5) by simp
  then show ?thesis
    using assms(1,2) of_be_inject [of "bd_amount d" "bd_amount d'"] by (simp add: wf_bridge_deposit_def)
qed

lemma u256_to_bytes_inject [simp]: "u256_to_bytes a = u256_to_bytes b \<longleftrightarrow> a = b"
  unfolding u256_to_bytes_def by (metis uN_from_to_be(4))

lemma length_u256_to_bytes [simp]: "length (u256_to_bytes a) = 32"
  by (simp add: u256_to_bytes_def)

lemma length_leaf_preimage:
  assumes "\<And>x. length (keccak256 H x) = 32" "length (eb_bridge_address eth) = 20" "wf_bridge_deposit d"
  shows "length (leaf_preimage H eth d nonce) = (if is_native_deposit d then 256 else 384)"
  using assms by (simp add: leaf_preimage_def length_keccak_str wf_bridge_deposit_def)

lemma leaf_preimage_inject:
  assumes keccak: "\<And>x. length (keccak256 H x) = 32"
    and wf: "length (eb_bridge_address eth) = 20" "length (eb_bridge_address eth') = 20"
      "wf_bridge_deposit d" "wf_bridge_deposit d'" "valid_amount d" "valid_amount d'"
    and eq: "leaf_preimage H eth d nonce = leaf_preimage H eth' d' nonce'"
  shows "same_deposit d d' \<and> nonce = nonce' \<and> eb_chain_id eth = eb_chain_id eth' \<and>
    eb_bridge_address eth = eb_bridge_address eth'"
proof -
  have native: "is_native_deposit d = is_native_deposit d'"
    using eq length_leaf_preimage [OF keccak wf(1,3), of nonce]
      length_leaf_preimage [OF keccak wf(2,4), of nonce'] by (auto split: if_splits)
  have sizes: "length (bd_zeko_recipient d) = 32" "length (bd_zeko_recipient d') = 32"
    "length (bd_record_commitment d) = 32" "length (bd_record_commitment d') = 32"
    "length (bd_asset_id d) = 32" "length (bd_asset_id d') = 32"
    "length (address_word (bd_token d)) = 32" "length (address_word (bd_token d')) = 32"
    "length (address_word (eb_bridge_address eth)) = 32" "length (address_word (eb_bridge_address eth')) = 32"
    using wf(1-4) by (simp_all add: wf_bridge_deposit_def)
  have "same_deposit d d' \<and> nonce = nonce' \<and> eb_chain_id eth = eb_chain_id eth' \<and>
    eb_bridge_address eth = eb_bridge_address eth'"
    if amount: "(word_of_nat (zeko_units d) :: u256) = word_of_nat (zeko_units d') \<Longrightarrow>
      bd_amount d = bd_amount d'"
  proof (cases "is_native_deposit d")
    case True
    then have "is_native_deposit d'" using native by simp
    with True have "same_deposit d d' \<longleftrightarrow> bd_token d = bd_token d' \<and> bd_zeko_recipient d = bd_zeko_recipient d' \<and>
        bd_amount d = bd_amount d' \<and> bd_timeout d = bd_timeout d'"
      using wf(5,6) unfolding valid_amount_def same_deposit_def by simp
    then show ?thesis
      using eq amount True \<open>is_native_deposit d'\<close>
      by (simp only: leaf_preimage_def if_True append_eq_append_conv sizes length_words
          length_u256_to_bytes words_inject u256_to_bytes_inject simp_thms)
  next
    case False
    then have "\<not> is_native_deposit d'" using native by simp
    then show ?thesis
      using eq amount False
      by (simp only: leaf_preimage_def if_False append_eq_append_conv sizes length_words
          length_u256_to_bytes words_inject u256_to_bytes_inject same_deposit_def simp_thms)
  qed
  with units_determine_amount [OF wf(3-6) native] show ?thesis by simp
qed

lemma leaves_determine_deposits:
  assumes keccak: "\<And>x. length (keccak256 H x) = 32"
    and addr: "length (eb_bridge_address eth) = 20" "length (eb_bridge_address eth') = 20"
    and "length ds = length ds'" and "deposit_leaves H eth nonce ds = deposit_leaves H eth' nonce' ds'"
    and "inj_on (keccak256 H) (set (leaf_preimages H eth nonce ds) \<union> set (leaf_preimages H eth' nonce' ds'))"
    and "list_all wf_bridge_deposit ds" "list_all wf_bridge_deposit ds'"
    and "list_all valid_deposit ds" "list_all valid_deposit ds'"
  shows "list_all2 same_deposit ds ds'"
  using assms(4-10)
proof (induction ds ds' arbitrary: nonce nonce' rule: list_induct2)
  case (Cons d ds d' ds')
  have "keccak256 H (leaf_preimage H eth d (nonce + 1)) = keccak256 H (leaf_preimage H eth' d' (nonce' + 1))"
    using Cons.prems(1) by (simp add: deposit_leaf_preimage)
  then have "leaf_preimage H eth d (nonce + 1) = leaf_preimage H eth' d' (nonce' + 1)"
    by (rule inj_onD [OF Cons.prems(2)]) simp_all
  then have "same_deposit d d'"
    using leaf_preimage_inject [OF keccak addr, of d d'] Cons.prems by (simp add: valid_deposit_def)
  moreover have "inj_on (keccak256 H) (set (leaf_preimages H eth (nonce + 1) ds) \<union>
      set (leaf_preimages H eth' (nonce' + 1) ds'))"
    using Cons.prems(2) by (rule inj_on_subset) auto
  ultimately show ?case using Cons.IH [of "nonce + 1" "nonce' + 1"] Cons.prems by simp
qed simp

subsection \<open>Batches in sequence\<close>

text \<open>The input of the batch that follows a receipt, and the receipt of two batches in sequence.\<close>

definition next_input ::
  "bridge_transition_input \<Rightarrow> bridge_public_values \<Rightarrow> bridge_deposit list \<Rightarrow> bridge_transition_input" where
  "next_input input a ds =
     \<lparr>bi_ethereum = (bi_ethereum input)\<lparr>eb_deposit_nonce := bpv_ethereum_nonce_after a,
        eb_deposit_state := bpv_ethereum_state_after a\<rparr>,
      bi_zeko = \<lparr>zb_action_state = bpv_zeko_action_state_after a,
        zb_action_state_length = bpv_zeko_action_state_length_after a\<rparr>,
      bi_deposits = ds\<rparr>"

definition join_receipts :: "bridge_public_values \<Rightarrow> bridge_public_values \<Rightarrow> bridge_public_values" where
  "join_receipts a b = b
     \<lparr>bpv_ethereum_state_before := bpv_ethereum_state_before a,
      bpv_ethereum_nonce_before := bpv_ethereum_nonce_before a,
      bpv_zeko_action_state_before := bpv_zeko_action_state_before a,
      bpv_zeko_action_state_length_before := bpv_zeko_action_state_length_before a,
      bpv_actions := bpv_actions a @ bpv_actions b\<rparr>"

text \<open>Only the chain id and the bridge address of the Ethereum state enter a leaf or an action.\<close>

lemma deposit_leaf_cong:
  "deposit_leaf H (eth\<lparr>eb_deposit_nonce := n, eb_deposit_state := s\<rparr>) = deposit_leaf H eth"
  "deposit_action H (eth\<lparr>eb_deposit_nonce := n, eb_deposit_state := s\<rparr>) = deposit_action H eth"
  "zeko_push H (eth\<lparr>eb_deposit_nonce := n, eb_deposit_state := s\<rparr>) = zeko_push H eth"
  by (simp_all add: fun_eq_iff deposit_leaf_def deposit_action_def deposit_aux_def zeko_push_def Let_def)

lemma replay_cong:
  "ethereum_replay H (eth\<lparr>eb_deposit_nonce := n, eb_deposit_state := s\<rparr>) t k ds = ethereum_replay H eth t k ds"
  "emitted_actions H (eth\<lparr>eb_deposit_nonce := n, eb_deposit_state := s\<rparr>) z ds = emitted_actions H eth z ds"
  "zeko_replay H (eth\<lparr>eb_deposit_nonce := n, eb_deposit_state := s\<rparr>) z ds = zeko_replay H eth z ds"
  by (induction ds arbitrary: t k z) (simp_all add: deposit_leaf_cong zeko_replay_def)

lemma ethereum_replay_append:
  "ethereum_replay H eth s n (xs @ ys) =
     ethereum_replay H eth (ethereum_replay H eth s n xs) (n + word_of_nat (length xs)) ys"
  by (induction xs arbitrary: s n) (simp_all add: algebra_simps)

lemma zeko_replay_append:
  "zeko_replay H eth s (xs @ ys) = zeko_replay H eth (zeko_replay H eth s xs) ys"
  by (simp add: zeko_replay_def)

lemma emitted_actions_append:
  "emitted_actions H eth s (xs @ ys) =
     emitted_actions H eth s xs @ emitted_actions H eth (zeko_replay H eth s xs) ys"
  by (induction xs arbitrary: s) (simp_all add: zeko_replay_def)

lemma length_emitted_actions [simp]: "length (emitted_actions H eth s ds) = length ds"
  by (induction ds arbitrary: s) simp_all

lemma emitted_actions_nth:
  "i < length ds \<Longrightarrow> emitted_actions H eth s ds ! i =
     \<lparr>ba_fields = map fp_to_bytes (deposit_action H eth (ds ! i)),
      ba_state_after = fp_to_bytes (zeko_replay H eth s (take (Suc i) ds))\<rparr>"
  by (induction ds arbitrary: s i) (auto simp: nth_Cons zeko_replay_def split: nat.split)

lemma fp_of_fp_to_bytes: "fp_of_nat (of_be (fp_to_bytes x)) = x"
  by (simp add: fp_to_bytes_eq)

lemma bridge_output_append:
  assumes "bi_deposits input = xs @ ys"
  shows "bridge_output H input =
    (let a = bridge_output H (input\<lparr>bi_deposits := xs\<rparr>)
     in join_receipts a (bridge_output H (next_input input a ys)))"
  by (simp add: bridge_output_def join_receipts_def next_input_def Let_def assms
      ethereum_replay_append zeko_replay_append emitted_actions_append replay_cong
      fp_of_fp_to_bytes add.assoc)

lemma wf_bridge_output:
  assumes "wf_bridge_input input" "bridge_accepts input" "\<And>x. length (keccak256 H x) = 32"
  shows "wf_bridge_public_values (bridge_output H input)"
proof -
  have "list_all wf_action (emitted_actions H eth s ds)" for eth s ds
    by (induction ds arbitrary: s) (simp_all add: wf_action_def deposit_action_def fp_to_bytes_eq)
  then show ?thesis
    using assms
    by (simp add: wf_bridge_public_values_def bridge_output_def bridge_accepts_def wf_bridge_input_def
        Let_def length_ethereum_replay fp_to_bytes_eq)
qed

lemma bridge_accepts_append:
  assumes "bi_deposits input = xs @ ys" "bridge_accepts (input\<lparr>bi_deposits := xs\<rparr>)" "ys \<noteq> []"
  shows "bridge_accepts input \<longleftrightarrow>
    bridge_accepts (next_input input (bridge_output H (input\<lparr>bi_deposits := xs\<rparr>)) ys)"
proof -
  let ?n = "zb_action_state_length (bi_zeko input)"
  have "unat ?n + length xs < 2 ^ 32" using assms(2) by (simp add: bridge_accepts_def)
  then have "unat (?n + word_of_nat (length xs)) = unat ?n + length xs"
    by (simp add: unat_word_ariths unat_of_nat take_bit_nat_eq_self)
  then show ?thesis
    using assms
    by (auto simp: bridge_accepts_def next_input_def bridge_output_def Let_def fp_to_bytes_eq
        nat_of_fp_less)
qed

subsection \<open>Properties\<close>

text \<open>
  C2: the bridge guest is exact.  It publishes a receipt precisely for the acceptable inputs (a
  non-empty batch of valid deposits, a canonical action state, no overflow of the 32-bit action
  length), and decoding the published bytes gives the specified transition: the Keccak deposit
  accumulator and the Poseidon action state after replaying every deposit in order, the nonce and
  the action length advanced by the number of deposits, and per deposit its outer Witness action
  with the action state right after it.
\<close>

theorem bridge_main_exact:
  assumes "wf_bridge_input input" and "\<And>x. length (keccak256 H x) = 32"
  shows "bridge_main H input = Inr bs \<longleftrightarrow>
    bridge_accepts input \<and> decode_bridge bs = Inr (bridge_output H input)"
proof (cases "bridge_accepts input")
  case True
  then show ?thesis
    using wf_bridge_output [OF assms(1) True assms(2)]
    by (simp add: bridge_main_def bridge.dec_iff_enc derive_bridge_transition_Inr [OF assms(1), THEN iffD2]
        split: sum.splits)
next
  case False
  then show ?thesis
    using derive_bridge_transition_Inr [OF assms(1), of H] by (simp add: bridge_main_def split: sum.splits)
qed

definition sample_deposit :: "u64 \<Rightarrow> bridge_deposit" where
  "sample_deposit timeout =
     \<lparr>bd_token = replicate 20 0, bd_asset_id = replicate 32 0, bd_encoding_version = 0,
      bd_registry_index = 0, bd_record_commitment = replicate 32 0,
      bd_amount = replicate 27 0 @ [1, 0x2A, 5, 0xF2, 0], bd_zeko_amount = Some 5,
      bd_zeko_recipient = 0x80 # replicate 30 0 @ [7], bd_timeout = timeout\<rparr>"

definition sample_erc20_deposit :: bridge_deposit where
  "sample_erc20_deposit =
     \<lparr>bd_token = replicate 20 9, bd_asset_id = replicate 32 3, bd_encoding_version = 2,
      bd_registry_index = 1, bd_record_commitment = replicate 31 0 @ [8],
      bd_amount = replicate 31 0 @ [77], bd_zeko_amount = Some 77,
      bd_zeko_recipient = replicate 31 0 @ [7], bd_timeout = 0xFFFFFFFF\<rparr>"

definition sample_bridge_input :: "bridge_deposit list \<Rightarrow> bridge_transition_input" where
  "sample_bridge_input ds =
     \<lparr>bi_ethereum = \<lparr>eb_chain_id = 1, eb_bridge_address = replicate 20 0x11, eb_deposit_nonce = 41,
        eb_deposit_state = replicate 32 0x22\<rparr>,
      bi_zeko = \<lparr>zb_action_state = replicate 31 0 @ [1], zb_action_state_length = 7\<rparr>,
      bi_deposits = ds\<rparr>"

lemma sample_deposits:
  "wf_bridge_deposit (sample_deposit t)" "valid_deposit (sample_deposit t)"
  "wf_bridge_deposit sample_erc20_deposit" "valid_deposit sample_erc20_deposit"
  "is_native_deposit (sample_deposit t)" "\<not> is_native_deposit sample_erc20_deposit"
proof -
  show "wf_bridge_deposit (sample_deposit t)" "wf_bridge_deposit sample_erc20_deposit"
    by (simp_all add: sample_deposit_def sample_erc20_deposit_def wf_bridge_deposit_def)
  have "of_be (replicate 31 0 @ [8]) \<noteq> of_be (replicate 32 0)"
    by (simp add: of_be_append of_be_Cons)
  then have commitment: "replicate 31 0 @ [8] \<noteq> replicate 32 (0 :: u8)" by metis
  show n: "is_native_deposit (sample_deposit t)" "\<not> is_native_deposit sample_erc20_deposit"
    by (simp_all add: sample_deposit_def sample_erc20_deposit_def is_native_deposit_def)
  have "zeko_units (sample_deposit t) = 5" "zeko_units sample_erc20_deposit = 77"
    using n by (simp_all add: zeko_units_def sample_deposit_def sample_erc20_deposit_def of_be_append of_be_Cons)
  then show "valid_deposit (sample_deposit t)" "valid_deposit sample_erc20_deposit"
    using n by (simp_all add: sample_deposit_def sample_erc20_deposit_def valid_deposit_def commitment
        valid_amount_def valid_recipient_def fp_modulus_def of_be_append of_be_Cons)
qed

lemma sample_bridge_accepts:
  assumes "ds \<noteq> []" "list_all wf_bridge_deposit ds" "list_all valid_deposit ds" "length ds < 100"
  shows "wf_bridge_input (sample_bridge_input ds)" "bridge_accepts (sample_bridge_input ds)"
  using assms by (simp_all add: wf_bridge_input_def bridge_accepts_def sample_bridge_input_def
      of_be_append of_be_Cons fp_modulus_def)

theorem bridge_main_exact_witness:
  "\<exists>bs. bridge_main sample_crypto (sample_bridge_input [sample_deposit 0xFFFFFFFF, sample_erc20_deposit])
     = Inr bs \<and> decode_bridge bs = Inr (bridge_output sample_crypto
         (sample_bridge_input [sample_deposit 0xFFFFFFFF, sample_erc20_deposit]))"
proof -
  let ?i = "sample_bridge_input [sample_deposit 0xFFFFFFFF, sample_erc20_deposit]"
  have ok: "wf_bridge_input ?i" "bridge_accepts ?i"
    by (rule sample_bridge_accepts; simp add: sample_deposits)+
  have "wf_bridge_public_values (bridge_output sample_crypto ?i)"
    using ok by (simp add: wf_bridge_output)
  from bridge.round_trip [OF this] obtain bs where "decode_bridge bs = Inr (bridge_output sample_crypto ?i)"
    by blast
  with ok show ?thesis by (auto simp: bridge_main_exact)
qed

text \<open>
  C8: batches compose.  Proving a batch \<open>xs @ ys\<close> at once succeeds exactly when proving \<open>xs\<close> and
  then \<open>ys\<close> from the state that the first receipt publishes succeeds, and the receipts chain:
  the joint receipt starts where the first starts, ends where the second ends and carries the
  actions of both in order.
\<close>

theorem bridge_batches_compose:
  assumes "wf_bridge_input input" "bi_deposits input = xs @ ys" "ys \<noteq> []"
    and "\<And>x. length (keccak256 H x) = 32"
    and "derive_bridge_transition H (input\<lparr>bi_deposits := xs\<rparr>) = Inr a"
  shows "derive_bridge_transition H input = Inr c \<longleftrightarrow>
    (\<exists>b. derive_bridge_transition H (next_input input a ys) = Inr b \<and> c = join_receipts a b)"
proof -
  have wf1: "wf_bridge_input (input\<lparr>bi_deposits := xs\<rparr>)"
    using assms(1,2) by (simp add: wf_bridge_input_def)
  with assms(5) have acc: "bridge_accepts (input\<lparr>bi_deposits := xs\<rparr>)"
    and a: "a = bridge_output H (input\<lparr>bi_deposits := xs\<rparr>)"
    by (simp_all add: derive_bridge_transition_Inr)
  have "wf_bridge_input (next_input input a ys)"
    using assms(1,2) wf_bridge_output [OF wf1 acc assms(4)] unfolding a
    by (simp add: wf_bridge_input_def next_input_def wf_bridge_public_values_def)
  then show ?thesis
    using bridge_accepts_append [OF assms(2) acc assms(3), of H] bridge_output_append [OF assms(2), of H]
    by (auto simp: derive_bridge_transition_Inr assms(1) a Let_def)
qed

theorem bridge_batches_compose_witness:
  "\<exists>a b. derive_bridge_transition sample_crypto (sample_bridge_input [sample_deposit 0xFFFFFFFF]) = Inr a \<and>
     derive_bridge_transition sample_crypto
       (next_input (sample_bridge_input [sample_deposit 0xFFFFFFFF, sample_erc20_deposit]) a
         [sample_erc20_deposit]) = Inr b \<and>
     derive_bridge_transition sample_crypto
       (sample_bridge_input [sample_deposit 0xFFFFFFFF, sample_erc20_deposit]) = Inr (join_receipts a b)"
proof -
  let ?i = "sample_bridge_input [sample_deposit 0xFFFFFFFF, sample_erc20_deposit]"
  have upd: "?i\<lparr>bi_deposits := [sample_deposit 0xFFFFFFFF]\<rparr> = sample_bridge_input [sample_deposit 0xFFFFFFFF]"
    by (simp add: sample_bridge_input_def)
  have ok: "wf_bridge_input ?i" "bridge_accepts ?i" "wf_bridge_input (sample_bridge_input [sample_deposit 0xFFFFFFFF])"
    "bridge_accepts (sample_bridge_input [sample_deposit 0xFFFFFFFF])"
    by (rule sample_bridge_accepts; simp add: sample_deposits)+
  then obtain a c where "derive_bridge_transition sample_crypto (sample_bridge_input [sample_deposit 0xFFFFFFFF]) = Inr a"
    and "derive_bridge_transition sample_crypto ?i = Inr c"
    by (simp add: derive_bridge_transition_Inr)
  moreover have "bi_deposits ?i = [sample_deposit 0xFFFFFFFF] @ [sample_erc20_deposit]"
    by (simp add: sample_bridge_input_def)
  ultimately show ?thesis
    using bridge_batches_compose [OF ok(1), of "[sample_deposit 0xFFFFFFFF]" "[sample_erc20_deposit]" sample_crypto a c]
    by (auto simp: upd)
qed

lemma leaves_append:
  "deposit_leaves H eth n (xs @ ys) = deposit_leaves H eth n xs @ deposit_leaves H eth (n + word_of_nat (length xs)) ys"
  "leaf_preimages H eth n (xs @ ys) = leaf_preimages H eth n xs @ leaf_preimages H eth (n + word_of_nat (length xs)) ys"
  by (induction xs arbitrary: n) (simp_all add: ac_simps)

text \<open>
  C6: the deposit accumulator commits to the batches.  If two accepted batches publish the same Ethereum
  state after them, then the deposits of the one that is not longer agree, deposit by deposit, with the last deposits of the
  other: on token, recipient, amount in wei or base units, timeout, asset, registry index and record commitment,
  unless Keccak collides on the preimages of the two runs.  Batches of the same size moreover start from the same
  Ethereum state.
\<close>

theorem deposit_accumulator_binds:
  assumes "wf_bridge_input i" "wf_bridge_input j"
    and keccak: "\<And>x. length (keccak256 H x) = 32"
    and inj: "inj_on (keccak256 H) (batch_preimages H i \<union> batch_preimages H j)"
    and "derive_bridge_transition H i = Inr a" "derive_bridge_transition H j = Inr b"
    and "length (bi_deposits j) \<le> length (bi_deposits i)"
    and "bpv_ethereum_state_after a = bpv_ethereum_state_after b"
  shows "list_all2 same_deposit (drop (length (bi_deposits i) - length (bi_deposits j)) (bi_deposits i)) (bi_deposits j) \<and>
    (length (bi_deposits i) = length (bi_deposits j) \<longrightarrow> bpv_ethereum_state_before a = bpv_ethereum_state_before b)"
proof -
  define xs where "xs = take (length (bi_deposits i) - length (bi_deposits j)) (bi_deposits i)"
  define ys where "ys = drop (length (bi_deposits i) - length (bi_deposits j)) (bi_deposits i)"
  have i: "bi_deposits i = xs @ ys" and len: "length ys = length (bi_deposits j)"
    using assms(7) by (simp_all add: xs_def ys_def)
  let ?e = "bi_ethereum i" and ?f = "bi_ethereum j"
  let ?n = "eb_deposit_nonce ?e + word_of_nat (length xs)"
  let ?s = "chain (compute_ethereum_state H) (eb_deposit_state ?e) (deposit_leaves H ?e (eb_deposit_nonce ?e) xs)"
  let ?ls = "deposit_leaves H ?e ?n ys" and ?ks = "deposit_leaves H ?f (eb_deposit_nonce ?f) (bi_deposits j)"
  have leaves: "list_all (\<lambda>l. length l = 32) (deposit_leaves H eth n ds)" for eth n ds
    by (induction ds arbitrary: n) (simp_all add: deposit_leaf_preimage keccak)
  from assms(1,2,5,6) have acc: "bridge_accepts i" "bridge_accepts j"
    and ab: "a = bridge_output H i" "b = bridge_output H j"
    by (simp_all add: derive_bridge_transition_Inr)
  have "length ?s = 32" using deposits.chain_wf [OF _ keccak] assms(1) by (simp add: wf_bridge_input_def)
  then have "?s = eb_deposit_state ?f \<and> ?ls = ?ks"
    using assms(1,2,8) len
    by (intro deposits.chain_determines [where H = H] inj_on_subset [OF inj] leaves keccak)
      (auto simp: ab bridge_output_def Let_def ethereum_replay_chain batch_preimages_def wf_bridge_input_def i
        leaves_append chain_append chain_inputs_append)
  moreover from this have "list_all2 same_deposit ys (bi_deposits j)"
    using acc assms(1,2) len
    by (intro leaves_determine_deposits [where H = H and eth = ?e and eth' = ?f and nonce = ?n and nonce' = "eb_deposit_nonce ?f"]
        inj_on_subset [OF inj] keccak)
      (auto simp: batch_preimages_def bridge_accepts_def wf_bridge_input_def Let_def i leaves_append)
  moreover have "xs = []" if "length (bi_deposits i) = length (bi_deposits j)" using that by (simp add: xs_def)
  ultimately show ?thesis by (auto simp: ab bridge_output_def Let_def ys_def)
qed

theorem deposit_accumulator_binds_witness:
  "list_all2 same_deposit (bi_deposits (sample_bridge_input [sample_deposit 0xFFFFFFFF]))
     (bi_deposits (sample_bridge_input [sample_deposit 0xFFFFFFFF]))"
proof -
  let ?d = "sample_deposit 0xFFFFFFFF"
  let ?i = "sample_bridge_input [?d]" and ?H = length_crypto
  let ?eth = "bi_ethereum ?i"
  have H: "keccak256 ?H x = be_bytes 32 (length x)" for x
    by (simp add: length_crypto_def)
  have ok: "wf_bridge_input ?i" "bridge_accepts ?i"
    by (rule sample_bridge_accepts; simp add: sample_deposits)+
  let ?l = "leaf_preimage ?H ?eth ?d 42" and ?s = "state_preimage ?H (replicate 32 0x22) (be_bytes 32 256)"
  have len: "length ?l = 256"
    using ok(1) by (subst length_leaf_preimage)
      (simp_all add: H sample_deposits wf_bridge_input_def)
  moreover have "length ?s = 96" by (simp add: state_preimage_def keccak_str_def H)
  ultimately have "inj_on (keccak256 ?H) {?s, ?l}"
    by (auto simp: H be_bytes_inject)
  moreover have "batch_preimages ?H ?i \<subseteq> {?s, ?l}"
    by (simp add: batch_preimages_def sample_bridge_input_def deposit_leaf_preimage H
        len [simplified sample_bridge_input_def, simplified])
  ultimately have inj: "inj_on (keccak256 ?H) (batch_preimages ?H ?i \<union> batch_preimages ?H ?i)"
    unfolding Un_absorb by (rule inj_on_subset)
  from ok obtain a where a: "derive_bridge_transition ?H ?i = Inr a"
    by (simp add: derive_bridge_transition_Inr)
  show ?thesis
    using deposit_accumulator_binds [OF ok(1) ok(1) _ inj a a] by (simp add: H)
qed

text \<open>
  C7: no value is created or lost at the boundary.  In an accepted batch every deposit is credited
  a positive amount below \<open>2 ^ 64\<close>; for native ETH the credited units times \<open>10 ^ 9\<close> are exactly
  the deposited wei, for an ERC-20 they are exactly the deposited base units, and the amount the
  caller supplied, where it is supplied, is the credited one.
\<close>

theorem deposit_value_conserved:
  assumes "wf_bridge_input input" "derive_bridge_transition H input = Inr out"
    and "d \<in> set (bi_deposits input)"
  shows "\<exists>u. deposit_zeko_amount d = Inr u \<and> 0 < unat u \<and> unat u < 2 ^ 64 \<and>
    of_be (bd_amount d) = unat u * (if bd_token d = replicate 20 0 then 10 ^ 9 else 1) \<and>
    (\<forall>s. bd_zeko_amount d = Some s \<longrightarrow> unat s = unat u)"
proof -
  have d: "wf_bridge_deposit d" "valid_amount d"
    using assms derive_bridge_transition_Inr [OF assms(1), of H out]
    by (auto simp: wf_bridge_input_def bridge_accepts_def list_all_iff valid_deposit_def)
  then have lt: "zeko_units d < 2 ^ 64" and pos: "0 < of_be (bd_amount d)"
    unfolding valid_amount_def by blast+
  have amt: "of_be (bd_amount d) = zeko_units d * (if is_native_deposit d then 10 ^ 9 else 1)"
    using d(2) unfolding valid_amount_def zeko_units_def by (auto simp: dvd_div_mult_self)
  let ?u = "word_of_nat (zeko_units d) :: u256"
  have u: "unat ?u = zeko_units d" using lt by (simp add: unat_of_nat take_bit_nat_eq_self)
  have "deposit_zeko_amount d = Inr ?u" using d u by (simp only: deposit_zeko_amount_Inr)
  moreover have "unat s = zeko_units d" if "bd_zeko_amount d = Some s" for s
    using that d(2) lt unfolding valid_amount_def
    by (auto simp: unat_of_nat take_bit_nat_eq_self split: if_splits)
  ultimately show ?thesis
    using amt lt pos unfolding is_native_deposit_def by (intro exI [of _ ?u]) (auto simp: u)
qed

theorem deposit_value_conserved_witness:
  "\<exists>u. deposit_zeko_amount (sample_deposit 0xFFFFFFFF) = Inr u \<and> 0 < unat u \<and> unat u < 2 ^ 64 \<and>
    of_be (bd_amount (sample_deposit 0xFFFFFFFF)) = unat u * 10 ^ 9"
proof -
  let ?i = "sample_bridge_input [sample_deposit 0xFFFFFFFF]"
  have ok: "wf_bridge_input ?i" "bridge_accepts ?i"
    by (rule sample_bridge_accepts; simp add: sample_deposits)+
  then obtain out where "derive_bridge_transition sample_crypto ?i = Inr out"
    by (simp add: derive_bridge_transition_Inr)
  from deposit_value_conserved [OF ok(1) this, of "sample_deposit 0xFFFFFFFF"] show ?thesis
    using sample_deposits(5) [of "0xFFFFFFFF", unfolded is_native_deposit_def]
    by (auto simp: sample_bridge_input_def)
qed

text \<open>
  The timeout of a native deposit is not constrained: whatever its value, a batch with an
  otherwise valid native deposit is accepted, and the value goes into the receipt's leaf and
  action unchanged.  An ERC-20 deposit is accepted with the infinite timeout only.
\<close>

lemma native_timeout_unconstrained:
  "(\<exists>out. derive_bridge_transition H (sample_bridge_input [sample_deposit t]) = Inr out) \<and>
   ((\<exists>u. deposit_zeko_amount (sample_erc20_deposit\<lparr>bd_timeout := t\<rparr>) = Inr u) \<longleftrightarrow> t = INFINITE_TIMEOUT)"
proof
  have "wf_bridge_input (sample_bridge_input [sample_deposit t])"
    "bridge_accepts (sample_bridge_input [sample_deposit t])"
    by (rule sample_bridge_accepts; simp add: sample_deposits)+
  then show "\<exists>out. derive_bridge_transition H (sample_bridge_input [sample_deposit t]) = Inr out"
    by (simp add: derive_bridge_transition_Inr)
  let ?d = "sample_erc20_deposit\<lparr>bd_timeout := t\<rparr>"
  have "wf_bridge_deposit ?d" "\<not> is_native_deposit ?d" "zeko_units ?d < 2 ^ 64"
    using sample_deposits
    by (simp_all add: wf_bridge_deposit_def is_native_deposit_def zeko_units_def valid_deposit_def valid_amount_def)
  moreover from this have "valid_amount ?d \<longleftrightarrow> t = 0xFFFFFFFF"
    using sample_deposits(4,6)
    by (auto simp: valid_deposit_def valid_amount_def is_native_deposit_def zeko_units_def)
  ultimately show "(\<exists>u. deposit_zeko_amount ?d = Inr u) \<longleftrightarrow> t = INFINITE_TIMEOUT"
    by (auto simp: deposit_zeko_amount_Inr INFINITE_TIMEOUT_def unat_of_nat take_bit_nat_eq_self
        intro!: exI [of _ "word_of_nat (zeko_units ?d)"])
qed

end
