(* ===== verification/Utf8_Text.thy ===== *)
theory Utf8_Text
  imports Prelude
begin

text \<open>
  Strings as the lists of their UTF-8 bytes, and \<open>str::trim\<close>, which \<open>rpc.rs\<close> and \<open>lib.rs\<close> use.
\<close>

abbreviation byte_of :: "char \<Rightarrow> nat" where "byte_of c \<equiv> of_char c"

text \<open>The UTF-8 forms of the characters that \<open>str::trim\<close> removes, those with the property \<open>White_Space\<close>.\<close>

definition white_space :: "nat list \<Rightarrow> bool" where
  "white_space cs \<longleftrightarrow>
     (case cs of
        [a] \<Rightarrow> (9 \<le> a \<and> a \<le> 13) \<or> a = 32
      | [a, b] \<Rightarrow> a = 0xC2 \<and> (b = 0x85 \<or> b = 0xA0)
      | [a, b, c] \<Rightarrow> (a = 0xE1 \<and> b = 0x9A \<and> c = 0x80) \<or> (a = 0xE2 \<and> b = 0x80 \<and> (0x80 \<le> c \<and> c \<le> 0x8A \<or> c = 0xA8 \<or> c = 0xA9 \<or> c = 0xAF)) \<or>
          (a = 0xE2 \<and> b = 0x81 \<and> c = 0x9F) \<or> (a = 0xE3 \<and> b = 0x80 \<and> c = 0x80)
      | _ \<Rightarrow> False)"

function trim_start :: "(nat list \<Rightarrow> bool) \<Rightarrow> string \<Rightarrow> string" where
  "trim_start p s =
     (if s = [] then []
      else if p (map byte_of (take 1 s)) then trim_start p (drop 1 s)
      else if p (map byte_of (take 2 s)) then trim_start p (drop 2 s)
      else if p (map byte_of (take 3 s)) then trim_start p (drop 3 s)
      else s)"
  by pat_completeness auto
termination
  by (relation "measure (\<lambda>(p, s). length s)") auto

declare trim_start.simps [simp del]

definition trim :: "string \<Rightarrow> string" where
  "trim s = rev (trim_start (\<lambda>cs. white_space (rev cs)) (rev (trim_start white_space s)))"

lemma trim_start_visible:
  assumes "33 \<le> byte_of c" "byte_of c < 128"
  shows "trim_start white_space (c # s) = c # s" "trim_start (\<lambda>cs. white_space (rev cs)) (c # s) = c # s"
proof -
  have "\<not> white_space (byte_of c # xs)" for xs using assms by (auto simp: white_space_def split: list.splits)
  then show "trim_start white_space (c # s) = c # s" by (simp add: trim_start.simps [of _ "c # s"])
  have "\<not> white_space (xs @ [byte_of c])" for xs
    using assms by (cases xs; cases "tl xs"; cases "tl (tl xs)") (auto simp: white_space_def split: list.splits)
  from this [of "[]"] this show "trim_start (\<lambda>cs. white_space (rev cs)) (c # s) = c # s"
    by (simp add: trim_start.simps [of _ "c # s"])
qed

lemma trim_visible:
  assumes "s = c # cs" "s = ds @ [d]" "33 \<le> byte_of c" "byte_of c < 128" "33 \<le> byte_of d" "byte_of d < 128"
  shows "trim s = s"
proof -
  have "trim_start white_space s = s" using trim_start_visible(1) [of c cs] assms by simp
  moreover have "trim_start (\<lambda>cs. white_space (rev cs)) (rev s) = rev s"
    using trim_start_visible(2) [OF assms(5, 6), of "rev ds"] unfolding assms(2) by simp
  ultimately show ?thesis by (simp add: trim_def)
qed

end
