(* ===== verification/Serde_Bytes.thy ===== *)
theory Serde_Bytes
  imports Utf8_Text
begin

text \<open>
  The serde adapters of \<open>lib/src/lib.rs\<close>: how fixed byte arrays are written into and read from the JSON and binary inputs of
  the guests.  A value of serde's data model is a \<open>serde_value\<close>.
\<close>

subsection \<open>Digits\<close>

definition is_ascii_hexdigit :: "char \<Rightarrow> bool" where
  "is_ascii_hexdigit c \<longleftrightarrow> 48 \<le> byte_of c \<and> byte_of c \<le> 57 \<or> 97 \<le> byte_of c \<and> byte_of c \<le> 102 \<or> 65 \<le> byte_of c \<and> byte_of c \<le> 70"

definition nibble :: "char \<Rightarrow> u8" where
  "nibble c =
     (if 48 \<le> byte_of c \<and> byte_of c \<le> 57 then word_of_nat (byte_of c - 48)
      else if 97 \<le> byte_of c \<and> byte_of c \<le> 102 then word_of_nat (byte_of c - 97) + 10
      else word_of_nat (byte_of c - 65) + 10)"

fun write_nibbles :: "bytes \<Rightarrow> nat \<Rightarrow> string \<Rightarrow> bytes" where
  "write_nibbles out nibble_index [] = out"
| "write_nibbles out nibble_index (c # cs) =
     (let i = nibble_index div 2 in
      write_nibbles (if nibble_index mod 2 = 0 then out[i := push_bit 4 (nibble c)] else out[i := out ! i OR nibble c])
        (nibble_index + 1) cs)"

definition parse_hex_fixed :: "nat \<Rightarrow> string \<Rightarrow> string + bytes" where
  "parse_hex_fixed n hex =
     ensure (length hex \<le> n * 2) ''hex string is too long'' (
     ensure (list_all is_ascii_hexdigit hex) ''hex string contains a non-hex character''
       (Inr (write_nibbles (replicate n 0) (n * 2 - length hex) hex)))"

text \<open>One pass over the bytes from the last to the first: the bytes and the carry.\<close>

fun decimal_pass :: "u16 \<Rightarrow> bytes \<Rightarrow> bytes \<times> u16" where
  "decimal_pass carry [] = ([], carry)"
| "decimal_pass carry (b # bs) =
     (let next_value = ucast b * 10 + carry; (bs', carry') = decimal_pass (drop_bit 8 next_value) bs in (ucast next_value # bs', carry'))"

definition is_ascii_digit :: "char \<Rightarrow> bool" where
  "is_ascii_digit c \<longleftrightarrow> 48 \<le> byte_of c \<and> byte_of c \<le> 57"

fun decimal_loop :: "bytes \<Rightarrow> string \<Rightarrow> string + bytes" where
  "decimal_loop out [] = Inr out"
| "decimal_loop out (c # cs) =
     ensure (is_ascii_digit c) ''decimal string contains a non-digit character'' (
     let (bs, carry) = decimal_pass (word_of_nat (byte_of c - 48)) (rev out) in
     ensure (carry = 0) ''decimal string overflows uint256'' (decimal_loop (rev bs) cs))"

definition parse_decimal_u256 :: "string \<Rightarrow> string + bytes" where
  "parse_decimal_u256 s = ensure (s \<noteq> []) ''empty decimal string'' (decimal_loop (replicate 32 0) s)"

definition strip_hex_prefix :: "string \<Rightarrow> string option" where
  "strip_hex_prefix s =
     (if take 2 s = ''0x'' \<or> take 2 s = ''0X'' then Some (drop 2 s) else None)"

definition parse_fixed_bytes :: "nat \<Rightarrow> string \<Rightarrow> string + bytes" where
  "parse_fixed_bytes n s =
     (let trimmed = trim s in
      case strip_hex_prefix trimmed of
        Some hex \<Rightarrow> parse_hex_fixed n hex
      | None \<Rightarrow> ensure (n = 32) ''decimal strings are only supported for uint256/bytes32 fields'' (parse_decimal_u256 trimmed))"

definition hex_digit :: "nat \<Rightarrow> char" where
  "hex_digit d = char_of (if d < 10 then 48 + d else 87 + d)"

definition fixed_bytes_to_hex :: "bytes \<Rightarrow> string" where
  "fixed_bytes_to_hex bs = ''0x'' @ concat (map (\<lambda>b. [hex_digit (unat b div 16), hex_digit (unat b mod 16)]) bs)"

definition integer_to_fixed_bytes :: "nat \<Rightarrow> 128 word \<Rightarrow> string + bytes" where
  "integer_to_fixed_bytes n v =
     ensure (n = 32) ''JSON numbers are only supported for uint256/bytes32 fields'' (Inr (replicate (n - 16) 0 @ be_bytes 16 (unat v)))"

subsection \<open>Serde values\<close>

datatype serde_value = Sv_Str string | Sv_U64 u64 | Sv_U128 "128 word" | Sv_Seq "serde_value list" | Sv_Other

definition as_u8 :: "serde_value \<Rightarrow> string + u8" where
  "as_u8 v =
     (case v of Sv_U64 n \<Rightarrow> ensure (unat n < 256) ''invalid value'' (Inr (ucast n)) | _ \<Rightarrow> Inl ''invalid type'')"

fun visit_elements :: "nat \<Rightarrow> serde_value list \<Rightarrow> string + bytes \<times> serde_value list" where
  "visit_elements 0 vs = Inr ([], vs)"
| "visit_elements (Suc n) [] = Inl ''invalid length''"
| "visit_elements (Suc n) (v # vs) =
     and_then (as_u8 v) (\<lambda>b. and_then (visit_elements n vs) (\<lambda>(bs, rest). Inr (b # bs, rest)))"

definition visit_seq :: "nat \<Rightarrow> serde_value list \<Rightarrow> string + bytes" where
  "visit_seq n vs = and_then (visit_elements n vs) (\<lambda>(bs, rest). ensure (rest = []) ''invalid length'' (Inr bs))"

definition deserialize_fixed_bytes :: "bool \<Rightarrow> nat \<Rightarrow> serde_value \<Rightarrow> string + bytes" where
  "deserialize_fixed_bytes is_human_readable n v =
     (case v of
        Sv_Seq vs \<Rightarrow> visit_seq n vs
      | Sv_Str s \<Rightarrow> if is_human_readable then parse_fixed_bytes n s else Inl ''invalid type''
      | Sv_U64 k \<Rightarrow> if is_human_readable then integer_to_fixed_bytes n (ucast k) else Inl ''invalid type''
      | Sv_U128 k \<Rightarrow> if is_human_readable then integer_to_fixed_bytes n k else Inl ''invalid type''
      | Sv_Other \<Rightarrow> Inl ''invalid type'')"

definition serialize_fixed_bytes :: "bool \<Rightarrow> bytes \<Rightarrow> serde_value" where
  "serialize_fixed_bytes is_human_readable bs =
     (if is_human_readable then Sv_Str (fixed_bytes_to_hex bs) else Sv_Seq (map (\<lambda>b. Sv_U64 (ucast b)) bs))"

definition as_string :: "serde_value \<Rightarrow> string + string" where
  "as_string v = (case v of Sv_Str s \<Rightarrow> Inr s | _ \<Rightarrow> Inl ''invalid type'')"

definition as_seq :: "serde_value \<Rightarrow> string + serde_value list" where
  "as_seq v = (case v of Sv_Seq vs \<Rightarrow> Inr vs | _ \<Rightarrow> Inl ''invalid type'')"

definition serialize_vec_bytes32 :: "bytes list \<Rightarrow> serde_value" where
  "serialize_vec_bytes32 vs = Sv_Seq (map (\<lambda>v. Sv_Str (fixed_bytes_to_hex v)) vs)"

definition deserialize_vec_bytes32 :: "serde_value \<Rightarrow> string + bytes list" where
  "deserialize_vec_bytes32 v =
     and_then (as_seq v) (\<lambda>vs. and_then (try_map as_string vs) (try_map (parse_fixed_bytes 32)))"

definition serialize_vec_vec_bytes32 :: "bytes list list \<Rightarrow> serde_value" where
  "serialize_vec_vec_bytes32 vs = Sv_Seq (map serialize_vec_bytes32 vs)"

definition deserialize_vec_vec_bytes32 :: "serde_value \<Rightarrow> string + bytes list list" where
  "deserialize_vec_vec_bytes32 v =
     and_then (as_seq v) (\<lambda>vs.
     and_then (try_map (\<lambda>e. and_then (as_seq e) (try_map as_string)) vs) (try_map (try_map (parse_fixed_bytes 32))))"

text \<open>Eight fields; in a binary format they are an array of arrays of bytes.\<close>

definition serialize_array8_bytes32 :: "bool \<Rightarrow> bytes list \<Rightarrow> serde_value" where
  "serialize_array8_bytes32 is_human_readable vs =
     (if is_human_readable then serialize_vec_bytes32 vs else Sv_Seq (map (serialize_fixed_bytes False) vs))"

definition deserialize_array8_bytes32 :: "bool \<Rightarrow> serde_value \<Rightarrow> string + bytes list" where
  "deserialize_array8_bytes32 is_human_readable v =
     (if \<not> is_human_readable
      then and_then (as_seq v) (\<lambda>vs. ensure (length vs = 8) ''invalid length'' (try_map (deserialize_fixed_bytes False 32) vs))
      else and_then (as_seq v) (\<lambda>vs. and_then (try_map as_string vs) (\<lambda>ss.
        ensure (length ss = 8) ''invalid length'' (try_map (parse_fixed_bytes 32) ss))))"

subsection \<open>Hexadecimal\<close>

definition hex_value :: "string \<Rightarrow> nat" where
  "hex_value s = foldl (\<lambda>n c. n * 16 + unat (nibble c)) 0 s"

fun to_nibbles :: "bytes \<Rightarrow> nat list" where
  "to_nibbles [] = []"
| "to_nibbles (b # bs) = unat b div 16 # unat b mod 16 # to_nibbles bs"

lemma length_to_nibbles [simp]: "length (to_nibbles bs) = 2 * length bs"
  by (induction bs) simp_all

lemma to_nibbles_nth: "i < length bs \<Longrightarrow> to_nibbles bs ! (2 * i) = unat (bs ! i) div 16 \<and> to_nibbles bs ! Suc (2 * i) = unat (bs ! i) mod 16"
proof (induction bs arbitrary: i)
  case (Cons b bs)
  then show ?case by (cases i) simp_all
qed simp

lemma to_nibbles_update:
  "to_nibbles (bs[i := b]) = (to_nibbles bs)[2 * i := unat b div 16, Suc (2 * i) := unat b mod 16]"
proof (induction bs arbitrary: i)
  case (Cons c bs)
  then show ?case by (cases i) simp_all
qed simp

lemma of_be_nibbles: "of_be bs = foldl (\<lambda>n d. n * 16 + d) 0 (to_nibbles bs)"
proof -
  have "foldl (\<lambda>acc b. acc * 256 + unat b) n bs = foldl (\<lambda>n d. n * 16 + d) n (to_nibbles bs)" for n
    by (induction bs arbitrary: n) (simp_all add: algebra_simps)
  then show ?thesis by (simp add: of_be_def)
qed

lemma nibble_bound: "is_ascii_hexdigit c \<Longrightarrow> unat (nibble c) < 16"
proof -
  have "unat (word_of_nat k + 10 :: u8) < 16" if "k < 6" for k
    using that by (simp add: unat_word_ariths unat_of_nat take_bit_eq_mod)
  moreover have "unat (word_of_nat k :: u8) < 16" if "k < 10" for k
    using that by (simp add: unat_of_nat take_bit_eq_mod)
  ultimately show "is_ascii_hexdigit c \<Longrightarrow> unat (nibble c) < 16"
    by (auto simp: is_ascii_hexdigit_def nibble_def simp del: of_nat_diff)
qed

lemma high_nibble:
  assumes "unat (b :: u8) < 16"
  shows "unat (push_bit 4 b) = unat b * 16"
  using assms by (simp add: push_bit_eq_mult unat_word_ariths)

lemma low_nibble:
  assumes "unat (a :: u8) mod 16 = 0" "unat b < 16"
  shows "unat (a OR b) = unat a + unat b"
proof -
  have "\<not> bit (unat a) n \<or> \<not> bit (unat b) n" for n
  proof (cases "n < 4")
    case True
    obtain k where "unat a = 16 * k" using assms(1) by auto
    then have "unat a = push_bit 4 k" by (simp add: push_bit_eq_mult)
    then show ?thesis using True by (simp add: bit_push_bit_iff)
  next
    case False
    then have "(2 :: nat) ^ 4 \<le> 2 ^ n" by (intro power_increasing) simp_all
    then have "unat b < 2 ^ n" using assms(2) by simp
    then show ?thesis by (simp add: bit_iff_odd)
  qed
  then have "unat a + unat b = unat a OR unat b" by (rule disjunctive_add)
  then show ?thesis by (simp add: unsigned_or_eq)
qed

lemma write_nibbles_spec:
  assumes "k + length cs = 2 * length out" "drop k (to_nibbles out) = replicate (length cs) 0" "list_all is_ascii_hexdigit cs"
  shows "to_nibbles (write_nibbles out k cs) = take k (to_nibbles out) @ map (\<lambda>c. unat (nibble c)) cs \<and>
    length (write_nibbles out k cs) = length out"
  using assms
proof (induction cs arbitrary: out k)
  case (Cons c cs)
  define i where "i = k div 2"
  define out' where "out' = (if k mod 2 = 0 then out[i := push_bit 4 (nibble c)] else out[i := out ! i OR nibble c])"
  have n: "unat (nibble c) < 16" using Cons.prems(3) nibble_bound by simp
  have i: "i < length out" using Cons.prems(1) by (simp add: i_def)
  have zero: "to_nibbles out ! j = 0" if "k \<le> j" "j < 2 * length out" for j
  proof -
    have "drop k (to_nibbles out) ! (j - k) = 0" using that Cons.prems(1) unfolding Cons.prems(2) by (subst nth_replicate) auto
    then show ?thesis using that by simp
  qed
  have step: "to_nibbles out' = (to_nibbles out)[k := unat (nibble c)]"
  proof (cases "k mod 2 = 0")
    case True
    then have k: "k = 2 * i" unfolding i_def by presburger
    have "to_nibbles out ! Suc (2 * i) = 0" using zero [of "Suc (2 * i)"] i k by simp
    then have "(to_nibbles out)[2 * i := unat (nibble c), Suc (2 * i) := 0] = (to_nibbles out)[2 * i := unat (nibble c)]"
      by (metis list_update_id list_update_swap n_not_Suc_n)
    then show ?thesis using True n by (simp add: out'_def to_nibbles_update high_nibble k)
  next
    case False
    then have k: "k = Suc (2 * i)" unfolding i_def by presburger
    note b = to_nibbles_nth [OF i]
    have z: "unat (out ! i) mod 16 = 0" using zero [of k] b i by (simp add: k)
    have "(u + v) div 16 = u div 16 \<and> (u + v) mod 16 = v" if "u mod 16 = 0" "v < 16" for u v :: nat
      using that by (auto elim!: dvdE simp: mod_eq_0_iff_dvd)
    from this [OF z n] have "unat (out ! i OR nibble c) div 16 = unat (out ! i) div 16" "unat (out ! i OR nibble c) mod 16 = unat (nibble c)"
      unfolding low_nibble [OF z n] by blast+
    moreover have "(to_nibbles out)[2 * i := unat (out ! i) div 16] = to_nibbles out" using b by (metis list_update_id)
    ultimately show ?thesis using False by (simp add: out'_def to_nibbles_update k)
  qed
  have "to_nibbles (write_nibbles out' (k + 1) cs) = take (k + 1) (to_nibbles out') @ map (\<lambda>c. unat (nibble c)) cs \<and>
      length (write_nibbles out' (k + 1) cs) = length out'"
  proof (rule Cons.IH)
    show "k + 1 + length cs = 2 * length out'" using Cons.prems(1) by (simp add: out'_def)
    show "drop (k + 1) (to_nibbles out') = replicate (length cs) 0"
      using arg_cong [OF Cons.prems(2), of "drop 1"] by (simp add: step)
  qed (use Cons.prems(3) in simp)
  moreover have "take (k + 1) (to_nibbles out') = take k (to_nibbles out) @ [unat (nibble c)]"
    using i Cons.prems(1) by (simp add: step take_Suc_conv_app_nth)
  moreover have "length out' = length out" by (simp add: out'_def)
  moreover have "write_nibbles out k (c # cs) = write_nibbles out' (k + 1) cs" by (simp add: out'_def i_def Let_def)
  ultimately show ?case by (simp del: write_nibbles.simps)
qed simp

lemma parse_hex_fixed_spec:
  "parse_hex_fixed n s = Inr b \<longleftrightarrow> length s \<le> n * 2 \<and> list_all is_ascii_hexdigit s \<and> b = be_bytes n (hex_value s)"
proof -
  have "write_nibbles (replicate n 0) (n * 2 - length s) s = be_bytes n (hex_value s)"
    if s: "length s \<le> n * 2" "list_all is_ascii_hexdigit s"
  proof -
    let ?b = "write_nibbles (replicate n 0) (n * 2 - length s) s"
    have z: "to_nibbles (replicate n 0) = replicate (2 * n) 0" by (induction n) simp_all
    have b: "to_nibbles ?b = replicate (n * 2 - length s) 0 @ map (\<lambda>c. unat (nibble c)) s" "length ?b = n"
      using write_nibbles_spec [of "n * 2 - length s" s "replicate n 0"] s by (simp_all add: z min_absorb1)
    have "foldl (\<lambda>n d. n * 16 + d) 0 (replicate k (0 :: nat)) = 0" for k by (induction k) simp_all
    moreover have "foldl (\<lambda>n d. n * 16 + d) m (map (\<lambda>c. unat (nibble c)) s) = foldl (\<lambda>n c. n * 16 + unat (nibble c)) m s" for m
      by (induction s arbitrary: m) simp_all
    ultimately have "of_be ?b = hex_value s" by (simp add: of_be_nibbles b(1) hex_value_def)
    then show ?thesis using be_bytes_of_be [OF b(2)] by simp
  qed
  then show ?thesis by (auto simp: parse_hex_fixed_def ensure_Inr)
qed

lemma nibble_hex_digit: "d < 16 \<Longrightarrow> is_ascii_hexdigit (hex_digit d) \<and> unat (nibble (hex_digit d)) = d"
proof -
  assume "d < 16"
  then have "d = 0 \<or> d = 1 \<or> d = 2 \<or> d = 3 \<or> d = 4 \<or> d = 5 \<or> d = 6 \<or> d = 7 \<or> d = 8 \<or> d = 9 \<or> d = 10 \<or> d = 11 \<or> d = 12 \<or> d = 13 \<or>
      d = 14 \<or> d = 15"
    by presburger
  then show ?thesis by (elim disjE) (simp_all add: hex_digit_def is_ascii_hexdigit_def nibble_def)
qed

lemma hex_of_bytes:
  "list_all is_ascii_hexdigit (concat (map (\<lambda>b. [hex_digit (unat b div 16), hex_digit (unat b mod 16)]) bs)) \<and>
   length (concat (map (\<lambda>b. [hex_digit (unat b div 16), hex_digit (unat b mod 16)]) bs)) = 2 * length bs \<and>
   hex_value (concat (map (\<lambda>b. [hex_digit (unat b div 16), hex_digit (unat b mod 16)]) bs)) = of_be bs"
proof -
  have d: "unat b div 16 < 16" for b :: u8 using unat_u8_less [of b] by (simp add: less_mult_imp_div_less)
  have "foldl (\<lambda>n c. n * 16 + unat (nibble c)) m (concat (map (\<lambda>b. [hex_digit (unat b div 16), hex_digit (unat b mod 16)]) bs)) =
      foldl (\<lambda>acc b. acc * 256 + unat b) m bs" for m
    by (induction bs arbitrary: m) (simp_all add: nibble_hex_digit d algebra_simps)
  moreover have "list_all is_ascii_hexdigit (concat (map (\<lambda>b. [hex_digit (unat b div 16), hex_digit (unat b mod 16)]) bs))"
    by (induction bs) (simp_all add: nibble_hex_digit d)
  moreover have "length (concat (map (\<lambda>b. [hex_digit (unat b div 16), hex_digit (unat b mod 16)]) bs)) = 2 * length bs"
    by (induction bs) simp_all
  ultimately show ?thesis by (simp add: hex_value_def of_be_def)
qed

subsection \<open>Decimals\<close>

definition decimal_value :: "string \<Rightarrow> nat" where
  "decimal_value s = foldl (\<lambda>n c. n * 10 + (byte_of c - 48)) 0 s"

lemma decimal_pass_spec:
  assumes "unat c \<le> 9" "decimal_pass c bs = (bs', c')"
  shows "length bs' = length bs \<and> of_be (rev bs') + 256 ^ length bs * unat c' = of_be (rev bs) * 10 + unat c \<and> unat c' \<le> 9"
  using assms
proof (induction bs arbitrary: c bs')
  case (Cons b bs)
  define v where "v = ucast b * 10 + c"
  obtain bs'' where r: "decimal_pass (drop_bit 8 v) bs = (bs'', c')" "bs' = ucast v # bs''"
    using Cons.prems(2) by (auto simp: v_def Let_def split: prod.splits)
  have v: "unat v = unat b * 10 + unat c"
  proof -
    have "unat b < 256" by (rule unat_u8_less)
    with Cons.prems(1) have "unat b * 10 + unat c \<le> 2559" by linarith
    also have "\<dots> < 2 ^ 16" by simp
    finally have "unat b * 10 + unat c < 2 ^ 16" .
    then show ?thesis by (simp add: v_def unat_word_ariths unsigned_ucast_eq take_bit_nat_eq_self take_bit_eq_mod)
  qed
  have d: "unat (drop_bit 8 v) = unat v div 256" by (simp only: unat_drop_bit_eq) (simp add: drop_bit_eq_div)
  have "unat v div 256 \<le> 2559 div 256"
  proof (rule div_le_mono)
    have "unat b < 256" by (rule unat_u8_less)
    with Cons.prems(1) show "unat v \<le> 2559" unfolding v by linarith
  qed
  then have "unat (drop_bit 8 v) \<le> 9" unfolding d by simp
  note IH = Cons.IH [OF this r(1)]
  have u: "unat (ucast v :: u8) = unat v mod 256" by (simp add: unsigned_ucast_eq take_bit_eq_mod)
  have "(of_be (rev bs'') + 256 ^ length bs * unat c') * 256 = (of_be (rev bs) * 10 + unat v div 256) * 256"
    using IH d by simp
  moreover have "unat v div 256 * 256 + unat v mod 256 = unat v" by simp
  ultimately have "of_be (rev bs'') * 256 + 256 ^ length bs * unat c' * 256 + unat v mod 256 = of_be (rev bs) * 10 * 256 + unat v"
    unfolding distrib_right by linarith
  then show ?case
    using IH v by (simp add: r(2) of_be_snoc u algebra_simps)
qed simp

lemma decimal_digit: "is_ascii_digit c \<Longrightarrow> unat (word_of_nat (byte_of c - 48) :: u16) = byte_of c - 48 \<and> byte_of c - 48 \<le> 9"
  by (auto simp: is_ascii_digit_def unat_of_nat take_bit_nat_eq_self take_bit_eq_mod simp del: of_nat_diff)

lemma decimal_grows: "m \<le> foldl (\<lambda>n c. n * 10 + (byte_of c - 48)) m s"
proof (induction s arbitrary: m)
  case (Cons c s)
  have "m \<le> m * 10 + (byte_of c - 48)" by simp
  also have "\<dots> \<le> foldl (\<lambda>n c. n * 10 + (byte_of c - 48)) (m * 10 + (byte_of c - 48)) s" by (rule Cons.IH)
  finally show ?case by simp
qed simp

lemma decimal_loop_spec:
  "decimal_loop out s = Inr b \<longleftrightarrow>
     list_all is_ascii_digit s \<and> foldl (\<lambda>n c. n * 10 + (byte_of c - 48)) (of_be out) s < 256 ^ length out \<and>
     b = be_bytes (length out) (foldl (\<lambda>n c. n * 10 + (byte_of c - 48)) (of_be out) s)"
proof (induction s arbitrary: out)
  case Nil
  show ?case using of_be_less [of out] by (auto simp: be_bytes_of_be)
next
  case (Cons c s)
  show ?case
  proof (cases "is_ascii_digit c")
    case True
    note d = decimal_digit [OF True]
    obtain bs carry where p: "decimal_pass (word_of_nat (byte_of c - 48)) (rev out) = (bs, carry)" by fastforce
    have q: "length bs = length out" "of_be (rev bs) + 256 ^ length out * unat carry = of_be out * 10 + (byte_of c - 48)"
      using decimal_pass_spec [OF _ p] d by simp_all
    show ?thesis
    proof (cases "carry = 0")
      case True
      then have "of_be (rev bs) = of_be out * 10 + (byte_of c - 48)" using q by simp
      then show ?thesis using True \<open>is_ascii_digit c\<close> p q(1) by (simp add: ensure_def Cons.IH del: of_nat_diff)
    next
      case False
      then have "1 \<le> unat carry" by (simp add: Suc_leI unat_gt_0)
      then have "256 ^ length out * 1 \<le> 256 ^ length out * unat carry" by (rule mult_le_mono2)
      then have "256 ^ length out \<le> of_be out * 10 + (byte_of c - 48)" using q(2) by linarith
      then have "\<not> foldl (\<lambda>n c. n * 10 + (byte_of c - 48)) (of_be out) (c # s) < 256 ^ length out"
        using decimal_grows [of "of_be out * 10 + (byte_of c - 48)" s] by simp
      then show ?thesis using False p by (simp add: ensure_def del: of_nat_diff foldl_Cons)
    qed
  qed (simp add: ensure_def)
qed

lemma parse_decimal_u256_spec:
  "parse_decimal_u256 s = Inr b \<longleftrightarrow> s \<noteq> [] \<and> list_all is_ascii_digit s \<and> decimal_value s < 256 ^ 32 \<and> b = be_bytes 32 (decimal_value s)"
proof -
  have "of_be (replicate 32 0) = 0" "length (replicate 32 (0 :: u8)) = 32"
    by (simp_all add: be_bytes_zero [symmetric] of_be_be_bytes del: be_bytes_zero)
  then show ?thesis by (auto simp: parse_decimal_u256_def ensure_Inr decimal_loop_spec decimal_value_def)
qed

subsection \<open>Text and bytes\<close>

text \<open>The number that a text without surrounding white space writes for a field of \<open>n\<close> bytes.\<close>

definition written_number :: "nat \<Rightarrow> string \<Rightarrow> nat option" where
  "written_number n s =
     (case strip_hex_prefix s of
        Some hex \<Rightarrow> if length hex \<le> 2 * n \<and> list_all is_ascii_hexdigit hex then Some (hex_value hex) else None
      | None \<Rightarrow> if n = 32 \<and> s \<noteq> [] \<and> list_all is_ascii_digit s \<and> decimal_value s < 2 ^ 256 then Some (decimal_value s) else None)"

lemma written_number_bound: "written_number n s = Some m \<Longrightarrow> m < 256 ^ n"
proof -
  have "hex_value h < 16 ^ length h" if "list_all is_ascii_hexdigit h" for h
  proof -
    have "foldl (\<lambda>n c. n * 16 + unat (nibble c)) k h < (k + 1) * 16 ^ length h" for k
      using that
    proof (induction h arbitrary: k)
      case (Cons c h)
      have "foldl (\<lambda>n c. n * 16 + unat (nibble c)) (k * 16 + unat (nibble c)) h < (k * 16 + unat (nibble c) + 1) * 16 ^ length h"
        using Cons by simp
      also have "\<dots> \<le> ((k + 1) * 16) * 16 ^ length h" using nibble_bound [of c] Cons.prems by (intro mult_le_mono1) simp
      finally show ?case by (simp add: algebra_simps)
    qed simp
    from this [of 0] show ?thesis by (simp add: hex_value_def)
  qed
  moreover have "(16 :: nat) ^ length h \<le> 256 ^ n" if "length h \<le> 2 * n" for h :: string
    using power_increasing [OF that, of "16 :: nat"] by (simp add: power_mult)
  ultimately show "written_number n s = Some m \<Longrightarrow> m < 256 ^ n"
    by (force simp: written_number_def split: option.splits if_splits)
qed

lemma parse_fixed_bytes_spec:
  "parse_fixed_bytes n s = Inr b \<longleftrightarrow> (\<exists>m. written_number n (trim s) = Some m \<and> b = be_bytes n m)"
  by (auto simp: parse_fixed_bytes_def written_number_def Let_def parse_hex_fixed_spec ensure_Inr parse_decimal_u256_spec
      mult.commute split: option.splits if_splits)

lemma hex_text:
  "length b = n \<Longrightarrow> trim (fixed_bytes_to_hex b) = fixed_bytes_to_hex b \<and> written_number n (fixed_bytes_to_hex b) = Some (of_be b)"
proof -
  assume n: "length b = n"
  define h where "h = concat (map (\<lambda>b. [hex_digit (unat b div 16), hex_digit (unat b mod 16)]) b)"
  note h = hex_of_bytes [of b, folded h_def]
  have visible: "33 \<le> byte_of c \<and> byte_of c < 128" if "c \<in> set (''0x'' @ h)" for c
    using that h by (auto simp: list_all_iff is_ascii_hexdigit_def)
  obtain l ds where l: "''0x'' @ h = ds @ [l]" by (metis append_is_Nil_conv list.distinct(1) rev_exhaust)
  then have "l \<in> set (''0x'' @ h)" by simp
  note l' = visible [OF this]
  have "trim (''0x'' @ h) = ''0x'' @ h"
    by (rule trim_visible [of _ "CHR ''0''" "''x'' @ h" ds l]) (use l l' in auto)
  then show ?thesis using h n by (simp add: fixed_bytes_to_hex_def h_def [symmetric] written_number_def strip_hex_prefix_def)
qed

lemma parse_hex_text: "length b = n \<Longrightarrow> parse_fixed_bytes n (fixed_bytes_to_hex b) = Inr b"
  by (auto simp: parse_fixed_bytes_spec hex_text be_bytes_of_be)

lemma elements_read: "visit_elements (length b) (map (\<lambda>b. Sv_U64 (ucast b)) b) = Inr (b, [])"
proof -
  have "as_u8 (Sv_U64 (ucast b)) = Inr b" for b :: u8
  proof -
    have "unat b < 256" by (rule unat_u8_less)
    also have "\<dots> < 2 ^ 64" by simp
    finally have "unat b < 2 ^ 64" .
    then have u: "unat (ucast b :: u64) = unat b" by (simp add: unsigned_ucast_eq take_bit_nat_eq_self)
    then have "unat (ucast (ucast b :: u64) :: u8) = unat b" by (simp add: unsigned_ucast_eq [of "ucast b :: u64"] take_bit_nat_eq_self)
    then have "(ucast (ucast b :: u64) :: u8) = b" by (simp only: word_unat_eq_iff)
    then show ?thesis using u by (simp add: as_u8_def ensure_def)
  qed
  then show ?thesis by (induction b) (simp_all add: and_then_def)
qed

lemma fixed_bytes_round_trip: "length b = n \<Longrightarrow> deserialize_fixed_bytes h n (serialize_fixed_bytes h b) = Inr b"
  using elements_read [of b]
  by (auto simp: deserialize_fixed_bytes_def serialize_fixed_bytes_def parse_hex_text visit_seq_def and_then_def ensure_def)

lemma elements_length: "visit_elements n vs = Inr (b, rest) \<Longrightarrow> length b = n"
  by (induction n vs arbitrary: b rule: visit_elements.induct) (auto simp: and_then_Inr)

lemma fixed_bytes_length: "deserialize_fixed_bytes h n v = Inr b \<Longrightarrow> length b = n"
  by (auto simp: deserialize_fixed_bytes_def visit_seq_def and_then_Inr ensure_Inr parse_fixed_bytes_spec
      integer_to_fixed_bytes_def dest: elements_length split: serde_value.splits if_splits)

lemma vec_round_trip: "\<forall>b\<in>set vs. length b = 32 \<Longrightarrow> deserialize_vec_bytes32 (serialize_vec_bytes32 vs) = Inr vs"
proof -
  have "try_map as_string (map (\<lambda>v. Sv_Str (fixed_bytes_to_hex v)) vs) = Inr (map fixed_bytes_to_hex vs)"
    by (induction vs) (simp_all add: as_string_def and_then_def)
  moreover assume "\<forall>b\<in>set vs. length b = 32"
  then have "try_map (parse_fixed_bytes 32) (map fixed_bytes_to_hex vs) = Inr vs"
    by (induction vs) (simp_all add: parse_hex_text and_then_def)
  ultimately show ?thesis by (simp add: deserialize_vec_bytes32_def serialize_vec_bytes32_def as_seq_def and_then_def)
qed

lemma vec_vec_round_trip:
  assumes "\<forall>vs\<in>set vss. \<forall>b\<in>set vs. length b = 32"
  shows "deserialize_vec_vec_bytes32 (serialize_vec_vec_bytes32 vss) = Inr vss"
proof -
  have "try_map (\<lambda>e. and_then (as_seq e) (try_map as_string)) (map serialize_vec_bytes32 vss) = Inr (map (map fixed_bytes_to_hex) vss)"
  proof (induction vss)
    case (Cons vs vss)
    have "try_map as_string (map (\<lambda>v. Sv_Str (fixed_bytes_to_hex v)) vs) = Inr (map fixed_bytes_to_hex vs)"
      by (induction vs) (simp_all add: as_string_def and_then_def)
    then show ?case using Cons by (simp add: serialize_vec_bytes32_def as_seq_def and_then_def)
  qed simp
  moreover have "try_map (try_map (parse_fixed_bytes 32)) (map (map fixed_bytes_to_hex) vss) = Inr vss"
    using assms
  proof (induction vss)
    case (Cons vs vss)
    have "try_map (parse_fixed_bytes 32) (map fixed_bytes_to_hex vs) = Inr vs"
      using Cons.prems by (induction vs) (simp_all add: parse_hex_text and_then_def)
    then show ?case using Cons by (simp add: and_then_def)
  qed simp
  ultimately show ?thesis by (simp add: deserialize_vec_vec_bytes32_def serialize_vec_vec_bytes32_def as_seq_def and_then_def)
qed

lemma array8_round_trip:
  assumes "length vs = 8" "\<forall>b\<in>set vs. length b = 32"
  shows "deserialize_array8_bytes32 h (serialize_array8_bytes32 h vs) = Inr vs"
proof (cases h)
  case True
  have "try_map as_string (map (\<lambda>v. Sv_Str (fixed_bytes_to_hex v)) vs) = Inr (map fixed_bytes_to_hex vs)"
    by (induction vs) (simp_all add: as_string_def and_then_def)
  then show ?thesis
    using True assms vec_round_trip [OF assms(2)]
    by (simp add: deserialize_array8_bytes32_def serialize_array8_bytes32_def deserialize_vec_bytes32_def serialize_vec_bytes32_def
        as_seq_def and_then_def ensure_def)
next
  case False
  have "try_map (deserialize_fixed_bytes False 32) (map (serialize_fixed_bytes False) vs) = Inr vs"
    using assms(2) by (induction vs) (simp_all add: fixed_bytes_round_trip and_then_def)
  then show ?thesis
    using False assms(1)
    by (simp add: deserialize_array8_bytes32_def serialize_array8_bytes32_def as_seq_def and_then_def ensure_def)
qed

lemma array8_typed:
  assumes "deserialize_array8_bytes32 h v = Inr vs"
  shows "length vs = 8 \<and> (\<forall>b\<in>set vs. length b = 32)"
proof -
  have typed: "length vs = length xs \<and> (\<forall>b\<in>set vs. length b = 32)"
    if "try_map f xs = Inr vs" "\<And>x b. f x = Inr b \<Longrightarrow> length b = 32" for f :: "'a \<Rightarrow> string + bytes" and xs
    using that(1) unfolding try_map_Inr by (induction rule: list_all2_induct) (auto dest: that(2))
  have text_typed: "length b = 32" if "parse_fixed_bytes 32 x = Inr b" for x b
    using that by (auto simp: parse_fixed_bytes_spec)
  show ?thesis
  proof (cases h)
    case True
    then obtain xs where "try_map (parse_fixed_bytes 32) xs = Inr vs" "length xs = 8"
      using assms by (auto simp: deserialize_array8_bytes32_def and_then_Inr ensure_Inr)
    then show ?thesis using typed [of "parse_fixed_bytes 32" xs] text_typed by simp
  next
    case False
    then obtain xs where "try_map (deserialize_fixed_bytes False 32) xs = Inr vs" "length xs = 8"
      using assms by (auto simp: deserialize_array8_bytes32_def and_then_Inr ensure_Inr)
    then show ?thesis using typed [of "deserialize_fixed_bytes False 32" xs] fixed_bytes_length by simp
  qed
qed

text \<open>C33: whatever a field of \<open>n\<close> bytes is read from, it is \<open>n\<close> bytes, and an application state is eight fields of 32 bytes;
  a text is read as the number it writes, in hexadecimal after \<open>0x\<close> or, for 32 bytes, in decimal; and what was read is
  read back from what is written, in JSON and in the binary format.\<close>

theorem adapters_typed:
  assumes "deserialize_fixed_bytes h n v = Inr b" "deserialize_array8_bytes32 h w = Inr fs"
  shows "length b = n \<and> length fs = 8 \<and> (\<forall>f\<in>set fs. length f = 32) \<and>
    (\<forall>s. v = Sv_Str s \<longrightarrow> written_number n (trim s) = Some (of_be b)) \<and>
    deserialize_fixed_bytes h' n (serialize_fixed_bytes h' b) = Inr b \<and>
    deserialize_array8_bytes32 h' (serialize_array8_bytes32 h' fs) = Inr fs"
proof -
  have "written_number n (trim s) = Some (of_be b)" if "v = Sv_Str s" for s
  proof -
    have "parse_fixed_bytes n s = Inr b" using assms(1) that by (simp add: deserialize_fixed_bytes_def split: if_splits)
    then show ?thesis by (auto simp: parse_fixed_bytes_spec of_be_be_bytes mod_less [OF written_number_bound])
  qed
  then show ?thesis
    using fixed_bytes_length [OF assms(1)] array8_typed [OF assms(2)] fixed_bytes_round_trip array8_round_trip by blast
qed

theorem adapters_typed_witness:
  "length [2, 0x1F :: u8] = 2 \<and> written_number 2 (trim '' 0x21f '') = Some (of_be [2, 0x1F])"
proof -
  have "trim '' 0x21f '' = ''0x21f''"
    by (simp add: trim_def trim_start.simps white_space_def)
  moreover have "parse_hex_fixed 2 ''21f'' = Inr [2, 0x1F]"
  proof -
    have "be_bytes 2 543 = [2, 0x1F]" by code_simp
    then show ?thesis by (simp add: parse_hex_fixed_spec is_ascii_hexdigit_def hex_value_def nibble_def)
  qed
  ultimately have "deserialize_fixed_bytes True 2 (Sv_Str '' 0x21f '') = Inr [2, 0x1F]"
    by (simp add: deserialize_fixed_bytes_def parse_fixed_bytes_def strip_hex_prefix_def)
  moreover have "deserialize_array8_bytes32 True (serialize_array8_bytes32 True (replicate 8 (replicate 32 0))) = Inr (replicate 8 (replicate 32 0))"
    by (rule array8_round_trip) simp_all
  ultimately show ?thesis using adapters_typed [of True 2 "Sv_Str '' 0x21f ''"] by blast
qed

end
