(* ===== verification/Settlement_Bundles.thy ===== *)
theory Settlement_Bundles
  imports Preflight Settlement_Receipt Bridge_Guest Serde_Bytes
begin

text \<open>
  Settlement proofs on their way to the prover: the bundle of \<open>lib.rs\<close>, its admission and the context that the gateway adds to
  it (\<open>api/src/main.rs\<close>), the native preflight of \<open>script/src/lib.rs\<close> and the preflight of \<open>api/src/prover.rs\<close>.  The Pickles
  verifier and the execution of a guest program are parameters.
\<close>

subsection \<open>Bundles\<close>

record settlement_proof_bundle =
  spb_vk_json :: string
  spb_proof_json :: string
  spb_public_input_skeleton_json :: string
  spb_app_statement_json :: string
  spb_binding :: "settlement_binding option"
  spb_context :: "settlement_context option"
  spb_inner_action_batch :: "inner_action_batch_witness option"
  spb_asset_registry_checkpoint :: "registry_checkpoint option"
  spb_asset_registry_batch :: "registry_batch option"

text \<open>The pinned verifier: its parsers, its verdict and the key that the build embeds.\<close>

record ('k, 'p) pickles_host =
  pk_parse_wrap_vk :: "string \<Rightarrow> 'k option"
  pk_canonical_wrap_vk_json :: "'k \<Rightarrow> string option"
  pk_load_verifiable :: "string \<Rightarrow> string \<Rightarrow> string \<Rightarrow> string \<Rightarrow> failure + 'p verifiable_proof"
  pk_verify :: "'p verifiable_proof \<Rightarrow> bool"
  pk_vk_json :: string
  pk_vk_hash :: bytes

definition load_verifiable_bundle :: "('k, 'p) pickles_host \<Rightarrow> settlement_proof_bundle \<Rightarrow> failure + 'p verifiable_proof" where
  "load_verifiable_bundle P b =
     pk_load_verifiable P (spb_vk_json b) (spb_proof_json b) (spb_public_input_skeleton_json b) (spb_app_statement_json b)"

definition native_verify_settlement :: "('k, 'p) pickles_host \<Rightarrow> settlement_proof_bundle \<Rightarrow> failure + 'p verifiable_proof" where
  "native_verify_settlement P b =
     and_then (expect (pk_parse_wrap_vk P (spb_vk_json b)) (plain_failure ''parse settlement VK JSON'')) (\<lambda>vk.
     and_then (expect (pk_canonical_wrap_vk_json P vk) (plain_failure ''settlement VK has no canonical form'')) (\<lambda>supplied_vk.
     and_then (expect (pk_parse_wrap_vk P (pk_vk_json P)) (plain_failure ''build-generated settlement VK JSON must parse'')) (\<lambda>vk.
     and_then (expect (pk_canonical_wrap_vk_json P vk)
       (plain_failure ''build-generated settlement VK must canonicalize'')) (\<lambda>pinned_vk.
     ensure (supplied_vk = pinned_vk) (plain_failure ''settlement VK does not match the pinned verifier'') (
     and_then (load_verifiable_bundle P b) (\<lambda>verifiable.
     ensure (pk_verify P verifiable) (plain_failure ''Pickles proof verification failed'') (Inr verifiable)))))))"

definition bundle_witness :: "settlement_proof_bundle \<Rightarrow> failure + settlement_witness option" where
  "bundle_witness b =
     (case (spb_binding b, spb_context b) of
        (Some binding, Some context) \<Rightarrow> Inr (Some
          \<lparr>sw_binding = binding, sw_context = context, sw_inner_action_batch = spb_inner_action_batch b,
           sw_asset_registry_checkpoint = spb_asset_registry_checkpoint b, sw_asset_registry_batch = spb_asset_registry_batch b\<rparr>)
      | (None, None) \<Rightarrow> Inr None
      | _ \<Rightarrow> Inl (plain_failure ''settlement binding and context must either both be present or absent''))"

definition native_settlement_preflight ::
  "crypto \<Rightarrow> ('k, 'p) pickles_host \<Rightarrow> settlement_proof_bundle \<Rightarrow> failure + bytes" where
  "native_settlement_preflight H P b =
     and_then (native_verify_settlement P b) (\<lambda>verifiable.
     and_then (bundle_witness b) (\<lambda>witness.
     and_then (expect witness (plain_failure ''settlement binding and context are required for native preflight'')) (\<lambda>witness.
     case derive_receipt_bytes H (vp_app_state verifiable) witness (pk_vk_hash P) of
       Inl _ \<Rightarrow> Inl (plain_failure ''settlement receipt derivation failed'')
     | Inr public_values \<Rightarrow> Inr public_values)))"

text \<open>What a guest program reads.\<close>

datatype 'p guest_stdin = Stdin_Settlement "'p verifiable_proof" "settlement_witness option" | Stdin_Bridge bridge_transition_input

definition settlement_stdin_from_bundle ::
  "('k, 'p) pickles_host \<Rightarrow> settlement_proof_bundle \<Rightarrow> failure + 'p guest_stdin" where
  "settlement_stdin_from_bundle P b =
     and_then (load_verifiable_bundle P b) (\<lambda>verifiable.
     and_then (bundle_witness b) (\<lambda>witness. Inr (Stdin_Settlement verifiable witness)))"

text \<open>
  The input of a job as the prover reads it: the bundle under \<open>proof\<close> of a settlement, if there is one and it parses, and the
  whole value of a bridge batch.
\<close>

record prover_input =
  pi_proof :: "(failure + settlement_proof_bundle) option"
  pi_bridge :: "failure + bridge_transition_input"

definition input_bundle :: "prover_input \<Rightarrow> failure + settlement_proof_bundle" where
  "input_bundle input = and_then (expect (pi_proof input) (plain_failure ''settlement proof bundle is required'')) (\<lambda>b. b)"

definition stdin_for :: "('k, 'p) pickles_host \<Rightarrow> proof_kind \<Rightarrow> prover_input \<Rightarrow> failure + 'p guest_stdin" where
  "stdin_for P kind input =
     (case kind of
        Settlement \<Rightarrow> and_then (input_bundle input) (settlement_stdin_from_bundle P)
      | Bridge \<Rightarrow> and_then (pi_bridge input) (\<lambda>i. Inr (Stdin_Bridge i)))"

definition prover_preflight ::
  "(wire_error \<Rightarrow> string) \<Rightarrow> crypto \<Rightarrow> ('k, 'p) pickles_host \<Rightarrow> ('p guest_stdin \<Rightarrow> failure + bytes \<times> u64) \<Rightarrow>
   proof_kind \<Rightarrow> prover_input \<Rightarrow> bool \<Rightarrow> failure + preflight \<times> bytes \<times> u64 option" where
  "prover_preflight describe H P execute_minimal kind input execute_settlement =
     (if kind = Settlement \<and> \<not> execute_settlement
      then and_then (input_bundle input) (\<lambda>b.
        and_then (native_settlement_preflight H P b) (\<lambda>public_values.
        and_then (preflight_decode describe kind public_values) (\<lambda>p. Inr (p, public_values, None))))
      else and_then (stdin_for P kind input) (\<lambda>stdin.
        and_then (execute_minimal stdin) (\<lambda>(public_values, cycles).
        and_then (preflight_decode describe kind public_values) (\<lambda>p. Inr (p, public_values, Some cycles)))))"

subsection \<open>Requests\<close>

record settlement_request =
  rq_schema_version :: u16
  rq_mina_transaction_hash :: string
  rq_proof :: settlement_proof_bundle
  rq_reservation :: "reservation_token option"

definition is_bytes32_hex :: "string \<Rightarrow> bool" where
  "is_bytes32_hex s \<longleftrightarrow> length s = 66 \<and> take 2 s = ''0x'' \<and> list_all is_ascii_hexdigit (drop 2 s)"

text \<open>The request that is admitted: its context is dropped, its withdrawals are those of the bridge of this gateway.\<close>

definition admitted_request :: "bytes \<Rightarrow> settlement_request \<Rightarrow> (nat \<times> string) + settlement_request" where
  "admitted_request bridge_address request =
     ensure (rq_schema_version request = 1) (400, ''unsupported settlement schemaVersion'') (
     ensure (is_bytes32_hex (rq_mina_transaction_hash request))
       (400, ''minaTransactionHash must be a 32-byte 0x-prefixed hex value'') (
     ensure (spb_binding (rq_proof request) \<noteq> None)
       (400, ''settlement proof must include the OCaml account-update binding'') (
     Inr (request\<lparr>rq_proof := (rq_proof request)\<lparr>spb_context := None,
       spb_inner_action_batch := map_option (\<lambda>batch. batch\<lparr>ib_bridge_address := bridge_address\<rparr>)
         (spb_inner_action_batch (rq_proof request))\<rparr>\<rparr>))))"

definition create_settlement ::
  "text_codec \<Rightarrow> (uuid \<Rightarrow> string) \<Rightarrow> (job_input \<Rightarrow> string) \<Rightarrow> (settlement_request \<Rightarrow> job_input) \<Rightarrow> bytes \<Rightarrow> nat \<Rightarrow> uuid \<Rightarrow> uuid \<Rightarrow>
   string option \<Rightarrow> settlement_request \<Rightarrow> gateway \<Rightarrow> (nat \<times> string) + uuid \<times> gateway" where
  "create_settlement T show_uuid digest to_value bridge_address now fresh i header_key request g =
     and_then (admitted_request bridge_address request) (\<lambda>request.
     case create_job T show_uuid digest now fresh i header_key Settlement (to_value request) g of
       Inl e \<Rightarrow> Inl (error_response e)
     | Inr r \<Rightarrow> Inr r)"

subsection \<open>The context\<close>

definition hydrate_settlement_context ::
  "ethereum_view \<Rightarrow> (string \<Rightarrow> bytes option) \<Rightarrow> settlement_proof_bundle \<Rightarrow> string \<Rightarrow> failure + settlement_proof_bundle" where
  "hydrate_settlement_context V decode_hex b mina_transaction_hash =
     and_then (ev_settlement_state V) (\<lambda>chain.
     and_then (ev_chain_id V) (\<lambda>chain_id.
     and_then (expect (strip_0x mina_transaction_hash) (plain_failure ''mina transaction hash must be 0x-prefixed'')) (\<lambda>hex.
     and_then (expect (decode_hex hex) (plain_failure ''invalid hex'')) (\<lambda>hash.
     ensure (length hash = 32) (plain_failure ''mina transaction hash must be 32 bytes'') (
     and_then (expect (checked_add (ss_batch_sequence chain) 1) (plain_failure ''settlement batch sequence overflow'')) (\<lambda>sequence.
     let context = \<lparr>sc_chain_id = chain_id, sc_settlement_contract = ev_settlement_address V, sc_batch_sequence = sequence,
       sc_mina_transaction_hash = hash, sc_outer_action_state_length_before = ss_outer_action_state_length chain\<rparr> in
     ensure (case spb_context b of None \<Rightarrow> True | Some supplied \<Rightarrow> supplied = context)
       (plain_failure ''stale settlement Ethereum context'') (
     Inr (b\<lparr>spb_context := Some context\<rparr>))))))))"

text \<open>The input of a queued settlement: its members, where they are there and have the right type.\<close>

record queued_settlement =
  qs_mina_transaction_hash :: "string option"
  qs_proof :: "(failure + settlement_proof_bundle) option"

definition hydrate_queued_settlement ::
  "ethereum_view \<Rightarrow> (string \<Rightarrow> bytes option) \<Rightarrow> queued_settlement \<Rightarrow> failure + queued_settlement" where
  "hydrate_queued_settlement V decode_hex input =
     and_then (expect (qs_mina_transaction_hash input) (plain_failure ''queued settlement has no Mina transaction hash'')) (\<lambda>hash.
     and_then (expect (qs_proof input) (plain_failure ''queued settlement has no proof bundle'')) (\<lambda>p.
     and_then p (\<lambda>b.
     and_then (hydrate_settlement_context V decode_hex b hash) (\<lambda>b'. Inr (input\<lparr>qs_proof := Some (Inr b')\<rparr>)))))"

lemma hydrated_context:
  assumes "hydrate_settlement_context V decode_hex b hash = Inr b'"
  shows "\<exists>chain c. ev_settlement_state V = Inr chain \<and> b' = b\<lparr>spb_context := Some c\<rparr> \<and> ev_chain_id V = Inr (sc_chain_id c) \<and>
    sc_settlement_contract c = ev_settlement_address V \<and> sc_batch_sequence c = ss_batch_sequence chain + 1 \<and>
    unat (ss_batch_sequence chain) + 1 < 2 ^ 64 \<and> length (sc_mina_transaction_hash c) = 32 \<and>
    sc_outer_action_state_length_before c = ss_outer_action_state_length chain"
  using assms
  by (auto simp: hydrate_settlement_context_def res_simps Let_def checked_add_def split: if_splits)

text \<open>A bundle that has its context keeps it, and is refused once the contract has moved on.\<close>

lemma rehydrated:
  assumes "hydrate_settlement_context V decode_hex b hash = Inr b'" "hydrate_settlement_context V' decode_hex b' hash' = Inr b''"
  shows "b'' = b'"
  using assms
  by (auto simp: hydrate_settlement_context_def res_simps Let_def split: if_splits option.splits)

subsection \<open>Preflight and validation\<close>

lemma settlement_of_published:
  "publishes H app_state w vk v \<Longrightarrow> v1_accepts H app_state w \<and> settlement v = v1_output H app_state w vk"
  by (auto simp: publishes_def Let_def v2_output_def v3_output_def v4_output_def split: option.splits)

lemma fields_eq: "length xs = length ys \<Longrightarrow> ensure_fields_eq k xs ys = Inr () \<longleftrightarrow> xs = ys"
  by (induction k xs ys rule: ensure_fields_eq.induct) (auto simp: ensure_Inr)

text \<open>What a native preflight decodes to.\<close>

lemma native_preflight_publishes:
  assumes "native_settlement_preflight H P b = Inr bs" "preflight_decode describe Settlement bs = Inr p"
    and "spb_binding b = Some binding" "spb_context b = Some c" "\<And>x. length (keccak256 H x) = 32" "length (pk_vk_hash P) = 32"
    and "wf_settlement_witness \<lparr>sw_binding = binding, sw_context = c, sw_inner_action_batch = spb_inner_action_batch b,
      sw_asset_registry_checkpoint = spb_asset_registry_checkpoint b, sw_asset_registry_batch = spb_asset_registry_batch b\<rparr>"
  shows "\<exists>v verifiable. p = Pf_Settlement v \<and> load_verifiable_bundle P b = Inr verifiable \<and> pk_verify P verifiable \<and>
    publishes H (vp_app_state verifiable) \<lparr>sw_binding = binding, sw_context = c, sw_inner_action_batch = spb_inner_action_batch b,
      sw_asset_registry_checkpoint = spb_asset_registry_checkpoint b, sw_asset_registry_batch = spb_asset_registry_batch b\<rparr>
      (pk_vk_hash P) v"
proof -
  let ?w = "\<lparr>sw_binding = binding, sw_context = c, sw_inner_action_batch = spb_inner_action_batch b,
      sw_asset_registry_checkpoint = spb_asset_registry_checkpoint b, sw_asset_registry_batch = spb_asset_registry_batch b\<rparr>"
  obtain verifiable where l: "load_verifiable_bundle P b = Inr verifiable" "pk_verify P verifiable"
    and d: "derive_receipt_bytes H (vp_app_state verifiable) ?w (pk_vk_hash P) = Inr bs"
  proof -
    obtain verifiable where n: "native_verify_settlement P b = Inr verifiable"
      and "(case derive_receipt_bytes H (vp_app_state verifiable) ?w (pk_vk_hash P) of
        Inl _ \<Rightarrow> Inl (plain_failure ''settlement receipt derivation failed'') | Inr bs \<Rightarrow> Inr bs) = Inr bs"
      using assms(1,3,4) by (auto simp: native_settlement_preflight_def bundle_witness_def res_simps)
    then have "derive_receipt_bytes H (vp_app_state verifiable) ?w (pk_vk_hash P) = Inr bs" by (simp split: sum.splits)
    then show ?thesis using that n by (auto simp: native_verify_settlement_def res_simps)
  qed
  obtain v where "publishes H (vp_app_state verifiable) ?w (pk_vk_hash P) v" "decode_public_values bs = Inr v"
    using derive_receipt_bytes_Inr [OF assms(7,6,5), THEN iffD1, OF d] by blast
  then show ?thesis
    using l assms(2) by (auto simp: preflight_decode_def decode_error_def res_simps)
qed

subsection \<open>Properties\<close>

text \<open>
  C5: A hydrated settlement passes validation exactly when its proof starts where the contract stands.  The context that the
  gateway adds answers everything in the validation that the proof does not bind: chain, contract, batch sequence (whose
  increment never wraps) and length of the outer action state.  What is left is the program key, the verifier key, and the
  outer action state, the outer state and the ledger that the proof takes as its start.  And a bundle is never hydrated
  twice in different ways.
\<close>

theorem hydrated_preflight_exact:
  assumes "hydrate_settlement_context V decode_hex b hash = Inr b'" "spb_binding b = Some binding"
    and "native_settlement_preflight H P b' = Inr bs" "preflight_decode describe Settlement bs = Inr p"
    and "ev_settlement_state V = Inr onchain" "ev_program_vkey V = Inr vkey"
    and "length (ev_settlement_address V) = 20" "length (pk_vk_hash P) = 32" "\<And>x. length (keccak256 H x) = 32"
    and "length (os_fields (sb_state_before binding)) = 8" "length (ss_outer_state onchain) = 8"
    and "\<forall>batch. spb_inner_action_batch b = Some batch \<longrightarrow> length (ib_bridge_address batch) = 20"
  shows "(validate_preflight V input p = Inr () \<longleftrightarrow>
      to_ascii_lowercase vkey = to_ascii_lowercase (ss_program_vkey onchain) \<and> pk_vk_hash P = ss_vk_hash onchain \<and>
      field_to_bytes (num (ci_field_elements (sb_account_update_body binding) ! 36)) = ss_action_state onchain \<and>
      os_fields (sb_state_before binding) = ss_outer_state onchain \<and> ledger_hash (sb_state_before binding) = ss_current_root onchain) \<and>
    (\<forall>V' hash' b''. hydrate_settlement_context V' decode_hex b' hash' = Inr b'' \<longrightarrow> b'' = b')"
proof -
  obtain c where c: "b' = b\<lparr>spb_context := Some c\<rparr>" "ev_chain_id V = Inr (sc_chain_id c)"
    "sc_settlement_contract c = ev_settlement_address V" "sc_batch_sequence c = ss_batch_sequence onchain + 1"
    "length (sc_mina_transaction_hash c) = 32" "sc_outer_action_state_length_before c = ss_outer_action_state_length onchain"
    using hydrated_context [OF assms(1)] assms(5) by auto
  let ?w = "\<lparr>sw_binding = binding, sw_context = c, sw_inner_action_batch = spb_inner_action_batch b,
      sw_asset_registry_checkpoint = spb_asset_registry_checkpoint b, sw_asset_registry_batch = spb_asset_registry_batch b\<rparr>"
  have wf: "wf_settlement_witness ?w"
    using c(3,5) assms(7,10,12) by (simp add: wf_settlement_witness_def)
  have "\<exists>v verifiable. p = Pf_Settlement v \<and> load_verifiable_bundle P b' = Inr verifiable \<and> publishes H (vp_app_state verifiable) ?w (pk_vk_hash P) v"
    using native_preflight_publishes [OF assms(3,4), of binding c] wf assms(2,8,9) by (auto simp: c(1))
  then obtain v verifiable where p: "p = Pf_Settlement v" "load_verifiable_bundle P b' = Inr verifiable" and v: "publishes H (vp_app_state verifiable) ?w (pk_vk_hash P) v"
    by blast
  have a: "v1_accepts H (vp_app_state verifiable) ?w" "settlement v = v1_output H (vp_app_state verifiable) ?w (pk_vk_hash P)"
    using settlement_of_published [OF v] by simp_all
  have b: "body_of ?w ! 36 = num (ci_field_elements (sb_account_update_body binding) ! 36)"
    using a(1) by (simp add: body_of_def v1_accepts_def Let_def)
  show ?thesis
    using rehydrated [OF assms(1)] fields_eq [of "os_fields (sb_state_before binding)" "ss_outer_state onchain"] assms(5,6,10,11) c b
    by (auto simp: validate_preflight_def p(1) a(2) validate_settlement_def ensure_hex_eq_def ensure_bytes_eq_def res_simps
        v1_output_def Let_def)
qed

text \<open>The sample settlement, at a contract that has settled 41 batches.\<close>

definition sample_bundle :: settlement_proof_bundle where
  "sample_bundle =
     \<lparr>spb_vk_json = ''vk'', spb_proof_json = ''p'', spb_public_input_skeleton_json = [], spb_app_statement_json = [],
      spb_binding = Some (sample_binding 9), spb_context = None, spb_inner_action_batch = Some sample_inner_batch,
      spb_asset_registry_checkpoint = None, spb_asset_registry_batch = None\<rparr>"

definition sample_host :: "(string, unit) pickles_host" where
  "sample_host =
     \<lparr>pk_parse_wrap_vk = Some, pk_canonical_wrap_vk_json = Some,
      pk_load_verifiable = (\<lambda>_ _ _ _. Inr \<lparr>vp_app_state = [1, 0], vp_proof = ()\<rparr>), pk_verify = (\<lambda>_. True),
      pk_vk_json = ''vk'', pk_vk_hash = replicate 32 0x22\<rparr>"

definition settled_state :: settlement_state where
  "settled_state =
     \<lparr>ss_program_vkey = ''0xAB'', ss_vk_hash = replicate 32 0x22, ss_action_state = small_bytes 33,
      ss_current_root = small_bytes 1, ss_outer_state = os_fields (sb_state_before (sample_binding 9)),
      ss_outer_action_state_length = 7, ss_batch_sequence = 41\<rparr>"

definition settled_view :: ethereum_view where
  "settled_view =
     (sample_view 0)\<lparr>ev_chain_id := Inr 5, ev_settlement_address := replicate 20 0x11, ev_settlement_state := Inr settled_state\<rparr>"

theorem hydrated_preflight_exact_witness:
  "\<exists>b' bs p. hydrate_settlement_context settled_view (\<lambda>_. Some (replicate 32 0x44)) sample_bundle ''0x44'' = Inr b' \<and>
     native_settlement_preflight ladder_crypto sample_host b' = Inr bs \<and>
     preflight_decode (\<lambda>_. []) Settlement bs = Inr p \<and> (\<forall>input. validate_preflight settled_view input p = Inr ())"
proof -
  let ?b = "sample_bundle\<lparr>spb_context := Some (sw_context (sample_witness 9))\<rparr>"
  let ?v = "V2 (v2_output ladder_crypto (v1_output ladder_crypto [1, 0] (sample_witness 9) (replicate 32 0x22)) sample_inner_batch)"
  have h: "hydrate_settlement_context settled_view (\<lambda>_. Some (replicate 32 0x44)) sample_bundle ''0x44'' = Inr ?b"
    by (simp add: hydrate_settlement_context_def settled_view_def settled_state_def sample_view_def strip_0x_def expect_def
        and_then_def ensure_def checked_add_def sample_bundle_def sample_witness_def Let_def)
  have w: "bundle_witness ?b = Inr (Some (sample_witness 9))"
    by (simp add: bundle_witness_def sample_bundle_def sample_witness_def)
  obtain bs where d: "derive_receipt_bytes ladder_crypto [1, 0] (sample_witness 9) (replicate 32 0x22) = Inr bs"
    "decode_public_values bs = Inr ?v"
  proof -
    have "wf_spv2 (v2_output ladder_crypto (v1_output ladder_crypto [1, 0] (sample_witness 9) (replicate 32 0x22)) sample_inner_batch)"
      by (intro wf_v2_output wf_v1_output sample_wf sample_accepts) (simp_all add: sample_inner_batch_def)
    then obtain bs where "decode_public_values bs = Inr ?v" using receipt.round_trip [of ?v] by auto
    then show ?thesis
      using that sample_publishes [of 9] derive_receipt_bytes_Inr [OF sample_wf [of 9], of "replicate 32 0x22" ladder_crypto "[1, 0]" bs]
      by auto
  qed
  have n: "native_settlement_preflight ladder_crypto sample_host ?b = Inr bs"
    using w d(1)
    by (simp add: native_settlement_preflight_def native_verify_settlement_def load_verifiable_bundle_def sample_host_def
        sample_bundle_def expect_def and_then_def ensure_def)
  have p: "preflight_decode (\<lambda>_. []) Settlement bs = Inr (Pf_Settlement ?v)"
    using d(2) by (simp add: preflight_decode_def decode_error_def and_then_def)
  have "validate_preflight settled_view input (Pf_Settlement ?v) = Inr ()" for input
  proof (rule hydrated_preflight_exact [OF h _ n p, of "sample_binding 9" settled_state "''0xab''", THEN conjunct1, THEN iffD2])
    show "to_ascii_lowercase ''0xab'' = to_ascii_lowercase (ss_program_vkey settled_state) \<and>
      pk_vk_hash sample_host = ss_vk_hash settled_state \<and>
      field_to_bytes (num (ci_field_elements (sb_account_update_body (sample_binding 9)) ! 36)) = ss_action_state settled_state \<and>
      os_fields (sb_state_before (sample_binding 9)) = ss_outer_state settled_state \<and>
      ledger_hash (sb_state_before (sample_binding 9)) = ss_current_root settled_state"
    proof -
      have "to_ascii_lowercase ''0xab'' = to_ascii_lowercase ''0xAB''" by code_simp
      moreover have "field_to_bytes (num (small_bytes 33)) = small_bytes 33"
        using small_bytes_canonical [of 33] by (simp add: canonical_def)
      ultimately show ?thesis by (simp add: settled_state_def sample_host_def sample_binding_def ledger_hash_def)
    qed
  qed (simp_all add: sample_bundle_def settled_view_def settled_state_def sample_view_def sample_host_def sample_binding_def
      sample_inner_batch_def)
  then show ?thesis using h n p by blast
qed

end
