(* ===== verification/Withdrawal_Service.thy ===== *)
theory Withdrawal_Service
  imports Virtual_Accounts Settlement_Receipt
begin

text \<open>
  The withdrawal proofs that \<open>api/src/main.rs\<close> serves: the leaves of a settlement, as the indexer stored them, are
  read in order, checked against each other and against the root of the receipt, and turned into a Merkle proof
  with the data that the bridge contract asks for.  What the contract answers (cursor, slot, delay) is an argument.
\<close>

subsection \<open>Columns of a stored leaf\<close>

record leaf_columns =
  lc_token :: "bytes option"
  lc_asset_id :: "bytes option"
  lc_encoding_version :: "u32 option"
  lc_registry_index :: "u32 option"
  lc_record_commitment :: "bytes option"
  lc_recipient :: "bytes option"
  lc_zeko_amount :: "u64 option"

text \<open>
  The columns hold the bytes of the hexadecimal text, whatever its letter case.  Both kinds of withdrawal in one action are
  refused when the leaf is computed.
\<close>

definition leaf_columns_of :: "inner_action_witness \<Rightarrow> leaf_columns" where
  "leaf_columns_of action =
     (case (iw_withdrawal action, iw_token_withdrawal action) of
        (Some w, _) \<Rightarrow> \<lparr>lc_token = None, lc_asset_id = None, lc_encoding_version = None, lc_registry_index = None,
          lc_record_commitment = None, lc_recipient = Some (nw_recipient w), lc_zeko_amount = Some (nw_amount w)\<rparr>
      | (None, Some w) \<Rightarrow> \<lparr>lc_token = Some (tw_token w), lc_asset_id = Some (tw_asset_id w),
          lc_encoding_version = Some (tw_encoding_version w),
          lc_registry_index = (if tw_encoding_version w = 2 then Some (tw_registry_index w) else None),
          lc_record_commitment = (if tw_encoding_version w = 2 then Some (tw_record_commitment w) else None),
          lc_recipient = Some (tw_recipient w), lc_zeko_amount = Some (tw_amount w)\<rparr>
      | (None, None) \<Rightarrow> \<lparr>lc_token = None, lc_asset_id = None, lc_encoding_version = None, lc_registry_index = None,
          lc_record_commitment = None, lc_recipient = None, lc_zeko_amount = None\<rparr>)"

text \<open>\<open>parse::<B256>\<close> and \<open>parse::<Address>\<close> of a hexadecimal column.\<close>

definition parse_fixed :: "nat \<Rightarrow> string \<Rightarrow> bytes \<Rightarrow> failure + bytes" where
  "parse_fixed n message bs = ensure (length bs = n) (plain_failure message) (Inr bs)"

subsection \<open>The proof of one leaf\<close>

record inner_action_batch_proof =
  bp_target :: leaf_row
  bp_siblings :: "bytes list"
  bp_global_action_index :: u32
  bp_commit_slot_upper :: u32

fun check_rows :: "u32 \<Rightarrow> bytes \<Rightarrow> u32 \<Rightarrow> nat \<Rightarrow> leaf_row list \<Rightarrow> failure + bytes list" where
  "check_rows start expected_root slot off [] = Inr []"
| "check_rows start expected_root slot off (r # rs) =
     ensure (lr_action_offset r = int off) (plain_failure ''inner-action batch is not contiguous'') (
     and_then (expect (checked_add start (word_of_nat off)) (plain_failure ''inner action index overflow'')) (\<lambda>index.
     ensure (lr_global_action_index r = index) (plain_failure ''inner-action batch is not contiguous'') (
     and_then (parse_fixed 32 ''invalid string length'' (lr_inner_action_root r)) (\<lambda>root.
     ensure (root = expected_root \<and> lr_commit_slot_upper r = slot)
       (plain_failure ''inner-action batch metadata is inconsistent'') (
     and_then (parse_fixed 32 ''indexed inner-action leaf is invalid'' (lr_leaf r)) (\<lambda>leaf.
     and_then (check_rows start expected_root slot (off + 1) rs) (\<lambda>leaves.
     Inr (leaf # leaves))))))))"

definition build_inner_action_batch_proof :: "crypto \<Rightarrow> leaf_row list \<Rightarrow> u32 \<Rightarrow> failure + inner_action_batch_proof" where
  "build_inner_action_batch_proof H rows offset =
     ensure (rows \<noteq> []) (plain_failure ''settlement inner-action batch not found'') (
     ensure (length rows \<le> MAX_LEAVES) (plain_failure ''inner-action batch exceeds proof tree capacity'') (
     let start_index = lr_global_action_index (hd rows); slot = lr_commit_slot_upper (hd rows) in
     and_then (parse_fixed 32 ''indexed inner-action root is invalid'' (lr_inner_action_root (hd rows))) (\<lambda>expected_root.
     and_then (check_rows start_index expected_root slot 0 rows) (\<lambda>leaves.
     let target_index = unat offset in
     and_then (expect (merkle_proof H leaves target_index) (plain_failure ''withdrawal offset is outside the batch'')) (\<lambda>siblings.
     ensure (verify_merkle_proof H (leaves ! target_index) target_index siblings expected_root)
       (plain_failure ''indexed inner actions do not reproduce their settlement root'') (
     let target = rows ! target_index in
     Inr \<lparr>bp_target = target, bp_siblings = siblings, bp_global_action_index = lr_global_action_index target,
          bp_commit_slot_upper = slot\<rparr>))))))"

definition batch_rows :: "int \<Rightarrow> leaf_row list \<Rightarrow> leaf_row list" where
  "batch_rows sequence t =
     sort_key lr_action_offset (filter (\<lambda>r. lr_settlement_sequence r = sequence \<and> \<not> lr_removed r) t)"

definition load_inner_action_batch_proof ::
  "crypto \<Rightarrow> leaf_row list \<Rightarrow> u64 \<Rightarrow> u32 \<Rightarrow> failure + inner_action_batch_proof" where
  "load_inner_action_batch_proof H t sequence offset =
     and_then (bigint sequence) (\<lambda>n. build_inner_action_batch_proof H (batch_rows n t) offset)"

subsection \<open>Withdrawals\<close>

definition withdrawal_progress :: "u32 \<Rightarrow> u32 \<Rightarrow> u64 \<Rightarrow> u64 \<Rightarrow> string \<Rightarrow> string \<times> string" where
  "withdrawal_progress global_action_index recipient_cursor current_slot claimable_slot claim_action =
     (if global_action_index < recipient_cursor then (''processed'', ''none'')
      else if current_slot < claimable_slot then (''waitingForDelay'', ''waitForWithdrawalDelay'')
      else (''claimable'', claim_action))"

record native_withdrawal_proof =
  np_settlement_sequence :: u64
  np_offset :: u32
  np_global_action_index :: u32
  np_recipient :: bytes
  np_amount :: u64
  np_action_fields_hash :: bytes
  np_siblings :: "bytes list"
  np_inner_action_root :: bytes
  np_commit_slot_upper :: u32
  np_claimable_slot :: u64
  np_current_virtual_slot :: u64
  np_recipient_cursor :: u32
  np_status :: string
  np_next_action :: string

definition ensure_native_withdrawal_kind :: "bytes option \<Rightarrow> failure + unit" where
  "ensure_native_withdrawal_kind token =
     ensure (token = None) (plain_failure ''inner action is not a claimable native withdrawal'') (Inr ())"

definition load_native_withdrawal_proof_at ::
  "crypto \<Rightarrow> (bytes \<Rightarrow> failure + u32) \<Rightarrow> leaf_row list \<Rightarrow> u64 \<Rightarrow> u32 \<Rightarrow> u64 \<Rightarrow> u32 \<Rightarrow> failure + native_withdrawal_proof" where
  "load_native_withdrawal_proof_at H next_withdrawal_index t sequence offset current_slot delay =
     and_then (load_inner_action_batch_proof H t sequence offset) (\<lambda>b.
     let target = bp_target b; columns = leaf_columns_of (lr_action target) in
     and_then (ensure_native_withdrawal_kind (lc_token columns)) (\<lambda>_.
     and_then (expect (lc_recipient columns) (plain_failure ''inner action is not a claimable native withdrawal'')) (\<lambda>recipient.
     and_then (expect (lc_zeko_amount columns) (plain_failure ''withdrawal amount missing'')) (\<lambda>amount.
     and_then (parse_fixed 20 ''indexed withdrawal recipient is invalid'' recipient) (\<lambda>address.
     and_then (next_withdrawal_index address) (\<lambda>recipient_cursor.
     let claimable_slot = ucast (bp_commit_slot_upper b) + ucast delay;
         (status, next_action) = withdrawal_progress (bp_global_action_index b) recipient_cursor current_slot claimable_slot
           ''claimNativeWithdrawal'' in
     Inr \<lparr>np_settlement_sequence = sequence, np_offset = offset, np_global_action_index = bp_global_action_index b,
          np_recipient = recipient, np_amount = amount, np_action_fields_hash = lr_action_fields_hash target,
          np_siblings = bp_siblings b, np_inner_action_root = lr_inner_action_root target,
          np_commit_slot_upper = bp_commit_slot_upper b, np_claimable_slot = claimable_slot,
          np_current_virtual_slot = current_slot, np_recipient_cursor = recipient_cursor, np_status = status,
          np_next_action = next_action\<rparr>))))))"

record action_identity =
  ai_encoding_version :: u32
  ai_registry_index :: "u32 option"
  ai_record_commitment :: "bytes option"

definition HISTORICAL_ERC20_ACTION_ENCODING_V1 :: u32 where
  "HISTORICAL_ERC20_ACTION_ENCODING_V1 = 1"

definition decode_action_identity :: "u32 \<Rightarrow> u32 option \<Rightarrow> bytes option \<Rightarrow> failure + action_identity" where
  "decode_action_identity encoding_version registry_index record_commitment =
     (if encoding_version = 0 \<or> encoding_version = HISTORICAL_ERC20_ACTION_ENCODING_V1 then
        ensure (registry_index = None \<and> record_commitment = None) (plain_failure ''unregistered action has registry identity'')
          (Inr \<lparr>ai_encoding_version = encoding_version, ai_registry_index = None, ai_record_commitment = None\<rparr>)
      else if encoding_version = ERC20_ACTION_ENCODING_V2 then
        and_then (expect registry_index (plain_failure ''registry action is missing its index'')) (\<lambda>i.
        and_then (expect record_commitment (plain_failure ''registry action is missing its record commitment'')) (\<lambda>c.
        and_then (parse_fixed 32 ''registry action record commitment is invalid'' c) (\<lambda>c.
        ensure (c \<noteq> replicate 32 0) (plain_failure ''registry action record commitment is zero'')
          (Inr \<lparr>ai_encoding_version = encoding_version, ai_registry_index = Some i, ai_record_commitment = Some c\<rparr>))))
      else Inl (plain_failure (''unsupported action encoding version '' @ show_nat (unat encoding_version))))"

definition ensure_registry_erc20_action_encoding :: "u32 \<Rightarrow> failure + unit" where
  "ensure_registry_erc20_action_encoding version =
     ensure (version = ERC20_ACTION_ENCODING_V2)
       (plain_failure (''unsupported registry ERC20 action encoding version '' @ show_nat (unat version))) (Inr ())"

record token_withdrawal_proof =
  tp_settlement_sequence :: u64
  tp_offset :: u32
  tp_global_action_index :: u32
  tp_token :: bytes
  tp_asset_id :: bytes
  tp_action_identity :: action_identity
  tp_recipient :: bytes
  tp_amount :: u64
  tp_action_fields_hash :: bytes
  tp_siblings :: "bytes list"
  tp_inner_action_root :: bytes
  tp_commit_slot_upper :: u32
  tp_claimable_slot :: u64
  tp_current_virtual_slot :: u64
  tp_recipient_cursor :: u32
  tp_status :: string
  tp_next_action :: string

definition load_token_withdrawal_proof_at ::
  "crypto \<Rightarrow> (bytes \<Rightarrow> bytes \<Rightarrow> failure + u32) \<Rightarrow> leaf_row list \<Rightarrow> u64 \<Rightarrow> u32 \<Rightarrow> u64 \<Rightarrow> u32 \<Rightarrow> failure + token_withdrawal_proof" where
  "load_token_withdrawal_proof_at H next_token_withdrawal_index t sequence offset current_slot delay =
     and_then (load_inner_action_batch_proof H t sequence offset) (\<lambda>b.
     let target = bp_target b; columns = leaf_columns_of (lr_action target) in
     and_then (expect (lc_token columns) (plain_failure ''inner action is not a claimable ERC20 withdrawal'')) (\<lambda>token.
     and_then (expect (lc_asset_id columns) (plain_failure ''ERC20 withdrawal asset id missing'')) (\<lambda>asset_id.
     and_then (expect (lc_encoding_version columns) (plain_failure ''ERC20 withdrawal action encoding version missing'')) (\<lambda>version.
     and_then (decode_action_identity version (lc_registry_index columns) (lc_record_commitment columns)) (\<lambda>identity.
     and_then (ensure_registry_erc20_action_encoding (ai_encoding_version identity)) (\<lambda>_.
     and_then (expect (lc_recipient columns) (plain_failure ''ERC20 withdrawal recipient missing'')) (\<lambda>recipient.
     and_then (expect (lc_zeko_amount columns) (plain_failure ''ERC20 withdrawal amount missing'')) (\<lambda>amount.
     and_then (parse_fixed 20 ''indexed withdrawal token is invalid'' token) (\<lambda>token_address.
     and_then (parse_fixed 20 ''indexed withdrawal recipient is invalid'' recipient) (\<lambda>recipient_address.
     and_then (next_token_withdrawal_index token_address recipient_address) (\<lambda>recipient_cursor.
     let claimable_slot = ucast (bp_commit_slot_upper b) + ucast delay;
         (status, next_action) = withdrawal_progress (bp_global_action_index b) recipient_cursor current_slot claimable_slot
           ''claimERC20Withdrawal'' in
     Inr \<lparr>tp_settlement_sequence = sequence, tp_offset = offset, tp_global_action_index = bp_global_action_index b,
          tp_token = token, tp_asset_id = asset_id, tp_action_identity = identity, tp_recipient = recipient,
          tp_amount = amount, tp_action_fields_hash = lr_action_fields_hash target, tp_siblings = bp_siblings b,
          tp_inner_action_root = lr_inner_action_root target, tp_commit_slot_upper = bp_commit_slot_upper b,
          tp_claimable_slot = claimable_slot, tp_current_virtual_slot = current_slot,
          tp_recipient_cursor = recipient_cursor, tp_status = status, tp_next_action = next_action\<rparr>)))))))))))"

subsection \<open>The rows of one settlement\<close>

definition leaf_key :: "leaf_row \<Rightarrow> int \<times> int" where
  "leaf_key r = (lr_settlement_sequence r, lr_action_offset r)"

lemma leaf_key_put: "distinct (map leaf_key t) \<Longrightarrow> distinct (map leaf_key (put_leaf r t))"
proof -
  assume d: "distinct (map leaf_key t)"
  show ?thesis
  proof (cases "leaf_key r \<in> leaf_key ` set t")
    case True
    then have "map leaf_key (put_leaf r t) = map leaf_key t"
      by (auto simp: put_leaf_def leaf_key_def list_ex_iff)
    then show ?thesis using d by simp
  next
    case False
    then show ?thesis using d by (auto simp: put_leaf_def leaf_key_def list_ex_iff image_iff)
  qed
qed

lemma set_put_leaf: "set (put_leaf r t) = insert r {x \<in> set t. leaf_key x \<noteq> leaf_key r}"
  by (auto simp: put_leaf_def leaf_key_def list_ex_iff image_iff split: if_splits)

lemma fold_put_leaf:
  assumes "distinct (map leaf_key t)" "distinct (map leaf_key rs)"
  shows "distinct (map leaf_key (fold put_leaf rs t))"
    and "set (fold put_leaf rs t) = set rs \<union> {x \<in> set t. leaf_key x \<notin> leaf_key ` set rs}"
  using assms by (induction rs arbitrary: t) (auto simp: leaf_key_put set_put_leaf)

lemma sort_key_unique:
  fixes f :: "'a \<Rightarrow> 'k::linorder"
  assumes "set xs = set ys" "distinct (map f xs)" "distinct (map f ys)" "sorted (map f ys)"
  shows "sort_key f xs = ys"
proof -
  have "map f (sort_key f xs) = map f ys"
    using assms by (intro sorted_distinct_set_unique) (auto simp: distinct_map)
  moreover have "inj_on f (set (sort_key f xs) \<union> set ys)" using assms(1,2) by (simp add: distinct_map)
  ultimately show ?thesis by (rule map_inj_on)
qed

text \<open>The rows that \<open>store_inner_action_leaves\<close> writes for a batch, and what is read back.\<close>

lemma batch_rows_stored:
  assumes "distinct (map leaf_key t)" "list_all (\<lambda>r. lr_settlement_sequence r = n \<longrightarrow> lr_removed r) t"
    and "map leaf_key rs = map (\<lambda>i. (n, int i)) [0..<length rs]" "list_all (\<lambda>r. \<not> lr_removed r) rs"
  shows "batch_rows n (fold put_leaf rs t) = rs"
proof -
  let ?t = "fold put_leaf rs t"
  have offsets: "map lr_action_offset rs = map int [0..<length rs]"
    using arg_cong [OF assms(3), of "map snd"] by (simp add: leaf_key_def comp_def)
  have d: "distinct (map leaf_key rs)" by (simp add: assms(3) distinct_map inj_on_def)
  note f = fold_put_leaf [OF assms(1) d]
  have seq: "lr_settlement_sequence r = n" if "r \<in> set rs" for r
  proof -
    have "leaf_key r \<in> set (map (\<lambda>i. (n, int i)) [0..<length rs])" using that unfolding assms(3) [symmetric] by simp
    then show ?thesis by (auto simp: leaf_key_def)
  qed
  have "set (filter (\<lambda>r. lr_settlement_sequence r = n \<and> \<not> lr_removed r) ?t) = set rs"
    using f(2) seq assms(2,4) by (auto simp: list_all_iff)
  moreover have "distinct (map lr_action_offset (filter (\<lambda>r. lr_settlement_sequence r = n \<and> \<not> lr_removed r) ?t))"
    using f(1) by (auto simp: distinct_map inj_on_def leaf_key_def)
  moreover have "distinct (map lr_action_offset rs)" "sorted (map lr_action_offset rs)"
    unfolding offsets by (auto simp: distinct_map inj_on_def sorted_map sorted_wrt_iff_nth_less)
  ultimately show ?thesis unfolding batch_rows_def by (intro sort_key_unique)
qed

subsection \<open>Leaves of an accepted batch\<close>

fun entries_of :: "crypto \<Rightarrow> u64 \<Rightarrow> bytes \<Rightarrow> nat \<Rightarrow> inner_action_witness list \<Rightarrow> (u32 \<times> bytes \<times> bytes) list" where
  "entries_of H cid bridge i [] = []"
| "entries_of H cid bridge i (a # as) =
     (word_of_nat i, fields_hash_of H a, leaf_of H cid bridge (word_of_nat i) a) # entries_of H cid bridge (Suc i) as"

lemma entries_of_nth:
  "k < length as \<Longrightarrow> entries_of H cid bridge i as ! k =
     (word_of_nat (i + k), fields_hash_of H (as ! k), leaf_of H cid bridge (word_of_nat (i + k)) (as ! k))"
  by (induction as arbitrary: i k) (auto simp: nth_Cons split: nat.splits simp del: of_nat_add)

lemma length_entries_of [simp]: "length (entries_of H cid bridge i as) = length as"
  by (induction as arbitrary: i) simp_all

lemma entries_leaves: "map (\<lambda>(_, _, leaf). leaf) (entries_of H cid bridge i as) = leaves_of H cid bridge i as"
  by (induction as arbitrary: i) simp_all

lemma stored_leaf_valid:
  assumes "valid_inner_action H a" "unat (pv2_inner_action_start_index out) + off < 2 ^ 32"
  shows "stored_leaf H out bridge off a = Inr (word_of_nat (unat (pv2_inner_action_start_index out) + off), fields_hash_of H a,
    leaf_of H (pv_chain_id (pv2_settlement out)) bridge (word_of_nat (unat (pv2_inner_action_start_index out) + off)) a)"
proof -
  have "checked_add (pv2_inner_action_start_index out) (word_of_nat off) =
      Some (word_of_nat (unat (pv2_inner_action_start_index out) + off))"
    using assms(2) by (simp add: checked_add_Some unat_of_nat take_bit_nat_eq_self del: of_nat_add)
  moreover have "action_fields_hash H (iw_fields a) = Inr (fields_hash_of H a)"
    using assms(1) by (simp add: valid_inner_action_def action_fields_hash_def fields_hash_of_def)
  moreover have "off < 2 ^ 32" using assms(2) by simp
  moreover have "tw_encoding_version w = 2" if "iw_token_withdrawal a = Some w" for w
    using that assms(1) by (simp add: valid_inner_action_def opens_erc20_def Let_def)
  moreover have "iw_withdrawal a = None \<or> iw_token_withdrawal a = None" using assms(1) by (simp add: valid_inner_action_def)
  ultimately show ?thesis
    by (auto simp: stored_leaf_def guest_failure_def expect_def leaf_of_def Let_def erc20_withdrawal_leaf_def
        ERC20_ACTION_ENCODING_V2_def split: option.splits simp del: of_nat_add)
qed

lemma stored_leaves_valid:
  assumes "list_all (valid_inner_action H) as" "unat (pv2_inner_action_start_index out) + off + length as < 2 ^ 32"
  shows "stored_leaves H out bridge off as =
    Inr (entries_of H (pv_chain_id (pv2_settlement out)) bridge (unat (pv2_inner_action_start_index out) + off) as)"
  using assms
proof (induction as arbitrary: off)
  case (Cons a as)
  then show ?case using stored_leaf_valid [of H a out off bridge] Cons.IH [of "Suc off"] by (simp del: of_nat_add)
qed simp

definition rows_of :: "spv2 \<Rightarrow> int \<Rightarrow> int \<Rightarrow> bytes \<Rightarrow> inner_action_witness list \<Rightarrow> (u32 \<times> bytes \<times> bytes) list \<Rightarrow> leaf_row list" where
  "rows_of out sequence n tx as es =
     map (\<lambda>(off, action, row). leaf_row_of out sequence n tx off action row) (zip [0..<length es] (zip as es))"

lemma fold_rows_of:
  "fold (\<lambda>(off, action, row). put_leaf (leaf_row_of out sequence n tx off action row)) xs t =
     fold put_leaf (map (\<lambda>(off, action, row). leaf_row_of out sequence n tx off action row) xs) t"
  by (induction xs arbitrary: t) auto

lemma length_leaf_of: "(\<And>x. length (keccak256 H x) = 32) \<Longrightarrow> length (leaf_of H cid bridge i a) = 32"
  by (simp add: leaf_of_def native_withdrawal_leaf_def raw_inner_action_leaf_def split: option.splits)

lemma rows_of_nth:
  assumes "k < length as" "length es = length as" "es ! k = (g, f, l)"
  shows "rows_of out sequence n tx as es ! k = leaf_row_of out sequence n tx k (as ! k) (g, f, l)"
  using assms by (simp add: rows_of_def)

text \<open>A batch that the guest accepted is stored, and its rows are the entries of the batch.\<close>

lemma accepted_batch_stored:
  assumes "wf_spv1 v" "derive_v2_receipt H v b = Inr out"
    and "i64_of_u64 (pv_batch_sequence v) = Some sequence" "i64_of_u64 block = Some n"
  defines "es \<equiv> entries_of H (pv_chain_id v) (ib_bridge_address b) (unat (pv2_inner_action_start_index out)) (ib_actions b)"
  shows "store_inner_action_leaves H (Inr b) out block tx t = Inr (fold put_leaf (rows_of out sequence n tx (ib_actions b) es) t)"
    and "root H (map (\<lambda>(_, _, leaf). leaf) es) = Inr (pv2_inner_action_root out)"
    and "length (ib_actions b) \<le> 65536" "list_all (valid_inner_action H) (ib_actions b)"
    and "unat (pv2_inner_action_start_index out) + length (ib_actions b) < 2 ^ 32"
proof -
  have acc: "v2_accepts H v b" "out = v2_output H v b" using assms(1,2) by (simp_all add: derive_v2_receipt_Inr)
  let ?s = "of_be (inner_action_state_length (pv_state_before v))" and ?n = "length (ib_actions b)"
  have a: "?n \<le> 65536" "list_all (valid_inner_action H) (ib_actions b)" "?s + ?n < 2 ^ 32"
    using acc(1) by (auto simp: v2_accepts_def Let_def)
  have out: "pv2_settlement out = v" "pv2_bridge_address out = ib_bridge_address b" "unat (pv2_inner_action_start_index out) = ?s"
    "unat (pv2_inner_action_count out) = ?n"
    using a by (simp_all add: acc(2) v2_output_def Let_def unat_of_nat take_bit_nat_eq_self)
  have r: "root H (map (\<lambda>(_, _, leaf). leaf) es) = Inr (pv2_inner_action_root out)"
    using a(1) unfolding es_def entries_leaves out(3)
    by (simp add: root_is_perfect_root acc(2) v2_output_def Let_def TREE_DEPTH_def)
  have "stored_leaves H out (ib_bridge_address b) 0 (ib_actions b) = Inr es"
    using stored_leaves_valid [of H "ib_actions b" out 0] a out by (simp add: es_def)
  then show "store_inner_action_leaves H (Inr b) out block tx t = Inr (fold put_leaf (rows_of out sequence n tx (ib_actions b) es) t)"
    using r assms(3,4) out
    by (simp add: store_inner_action_leaves_def guest_failure_def bigint_def expect_def rows_of_def flip: fold_rows_of)
  show "?n \<le> 65536" "list_all (valid_inner_action H) (ib_actions b)" "unat (pv2_inner_action_start_index out) + ?n < 2 ^ 32"
    using a out by simp_all
  show "root H (map (\<lambda>(_, _, leaf). leaf) es) = Inr (pv2_inner_action_root out)" by (rule r)
qed

lemma check_rows_ok:
  assumes "\<And>i. i < length rs \<Longrightarrow> lr_action_offset (rs ! i) = int (off + i) \<and>
      lr_global_action_index (rs ! i) = word_of_nat (unat start + off + i) \<and> lr_inner_action_root (rs ! i) = r \<and>
      lr_commit_slot_upper (rs ! i) = slot \<and> length (lr_leaf (rs ! i)) = 32"
    and "length r = 32" "unat start + off + length rs < 2 ^ 32"
  shows "check_rows start r slot off rs = Inr (map lr_leaf rs)"
  using assms(1,3)
proof (induction rs arbitrary: off)
  case (Cons x rs)
  have "checked_add start (word_of_nat off) = Some (word_of_nat (unat start + off))"
    using Cons.prems(2) by (simp add: checked_add_Some unat_of_nat take_bit_nat_eq_self del: of_nat_add)
  moreover have "check_rows start r slot (off + 1) rs = Inr (map lr_leaf rs)"
    by (rule Cons.IH) (use Cons.prems(1) [of "Suc _"] Cons.prems(2) in \<open>simp_all del: of_nat_add of_nat_Suc\<close>)
  ultimately show ?case
    using Cons.prems(1) [of 0] assms(2) by (simp add: parse_fixed_def expect_def del: of_nat_add)
qed simp

text \<open>The batch proof that is served for an action of an accepted batch.\<close>

lemma accepted_batch_proof:
  assumes acc: "wf_spv1 v" "derive_v2_receipt H v b = Inr out" "\<And>x. length (keccak256 H x) = 32"
    and n: "i64_of_u64 (pv_batch_sequence v) = Some sequence" "i64_of_u64 block = Some n"
    and t: "distinct (map leaf_key t)" "list_all (\<lambda>r. lr_settlement_sequence r = sequence \<longrightarrow> lr_removed r) t"
    and i: "i < length (ib_actions b)"
  obtains t' p where "store_inner_action_leaves H (Inr b) out block tx t = Inr t'"
    "load_inner_action_batch_proof H t' (pv_batch_sequence v) (word_of_nat i) = Inr p"
    "lr_action (bp_target p) = ib_actions b ! i" "lr_action_fields_hash (bp_target p) = fields_hash_of H (ib_actions b ! i)"
    "lr_inner_action_root (bp_target p) = pv2_inner_action_root out" "valid_inner_action H (ib_actions b ! i)"
    "bp_global_action_index p = pv2_inner_action_start_index out + word_of_nat i"
    "bp_commit_slot_upper p = pv_slot_upper v"
    "verify_merkle_proof H (leaf_of H (pv_chain_id v) (pv2_bridge_address out) (bp_global_action_index p) (ib_actions b ! i)) i
      (bp_siblings p) (pv2_inner_action_root out)"
proof -
  let ?s = "unat (pv2_inner_action_start_index out)" and ?as = "ib_actions b"
  define es where "es = entries_of H (pv_chain_id v) (ib_bridge_address b) ?s ?as"
  define rs where "rs = rows_of out sequence n tx ?as es"
  note st = accepted_batch_stored [OF acc(1,2) n, folded es_def]
  note stored = accepted_batch_stored(1) [OF acc(1,2) n, of tx t, folded es_def, folded rs_def]
  have out: "pv2_settlement out = v" "pv2_bridge_address out = ib_bridge_address b" "length (pv2_inner_action_root out) = 32"
    using acc unfolding derive_v2_receipt_Inr [OF acc(1)]
    by (auto simp: v2_output_def Let_def length_perfect_root hash_node_def)
  have len [simp]: "length rs = length ?as" "length es = length ?as" by (simp_all add: rs_def rows_of_def es_def)
  have row: "rs ! k = leaf_row_of out sequence n tx k (?as ! k) (word_of_nat (?s + k), fields_hash_of H (?as ! k),
      leaf_of H (pv_chain_id v) (ib_bridge_address b) (word_of_nat (?s + k)) (?as ! k))" if "k < length ?as" for k
    using that entries_of_nth [of k ?as H "pv_chain_id v" "ib_bridge_address b" ?s]
    unfolding rs_def by (intro rows_of_nth) (simp_all add: es_def del: of_nat_add)
  have leaves: "map lr_leaf rs = map (\<lambda>(_, _, leaf). leaf) es"
    by (rule nth_equalityI) (simp_all add: row es_def entries_of_nth leaf_row_of_def del: of_nat_add)
  have "batch_rows sequence (fold put_leaf rs t) = rs"
    by (rule batch_rows_stored [OF t])
      (auto simp: row leaf_row_of_def leaf_key_def list_all_length simp del: of_nat_add intro!: nth_equalityI)
  moreover have h0: "rs \<noteq> []" using le_less_trans [OF le0 i] unfolding len(1) [symmetric] by (rule length_greater_0_conv [THEN iffD1])
  then have hd: "lr_global_action_index (hd rs) = pv2_inner_action_start_index out"
    "lr_commit_slot_upper (hd rs) = pv_slot_upper v" "lr_inner_action_root (hd rs) = pv2_inner_action_root out"
    using out by (simp_all add: hd_conv_nth row [OF le_less_trans [OF le0 i]] leaf_row_of_def)
  moreover have "check_rows (pv2_inner_action_start_index out) (pv2_inner_action_root out) (pv_slot_upper v) 0 rs = Inr (map lr_leaf rs)"
    by (rule check_rows_ok)
      (use out st(5) acc(3) in \<open>simp_all add: row leaf_row_of_def length_leaf_of del: of_nat_add\<close>)
  moreover obtain siblings where "merkle_proof H (map lr_leaf rs) i = Some siblings"
    "verify_merkle_proof H (map lr_leaf rs ! i) i siblings (pv2_inner_action_root out)"
    using merkle_proof_spec [of "map lr_leaf rs" i H] st(2,3) i unfolding leaves by auto
  moreover have u: "unat (word_of_nat i :: u32) = i" "word_of_nat (?s + i) = pv2_inner_action_start_index out + word_of_nat i"
    using i st(3) by (simp_all add: unat_of_nat take_bit_nat_eq_self)
  ultimately have load: "load_inner_action_batch_proof H (fold put_leaf rs t) (pv_batch_sequence v) (word_of_nat i) =
      Inr \<lparr>bp_target = rs ! i, bp_siblings = siblings, bp_global_action_index = pv2_inner_action_start_index out + word_of_nat i,
        bp_commit_slot_upper = pv_slot_upper v\<rparr>"
    and ver: "verify_merkle_proof H (leaf_of H (pv_chain_id v) (ib_bridge_address b) (word_of_nat (?s + i)) (?as ! i)) i siblings
      (pv2_inner_action_root out)"
    using st(3) i n(1) out(3) h0
    by (simp_all add: load_inner_action_batch_proof_def bigint_def expect_def build_inner_action_batch_proof_def
        parse_fixed_def row leaf_row_of_def Let_def)
  show thesis
    by (rule that [OF stored load]) (use st(4) i u(2) ver in \<open>simp_all add: row leaf_row_of_def out list_all_length\<close>)
qed

subsection \<open>Properties\<close>

text \<open>
  C19: Every native withdrawal of an accepted settlement can be claimed.  When the settlement guest accepts a batch, the
  indexer stores its leaves, also over rows of an orphaned settlement with the same number, and for each native
  withdrawal the service returns its recipient and amount, the root that the contract holds, and a Merkle proof of
  the leaf that the contract computes from them.
\<close>

theorem accepted_withdrawal_claimable:
  assumes "wf_spv1 v" "derive_v2_receipt H v b = Inr out" "\<And>x. length (keccak256 H x) = 32"
    and "i64_of_u64 (pv_batch_sequence v) = Some sequence" "i64_of_u64 block = Some n"
    and "distinct (map leaf_key t)" "list_all (\<lambda>r. lr_settlement_sequence r = sequence \<longrightarrow> lr_removed r) t"
    and "i < length (ib_actions b)" "iw_withdrawal (ib_actions b ! i) = Some w" "length (nw_recipient w) = 20"
    and "next_withdrawal_index (nw_recipient w) = Inr cursor"
  shows "\<exists>t' p. store_inner_action_leaves H (Inr b) out block tx t = Inr t' \<and>
    load_native_withdrawal_proof_at H next_withdrawal_index t' (pv_batch_sequence v) (word_of_nat i) slot delay = Inr p \<and>
    np_recipient p = nw_recipient w \<and> np_amount p = nw_amount w \<and> np_inner_action_root p = pv2_inner_action_root out \<and>
    verify_merkle_proof H (native_withdrawal_leaf H (pv_chain_id v) (pv2_bridge_address out) (np_global_action_index p)
      \<lparr>nw_recipient = np_recipient p, nw_amount = np_amount p\<rparr> (np_action_fields_hash p)) i (np_siblings p) (np_inner_action_root p)"
proof -
  obtain t' p where p: "store_inner_action_leaves H (Inr b) out block tx t = Inr t'"
    "load_inner_action_batch_proof H t' (pv_batch_sequence v) (word_of_nat i) = Inr p"
    "lr_action (bp_target p) = ib_actions b ! i" "lr_action_fields_hash (bp_target p) = fields_hash_of H (ib_actions b ! i)"
    "lr_inner_action_root (bp_target p) = pv2_inner_action_root out"
    "verify_merkle_proof H (leaf_of H (pv_chain_id v) (pv2_bridge_address out) (bp_global_action_index p) (ib_actions b ! i)) i
      (bp_siblings p) (pv2_inner_action_root out)"
    by (rule accepted_batch_proof [OF assms(1-8)])
  moreover obtain r a where "w = \<lparr>nw_recipient = r, nw_amount = a\<rparr>" by (cases w)
  ultimately show ?thesis
    using assms(9-11)
    by (intro exI [of _ t'])
      (simp add: load_native_withdrawal_proof_at_def leaf_columns_of_def ensure_native_withdrawal_kind_def parse_fixed_def
        expect_def leaf_of_def split_beta Let_def)
qed

text \<open>
  Every ERC-20 withdrawal of an accepted settlement can be claimed as well: the service accepts its registry identity
  and serves a Merkle proof of the leaf that the contract computes from the returned token, asset, registry index,
  record commitment, recipient and amount.
\<close>

lemma accepted_token_withdrawal_claimable:
  assumes "wf_spv1 v" "derive_v2_receipt H v b = Inr out" "\<And>x. length (keccak256 H x) = 32"
    and "i64_of_u64 (pv_batch_sequence v) = Some sequence" "i64_of_u64 block = Some n"
    and "distinct (map leaf_key t)" "list_all (\<lambda>r. lr_settlement_sequence r = sequence \<longrightarrow> lr_removed r) t"
    and "i < length (ib_actions b)" "iw_token_withdrawal (ib_actions b ! i) = Some w" "wf_token_withdrawal w"
    and "next_token_withdrawal_index (tw_token w) (tw_recipient w) = Inr cursor"
  shows "\<exists>t' p. store_inner_action_leaves H (Inr b) out block tx t = Inr t' \<and>
    load_token_withdrawal_proof_at H next_token_withdrawal_index t' (pv_batch_sequence v) (word_of_nat i) slot delay = Inr p \<and>
    tp_token p = tw_token w \<and> tp_asset_id p = tw_asset_id w \<and> tp_recipient p = tw_recipient w \<and> tp_amount p = tw_amount w \<and>
    tp_action_identity p = \<lparr>ai_encoding_version = 2, ai_registry_index = Some (tw_registry_index w),
      ai_record_commitment = Some (tw_record_commitment w)\<rparr> \<and>
    (\<exists>leaf. erc20_withdrawal_leaf H (pv_chain_id v) (pv2_bridge_address out) (tp_global_action_index p) w
        (tp_action_fields_hash p) = Inr leaf \<and>
      verify_merkle_proof H leaf i (tp_siblings p) (pv2_inner_action_root out))"
proof -
  obtain t' p where p: "store_inner_action_leaves H (Inr b) out block tx t = Inr t'"
    "load_inner_action_batch_proof H t' (pv_batch_sequence v) (word_of_nat i) = Inr p"
    "lr_action (bp_target p) = ib_actions b ! i" "lr_action_fields_hash (bp_target p) = fields_hash_of H (ib_actions b ! i)"
    "valid_inner_action H (ib_actions b ! i)"
    "verify_merkle_proof H (leaf_of H (pv_chain_id v) (pv2_bridge_address out) (bp_global_action_index p) (ib_actions b ! i)) i
      (bp_siblings p) (pv2_inner_action_root out)"
    by (rule accepted_batch_proof [OF assms(1-8)])
  have w: "tw_encoding_version w = 2" "tw_record_commitment w \<noteq> replicate 32 0" "iw_withdrawal (ib_actions b ! i) = None"
    using p(5) assms(9) by (auto simp: valid_inner_action_def opens_erc20_def Let_def)
  have d: "decode_action_identity 2 (Some r) (Some c) = Inr \<lparr>ai_encoding_version = 2, ai_registry_index = Some r, ai_record_commitment = Some c\<rparr>"
    if "length c = 32" "c \<noteq> replicate 32 0" for r c
    using that by (simp add: decode_action_identity_def HISTORICAL_ERC20_ACTION_ENCODING_V1_def ERC20_ACTION_ENCODING_V2_def
        expect_def parse_fixed_def)
  show ?thesis
    using p w assms(9-11)
    by (intro exI [of _ t'])
      (simp add: load_token_withdrawal_proof_at_def leaf_columns_of_def d wf_token_withdrawal_def parse_fixed_def expect_def
        ensure_registry_erc20_action_encoding_def ERC20_ACTION_ENCODING_V2_def erc20_withdrawal_leaf_def leaf_of_def
        split_beta Let_def)
qed

theorem accepted_withdrawal_claimable_witness:
  "\<exists>out t' p. derive_v2_receipt ladder_crypto sample_v1 sample_inner_batch = Inr out \<and>
     load_native_withdrawal_proof_at ladder_crypto (\<lambda>_. Inr 0) t' 42 0 130 5 = Inr p \<and> np_amount p = 4"
proof -
  let ?out = "v2_output ladder_crypto sample_v1 sample_inner_batch"
  have o: "derive_v2_receipt ladder_crypto sample_v1 sample_inner_batch = Inr ?out"
    using sample_v2_accepts by (simp add: derive_v2_receipt_Inr)
  have k: "length (keccak256 ladder_crypto x) = 32" for x by (simp add: sample_keccak_def)
  have s: "pv_batch_sequence sample_v1 = 42" by (simp add: sample_v1_def sample_spv1_def)
  have i: "i64_of_u64 42 = Some 42" "i64_of_u64 102 = Some 102" by (simp_all add: i64_of_u64_def)
  have w: "iw_withdrawal (ib_actions sample_inner_batch ! 0) = Some \<lparr>nw_recipient = replicate 20 9, nw_amount = 4\<rparr>"
    "0 < length (ib_actions sample_inner_batch)"
    by (simp_all add: sample_inner_batch_def sample_withdrawal_def)
  show ?thesis
    using o accepted_withdrawal_claimable [OF sample_v2_accepts(1) o k, unfolded s, OF i, of "[]" 0 _ "\<lambda>_. Inr 0" 0 "[2]" 130 5] w
    by fastforce
qed

text \<open>The same batch with an ERC-20 withdrawal.\<close>

definition sample_token_withdrawal :: token_withdrawal where
  "sample_token_withdrawal =
     \<lparr>tw_encoding_version = 2, tw_registry_index = 1, tw_record_commitment = small_bytes 3, tw_token = replicate 20 1,
      tw_asset_id = replicate 32 5, tw_recipient = replicate 20 9, tw_amount = 4,
      tw_params_fields = [u32_word 2, u32_word 1, small_bytes 3, replicate 16 0 @ replicate 16 5, replicate 16 0 @ replicate 16 5,
        small_bytes 0, u64_word 4, address_word (replicate 20 9), replicate 32 0]\<rparr>"

definition token_batch :: inner_action_batch_witness where
  "token_batch = sample_inner_batch\<lparr>ib_actions :=
     [sample_withdrawal\<lparr>iw_withdrawal := None, iw_token_withdrawal := Some sample_token_withdrawal\<rparr>]\<rparr>"

lemma canonical_small:
  assumes "length bs = 32" "of_be bs < fp_modulus"
  shows "canonical bs"
  using assms by (simp add: canonical_def from_be_bytes_mod_order_def field_to_bytes_eq be_bytes_of_be)

lemma token_batch_accepted: "v2_accepts ladder_crypto sample_v1 token_batch"
proof -
  let ?a = "sample_withdrawal\<lparr>iw_withdrawal := None, iw_token_withdrawal := Some sample_token_withdrawal\<rparr>"
  have fs: "fields_of ?a = fields_of sample_withdrawal" "fields_of sample_withdrawal = [0, 1, 0]"
    by (simp_all add: fields_of_def sample_withdrawal_def small_bytes_value fp_from_u8_numerals)
  have "hash_with_prefix ladder_crypto q [a, b, c, d, e, f, g, h, i] = 1" for q a b c d e f g h i
    by (simp add: hash_with_prefix_def poseidon_update_def ladder_crypto_def)
  moreover have "canonical (u32_word n)" "canonical (u64_word m)" "canonical (replicate 32 0)"
      "canonical (replicate 16 0 @ replicate 16 5)" for n m
    using unat_less_pow [of n] unat_less_pow [of m] of_be_less [of "replicate 16 5"]
    by (auto intro!: canonical_small simp: u32_word_def u64_word_def u32_to_be_def u64_to_be_def of_be_append of_be_be_bytes
        fp_modulus_def)
  then have "list_all canonical (tw_params_fields sample_token_withdrawal)" by (simp add: sample_token_withdrawal_def address_canonical)
  moreover have "small_bytes 3 \<noteq> replicate 32 0" by (auto simp: small_bytes_def dest: arg_cong [of _ _ last])
  moreover have "fields_of ?a ! 1 = 1" by (simp add: fs)
  ultimately have "opens_erc20 ladder_crypto ?a sample_token_withdrawal"
    unfolding opens_erc20_def Let_def by (simp add: sample_token_withdrawal_def)
  then have "valid_inner_action ladder_crypto ?a"
    by (simp add: valid_inner_action_def fs) (simp add: sample_withdrawal_def)
  then show ?thesis
    using sample_v2_accepts(2)
    by (simp add: v2_accepts_def sample_inner_batch_def token_batch_def replayed_def fs Let_def)
qed

end
