(* ===== verification/Deposit_Batch.thy ===== *)
theory Deposit_Batch
  imports Bridge_Guest Block_Index Withdrawal_Service
begin

text \<open>
  How the gateway turns indexed deposits into the input of the bridge guest (\<open>canonical_deposit_batch\<close> and
  \<open>queue_canonical_deposit_batch\<close> of \<open>api/src/main.rs\<close>).  The deposits are the events of the bridge contract: what
  \<open>EthereumZekoBridge.sol\<close> emits when it records a deposit is the predicate \<open>contract_log\<close>, a hypothesis of the properties
  about the indexed rows.
\<close>

subsection \<open>Events of the bridge contract\<close>

definition native_log :: "crypto \<Rightarrow> u64 \<Rightarrow> bytes \<Rightarrow> bridge_deposit_log \<Rightarrow> bool" where
  "native_log H cid bridge d \<longleftrightarrow>
     dl_token d = replicate 20 0 \<and> dl_erc20_identity d = None \<and> 0 < dl_amount d \<and> dl_amount d < 2 ^ 256 \<and>
     dl_amount d mod 10 ^ 9 = 0 \<and> dl_zeko_amount d = dl_amount d div 10 ^ 9 \<and> dl_timeout d = 0xFFFFFFFF \<and>
     dl_deposit_leaf d = compute_ethereum_deposit_leaf H cid bridge (dl_token d) (dl_zeko_recipient d)
       (word_of_nat (dl_zeko_amount d)) (dl_timeout d) (dl_nonce d)"

definition erc20_log :: "crypto \<Rightarrow> u64 \<Rightarrow> bytes \<Rightarrow> bridge_deposit_log \<Rightarrow> bool" where
  "erc20_log H cid bridge d \<longleftrightarrow>
     (case dl_erc20_identity d of
        Some (Registry_V2 asset_id registry_index record_commitment) \<Rightarrow>
          dl_token d \<noteq> replicate 20 0 \<and> 0 < dl_amount d \<and> dl_amount d < 2 ^ 64 \<and> dl_zeko_amount d = dl_amount d \<and>
          dl_timeout d = 0xFFFFFFFF \<and> record_commitment \<noteq> replicate 32 0 \<and> of_be record_commitment < fp_modulus \<and>
          length asset_id = 32 \<and> length record_commitment = 32 \<and>
          dl_deposit_leaf d = compute_ethereum_erc20_deposit_leaf_v2 H cid bridge (dl_token d) registry_index
            record_commitment asset_id (dl_zeko_recipient d) (word_of_nat (dl_zeko_amount d)) (dl_timeout d) (dl_nonce d)
      | _ \<Rightarrow> False)"

definition contract_log :: "crypto \<Rightarrow> u64 \<Rightarrow> bytes \<Rightarrow> bridge_deposit_log \<Rightarrow> bool" where
  "contract_log H cid bridge d \<longleftrightarrow> length (dl_token d) = 20 \<and> length (dl_zeko_recipient d) = 32 \<and>
     valid_recipient (dl_zeko_recipient d) \<and> (native_log H cid bridge d \<or> erc20_log H cid bridge d) \<and>
     dl_new_deposit_state d = compute_ethereum_state H (dl_old_deposit_state d) (dl_deposit_leaf d)"

subsection \<open>Columns of a deposit\<close>

definition identity_asset_id :: "erc20_deposit_identity \<Rightarrow> bytes" where
  "identity_asset_id i = (case i of Historical_V1 a \<Rightarrow> a | Registry_V2 a _ _ \<Rightarrow> a)"

definition identity_encoding_version :: "erc20_deposit_identity \<Rightarrow> u32" where
  "identity_encoding_version i =
     (case i of Historical_V1 _ \<Rightarrow> HISTORICAL_ERC20_ACTION_ENCODING_V1 | Registry_V2 _ _ _ \<Rightarrow> ERC20_ACTION_ENCODING_V2)"

definition identity_registry_index :: "erc20_deposit_identity \<Rightarrow> u32 option" where
  "identity_registry_index i = (case i of Historical_V1 _ \<Rightarrow> None | Registry_V2 _ r _ \<Rightarrow> Some r)"

definition identity_record_commitment :: "erc20_deposit_identity \<Rightarrow> bytes option" where
  "identity_record_commitment i = (case i of Historical_V1 _ \<Rightarrow> None | Registry_V2 _ _ c \<Rightarrow> Some c)"

definition deposit_encoding_version :: "bridge_deposit_log \<Rightarrow> u32" where
  "deposit_encoding_version d = (case dl_erc20_identity d of None \<Rightarrow> 0 | Some i \<Rightarrow> identity_encoding_version i)"

subsection \<open>One deposit of the batch\<close>

text \<open>
  The amounts are decimal columns.  \<open>U256\<close> multiplication wraps, and the conversion to \<open>u64\<close> follows the comparison.
\<close>

definition u64_amount :: "nat \<Rightarrow> failure + u64" where
  "u64_amount n = ensure (n < 2 ^ 64) (plain_failure ''the value is too large to fit the target type'') (Inr (word_of_nat n))"

definition batch_identity :: "bridge_deposit_log \<Rightarrow> failure + bytes \<times> u32 \<times> bytes \<times> u64" where
  "batch_identity d =
     (if dl_token d = replicate 20 0 then
        ensure (dl_amount d = dl_zeko_amount d * 10 ^ 9 mod 2 ^ 256) (plain_failure ''indexed native amount normalization mismatch'') (
        ensure (deposit_encoding_version d = 0) (plain_failure ''indexed native deposit has an ERC20 action version'') (
        and_then (u64_amount (dl_zeko_amount d)) (\<lambda>amount.
        Inr (replicate 32 0, 0, replicate 32 0, amount))))
      else
        ensure (dl_amount d = dl_zeko_amount d) (plain_failure ''canonical ERC20 deposit must preserve base units'') (
        and_then (expect (map_option identity_asset_id (dl_erc20_identity d))
          (plain_failure ''indexed ERC20 deposit is missing its asset id'')) (\<lambda>asset_id.
        and_then (parse_fixed 32 ''indexed ERC20 asset id is invalid'' asset_id) (\<lambda>asset_id.
        ensure (asset_id \<noteq> replicate 32 0) (plain_failure ''indexed ERC20 asset id is zero'') (
        and_then (ensure_registry_erc20_action_encoding (deposit_encoding_version d)) (\<lambda>_.
        and_then (expect (Option.bind (dl_erc20_identity d) identity_registry_index)
          (plain_failure ''unexpected null; try decoding as an `Option`'')) (\<lambda>registry_index.
        and_then (expect (Option.bind (dl_erc20_identity d) identity_record_commitment)
          (plain_failure ''unexpected null; try decoding as an `Option`'')) (\<lambda>record_commitment.
        and_then (parse_fixed 32 ''indexed ERC20 record commitment is invalid'' record_commitment) (\<lambda>record_commitment.
        ensure (record_commitment \<noteq> replicate 32 0) (plain_failure ''indexed ERC20 record commitment is zero'') (
        and_then (u64_amount (dl_zeko_amount d)) (\<lambda>amount.
        Inr (asset_id, registry_index, record_commitment, amount))))))))))))"

definition batch_deposit :: "bridge_deposit_log \<Rightarrow> failure + bridge_deposit" where
  "batch_deposit d =
     and_then (parse_fixed 20 ''invalid indexed token'' (dl_token d)) (\<lambda>token.
     ensure (dl_timeout d = 0xFFFFFFFF) (plain_failure ''deposit does not use the no-cancellation timeout'') (
     ensure (dl_amount d < 2 ^ 256 \<and> dl_zeko_amount d < 2 ^ 256) (plain_failure ''number too large to fit in target type'') (
     and_then (batch_identity d) (\<lambda>(asset_id, registry_index, record_commitment, zeko_amount).
     and_then (parse_fixed 32 ''invalid indexed Zeko recipient'' (dl_zeko_recipient d)) (\<lambda>recipient.
     Inr \<lparr>bd_token = token, bd_asset_id = asset_id, bd_encoding_version = deposit_encoding_version d,
          bd_registry_index = registry_index, bd_record_commitment = record_commitment,
          bd_amount = be_bytes 32 (dl_amount d), bd_zeko_amount = Some zeko_amount, bd_zeko_recipient = recipient,
          bd_timeout = dl_timeout d\<rparr>)))))"

fun batch_loop :: "u64 \<Rightarrow> bytes \<Rightarrow> (int \<times> deposit_row) list \<Rightarrow> failure + bridge_deposit list \<times> bytes" where
  "batch_loop expected_nonce expected_state [] = Inr ([], expected_state)"
| "batch_loop expected_nonce expected_state ((n, r) # rows) =
     ensure (0 \<le> n) (plain_failure ''out of range integral type conversion attempted'') (
     ensure (word_of_int n = expected_nonce) (plain_failure ''deposit nonce range is not contiguous'') (
     and_then (parse_fixed 32 ''invalid indexed old deposit state'' (dl_old_deposit_state (dp_log r))) (\<lambda>old_state.
     and_then (parse_fixed 32 ''invalid indexed new deposit state'' (dl_new_deposit_state (dp_log r))) (\<lambda>new_state.
     ensure (old_state = expected_state) (plain_failure ''deposit accumulator is discontinuous'') (
     and_then (batch_deposit (dp_log r)) (\<lambda>deposit.
     and_then (batch_loop (expected_nonce + 1) new_state rows) (\<lambda>(deposits, state).
     Inr (deposit # deposits, state))))))))"

text \<open>The rows of the query: deposits in finalized canonical blocks with a nonce in the range, by nonce.\<close>

definition in_finalized_block :: "block_table \<Rightarrow> bridge_deposit_log \<Rightarrow> bool" where
  "in_finalized_block blocks d \<longleftrightarrow>
     (case map_of blocks (uint (dl_block_number d)) of
        None \<Rightarrow> False
      | Some b \<Rightarrow> bw_hash b = dl_block_hash d \<and> bw_canonical b \<and> bw_finalized b)"

definition finalized_deposits :: "int \<Rightarrow> int \<Rightarrow> chain_db \<Rightarrow> (int \<times> deposit_row) list" where
  "finalized_deposits lo hi db = sort_key fst
     (filter (\<lambda>(n, r). \<not> dp_removed r \<and> in_finalized_block (cd_blocks db) (dp_log r) \<and> lo < n \<and> n \<le> hi) (cd_deposits db))"

definition canonical_deposit_batch :: "ethereum_view \<Rightarrow> chain_db \<Rightarrow> failure + bridge_transition_input" where
  "canonical_deposit_batch V db =
     and_then (ev_latest_block V) (\<lambda>block.
     and_then (ev_bridge_state_at V block None None) (\<lambda>(bridge, _).
     ensure (\<not> bs_paused bridge) (plain_failure ''bridge contract is paused'') (
     ensure (bs_bridged_deposit_nonce bridge < bs_deposit_nonce bridge) (plain_failure ''there are no unbridged deposits'') (
     and_then (ev_bridge_state_at V block (Some (bs_bridged_deposit_nonce bridge)) None) (\<lambda>(_, historical).
     and_then (expect historical (plain_failure ''missing bridged deposit checkpoint'')) (\<lambda>historical.
     and_then (ev_settlement_state_at V block) (\<lambda>settlement.
     and_then (bigint (bs_bridged_deposit_nonce bridge)) (\<lambda>lo.
     and_then (bigint (bs_deposit_nonce bridge)) (\<lambda>hi.
     let rows = finalized_deposits lo hi db in
     ensure (length rows = unat (bs_deposit_nonce bridge - bs_bridged_deposit_nonce bridge))
       (plain_failure ''canonical deposit log range is incomplete'') (
     and_then (batch_loop (bs_bridged_deposit_nonce bridge + 1) historical rows) (\<lambda>(deposits, state).
     ensure (state = bs_current_deposit_state bridge)
       (plain_failure ''indexed deposit accumulator does not reach bridge state'') (
     and_then (ev_chain_id V) (\<lambda>chain_id.
     Inr \<lparr>bi_ethereum = \<lparr>eb_chain_id = chain_id, eb_bridge_address = ev_bridge_address V,
            eb_deposit_nonce = bs_bridged_deposit_nonce bridge, eb_deposit_state = historical\<rparr>,
          bi_zeko = \<lparr>zb_action_state = ss_action_state settlement,
            zb_action_state_length = ss_outer_action_state_length settlement\<rparr>,
          bi_deposits = deposits\<rparr>)))))))))))))"

subsection \<open>Queueing the batch\<close>

definition retryable_status :: "proof_status \<Rightarrow> bool" where
  "retryable_status s \<longleftrightarrow> s \<in> {Executed, Failed, Proof_Failed, Ethereum_Reverted, Reorged, Rejected}"

definition eligible_deposit :: "bool \<Rightarrow> uuid \<Rightarrow> job_table \<Rightarrow> deposit_row \<Rightarrow> bool" where
  "eligible_deposit allow_terminal_retry i jobs r \<longleftrightarrow>
     (case dp_bridge_job_id r of
        None \<Rightarrow> True
      | Some k \<Rightarrow> k = i \<or> allow_terminal_retry \<and>
          (case map_of jobs k of None \<Rightarrow> False | Some j \<Rightarrow> retryable_status (jb_status j)))"

definition in_batch :: "int \<Rightarrow> int \<Rightarrow> int \<Rightarrow> deposit_row \<Rightarrow> bool" where
  "in_batch lo hi n r \<longleftrightarrow> lo \<le> n \<and> n \<le> hi \<and> \<not> dp_removed r"

definition from_gateway :: "gateway_error + 'a \<Rightarrow> failure + 'a" where
  "from_gateway r = (case r of Inl e \<Rightarrow> Inl (coordination_failure e) | Inr v \<Rightarrow> Inr v)"

lemma from_gateway_Inr [res_simps]: "from_gateway r = Inr v \<longleftrightarrow> r = Inr v"
  by (simp add: from_gateway_def split: sum.splits)

text \<open>
  \<open>input_of\<close> is the JSON value of the guest input, \<open>i\<close> the new identifier and \<open>fresh\<close> that of the reservation; an error
  leaves the database as it was.
\<close>

definition queue_canonical_deposit_batch ::
  "text_codec \<Rightarrow> (uuid \<Rightarrow> string) \<Rightarrow> (job_input \<Rightarrow> string) \<Rightarrow> (bridge_transition_input \<Rightarrow> job_input) \<Rightarrow> nat \<Rightarrow> uuid \<Rightarrow> uuid \<Rightarrow>
   string option \<Rightarrow> bool \<Rightarrow> ethereum_view \<Rightarrow> chain_db \<Rightarrow> failure + uuid \<times> chain_db" where
  "queue_canonical_deposit_batch T show_uuid digest input_of now fresh i key allow_terminal_retry V db =
     and_then (canonical_deposit_batch V db) (\<lambda>batch.
     and_then (expect (checked_add (eb_deposit_nonce (bi_ethereum batch)) 1)
       (plain_failure ''bridge deposit nonce overflow'')) (\<lambda>first_nonce.
     and_then (expect (checked_add (eb_deposit_nonce (bi_ethereum batch)) (word_of_nat (length (bi_deposits batch))))
       (plain_failure ''bridge deposit nonce overflow'')) (\<lambda>last_nonce.
     let input = input_of batch in
     and_then (from_gateway (lock now (cd_gateway db))) (\<lambda>g.
     and_then (bigint first_nonce) (\<lambda>lo.
     and_then (bigint last_nonce) (\<lambda>hi.
     ensure (int (length (filter (\<lambda>(n, r). in_batch lo hi n r \<and> eligible_deposit allow_terminal_retry i (gw_jobs g) r) (cd_deposits db))) =
         hi - lo + 1)
       (plain_failure ''deposit batch already has a proof job; an operator must retry a failed batch'') (
     and_then (from_gateway (insert_job i Bridge input key (digest input) (gw_jobs g))) (\<lambda>(actual, jobs).
     and_then (if actual = i then from_gateway (attach_bridge T show_uuid fresh i input (g\<lparr>gw_jobs := jobs\<rparr>))
               else Inr (g\<lparr>gw_jobs := jobs\<rparr>)) (\<lambda>g.
     let (deposits, count) = update_where (in_batch lo hi) (\<lambda>r. r\<lparr>dp_bridge_job_id := Some actual\<rparr>) (cd_deposits db) in
     ensure (int count = hi - lo + 1) (plain_failure ''canonical deposit batch changed while it was queued'')
       (Inr (actual, db\<lparr>cd_gateway := g, cd_deposits := deposits\<rparr>)))))))))))"

subsection \<open>The batch and the guest\<close>

text \<open>A deposit of the batch is one that the guest accepts, with the leaf of the contract.\<close>

lemma batch_deposit_valid:
  assumes "contract_log H cid bridge d" "batch_deposit d = Inr b" "eb_chain_id eth = cid" "eb_bridge_address eth = bridge"
  shows "wf_bridge_deposit b \<and> valid_deposit b \<and> deposit_leaf H eth b (dl_nonce d) = dl_deposit_leaf d"
proof (cases "dl_token d = replicate 20 0")
  case True
  then have n: "native_log H cid bridge d" using assms(1) by (auto simp: contract_log_def erc20_log_def split: option.splits erc20_deposit_identity.splits)
  then have k: "dl_amount d = dl_zeko_amount d * 10 ^ 9" "dl_amount d < 256 ^ 32" "0 < dl_amount d"
    by (auto simp: native_log_def)
  then have amount: "of_be (be_bytes 32 (dl_amount d)) = dl_amount d" by (simp add: of_be_be_bytes)
  have b: "b = \<lparr>bd_token = replicate 20 0, bd_asset_id = replicate 32 0, bd_encoding_version = 0, bd_registry_index = 0,
      bd_record_commitment = replicate 32 0, bd_amount = be_bytes 32 (dl_amount d), bd_zeko_amount = Some (word_of_nat (dl_zeko_amount d)),
      bd_zeko_recipient = dl_zeko_recipient d, bd_timeout = dl_timeout d\<rparr>" and "dl_zeko_amount d < 2 ^ 64"
    using assms(2) True n
    by (auto simp: batch_deposit_def batch_identity_def res_simps parse_fixed_def u64_amount_def native_log_def deposit_encoding_version_def)
  moreover have "zeko_units b = dl_zeko_amount d"
    using k(1) amount unfolding b by (simp add: zeko_units_def is_native_deposit_def)
  ultimately show ?thesis
    using assms(1,3,4) n True k amount
    by (simp add: wf_bridge_deposit_def valid_deposit_def valid_amount_def contract_log_def is_native_deposit_def deposit_leaf_def native_log_def)
next
  case False
  then have e: "erc20_log H cid bridge d" using assms(1) by (auto simp: contract_log_def native_log_def)
  then obtain asset index commitment where i: "dl_erc20_identity d = Some (Registry_V2 asset index commitment)"
    by (auto simp: erc20_log_def split: option.splits erc20_deposit_identity.splits)
  have k: "dl_amount d = dl_zeko_amount d" "dl_amount d < 256 ^ 32" "0 < dl_amount d"
    using e by (auto simp: erc20_log_def i)
  then have amount: "of_be (be_bytes 32 (dl_amount d)) = dl_amount d" by (simp add: of_be_be_bytes)
  have b: "b = \<lparr>bd_token = dl_token d, bd_asset_id = asset, bd_encoding_version = 2, bd_registry_index = index,
      bd_record_commitment = commitment, bd_amount = be_bytes 32 (dl_amount d), bd_zeko_amount = Some (word_of_nat (dl_zeko_amount d)),
      bd_zeko_recipient = dl_zeko_recipient d, bd_timeout = dl_timeout d\<rparr>" and a: "asset \<noteq> replicate 32 0"
    using assms(2) False i
    by (auto simp: batch_deposit_def batch_identity_def res_simps parse_fixed_def u64_amount_def deposit_encoding_version_def
        identity_asset_id_def identity_registry_index_def identity_record_commitment_def identity_encoding_version_def
        ERC20_ACTION_ENCODING_V2_def expect_def)
  moreover have "zeko_units b = dl_zeko_amount d"
    using k(1) amount False unfolding b by (simp add: zeko_units_def is_native_deposit_def)
  ultimately show ?thesis
    using assms(1,3,4) e False k amount
    by (simp add: wf_bridge_deposit_def valid_deposit_def valid_amount_def contract_log_def is_native_deposit_def deposit_leaf_def erc20_log_def i)
qed

text \<open>The key of a row is the nonce of its event.\<close>

definition contract_rows :: "crypto \<Rightarrow> u64 \<Rightarrow> bytes \<Rightarrow> (int \<times> deposit_row) list \<Rightarrow> bool" where
  "contract_rows H cid bridge = list_all (\<lambda>(n, r). n = uint (dl_nonce (dp_log r)) \<and> contract_log H cid bridge (dp_log r))"

lemma batch_loop_replays:
  assumes "batch_loop (m + 1) s rows = Inr (ds, s')" "contract_rows H cid bridge rows"
    and "eb_chain_id eth = cid" "eb_bridge_address eth = bridge"
  shows "list_all wf_bridge_deposit ds \<and> list_all valid_deposit ds \<and> length ds = length rows \<and> ethereum_replay H eth s m ds = s'"
  using assms(1,2)
proof (induction rows arbitrary: m s ds)
  case (Cons x rows)
  obtain n r where x: "x = (n, r)" by (cases x)
  obtain b bs where b: "batch_deposit (dp_log r) = Inr b" "batch_loop (m + 1 + 1) (dl_new_deposit_state (dp_log r)) rows = Inr (bs, s')"
    "ds = b # bs" "dl_old_deposit_state (dp_log r) = s" "word_of_int n = m + 1"
    using Cons.prems(1) unfolding x by (auto simp: res_simps parse_fixed_def split: prod.splits)
  have c: "contract_log H cid bridge (dp_log r)" "dl_nonce (dp_log r) = m + 1"
    using Cons.prems(2) b(5) unfolding x by (auto simp: contract_rows_def)
  have "dl_new_deposit_state (dp_log r) = compute_ethereum_state H s (dl_deposit_leaf (dp_log r))"
    using c(1) b(4) by (simp add: contract_log_def)
  then show ?case
    using batch_deposit_valid [OF c(1) b(1) assms(3,4)] Cons.IH [OF b(2)] Cons.prems(2) c(2) b(3)
    unfolding x by (simp add: contract_rows_def)
qed auto

lemma canonical_deposit_batch_cases:
  assumes "canonical_deposit_batch V db = Inr input"
  obtains block bridge s historical h settlement chain_id lo hi deposits where
    "ev_latest_block V = Inr block" "ev_bridge_state_at V block None None = Inr (bridge, h)"
    "bs_bridged_deposit_nonce bridge < bs_deposit_nonce bridge" "ev_settlement_state_at V block = Inr settlement"
    "ev_chain_id V = Inr chain_id"
    "length (finalized_deposits lo hi db) = unat (bs_deposit_nonce bridge - bs_bridged_deposit_nonce bridge)"
    "batch_loop (bs_bridged_deposit_nonce bridge + 1) historical (finalized_deposits lo hi db) = Inr (deposits, bs_current_deposit_state bridge)"
    "input = \<lparr>bi_ethereum = \<lparr>eb_chain_id = chain_id, eb_bridge_address = ev_bridge_address V,
            eb_deposit_nonce = bs_bridged_deposit_nonce bridge, eb_deposit_state = historical\<rparr>,
          bi_zeko = \<lparr>zb_action_state = ss_action_state settlement,
            zb_action_state_length = ss_outer_action_state_length settlement\<rparr>,
          bi_deposits = deposits\<rparr>"
    "ev_bridge_state_at V block (Some (bs_bridged_deposit_nonce bridge)) None = Inr (s, Some historical)" "\<not> bs_paused bridge"
  using assms unfolding canonical_deposit_batch_def
  by (auto simp: and_then_Inr ensure_Inr expect_Inr Let_def split: prod.splits)

lemma batch_loop_state: "batch_loop n s rows = Inr (ds, s') \<Longrightarrow> rows \<noteq> [] \<Longrightarrow> length s = 32"
  by (cases rows) (auto simp: res_simps parse_fixed_def)

lemma last_emitted_action:
  "ds \<noteq> [] \<Longrightarrow> ba_state_after (last (emitted_actions H eth s ds)) = fp_to_bytes (zeko_replay H eth s ds)"
proof -
  assume ds: "ds \<noteq> []"
  then have "emitted_actions H eth s ds \<noteq> []" by (cases ds) simp_all
  then have "last (emitted_actions H eth s ds) = emitted_actions H eth s ds ! (length ds - 1)" by (simp add: last_conv_nth)
  then show ?thesis using ds by (simp add: emitted_actions_nth)
qed

lemma batch_loop_length: "batch_loop n s rows = Inr (ds, s') \<Longrightarrow> length ds = length rows"
  by (induction rows arbitrary: n s ds) (auto simp: res_simps split: prod.splits)

lemma canonical_deposit_batch_length: "canonical_deposit_batch V db = Inr input \<Longrightarrow> length (bi_deposits input) < 2 ^ 64"
proof (erule canonical_deposit_batch_cases)
  fix bridge lo hi historical deposits eth zeko
  assume "length (finalized_deposits lo hi db) = unat (bs_deposit_nonce bridge - bs_bridged_deposit_nonce bridge)"
    "batch_loop (bs_bridged_deposit_nonce bridge + 1) historical (finalized_deposits lo hi db) = Inr (deposits, bs_current_deposit_state bridge)"
    "input = \<lparr>bi_ethereum = eth, bi_zeko = zeko, bi_deposits = deposits\<rparr>"
  then show ?thesis
    using unat_less_pow [of "bs_deposit_nonce bridge - bs_bridged_deposit_nonce bridge"] by (auto dest!: batch_loop_length)
qed

lemma filter_length_eq:
  assumes "length (filter p xs) = length (filter (\<lambda>x. p x \<and> q x) xs)" "x \<in> set xs" "p x"
  shows "q x"
proof -
  have "filter (\<lambda>x. p x \<and> q x) xs = filter q (filter p xs)" by (simp add: conj_commute)
  then have "length (filter q (filter p xs)) = length (filter p xs)" using assms(1) by simp
  then have "filter q (filter p xs) = filter p xs" by (metis filter_id_conv length_filter_less less_irrefl)
  then have "\<forall>x \<in> set (filter p xs). q x" by (simp only: filter_id_conv)
  then show ?thesis using assms(2,3) by simp
qed

subsection \<open>Properties\<close>

text \<open>A contract that does not change: every request answers from the same state.\<close>

definition steady :: "ethereum_view \<Rightarrow> u64 \<Rightarrow> bridge_state \<Rightarrow> (u64 \<Rightarrow> bytes option) \<Rightarrow> bool" where
  "steady V block bridge history \<longleftrightarrow> ev_latest_block V = Inr block \<and>
     (\<forall>n a. ev_bridge_state_at V block n a =
       Inr (bridge\<lparr>bs_action_state_processed := map_option (\<lambda>_. False) a\<rparr>, Option.bind n history))"

text \<open>
  C17: A deposit batch that the gateway builds can be proved and submitted.  When the indexed rows are events of the bridge
  contract and the contract does not change meanwhile, the bridge guest accepts the input, its receipt takes the deposit
  accumulator from the last bridged deposit to the current one, and the receipt passes the validation before submission.
\<close>

theorem deposit_batch_validates:
  assumes "canonical_deposit_batch V db = Inr input" "steady V block bridge history" "ev_chain_id V = Inr cid"
    and "contract_rows H cid (ev_bridge_address V) (cd_deposits db)" "length (ev_bridge_address V) = 20"
    and "length (zb_action_state (bi_zeko input)) = 32" "of_be (zb_action_state (bi_zeko input)) < fp_modulus"
    and "unat (zb_action_state_length (bi_zeko input)) + length (bi_deposits input) < 2 ^ 32"
    and "ji_bridge_context job = Inr (cid, ev_bridge_address V)"
    and "to_ascii_lowercase vkey = to_ascii_lowercase (bs_program_vkey bridge)"
  shows "\<exists>out. derive_bridge_transition H input = Inr out \<and> validate_bridge V vkey job out = Inr () \<and>
    bpv_ethereum_nonce_before out = bs_bridged_deposit_nonce bridge \<and> bpv_ethereum_nonce_after out = bs_deposit_nonce bridge \<and>
    bpv_ethereum_state_after out = bs_current_deposit_state bridge"
proof -
  obtain block' bridge' h s historical settlement cid' lo hi deposits where c: "ev_latest_block V = Inr block'"
    "ev_bridge_state_at V block' None None = Inr (bridge', h)" "bs_bridged_deposit_nonce bridge' < bs_deposit_nonce bridge'"
    "ev_settlement_state_at V block' = Inr settlement" "ev_chain_id V = Inr cid'"
    "length (finalized_deposits lo hi db) = unat (bs_deposit_nonce bridge' - bs_bridged_deposit_nonce bridge')"
    "batch_loop (bs_bridged_deposit_nonce bridge' + 1) historical (finalized_deposits lo hi db) =
      Inr (deposits, bs_current_deposit_state bridge')"
    "input = \<lparr>bi_ethereum = \<lparr>eb_chain_id = cid', eb_bridge_address = ev_bridge_address V,
            eb_deposit_nonce = bs_bridged_deposit_nonce bridge', eb_deposit_state = historical\<rparr>,
          bi_zeko = \<lparr>zb_action_state = ss_action_state settlement,
            zb_action_state_length = ss_outer_action_state_length settlement\<rparr>, bi_deposits = deposits\<rparr>"
    "ev_bridge_state_at V block' (Some (bs_bridged_deposit_nonce bridge')) None = Inr (s, Some historical)" "\<not> bs_paused bridge'"
    by (rule canonical_deposit_batch_cases [OF assms(1)])
  have same: "block' = block" "cid' = cid" "bs_bridged_deposit_nonce bridge' = bs_bridged_deposit_nonce bridge"
    "bs_deposit_nonce bridge' = bs_deposit_nonce bridge" "bs_current_deposit_state bridge' = bs_current_deposit_state bridge"
    "history (bs_bridged_deposit_nonce bridge) = Some historical" "\<not> bs_paused bridge"
    using c(1,2,5,9,10) assms(2,3) by (auto simp: steady_def)
  let ?rows = "finalized_deposits lo hi db" and ?eth = "bi_ethereum input"
  have "contract_rows H cid (ev_bridge_address V) ?rows"
    using assms(4) by (auto simp: contract_rows_def finalized_deposits_def list_all_iff)
  from batch_loop_replays [OF c(7) this, of ?eth]
  have b: "list_all wf_bridge_deposit deposits" "list_all valid_deposit deposits" "length deposits = length ?rows"
    "ethereum_replay H ?eth historical (bs_bridged_deposit_nonce bridge) deposits = bs_current_deposit_state bridge"
    using c(8) same by simp_all
  have n: "bs_bridged_deposit_nonce bridge + word_of_nat (length deposits) = bs_deposit_nonce bridge"
    using b(3) c(6) same by simp
  have "0 < unat (bs_deposit_nonce bridge - bs_bridged_deposit_nonce bridge)"
    using c(3) same by (simp add: unat_gt_0)
  then have ne: "deposits \<noteq> []" "?rows \<noteq> []" using b(3) c(6) same by auto
  have "wf_bridge_input input"
    using b(1) assms(5,6) batch_loop_state [OF c(7) ne(2)] c(8) by (simp add: wf_bridge_input_def)
  moreover have "bridge_accepts input" using assms(7,8) b(2) ne(1) c(8) by (simp add: bridge_accepts_def)
  ultimately have d: "derive_bridge_transition H input = Inr (bridge_output H input)"
    by (simp add: derive_bridge_transition_Inr)
  have o: "bpv_ethereum_nonce_before (bridge_output H input) = bs_bridged_deposit_nonce bridge"
    "bpv_ethereum_nonce_after (bridge_output H input) = bs_deposit_nonce bridge"
    "bpv_ethereum_state_before (bridge_output H input) = historical"
    "bpv_ethereum_state_after (bridge_output H input) = bs_current_deposit_state bridge"
    "bpv_zeko_action_state_before (bridge_output H input) = ss_action_state settlement"
    "bpv_zeko_action_state_length_before (bridge_output H input) = ss_outer_action_state_length settlement"
    "length (bpv_actions (bridge_output H input)) = length deposits"
    "bpv_actions (bridge_output H input) \<noteq> []"
    "ba_state_after (last (bpv_actions (bridge_output H input))) = bpv_zeko_action_state_after (bridge_output H input)"
    "bpv_zeko_action_state_length_after (bridge_output H input) = ss_outer_action_state_length settlement + word_of_nat (length deposits)"
    using b(4) n ne(1) last_emitted_action [OF ne(1)] c(8) same
    by (simp_all add: bridge_output_def Let_def flip: length_greater_0_conv)
  have "checked_add (ss_outer_action_state_length settlement) (word_of_nat (length deposits)) =
      Some (ss_outer_action_state_length settlement + word_of_nat (length deposits))"
    using assms(8) c(8) by (simp add: checked_add_Some unat_of_nat take_bit_nat_eq_self unat_word_ariths(1))
  then have "validate_bridge V vkey job (bridge_output H input) = Inr ()"
    using o same assms(2,3,8-10) c(4,8)
    by (simp add: validate_bridge_def steady_def ensure_bytes_eq_def ensure_hex_eq_def expect_def)
  then show ?thesis using d o by blast
qed

text \<open>
  A batch takes no deposit from another job.  When a batch is queued, the deposits of its range and no others are linked to
  its job, and each of them was unlinked or, for an operator's request only, linked to a job that ended without success.
\<close>

lemma queued_batch_exclusive:
  assumes "queue_canonical_deposit_batch T show_uuid digest input_of now fresh i key retry V db = Inr (job, db')"
  shows "\<exists>batch lo hi. canonical_deposit_batch V db = Inr batch \<and> lo = uint (eb_deposit_nonce (bi_ethereum batch)) + 1 \<and>
    hi = uint (eb_deposit_nonce (bi_ethereum batch)) + int (length (bi_deposits batch)) \<and>
    list_all (\<lambda>(n, r). in_batch lo hi n r \<longrightarrow> eligible_deposit retry i (gw_jobs (cd_gateway db)) r) (cd_deposits db) \<and>
    cd_deposits db' = map (\<lambda>(n, r). (n, if in_batch lo hi n r then r\<lparr>dp_bridge_job_id := Some job\<rparr> else r)) (cd_deposits db)"
proof -
  obtain batch first_nonce last_nonce g where q: "canonical_deposit_batch V db = Inr batch"
    "checked_add (eb_deposit_nonce (bi_ethereum batch)) 1 = Some first_nonce"
    "checked_add (eb_deposit_nonce (bi_ethereum batch)) (word_of_nat (length (bi_deposits batch))) = Some last_nonce"
    "lock now (cd_gateway db) = Inr g"
    and eligible: "int (length (filter (\<lambda>(n, r). in_batch (uint first_nonce) (uint last_nonce) n r \<and>
        eligible_deposit retry i (gw_jobs g) r) (cd_deposits db))) = uint last_nonce - uint first_nonce + 1"
    and linked: "int (snd (update_where (in_batch (uint first_nonce) (uint last_nonce)) (\<lambda>r. r\<lparr>dp_bridge_job_id := Some job\<rparr>) (cd_deposits db))) =
        uint last_nonce - uint first_nonce + 1"
      "cd_deposits db' = fst (update_where (in_batch (uint first_nonce) (uint last_nonce)) (\<lambda>r. r\<lparr>dp_bridge_job_id := Some job\<rparr>) (cd_deposits db))"
    using assms unfolding queue_canonical_deposit_batch_def Let_def
    by (auto simp: and_then_Inr ensure_Inr bigint_Inr expect_Inr from_gateway_Inr split_beta)
  have n: "length (bi_deposits batch) < 2 ^ 64"
    using q(1) by (rule canonical_deposit_batch_length)
  then have "uint (word_of_nat (length (bi_deposits batch)) :: u64) = int (length (bi_deposits batch))"
    by (simp add: uint_nat unat_of_nat take_bit_nat_eq_self)
  then have u: "uint first_nonce = uint (eb_deposit_nonce (bi_ethereum batch)) + 1"
    "uint last_nonce = uint (eb_deposit_nonce (bi_ethereum batch)) + int (length (bi_deposits batch))"
    using checked_add_uint [OF q(2)] checked_add_uint [OF q(3)] by simp_all
  have "length (filter (\<lambda>x. case x of (n, r) \<Rightarrow> in_batch (uint first_nonce) (uint last_nonce) n r) (cd_deposits db)) =
      length (filter (\<lambda>x. (case x of (n, r) \<Rightarrow> in_batch (uint first_nonce) (uint last_nonce) n r) \<and>
        eligible_deposit retry i (gw_jobs g) (snd x)) (cd_deposits db))"
    using eligible linked(1) by (simp add: update_where_def split_def)
  from filter_length_eq [OF this]
  have "list_all (\<lambda>(n, r). in_batch (uint first_nonce) (uint last_nonce) n r \<longrightarrow>
      eligible_deposit retry i (gw_jobs (cd_gateway db)) r) (cd_deposits db)"
    using lock_frame(1) [OF q(4)] by (auto simp: list_all_iff)
  then show ?thesis using q(1) u linked(2) by (simp add: update_where_def)
qed

subsection \<open>One native deposit\<close>

definition batch_leaf :: bytes where
  "batch_leaf = compute_ethereum_deposit_leaf sample_crypto 1 (replicate 20 7) (replicate 20 0) (replicate 32 0) 1 0xFFFFFFFF 1"

definition batch_state :: bytes where
  "batch_state = compute_ethereum_state sample_crypto (replicate 32 0) batch_leaf"

definition batch_log :: bridge_deposit_log where
  "batch_log =
     \<lparr>dl_nonce = 1, dl_deposit_leaf = batch_leaf, dl_old_deposit_state = replicate 32 0, dl_new_deposit_state = batch_state,
      dl_token = replicate 20 0, dl_sender = [], dl_zeko_recipient = replicate 32 0, dl_amount = 10 ^ 9, dl_zeko_amount = 1,
      dl_timeout = 0xFFFFFFFF, dl_erc20_identity = None, dl_block_number = 100, dl_block_hash = [9], dl_transaction_hash = [],
      dl_log_index = 0\<rparr>"

definition batch_db :: chain_db where
  "batch_db = (sample_db [])
     \<lparr>cd_blocks := [(100, \<lparr>bw_hash = [9], bw_parent_hash = [8], bw_canonical = True, bw_finalized = True\<rparr>)],
      cd_deposits := [(1, \<lparr>dp_log = batch_log, dp_removed = False, dp_bridge_job_id = None, dp_outer_action_sequence = None,
        dp_outer_action_state_after = None, dp_synchronized_job_id = None, dp_synchronized_sequence = None\<rparr>)]\<rparr>"

definition batch_bridge :: bridge_state where
  "batch_bridge = \<lparr>bs_program_vkey = ''0xab'', bs_deposit_nonce = 1, bs_current_deposit_state = batch_state,
     bs_bridged_deposit_nonce = 0, bs_action_state_processed = None, bs_paused = False\<rparr>"

definition batch_view :: ethereum_view where
  "batch_view = (sample_view 0)
     \<lparr>ev_chain_id := Inr 1, ev_bridge_address := replicate 20 7,
      ev_bridge_state_at := (\<lambda>_ n a. Inr (batch_bridge\<lparr>bs_action_state_processed := map_option (\<lambda>_. False) a\<rparr>,
        Option.bind n (\<lambda>_. Some (replicate 32 0)))),
      ev_settlement_state_at := (\<lambda>_. Inr ((sample_chain 0)\<lparr>ss_action_state := replicate 32 0, ss_outer_action_state_length := 7\<rparr>))\<rparr>"

definition batch_input :: bridge_transition_input where
  "batch_input =
     \<lparr>bi_ethereum = \<lparr>eb_chain_id = 1, eb_bridge_address = replicate 20 7, eb_deposit_nonce = 0, eb_deposit_state = replicate 32 0\<rparr>,
      bi_zeko = \<lparr>zb_action_state = replicate 32 0, zb_action_state_length = 7\<rparr>,
      bi_deposits = [\<lparr>bd_token = replicate 20 0, bd_asset_id = replicate 32 0, bd_encoding_version = 0, bd_registry_index = 0,
        bd_record_commitment = replicate 32 0, bd_amount = be_bytes 32 (10 ^ 9), bd_zeko_amount = Some 1,
        bd_zeko_recipient = replicate 32 0, bd_timeout = 0xFFFFFFFF\<rparr>]\<rparr>"

lemma batch_lengths: "length batch_state = 32"
  by (simp add: batch_state_def compute_ethereum_state_def length_sample_keccak)

lemma batch_built: "canonical_deposit_batch batch_view batch_db = Inr batch_input"
proof -
  have "in_finalized_block (cd_blocks batch_db) batch_log"
    by (simp add: in_finalized_block_def batch_db_def batch_log_def)
  then have "finalized_deposits 0 1 batch_db = cd_deposits batch_db"
    by (simp add: finalized_deposits_def batch_db_def)
  moreover have "batch_deposit batch_log = Inr (hd (bi_deposits batch_input))"
    by (simp add: batch_deposit_def batch_identity_def parse_fixed_def u64_amount_def batch_log_def batch_input_def
        deposit_encoding_version_def del: be_bytes.simps)
  ultimately show ?thesis
    by (simp add: canonical_deposit_batch_def batch_view_def sample_view_def batch_bridge_def expect_def bigint_def i64_of_u64_def)
      (simp add: batch_db_def batch_log_def parse_fixed_def batch_lengths batch_input_def del: be_bytes.simps)
qed

theorem deposit_batch_validates_witness:
  "\<exists>out. canonical_deposit_batch batch_view batch_db = Inr batch_input \<and>
     derive_bridge_transition sample_crypto batch_input = Inr out \<and> bpv_ethereum_state_after out = batch_state"
proof -
  have "steady batch_view 7 batch_bridge (\<lambda>_. Some (replicate 32 0))" by (simp add: steady_def batch_view_def sample_view_def)
  moreover have "ev_chain_id batch_view = Inr 1" "ev_bridge_address batch_view = replicate 20 7" by (simp_all add: batch_view_def)
  moreover have "contract_rows sample_crypto 1 (replicate 20 7) (cd_deposits batch_db)"
    by (simp add: contract_rows_def contract_log_def native_log_def batch_db_def batch_log_def valid_recipient_def batch_leaf_def batch_state_def)
  moreover have "ji_bridge_context ((sample_input None)\<lparr>ji_bridge_context := Inr (1, replicate 20 7)\<rparr>) = Inr (1, replicate 20 7)"
    by simp
  moreover have "to_ascii_lowercase (bs_program_vkey batch_bridge) = to_ascii_lowercase (bs_program_vkey batch_bridge)" by simp
  moreover have "length (zb_action_state (bi_zeko batch_input)) = 32" "of_be (zb_action_state (bi_zeko batch_input)) < fp_modulus"
    "unat (zb_action_state_length (bi_zeko batch_input)) + length (bi_deposits batch_input) < 2 ^ 32"
    by (simp_all add: batch_input_def)
  ultimately show ?thesis
    using deposit_batch_validates [OF batch_built, of 7 batch_bridge "\<lambda>_. Some (replicate 32 0)" 1 sample_crypto
      "(sample_input None)\<lparr>ji_bridge_context := Inr (1, replicate 20 7)\<rparr>" "bs_program_vkey batch_bridge"] batch_built
    by (auto simp: batch_bridge_def)
qed

end
