(* ===== verification/Zkapp_Admission.thy ===== *)
theory Zkapp_Admission
  imports Settlement_Bundles Deposit_Batch
begin

text \<open>
  The second way in for a settlement: the \<open>sendZkapp\<close> mutation of \<open>api/src/graphql.rs\<close>, by which the sequencer hands
  over a Mina command together with its proof export.  The database part is one transaction; an error leaves the
  database as it was.  The JSON value of the job and its SHA-256 digest are parameters (\<open>input_of\<close>, \<open>digest\<close>).
  The normalisation of amounts given as text and the parse of the settlement variable come before.
\<close>

subsection \<open>The mutation\<close>

record gateway_settlement = settlement_request +
  gs_outer_account_public_key :: string
  gs_fee_payer_public_key :: string
  gs_nonce :: u64
  gs_command_base64 :: string

text \<open>The proof export without the Ethereum context, which is assigned when the worker reaches the job.\<close>

definition without_context :: "gateway_settlement \<Rightarrow> gateway_settlement" where
  "without_context s = s\<lparr>rq_proof := (rq_proof s)\<lparr>spb_context := None\<rparr>\<rparr>"

definition zkapp_request ::
  "string \<Rightarrow> string \<Rightarrow> gateway_settlement \<Rightarrow> failure + gateway_settlement" where
  "zkapp_request api_key supplied_token s =
     ensure (supplied_token = api_key) (plain_failure ''invalid Ethereum gateway token'') (
     ensure (rq_schema_version s = 1) (plain_failure ''unsupported settlement schema'') (
     ensure (is_bytes32_hex (rq_mina_transaction_hash s)) (plain_failure ''minaTransactionHash must be 32-byte hex'') (
     ensure (spb_binding (rq_proof s) \<noteq> None)
       (plain_failure ''settlement proof export has no OCaml account-update binding'') (
     Inr (without_context s)))))"

text \<open>The conditions on a new job after it was attached to the writer: fee payer, outer account and nonce.\<close>

definition command_matches :: "index_config \<Rightarrow> gateway_settlement \<Rightarrow> chain_db \<Rightarrow> failure + unit" where
  "command_matches cfg s db =
     and_then (expect (ic_fee_payer_public_key cfg) (plain_failure ''virtual Mina fee payer is not configured'')) (\<lambda>fee_payer.
     ensure (fee_payer = gs_fee_payer_public_key s)
       (plain_failure ''settlement fee payer does not match gateway configuration'') (
     and_then (expect (cd_outer_public_key db) (plain_failure ''virtual Mina outer account is not configured'')) (\<lambda>outer.
     ensure (outer = gs_outer_account_public_key s)
       (plain_failure ''settlement outer account does not match gateway configuration'') (
     and_then (expect (map_of (cd_accounts db) (gs_fee_payer_public_key s))
       (plain_failure ''no rows returned by a query that expected to return at least one row'')) (\<lambda>row.
     and_then (expect (parse_u64 (case aj_nonce (ar_account row) of Some n \<Rightarrow> n | None \<Rightarrow> ''0''))
       (plain_failure ''invalid digit found in string'')) (\<lambda>expected.
     ensure (gs_nonce s = expected)
       (plain_failure (''settlement fee-payer nonce '' @ show_nat (unat (gs_nonce s)) @
          '' does not match gateway nonce '' @ show_nat (unat expected)))
       (Inr ())))))))"

text \<open>
  The row of the pool, unless the job is over: the SQL condition is that of a job that still holds the writer.
\<close>

definition pool_command :: "uuid \<Rightarrow> gateway \<Rightarrow> gateway" where
  "pool_command i g =
     (case map_of (gw_jobs g) i of
        None \<Rightarrow> g
      | Some j \<Rightarrow> if released j \<or> i \<in> set (gw_pending_commands g) then g
                  else g\<lparr>gw_pending_commands := gw_pending_commands g @ [i]\<rparr>)"

definition admit_zkapp ::
  "text_codec \<Rightarrow> (uuid \<Rightarrow> string) \<Rightarrow> (job_input \<Rightarrow> string) \<Rightarrow> (gateway_settlement \<Rightarrow> job_input) \<Rightarrow> nat \<Rightarrow> uuid \<Rightarrow>
   index_config \<Rightarrow> gateway_settlement \<Rightarrow> chain_db \<Rightarrow> failure + uuid \<times> chain_db" where
  "admit_zkapp T show_uuid digest input_of now i cfg s db =
     (let input = input_of s;
          key = settlement_idempotency_key show_uuid (rq_mina_transaction_hash s) (rq_reservation s) in
      and_then (from_gateway (lock now (cd_gateway db))) (\<lambda>g.
      ensure (\<not> list_ex (\<lambda>(_, j). jb_idempotency_key j = Some key \<and> jb_input_digest j \<noteq> digest input) (gw_jobs g))
        (plain_failure ''transaction hash was reused for different proof input'') (
      and_then (from_gateway (insert_job i Settlement input (Some key) (digest input) (gw_jobs g))) (\<lambda>(actual, t).
      and_then
        (if actual = i
         then and_then (from_gateway (attach_settlement T now i (rq_reservation s) input (g\<lparr>gw_jobs := t\<rparr>))) (\<lambda>g.
              and_then (command_matches cfg s db) (\<lambda>_. Inr g))
         else Inr (g\<lparr>gw_jobs := t\<rparr>)) (\<lambda>g.
      and_then (bigint (gs_nonce s)) (\<lambda>_.
      Inr (actual, db\<lparr>cd_gateway := pool_command actual g\<rparr>)))))))"

definition send_zkapp ::
  "text_codec \<Rightarrow> (uuid \<Rightarrow> string) \<Rightarrow> (job_input \<Rightarrow> string) \<Rightarrow> (gateway_settlement \<Rightarrow> job_input) \<Rightarrow> nat \<Rightarrow> uuid \<Rightarrow>
   index_config \<Rightarrow> string \<Rightarrow> string \<Rightarrow> gateway_settlement \<Rightarrow> chain_db \<Rightarrow> failure + string \<times> chain_db" where
  "send_zkapp T show_uuid digest input_of now i cfg api_key supplied_token s db =
     and_then (zkapp_request api_key supplied_token s) (\<lambda>s.
     and_then (admit_zkapp T show_uuid digest input_of now i cfg s db) (\<lambda>(_, db).
     Inr (gs_command_base64 s, db)))"

text \<open>The branch of \<open>execute\<close>: the mutation is not tried while the gateway recovers.\<close>

definition execute_send_zkapp ::
  "text_codec \<Rightarrow> (uuid \<Rightarrow> string) \<Rightarrow> (job_input \<Rightarrow> string) \<Rightarrow> (gateway_settlement \<Rightarrow> job_input) \<Rightarrow> nat \<Rightarrow> uuid \<Rightarrow>
   index_config \<Rightarrow> string \<Rightarrow> string \<Rightarrow> gateway_settlement \<Rightarrow> chain_db \<Rightarrow> failure + string \<times> chain_db" where
  "execute_send_zkapp T show_uuid digest input_of now i cfg api_key supplied_token s db =
     ensure (gw_recovery_ready (cd_gateway db))
       (plain_failure ''Ethereum gateway is replaying canonical state; retry shortly'')
       (send_zkapp T show_uuid digest input_of now i cfg api_key supplied_token s db)"

subsection \<open>What an admitted command satisfies\<close>

lemma command_matches_Inr [res_simps]:
  "command_matches cfg s db = Inr u \<longleftrightarrow>
     ic_fee_payer_public_key cfg = Some (gs_fee_payer_public_key s) \<and>
     cd_outer_public_key db = Some (gs_outer_account_public_key s) \<and>
     (\<exists>row. map_of (cd_accounts db) (gs_fee_payer_public_key s) = Some row \<and>
        parse_u64 (case aj_nonce (ar_account row) of Some n \<Rightarrow> n | None \<Rightarrow> ''0'') = Some (gs_nonce s))"
  by (auto simp: command_matches_def res_simps)

lemma admit_zkapp_cases:
  assumes "admit_zkapp T show_uuid digest input_of now i cfg s db = Inr (k, db')"
  obtains (admitted) t g where "gw_recovery_ready (cd_gateway db)" "k = i"
      "insert_job i Settlement (input_of s) (Some (settlement_idempotency_key show_uuid (rq_mina_transaction_hash s) (rq_reservation s)))
         (digest (input_of s)) (gw_jobs (cd_gateway db)) = Inr (i, t)"
      "attach_settlement T now i (rq_reservation s) (input_of s)
         ((cd_gateway db)\<lparr>gw_writer := effective_writer now (cd_gateway db), gw_jobs := t\<rparr>) = Inr g"
      "command_matches cfg s db = Inr ()" "db' = db\<lparr>cd_gateway := pool_command i g\<rparr>"
  | (replayed) t where "gw_recovery_ready (cd_gateway db)" "k \<noteq> i"
      "insert_job i Settlement (input_of s) (Some (settlement_idempotency_key show_uuid (rq_mina_transaction_hash s) (rq_reservation s)))
         (digest (input_of s)) (gw_jobs (cd_gateway db)) = Inr (k, t)"
      "db' = db\<lparr>cd_gateway := pool_command k ((cd_gateway db)\<lparr>gw_writer := effective_writer now (cd_gateway db), gw_jobs := t\<rparr>)\<rparr>"
proof -
  from assms obtain g1 t g where g1: "lock now (cd_gateway db) = Inr g1"
    and t: "insert_job i Settlement (input_of s)
      (Some (settlement_idempotency_key show_uuid (rq_mina_transaction_hash s) (rq_reservation s)))
      (digest (input_of s)) (gw_jobs g1) = Inr (k, t)"
    and g: "(if k = i then and_then (from_gateway (attach_settlement T now i (rq_reservation s) (input_of s) (g1\<lparr>gw_jobs := t\<rparr>)))
        (\<lambda>g. and_then (command_matches cfg s db) (\<lambda>_. Inr g)) else Inr (g1\<lparr>gw_jobs := t\<rparr>)) = Inr g"
    and db': "db' = db\<lparr>cd_gateway := pool_command k g\<rparr>"
    unfolding admit_zkapp_def Let_def and_then_Inr ensure_Inr from_gateway_Inr
    by (auto simp: and_then_Inr split: prod.splits)
  have e: "g1 = (cd_gateway db)\<lparr>gw_writer := effective_writer now (cd_gateway db)\<rparr>" by (rule lock_effective [OF g1])
  have ready: "gw_recovery_ready (cd_gateway db)" using g1 by (simp add: lock_Inr)
  show thesis
  proof (cases "k = i")
    case True
    with g have "attach_settlement T now i (rq_reservation s) (input_of s) (g1\<lparr>gw_jobs := t\<rparr>) = Inr g" "command_matches cfg s db = Inr ()"
      by (auto simp: and_then_Inr from_gateway_Inr)
    then show thesis using admitted [OF ready True] t db' True by (simp add: e)
  next
    case False
    then show thesis using replayed [OF ready False, of t] t g db' by (simp add: e)
  qed
qed

text \<open>
  A new command was sent under the reservation that owns the writer, with every other outer job over, by the
  configured fee payer with the nonce of its virtual account; it is then in the pool and holds the writer.
\<close>

lemma zkapp_admitted:
  assumes "admit_zkapp T show_uuid digest input_of now i cfg s db = Inr (i, db')" "map_of (gw_jobs (cd_gateway db)) i = None"
  shows "\<exists>r. rq_reservation s = Some r \<and> owner_matches (gw_writer (cd_gateway db)) r \<and>
    \<not> list_ex (outer_job_blocks None) (gw_jobs (cd_gateway db)) \<and> command_matches cfg s db = Inr () \<and>
    ow_job_id (gw_writer (cd_gateway db')) = Some i \<and> i \<in> set (gw_pending_commands (cd_gateway db'))"
  using assms(1)
proof (cases rule: admit_zkapp_cases)
  case (admitted t g)
  let ?j = "new_job Settlement (input_of s) (Some (settlement_idempotency_key show_uuid (rq_mina_transaction_hash s) (rq_reservation s)))
    (digest (input_of s))"
  have t: "t = gw_jobs (cd_gateway db) @ [(i, ?j)]"
    using admitted(3) assms(2)
    by (cases rule: insert_job_cases) (auto dest!: find_in_set simp: map_of_eq_None_iff)
  obtain r where r: "rq_reservation s = Some r" "owner_matches (effective_writer now (cd_gateway db)) r"
    and free: "\<not> list_ex (outer_job_blocks (Some i)) t"
    and g: "gw_jobs g = t" "ow_job_id (gw_writer g) = Some i"
    using admitted(4) by (auto simp: attach_settlement_Inr)
  have "owner_matches (gw_writer (cd_gateway db)) r"
    using r(2) by (auto simp: owner_matches_def effective_writer_def clear_writer_def split: if_splits)
  moreover have "\<not> list_ex (outer_job_blocks None) (gw_jobs (cd_gateway db))"
    using free assms(2) by (force simp: t list_ex_iff outer_job_blocks_def map_of_eq_None_iff)
  moreover have "map_of (gw_jobs g) i = Some ?j" "\<not> released ?j"
    using assms(2) by (simp_all add: g(1) t map_add_def released_def new_job_def)
  then have "i \<in> set (gw_pending_commands (pool_command i g))" "ow_job_id (gw_writer (pool_command i g)) = Some i"
    using g(2) by (simp_all add: pool_command_def)
  ultimately show ?thesis using r(1) admitted(5,6) by simp
next
  case (replayed t)
  then show ?thesis by simp
qed

end
