(* ===== verification/Gateway_Chain.thy ===== *)
theory Gateway_Chain
  imports Gateway_Run Chain_Recovery Zkapp_Admission
begin

text \<open>
  The gateway on a chain that may be reorganised.  \<open>gw_step\<close> lacks three operations: the two other ways in for a job
  (\<open>send_zkapp\<close>, \<open>queue_canonical_deposit_batch\<close>), the recovery of jobs from events, and what takes a confirmed job back.
  \<open>chain_step\<close> has them all.  \<open>forward_step\<close> is every step but the last kind; \<open>retract_step\<close> is the last kind: the
  rollback of \<open>indexer.rs\<close> to any block and with any contents of the other tables, and the reconciliation that finds a
  confirmed job no longer final.

  After a rollback several jobs may be open and the writer need not name them: the earliest orphaned settlement is queued again
  without an owner, a later one that was signed keeps waiting for its outcome.  What holds in every state is that nobody is
  admitted beside an open job, and that credentials once fenced stay fenced.
\<close>

subsection \<open>Steps\<close>

inductive forward_step :: "configuration \<Rightarrow> system \<Rightarrow> system \<Rightarrow> bool" for cf where
  gateway: "gw_step cf s s' \<Longrightarrow> forward_step cf s s'"
| zkapp: "cd_gateway db = sy_gateway s \<Longrightarrow>
    send_zkapp T show_uuid digest input_of now i cfg api_key supplied_token command db = Inr (answer, db') \<Longrightarrow>
    forward_step cf s (s\<lparr>sy_gateway := cd_gateway db'\<rparr>)"
| batch: "cd_gateway db = sy_gateway s \<Longrightarrow>
    queue_canonical_deposit_batch T show_uuid digest of_batch now fresh i key retry V db = Inr (actual, db') \<Longrightarrow>
    forward_step cf s (s\<lparr>sy_gateway := cd_gateway db'\<rparr>)"
| event: "cd_gateway db = sy_gateway s \<Longrightarrow> recover_event H T X describe cfg e db k = (r, db', k') \<Longrightarrow>
    forward_step cf s (s\<lparr>sy_gateway := cd_gateway db'\<rparr>)"

inductive retract_step :: "system \<Rightarrow> system \<Rightarrow> bool" where
  rollback: "cd_gateway db = sy_gateway s \<Longrightarrow> rollback_after ancestor db = Inr db' \<Longrightarrow>
    retract_step s (s\<lparr>sy_gateway := cd_gateway db'\<rparr>)"
| unconfirm: "map_of (gw_jobs (sy_gateway s)) i = Some j \<Longrightarrow> jb_status j = Confirmed \<Longrightarrow>
    retract_step s (s\<lparr>sy_gateway := reconcile_job mode head required finalized r i (sy_gateway s)\<rparr>)"

definition chain_step :: "configuration \<Rightarrow> system \<Rightarrow> system \<Rightarrow> bool" where
  "chain_step cf s s' \<longleftrightarrow> forward_step cf s s' \<or> retract_step s s'"

lemma forward_chain: "(forward_step cf)\<^sup>*\<^sup>* s s' \<Longrightarrow> (chain_step cf)\<^sup>*\<^sup>* s s'"
  by (erule rtranclp_mono [THEN predicate2D, rotated]) (simp add: chain_step_def predicate2I)

lemma gateway_forward: "(gw_step cf)\<^sup>*\<^sup>* s s' \<Longrightarrow> (forward_step cf)\<^sup>*\<^sup>* s s'"
  by (erule rtranclp_mono [THEN predicate2D, rotated]) (simp add: forward_step.gateway predicate2I)

subsection \<open>The other ways in\<close>

lemma pool_command_frame [simp]:
  "gw_jobs (pool_command i g) = gw_jobs g" "gw_writer (pool_command i g) = gw_writer g"
  by (simp_all add: pool_command_def split: option.splits)

text \<open>Tables with the same jobs and the same writer are the same for \<open>keeps\<close>.\<close>

lemma same_tables:
  assumes "gw_jobs h' = gw_jobs h" "gw_writer h' = gw_writer h"
  shows "rows_ok h' = rows_ok h" "open_jobs h' = open_jobs h" "exclusive h' = exclusive h" "hashes_stored h' = hashes_stored h"
    "sealed h' = sealed h" "signed h' = signed h" "cancelled h' = cancelled h" "fences g h' = fences g h"
  using assms
  by (simp_all add: rows_ok_def exclusive_def open_jobs_def fences_def hashes_stored_def sealed_def signed_def cancelled_def fun_eq_iff)

lemma keeps_cong: "keeps g h \<Longrightarrow> gw_jobs h' = gw_jobs h \<Longrightarrow> gw_writer h' = gw_writer h \<Longrightarrow> keeps g h'"
  by (simp add: keeps_def progress_def follows_def same_tables [of h' h])

text \<open>\<open>attach_settlement\<close> is the settlement case of \<open>attach_job\<close>.\<close>

lemma attach_settlement_job:
  assumes "attach_settlement T now i token input g = Inr g'"
  shows "\<exists>input'. attach_job T show_uuid now fresh i Settlement input' g = Inr g'"
proof -
  obtain t where t: "token = Some t" using assms by (auto simp: attach_settlement_Inr)
  let ?input = "input\<lparr>ji_reservation := Some (Inr t)\<rparr>"
  have "proof_matches_checkpoint T ?input cp = proof_matches_checkpoint T input cp" "ledger_hashes T ?input = ledger_hashes T input" for cp
    by (simp_all add: proof_matches_checkpoint_def ledger_hashes_def)
  then have "attach_settlement T now i (Some t) ?input g = Inr g'"
    using assms unfolding t attach_settlement_Inr by simp
  then show ?thesis by (intro exI [of _ ?input]) (simp add: attach_job_def)
qed

lemma zkapp_step:
  assumes "rows_ok (cd_gateway db)" "admit_zkapp T show_uuid digest input_of now i cfg s db = Inr (k, db')"
  shows "keeps (cd_gateway db) (cd_gateway db')"
proof -
  let ?g = "cd_gateway db"
  let ?e = "?g\<lparr>gw_writer := effective_writer now ?g\<rparr>"
  note eff = effective_writer_keeps [OF assms(1), of now]
  from assms(2) show ?thesis
  proof (cases rule: admit_zkapp_cases)
    case (admitted t g)
    obtain input where "attach_job T show_uuid now 0 i Settlement input (?e\<lparr>gw_jobs := t\<rparr>) = Inr g"
      using attach_settlement_job [OF admitted(4), of show_uuid 0] by auto
    moreover have "insert_job i Settlement (input_of s)
        (Some (settlement_idempotency_key show_uuid (rq_mina_transaction_hash s) (rq_reservation s)))
        (digest (input_of s)) (gw_jobs ?e) = Inr (i, t)"
      using admitted(3) by simp
    ultimately have "keeps ?e g" using admission_keeps [OF keeps_rows [OF eff]] by blast
    with eff have "keeps ?g g" by (rule keeps_then)
    then show ?thesis by (rule keeps_cong) (simp_all add: admitted(6))
  next
    case (replayed t)
    have "distinct (map fst (gw_jobs ?g))" using assms(1) by (simp add: rows_ok_def)
    then have "t = gw_jobs ?g" using insert_job_table(4) [OF replayed(3)] replayed(2) by blast
    then show ?thesis by (intro keeps_cong [OF eff]) (simp_all add: replayed(4))
  qed
qed

lemma batch_step:
  assumes "rows_ok (cd_gateway db)"
    and "queue_canonical_deposit_batch T show_uuid digest of_batch now fresh i key retry V db = Inr (k, db')"
  shows "keeps (cd_gateway db) (cd_gateway db')"
proof -
  let ?g = "cd_gateway db"
  obtain input e t g where lock: "lock now ?g = Inr e"
    and t: "insert_job i Bridge input key (digest input) (gw_jobs e) = Inr (k, t)"
    and g: "(if k = i then from_gateway (attach_bridge T show_uuid fresh i input (e\<lparr>gw_jobs := t\<rparr>)) else Inr (e\<lparr>gw_jobs := t\<rparr>)) = Inr g"
    and db': "cd_gateway db' = g"
    using assms(2) unfolding queue_canonical_deposit_batch_def Let_def and_then_Inr ensure_Inr from_gateway_Inr
    by (auto simp: case_prod_beta and_then_Inr ensure_Inr from_gateway_Inr cong: if_cong)
  have e: "e = ?g\<lparr>gw_writer := effective_writer now ?g\<rparr>" by (rule lock_effective [OF lock])
  have eff: "keeps ?g e" unfolding e by (rule effective_writer_keeps [OF assms(1)])
  show ?thesis
  proof (cases "k = i")
    case True
    then have "attach_job T show_uuid now fresh i Bridge input (e\<lparr>gw_jobs := t\<rparr>) = Inr g"
      using g by (simp add: attach_job_def from_gateway_Inr)
    then have "keeps e g" using t True by (intro admission_keeps [OF keeps_rows [OF eff]]) auto
    with eff show ?thesis unfolding db' by (rule keeps_then)
  next
    case False
    have "distinct (map fst (gw_jobs e))" using keeps_rows [OF eff] by (simp add: rows_ok_def)
    then have "t = gw_jobs e" using insert_job_table(4) [OF t] False by blast
    then show ?thesis using g False by (intro keeps_cong [OF eff]) (simp_all add: db')
  qed
qed

subsection \<open>Recovery and rollback\<close>

text \<open>A change that closes jobs or adds closed ones, with the writer as it is.\<close>

lemma closing_progress:
  assumes "rows_ok g" "gw_writer g' = gw_writer g" "distinct (map fst (gw_jobs g'))" "open_jobs g' \<subseteq> open_jobs g"
    and "\<And>i j. map_of (gw_jobs g') i = Some j \<Longrightarrow> job_ok j"
  shows "progress g g' \<and> fences g g'"
  using assms by (auto simp: progress_def rows_ok_def exclusive_def fences_def)

lemma progress_cong:
  "progress g h \<and> fences g h \<Longrightarrow> gw_jobs h' = gw_jobs h \<Longrightarrow> gw_writer h' = gw_writer h \<Longrightarrow> progress g h' \<and> fences g h'"
  by (simp add: progress_def same_tables [of h' h])

lemma confirmed_row [simp]:
  "job_ok j \<Longrightarrow> job_ok (confirm_recovered pv n h tx j)" "released (confirm_recovered pv n h tx j)"
  "job_ok (recovered_job kind input pv n h tx)" "released (recovered_job kind input pv n h tx)"
  by (simp_all add: job_ok_def released_def confirm_recovered_def recovered_job_def new_job_def)

lemma insert_recovered_progress:
  assumes "rows_ok (cd_gateway db)" "insert_recovered i (recovered_job kind input pv n h tx) db = Inr db'"
  shows "progress (cd_gateway db) (cd_gateway db') \<and> fences (cd_gateway db) (cd_gateway db')"
proof (rule closing_progress [OF assms(1)])
  let ?t = "gw_jobs (cd_gateway db)" and ?j = "recovered_job kind input pv n h tx"
  have db': "gw_jobs (cd_gateway db') = ?t @ [(i, ?j)]" "gw_writer (cd_gateway db') = gw_writer (cd_gateway db)" "map_of ?t i = None"
    using assms(2) by (auto simp: insert_recovered_def Let_def ensure_Inr)
  have row: "map_of ?t k = Some j \<or> k = i \<and> j = ?j" if "map_of (gw_jobs (cd_gateway db')) k = Some j" for k j
    using that by (auto simp: db'(1) map_add_def split: option.splits if_splits)
  show "gw_writer (cd_gateway db') = gw_writer (cd_gateway db)" by (rule db'(2))
  show "distinct (map fst (gw_jobs (cd_gateway db')))"
    using assms(1) db'(3) by (auto simp: db'(1) rows_ok_def map_of_eq_None_iff)
  show "open_jobs (cd_gateway db') \<subseteq> open_jobs (cd_gateway db)"
    using row by (fastforce simp: open_jobs_def)
  show "job_ok j" if "map_of (gw_jobs (cd_gateway db')) k = Some j" for k j
    using row [OF that] assms(1) by (auto simp: rows_ok_def)
qed

lemma confirm_progress:
  assumes "rows_ok (cd_gateway db)"
  shows "progress (cd_gateway db) (cd_gateway (update_job i (confirm_recovered pv n h tx) db)) \<and>
    fences (cd_gateway db) (cd_gateway (update_job i (confirm_recovered pv n h tx) db))"
proof (rule closing_progress [OF assms])
  let ?db = "update_job i (confirm_recovered pv n h tx) db"
  have row: "map_of (gw_jobs (cd_gateway ?db)) k =
      map_option (\<lambda>j. if k = i then confirm_recovered pv n h tx j else j) (map_of (gw_jobs (cd_gateway db)) k)" for k
    by (simp add: update_job_def update_where_map_of)
  show "gw_writer (cd_gateway ?db) = gw_writer (cd_gateway db)" by (simp add: update_job_def)
  show "distinct (map fst (gw_jobs (cd_gateway ?db)))" using assms by (simp add: update_job_def rows_ok_def)
  show "open_jobs (cd_gateway ?db) \<subseteq> open_jobs (cd_gateway db)"
    by (auto simp: open_jobs_def row split: if_splits)
  show "job_ok j" if "map_of (gw_jobs (cd_gateway ?db)) k = Some j" for k j
    using that assms by (auto simp: row rows_ok_def split: if_splits)
qed

lemma event_step:
  assumes "rows_ok (cd_gateway db)" "recover_event H T X describe cfg e db k = (r, db', k')"
  shows "progress (cd_gateway db) (cd_gateway db') \<and> fences (cd_gateway db) (cd_gateway db')"
proof -
  have same: "progress (cd_gateway db) (cd_gateway db) \<and> fences (cd_gateway db) (cd_gateway db)"
    by (simp add: progress_refl [OF assms(1)])
  have job: "progress (cd_gateway db) (cd_gateway d) \<and> fences (cd_gateway db) (cd_gateway d)"
    if "event_job X describe cfg e pv fresh db = Inr ((i, input), d)" for pv fresh i input d
    using that same insert_recovered_progress [OF assms(1)]
    by (auto simp: event_job_def Let_def and_then_Inr split: option.splits)
  have receipt: "progress (cd_gateway db) (cd_gateway d') \<and> fences (cd_gateway db) (cd_gateway d')"
    if "event_job X describe cfg e pv fresh db = Inr ((i, input), d)"
      "apply_confirmed H T describe kind i input pv bn bh th d = Inr d'" for pv fresh i input d kind bn bh th d'
    using progress_cong [OF job [OF that(1)]] apply_keeps(2) [OF that(2)] by (simp add: same_jobs_def)
  have confirm: "progress (cd_gateway db) (cd_gateway (update_job i (confirm_recovered pv n h tx) d')) \<and>
      fences (cd_gateway db) (cd_gateway (update_job i (confirm_recovered pv n h tx) d'))"
    if "progress (cd_gateway db) (cd_gateway d') \<and> fences (cd_gateway db) (cd_gateway d')" for i pv n h tx d'
    using that confirm_progress [of d' i pv n h tx] progress_trans fences_trans
    by (meson progress_def)
  show ?thesis
    using assms(2) same job receipt confirm
    by (auto simp: recover_event_def Let_def split: if_splits sum.splits prod.splits)
qed

subsection \<open>What a reorganisation keeps\<close>

definition table_ok :: "job_table \<Rightarrow> bool" where
  "table_ok t \<longleftrightarrow> distinct (map fst t) \<and> (\<forall>r. r \<in> set t \<longrightarrow> job_ok (snd r))"

lemma rows_ok_table: "rows_ok g \<longleftrightarrow> table_ok (gw_jobs g) \<and> writer_ok (gw_writer g)"
  by (auto simp: rows_ok_def table_ok_def dest: map_of_SomeD)

lemma table_ok_filter: "table_ok t \<Longrightarrow> table_ok (filter p t)"
  by (auto simp: table_ok_def distinct_map_filter)

lemma table_ok_update:
  "table_ok t \<Longrightarrow> (\<And>i j. (i, j) \<in> set t \<Longrightarrow> p i j \<Longrightarrow> job_ok j \<Longrightarrow> job_ok (f j)) \<Longrightarrow> table_ok (fst (update_where p f t))"
  unfolding table_ok_def by (intro conjI allI impI) (simp, force simp: update_where_def)

lemma rolled_back_ok:
  assumes "table_ok (gw_jobs g)"
  shows "table_ok (rolled_back_jobs a g)"
proof -
  have "table_ok (orphan_recovered a g (gw_jobs g))"
    unfolding orphan_recovered_def using assms by (rule table_ok_update) (simp add: job_ok_def)
  then have "table_ok (filter (\<lambda>r. \<not> deleted_orphan a g r) (orphan_recovered a g (gw_jobs g)))" by (rule table_ok_filter)
  then have "table_ok (invalidate_settlements retry (filter (\<lambda>r. \<not> deleted_orphan a g r) (orphan_recovered a g (gw_jobs g))))" for retry
    unfolding invalidate_settlements_def by (cases retry) (auto intro!: table_ok_update simp: job_ok_def)
  then show ?thesis
    unfolding rolled_back_jobs_def requeue_orphans_def by (rule table_ok_update) (auto simp: job_ok_def)
qed

lemma retract_step_keeps:
  assumes "rows_ok (sy_gateway s)" "retract_step s s'"
  shows "rows_ok (sy_gateway s')" "gw_writer (sy_gateway s') = gw_writer (sy_gateway s)"
proof -
  have "rows_ok (sy_gateway s') \<and> gw_writer (sy_gateway s') = gw_writer (sy_gateway s)"
    using assms(2)
  proof cases
    case (rollback db ancestor db')
    then show ?thesis using assms(1) by (auto simp: rollback_after_Inr rows_ok_table intro: rolled_back_ok)
  next
    case (unconfirm i j mode head required finalized r)
    let ?g = "sy_gateway s"
    let ?g' = "reconcile_job mode head required finalized r i ?g"
    have j: "job_ok j" using unconfirm(2) assms(1) by (auto simp: rows_ok_def)
    have t: "table_ok (gw_jobs ?g)" "writer_ok (gw_writer ?g)" using assms(1) by (simp_all add: rows_ok_table)
    have "table_ok (gw_jobs ?g') \<and> gw_writer ?g' = gw_writer ?g"
    proof (cases "reconcilable j \<and> i64_of_u64 (rv_block_number r) \<noteq> None \<and>
        reconciled_status mode head required finalized r (jb_status j) \<noteq> None")
      case False
      then show ?thesis using t(1) unconfirm(2) by (auto simp: reconcile_job_def)
    next
      case True
      then obtain st where st: "reconciled_status mode head required finalized r (jb_status j) = Some st" by auto
      then have "st \<in> {Confirmed, Submitted, Ethereum_Reverted}"
        by (auto simp: reconciled_status_def Let_def split: if_splits)
      then have "job_ok (j\<lparr>jb_status := st, jb_error := e\<rparr>)" "job_ok (j\<lparr>jb_status := st, jb_submitted_block_number := n, jb_submitted_block_hash := h\<rparr>)" for e n h
        using j unconfirm(3) by (auto simp: job_ok_def)
      then show ?thesis
        using True st unconfirm(2) t(1) unfolding reconcile_job_def
        by (auto simp: Let_def intro!: table_ok_update)
    qed
    then show ?thesis using t(2) unconfirm(1) by (simp add: rows_ok_table)
  qed
  then show "rows_ok (sy_gateway s')" "gw_writer (sy_gateway s') = gw_writer (sy_gateway s)" by simp_all
qed

lemma forward_step_keeps:
  assumes "rows_ok (sy_gateway s)" "forward_step cf s s'"
  shows "progress (sy_gateway s) (sy_gateway s') \<and> fences (sy_gateway s) (sy_gateway s')"
  using assms(2)
proof cases
  case gateway
  then show ?thesis using gw_step_keeps [OF assms(1)] by (simp add: keeps_def follows_def)
next
  case (zkapp db T show_uuid digest input_of now i cfg api_key supplied_token command answer db')
  then obtain c k where "admit_zkapp T show_uuid digest input_of now i cfg c db = Inr (k, db')"
    by (auto simp: send_zkapp_def res_simps)
  then show ?thesis using zkapp_step [of db] assms(1) zkapp(1,2) by (simp add: keeps_def follows_def)
next
  case (batch db T show_uuid digest of_batch now fresh i key retry V actual db')
  then show ?thesis using batch_step [of db] assms(1) by (simp add: keeps_def follows_def)
next
  case (event db H T X describe cfg e k r db' k')
  then show ?thesis using event_step [of db] assms(1) by simp
qed

text \<open>What is opened: nothing, or one job for which the writer stands.\<close>

definition opens_alone :: "gateway \<Rightarrow> gateway \<Rightarrow> bool" where
  "opens_alone g g' \<longleftrightarrow> (exclusive g \<longrightarrow> exclusive g') \<and> (open_jobs g' \<subseteq> open_jobs g \<or> exclusive g')"

lemma rows_ok_initial: "initial s \<Longrightarrow> rows_ok (sy_gateway s)"
  by (simp add: initial_def rows_ok_def)

interpretation forward: monotone_system initial "forward_step cf" "\<lambda>s. rows_ok (sy_gateway s)"
    "\<lambda>s s'. opens_alone (sy_gateway s) (sy_gateway s')" for cf
  by unfold_locales (use forward_step_keeps in \<open>auto simp: rows_ok_initial opens_alone_def progress_def\<close>)

lemma chain_step_keeps:
  assumes "rows_ok (sy_gateway s)" "chain_step cf s s'"
  shows "rows_ok (sy_gateway s') \<and> fences (sy_gateway s) (sy_gateway s')"
  using assms(2) forward_step_keeps [OF assms(1)] retract_step_keeps [OF assms(1)]
  by (auto simp: chain_step_def progress_def fences_def)

interpretation reorganised: monotone_system initial "chain_step cf" "\<lambda>s. rows_ok (sy_gateway s)"
    "\<lambda>s s'. fences (sy_gateway s) (sy_gateway s')" for cf
  by unfold_locales (auto simp: rows_ok_initial chain_step_keeps intro: fences_trans)

subsection \<open>Refused credentials\<close>

lemma owner_effective:
  "\<not> owner_matches (gw_writer g) r \<Longrightarrow> \<not> owner_matches (effective_writer now g) r"
  by (auto simp: owner_matches_def effective_writer_def clear_writer_def)

lemma renew_refused:
  assumes "\<not> owner_matches (gw_writer g) r"
  shows "renew now (rt_id r) (rt_fencing_token r) v g =
    and_then (ttl v) (\<lambda>_. Inl (conflict ''RESERVATION_EXPIRED'' ''reservation was released or fenced''))"
  using assms by (cases r) (simp add: renew_def renew_token_def ensure_def)

text \<open>On a writer that nobody holds, a release answers as if it had released, and changes nothing but what \<open>lock\<close> does.\<close>

lemma release_refused:
  assumes "\<not> owner_matches (gw_writer g) r"
  shows "release now (rt_id r) (rt_fencing_token r) g =
    and_then (lock now g) (\<lambda>e. if ow_reservation_id (gw_writer e) = None then Inr e
      else Inl (conflict ''RESERVATION_EXPIRED'' ''reservation was released or fenced''))"
proof -
  have "\<not> owner_matches (gw_writer e) \<lparr>rt_id = rt_id r, rt_fencing_token = rt_fencing_token r\<rparr>" if "lock now g = Inr e" for e
    using owner_effective [OF assms, of now] lock_effective [OF that] by (cases r) simp
  then show ?thesis by (cases "lock now g") (simp_all add: release_def Let_def ensure_def)
qed

lemma create_refused:
  assumes "\<not> owner_matches (gw_writer g) r" "rows_ok g" "ji_reservation input = Some (Inr r)"
    and "create_job T show_uuid digest now fresh i key Settlement input g = Inr (k, g')"
  shows "k \<noteq> i \<and> gw_jobs g' = gw_jobs g"
  using assms(4)
proof (cases rule: create_job_cases)
  case (1 t)
  have "k \<noteq> i"
    using 1(5) owner_effective [OF assms(1)] by (auto simp: attach_job_Inr attach_settlement_Inr assms(3))
  moreover have "distinct (map fst (gw_jobs g))" using assms(2) by (simp add: rows_ok_def)
  ultimately show ?thesis using insert_job_table(4) [OF 1(2)] 1(3) by blast
qed

lemma zkapp_refused:
  assumes "\<not> owner_matches (gw_writer (cd_gateway db)) r" "rows_ok (cd_gateway db)" "rq_reservation c = Some r"
    and "admit_zkapp T show_uuid digest input_of now i cfg c db = Inr (k, db')"
  shows "k \<noteq> i \<and> gw_jobs (cd_gateway db') = gw_jobs (cd_gateway db)"
  using assms(4)
proof (cases rule: admit_zkapp_cases)
  case (admitted t g)
  then show ?thesis using owner_effective [OF assms(1)] by (auto simp: attach_settlement_Inr assms(3))
next
  case (replayed t)
  have "distinct (map fst (gw_jobs (cd_gateway db)))" using assms(2) by (simp add: rows_ok_def)
  then show ?thesis using insert_job_table(4) [OF replayed(3)] replayed(2,4) by auto
qed

lemma stale_stays_stale:
  "fences a b \<Longrightarrow> fences b c \<Longrightarrow> owner_matches (gw_writer a) r \<Longrightarrow> \<not> owner_matches (gw_writer b) r \<Longrightarrow>
    \<not> owner_matches (gw_writer c) r"
  by (auto simp: owner_matches_def fences_def)

subsection \<open>Properties\<close>

text \<open>
  C9: Nobody is admitted to the outer writer beside an open job.  Take any state of the gateway, also one that rollbacks of the
  chain, recovered events and crashes have led to, and any run from there on during which the chain does not take a confirmed
  job back.  At the end of the run every open job was open at its start already, or exactly one job is open, and the writer
  names it under a reservation.  So from an empty database, and again as soon as the jobs that a rollback reopened are over, at
  most one outer job is open at a time, whatever workers, crashes, API requests and the indexer do.
\<close>

theorem outer_writer_exclusive:
  assumes "initial s0" "(chain_step cf)\<^sup>*\<^sup>* s0 s" "(forward_step cf)\<^sup>*\<^sup>* s s'"
  shows "open_jobs (sy_gateway s') \<subseteq> open_jobs (sy_gateway s) \<or>
    (\<exists>i. open_jobs (sy_gateway s') = {i} \<and> ow_job_id (gw_writer (sy_gateway s')) = Some i \<and>
      ow_reservation_id (gw_writer (sy_gateway s')) \<noteq> None)"
proof -
  have ok: "rows_ok (sy_gateway s)" by (rule reorganised.run_inv [OF assms(1,2)])
  have "rows_ok (sy_gateway s')" by (rule forward.steps_inv [OF ok assms(3)])
  then have w: "writer_ok (gw_writer (sy_gateway s'))" by (simp add: rows_ok_def)
  have "opens_alone (sy_gateway s) (sy_gateway s')" by (rule forward.steps_later [OF ok assms(3)])
  then consider "open_jobs (sy_gateway s') \<subseteq> open_jobs (sy_gateway s)"
    | i where "i \<in> open_jobs (sy_gateway s')" "exclusive (sy_gateway s')"
    unfolding opens_alone_def by blast
  then show ?thesis
  proof cases
    case (2 i)
    then have named: "ow_job_id (gw_writer (sy_gateway s')) = Some i" by (simp add: exclusive_def)
    moreover have "x = i" if "x \<in> open_jobs (sy_gateway s')" for x
      using that 2(2) named by (simp add: exclusive_def)
    then have "open_jobs (sy_gateway s') = {i}" using 2(1) by blast
    ultimately show ?thesis using w by (auto simp: writer_ok_def)
  qed simp
qed

text \<open>
  C14: Fencing.  Credentials that were once those of the writer and are no longer stay without effect in every later state, through
  crashes, rollbacks and changes of owner.  A renewal is refused (with the error of its lifetime, if that is invalid).  A release
  is refused while somebody holds the writer; when nobody does, or while the gateway recovers, it answers as \<open>lock\<close> does and
  releases nobody.  A settlement that presents the credentials, over HTTP or GraphQL, is not admitted: at most it is answered
  with a job that was admitted before under the same key, and the table of jobs is unchanged.
\<close>

theorem former_owner_fenced:
  assumes "initial s0" "(chain_step cf)\<^sup>*\<^sup>* s0 s" "owner_matches (gw_writer (sy_gateway s)) r"
    and "(chain_step cf)\<^sup>*\<^sup>* s s'" "\<not> owner_matches (gw_writer (sy_gateway s')) r" "(chain_step cf)\<^sup>*\<^sup>* s' s''"
  shows "renew now (rt_id r) (rt_fencing_token r) v (sy_gateway s'') =
      and_then (ttl v) (\<lambda>_. Inl (conflict ''RESERVATION_EXPIRED'' ''reservation was released or fenced'')) \<and>
    release now (rt_id r) (rt_fencing_token r) (sy_gateway s'') =
      and_then (lock now (sy_gateway s'')) (\<lambda>e. if ow_reservation_id (gw_writer e) = None then Inr e
        else Inl (conflict ''RESERVATION_EXPIRED'' ''reservation was released or fenced'')) \<and>
    (ji_reservation input = Some (Inr r) \<and>
       create_job T show_uuid digest now fresh i key Settlement input (sy_gateway s'') = Inr (k, g) \<longrightarrow>
       k \<noteq> i \<and> gw_jobs g = gw_jobs (sy_gateway s'')) \<and>
    (rq_reservation c = Some r \<and> cd_gateway db = sy_gateway s'' \<and>
       admit_zkapp T show_uuid digest input_of now i cfg c db = Inr (k, db') \<longrightarrow>
       k \<noteq> i \<and> gw_jobs (cd_gateway db') = gw_jobs (sy_gateway s''))"
proof -
  have ok: "rows_ok (sy_gateway s)" by (rule reorganised.run_inv [OF assms(1,2)])
  have ok': "rows_ok (sy_gateway s')" by (rule reorganised.steps_inv [OF ok assms(4)])
  have ok'': "rows_ok (sy_gateway s'')" by (rule reorganised.steps_inv [OF ok' assms(6)])
  have n: "\<not> owner_matches (gw_writer (sy_gateway s'')) r"
    using reorganised.steps_later [OF ok assms(4)] reorganised.steps_later [OF ok' assms(6)] assms(3,5)
    by (rule stale_stays_stale)
  have z: "k \<noteq> i \<and> gw_jobs (cd_gateway db') = gw_jobs (sy_gateway s'')"
    if "rq_reservation c = Some r \<and> cd_gateway db = sy_gateway s'' \<and> admit_zkapp T show_uuid digest input_of now i cfg c db = Inr (k, db')"
    using zkapp_refused [of db r c T show_uuid digest input_of now i cfg k db'] that n ok'' by metis
  show ?thesis
    by (intro conjI [OF renew_refused [OF n]] conjI [OF release_refused [OF n]] conjI)
      (use create_refused [OF n ok''] z in blast)+
qed

subsection \<open>Witnesses\<close>

text \<open>
  A settlement confirmed in block 102 and a signed settlement that depends on it and holds the writer.  After a rollback to
  block 101 both are open: the first is queued again, the second waits for the outcome of its transaction.
\<close>

definition signed_settlement :: job where
  "signed_settlement = (new_job Settlement (sample_input None) None ''d'')
     \<lparr>jb_status := Submitting, jb_transaction_hash := Some (ps_transaction_hash run_transaction),
      jb_prepared_transaction := Some run_transaction\<rparr>"

definition two_settlements :: chain_db where
  "two_settlements = (sample_db [(1, (sample_batch 102)\<lparr>jb_kind := Settlement\<rparr>), (2, signed_settlement)])"

lemma rollback_opens_two:
  "map_option (\<lambda>j. (jb_status j, released j)) (map_of (gw_jobs (cd_gateway two_settlements)) 1) = Some (Confirmed, True)"
  "\<exists>db. rollback_after 101 two_settlements = Inr db \<and> open_jobs (cd_gateway db) = {1, 2}"
proof -
  show "map_option (\<lambda>j. (jb_status j, released j)) (map_of (gw_jobs (cd_gateway two_settlements)) 1) = Some (Confirmed, True)"
    by code_simp
  have "case rollback_after 101 two_settlements of Inl _ \<Rightarrow> False
    | Inr db \<Rightarrow> map (\<lambda>(i, j). (i, jb_status j, released j)) (gw_jobs (cd_gateway db)) = [(1, Queued, False), (2, Reorged, False)]"
    by code_simp
  then obtain db where db: "rollback_after 101 two_settlements = Inr db"
    "map (\<lambda>(i, j). (i, jb_status j, released j)) (gw_jobs (cd_gateway db)) = [(1, Queued, False), (2, Reorged, False)]"
    by (cases "rollback_after 101 two_settlements") auto
  from db(2) have "open_jobs (cd_gateway db) = {1, 2}"
    by (auto simp: open_jobs_def map_eq_Cons_conv split: if_splits)
  with db(1) show "\<exists>db. rollback_after 101 two_settlements = Inr db \<and> open_jobs (cd_gateway db) = {1, 2}" by blast
qed

text \<open>The bridge job of the concrete run, across a rollback and the pass that makes the gateway ready again.\<close>

definition run_rolled_back :: system where
  "run_rolled_back = (case rollback_after 100 ((sample_db [])\<lparr>cd_gateway := sy_gateway run_admitted\<rparr>) of
     Inr db \<Rightarrow> run_admitted\<lparr>sy_gateway := cd_gateway db\<rparr> | Inl _ \<Rightarrow> run_admitted)"

definition run_resumed :: system where
  "run_resumed = run_rolled_back\<lparr>sy_gateway := (sy_gateway run_rolled_back)
     \<lparr>gw_outer_account := None, gw_recovery_ready := True\<rparr>\<rparr>"

lemma run_chain: "(chain_step cf)\<^sup>*\<^sup>* s s' \<Longrightarrow> chain_step cf s' s'' \<Longrightarrow> (chain_step cf)\<^sup>*\<^sup>* s s''"
  by (rule rtranclp.rtrancl_into_rtrancl)

lemma run_chain_reached:
  "initial run_initial" "(chain_step run_config)\<^sup>*\<^sup>* run_initial run_rolled_back"
  "(forward_step run_config)\<^sup>*\<^sup>* run_rolled_back run_resumed"
proof -
  show i: "initial run_initial" by (simp add: initial_def run_initial_def sample_gateway_def free_writer_def writer_ok_def)
  have "\<not> isl (create_job sample_text (\<lambda>_. ''u'') (\<lambda>_. ''d'') 1000 8 5 None Bridge run_input (sy_gateway run_initial))"
    by code_simp
  then obtain k g where c: "create_job sample_text (\<lambda>_. ''u'') (\<lambda>_. ''d'') 1000 8 5 None Bridge run_input (sy_gateway run_initial) = Inr (k, g)"
    by (cases "create_job sample_text (\<lambda>_. ''u'') (\<lambda>_. ''d'') 1000 8 5 None Bridge run_input (sy_gateway run_initial)") auto
  have "run_admitted = run_initial\<lparr>sy_gateway := g\<rparr>" by (simp add: run_admitted_def admit_def c)
  with gw_step.create [OF c, of run_config] have "gw_step run_config run_initial run_admitted" by simp
  then have a: "chain_step run_config run_initial run_admitted" by (simp add: chain_step_def forward_step.gateway)
  have "\<not> isl (rollback_after 100 ((sample_db [])\<lparr>cd_gateway := sy_gateway run_admitted\<rparr>))" by code_simp
  then obtain db where db: "rollback_after 100 ((sample_db [])\<lparr>cd_gateway := sy_gateway run_admitted\<rparr>) = Inr db"
    by (auto simp: isl_def split: sum.splits) (meson sum.exhaust)
  from retract_step.rollback [OF _ db] have "chain_step run_config run_admitted run_rolled_back"
    by (simp add: chain_step_def run_rolled_back_def db)
  with a show "(chain_step run_config)\<^sup>*\<^sup>* run_initial run_rolled_back" by (meson rtranclp.rtrancl_into_rtrancl r_into_rtranclp)
  show "(forward_step run_config)\<^sup>*\<^sup>* run_rolled_back run_resumed"
    unfolding run_resumed_def by (intro r_into_rtranclp forward_step.gateway gw_step.index)
qed

theorem outer_writer_exclusive_witness:
  "open_jobs (sy_gateway run_resumed) \<subseteq> open_jobs (sy_gateway run_rolled_back) \<or>
    (\<exists>i. open_jobs (sy_gateway run_resumed) = {i} \<and> ow_job_id (gw_writer (sy_gateway run_resumed)) = Some i \<and>
      ow_reservation_id (gw_writer (sy_gateway run_resumed)) \<noteq> None)"
  by (rule outer_writer_exclusive [OF run_chain_reached])

text \<open>The former owner of \<open>run_leased\<close>, after a release that it made itself.\<close>

definition stale_credentials :: reservation_token where
  "stale_credentials = \<lparr>rt_id = 7, rt_fencing_token = ''42''\<rparr>"

theorem former_owner_fenced_witness:
  "renew 1002 7 ''42'' None (sy_gateway run_released) =
      Inl (conflict ''RESERVATION_EXPIRED'' ''reservation was released or fenced'') \<and>
   release 1002 7 ''42'' (sy_gateway run_released) = Inr (sy_gateway run_released)"
proof -
  obtain s0 where s0: "initial s0" "(gw_step run_config)\<^sup>*\<^sup>* s0 run_leased"
    using run_lease_steps(1) [of run_config] by (auto simp: reachable_def)
  have step: "(chain_step run_config)\<^sup>*\<^sup>* run_leased run_released"
    by (intro r_into_rtranclp) (simp add: chain_step_def forward_step.gateway [OF run_lease_steps(2)])
  have owner: "owner_matches (gw_writer (sy_gateway run_leased)) stale_credentials"
    "\<not> owner_matches (gw_writer (sy_gateway run_released)) stale_credentials"
    by code_simp+
  note f = former_owner_fenced [OF s0(1) forward_chain [OF gateway_forward [OF s0(2)]] owner(1) step owner(2) rtranclp.rtrancl_refl,
      where now = 1002 and v = None]
  have "ttl None = Inr 120" "lock 1002 (sy_gateway run_released) = Inr (sy_gateway run_released)"
    "ow_reservation_id (gw_writer (sy_gateway run_released)) = None"
    by code_simp+
  then show ?thesis using f by (simp add: stale_credentials_def)
qed

end
