(* ===== verification/Archive_Leaves.thy ===== *)
theory Archive_Leaves
  imports Withdrawal_Service
begin

text \<open>
  \<open>api/src/withdrawal_activity.rs\<close>: how a gateway that lost its database rebuilds the leaves of settled inner actions.
  The canonical inner actions are read from the Zeko archive with the clear withdrawal that each of them commits to,
  matched with the batches that Ethereum accepted, and stored when they reproduce the accepted root.

  The rows of the archive database are arguments, as are \<open>U256::from_str_radix\<close> of a decimal field (\<open>dec\<close>) and the
  contract call that resolves the token of a registered asset (\<open>resolve\<close>).

  Hexadecimal columns of the leaves hold bytes here.  As text the two ways of storing a row differ: recovery writes
  addresses with the EIP-55 checksum, the indexer writes them in lower case.  Readers parse them (\<open>parse::<Address>\<close>, which takes
  both) or compare them in lower case, so nothing that is served depends on it; the text itself is not modelled.
\<close>

subsection \<open>Archived actions\<close>

record archive_native_withdrawal =
  an_recipient :: bytes
  an_amount :: u64

record archive_token_withdrawal =
  at_encoding_version :: u32
  at_registry_index :: u32
  at_record_commitment :: bytes
  at_asset_id :: bytes
  at_recipient :: bytes
  at_amount :: u64

datatype archive_withdrawal =
    Archived_Native archive_native_withdrawal
  | Archived_Token archive_token_withdrawal

record archive_inner_action =
  aa_global_action_index :: u32
  aa_transaction_hash :: string
  aa_block_height :: u64
  aa_timestamp :: string
  aa_fields :: "bytes list"
  aa_withdrawal :: "archive_withdrawal option"

text \<open>A row of \<open>action_rows\<close>: one action of an applied command in a canonical block of the archive.\<close>

record archive_action =
  av_height :: int
  av_block_id :: int
  av_timestamp :: string
  av_hash :: string
  av_sequence_no :: int
  av_update_ordinal :: int
  av_action_ordinal :: int
  av_public_key :: string
  av_balance_change :: int
  av_increment_nonce :: bool
  av_call_depth :: int
  av_fields :: "string list"

record archive_row =
  aw_global_action_index :: int
  aw_hash :: string
  aw_height :: int
  aw_timestamp :: string
  aw_fields :: "string list"
  aw_withdrawal_fields :: "string list option"

text \<open>
  \<open>ARCHIVE_INNER_ACTIONS_SQL\<close>: the actions of the inner account, numbered in chain order, each with the action of an
  earlier account update of the same command that pays for it.  The sorts are stable, so the last one is the first key.
\<close>

definition numbered_inner_actions :: "string \<Rightarrow> archive_action list \<Rightarrow> (nat \<times> archive_action) list" where
  "numbered_inner_actions inner_public_key actions =
     enumerate 0 (sort_key av_height (sort_key av_block_id (sort_key av_sequence_no (sort_key av_update_ordinal
       (sort_key av_action_ordinal (filter (\<lambda>a. av_public_key a = inner_public_key) actions))))))"

definition wide :: "archive_action \<Rightarrow> bool" where
  "wide a \<longleftrightarrow> length (av_fields a) \<in> {11, 14}"

definition withdrawal_candidate :: "archive_action \<Rightarrow> archive_action \<Rightarrow> bool" where
  "withdrawal_candidate inner_action c \<longleftrightarrow> av_hash c = av_hash inner_action \<and>
     av_update_ordinal c < av_update_ordinal inner_action \<and> av_balance_change c < 0 \<and>
     (av_increment_nonce c \<and> av_call_depth c = 0 \<and> length (av_fields c) = 3 \<or> wide c)"

definition withdrawal_fields :: "archive_action list \<Rightarrow> archive_action \<Rightarrow> string list option" where
  "withdrawal_fields actions inner_action =
     (case sort_key (\<lambda>c. if wide c then 0 else 1 :: nat) (sort_key (\<lambda>c. - av_update_ordinal c)
        (sort_key (\<lambda>c. - av_action_ordinal c) (filter (withdrawal_candidate inner_action) actions))) of
        [] \<Rightarrow> None
      | c # _ \<Rightarrow> Some (av_fields c))"

definition archive_inner_actions_sql :: "string \<Rightarrow> archive_action list \<Rightarrow> archive_row list" where
  "archive_inner_actions_sql inner_public_key actions =
     map (\<lambda>(i, a). \<lparr>aw_global_action_index = int i, aw_hash = av_hash a, aw_height = av_height a,
         aw_timestamp = av_timestamp a, aw_fields = av_fields a, aw_withdrawal_fields = withdrawal_fields actions a\<rparr>)
       (numbered_inner_actions inner_public_key actions)"

subsection \<open>Parsing\<close>

definition parse_u256 :: "(string \<Rightarrow> nat option) \<Rightarrow> string \<Rightarrow> failure + nat" where
  "parse_u256 dec s = expect (dec s) (plain_failure (''invalid archive action field '' @ s))"

definition parse_fields :: "(string \<Rightarrow> nat option) \<Rightarrow> string list \<Rightarrow> failure + bytes list" where
  "parse_fields dec fs = try_map (\<lambda>f. and_then (parse_u256 dec f) (\<lambda>v. Inr (be_bytes 32 v))) fs"

definition all_zero :: "bytes \<Rightarrow> bool" where
  "all_zero bs = list_all (\<lambda>b. b = 0) bs"

text \<open>The checks of recipient, parity and amount that both parsers make.\<close>

definition parse_recipient :: "nat \<Rightarrow> nat \<Rightarrow> failure + bytes" where
  "parse_recipient parity recipient =
     ensure (parity = 0) (plain_failure ''Ethereum withdrawal recipient must use even parity'') (
     let recipient_bytes = be_bytes 32 recipient in
     ensure (all_zero (take 12 recipient_bytes)) (plain_failure ''withdrawal recipient does not fit 160 bits'')
       (Inr (drop 12 recipient_bytes)))"

definition parse_amount :: "nat \<Rightarrow> failure + u64" where
  "parse_amount amount =
     ensure (0 < amount \<and> amount < 2 ^ 64) (plain_failure ''withdrawal amount is outside UInt64'') (Inr (word_of_nat amount))"

definition parse_native_withdrawal :: "(string \<Rightarrow> nat option) \<Rightarrow> string list \<Rightarrow> failure + archive_native_withdrawal" where
  "parse_native_withdrawal dec fs =
     ensure (length fs = 3) (plain_failure ''withdrawal action must have three fields'') (
     and_then (parse_u256 dec (fs ! 0)) (\<lambda>recipient.
     and_then (parse_u256 dec (fs ! 1)) (\<lambda>parity.
     and_then (parse_u256 dec (fs ! 2)) (\<lambda>amount.
     and_then (parse_recipient parity recipient) (\<lambda>address.
     and_then (parse_amount amount) (\<lambda>amount.
     Inr \<lparr>an_recipient = address, an_amount = amount\<rparr>))))))"

definition parse_token_withdrawal :: "(string \<Rightarrow> nat option) \<Rightarrow> string list \<Rightarrow> failure + archive_token_withdrawal" where
  "parse_token_withdrawal dec fs =
     ensure (length fs = 14) (plain_failure ''invalid ERC20 withdrawal parameter width'') (
     and_then (try_map (parse_u256 dec) fs) (\<lambda>vs.
     ensure (vs ! 0 = unat ERC20_ACTION_ENCODING_V2) (plain_failure ''unsupported ERC20 withdrawal encoding version'') (
     ensure (vs ! 1 < 2 ^ 32) (plain_failure ''ERC20 registry index is outside UInt32'') (
     let record_commitment = be_bytes 32 (vs ! 2) in
     ensure (record_commitment \<noteq> replicate 32 0) (plain_failure ''ERC20 record commitment is zero'') (
     let asset_high = be_bytes 32 (vs ! 3); asset_low = be_bytes 32 (vs ! 4) in
     ensure (all_zero (take 16 asset_high) \<and> all_zero (take 16 asset_low))
       (plain_failure ''ERC20 asset limbs exceed 128 bits'') (
     let asset_id = drop 16 asset_high @ drop 16 asset_low in
     ensure (asset_id \<noteq> replicate 32 0) (plain_failure ''ERC20 asset id is zero'') (
     and_then (parse_recipient (vs ! 13) (vs ! 12)) (\<lambda>address.
     ensure (\<not> all_zero address) (plain_failure ''withdrawal recipient is zero'') (
     and_then (parse_amount (vs ! 11)) (\<lambda>amount.
     Inr \<lparr>at_encoding_version = ERC20_ACTION_ENCODING_V2, at_registry_index = word_of_nat (vs ! 1),
       at_record_commitment = record_commitment, at_asset_id = asset_id, at_recipient = address, at_amount = amount\<rparr>))))))))))"

definition parse_withdrawal :: "(string \<Rightarrow> nat option) \<Rightarrow> string list \<Rightarrow> failure + archive_withdrawal" where
  "parse_withdrawal dec fs =
     (if length fs = 3 then and_then (parse_native_withdrawal dec fs) (\<lambda>w. Inr (Archived_Native w))
      else and_then (parse_token_withdrawal dec fs) (\<lambda>w. Inr (Archived_Token w)))"

definition archive_inner_action_of :: "(string \<Rightarrow> nat option) \<Rightarrow> archive_row \<Rightarrow> failure + archive_inner_action" where
  "archive_inner_action_of dec row =
     and_then (parse_fields dec (aw_fields row)) (\<lambda>fs.
     and_then (case aw_withdrawal_fields row of None \<Rightarrow> Inr None
       | Some ws \<Rightarrow> and_then (parse_withdrawal dec ws) (\<lambda>w. Inr (Some w))) (\<lambda>withdrawal.
     ensure (0 \<le> aw_global_action_index row \<and> aw_global_action_index row < 2 ^ 32)
       (plain_failure ''out of range integral type conversion attempted'') (
     ensure (0 \<le> aw_height row) (plain_failure ''out of range integral type conversion attempted'')
       (Inr \<lparr>aa_global_action_index = word_of_int (aw_global_action_index row), aa_transaction_hash = aw_hash row,
          aa_block_height = word_of_int (aw_height row), aa_timestamp = aw_timestamp row, aa_fields = fs,
          aa_withdrawal = withdrawal\<rparr>))))"

definition load_archive_inner_actions ::
  "(string \<Rightarrow> nat option) \<Rightarrow> string \<Rightarrow> archive_action list \<Rightarrow> failure + archive_inner_action list" where
  "load_archive_inner_actions dec inner_public_key actions =
     try_map (archive_inner_action_of dec) (archive_inner_actions_sql inner_public_key actions)"

subsection \<open>Leaves of a batch\<close>

record token_identity =
  ti_encoding_version :: u32
  ti_registry_index :: u32
  ti_record_commitment :: bytes
  ti_asset_id :: bytes

definition token_withdrawal_identity :: "archive_token_withdrawal \<Rightarrow> token_identity" where
  "token_withdrawal_identity w =
     \<lparr>ti_encoding_version = at_encoding_version w, ti_registry_index = at_registry_index w,
      ti_record_commitment = at_record_commitment w, ti_asset_id = at_asset_id w\<rparr>"

definition archived_tokens :: "archive_inner_action list \<Rightarrow> archive_token_withdrawal list" where
  "archived_tokens actions =
     List.map_filter (\<lambda>a. case aa_withdrawal a of Some (Archived_Token w) \<Rightarrow> Some w | _ \<Rightarrow> None) actions"

definition unique_token_withdrawal_identities :: "archive_token_withdrawal list \<Rightarrow> token_identity list" where
  "unique_token_withdrawal_identities ws =
     foldl (\<lambda>seen i. if i \<in> set seen then seen else seen @ [i]) [] (map token_withdrawal_identity ws)"

text \<open>The withdrawal that the leaf of an archived action is computed from.  The parameter fields are not stored.\<close>

definition archived_native :: "archive_native_withdrawal \<Rightarrow> native_withdrawal" where
  "archived_native w = \<lparr>nw_recipient = an_recipient w, nw_amount = an_amount w\<rparr>"

definition archived_token :: "archive_token_withdrawal \<Rightarrow> bytes \<Rightarrow> token_withdrawal" where
  "archived_token w token =
     \<lparr>tw_encoding_version = at_encoding_version w, tw_registry_index = at_registry_index w,
      tw_record_commitment = at_record_commitment w, tw_token = token, tw_asset_id = at_asset_id w,
      tw_recipient = at_recipient w, tw_amount = at_amount w, tw_params_fields = []\<rparr>"

definition archive_action_leaf ::
  "crypto \<Rightarrow> u64 \<Rightarrow> bytes \<Rightarrow> u32 \<Rightarrow> bytes \<Rightarrow> archive_withdrawal option \<Rightarrow> bytes option \<Rightarrow> failure + bytes" where
  "archive_action_leaf H cid bridge global_action_index fields_hash withdrawal token =
     (case (withdrawal, token) of
        (Some (Archived_Native w), None) \<Rightarrow>
          Inr (native_withdrawal_leaf H cid bridge global_action_index (archived_native w) fields_hash)
      | (Some (Archived_Token w), Some token) \<Rightarrow>
          guest_failure (erc20_withdrawal_leaf H cid bridge global_action_index (archived_token w token) fields_hash)
      | (None, None) \<Rightarrow> Inr (raw_inner_action_leaf H cid bridge global_action_index fields_hash)
      | _ \<Rightarrow> Inl (plain_failure ''archive withdrawal token classification is inconsistent''))"

text \<open>The columns of a recovered leaf, as the action that they describe.\<close>

definition archived_witness :: "archive_inner_action \<Rightarrow> bytes option \<Rightarrow> inner_action_witness" where
  "archived_witness a token =
     \<lparr>iw_fields = aa_fields a,
      iw_withdrawal = (case aa_withdrawal a of Some (Archived_Native w) \<Rightarrow> Some (archived_native w) | _ \<Rightarrow> None),
      iw_token_withdrawal = (case aa_withdrawal a of
          Some (Archived_Token w) \<Rightarrow> map_option (archived_token w) token | _ \<Rightarrow> None)\<rparr>"

definition archive_token ::
  "(token_identity \<Rightarrow> bytes option) \<Rightarrow> archive_inner_action \<Rightarrow> failure + bytes option" where
  "archive_token resolved a =
     (case aa_withdrawal a of
        Some (Archived_Token w) \<Rightarrow>
          and_then (expect (resolved (token_withdrawal_identity w)) (plain_failure ''archived ERC20 identity was not resolved''))
            (\<lambda>token. Inr (Some token))
      | _ \<Rightarrow> Inr None)"

fun archive_leaves ::
  "crypto \<Rightarrow> u64 \<Rightarrow> bytes \<Rightarrow> (token_identity \<Rightarrow> bytes option) \<Rightarrow> u32 \<Rightarrow> nat \<Rightarrow> archive_inner_action list \<Rightarrow>
   failure + (inner_action_witness \<times> u32 \<times> bytes \<times> bytes) list" where
  "archive_leaves H cid bridge resolved start off [] = Inr []"
| "archive_leaves H cid bridge resolved start off (a # as) =
     ensure (off < 2 ^ 32) (plain_failure ''out of range integral type conversion attempted'') (
     and_then (expect (checked_add start (word_of_nat off)) (plain_failure ''inner action index overflow'')) (\<lambda>expected_index.
     ensure (aa_global_action_index a = expected_index) (plain_failure ''archive inner actions are not contiguous'') (
     and_then (guest_failure (action_fields_hash H (aa_fields a))) (\<lambda>fields_hash.
     and_then (archive_token resolved a) (\<lambda>token.
     and_then (archive_action_leaf H cid bridge (aa_global_action_index a) fields_hash (aa_withdrawal a) token) (\<lambda>leaf.
     and_then (archive_leaves H cid bridge resolved start (off + 1) as) (\<lambda>rows.
     Inr ((archived_witness a token, aa_global_action_index a, fields_hash, leaf) # rows))))))))"

subsection \<open>Recovery\<close>

definition recovered_row ::
  "settlement_row \<Rightarrow> int \<Rightarrow> bytes \<Rightarrow> nat \<times> inner_action_witness \<times> u32 \<times> bytes \<times> bytes \<Rightarrow> leaf_row" where
  "recovered_row s sequence expected_root = (\<lambda>(off, action, global_index, fields_hash, leaf).
     \<lparr>lr_settlement_sequence = sequence, lr_action_offset = int off, lr_global_action_index = global_index,
      lr_action = action, lr_action_fields_hash = fields_hash, lr_leaf = leaf, lr_inner_action_root = expected_root,
      lr_commit_slot_upper = sl_slot_upper (se_log s), lr_block_number = uint (sl_block_number (se_log s)),
      lr_transaction_hash = sl_transaction_hash (se_log s), lr_removed = False\<rparr>)"

definition recover_batch ::
  "crypto \<Rightarrow> (token_identity list \<Rightarrow> failure + (token_identity \<Rightarrow> bytes option)) \<Rightarrow> u64 \<Rightarrow> bytes \<Rightarrow> settlement_row \<Rightarrow>
   inner_action_batch_log \<Rightarrow> archive_inner_action list \<Rightarrow> leaf_row list \<Rightarrow> failure + leaf_row list" where
  "recover_batch H resolve cid bridge s batch actions t =
     and_then (parse_fixed 32 ''expected 32-byte hex value'' (bl_root batch)) (\<lambda>expected_root.
     and_then (resolve (unique_token_withdrawal_identities (archived_tokens actions))) (\<lambda>resolved.
     and_then (archive_leaves H cid bridge resolved (bl_start_index batch) 0 actions) (\<lambda>rows.
     and_then (guest_failure (root H (map (\<lambda>(_, _, _, leaf). leaf) rows))) (\<lambda>r.
     ensure (r = expected_root)
       (plain_failure ''archive actions do not reproduce the Ethereum-accepted inner-action root'') (
     and_then (bigint (sl_batch_sequence (se_log s))) (\<lambda>sequence.
     ensure (length rows \<le> 2 ^ 31) (plain_failure ''out of range integral type conversion attempted'')
       (Inr (fold (\<lambda>row. put_leaf (recovered_row s sequence expected_root row)) (zip [0..<length rows] rows) t))))))))"

text \<open>The accepted batches of which no leaf is stored, in order.\<close>

definition unrecovered :: "chain_db \<Rightarrow> (settlement_row \<times> inner_action_batch_log) list" where
  "unrecovered db =
     sort_key (\<lambda>(s, _). sl_batch_sequence (se_log s)) (List.map_filter (\<lambda>s.
       case se_batch s of None \<Rightarrow> None
       | Some batch \<Rightarrow>
           if \<not> se_removed s \<and> 0 < bl_count batch \<and>
              \<not> list_ex (\<lambda>r. lr_settlement_sequence r = uint (sl_batch_sequence (se_log s)) \<and> \<not> lr_removed r) (cd_leaves db)
           then Some (s, batch) else None) (cd_settlements db))"

definition in_range :: "u32 \<Rightarrow> u32 \<Rightarrow> archive_inner_action \<Rightarrow> bool" where
  "in_range start end_index a \<longleftrightarrow> start \<le> aa_global_action_index a \<and> aa_global_action_index a < end_index"

text \<open>Each batch is its own transaction: an error keeps the batches that were recovered before.\<close>

fun recover_settlements ::
  "crypto \<Rightarrow> (token_identity list \<Rightarrow> failure + (token_identity \<Rightarrow> bytes option)) \<Rightarrow> u64 \<Rightarrow> bytes \<Rightarrow> archive_inner_action list \<Rightarrow>
   (settlement_row \<times> inner_action_batch_log) list \<Rightarrow> leaf_row list \<Rightarrow> (failure + unit) \<times> leaf_row list" where
  "recover_settlements H resolve cid bridge actions [] t = (Inr (), t)"
| "recover_settlements H resolve cid bridge actions ((s, batch) # rest) t =
     (case checked_add (bl_start_index batch) (bl_count batch) of
        None \<Rightarrow> (Inl (plain_failure ''inner action range overflow''), t)
      | Some end_index \<Rightarrow>
          let found = filter (in_range (bl_start_index batch) end_index) actions in
          if length found \<noteq> unat (bl_count batch) then recover_settlements H resolve cid bridge actions rest t
          else (case recover_batch H resolve cid bridge s batch found t of
              Inl e \<Rightarrow> (Inl e, t)
            | Inr t' \<Rightarrow> recover_settlements H resolve cid bridge actions rest t'))"

definition recover_settled_inner_actions ::
  "crypto \<Rightarrow> (string \<Rightarrow> nat option) \<Rightarrow> (token_identity list \<Rightarrow> failure + (token_identity \<Rightarrow> bytes option)) \<Rightarrow>
   failure + u64 \<Rightarrow> bytes \<Rightarrow> archive_action list option \<Rightarrow> string option \<Rightarrow> chain_db \<Rightarrow> (failure + unit) \<times> chain_db" where
  "recover_settled_inner_actions H dec resolve chain_id bridge archive inner_public_key db =
     (case (archive, inner_public_key) of
        (Some archive, Some key) \<Rightarrow>
          (case load_archive_inner_actions dec key archive of
             Inl e \<Rightarrow> (Inl e, db)
           | Inr actions \<Rightarrow>
               (case chain_id of
                  Inl e \<Rightarrow> (Inl e, db)
                | Inr cid \<Rightarrow>
                    let (r, t) = recover_settlements H resolve cid bridge actions (unrecovered db) (cd_leaves db)
                    in (r, db\<lparr>cd_leaves := t\<rparr>)))
      | _ \<Rightarrow> (Inr (), db))"

text \<open>\<open>pending_action_page\<close>: the withdrawals of one kind that no settlement covers yet.\<close>

definition pending_action :: "int set \<Rightarrow> bool \<Rightarrow> bytes option \<Rightarrow> u32 option \<Rightarrow> archive_inner_action \<Rightarrow> bool" where
  "pending_action settled tokens recipient after a \<longleftrightarrow>
     \<not> (uint (aa_global_action_index a) \<in> settled \<or>
        (case after of None \<Rightarrow> False | Some k \<Rightarrow> aa_global_action_index a \<le> k)) \<and>
     (case aa_withdrawal a of
        Some (Archived_Token w) \<Rightarrow> tokens \<and> (case recipient of None \<Rightarrow> True | Some r \<Rightarrow> r = at_recipient w)
      | Some (Archived_Native w) \<Rightarrow> \<not> tokens \<and> (case recipient of None \<Rightarrow> True | Some r \<Rightarrow> r = an_recipient w)
      | None \<Rightarrow> False)"

definition pending_action_page ::
  "archive_inner_action list \<Rightarrow> int set \<Rightarrow> bool \<Rightarrow> bytes option \<Rightarrow> u32 option \<Rightarrow> nat \<Rightarrow> archive_inner_action list" where
  "pending_action_page actions settled tokens recipient after limit =
     take limit (filter (pending_action settled tokens recipient after) actions)"

subsection \<open>Reading back an accepted action\<close>

text \<open>
  What the archive holds of an action that the settlement guest accepted: its fields in decimal, and the withdrawal
  that it opens, a native one as the sender emitted it and an ERC-20 one as its parameter fields.
\<close>

definition decimal_of :: "bytes \<Rightarrow> string" where
  "decimal_of bs = show_nat (of_be bs)"

definition emitted_fields :: "inner_action_witness \<Rightarrow> string list option" where
  "emitted_fields a =
     (case (iw_withdrawal a, iw_token_withdrawal a) of
        (Some w, _) \<Rightarrow> Some [decimal_of (nw_recipient w), show_nat 0, show_nat (unat (nw_amount w))]
      | (None, Some w) \<Rightarrow> Some (map decimal_of (tw_params_fields w))
      | (None, None) \<Rightarrow> None)"

text \<open>
  The shape that the parsers ask for beyond what the guest checks: fourteen parameter fields and a recipient that is
  not zero.
\<close>

definition archivable :: "inner_action_witness \<Rightarrow> bool" where
  "archivable a \<longleftrightarrow>
     (case iw_withdrawal a of None \<Rightarrow> True | Some w \<Rightarrow> wf_native_withdrawal w) \<and>
     (case iw_token_withdrawal a of None \<Rightarrow> True | Some w \<Rightarrow>
        wf_token_withdrawal w \<and> length (tw_params_fields w) = 14 \<and> tw_recipient w \<noteq> replicate 20 0)"

definition archived_view :: "inner_action_witness \<Rightarrow> archive_withdrawal option" where
  "archived_view a =
     (case (iw_withdrawal a, iw_token_withdrawal a) of
        (Some w, _) \<Rightarrow> Some (Archived_Native \<lparr>an_recipient = nw_recipient w, an_amount = nw_amount w\<rparr>)
      | (None, Some w) \<Rightarrow> Some (Archived_Token
          \<lparr>at_encoding_version = tw_encoding_version w, at_registry_index = tw_registry_index w,
           at_record_commitment = tw_record_commitment w, at_asset_id = tw_asset_id w, at_recipient = tw_recipient w,
           at_amount = tw_amount w\<rparr>)
      | (None, None) \<Rightarrow> None)"

definition reads_decimals :: "(string \<Rightarrow> nat option) \<Rightarrow> bool" where
  "reads_decimals dec \<longleftrightarrow> (\<forall>n < 2 ^ 256. dec (show_nat n) = Some n)"

lemma parse_u256_decimal:
  assumes "reads_decimals dec" "length bs \<le> 32"
  shows "parse_u256 dec (decimal_of bs) = Inr (of_be bs)"
proof -
  have "of_be bs < 256 ^ length bs" by (rule of_be_less)
  also have "\<dots> \<le> 256 ^ 32" using assms(2) by (intro power_increasing) simp_all
  finally have "of_be bs < 2 ^ 256" by simp
  then show ?thesis using assms(1) by (simp add: parse_u256_def decimal_of_def reads_decimals_def expect_def)
qed

lemma parse_u256_small: "reads_decimals dec \<Longrightarrow> n < 2 ^ 256 \<Longrightarrow> parse_u256 dec (show_nat n) = Inr n"
  by (simp add: parse_u256_def reads_decimals_def expect_def)

lemma parse_fields_decimal:
  assumes "reads_decimals dec" "list_all (\<lambda>f. length f = 32) fs"
  shows "parse_fields dec (map decimal_of fs) = Inr fs"
  using assms(2) by (induction fs) (simp_all add: parse_fields_def parse_u256_decimal [OF assms(1)] be_bytes_of_be)

lemma be_bytes_address:
  assumes "length a = 20"
  shows "be_bytes 32 (of_be a) = replicate 12 0 @ a"
proof -
  have "of_be a = of_be (replicate 12 0 @ a)" by (simp add: of_be_append)
  then show ?thesis using assms by (simp only: be_bytes_of_be length_append length_replicate)
qed

lemma all_zero_replicate: "all_zero bs \<longleftrightarrow> bs = replicate (length bs) 0"
  unfolding all_zero_def by (induction bs) auto

lemma all_zero_zeros [simp]: "all_zero (replicate n 0)"
  by (simp add: all_zero_replicate)

lemma parse_recipient_address: "length a = 20 \<Longrightarrow> parse_recipient 0 (of_be a) = Inr a"
  by (simp add: parse_recipient_def be_bytes_address del: be_bytes.simps)

lemma parse_amount_word: "0 < a \<Longrightarrow> parse_amount (unat a) = Inr a"
  using unat_less_pow [of a] by (simp add: parse_amount_def unat_gt_0 word_neq_0_conv)

lemma try_map_decimals:
  assumes "reads_decimals dec" "list_all (\<lambda>f. length f = 32) fs"
  shows "try_map (parse_u256 dec) (map decimal_of fs) = Inr (map of_be fs)"
  using assms(2) by (induction fs) (simp_all add: parse_u256_decimal [OF assms(1)])

lemma canonical_field_length: "canonical f \<Longrightarrow> length f = 32"
  unfolding canonical_def field_to_bytes_eq by (metis length_be_bytes)

lemma of_be_words [simp]:
  "of_be (u32_word i) = unat i" "of_be (u64_word m) = unat m" "of_be (address_word a) = of_be a"
  using unat_less_pow [of i] unat_less_pow [of m]
  by (simp_all add: u32_word_def u64_word_def address_word_def u32_to_be_def u64_to_be_def of_be_append of_be_be_bytes)

lemma parse_native_emitted:
  assumes "reads_decimals dec" "wf_native_withdrawal w" "0 < nw_amount w"
  shows "parse_withdrawal dec [decimal_of (nw_recipient w), show_nat 0, show_nat (unat (nw_amount w))] =
    Inr (Archived_Native \<lparr>an_recipient = nw_recipient w, an_amount = nw_amount w\<rparr>)"
proof -
  have "unat (nw_amount w) < 2 ^ 256" using unat_less_pow [of "nw_amount w"] by simp
  then have "parse_u256 dec (show_nat (unat (nw_amount w))) = Inr (unat (nw_amount w))" "parse_u256 dec (show_nat 0) = Inr 0"
    using assms(1) by (simp_all add: parse_u256_small del: show_nat.simps)
  then show ?thesis
    using assms unfolding wf_native_withdrawal_def
    by (simp add: parse_withdrawal_def parse_native_withdrawal_def parse_u256_decimal parse_recipient_address parse_amount_word
        del: show_nat.simps)
qed

lemma parse_token_emitted:
  assumes dec: "reads_decimals dec" and w: "opens_erc20 H a w" "wf_token_withdrawal w"
    and params: "length (tw_params_fields w) = 14" and recipient: "tw_recipient w \<noteq> replicate 20 0"
  shows "parse_withdrawal dec (map decimal_of (tw_params_fields w)) = Inr (Archived_Token
    \<lparr>at_encoding_version = tw_encoding_version w, at_registry_index = tw_registry_index w,
     at_record_commitment = tw_record_commitment w, at_asset_id = tw_asset_id w, at_recipient = tw_recipient w,
     at_amount = tw_amount w\<rparr>)"
proof -
  let ?p = "tw_params_fields w"
  have o: "take 5 ?p = [u32_word 2, u32_word (tw_registry_index w), tw_record_commitment w,
        replicate 16 0 @ take 16 (tw_asset_id w), replicate 16 0 @ drop 16 (tw_asset_id w)]"
      "drop 11 ?p = [u64_word (tw_amount w), address_word (tw_recipient w), replicate 32 0]"
      "0 < tw_amount w" "tw_record_commitment w \<noteq> replicate 32 0" "tw_asset_id w \<noteq> replicate 32 0" "tw_encoding_version w = 2"
    using w(1) params by (simp_all add: opens_erc20_def Let_def)
  have l: "length (tw_record_commitment w) = 32" "length (tw_asset_id w) = 32" "length (tw_recipient w) = 20"
      "list_all (\<lambda>f. length f = 32) ?p"
    using w(2) by (simp_all add: wf_token_withdrawal_def)
  have at: "map of_be ?p ! 0 = 2" "map of_be ?p ! 1 = unat (tw_registry_index w)" "map of_be ?p ! 2 = of_be (tw_record_commitment w)"
      "map of_be ?p ! 3 = of_be (replicate 16 0 @ take 16 (tw_asset_id w))"
      "map of_be ?p ! 4 = of_be (replicate 16 0 @ drop 16 (tw_asset_id w))"
      "map of_be ?p ! 11 = unat (tw_amount w)" "map of_be ?p ! 12 = of_be (tw_recipient w)" "map of_be ?p ! 13 = 0"
    using nth_take [of 0 5 ?p, symmetric] nth_take [of 1 5 ?p, symmetric] nth_take [of 2 5 ?p, symmetric] nth_take [of 3 5 ?p, symmetric] nth_take [of 4 5 ?p, symmetric]
      nth_drop [of 11 ?p 0, symmetric] nth_drop [of 11 ?p 1, symmetric] nth_drop [of 11 ?p 2, symmetric] params
    unfolding o(1,2) by simp_all
  have limbs: "be_bytes 32 (of_be (replicate 16 0 @ take 16 (tw_asset_id w))) = replicate 16 0 @ take 16 (tw_asset_id w)"
      "be_bytes 32 (of_be (replicate 16 0 @ drop 16 (tw_asset_id w))) = replicate 16 0 @ drop 16 (tw_asset_id w)"
    using l(2) by (intro be_bytes_of_be; simp)+
  have z: "\<not> all_zero (tw_recipient w)" using recipient l(3) by (simp add: all_zero_replicate)
  show ?thesis
    using at l o(3-6) z limbs params unat_less_pow [of "tw_registry_index w"] try_map_decimals [OF dec l(4)]
    by (simp add: parse_withdrawal_def parse_token_withdrawal_def ERC20_ACTION_ENCODING_V2_def be_bytes_of_be
        parse_recipient_address parse_amount_word Let_def del: be_bytes.simps)
qed

lemma archived_row_loads:
  assumes "reads_decimals dec" "valid_inner_action H a" "archivable a"
    and "aw_fields row = map decimal_of (iw_fields a)" "aw_withdrawal_fields row = emitted_fields a"
    and "0 \<le> aw_global_action_index row" "aw_global_action_index row < 2 ^ 32" "0 \<le> aw_height row"
  shows "archive_inner_action_of dec row = Inr \<lparr>aa_global_action_index = word_of_int (aw_global_action_index row),
    aa_transaction_hash = aw_hash row, aa_block_height = word_of_int (aw_height row), aa_timestamp = aw_timestamp row,
    aa_fields = iw_fields a, aa_withdrawal = archived_view a\<rparr>"
proof -
  have fs: "list_all (\<lambda>f. length f = 32) (iw_fields a)"
    using assms(2) by (auto simp: valid_inner_action_def list_all_iff canonical_field_length)
  have "(case aw_withdrawal_fields row of None \<Rightarrow> Inr None
       | Some ws \<Rightarrow> and_then (parse_withdrawal dec ws) (\<lambda>w. Inr (Some w))) = Inr (archived_view a)"
    using assms(2,3) parse_native_emitted [OF assms(1)] parse_token_emitted [OF assms(1), of H a]
    unfolding assms(5) emitted_fields_def archived_view_def
    by (auto simp: valid_inner_action_def archivable_def opens_native_def split: option.splits)
  then show ?thesis
    using assms(6-8) parse_fields_decimal [OF assms(1) fs] by (simp add: archive_inner_action_of_def assms(4))
qed

lemma archived_row_parsed:
  assumes "reads_decimals dec" "valid_inner_action H a" "archivable a"
    and "aw_fields row = map decimal_of (iw_fields a)" "aw_withdrawal_fields row = emitted_fields a"
    and "archive_inner_action_of dec row = Inr x"
  shows "aa_fields x = iw_fields a" "aa_withdrawal x = archived_view a"
proof -
  have "0 \<le> aw_global_action_index row" "aw_global_action_index row < 2 ^ 32" "0 \<le> aw_height row"
    using assms(6) by (auto simp: archive_inner_action_of_def res_simps)
  from archived_row_loads [OF assms(1-5) this] assms(6)
  show "aa_fields x = iw_fields a" "aa_withdrawal x = archived_view a" by auto
qed

subsection \<open>Leaves of an accepted batch\<close>

text \<open>The parameter fields of an ERC-20 withdrawal are in no column; \<open>forget\<close> drops them.\<close>

definition forget :: "inner_action_witness \<Rightarrow> inner_action_witness" where
  "forget a = a\<lparr>iw_token_withdrawal := map_option (\<lambda>w. w\<lparr>tw_params_fields := []\<rparr>) (iw_token_withdrawal a)\<rparr>"

definition forget_row :: "leaf_row \<Rightarrow> leaf_row" where
  "forget_row r = r\<lparr>lr_action := forget (lr_action r)\<rparr>"

definition identity_of :: "token_withdrawal \<Rightarrow> token_identity" where
  "identity_of w =
     \<lparr>ti_encoding_version = tw_encoding_version w, ti_registry_index = tw_registry_index w,
      ti_record_commitment = tw_record_commitment w, ti_asset_id = tw_asset_id w\<rparr>"

definition shows_action :: "archive_inner_action \<Rightarrow> inner_action_witness \<Rightarrow> bool" where
  "shows_action x a \<longleftrightarrow> aa_fields x = iw_fields a \<and> aa_withdrawal x = archived_view a"

definition resolves :: "(token_identity \<Rightarrow> bytes option) \<Rightarrow> inner_action_witness \<Rightarrow> bool" where
  "resolves resolved a \<longleftrightarrow>
     (case iw_token_withdrawal a of None \<Rightarrow> True | Some w \<Rightarrow> resolved (identity_of w) = Some (tw_token w))"

lemma archived_leaf:
  assumes "valid_inner_action H a" "shows_action x a" "resolves resolved a"
  obtains token where "archive_token resolved x = Inr token" "archived_witness x token = forget a"
    "\<And>g. archive_action_leaf H cid bridge g (fields_hash_of H a) (aa_withdrawal x) token = Inr (leaf_of H cid bridge g a)"
proof -
  obtain f n t where a: "a = \<lparr>iw_fields = f, iw_withdrawal = n, iw_token_withdrawal = t\<rparr>" by (cases a)
  have v: "n = None \<or> t = None" "\<And>w. t = Some w \<Longrightarrow> tw_encoding_version w = 2"
    using assms(1) by (auto simp: a valid_inner_action_def opens_erc20_def Let_def)
  show thesis
  proof (cases t)
    case None
    then show thesis
      using that [of None] assms(2)
      by (cases n) (auto simp: a shows_action_def archived_view_def archive_token_def archived_witness_def forget_def
          archived_native_def archive_action_leaf_def leaf_of_def native_withdrawal_leaf_def native_withdrawal_preimage_def)
  next
    case (Some w)
    then have "n = None" using v by auto
    moreover have "resolved (identity_of w) = Some (tw_token w)" using assms(3) Some by (simp add: a resolves_def)
    ultimately show thesis
      using that [of "Some (tw_token w)"] assms(2) v(2) [OF Some] Some
      by (auto simp: a shows_action_def archived_view_def archive_token_def archived_witness_def forget_def
          archived_token_def archive_action_leaf_def leaf_of_def token_withdrawal_identity_def identity_of_def expect_def
          erc20_withdrawal_leaf_def erc20_withdrawal_preimage_def guest_failure_def ERC20_ACTION_ENCODING_V2_def)
  qed
qed

lemma archive_leaves_accepted:
  assumes "list_all2 shows_action xs as" "list_all (valid_inner_action H) as" "list_all (resolves resolved) as"
    and "\<And>i. i < length xs \<Longrightarrow> unat (aa_global_action_index (xs ! i)) = unat start + off + i"
    and "unat start + off + length as < 2 ^ 32"
  shows "archive_leaves H cid bridge resolved start off xs =
    Inr (map2 (\<lambda>a e. (forget a, e)) as (entries_of H cid bridge (unat start + off) as))"
  using assms
proof (induction xs as arbitrary: off rule: list_all2_induct)
  case (Cons x xs a as)
  have va: "valid_inner_action H a" and ra: "resolves resolved a" using Cons.prems by simp_all
  obtain token where t: "archive_token resolved x = Inr token" "archived_witness x token = forget a"
    "\<And>g. archive_action_leaf H cid bridge g (fields_hash_of H a) (aa_withdrawal x) token = Inr (leaf_of H cid bridge g a)"
    using archived_leaf [OF va Cons.hyps(1) ra] by metis
  have g: "aa_global_action_index x = word_of_nat (unat start + off)"
    using Cons.prems(3) [of 0] Cons.prems(4) by (simp add: word_unat_eq_iff unat_of_nat take_bit_nat_eq_self del: of_nat_add)
  have "checked_add start (word_of_nat off) = Some (word_of_nat (unat start + off))"
    using Cons.prems(4) by (simp add: checked_add_Some unat_of_nat take_bit_nat_eq_self del: of_nat_add)
  moreover have "action_fields_hash H (aa_fields x) = Inr (fields_hash_of H a)"
    using va Cons.hyps(1) by (simp add: valid_inner_action_def action_fields_hash_def fields_hash_of_def shows_action_def)
  moreover have "archive_leaves H cid bridge resolved start (off + 1) xs =
      Inr (map2 (\<lambda>a e. (forget a, e)) as (entries_of H cid bridge (unat start + (off + 1)) as))"
    by (rule Cons.IH) (use Cons.prems(1,2,4) Cons.prems(3) [of "Suc _"] in simp_all)
  ultimately show ?case
    using t Cons.prems(4) g by (simp add: expect_def guest_failure_def del: of_nat_add)
qed simp

lemma unique_identities_set:
  "set (unique_token_withdrawal_identities ws) = token_withdrawal_identity ` set ws"
proof -
  have "set (foldl (\<lambda>seen i. if i \<in> set seen then seen else seen @ [i]) acc is) = set acc \<union> set is" for acc "is" :: "token_identity list"
    by (induction "is" arbitrary: acc) auto
  then show ?thesis by (simp add: unique_token_withdrawal_identities_def)
qed

text \<open>The contract answers for the identities that it is asked about, and only for them.\<close>

definition answers :: "(token_identity \<Rightarrow> bytes option) \<Rightarrow> token_identity list \<Rightarrow> failure + (token_identity \<Rightarrow> bytes option)" where
  "answers tokens is = Inr (\<lambda>i. if i \<in> set is then tokens i else None)"

lemma asked_identities_resolve:
  assumes "list_all2 shows_action xs as" "list_all (resolves tokens) as"
    and "list_all (\<lambda>a. iw_withdrawal a = None \<or> iw_token_withdrawal a = None) as"
  shows "list_all (resolves (\<lambda>i. if i \<in> set (unique_token_withdrawal_identities (archived_tokens xs)) then tokens i else None)) as"
  unfolding list_all_length
proof (intro allI impI)
  fix k assume k: "k < length as"
  have x: "shows_action (xs ! k) (as ! k)" "xs ! k \<in> set xs"
    using list_all2_nthD2 [OF assms(1) k] list_all2_lengthD [OF assms(1)] k by simp_all
  have a: "resolves tokens (as ! k)" "iw_withdrawal (as ! k) = None \<or> iw_token_withdrawal (as ! k) = None"
    using assms(2,3) k by (simp_all add: list_all_length)
  show "resolves (\<lambda>i. if i \<in> set (unique_token_withdrawal_identities (archived_tokens xs)) then tokens i else None) (as ! k)"
  proof (cases "iw_token_withdrawal (as ! k)")
    case (Some w)
    then have "aa_withdrawal (xs ! k) = archived_view (as ! k)" "iw_withdrawal (as ! k) = None"
      using x(1) a(2) by (auto simp: shows_action_def)
    then have "identity_of w \<in> token_withdrawal_identity ` set (archived_tokens xs)"
      using Some x(2)
      by (force simp: archived_tokens_def List.map_filter_def archived_view_def identity_of_def token_withdrawal_identity_def image_iff)
    then show ?thesis using a(1) Some by (simp add: resolves_def unique_identities_set)
  qed (simp add: resolves_def)
qed

lemma filter_positions:
  assumes "\<And>i. i < length xs \<Longrightarrow> f (xs ! i) = i + k"
  shows "filter (\<lambda>x. s + k \<le> f x \<and> f x < e + k) xs = take (e - s) (drop s xs)"
  using assms
proof (induction xs arbitrary: s e k)
  case (Cons x xs)
  have x: "f x = k" using Cons.prems [of 0] by simp
  have xs: "f (xs ! i) = i + Suc k" if "i < length xs" for i using Cons.prems [of "Suc i"] that by simp
  show ?case
  proof (cases s)
    case 0
    then show ?thesis
    proof (cases e)
      case (Suc e')
      have "filter (\<lambda>y. k \<le> f y \<and> f y < e + k) xs = filter (\<lambda>y. 0 + Suc k \<le> f y \<and> f y < e' + Suc k) xs"
        using xs by (intro filter_cong) (auto simp: Suc in_set_conv_nth)
      then show ?thesis using Cons.IH [of "Suc k" 0 e', OF xs] 0 x Suc by simp
    qed (use 0 x xs in \<open>auto simp: filter_empty_conv\<close>)
  next
    case (Suc s')
    have "filter (\<lambda>y. s + k \<le> f y \<and> f y < e + k) xs = filter (\<lambda>y. s' + Suc k \<le> f y \<and> f y < (e - 1) + Suc k) xs"
      using xs Suc by (intro filter_cong) (auto simp: in_set_conv_nth)
    then show ?thesis using Cons.IH [of "Suc k" s' "e - 1", OF xs] Suc x by simp
  qed
qed simp

lemma archived_index:
  "archive_inner_action_of dec row = Inr x \<Longrightarrow> uint (aa_global_action_index x) = aw_global_action_index row"
  unfolding archive_inner_action_of_def by (auto simp: res_simps unsigned_of_int take_bit_int_eq_self)

lemma archive_sql_index:
  "i < length (archive_inner_actions_sql key archive) \<Longrightarrow>
     aw_global_action_index (archive_inner_actions_sql key archive ! i) = int i"
  by (simp add: archive_inner_actions_sql_def numbered_inner_actions_def nth_enumerate_eq split_beta)

lemma loaded_index:
  assumes "load_archive_inner_actions dec key archive = Inr xs" "i < length xs"
  shows "unat (aa_global_action_index (xs ! i)) = i"
proof -
  let ?rows = "archive_inner_actions_sql key archive"
  have l: "length xs = length ?rows" and n: "archive_inner_action_of dec (?rows ! i) = Inr (xs ! i)"
    using assms try_map_length [of "archive_inner_action_of dec" ?rows xs] try_map_nth [of "archive_inner_action_of dec" ?rows xs i]
    unfolding load_archive_inner_actions_def by simp_all
  then have "uint (aa_global_action_index (xs ! i)) = int i"
    using archived_index [OF n] archive_sql_index [of i key archive] assms(2) by simp
  then show ?thesis by (simp add: unat_eq_nat_uint)
qed

lemma found_actions:
  assumes "load_archive_inner_actions dec key archive = Inr xs" "unat start + unat count < 2 ^ 32"
  shows "checked_add start count = Some (start + count)"
    and "filter (in_range start (start + count)) xs = take (unat count) (drop (unat start) xs)"
proof -
  have e: "unat (start + count) = unat start + unat count" using assms(2) by (simp add: unat_word_ariths)
  show "checked_add start count = Some (start + count)" using e by (simp add: checked_add_Some)
  have "in_range start (start + count) = (\<lambda>x. unat start + 0 \<le> unat (aa_global_action_index x) \<and>
      unat (aa_global_action_index x) < unat (start + count) + 0)"
    by (auto simp: in_range_def fun_eq_iff word_le_nat_alt word_less_nat_alt)
  then show "filter (in_range start (start + count)) xs = take (unat count) (drop (unat start) xs)"
    using filter_positions [of xs "\<lambda>x. unat (aa_global_action_index x)" 0 "unat start" "unat (start + count)"]
      loaded_index [OF assms(1)] e by simp
qed

text \<open>The event of an accepted settlement, with the batch that its receipt commits to.\<close>

definition announces :: "settlement_row \<Rightarrow> inner_action_batch_log \<Rightarrow> spv2 \<Rightarrow> bool" where
  "announces s batch out \<longleftrightarrow>
     sl_batch_sequence (se_log s) = pv_batch_sequence (pv2_settlement out) \<and>
     sl_slot_upper (se_log s) = pv_slot_upper (pv2_settlement out) \<and>
     bl_root batch = pv2_inner_action_root out \<and> bl_start_index batch = pv2_inner_action_start_index out \<and>
     bl_count batch = pv2_inner_action_count out"

lemma recovered_rows:
  assumes "announces s batch out" "length es = length as"
  shows "map (recovered_row s sequence (bl_root batch)) (zip [0..<length es] (map2 (\<lambda>a e. (forget a, e)) as es)) =
    map forget_row (rows_of out sequence (uint (sl_block_number (se_log s))) (sl_transaction_hash (se_log s)) as es)"
  using assms
  by (intro nth_equalityI)
    (auto simp: rows_of_def recovered_row_def leaf_row_of_def forget_row_def announces_def split_beta)

lemma recover_batch_accepted:
  assumes acc: "wf_spv1 v" "derive_v2_receipt H v b = Inr out" "\<And>x. length (keccak256 H x) = 32"
    and n: "i64_of_u64 (pv_batch_sequence v) = Some sequence" "i64_of_u64 (sl_block_number (se_log s)) = Some n"
    and s: "announces s batch out"
    and xs: "list_all2 shows_action xs (ib_actions b)" "list_all (resolves tokens) (ib_actions b)"
      "\<And>i. i < length xs \<Longrightarrow> unat (aa_global_action_index (xs ! i)) = unat (bl_start_index batch) + i"
  defines "rs \<equiv> rows_of out sequence n (sl_transaction_hash (se_log s)) (ib_actions b)
    (entries_of H (pv_chain_id v) (ib_bridge_address b) (unat (pv2_inner_action_start_index out)) (ib_actions b))"
  shows "recover_batch H (answers tokens) (pv_chain_id v) (ib_bridge_address b) s batch xs t = Inr (fold put_leaf (map forget_row rs) t)"
proof -
  let ?as = "ib_actions b"
  let ?es = "entries_of H (pv_chain_id v) (ib_bridge_address b) (unat (pv2_inner_action_start_index out)) ?as"
  let ?m = "\<lambda>i. if i \<in> set (unique_token_withdrawal_identities (archived_tokens xs)) then tokens i else None"
  note st = accepted_batch_stored [OF acc(1,2) n]
  have out: "pv2_settlement out = v" "length (pv2_inner_action_root out) = 32"
    using acc unfolding derive_v2_receipt_Inr [OF acc(1)]
    by (auto simp: v2_output_def Let_def length_perfect_root hash_node_def)
  have idx: "uint (sl_block_number (se_log s)) = n" using n(2) by (auto simp: i64_of_u64_def split: if_splits)
  have one: "list_all (\<lambda>a. iw_withdrawal a = None \<or> iw_token_withdrawal a = None) ?as"
    using st(4) by (auto simp: list_all_iff valid_inner_action_def)
  have b: "bl_root batch = pv2_inner_action_root out" "bl_start_index batch = pv2_inner_action_start_index out"
      "sl_batch_sequence (se_log s) = pv_batch_sequence v"
    using s out by (simp_all add: announces_def)
  have "archive_leaves H (pv_chain_id v) (ib_bridge_address b) ?m (bl_start_index batch) 0 xs = Inr (map2 (\<lambda>a e. (forget a, e)) ?as ?es)"
    using archive_leaves_accepted [OF xs(1) st(4) asked_identities_resolve [OF xs(1,2) one], of "bl_start_index batch" 0] xs(3) st(5) b
    by simp
  moreover have "map (\<lambda>(_, _, _, leaf). leaf) (map2 (\<lambda>a e. (forget a, e)) ?as ?es) = map (\<lambda>(_, _, leaf). leaf) ?es"
    by (rule nth_equalityI) (simp_all add: split_beta)
  moreover have "fold (\<lambda>row. put_leaf (recovered_row s sequence r row)) rows t = fold put_leaf (map (recovered_row s sequence r) rows) t"
    for r rows t by (induction rows arbitrary: t) simp_all
  ultimately show ?thesis
    using recovered_rows [OF s, of ?es ?as sequence] st(2,3) out(2) n(1) b idx
    by (simp add: recover_batch_def answers_def parse_fixed_def guest_failure_def bigint_def expect_def rs_def)
qed

subsection \<open>Proofs after recovery\<close>

lemma forget_columns [simp]: "leaf_columns_of (forget a) = leaf_columns_of a"
  by (simp add: leaf_columns_of_def forget_def split: option.splits)

lemma check_rows_forget [simp]: "check_rows start r slot off (map forget_row rs) = check_rows start r slot off rs"
  by (induction rs arbitrary: off) (simp_all add: forget_row_def)

lemma sort_key_map_same:
  assumes "\<And>x. f (g x) = f x"
  shows "sort_key f (map g xs) = map g (sort_key f xs)"
proof -
  have "insort_key f (g x) (map g ys) = map g (insort_key f x ys)" for x ys
    by (induction ys) (simp_all add: assms)
  then show ?thesis by (induction xs) (simp_all add: sort_key_def)
qed

lemma batch_rows_forget: "batch_rows n (map forget_row t) = map forget_row (batch_rows n t)"
  by (simp add: batch_rows_def filter_map comp_def forget_row_def sort_key_map_same)

lemma check_rows_length: "check_rows start r slot off rs = Inr leaves \<Longrightarrow> length leaves = length rs"
  by (induction rs arbitrary: off leaves) (auto simp: res_simps)

lemma load_batch_forget:
  "load_inner_action_batch_proof H (map forget_row t) sequence off =
     map_sum id (\<lambda>p. p\<lparr>bp_target := forget_row (bp_target p)\<rparr>) (load_inner_action_batch_proof H t sequence off)"
proof -
  have "build_inner_action_batch_proof H (map forget_row rs) off =
      map_sum id (\<lambda>p. p\<lparr>bp_target := forget_row (bp_target p)\<rparr>) (build_inner_action_batch_proof H rs off)" for rs
  proof (cases "rs = []")
    case False
    have hd: "lr_global_action_index (hd (map forget_row rs)) = lr_global_action_index (hd rs)"
        "lr_commit_slot_upper (hd (map forget_row rs)) = lr_commit_slot_upper (hd rs)"
        "lr_inner_action_root (hd (map forget_row rs)) = lr_inner_action_root (hd rs)"
      using False by (simp_all add: hd_map forget_row_def)
    let ?c = "check_rows (lr_global_action_index (hd rs)) (lr_inner_action_root (hd rs)) (lr_commit_slot_upper (hd rs)) 0 rs"
    show ?thesis
    proof (cases ?c)
      case (Inr leaves)
      note l = check_rows_length [OF Inr]
      have at: "map forget_row rs ! unat off = forget_row (rs ! unat off)" if "merkle_proof H leaves (unat off) = Some p" for p
        using that l by (intro nth_map) (auto simp: merkle_proof_def split: if_splits)
      show ?thesis
        using Inr at unfolding build_inner_action_batch_proof_def hd Let_def check_rows_forget
        by (cases "merkle_proof H leaves (unat off)") (auto simp: ensure_def parse_fixed_def expect_def forget_row_def)
    qed (simp add: build_inner_action_batch_proof_def hd Let_def ensure_def parse_fixed_def)
  qed (simp add: build_inner_action_batch_proof_def)
  then show ?thesis
    unfolding load_inner_action_batch_proof_def batch_rows_forget by (cases "bigint sequence") simp_all
qed

lemma load_native_forget:
  "load_native_withdrawal_proof_at H nx (map forget_row t) sequence off slot delay =
     load_native_withdrawal_proof_at H nx t sequence off slot delay"
  unfolding load_native_withdrawal_proof_at_def load_batch_forget
  by (cases "load_inner_action_batch_proof H t sequence off") (simp_all add: forget_row_def Let_def)

lemma load_token_forget:
  "load_token_withdrawal_proof_at H nx (map forget_row t) sequence off slot delay =
     load_token_withdrawal_proof_at H nx t sequence off slot delay"
  unfolding load_token_withdrawal_proof_at_def load_batch_forget
  by (cases "load_inner_action_batch_proof H t sequence off") (simp_all add: forget_row_def Let_def)

lemma forget_row_twice [simp]: "forget_row (forget_row r) = forget_row r"
  by (simp add: forget_row_def forget_def map_option.compositionality comp_def)

lemma put_leaf_forget: "map forget_row (put_leaf r t) = put_leaf (forget_row r) (map forget_row t)"
  by (simp add: put_leaf_def Let_def forget_row_def list_ex_iff comp_def)

lemma fold_put_leaf_forget:
  "map forget_row (fold put_leaf rs t) = fold put_leaf (map forget_row rs) (map forget_row t)"
  by (induction rs arbitrary: t) (simp_all add: put_leaf_forget)

subsection \<open>Recovery of all accepted batches\<close>

text \<open>
  A batch that Ethereum accepted and the archive holds: the receipt is the guest's, the event announces it, and the
  archive lists its actions from the start index on, with the withdrawals that they open.
\<close>

definition archive_window :: "string \<Rightarrow> archive_action list \<Rightarrow> nat \<Rightarrow> nat \<Rightarrow> (string list \<times> string list option) list" where
  "archive_window key archive start count =
     map (\<lambda>r. (aw_fields r, aw_withdrawal_fields r)) (take count (drop start (archive_inner_actions_sql key archive)))"

definition accepted_batch ::
  "crypto \<Rightarrow> (token_identity \<Rightarrow> bytes option) \<Rightarrow> u64 \<Rightarrow> bytes \<Rightarrow> string \<Rightarrow> archive_action list \<Rightarrow>
   settlement_row \<times> inner_action_batch_log \<times> inner_action_batch_witness \<times> spv2 \<Rightarrow> bool" where
  "accepted_batch H tokens cid bridge key archive = (\<lambda>(s, batch, b, out).
     wf_spv1 (pv2_settlement out) \<and> derive_v2_receipt H (pv2_settlement out) b = Inr out \<and>
     cid = pv_chain_id (pv2_settlement out) \<and> bridge = ib_bridge_address b \<and> announces s batch out \<and>
     i64_of_u64 (sl_batch_sequence (se_log s)) \<noteq> None \<and> i64_of_u64 (sl_block_number (se_log s)) \<noteq> None \<and>
     list_all archivable (ib_actions b) \<and> list_all (resolves tokens) (ib_actions b) \<and>
     archive_window key archive (unat (pv2_inner_action_start_index out)) (length (ib_actions b)) =
       map (\<lambda>a. (map decimal_of (iw_fields a), emitted_fields a)) (ib_actions b))"

text \<open>The reference: the leaves are stored from the inputs of the settlement jobs, as the indexer does.\<close>

fun store_batches ::
  "crypto \<Rightarrow> (settlement_row \<times> inner_action_batch_log \<times> inner_action_batch_witness \<times> spv2) list \<Rightarrow> leaf_row list \<Rightarrow>
   failure + leaf_row list" where
  "store_batches H [] t = Inr t"
| "store_batches H ((s, _, b, out) # rest) t =
     and_then (store_inner_action_leaves H (Inr b) out (sl_block_number (se_log s)) (sl_transaction_hash (se_log s)) t)
       (store_batches H rest)"

lemma window_shows:
  assumes "reads_decimals dec" "load_archive_inner_actions dec key archive = Inr xs"
    and "list_all (valid_inner_action H) as" "list_all archivable as"
    and w: "archive_window key archive start (length as) = map (\<lambda>a. (map decimal_of (iw_fields a), emitted_fields a)) as"
  shows "list_all2 shows_action (take (length as) (drop start xs)) as"
proof -
  let ?rows = "archive_inner_actions_sql key archive"
  have l: "length xs = length ?rows" using assms(2) unfolding load_archive_inner_actions_def by (rule try_map_length)
  have len: "length as \<le> length ?rows - start" using arg_cong [OF w, of length] by (simp add: archive_window_def)
  show ?thesis
    unfolding list_all2_conv_all_nth
  proof (intro conjI allI impI)
    show "length (take (length as) (drop start xs)) = length as" using len l by simp
    fix i assume "i < length (take (length as) (drop start xs))"
    then have i: "i < length as" "start + i < length ?rows" using len by auto
    have x: "take (length as) (drop start xs) ! i = xs ! (start + i)" using i l by simp
    have "archive_inner_action_of dec (?rows ! (start + i)) = Inr (xs ! (start + i))"
      using assms(2) i(2) unfolding load_archive_inner_actions_def by (rule try_map_nth)
    moreover have "(aw_fields (?rows ! (start + i)), aw_withdrawal_fields (?rows ! (start + i))) =
        (map decimal_of (iw_fields (as ! i)), emitted_fields (as ! i))"
      using arg_cong [OF w, of "\<lambda>l. l ! i"] i len by (simp add: archive_window_def)
    moreover have "valid_inner_action H (as ! i)" "archivable (as ! i)" using assms(3,4) i(1) by (simp_all add: list_all_length)
    ultimately show "shows_action (take (length as) (drop start xs) ! i) (as ! i)"
      using archived_row_parsed(1,2) [OF assms(1), of H "as ! i" "?rows ! (start + i)" "xs ! (start + i)"]
      unfolding x by (simp add: shows_action_def)
  qed
qed

lemma recover_accepted_batch:
  assumes "reads_decimals dec" "\<And>x. length (keccak256 H x) = 32" "load_archive_inner_actions dec key archive = Inr xs"
    and "accepted_batch H tokens cid bridge key archive (s, batch, b, out)"
  obtains rs where "store_inner_action_leaves H (Inr b) out (sl_block_number (se_log s)) (sl_transaction_hash (se_log s)) t =
      Inr (fold put_leaf rs t)"
    "recover_settlements H (answers tokens) cid bridge xs ((s, batch) # rest) t' =
      recover_settlements H (answers tokens) cid bridge xs rest (fold put_leaf (map forget_row rs) t')"
proof -
  let ?v = "pv2_settlement out" and ?as = "ib_actions b" and ?start = "pv2_inner_action_start_index out"
  have a: "wf_spv1 ?v" "derive_v2_receipt H ?v b = Inr out" "cid = pv_chain_id ?v" "bridge = ib_bridge_address b"
      "announces s batch out" "list_all archivable ?as" "list_all (resolves tokens) ?as"
      "archive_window key archive (unat ?start) (length ?as) = map (\<lambda>a. (map decimal_of (iw_fields a), emitted_fields a)) ?as"
    using assms(4) by (simp_all add: accepted_batch_def)
  obtain sequence n where n: "i64_of_u64 (pv_batch_sequence ?v) = Some sequence" "i64_of_u64 (sl_block_number (se_log s)) = Some n"
    using assms(4) by (auto simp: accepted_batch_def announces_def)
  note st = accepted_batch_stored [OF a(1,2) n]
  have b: "bl_start_index batch = ?start" "bl_count batch = pv2_inner_action_count out" using a(5) by (simp_all add: announces_def)
  have c: "unat (pv2_inner_action_count out) = length ?as"
  proof -
    have "pv2_inner_action_count out = pv2_inner_action_count (v2_output H ?v b)"
      using a(2) unfolding derive_v2_receipt_Inr [OF a(1)] by simp
    then show ?thesis using st(3) by (simp add: v2_output_def Let_def unat_of_nat take_bit_nat_eq_self)
  qed
  let ?found = "take (length ?as) (drop (unat ?start) xs)"
  have f: "checked_add ?start (pv2_inner_action_count out) = Some (?start + pv2_inner_action_count out)"
      "filter (in_range ?start (?start + pv2_inner_action_count out)) xs = ?found"
    using found_actions [OF assms(3), of ?start "pv2_inner_action_count out"] st(5) c by simp_all
  have shown: "list_all2 shows_action ?found ?as" by (rule window_shows [OF assms(1,3) st(4) a(6,8)])
  have idx: "unat (aa_global_action_index (?found ! i)) = unat (bl_start_index batch) + i" if "i < length ?found" for i
    using that loaded_index [OF assms(3), of "unat ?start + i"] b by (auto simp: less_diff_conv add.commute)
  have "recover_settlements H (answers tokens) cid bridge xs ((s, batch) # rest) t' =
      recover_settlements H (answers tokens) cid bridge xs rest (fold put_leaf (map forget_row
        (rows_of out sequence n (sl_transaction_hash (se_log s)) ?as (entries_of H cid bridge (unat ?start) ?as))) t')"
    using recover_batch_accepted [OF a(1,2) assms(2) n a(5) shown a(7) idx, of t'] f b c list_all2_lengthD [OF shown] a(3,4)
    by (simp add: Let_def)
  then show thesis using that st(1) a(3,4) by simp
qed

lemma recover_accepted_batches:
  assumes "reads_decimals dec" "\<And>x. length (keccak256 H x) = 32" "load_archive_inner_actions dec key archive = Inr xs"
    and "list_all (accepted_batch H tokens cid bridge key archive) ws"
    and "map forget_row t' = map forget_row t"
  shows "\<exists>u u'. store_batches H ws t = Inr u \<and>
    recover_settlements H (answers tokens) cid bridge xs (map (\<lambda>(s, batch, _). (s, batch)) ws) t' = (Inr (), u') \<and>
    map forget_row u' = map forget_row u"
  using assms(4,5)
proof (induction ws arbitrary: t t')
  case (Cons w ws)
  obtain s batch b out where w: "w = (s, batch, b, out)" by (cases w)
  obtain rs where rs:
    "store_inner_action_leaves H (Inr b) out (sl_block_number (se_log s)) (sl_transaction_hash (se_log s)) t = Inr (fold put_leaf rs t)"
    "recover_settlements H (answers tokens) cid bridge xs ((s, batch) # map (\<lambda>(s, batch, _). (s, batch)) ws) t' =
      recover_settlements H (answers tokens) cid bridge xs (map (\<lambda>(s, batch, _). (s, batch)) ws) (fold put_leaf (map forget_row rs) t')"
    using recover_accepted_batch [OF assms(1-3), of tokens cid bridge s batch b out t "map (\<lambda>(s, batch, _). (s, batch)) ws" t']
      Cons.prems(1) w by auto
  have "map forget_row (fold put_leaf (map forget_row rs) t') = map forget_row (fold put_leaf rs t)"
    using Cons.prems(2) by (simp add: fold_put_leaf_forget comp_def)
  with Cons.IH [of "fold put_leaf (map forget_row rs) t'" "fold put_leaf rs t"] Cons.prems(1) rs show ?case
    by (simp add: w)
qed simp

subsection \<open>Properties\<close>


text \<open>An archive with seven earlier actions and the withdrawal of the sample batch.\<close>

definition archive_entry :: "int \<Rightarrow> int \<Rightarrow> string \<Rightarrow> int \<Rightarrow> string list \<Rightarrow> archive_action" where
  "archive_entry height ordinal key change fs =
     \<lparr>av_height = height, av_block_id = height, av_timestamp = ''0'', av_hash = replicate (nat height) CHR ''x'',
      av_sequence_no = 0, av_update_ordinal = ordinal, av_action_ordinal = 0, av_public_key = key,
      av_balance_change = change, av_increment_nonce = (change < 0), av_call_depth = 0, av_fields = fs\<rparr>"

definition raw_action :: inner_action_witness where
  "raw_action = sample_withdrawal\<lparr>iw_withdrawal := None\<rparr>"

definition sample_archive :: "archive_action list" where
  "sample_archive =
     map (\<lambda>h. archive_entry h 0 ''inner'' 0 (map decimal_of (iw_fields sample_withdrawal))) [0, 1, 2, 3, 4, 5, 6] @
     [archive_entry 7 0 ''sender'' (- 4) [decimal_of (replicate 20 9), show_nat 0, show_nat (unat (4 :: u64))],
      archive_entry 7 1 ''inner'' 0 (map decimal_of (iw_fields sample_withdrawal))]"

definition sample_row :: "nat \<Rightarrow> inner_action_witness \<Rightarrow> archive_row" where
  "sample_row h a =
     \<lparr>aw_global_action_index = int h, aw_hash = replicate h CHR ''x'', aw_height = int h, aw_timestamp = ''0'',
      aw_fields = map decimal_of (iw_fields a), aw_withdrawal_fields = emitted_fields a\<rparr>"

lemma sample_archive_rows:
  "archive_inner_actions_sql ''inner'' sample_archive = map (\<lambda>h. sample_row h raw_action) [0..<7] @ [sample_row 7 sample_withdrawal]"
proof -
  have u: "[0..<7] = [0, 1, 2, 3, 4, 5, 6 :: nat]" by (simp add: upt_rec)
  show ?thesis
    unfolding archive_inner_actions_sql_def numbered_inner_actions_def withdrawal_fields_def u
    by (simp add: sample_archive_def archive_entry_def withdrawal_candidate_def wide_def sample_row_def emitted_fields_def
        raw_action_def sort_key_def sample_withdrawal_def eval_nat_numeral del: show_nat.simps)
qed

lemma raw_action_valid: "valid_inner_action ladder_crypto raw_action"
  using sample_v2_accepts(2)
  by (simp add: v2_accepts_def sample_inner_batch_def valid_inner_action_def raw_action_def fields_of_def Let_def)
    (simp add: sample_withdrawal_def)

lemma sample_withdrawal_valid: "valid_inner_action ladder_crypto sample_withdrawal"
  using sample_v2_accepts(2) by (simp add: v2_accepts_def sample_inner_batch_def Let_def)

lemma sample_archivable: "archivable raw_action" "archivable sample_withdrawal"
  by (simp_all add: archivable_def raw_action_def sample_withdrawal_def wf_native_withdrawal_def)

definition sample_event :: "spv2 \<Rightarrow> settlement_row \<times> inner_action_batch_log" where
  "sample_event out =
     (let batch = \<lparr>bl_batch_sequence = 42, bl_state_after = [], bl_root = pv2_inner_action_root out,
            bl_start_index = pv2_inner_action_start_index out, bl_count = pv2_inner_action_count out, bl_claimable_slot = 0,
            bl_transaction_hash = [2]\<rparr>
      in (\<lparr>se_log = \<lparr>sl_batch_sequence = 42, sl_mina_transaction_hash = [], sl_ledger_hash = [], sl_outer_action_state = [],
             sl_outer_action_state_length = 0, sl_inner_action_state = [], sl_inner_action_state_length = 0, sl_slot_lower = 100,
             sl_slot_upper = 120, sl_block_number = 102, sl_block_hash = [], sl_transaction_hash = [2], sl_log_index = 0\<rparr>,
           se_batch = Some batch, se_removed = False\<rparr>, batch))"

lemma sample_archive_loads:
  assumes "reads_decimals dec"
  shows "\<exists>xs. load_archive_inner_actions dec ''inner'' sample_archive = Inr xs"
proof -
  have row: "\<exists>x. archive_inner_action_of dec (sample_row h a) = Inr x"
    if "h < 8" "valid_inner_action ladder_crypto a" "archivable a" for h a
    by (rule exI, rule archived_row_loads [OF assms that(2,3)]) (use that(1) in \<open>simp_all add: sample_row_def\<close>)
  have "\<exists>x. archive_inner_action_of dec r = Inr x" if "r \<in> set (archive_inner_actions_sql ''inner'' sample_archive)" for r
  proof -
    have "(\<exists>h < 7. r = sample_row h raw_action) \<or> r = sample_row 7 sample_withdrawal"
      using that unfolding sample_archive_rows by auto
    then show ?thesis
      using row [OF _ raw_action_valid sample_archivable(1)] row [of 7, OF _ sample_withdrawal_valid sample_archivable(2)]
      by (elim disjE exE conjE) simp_all
  qed
  then obtain g where "\<And>r. r \<in> set (archive_inner_actions_sql ''inner'' sample_archive) \<Longrightarrow> archive_inner_action_of dec r = Inr (g r)"
    by metis
  then have "load_archive_inner_actions dec ''inner'' sample_archive = Inr (map g (archive_inner_actions_sql ''inner'' sample_archive))"
    unfolding load_archive_inner_actions_def by (rule try_map_total)
  then show ?thesis by blast
qed

definition read_decimal :: "string \<Rightarrow> nat option" where
  "read_decimal s = parse_digits 0 s"

lemma read_decimal_reads: "reads_decimals read_decimal"
  by (simp add: reads_decimals_def read_decimal_def parse_digits_show_nat)

lemma sample_accepted_batch:
  defines "out \<equiv> v2_output ladder_crypto sample_v1 sample_inner_batch"
  shows "accepted_batch ladder_crypto (\<lambda>_. None) 11155111 (replicate 20 7) ''inner'' sample_archive
    (fst (sample_event out), snd (sample_event out), sample_inner_batch, out)"
proof -
  have d: "derive_v2_receipt ladder_crypto sample_v1 sample_inner_batch = Inr out"
    using sample_v2_accepts by (simp add: derive_v2_receipt_Inr out_def)
  have o: "pv2_settlement out = sample_v1" "pv2_inner_action_start_index out = 7"
    by (simp_all add: out_def v2_output_def Let_def sample_v1_def inner_action_state_length_def)
  have v: "pv_chain_id sample_v1 = 11155111" "pv_batch_sequence sample_v1 = 42" "pv_slot_upper sample_v1 = 120"
    by (simp_all add: sample_v1_def sample_spv1_def)
  have w: "archive_window ''inner'' sample_archive 7 1 = [(map decimal_of (iw_fields sample_withdrawal), emitted_fields sample_withdrawal)]"
    unfolding archive_window_def sample_archive_rows by (simp add: sample_row_def)
  have n: "i64_of_u64 42 = Some 42" "i64_of_u64 102 = Some 102" by (simp_all add: i64_of_u64_def)
  have r: "resolves (\<lambda>_. None) sample_withdrawal" by (simp add: resolves_def sample_withdrawal_def)
  show ?thesis
    using d o v w n r sample_v2_accepts(1) sample_archivable(2)
    by (simp add: accepted_batch_def sample_event_def announces_def Let_def sample_inner_batch_def)
qed


text \<open>
  C38: One old withdrawal stops the recovery of all others.  The query also selects withdrawals with the
  eleven parameter fields of the first ERC-20 encoding, but the parser accepts fourteen only and its error ends the
  whole load: no batch is recovered, whatever the archive holds otherwise.
\<close>

theorem v1_withdrawal_blocks_recovery:
  assumes "row \<in> set (archive_inner_actions_sql key archive)" "aw_withdrawal_fields row = Some fs" "length fs = 11"
  shows "\<exists>e. load_archive_inner_actions dec key archive = Inl e \<and>
    recover_settled_inner_actions H dec resolve chain_id bridge (Some archive) (Some key) db = (Inl e, db)"
proof -
  have "load_archive_inner_actions dec key archive \<noteq> Inr xs" for xs
  proof
    assume "load_archive_inner_actions dec key archive = Inr xs"
    then obtain x where "archive_inner_action_of dec row = Inr x"
      using assms(1) unfolding load_archive_inner_actions_def by (metis in_set_conv_nth try_map_nth)
    then show False
      using assms(2,3) by (auto simp: archive_inner_action_of_def parse_withdrawal_def parse_token_withdrawal_def res_simps)
  qed
  then obtain e where "load_archive_inner_actions dec key archive = Inl e" by (cases "load_archive_inner_actions dec key archive") auto
  then show ?thesis by (simp add: recover_settled_inner_actions_def)
qed

definition v1_archive :: "archive_action list" where
  "v1_archive = [archive_entry 0 0 ''sender'' (- 4) (replicate 11 ''1''), archive_entry 0 1 ''inner'' 0 [''0'', ''1'', ''0'']]"

theorem v1_withdrawal_blocks_recovery_witness:
  "\<exists>e. recover_settled_inner_actions ladder_crypto read_decimal (answers (\<lambda>_. None)) (Inr 1) [] (Some v1_archive)
     (Some ''inner'') receipt_db = (Inl e, receipt_db)"
proof -
  let ?row = "\<lparr>aw_global_action_index = 0, aw_hash = [], aw_height = 0, aw_timestamp = ''0'',
     aw_fields = [''0'', ''1'', ''0''], aw_withdrawal_fields = Some (replicate 11 ''1'')\<rparr>"
  have "archive_inner_actions_sql ''inner'' v1_archive = [?row]"
    by (simp add: archive_inner_actions_sql_def numbered_inner_actions_def withdrawal_fields_def v1_archive_def
        archive_entry_def withdrawal_candidate_def wide_def sort_key_def)
  then show ?thesis
    using v1_withdrawal_blocks_recovery [of ?row "''inner''" v1_archive "replicate 11 ''1''" read_decimal ladder_crypto
      "answers (\<lambda>_. None)" "Inr 1" "[]" receipt_db] by auto
qed

end
