(* ===== verification/Zeko_Address.thy ===== *)
theory Zeko_Address
  imports Submission
begin

text \<open>
  Zeko addresses in the explorer (\<open>api/src/explorer.rs\<close>): the packed form, 32 big-endian bytes of the coordinate with the
  parity in the top bit, and the Base58Check form that users see.

  Base58 multiplies a number held as a list of digits, byte by byte.  Encoding and decoding run the same loop in two
  bases; the locale \<open>carry_loop\<close> states once that the loop computes the digits of \<open>n * m + c\<close>, without overflow of its
  32-bit carry.  SHA-256 and \<open>hex\<close> are parameters.
\<close>

subsection \<open>Base58\<close>

definition ALPHABET :: string where
  "ALPHABET = ''123456789ABCDEFGHJKLMNPQRSTUVWXYZabcdefghijkmnopqrstuvwxyz''"

text \<open>The loop \<open>for digit in &mut digits\<close> of the encoder, with the carry that is left.\<close>

fun encode_pass :: "u32 \<Rightarrow> u8 list \<Rightarrow> u8 list \<times> u32" where
  "encode_pass carry [] = ([], carry)"
| "encode_pass carry (digit # digits) =
     (let nxt = ucast digit * 256 + carry; (rest, c) = encode_pass (nxt div 58) digits
      in (ucast (nxt mod 58) # rest, c))"

lemma unat_div_less: "carry \<noteq> 0 \<Longrightarrow> 1 < b \<Longrightarrow> unat (carry div b) < unat (carry :: u32)"
  by (simp add: unat_div word_less_nat_alt unat_gt_0)

text \<open>The loops \<open>while carry > 0\<close>.\<close>

function push_digits :: "u32 \<Rightarrow> u8 list" where
  "push_digits carry = (if carry = 0 then [] else ucast (carry mod 58) # push_digits (carry div 58))"
  by pat_completeness auto

termination push_digits
  by (relation "measure unat") (simp_all add: unat_div_less)

declare push_digits.simps [simp del]

fun encode_digits :: "bytes \<Rightarrow> u8 list \<Rightarrow> u8 list" where
  "encode_digits [] digits = digits"
| "encode_digits (byte # value) digits =
     (let (ds, carry) = encode_pass (ucast byte) digits in encode_digits value (ds @ push_digits carry))"

definition base58_encode :: "bytes \<Rightarrow> string" where
  "base58_encode value =
     (let leading_zeroes = length (takeWhile (\<lambda>byte. byte = 0) value)
      in replicate leading_zeroes (CHR ''1'') @ map (\<lambda>digit. ALPHABET ! unat digit) (rev (encode_digits value [])))"

fun decode_pass :: "u32 \<Rightarrow> u8 list \<Rightarrow> u8 list \<times> u32" where
  "decode_pass carry [] = ([], carry)"
| "decode_pass carry (byte # bytes) =
     (let nxt = ucast byte * 58 + carry; (rest, c) = decode_pass (drop_bit 8 nxt) bytes
      in (ucast (nxt AND 0xff) # rest, c))"

lemma unat_shift_less: "carry \<noteq> 0 \<Longrightarrow> unat (drop_bit 8 carry) < unat (carry :: u32)"
  using unat_div_less [of carry 256] by (simp add: drop_bit_eq_div)

function push_bytes :: "u32 \<Rightarrow> u8 list" where
  "push_bytes carry = (if carry = 0 then [] else ucast (carry AND 0xff) # push_bytes (drop_bit 8 carry))"
  by pat_completeness auto

termination push_bytes
  by (relation "measure unat") (simp_all add: unat_shift_less)

declare push_bytes.simps [simp del]

definition position :: "char \<Rightarrow> failure + u32" where
  "position c =
     (let n = length (takeWhile (\<lambda>candidate. candidate \<noteq> c) ALPHABET)
      in ensure (n < length ALPHABET) (plain_failure ''invalid Base58 character'') (Inr (word_of_nat n)))"

fun decode_bytes :: "string \<Rightarrow> u8 list \<Rightarrow> failure + u8 list" where
  "decode_bytes [] bytes = Inr bytes"
| "decode_bytes (character # value) bytes =
     and_then (position character) (\<lambda>carry.
     let (bs, carry) = decode_pass carry bytes in decode_bytes value (bs @ push_bytes carry))"

definition base58_decode :: "string \<Rightarrow> failure + bytes" where
  "base58_decode value =
     (let leading_zeroes = length (takeWhile (\<lambda>byte. byte = CHR ''1'') value) in
      and_then (decode_bytes value []) (\<lambda>bytes. Inr (replicate leading_zeroes 0 @ rev bytes)))"

subsection \<open>Base58Check\<close>

definition base58_checksum :: "(bytes \<Rightarrow> bytes) \<Rightarrow> bytes \<Rightarrow> bytes" where
  "base58_checksum sha256 value = take 4 (sha256 (sha256 value))"

definition base58_check_encode :: "(bytes \<Rightarrow> bytes) \<Rightarrow> u8 \<Rightarrow> bytes \<Rightarrow> string" where
  "base58_check_encode sha256 version payload =
     (let bytes = [version] @ payload in base58_encode (bytes @ base58_checksum sha256 bytes))"

definition base58_check_decode :: "(bytes \<Rightarrow> bytes) \<Rightarrow> string \<Rightarrow> failure + u8 \<times> bytes" where
  "base58_check_decode sha256 value =
     and_then (base58_decode value) (\<lambda>bytes.
     ensure (5 \<le> length bytes) (plain_failure ''Base58Check value is too short'') (
     let body = take (length bytes - 4) bytes; checksum = drop (length bytes - 4) bytes in
     ensure (checksum = base58_checksum sha256 body) (plain_failure ''invalid Base58Check checksum'')
       (Inr (body ! 0, drop 1 body))))"

subsection \<open>Packed addresses\<close>

definition MINA_PUBLIC_KEY_VERSION :: u8 where "MINA_PUBLIC_KEY_VERSION = 203"
definition MINA_PUBLIC_KEY_PAYLOAD_LEN :: nat where "MINA_PUBLIC_KEY_PAYLOAD_LEN = 35"

record hex_codec =
  hx_encode :: "bytes \<Rightarrow> string"
  hx_decode :: "string \<Rightarrow> bytes option"

definition packed_zeko_address_to_base58 :: "hex_codec \<Rightarrow> (bytes \<Rightarrow> bytes) \<Rightarrow> string \<Rightarrow> failure + string" where
  "packed_zeko_address_to_base58 X sha256 packed =
     ensure (take 2 packed = ''0x'') (plain_failure ''packed Zeko address must start with 0x'') (
     and_then (expect (hx_decode X (drop 2 packed)) (plain_failure ''decode packed Zeko address'')) (\<lambda>bytes.
     ensure (length bytes = 32) (plain_failure ''packed Zeko address must be 32 bytes'') (
     let is_odd = bytes ! 0 AND 0x80 \<noteq> 0;
         bytes = bytes[0 := bytes ! 0 AND 0x7f];
         payload = [1, 1] @ rev bytes @ [if is_odd then 1 else 0]
     in Inr (base58_check_encode sha256 MINA_PUBLIC_KEY_VERSION payload))))"

definition packed_zeko_address_from_base58 :: "hex_codec \<Rightarrow> (bytes \<Rightarrow> bytes) \<Rightarrow> string \<Rightarrow> failure + string" where
  "packed_zeko_address_from_base58 X sha256 address =
     and_then (base58_check_decode sha256 address) (\<lambda>(version, payload).
     ensure (version = MINA_PUBLIC_KEY_VERSION) (plain_failure ''unexpected Mina public-key version'') (
     ensure (length payload = MINA_PUBLIC_KEY_PAYLOAD_LEN) (plain_failure ''unexpected Mina public-key payload length'') (
     ensure (take 2 payload = [1, 1]) (plain_failure ''unexpected Mina public-key encoding'') (
     ensure (payload ! 34 \<in> {0, 1}) (plain_failure ''invalid public-key parity'') (
     let packed = rev (take 32 (drop 2 payload));
         packed = (if payload ! 34 = 1 then packed[0 := packed ! 0 OR 0x80] else packed)
     in Inr (''0x'' @ hx_encode X packed))))))"

subsection \<open>Digits of a number\<close>

function digits :: "nat \<Rightarrow> nat \<Rightarrow> nat list" where
  "digits b n = (if n = 0 \<or> b < 2 then [] else n mod b # digits b (n div b))"
  by pat_completeness auto

termination digits
  by (relation "measure snd") simp_all

declare digits.simps [simp del]

lemma digits_0 [simp]: "digits b 0 = []"
  by (simp add: digits.simps)

lemma digits_step: "0 < n \<Longrightarrow> 2 \<le> b \<Longrightarrow> digits b n = n mod b # digits b (n div b)"
  by (subst digits.simps) simp

text \<open>The number of a list of digits, the lowest first, and the lists without a leading zero.\<close>

definition number :: "nat \<Rightarrow> nat list \<Rightarrow> nat" where
  "number b ds = foldr (\<lambda>d n. d + b * n) ds 0"

definition normal :: "nat \<Rightarrow> nat list \<Rightarrow> bool" where
  "normal b ds \<longleftrightarrow> list_all (\<lambda>d. d < b) ds \<and> (ds \<noteq> [] \<longrightarrow> List.last ds \<noteq> 0)"

lemma number_simps [simp]: "number b [] = 0" "number b (d # ds) = d + b * number b ds"
  by (simp_all add: number_def)

lemma digits_normal: "2 \<le> b \<Longrightarrow> normal b (digits b n) \<and> number b (digits b n) = n"
proof (induction b n rule: digits.induct)
  case (1 b n)
  show ?case
  proof (cases "n = 0")
    case False
    then have ih: "normal b (digits b (n div b))" "number b (digits b (n div b)) = n div b" using 1 by simp_all
    have "n mod b \<noteq> 0" if "digits b (n div b) = []"
      using ih(2) that False mod_div_decomp [of n b] by (metis add.left_neutral mult_zero_left number_simps(1))
    then show ?thesis using False 1(2) ih by (auto simp: digits_step normal_def)
  qed (simp add: normal_def)
qed

lemma number_pos: "normal b ds \<Longrightarrow> ds \<noteq> [] \<Longrightarrow> 0 < b \<Longrightarrow> 0 < number b ds"
  by (induction ds) (auto simp: normal_def split: if_splits)

lemma digits_number: "normal b ds \<Longrightarrow> 2 \<le> b \<Longrightarrow> digits b (number b ds) = ds"
proof (induction ds)
  case (Cons d ds)
  have n: "normal b ds" "d < b" using Cons.prems by (auto simp: normal_def split: if_splits)
  have "0 < number b (d # ds)" using number_pos [OF Cons.prems(1)] Cons.prems(2) by simp
  then show ?case using n Cons.IH [OF n(1)] Cons.prems(2) by (simp add: digits_step)
qed simp

subsection \<open>The loop\<close>

locale carry_loop =
  fixes b m :: nat and pass :: "u32 \<Rightarrow> u8 list \<Rightarrow> u8 list \<times> u32" and push :: "u32 \<Rightarrow> u8 list"
  assumes sizes: "2 \<le> b" "b \<le> 256" "0 < m" "b * m \<le> 2 ^ 32"
    and pass_Nil: "pass carry [] = ([], carry)"
    and pass_Cons: "unat d < b \<Longrightarrow> unat carry < m \<Longrightarrow> pass carry (d # ds) =
      (case pass (word_of_nat ((unat d * m + unat carry) div b)) ds of
        (rest, c) \<Rightarrow> (word_of_nat ((unat d * m + unat carry) mod b) # rest, c))"
    and push_0: "push 0 = []"
    and push_step: "carry \<noteq> 0 \<Longrightarrow> push carry = word_of_nat (unat carry mod b) # push (word_of_nat (unat carry div b))"
begin

lemma no_overflow:
  assumes "d < b" "c < m"
  shows "d * m + c < b * m" "(d * m + c) div b < m" "m \<le> 2 ^ 31"
proof -
  have "d * m + c < Suc d * m" using assms(2) by simp
  also have "\<dots> \<le> b * m" using assms(1) by (intro mult_le_mono1) simp
  finally show l: "d * m + c < b * m" .
  then show "(d * m + c) div b < m" by (simp add: less_mult_imp_div_less mult.commute)
  have "2 * m \<le> b * m" using sizes(1) by (rule mult_le_mono1)
  then have "2 * m \<le> 2 ^ 32" using sizes(4) by (rule order_trans)
  then show "m \<le> 2 ^ 31" by simp
qed

lemma unat_digit: "unat (word_of_nat (n mod b) :: u8) = n mod b"
  using sizes(1,2) less_le_trans [OF mod_less_divisor, of b 256 n] by (simp add: unat_of_nat take_bit_nat_eq_self)

lemma unat_carry: "n < 2 ^ 32 \<Longrightarrow> unat (word_of_nat n :: u32) = n"
  by (simp add: unat_of_nat take_bit_nat_eq_self)

lemma push_digits: "map unat (push carry) = digits b (unat carry)"
proof (induction "unat carry" arbitrary: carry rule: less_induct)
  case less
  show ?case
  proof (cases "carry = 0")
    case False
    then have "unat carry div b < unat carry" using sizes(1) by (simp add: unat_gt_0)
    moreover from this have u: "unat (word_of_nat (unat carry div b) :: u32) = unat carry div b"
      using unat_less_pow [of carry] by (intro unat_carry) simp
    ultimately have "map unat (push (word_of_nat (unat carry div b))) = digits b (unat carry div b)"
      using less [of "word_of_nat (unat carry div b)"] by simp
    then show ?thesis using False sizes(1) push_step [OF False] unat_digit by (simp add: digits_step unat_gt_0)
  qed (simp add: push_0)
qed

lemma loop:
  assumes "map unat ds = digits b n" "unat carry < m"
  shows "map unat (case pass carry ds of (rest, c) \<Rightarrow> rest @ push c) = digits b (n * m + unat carry)"
  using assms
proof (induction ds arbitrary: n carry)
  case Nil
  then have "n = 0" using digits_normal [OF sizes(1), of n] by (metis list.simps(8) number_simps(1))
  then show ?case by (simp add: pass_Nil push_digits)
next
  case (Cons d ds)
  have n: "0 < n" using Cons.prems(1) by (cases "n = 0") simp_all
  then have d: "unat d = n mod b" "map unat ds = digits b (n div b)"
    using Cons.prems(1) sizes(1) by (simp_all add: digits_step)
  let ?v = "unat d * m + unat carry"
  have db: "unat d < b" using d(1) sizes(1) by simp
  note lim = no_overflow [OF db Cons.prems(2)]
  have u: "unat (word_of_nat (?v div b) :: u32) = ?v div b"
    by (rule unat_carry) (use lim(2,3) in simp)
  have ih: "map unat (case pass (word_of_nat (?v div b)) ds of (rest, c) \<Rightarrow> rest @ push c) = digits b (n div b * m + ?v div b)"
    using Cons.IH [OF d(2), of "word_of_nat (?v div b)"] lim(2) u by simp
  have e: "n * m + unat carry = ?v + b * (n div b * m)"
    using d(1) by (metis (no_types, lifting) add.commute add.left_commute distrib_right mult.assoc mult_div_mod_eq)
  have "(n * m + unat carry) mod b = ?v mod b" "(n * m + unat carry) div b = n div b * m + ?v div b"
    unfolding e mod_mult_self2 using sizes(1) by (simp_all add: div_mult_self2)
  moreover have "0 < n * m + unat carry" using n sizes(3) by simp
  ultimately show ?case
    using ih pass_Cons [OF db Cons.prems(2), of ds] unat_digit [of ?v] sizes(1)
    by (simp add: digits_step split: prod.splits)
qed

end

lemma ucast_word_of_nat: "ucast (w :: u32) = (word_of_nat (unat w) :: u8)"
  by simp

lemma div_word_of_nat: "(w :: u32) div v = word_of_nat (unat w div unat v)"
proof -
  have "unat w div unat v < 2 ^ 32" by (rule le_less_trans [OF div_le_dividend]) (use unat_less_pow [of w] in simp)
  then show ?thesis by (intro word_unat_eq_iff [THEN iffD2]) (simp add: unat_div unat_of_nat take_bit_nat_eq_self)
qed

lemma and_byte: "(w :: u32) AND 0xff = w mod 256"
  using take_bit_eq_mask [of 8 w] take_bit_eq_mod [of 8 w] by (simp add: mask_eq_exp_minus_1)

text \<open>One step of either loop, with a carry that does not wrap.\<close>

lemma word_step:
  fixes d :: u8 and carry :: u32
  assumes "unat d < k" "unat carry < m" "k * m \<le> 2 ^ 32"
  shows "unat (ucast d * word_of_nat m + carry :: u32) = unat d * m + unat carry"
proof -
  have "unat d * m + unat carry < Suc (unat d) * m" using assms(2) by simp
  also have "\<dots> \<le> k * m" using assms(1) by (intro mult_le_mono1) simp
  finally have l: "unat d * m + unat carry < 2 ^ 32" using assms(3) by simp
  have "ucast d * word_of_nat m + carry = (word_of_nat (unat d * m + unat carry) :: u32)" by simp
  then show ?thesis using l by (simp add: unat_of_nat take_bit_nat_eq_self del: of_nat_add of_nat_mult)
qed

interpretation to_base58: carry_loop 58 256 encode_pass push_digits
proof
  fix d :: u8 and carry :: u32 and ds assume "unat d < 58" "unat carry < 256"
  then have v: "unat (ucast d * 256 + carry :: u32) = unat d * 256 + unat carry"
    using word_step [of d 58 carry 256] by simp
  then show "encode_pass carry (d # ds) =
      (case encode_pass (word_of_nat ((unat d * 256 + unat carry) div 58)) ds of
        (rest, c) \<Rightarrow> (word_of_nat ((unat d * 256 + unat carry) mod 58) # rest, c))"
    unfolding encode_pass.simps Let_def div_word_of_nat ucast_word_of_nat unat_mod by simp
next
  fix carry :: u32 assume "carry \<noteq> 0"
  then show "push_digits carry = word_of_nat (unat carry mod 58) # push_digits (word_of_nat (unat carry div 58))"
    by (subst push_digits.simps) (simp only: div_word_of_nat ucast_word_of_nat unat_mod unat_numeral if_False, simp)
qed (simp_all add: push_digits.simps [of 0])

interpretation from_base58: carry_loop 256 58 decode_pass push_bytes
proof
  fix d :: u8 and carry :: u32 and ds assume "unat d < 256" "unat carry < 58"
  then have v: "unat (ucast d * 58 + carry :: u32) = unat d * 58 + unat carry"
    using word_step [of d 256 carry 58] by simp
  have "drop_bit 8 (ucast d * 58 + carry :: u32) = (ucast d * 58 + carry) div 256" by (simp add: drop_bit_eq_div)
  then show "decode_pass carry (d # ds) =
      (case decode_pass (word_of_nat ((unat d * 58 + unat carry) div 256)) ds of
        (rest, c) \<Rightarrow> (word_of_nat ((unat d * 58 + unat carry) mod 256) # rest, c))"
    using v unfolding decode_pass.simps Let_def and_byte ucast_word_of_nat unat_mod by (simp add: div_word_of_nat)
next
  fix carry :: u32 assume "carry \<noteq> 0"
  moreover have "drop_bit 8 carry = carry div 256" by (simp add: drop_bit_eq_div)
  ultimately show "push_bytes carry = word_of_nat (unat carry mod 256) # push_bytes (word_of_nat (unat carry div 256))"
    by (subst push_bytes.simps) (simp only: and_byte div_word_of_nat ucast_word_of_nat unat_mod unat_numeral if_False, simp)
qed (simp_all add: push_bytes.simps [of 0])

subsection \<open>Numbers of digit strings\<close>

text \<open>The number that a list of digits stands for, the highest first, after a number that was read before.\<close>

definition read_digits :: "nat \<Rightarrow> nat \<Rightarrow> nat list \<Rightarrow> nat" where
  "read_digits b n ds = foldl (\<lambda>n d. n * b + d) n ds"

lemma read_digits_simps [simp]:
  "read_digits b n [] = n" "read_digits b n (d # ds) = read_digits b (n * b + d) ds"
  by (simp_all add: read_digits_def)

lemma read_number: "read_digits b 0 ds = number b (rev ds)"
proof -
  have "(\<lambda>n d. n * b + d) = (\<lambda>n d. d + b * n)" by (simp add: fun_eq_iff)
  then show ?thesis unfolding read_digits_def number_def by (simp add: foldr_conv_foldl)
qed

lemma read_zeros: "read_digits b 0 (replicate z 0 @ ds) = read_digits b 0 ds"
  by (induction z) simp_all

lemma read_bytes: "read_digits 256 n (map unat bs) = n * 256 ^ length bs + of_be bs"
  by (induction bs arbitrary: n) (simp_all add: of_be_Cons algebra_simps)

lemma encode_digits_number:
  "map unat ds = digits 58 n \<Longrightarrow> map unat (encode_digits bs ds) = digits 58 (read_digits 256 n (map unat bs))"
proof (induction bs ds arbitrary: n rule: encode_digits.induct)
  case (2 byte v ds)
  obtain rest c where p: "encode_pass (ucast byte) ds = (rest, c)" by (rule prod.exhaust)
  have "unat byte < 2 ^ 32" using unat_u8_less [of byte] by (rule less_trans) simp
  then have byte: "unat (ucast byte :: u32) = unat byte" "unat byte < 256"
    by (simp_all add: unsigned_ucast_eq take_bit_nat_eq_self unat_u8_less)
  then have "map unat (rest @ push_digits c) = digits 58 (n * 256 + unat byte)"
    using to_base58.loop [OF 2(2), of "ucast byte"] p by simp
  from 2(1) [OF p [symmetric] refl this] show ?case by (simp add: p)
qed simp

lemma distinct_alphabet: "distinct ALPHABET" "length ALPHABET = 58" "ALPHABET ! 0 = CHR ''1''"
  unfolding ALPHABET_def by simp_all

lemma position_nth: "d < 58 \<Longrightarrow> position (ALPHABET ! d) = Inr (word_of_nat d)"
proof -
  assume d: "d < 58"
  have "takeWhile (\<lambda>c. c \<noteq> ALPHABET ! d) ALPHABET = take d ALPHABET"
    using d distinct_alphabet by (intro takeWhile_eq_take_P_nth) (auto simp: nth_eq_iff_index_eq)
  then show ?thesis using d distinct_alphabet(2) by (simp add: position_def)
qed

lemma position_Inr:
  assumes "position c = Inr k"
  obtains d where "d < 58" "c = ALPHABET ! d" "k = word_of_nat d"
proof -
  let ?n = "length (takeWhile (\<lambda>candidate. candidate \<noteq> c) ALPHABET)"
  have "?n < length ALPHABET" "k = word_of_nat ?n" using assms by (simp_all add: position_def Let_def ensure_Inr)
  then show thesis using that [of ?n] nth_length_takeWhile [of "\<lambda>candidate. candidate \<noteq> c" ALPHABET] distinct_alphabet(2) by simp
qed

lemma decode_digits:
  assumes "list_all (\<lambda>d. d < 58) ds" "map unat bs = digits 256 n"
  shows "\<exists>r. decode_bytes (map (\<lambda>d. ALPHABET ! d) ds) bs = Inr r \<and> map unat r = digits 256 (read_digits 58 n ds)"
  using assms
proof (induction ds arbitrary: bs n)
  case (Cons d ds)
  obtain rest c where p: "decode_pass (word_of_nat d) bs = (rest, c)" by (rule prod.exhaust)
  have "unat (word_of_nat d :: u32) = d" using Cons.prems(1) by (simp add: unat_of_nat take_bit_nat_eq_self)
  then have "map unat (rest @ push_bytes c) = digits 256 (n * 58 + d)"
    using from_base58.loop [OF Cons.prems(2), of "word_of_nat d"] Cons.prems(1) p by simp
  from Cons.IH [OF _ this] show ?case using Cons.prems(1) by (simp add: position_nth p)
qed simp

lemma decode_text: "decode_bytes s bs = Inr r \<Longrightarrow> \<exists>ds. list_all (\<lambda>d. d < 58) ds \<and> s = map (\<lambda>d. ALPHABET ! d) ds"
proof (induction s bs rule: decode_bytes.induct)
  case (2 c s bs)
  obtain k where k: "position c = Inr k" using 2(2) by (auto simp: and_then_Inr)
  obtain d where d: "d < 58" "c = ALPHABET ! d" by (rule position_Inr [OF k])
  obtain rest e where p: "decode_pass k bs = (rest, e)" by (rule prod.exhaust)
  obtain ds where "list_all (\<lambda>d. d < 58) ds" "s = map (\<lambda>d. ALPHABET ! d) ds"
    using 2(1) [OF p [symmetric] refl] 2(2) k p by auto
  then show ?case using d by (intro exI [of _ "d # ds"]) simp
qed simp

text \<open>Leading zeros and what follows them.\<close>

lemma leading_split:
  "xs = replicate (length (takeWhile (\<lambda>x. x = z) xs)) z @ dropWhile (\<lambda>x. x = z) xs"
  by (metis (mono_tags, lifting) replicate_length_same set_takeWhileD takeWhile_dropWhile_id)

lemma leading_count: "ys = [] \<or> hd ys \<noteq> z \<Longrightarrow> length (takeWhile (\<lambda>x. x = z) (replicate n z @ ys)) = n"
  by (cases ys) (auto simp: takeWhile_append)

lemma normal_rev: "list_all (\<lambda>d. d < b) ds \<Longrightarrow> normal b (rev (dropWhile (\<lambda>d. d = 0) ds))"
proof -
  assume a: "list_all (\<lambda>d. d < b) ds"
  have "hd (dropWhile (\<lambda>d. d = 0) ds) \<noteq> 0" if "dropWhile (\<lambda>d. d = 0) ds \<noteq> []" using hd_dropWhile [OF that] .
  then show ?thesis using a by (auto simp: normal_def list_all_iff last_rev dest!: set_dropWhileD)
qed

lemma digits_read:
  assumes "list_all (\<lambda>d. d < b) ds" "2 \<le> b"
  shows "digits b (read_digits b 0 ds) = rev (dropWhile (\<lambda>d. d = 0) ds)"
proof -
  have "read_digits b 0 ds = number b (rev (dropWhile (\<lambda>d. d = 0) ds))"
    by (metis leading_split read_number read_zeros)
  then show ?thesis using digits_number [OF normal_rev [OF assms(1)] assms(2)] by simp
qed

lemma read_of_digits: "2 \<le> b \<Longrightarrow> read_digits b 0 (replicate z 0 @ rev (digits b n)) = n"
  using digits_normal [of b n] by (subst read_zeros) (simp add: read_number)

lemma hd_digits: "2 \<le> b \<Longrightarrow> rev (digits b n) = [] \<or> hd (rev (digits b n)) \<noteq> 0"
  using digits_normal [of b n] by (auto simp: normal_def hd_rev)

text \<open>Encoder and decoder as changes of base that keep the leading zeros.\<close>

definition zeros :: "'a \<Rightarrow> 'a list \<Rightarrow> nat" where
  "zeros z xs = length (takeWhile (\<lambda>x. x = z) xs)"

lemma base58_encode_eq:
  "base58_encode v = map (\<lambda>d. ALPHABET ! d) (replicate (zeros 0 v) 0 @ rev (digits 58 (read_digits 256 0 (map unat v))))"
proof -
  have "map unat (encode_digits v []) = digits 58 (read_digits 256 0 (map unat v))"
    by (rule encode_digits_number) simp
  then have "rev (map unat (encode_digits v [])) = rev (digits 58 (read_digits 256 0 (map unat v)))" by simp
  then show ?thesis
    by (simp add: base58_encode_def zeros_def distinct_alphabet(3) comp_def flip: rev_map list.map_comp)
      (metis (no_types, lifting) list.map_comp comp_apply map_eq_conv rev_map)
qed

lemma zeros_map: "(\<And>x. x \<in> set xs \<Longrightarrow> f x = f z \<longleftrightarrow> x = z) \<Longrightarrow> zeros (f z) (map f xs) = zeros z xs"
  unfolding zeros_def by (induction xs) auto

lemma zeros_text: "list_all (\<lambda>d. d < 58) ds \<Longrightarrow> zeros (CHR ''1'') (map (\<lambda>d. ALPHABET ! d) ds) = zeros 0 ds"
proof -
  assume ds: "list_all (\<lambda>d. d < 58) ds"
  have "ALPHABET ! d = ALPHABET ! 0 \<longleftrightarrow> d = 0" if "d \<in> set ds" for d
    using that ds distinct_alphabet(1,2) by (intro nth_eq_iff_index_eq) (auto simp: list_all_iff)
  from zeros_map [OF this] show ?thesis by (simp add: distinct_alphabet(3))
qed

lemma base58_decode_eq:
  assumes "list_all (\<lambda>d. d < 58) ds"
  obtains v where "base58_decode (map (\<lambda>d. ALPHABET ! d) ds) = Inr v"
    "map unat v = replicate (zeros 0 ds) 0 @ rev (digits 256 (read_digits 58 0 ds))"
proof -
  obtain r where r: "decode_bytes (map (\<lambda>d. ALPHABET ! d) ds) [] = Inr r" "map unat r = digits 256 (read_digits 58 0 ds)"
    using decode_digits [OF assms, of "[]" 0] by auto
  then show thesis
    using that [of "replicate (zeros 0 ds) 0 @ rev r"] zeros_text [OF assms]
    by (simp add: base58_decode_def zeros_def flip: rev_map)
qed

lemma digits_below: "2 \<le> b \<Longrightarrow> list_all (\<lambda>d. d < b) (replicate z 0 @ rev (digits b n))"
  using digits_normal [of b n] by (auto simp: normal_def list_all_iff)

lemma base58_round_trip: "base58_decode (base58_encode v) = Inr v"
proof -
  let ?n = "read_digits 256 0 (map unat v)"
  let ?ds = "replicate (zeros 0 v) 0 @ rev (digits 58 ?n)"
  have b: "list_all (\<lambda>d. d < 58) ?ds" by (rule digits_below) simp
  obtain w where w: "base58_decode (map (\<lambda>d. ALPHABET ! d) ?ds) = Inr w"
    "map unat w = replicate (zeros 0 ?ds) 0 @ rev (digits 256 (read_digits 58 0 ?ds))"
    by (rule base58_decode_eq [OF b])
  have z: "zeros 0 ?ds = zeros 0 v"
    unfolding zeros_def [of _ ?ds] by (rule leading_count) (rule hd_digits, simp)
  have v: "list_all (\<lambda>d. d < 256) (map unat v)" by (simp add: list_all_iff unat_u8_less)
  have "map unat w = replicate (zeros 0 v) 0 @ dropWhile (\<lambda>d. d = 0) (map unat v)"
    using digits_read [OF v] by (simp add: w(2) z read_of_digits)
  also have "zeros 0 v = zeros 0 (map unat v)" using zeros_map [of v unat 0] by (simp add: unat_eq_zero)
  finally have "map unat w = map unat v" using leading_split [of "map unat v" 0] by (simp add: zeros_def)
  moreover have "inj (unat :: u8 \<Rightarrow> nat)" by (rule injI) (simp add: word_unat_eq_iff)
  ultimately have "w = v" by (rule map_injective)
  then show ?thesis using w(1) by (simp add: base58_encode_eq)
qed

lemma base58_canonical:
  assumes "base58_decode s = Inr v"
  shows "base58_encode v = s"
proof -
  obtain r where "decode_bytes s [] = Inr r" using assms by (auto simp: base58_decode_def and_then_Inr)
  then obtain ds where ds: "list_all (\<lambda>d. d < 58) ds" "s = map (\<lambda>d. ALPHABET ! d) ds" using decode_text by blast
  obtain w where w: "base58_decode s = Inr w" "map unat w = replicate (zeros 0 ds) 0 @ rev (digits 256 (read_digits 58 0 ds))"
    using base58_decode_eq [OF ds(1)] ds(2) by auto
  have "zeros 0 w = zeros 0 (map unat w)" using zeros_map [of w unat 0] by (simp add: unat_eq_zero)
  also have "\<dots> = zeros 0 ds"
    unfolding w(2) zeros_def by (rule leading_count) (rule hd_digits, simp)
  finally have z: "zeros 0 w = zeros 0 ds" .
  have "read_digits 256 0 (map unat w) = read_digits 58 0 ds" by (simp add: w(2) read_of_digits)
  then have "base58_encode w = map (\<lambda>d. ALPHABET ! d) (replicate (zeros 0 ds) 0 @ dropWhile (\<lambda>d. d = 0) ds)"
    using digits_read [OF ds(1)] by (simp add: base58_encode_eq z)
  then show ?thesis using leading_split [of ds 0] w(1) assms ds(2) by (simp add: zeros_def)
qed

subsection \<open>Checksums and packed addresses\<close>

lemma base58_check_round_trip:
  assumes "\<And>x. length (sha256 x) = 32"
  shows "base58_check_decode sha256 (base58_check_encode sha256 version payload) = Inr (version, payload)"
  using assms by (simp add: base58_check_decode_def base58_check_encode_def base58_round_trip base58_checksum_def Let_def)

lemma base58_check_canonical:
  assumes "base58_check_decode sha256 s = Inr (version, payload)" "\<And>x. length (sha256 x) = 32"
  shows "base58_check_encode sha256 version payload = s"
proof -
  obtain bs where d: "base58_decode s = Inr bs" "5 \<le> length bs" and
    c: "drop (length bs - 4) bs = base58_checksum sha256 (take (length bs - 4) bs)" and
    p: "version = take (length bs - 4) bs ! 0" "payload = drop 1 (take (length bs - 4) bs)"
    using assms(1) by (auto simp: base58_check_decode_def res_simps Let_def)
  have "take (length bs - 4) bs = [version] @ payload"
    using d(2) unfolding p by (cases bs) (auto simp: take_Cons' split: if_splits)
  then have "([version] @ payload) @ base58_checksum sha256 ([version] @ payload) = bs"
    using c append_take_drop_id [of "length bs - 4" bs] by simp
  then show ?thesis using base58_canonical [OF d(1)] by (simp add: base58_check_encode_def Let_def)
qed

text \<open>The payload of an address: the coordinate from its lowest byte, and the parity.\<close>

definition address_payload :: "bytes \<Rightarrow> u8 \<Rightarrow> bytes" where
  "address_payload x parity = [1, 1] @ rev x @ [parity]"

lemma from_address_payload:
  assumes "\<And>x. length (sha256 x) = 32" "length x = 32" "parity \<in> {0, 1}"
  shows "packed_zeko_address_from_base58 X sha256 (base58_check_encode sha256 MINA_PUBLIC_KEY_VERSION (address_payload x parity)) =
    Inr (''0x'' @ hx_encode X (if parity = 1 then x[0 := x ! 0 OR 0x80] else x))"
proof -
  have "address_payload x parity ! 34 = parity" using assms(2) by (simp add: address_payload_def nth_append)
  moreover have "take 32 (drop 2 (address_payload x parity)) = rev x" using assms(2) by (simp add: address_payload_def)
  moreover have "length (address_payload x parity) = 35" "take 2 (address_payload x parity) = [1, 1]"
    using assms(2) by (simp_all add: address_payload_def)
  ultimately show ?thesis
    using assms(3)
    by (auto simp: packed_zeko_address_from_base58_def base58_check_round_trip [OF assms(1)] MINA_PUBLIC_KEY_PAYLOAD_LEN_def)
qed

lemma top_bit: "(b :: u8) AND 0x80 \<noteq> 0 \<Longrightarrow> (b AND 0x7f) OR 0x80 = b" "b AND 0x80 = 0 \<Longrightarrow> b AND 0x7f = b"
proof -
  have m: "(0x80 :: u8) = push_bit 7 1" "(0x7f :: u8) = mask 7" by (simp_all add: mask_eq_exp_minus_1)
  have "bit (push_bit 7 1 :: u8) n \<longleftrightarrow> n = 7" for n
    by (auto simp: bit_push_bit_iff bit_1_iff simp del: push_bit_of_1 push_bit_numeral)
  then have "bit (b AND 0x80) n \<longleftrightarrow> n = 7 \<and> bit b 7" for n
    unfolding m(1) [symmetric] by (auto simp: bit_and_iff)
  then have t: "b AND 0x80 = 0 \<longleftrightarrow> \<not> bit b 7" unfolding bit_eq_iff [of "b AND 0x80" 0] by auto
  show "(b AND 0x7f) OR 0x80 = b" if "b AND 0x80 \<noteq> 0"
    using that t unfolding m by (intro bit_word_eqI) (auto simp: bit_simps less_Suc_eq numeral_eq_Suc)
  show "b AND 0x7f = b" if "b AND 0x80 = 0"
    using that t unfolding m by (intro bit_word_eqI) (auto simp: bit_simps less_Suc_eq numeral_eq_Suc)
qed

subsection \<open>Properties\<close>

text \<open>
  C34: Addresses survive the change of form.  Base58 is a bijection between byte strings and the texts it accepts;
  Base58Check returns what was encoded and accepts no other text for it; and every packed recipient has an address, from
  which the same packed recipient is read back.  (What the search of the explorer does with it is not modelled.)
\<close>

theorem zeko_address_round_trip:
  assumes "\<And>x. length (sha256 x) = 32" "\<And>b. hx_decode X (hx_encode X b) = Some b"
  shows "(base58_decode s = Inr v \<longleftrightarrow> s = base58_encode v) \<and>
    (base58_check_decode sha256 s = Inr (version, payload) \<longleftrightarrow> s = base58_check_encode sha256 version payload) \<and>
    (length packed = 32 \<longrightarrow> (\<exists>address. packed_zeko_address_to_base58 X sha256 (''0x'' @ hx_encode X packed) = Inr address \<and>
       packed_zeko_address_from_base58 X sha256 address = Inr (''0x'' @ hx_encode X packed)))"
proof (intro conjI impI)
  show "base58_decode s = Inr v \<longleftrightarrow> s = base58_encode v"
    using base58_round_trip base58_canonical by blast
  show "base58_check_decode sha256 s = Inr (version, payload) \<longleftrightarrow> s = base58_check_encode sha256 version payload"
    using base58_check_round_trip [of sha256, OF assms(1)] base58_check_canonical [of sha256, OF _ assms(1)] by metis
  assume len: "length packed = 32"
  let ?odd = "packed ! 0 AND 0x80 \<noteq> 0"
  let ?x = "packed[0 := packed ! 0 AND 0x7f]"
  have "packed_zeko_address_to_base58 X sha256 (''0x'' @ hx_encode X packed) =
      Inr (base58_check_encode sha256 MINA_PUBLIC_KEY_VERSION (address_payload ?x (if ?odd then 1 else 0)))"
    using len by (simp add: packed_zeko_address_to_base58_def assms(2) expect_def Let_def address_payload_def)
  moreover have "(if (if ?odd then 1 else 0 :: u8) = 1 then ?x[0 := ?x ! 0 OR 0x80] else ?x) = packed"
    using len top_bit [of "packed ! 0"] by (simp add: list_update_same_conv)
  ultimately show "\<exists>address. packed_zeko_address_to_base58 X sha256 (''0x'' @ hx_encode X packed) = Inr address \<and>
      packed_zeko_address_from_base58 X sha256 address = Inr (''0x'' @ hx_encode X packed)"
    using from_address_payload [OF assms(1), of ?x "if ?odd then 1 else 0" X] len by simp
qed

text \<open>Bytes written as themselves, and a digest that is the padded length.\<close>

definition plain_hex :: hex_codec where
  "plain_hex = \<lparr>hx_encode = map (\<lambda>b. char_of (unat b)), hx_decode = (\<lambda>s. Some (map (\<lambda>c. word_of_nat (of_char c)) s))\<rparr>"

definition length_digest :: "bytes \<Rightarrow> bytes" where
  "length_digest x = replicate 31 0 @ [word_of_nat (length x)]"

lemma plain_hex_inverse [simp]: "hx_decode plain_hex (hx_encode plain_hex b) = Some b"
proof -
  have "unat x mod 256 = unat x" for x :: u8 by (rule mod_less) (use unsigned_less [of x] in simp)
  then show ?thesis by (simp add: plain_hex_def comp_def map_idI)
qed

theorem zeko_address_round_trip_witness:
  "base58_decode ''11z'' = Inr [0, 0, 57] \<and>
   (\<exists>address. packed_zeko_address_to_base58 plain_hex length_digest (''0x'' @ hx_encode plain_hex (replicate 32 0x85)) = Inr address \<and>
     packed_zeko_address_from_base58 plain_hex length_digest address = Inr (''0x'' @ hx_encode plain_hex (replicate 32 0x85)))"
proof -
  have "length (length_digest x) = 32" for x by (simp add: length_digest_def)
  moreover have "''11z'' = base58_encode [0, 0, 57]" by code_simp
  ultimately show ?thesis
    using zeko_address_round_trip [of length_digest plain_hex "''11z''" "[0, 0, 57]" _ _ "replicate 32 0x85"] by simp
qed

text \<open>
  The parser drops nothing but does not require a field element: a coordinate with the top bit set and parity zero is the
  same packed address as the coordinate without that bit and parity one.
\<close>

lemma address_alias:
  assumes "\<And>x. length (sha256 x) = 32" "length x = 32" "x ! 0 AND 0x80 = 0"
  defines "y \<equiv> x[0 := x ! 0 OR 0x80]"
  shows "packed_zeko_address_from_base58 X sha256 (base58_check_encode sha256 MINA_PUBLIC_KEY_VERSION (address_payload y 0)) =
     packed_zeko_address_from_base58 X sha256 (base58_check_encode sha256 MINA_PUBLIC_KEY_VERSION (address_payload x 1))"
  using from_address_payload [OF assms(1,2), of 1 X] from_address_payload [OF assms(1), of y 0 X] assms(2) by (simp add: y_def)

end
