(* ===== verification/Paging.thy ===== *)
theory Paging
  imports Zeko_Address
begin

text \<open>
  Lists that the gateway serves in pages (\<open>api/src/explorer.rs\<close>, \<open>api/src/main.rs\<close>): the limits and text cursors of the
  explorer, and what a client sees that follows the cursors.  The locale \<open>listing\<close> is the contract of the queries, rows
  beyond a cursor in the order of a rank, up to a limit; with distinct ranks the pages are the whole list, in order and
  once each.
\<close>

subsection \<open>Limits and cursors\<close>

definition DEFAULT_LIMIT :: int where "DEFAULT_LIMIT = 20"
definition MAX_LIMIT :: int where "MAX_LIMIT = 100"

definition list_limit :: "int option \<Rightarrow> int" where
  "list_limit limit = max 1 (min MAX_LIMIT (case limit of None \<Rightarrow> DEFAULT_LIMIT | Some n \<Rightarrow> n))"

text \<open>\<open>String::from_utf8\<close>: the well-formed byte sequences.\<close>

definition continuation :: "u8 \<Rightarrow> bool" where
  "continuation b \<longleftrightarrow> 0x80 \<le> b \<and> b \<le> 0xBF"

fun utf8 :: "bytes \<Rightarrow> bool" where
  "utf8 [] \<longleftrightarrow> True"
| "utf8 [a] \<longleftrightarrow> a < 0x80"
| "utf8 [a, b] \<longleftrightarrow> (if a < 0x80 then utf8 [b] else 0xC2 \<le> a \<and> a \<le> 0xDF \<and> continuation b)"
| "utf8 [a, b, c] \<longleftrightarrow>
     (if a < 0x80 then utf8 [b, c]
      else if a \<le> 0xDF then 0xC2 \<le> a \<and> continuation b \<and> utf8 [c]
      else a \<le> 0xEF \<and> continuation b \<and> continuation c \<and> (a = 0xE0 \<longrightarrow> 0xA0 \<le> b) \<and> (a = 0xED \<longrightarrow> b \<le> 0x9F))"
| "utf8 (a # b # c # d # bs) \<longleftrightarrow>
     (if a < 0x80 then utf8 (b # c # d # bs)
      else if a \<le> 0xDF then 0xC2 \<le> a \<and> continuation b \<and> utf8 (c # d # bs)
      else if a \<le> 0xEF then continuation b \<and> continuation c \<and> (a = 0xE0 \<longrightarrow> 0xA0 \<le> b) \<and> (a = 0xED \<longrightarrow> b \<le> 0x9F) \<and> utf8 (d # bs)
      else a \<le> 0xF4 \<and> continuation b \<and> continuation c \<and> continuation d \<and> (a = 0xF0 \<longrightarrow> 0x90 \<le> b) \<and> (a = 0xF4 \<longrightarrow> b \<le> 0x8F) \<and>
        utf8 bs)"

lemma utf8_ascii: "list_all (\<lambda>b. b < 0x80) bs \<Longrightarrow> utf8 bs"
  by (induction bs rule: utf8.induct) auto

definition encode_cursor :: "hex_codec \<Rightarrow> string \<Rightarrow> string" where
  "encode_cursor X s = hx_encode X (map (\<lambda>c. word_of_nat (of_char c)) s)"

definition decode_cursor :: "hex_codec \<Rightarrow> string \<Rightarrow> failure + string" where
  "decode_cursor X s =
     and_then (expect (hx_decode X s) (plain_failure ''cursor must be hexadecimal'')) (\<lambda>bytes.
     ensure (utf8 bytes) (plain_failure ''cursor must contain UTF-8'') (Inr (map (\<lambda>b. char_of (unat b)) bytes)))"

definition decode_i64_cursor :: "hex_codec \<Rightarrow> string option \<Rightarrow> failure + int option" where
  "decode_i64_cursor X s =
     (case s of None \<Rightarrow> Inr None
      | Some cursor \<Rightarrow>
          and_then (decode_cursor X cursor) (\<lambda>t.
          and_then (expect (parse_i64 t) (plain_failure ''cursor is not numeric'')) (\<lambda>n. Inr (Some n))))"

lemma ascii_show_nat: "c \<in> set (show_nat n) \<Longrightarrow> of_char c < (128 :: nat)"
proof (induction n rule: show_nat.induct)
  case (1 n)
  have d: "of_char (digit_char m) < (128 :: nat)" if "m < 10" for m
    using that by (simp add: digit_char_def)
  show ?case
    using 1(1) 1(2) [unfolded show_nat.simps [of n]] d [of "n mod 10"] d [of n] by (auto split: if_splits)
qed

lemma ascii_show_int: "c \<in> set (show_int i) \<Longrightarrow> of_char c < (128 :: nat)"
  using ascii_show_nat by (auto simp: show_int_def split: if_splits)

lemma cursor_round_trip:
  assumes "\<And>b. hx_decode X (hx_encode X b) = Some b" "- (2 ^ 63) \<le> k" "k < 2 ^ 63"
  shows "decode_i64_cursor X (Some (encode_cursor X (show_int k))) = Inr (Some k)"
proof -
  let ?bs = "map (\<lambda>c. word_of_nat (of_char c)) (show_int k) :: bytes"
  have "utf8 ?bs"
    by (rule utf8_ascii) (use ascii_show_int [of _ k] in \<open>auto simp: list_all_iff word_less_nat_alt unat_of_nat take_bit_nat_eq_self\<close>)
  moreover have "map (\<lambda>b. char_of (unat b)) ?bs = show_int k"
    using ascii_show_int [of _ k] by (auto simp: comp_def unat_of_nat take_bit_nat_eq_self intro!: map_idI)
  ultimately show ?thesis
    by (simp add: decode_i64_cursor_def decode_cursor_def encode_cursor_def expect_def assms(1) parse_show_int [OF assms(2,3)])
qed

subsection \<open>Responses\<close>

datatype status_code = BAD_REQUEST | NOT_FOUND | INTERNAL_SERVER_ERROR | BAD_GATEWAY | SERVICE_UNAVAILABLE

type_synonym http_error = "status_code \<times> string"

definition explorer_error :: "status_code \<Rightarrow> failure \<Rightarrow> http_error" where
  "explorer_error status e =
     (status, if status \<in> {INTERNAL_SERVER_ERROR, BAD_GATEWAY, SERVICE_UNAVAILABLE}
              then ''explorer source is temporarily unavailable'' else fl_message e)"

definition answer :: "(failure \<Rightarrow> http_error) \<Rightarrow> failure + 'a \<Rightarrow> http_error + 'a" where
  "answer f r = (case r of Inl e \<Rightarrow> Inl (f e) | Inr x \<Rightarrow> Inr x)"

text \<open>One more row than the limit is read; if it is there, the key of the last row shown is the next cursor.\<close>

definition cut_page :: "hex_codec \<Rightarrow> ('r \<Rightarrow> int) \<Rightarrow> int \<Rightarrow> 'r list \<Rightarrow> 'r list \<times> string option" where
  "cut_page X key limit rows =
     (let further = limit < int (length rows); rows = take (nat limit) rows
      in (rows, if further \<and> rows \<noteq> [] then Some (encode_cursor X (show_int (key (List.last rows)))) else None))"

subsection \<open>Following the cursors\<close>

inductive pages :: "('c option \<Rightarrow> 'e + 'a list \<times> 'c option) \<Rightarrow> 'c option \<Rightarrow> 'a list \<Rightarrow> bool" for serve where
  last_page: "serve c = Inr (xs, None) \<Longrightarrow> pages serve c xs"
| next_page: "serve c = Inr (xs, Some d) \<Longrightarrow> pages serve (Some d) ys \<Longrightarrow> pages serve c (xs @ ys)"

definition beyond :: "('r \<Rightarrow> int) \<Rightarrow> int option \<Rightarrow> 'r \<Rightarrow> bool" where
  "beyond rank c r \<longleftrightarrow> (case c of None \<Rightarrow> True | Some k \<Rightarrow> k < rank r)"

definition from_row :: "('r \<Rightarrow> int) \<Rightarrow> 'r list \<Rightarrow> int option \<Rightarrow> bool" where
  "from_row rank rows c \<longleftrightarrow> (case c of None \<Rightarrow> True | Some k \<Rightarrow> k \<in> rank ` set rows)"

lemma from_row_None [simp]: "from_row rank rows None"
  by (simp add: from_row_def)

lemma pages_determ:
  assumes "pages serve c xs" "pages serve c ys"
  shows "xs = ys"
  using assms
proof (induction arbitrary: ys rule: pages.induct)
  case (last_page c xs)
  then show ?case by (auto elim: pages.cases)
next
  case (next_page c xs d zs)
  from next_page.prems obtain zs' where "ys = xs @ zs'" "pages serve (Some d) zs'"
    by (cases rule: pages.cases) (use next_page.hyps(1) in auto)
  then show ?case using next_page.IH by simp
qed

locale listing =
  fixes rank :: "'r \<Rightarrow> int" and rows :: "'r list" and query :: "int option \<Rightarrow> nat \<Rightarrow> 'r list"
  assumes ordered: "sorted_wrt (\<lambda>a b. rank a \<le> rank b) rows"
    and query: "query c n = take n (filter (beyond rank c) rows)"
begin

lemma query_ordered: "sorted_wrt (\<lambda>a b. rank a \<le> rank b) (filter (beyond rank c) rows)"
  using ordered by (rule sorted_wrt_filter)

lemma strict:
  assumes "distinct (map rank rows)"
  shows "sorted_wrt (\<lambda>a b. rank a < rank b) (filter (beyond rank c) rows)"
proof -
  have "sorted_wrt (\<lambda>a b. rank a \<le> rank b) xs \<Longrightarrow> distinct (map rank xs) \<Longrightarrow> sorted_wrt (\<lambda>a b. rank a < rank b) xs" for xs
    by (induction xs) (auto simp: order.strict_iff_order image_iff)
  then show ?thesis using query_ordered assms distinct_map_filter by blast
qed

text \<open>What is beyond the last row of a page is the rest of the list.\<close>

lemma rest:
  assumes "distinct (map rank rows)" "query c n \<noteq> []"
  shows "filter (beyond rank (Some (rank (List.last (query c n))))) rows = drop n (filter (beyond rank c) rows)"
proof -
  let ?ys = "filter (beyond rank c) rows" and ?l = "List.last (query c n)"
  have l: "?l \<in> set (take n ?ys)" using assms(2) last_in_set query by metis
  then have "beyond rank c ?l" by (auto dest: in_set_takeD)
  then have "filter (beyond rank (Some (rank ?l))) rows = filter (\<lambda>r. rank ?l < rank r) ?ys"
    unfolding filter_filter by (intro filter_cong) (auto simp: beyond_def split: option.splits)
  also have "\<dots> = filter (\<lambda>r. rank ?l < rank r) (take n ?ys) @ filter (\<lambda>r. rank ?l < rank r) (drop n ?ys)"
    by (metis append_take_drop_id filter_append)
  also have "filter (\<lambda>r. rank ?l < rank r) (take n ?ys) = []"
  proof -
    have "sorted_wrt (\<lambda>a b. rank a \<le> rank b) (take n ?ys)" by (rule sorted_wrt_take [OF query_ordered])
    then have "rank r \<le> rank ?l" if "r \<in> set (take n ?ys)" for r
      using that assms(2) unfolding query by (cases "take n ?ys" rule: rev_cases) (auto simp: sorted_wrt_append)
    then show ?thesis by (simp add: filter_empty_conv not_less)
  qed
  also have "filter (\<lambda>r. rank ?l < rank r) (drop n ?ys) = drop n ?ys"
  proof -
    have "sorted_wrt (\<lambda>a b. rank a < rank b) (take n ?ys @ drop n ?ys)" using strict [OF assms(1)] by simp
    then show ?thesis using l unfolding sorted_wrt_append by (intro filter_True) blast
  qed
  finally show ?thesis by simp
qed

lemma from_last: "query c n \<noteq> [] \<Longrightarrow> from_row rank rows (Some (rank (List.last (query c n))))"
proof -
  assume "query c n \<noteq> []"
  then have "List.last (query c n) \<in> set (take n (filter (beyond rank c) rows))" using last_in_set query by metis
  then show ?thesis by (auto simp: from_row_def dest: in_set_takeD)
qed

text \<open>
  A server that shows pages of \<open>n\<close> rows through \<open>view\<close> and names the rank of the last row when there may be more: a client
  that follows its cursors sees the list.
\<close>

lemma all_pages:
  fixes cursor :: "int \<Rightarrow> 'c" and view :: "'r \<Rightarrow> 'e + 'a"
  assumes distinct: "distinct (map rank rows)" and n: "0 < n"
    and serve: "\<And>c. from_row rank rows c \<Longrightarrow> serve (map_option cursor c) = and_then (try_map view (query c n)) (\<lambda>items.
      Inr (items, if follows c then Some (cursor (rank (List.last (query c n)))) else None))"
    and follows: "\<And>c. follows c \<Longrightarrow> query c n \<noteq> []"
    and ends: "\<And>c. \<not> follows c \<Longrightarrow> drop n (filter (beyond rank c) rows) = []"
  shows "pages serve None items \<longleftrightarrow> try_map view rows = Inr items"
proof -
  have parts: "try_map view (filter (beyond rank c) rows) = Inr items \<longleftrightarrow>
      (\<exists>xs ys. try_map view (query c n) = Inr xs \<and> try_map view (drop n (filter (beyond rank c) rows)) = Inr ys \<and> items = xs @ ys)" for c items
    using try_map_append [of view "query c n" "drop n (filter (beyond rank c) rows)"]
    by (auto simp: query and_then_Inr)
  have served: "from_row rank rows c \<Longrightarrow> try_map view (filter (beyond rank c) rows) = Inr items \<Longrightarrow>
      pages serve (map_option cursor c) items" for c items
  proof (induction "length (filter (beyond rank c) rows)" arbitrary: c items rule: less_induct)
    case less
    obtain xs ys where xs: "try_map view (query c n) = Inr xs" and ys: "try_map view (drop n (filter (beyond rank c) rows)) = Inr ys"
      and items: "items = xs @ ys"
      using less.prems(2) unfolding parts by blast
    note serve = serve [OF less.prems(1)]
    show ?case
    proof (cases "follows c")
      case True
      let ?d = "rank (List.last (query c n))"
      have r: "filter (beyond rank (Some ?d)) rows = drop n (filter (beyond rank c) rows)" by (rule rest [OF distinct follows [OF True]])
      have "0 < length (filter (beyond rank c) rows)" using follows [OF True] by (auto simp: query)
      then have "pages serve (map_option cursor (Some ?d)) ys"
        using less.hyps [of "Some ?d" ys] n ys from_last [OF follows [OF True]] by (simp add: r)
      then show ?thesis using next_page [of serve "map_option cursor c" xs "cursor ?d"] serve True xs items by simp
    next
      case False
      then have "ys = []" using ys ends [OF False] by simp
      then show ?thesis using last_page [of serve "map_option cursor c" xs] serve False xs items by simp
    qed
  qed
  have "\<And>c. from_row rank rows c \<Longrightarrow> c' = map_option cursor c \<Longrightarrow> try_map view (filter (beyond rank c) rows) = Inr items"
    if "pages serve c' items" for c' items
    using that
  proof (induction rule: pages.induct)
    case (last_page c' xs)
    then have "try_map view (query c n) = Inr xs \<and> \<not> follows c"
      using serve [of c] by (auto simp: and_then_Inr split: if_splits)
    then show ?case unfolding parts using ends [of c] by simp
  next
    case (next_page c' xs d ys)
    then have p: "try_map view (query c n) = Inr xs" "follows c" "d = cursor (rank (List.last (query c n)))"
      using serve [of c] by (auto simp: and_then_Inr split: if_splits)
    have "try_map view (drop n (filter (beyond rank c) rows)) = Inr ys"
      using next_page.IH [of "Some (rank (List.last (query c n)))"] rest [OF distinct follows [OF p(2)]] p(3)
        from_last [OF follows [OF p(2)]] by simp
    then show ?case unfolding parts using p(1) by blast
  qed
  from this [of None items None] served [of None items] show ?thesis by (auto simp: beyond_def)
qed

text \<open>Without distinct ranks a client still reaches the end, but what a page leaves of the rank of its last row is lost.\<close>

lemma pages_beyond:
  fixes cursor :: "int \<Rightarrow> 'c"
  assumes serve: "\<And>c. from_row rank rows c \<Longrightarrow> serve (map_option cursor c) =
      Inr (query c n, if follows c then Some (cursor (rank (List.last (query c n)))) else None)"
    and follows: "\<And>c. follows c \<Longrightarrow> query c n \<noteq> []" and c: "from_row rank rows c"
  shows "\<exists>items. pages serve (map_option cursor c) (query c n @ items) \<and>
    (\<forall>r \<in> set items. query c n \<noteq> [] \<and> rank (List.last (query c n)) < rank r)"
  using c
proof (induction "length (filter (beyond rank c) rows)" arbitrary: c rule: less_induct)
  case less
  note serve = serve [OF less.prems]
  show ?case
  proof (cases "follows c")
    case True
    let ?d = "rank (List.last (query c n))" and ?ys = "filter (beyond rank c) rows"
    have l: "List.last (query c n) \<in> set ?ys"
      using last_in_set [OF follows [OF True]] by (auto simp: query dest!: in_set_takeD)
    have "beyond rank (Some ?d) r \<Longrightarrow> beyond rank c r" for r
      using l by (auto simp: beyond_def split: option.splits)
    then have f: "filter (beyond rank (Some ?d)) rows = filter (\<lambda>r. ?d < rank r) ?ys"
      by (auto simp: beyond_def intro!: filter_cong)
    have "length (filter (\<lambda>r. ?d < rank r) ?ys) < length ?ys" by (rule length_filter_less [OF l]) simp
    then obtain items where items: "pages serve (map_option cursor (Some ?d)) (query (Some ?d) n @ items)"
      "\<forall>r \<in> set items. query (Some ?d) n \<noteq> [] \<and> rank (List.last (query (Some ?d) n)) < rank r"
      using less.hyps [of "Some ?d"] from_last [OF follows [OF True]] f by auto
    have q: "?d < rank r" if "r \<in> set (query (Some ?d) n)" for r
      using that by (auto simp: query beyond_def dest!: in_set_takeD)
    have "?d < rank r" if "r \<in> set items" for r
      using items(2) that q [OF last_in_set] by force
    then show ?thesis
      using next_page [of serve "map_option cursor c" "query c n" "cursor ?d"] serve True items(1) q follows [OF True]
      by (intro exI [of _ "query (Some ?d) n @ items"]) auto
  next
    case False
    then show ?thesis using last_page [of serve "map_option cursor c" "query c n"] serve by (intro exI [of _ "[]"]) simp
  qed
qed

text \<open>The pages of the explorer: descending keys, and a cursor that is the text of the last key.\<close>

lemma cut_query:
  assumes "\<And>r. rank r = - key r"
  shows "cut_page X key (int n) (query c (Suc n)) =
    (query c n, if n < length (query c (Suc n)) \<and> query c n \<noteq> []
       then Some (encode_cursor X (show_int (- rank (List.last (query c n))))) else None)"
proof -
  have "take n (query c (Suc n)) = query c n" by (simp add: query)
  then show ?thesis by (simp add: cut_page_def Let_def assms)
qed

lemma decode_from_row:
  assumes "\<And>b. hx_decode X (hx_encode X b) = Some b" "\<And>r. rank r = - key r"
    and "\<And>r. r \<in> set rows \<Longrightarrow> - (2 ^ 63) \<le> key r \<and> key r < 2 ^ 63" "from_row rank rows c"
  shows "decode_i64_cursor X (map_option (\<lambda>k. encode_cursor X (show_int (- k))) c) = Inr (map_option uminus c)"
  using assms(2-4) cursor_round_trip [OF assms(1)]
  by (cases c) (auto simp: from_row_def decode_i64_cursor_def)

lemma explorer_pages:
  assumes hex: "\<And>b. hx_decode X (hx_encode X b) = Some b" and key: "\<And>r. rank r = - key r"
    and range: "\<And>r. r \<in> set rows \<Longrightarrow> - (2 ^ 63) \<le> key r \<and> key r < 2 ^ 63"
    and distinct: "distinct (map rank rows)" and n: "0 < n"
    and serve: "\<And>s. serve s = and_then (answer bad (decode_i64_cursor X s)) (\<lambda>c.
      case cut_page X key (int n) (query (map_option uminus c) (Suc n)) of
        (rs, next_cursor) \<Rightarrow> and_then (try_map view rs) (\<lambda>items. Inr (items, next_cursor)))"
  shows "pages serve None items \<longleftrightarrow> try_map view rows = Inr items"
proof (rule all_pages [where follows = "\<lambda>c. n < length (query c (Suc n))" and cursor = "\<lambda>k. encode_cursor X (show_int (- k))", OF distinct n])
  fix c assume c: "from_row rank rows c"
  have nonempty: "query c n \<noteq> []" if "n < length (query c (Suc n))"
    using that n by (auto simp: query)
  then show "serve (map_option (\<lambda>k. encode_cursor X (show_int (- k))) c) = and_then (try_map view (query c n)) (\<lambda>items.
      Inr (items, if n < length (query c (Suc n)) then Some (encode_cursor X (show_int (- rank (List.last (query c n))))) else None))"
    by (simp add: serve decode_from_row [OF hex key range c] answer_def option.map_comp comp_def option.map_ident cut_query [OF key])
next
  fix c show "n < length (query c (Suc n)) \<Longrightarrow> query c n \<noteq> []" using n by (auto simp: query)
  show "\<not> n < length (query c (Suc n)) \<Longrightarrow> drop n (filter (beyond rank c) rows) = []" by (simp add: query)
qed

lemma explorer_pages_beyond:
  assumes hex: "\<And>b. hx_decode X (hx_encode X b) = Some b" and key: "\<And>r. rank r = - key r"
    and range: "\<And>r. r \<in> set rows \<Longrightarrow> - (2 ^ 63) \<le> key r \<and> key r < 2 ^ 63" and n: "0 < n"
    and serve: "\<And>s. serve s = and_then (answer bad (decode_i64_cursor X s)) (\<lambda>c.
      Inr (cut_page X key (int n) (query (map_option uminus c) (Suc n))))"
  shows "\<exists>items. pages serve None (query None n @ items) \<and>
    (\<forall>r \<in> set items. query None n \<noteq> [] \<and> rank (List.last (query None n)) < rank r)"
proof -
  have "\<exists>items. pages serve (map_option (\<lambda>k. encode_cursor X (show_int (- k))) None) (query None n @ items) \<and>
    (\<forall>r \<in> set items. query None n \<noteq> [] \<and> rank (List.last (query None n)) < rank r)"
  proof (rule pages_beyond [where follows = "\<lambda>c. n < length (query c (Suc n))"])
    fix c assume c: "from_row rank rows c"
    have nonempty: "query c n \<noteq> []" if "n < length (query c (Suc n))"
      using that n by (auto simp: query)
    then show "serve (map_option (\<lambda>k. encode_cursor X (show_int (- k))) c) = Inr (query c n,
        if n < length (query c (Suc n)) then Some (encode_cursor X (show_int (- rank (List.last (query c n))))) else None)"
      by (simp add: serve decode_from_row [OF hex key range c] answer_def option.map_comp comp_def option.map_ident cut_query [OF key])
  next
    fix c show "n < length (query c (Suc n)) \<Longrightarrow> query c n \<noteq> []" using n by (auto simp: query)
  qed simp
  then show ?thesis by simp
qed

end

lemma sort_key_ordered: "sorted_wrt (\<lambda>a b. f a \<le> f b) (sort_key f xs)"
  using sorted_sort_key [of f xs] by (simp add: sorted_map)

lemma sort_beyond:
  "filter (beyond rank c) (sort_key rank xs) = sort_key rank (filter (beyond rank c) xs)"
  by (rule filter_sort)

lemma try_map_answer: "try_map (\<lambda>x. answer f (g x)) xs = answer f (try_map g xs)"
  by (induction xs) (auto simp: answer_def and_then_def split: sum.splits)

end
