(* ===== verification/Listings.thy ===== *)
theory Listings
  imports Paging Archive_Leaves Deposit_Batch "HOL-Library.List_Lexorder" "HOL-Library.Char_ord"
begin

text \<open>
  The lists of deposits, withdrawals and transactions (\<open>api/src/main.rs\<close>, \<open>api/src/explorer.rs\<close>,
  \<open>api/src/withdrawal_activity.rs\<close>).  A joined row of the database is a record; the answers of the Ethereum node and the
  parsers of addresses are parameters.  Following the pages shows every deposit and every withdrawal once.
  Of a transaction the columns are kept that the filters and the order read.  Equal heights are ordered by the characters of
  the hash, in place of the collation of the archive database, and the annotation of withdrawal requests, which cannot fail, is
  left out.
\<close>

subsection \<open>Deposits\<close>

record deposit_columns =
  dc_nonce :: int
  dc_log :: bridge_deposit_log
  dc_finalized :: bool
  dc_bridge_job_id :: "uuid option"
  dc_bridge_status :: "proof_status option"
  dc_outer_action_sequence :: "int option"
  dc_outer_action_state_after :: "string option"
  dc_synchronized_sequence :: "int option"

text \<open>The join with the canonical block of the deposit and, if there is one, its bridge job.\<close>

definition deposit_columns_of :: "chain_db \<Rightarrow> int \<times> deposit_row \<Rightarrow> deposit_columns option" where
  "deposit_columns_of db = (\<lambda>(nonce, d).
     case map_of (cd_blocks db) (uint (dl_block_number (dp_log d))) of
       None \<Rightarrow> None
     | Some b \<Rightarrow>
         if bw_hash b = dl_block_hash (dp_log d) \<and> bw_canonical b \<and> \<not> dp_removed d
         then Some \<lparr>dc_nonce = nonce, dc_log = dp_log d, dc_finalized = bw_finalized b,
           dc_bridge_job_id = dp_bridge_job_id d,
           dc_bridge_status = map_option jb_status (Option.bind (dp_bridge_job_id d) (map_of (gw_jobs (cd_gateway db)))),
           dc_outer_action_sequence = dp_outer_action_sequence d,
           dc_outer_action_state_after = dp_outer_action_state_after d,
           dc_synchronized_sequence = dp_synchronized_sequence d\<rparr>
         else None)"

definition canonical_deposits :: "chain_db \<Rightarrow> deposit_columns list" where
  "canonical_deposits db = List.map_filter (deposit_columns_of db) (cd_deposits db)"

definition native_deposit_progress :: "bool \<Rightarrow> proof_status option \<Rightarrow> bool \<Rightarrow> bool \<Rightarrow> string \<times> string" where
  "native_deposit_progress finalized bridge_job_status bridge_proven is_synchronized =
     (if \<not> finalized then (''confirming'', ''waitForEthereumFinality'')
      else if is_synchronized then (''synchronized'', ''finalizeDepositOnZeko'')
      else if bridge_proven then (''bridgeProven'', ''waitForSettlementSynchronization'')
      else case bridge_job_status of
          None \<Rightarrow> (''locked'', ''requestBridgeProof'')
        | Some status \<Rightarrow>
            if status \<in> {Queued, Validating} then (''proofQueued'', ''waitForBridgeProof'')
            else if status = Awaiting_Approval then (''awaitingProofApproval'', ''waitForOperatorApproval'')
            else if status \<in> {Approved, Proof_Requested, Proving} then (''proving'', ''waitForBridgeProof'')
            else if status \<in> {Submitting, Submitted} then (''submitting'', ''waitForEthereumSubmission'')
            else if status = Executed then (''executed'', ''operatorSubmissionRequired'')
            else if status \<in> {Failed, Proof_Failed, Ethereum_Reverted, Reorged, Rejected} then (''proofFailed'', ''retryBridgeProof'')
            else if status = Confirmed then (''bridgeProven'', ''waitForSettlementSynchronization'')
            else (''proofQueued'', ''waitForBridgeProof''))"

definition progress_of :: "deposit_columns \<Rightarrow> string \<times> string" where
  "progress_of r = native_deposit_progress (dc_finalized r) (dc_bridge_status r) (dc_outer_action_sequence r \<noteq> None)
     (dc_synchronized_sequence r \<noteq> None)"

text \<open>The \<open>CASE\<close> of the query, where \<open>NULL IN (\<dots>)\<close> is not true.\<close>

definition deposit_status :: "deposit_columns \<Rightarrow> string" where
  "deposit_status r =
     (let is_in = (\<lambda>statuses. case dc_bridge_status r of None \<Rightarrow> False | Some s \<Rightarrow> s \<in> statuses) in
      if \<not> dc_finalized r then ''confirming''
      else if dc_synchronized_sequence r \<noteq> None then ''synchronized''
      else if dc_outer_action_sequence r \<noteq> None then ''bridgeProven''
      else if is_in {Failed, Proof_Failed, Ethereum_Reverted, Reorged, Rejected} then ''proofFailed''
      else if is_in {Queued, Validating} then ''proofQueued''
      else if is_in {Awaiting_Approval} then ''awaitingProofApproval''
      else if is_in {Approved, Proof_Requested, Proving} then ''proving''
      else if is_in {Submitting, Submitted} then ''submitting''
      else if is_in {Executed} then ''executed''
      else if is_in {Confirmed} then ''bridgeProven''
      else ''locked'')"

definition deposit_matches :: "int option \<Rightarrow> string option \<Rightarrow> deposit_columns \<Rightarrow> bool" where
  "deposit_matches nonce status r \<longleftrightarrow> dl_token (dc_log r) = replicate 20 0 \<and>
     (case nonce of None \<Rightarrow> True | Some n \<Rightarrow> dc_nonce r = n) \<and>
     (case status of None \<Rightarrow> True | Some s \<Rightarrow> deposit_status r = s)"

definition deposit_query :: "chain_db \<Rightarrow> int option \<Rightarrow> int option \<Rightarrow> string option \<Rightarrow> int \<Rightarrow> deposit_columns list" where
  "deposit_query db nonce cursor status limit =
     take (nat limit) (sort_key (\<lambda>r. - dc_nonce r)
       (filter (\<lambda>r. deposit_matches nonce status r \<and> (case cursor of None \<Rightarrow> True | Some c \<Rightarrow> dc_nonce r < c))
         (canonical_deposits db)))"

record deposit_view =
  dv_nonce :: string
  dv_token :: bytes
  dv_sender :: bytes
  dv_zeko_recipient :: string
  dv_ethereum_amount :: nat
  dv_zeko_amount :: nat
  dv_timeout :: string
  dv_ethereum_transaction_hash :: bytes
  dv_ethereum_block_number :: string
  dv_ethereum_finalized :: bool
  dv_bridge_job_id :: "uuid option"
  dv_bridge_job_status :: "proof_status option"
  dv_outer_action_sequence :: "string option"
  dv_outer_action_state_after :: "string option"
  dv_synchronized_sequence :: "string option"
  dv_status :: string
  dv_next_action :: string

text \<open>The members of the object but the fixed note on accuracy, which a synchronized deposit carries.\<close>

definition deposit_json :: "hex_codec \<Rightarrow> (bytes \<Rightarrow> bytes) \<Rightarrow> deposit_columns \<Rightarrow> failure + deposit_view" where
  "deposit_json X sha256 r =
     (let log = dc_log r; (status, next_action) = progress_of r in
      and_then (packed_zeko_address_to_base58 X sha256 (''0x'' @ hx_encode X (dl_zeko_recipient log))) (\<lambda>recipient.
      Inr \<lparr>dv_nonce = show_int (dc_nonce r), dv_token = dl_token log, dv_sender = dl_sender log,
        dv_zeko_recipient = recipient, dv_ethereum_amount = dl_amount log, dv_zeko_amount = dl_zeko_amount log,
        dv_timeout = show_nat (unat (dl_timeout log)), dv_ethereum_transaction_hash = dl_transaction_hash log,
        dv_ethereum_block_number = show_nat (unat (dl_block_number log)), dv_ethereum_finalized = dc_finalized r,
        dv_bridge_job_id = dc_bridge_job_id r, dv_bridge_job_status = dc_bridge_status r,
        dv_outer_action_sequence = map_option show_int (dc_outer_action_sequence r),
        dv_outer_action_state_after = dc_outer_action_state_after r,
        dv_synchronized_sequence = map_option show_int (dc_synchronized_sequence r),
        dv_status = status, dv_next_action = next_action\<rparr>))"

definition list_deposits ::
  "hex_codec \<Rightarrow> (bytes \<Rightarrow> bytes) \<Rightarrow> chain_db \<Rightarrow> string option \<Rightarrow> int option \<Rightarrow> string option \<Rightarrow>
   http_error + deposit_view list \<times> string option" where
  "list_deposits X sha256 db status limit cursor =
     and_then (answer (explorer_error BAD_REQUEST) (decode_i64_cursor X cursor)) (\<lambda>cursor.
     let limit = list_limit limit;
         (rows, next_cursor) = cut_page X dc_nonce limit (deposit_query db None cursor status (limit + 1)) in
     and_then (answer (explorer_error INTERNAL_SERVER_ERROR) (try_map (deposit_json X sha256) rows)) (\<lambda>items.
     Inr (items, next_cursor)))"

definition get_deposit ::
  "hex_codec \<Rightarrow> (bytes \<Rightarrow> bytes) \<Rightarrow> chain_db \<Rightarrow> u64 \<Rightarrow> http_error + deposit_view" where
  "get_deposit X sha256 db nonce =
     (case i64_of_u64 nonce of
        None \<Rightarrow> Inl (BAD_REQUEST, ''deposit nonce is too large'')
      | Some n \<Rightarrow> (case deposit_query db (Some n) None None 1 of
          r # _ \<Rightarrow> answer (explorer_error INTERNAL_SERVER_ERROR) (deposit_json X sha256 r)
        | [] \<Rightarrow> Inl (NOT_FOUND, ''deposit not found'')))"

subsection \<open>Deposits for the bridge client\<close>

definition page_limit :: "int option \<Rightarrow> int" where
  "page_limit limit = max 1 (min 100 (case limit of None \<Rightarrow> 20 | Some n \<Rightarrow> n))"

record native_deposit_status =
  nd_nonce :: u64
  nd_token :: bytes
  nd_asset_id :: "bytes option"
  nd_action_identity :: action_identity
  nd_sender :: bytes
  nd_zeko_recipient :: bytes
  nd_ethereum_amount :: nat
  nd_zeko_amount :: nat
  nd_timeout :: u64
  nd_ethereum_transaction_hash :: bytes
  nd_ethereum_finalized :: bool
  nd_bridge_job_id :: "uuid option"
  nd_bridge_job_status :: "proof_status option"
  nd_outer_action_sequence :: "u32 option"
  nd_outer_action_state_after :: "string option"
  nd_synchronized_sequence :: "u64 option"
  nd_status :: string
  nd_next_action :: string

definition native_deposit_from_row :: "deposit_columns \<Rightarrow> failure + native_deposit_status" where
  "native_deposit_from_row r =
     (let log = dc_log r; range_error = plain_failure ''out of range integral type conversion attempted'' in
      ensure (case dc_outer_action_sequence r of None \<Rightarrow> True | Some n \<Rightarrow> 0 \<le> n \<and> n < 2 ^ 32) range_error (
      ensure (case dc_synchronized_sequence r of None \<Rightarrow> True | Some n \<Rightarrow> 0 \<le> n) range_error (
      let (status, next_action) = progress_of r in
      ensure (0 \<le> dc_nonce r) range_error (
      and_then (decode_action_identity (deposit_encoding_version log) (Option.bind (dl_erc20_identity log) identity_registry_index)
        (Option.bind (dl_erc20_identity log) identity_record_commitment)) (\<lambda>identity.
      Inr \<lparr>nd_nonce = word_of_int (dc_nonce r), nd_token = dl_token log,
        nd_asset_id = map_option identity_asset_id (dl_erc20_identity log), nd_action_identity = identity,
        nd_sender = dl_sender log, nd_zeko_recipient = dl_zeko_recipient log, nd_ethereum_amount = dl_amount log,
        nd_zeko_amount = dl_zeko_amount log, nd_timeout = dl_timeout log,
        nd_ethereum_transaction_hash = dl_transaction_hash log, nd_ethereum_finalized = dc_finalized r,
        nd_bridge_job_id = dc_bridge_job_id r, nd_bridge_job_status = dc_bridge_status r,
        nd_outer_action_sequence = map_option word_of_int (dc_outer_action_sequence r),
        nd_outer_action_state_after = dc_outer_action_state_after r,
        nd_synchronized_sequence = map_option word_of_int (dc_synchronized_sequence r),
        nd_status = status, nd_next_action = next_action\<rparr>)))))"

definition get_native_deposit :: "chain_db \<Rightarrow> u64 \<Rightarrow> http_error + native_deposit_status" where
  "get_native_deposit db nonce =
     (case i64_of_u64 nonce of
        None \<Rightarrow> Inl (BAD_REQUEST, ''deposit nonce is too large'')
      | Some n \<Rightarrow> (case filter (\<lambda>r. dc_nonce r = n) (canonical_deposits db) of
          [] \<Rightarrow> Inl (NOT_FOUND, ''canonical deposit not found'')
        | r # _ \<Rightarrow> answer (\<lambda>_. (INTERNAL_SERVER_ERROR, ''invalid indexed deposit'')) (native_deposit_from_row r)))"

text \<open>An optional parameter of a request, and the conversions of its parameters.\<close>

definition optional :: "('a \<Rightarrow> 'b option) \<Rightarrow> http_error \<Rightarrow> 'a option \<Rightarrow> http_error + 'b option" where
  "optional parse e p = (case p of None \<Rightarrow> Inr None | Some x \<Rightarrow> and_then (expect (parse x) e) (\<lambda>y. Inr (Some y)))"

definition list_native_deposits ::
  "(string \<Rightarrow> bytes option) \<Rightarrow> chain_db \<Rightarrow> string option \<Rightarrow> int option \<Rightarrow> u64 option \<Rightarrow> http_error + native_deposit_status list" where
  "list_native_deposits parse_b256 db zeko_recipient limit after =
     and_then (optional parse_b256 (BAD_REQUEST, ''zekoRecipient must be a 32-byte packed Zeko address'') zeko_recipient) (\<lambda>recipient.
     and_then (optional i64_of_u64 (BAD_REQUEST, ''after is too large'') after) (\<lambda>after.
     let rows = take (nat (page_limit limit)) (sort_key dc_nonce (filter (\<lambda>r.
           (case recipient of None \<Rightarrow> True | Some a \<Rightarrow> dl_zeko_recipient (dc_log r) = a) \<and>
           (case after of None \<Rightarrow> True | Some n \<Rightarrow> n < dc_nonce r)) (canonical_deposits db))) in
     answer (\<lambda>_. (INTERNAL_SERVER_ERROR, ''invalid indexed deposit'')) (try_map native_deposit_from_row rows)))"

subsection \<open>Withdrawals\<close>

text \<open>What the settlement and bridge contracts answer, and the text form of an address.\<close>

record withdrawal_contracts =
  wc_current_virtual_slot :: "failure + u64"
  wc_withdrawal_delay_slots :: "failure + u32"
  wc_next_withdrawal_index :: "bytes \<Rightarrow> failure + u32"
  wc_next_token_withdrawal_index :: "bytes \<Rightarrow> bytes \<Rightarrow> failure + u32"
  wc_parse_address :: "string \<Rightarrow> bytes option"

definition is_withdrawal :: "bool \<Rightarrow> leaf_row \<Rightarrow> bool" where
  "is_withdrawal tokens r \<longleftrightarrow> lc_recipient (leaf_columns_of (lr_action r)) \<noteq> None \<and>
     (lc_token (leaf_columns_of (lr_action r)) \<noteq> None) = tokens \<and> \<not> lr_removed r"

definition claim_rows :: "bool \<Rightarrow> bytes option \<Rightarrow> int option \<Rightarrow> int \<Rightarrow> leaf_row list \<Rightarrow> leaf_row list" where
  "claim_rows tokens recipient after limit t =
     take (nat limit) (sort_key (\<lambda>r. uint (lr_global_action_index r)) (filter (\<lambda>r. is_withdrawal tokens r \<and>
       (case recipient of None \<Rightarrow> True | Some a \<Rightarrow> lc_recipient (leaf_columns_of (lr_action r)) = Some a) \<and>
       (case after of None \<Rightarrow> True | Some n \<Rightarrow> n < uint (lr_global_action_index r))) t))"

definition leaf_location :: "leaf_row \<Rightarrow> failure + u64 \<times> u32" where
  "leaf_location r =
     (let range_error = plain_failure ''out of range integral type conversion attempted'' in
      ensure (0 \<le> lr_settlement_sequence r) range_error (
      ensure (0 \<le> lr_action_offset r) range_error
        (Inr (word_of_int (lr_settlement_sequence r), word_of_int (lr_action_offset r)))))"

text \<open>\<open>list_native_withdrawals\<close> and \<open>list_token_withdrawals\<close> differ in the rows, the loader and the texts only.\<close>

definition list_claims ::
  "bool \<Rightarrow> string \<Rightarrow> string \<Rightarrow> (u64 \<Rightarrow> u32 \<Rightarrow> u64 \<Rightarrow> u32 \<Rightarrow> failure + 'p) \<Rightarrow> withdrawal_contracts \<Rightarrow> leaf_row list \<Rightarrow>
   string option \<Rightarrow> int option \<Rightarrow> u64 option \<Rightarrow> http_error + 'p list" where
  "list_claims tokens location_text proof_text load W t recipient limit after =
     and_then (optional (wc_parse_address W) (BAD_REQUEST, ''recipient must be a 20-byte Ethereum address'') recipient) (\<lambda>recipient.
     and_then (optional i64_of_u64 (BAD_REQUEST, ''after is too large'') after) (\<lambda>after.
     let rows = claim_rows tokens recipient after (page_limit limit) t in
     and_then (answer (\<lambda>_. (BAD_GATEWAY, ''could not read settlement virtual slot'')) (wc_current_virtual_slot W)) (\<lambda>current_slot.
     and_then (answer (\<lambda>_. (BAD_GATEWAY, ''could not read withdrawal delay'')) (wc_withdrawal_delay_slots W)) (\<lambda>delay.
     try_map (\<lambda>row.
       and_then (answer (\<lambda>_. (INTERNAL_SERVER_ERROR, location_text)) (leaf_location row)) (\<lambda>(sequence, off).
       answer (\<lambda>_. (INTERNAL_SERVER_ERROR, proof_text)) (load sequence off current_slot delay))) rows))))"

definition list_native_withdrawals ::
  "crypto \<Rightarrow> withdrawal_contracts \<Rightarrow> leaf_row list \<Rightarrow> string option \<Rightarrow> int option \<Rightarrow> u64 option \<Rightarrow>
   http_error + native_withdrawal_proof list" where
  "list_native_withdrawals H W t =
     list_claims False ''invalid indexed withdrawal location'' ''could not build withdrawal proof''
       (load_native_withdrawal_proof_at H (wc_next_withdrawal_index W) t) W t"

definition list_token_withdrawals ::
  "crypto \<Rightarrow> withdrawal_contracts \<Rightarrow> leaf_row list \<Rightarrow> string option \<Rightarrow> int option \<Rightarrow> u64 option \<Rightarrow>
   http_error + token_withdrawal_proof list" where
  "list_token_withdrawals H W t =
     list_claims True ''invalid indexed token withdrawal location'' ''could not build token withdrawal proof''
       (load_token_withdrawal_proof_at H (wc_next_token_withdrawal_index W) t) W t"

definition load_native_withdrawal_proof ::
  "crypto \<Rightarrow> withdrawal_contracts \<Rightarrow> leaf_row list \<Rightarrow> u64 \<Rightarrow> u32 \<Rightarrow> failure + native_withdrawal_proof" where
  "load_native_withdrawal_proof H W t sequence offset =
     and_then (wc_current_virtual_slot W) (\<lambda>current_slot.
     and_then (wc_withdrawal_delay_slots W) (\<lambda>delay.
     load_native_withdrawal_proof_at H (wc_next_withdrawal_index W) t sequence offset current_slot delay))"

text \<open>A withdrawal in the explorer: its proof and, once it is claimed, the event of the claim.\<close>

definition withdrawal_json ::
  "crypto \<Rightarrow> withdrawal_contracts \<Rightarrow> chain_db \<Rightarrow> u64 \<Rightarrow> u32 \<Rightarrow> failure + native_withdrawal_proof \<times> withdrawal_claimed_log option" where
  "withdrawal_json H W db sequence offset =
     and_then (load_native_withdrawal_proof H W (cd_leaves db) sequence offset) (\<lambda>proof.
     and_then (bigint sequence) (\<lambda>n.
     Inr (proof, map_option wc_log (find (\<lambda>c. uint (wl_settlement_sequence (wc_log c)) = n \<and>
       wl_global_action_index (wc_log c) = np_global_action_index proof \<and> \<not> wc_removed c) (cd_claims db)))))"

definition withdrawal_query :: "int option \<Rightarrow> int \<Rightarrow> leaf_row list \<Rightarrow> leaf_row list" where
  "withdrawal_query cursor limit t =
     take (nat limit) (sort_key (\<lambda>r. - uint (lr_global_action_index r)) (filter (\<lambda>r. is_withdrawal False r \<and>
       (case cursor of None \<Rightarrow> True | Some c \<Rightarrow> uint (lr_global_action_index r) < c)) t))"

definition list_withdrawals ::
  "hex_codec \<Rightarrow> crypto \<Rightarrow> withdrawal_contracts \<Rightarrow> chain_db \<Rightarrow> int option \<Rightarrow> string option \<Rightarrow>
   http_error + (native_withdrawal_proof \<times> withdrawal_claimed_log option) list \<times> string option" where
  "list_withdrawals X H W db limit cursor =
     and_then (answer (explorer_error BAD_REQUEST) (decode_i64_cursor X cursor)) (\<lambda>cursor.
     let limit = list_limit limit;
         (rows, next_cursor) = cut_page X (\<lambda>r. uint (lr_global_action_index r)) limit (withdrawal_query cursor (limit + 1) (cd_leaves db)) in
     and_then (try_map (\<lambda>row.
         ensure (0 \<le> lr_settlement_sequence row) (INTERNAL_SERVER_ERROR, ''invalid indexed settlement sequence'') (
         ensure (0 \<le> lr_action_offset row) (INTERNAL_SERVER_ERROR, ''invalid indexed withdrawal offset'') (
         answer (explorer_error BAD_GATEWAY)
           (withdrawal_json H W db (word_of_int (lr_settlement_sequence row)) (word_of_int (lr_action_offset row)))))) rows) (\<lambda>items.
     Inr (items, next_cursor)))"

definition get_withdrawal ::
  "crypto \<Rightarrow> withdrawal_contracts \<Rightarrow> chain_db \<Rightarrow> u64 \<Rightarrow> u32 \<Rightarrow> http_error + native_withdrawal_proof \<times> withdrawal_claimed_log option" where
  "get_withdrawal H W db sequence offset =
     (case i64_of_u64 sequence of
        None \<Rightarrow> Inl (BAD_REQUEST, ''settlement is too large'')
      | Some n \<Rightarrow>
          ensure (unat offset < 2 ^ 31) (BAD_REQUEST, ''offset is too large'') (
          ensure (list_ex (\<lambda>r. lr_settlement_sequence r = n \<and> lr_action_offset r = uint offset \<and> is_withdrawal False r) (cd_leaves db))
            (NOT_FOUND, ''withdrawal not found'') (
          answer (explorer_error BAD_GATEWAY) (withdrawal_json H W db sequence offset))))"

text \<open>Withdrawals of the archive that no settlement covers yet.\<close>

record pending_withdrawal =
  pw_token :: "bytes option"
  pw_asset_id :: "bytes option"
  pw_global_action_index :: u32
  pw_transaction_hash :: string
  pw_block_height :: u64
  pw_timestamp :: string
  pw_recipient :: bytes
  pw_amount :: u64

definition pending_view ::
  "(token_identity \<Rightarrow> bytes option) \<Rightarrow> archive_inner_action \<Rightarrow> (failure + pending_withdrawal) option" where
  "pending_view resolved a =
     (let view = (\<lambda>recipient amount token asset_id. \<lparr>pw_token = token, pw_asset_id = asset_id,
        pw_global_action_index = aa_global_action_index a, pw_transaction_hash = aa_transaction_hash a,
        pw_block_height = aa_block_height a, pw_timestamp = aa_timestamp a, pw_recipient = recipient, pw_amount = amount\<rparr>) in
      case aa_withdrawal a of
        None \<Rightarrow> None
      | Some (Archived_Native w) \<Rightarrow> Some (Inr (view (an_recipient w) (an_amount w) None None))
      | Some (Archived_Token w) \<Rightarrow> Some (
          and_then (expect (resolved (token_withdrawal_identity w)) (plain_failure ''archived ERC20 identity was not resolved'')) (\<lambda>token.
          Inr (view (at_recipient w) (at_amount w) (Some token) (Some (at_asset_id w))))))"

definition pending_withdrawals ::
  "(string \<Rightarrow> nat option) \<Rightarrow> (token_identity list \<Rightarrow> failure + (token_identity \<Rightarrow> bytes option)) \<Rightarrow> archive_action list option \<Rightarrow>
   string option \<Rightarrow> leaf_row list \<Rightarrow> bool \<Rightarrow> bytes option \<Rightarrow> u32 option \<Rightarrow> nat \<Rightarrow> failure + pending_withdrawal list" where
  "pending_withdrawals dec resolve archive inner_public_key t tokens recipient after limit =
     and_then (expect archive (plain_failure ''Zeko archive is not configured'')) (\<lambda>archive.
     and_then (expect inner_public_key (plain_failure ''VIRTUAL_MINA_INNER_PUBLIC_KEY is not configured'')) (\<lambda>key.
     and_then (load_archive_inner_actions dec key archive) (\<lambda>actions.
     let settled = set (map (\<lambda>r. uint (lr_global_action_index r)) (filter (\<lambda>r. \<not> lr_removed r) t));
         actions = pending_action_page actions settled tokens recipient after limit in
     and_then (resolve (unique_token_withdrawal_identities (archived_tokens actions))) (\<lambda>resolved.
     try_map id (List.map_filter (pending_view resolved) actions)))))"

definition list_pending_withdrawals ::
  "(string \<Rightarrow> nat option) \<Rightarrow> (token_identity list \<Rightarrow> failure + (token_identity \<Rightarrow> bytes option)) \<Rightarrow> archive_action list option \<Rightarrow>
   string option \<Rightarrow> withdrawal_contracts \<Rightarrow> leaf_row list \<Rightarrow> bool \<Rightarrow> string option \<Rightarrow> int option \<Rightarrow> u64 option \<Rightarrow>
   http_error + pending_withdrawal list" where
  "list_pending_withdrawals dec resolve archive inner_public_key W t token recipient limit after =
     and_then (optional (wc_parse_address W) (BAD_REQUEST, ''recipient must be a 20-byte Ethereum address'') recipient) (\<lambda>recipient.
     and_then (optional (\<lambda>n. if unat n < 2 ^ 32 then Some (ucast n) else None) (BAD_REQUEST, ''after is too large'') after) (\<lambda>after.
     answer (\<lambda>_. (BAD_GATEWAY, ''could not read pending withdrawals from the Zeko archive''))
       (pending_withdrawals dec resolve archive inner_public_key t token recipient after (nat (page_limit limit)))))"

subsection \<open>Transactions\<close>

text \<open>A row of the archive: a user or zkApp command in a block, with the accounts that a zkApp command updates.\<close>

record archive_transaction =
  tx_hash :: string
  tx_kind :: string
  tx_status :: string
  tx_height :: int
  tx_chain_status :: string
  tx_fee_payer :: string
  tx_source :: "string option"
  tx_receiver :: "string option"
  tx_updated_accounts :: "string list"

definition transaction_matches :: "string option \<Rightarrow> string option \<Rightarrow> string option \<Rightarrow> archive_transaction \<Rightarrow> bool" where
  "transaction_matches kind status account t \<longleftrightarrow> tx_chain_status t \<in> {''canonical'', ''pending''} \<and>
     (case kind of None \<Rightarrow> True | Some k \<Rightarrow> tx_kind t = k) \<and>
     (case status of None \<Rightarrow> True | Some s \<Rightarrow> tx_status t = s) \<and>
     (case account of None \<Rightarrow> True | Some a \<Rightarrow> tx_fee_payer t = a \<or> tx_source t = Some a \<or> tx_receiver t = Some a \<or>
        a \<in> set (tx_updated_accounts t))"

definition load_transactions ::
  "archive_transaction list \<Rightarrow> int option \<Rightarrow> string option \<Rightarrow> string option \<Rightarrow> string option \<Rightarrow> int \<Rightarrow> archive_transaction list" where
  "load_transactions archive cursor kind status account limit =
     take (nat limit) (sort_key (\<lambda>t. - tx_height t) (rev (sort_key tx_hash (filter (\<lambda>t. transaction_matches kind status account t \<and>
       (case cursor of None \<Rightarrow> True | Some c \<Rightarrow> tx_height t < c)) archive))))"

definition list_transactions ::
  "hex_codec \<Rightarrow> archive_transaction list option \<Rightarrow> string option \<Rightarrow> string option \<Rightarrow> string option \<Rightarrow> int option \<Rightarrow> string option \<Rightarrow>
   http_error + archive_transaction list \<times> string option" where
  "list_transactions X archive kind status account limit cursor =
     (case archive of
        None \<Rightarrow> Inl (SERVICE_UNAVAILABLE, ''Zeko archive database is not configured'')
      | Some archive \<Rightarrow>
          and_then (answer (explorer_error BAD_REQUEST) (decode_i64_cursor X cursor)) (\<lambda>cursor.
          Inr (cut_page X tx_height (list_limit limit) (load_transactions archive cursor kind status account (list_limit limit + 1)))))"

subsection \<open>The queries as listings\<close>

definition deposit_list :: "chain_db \<Rightarrow> string option \<Rightarrow> deposit_columns list" where
  "deposit_list db status = sort_key (\<lambda>r. - dc_nonce r) (filter (deposit_matches None status) (canonical_deposits db))"

definition withdrawal_list :: "leaf_row list \<Rightarrow> leaf_row list" where
  "withdrawal_list t = sort_key (\<lambda>r. - uint (lr_global_action_index r)) (filter (is_withdrawal False) t)"

definition of_recipient :: "bool \<Rightarrow> bytes option \<Rightarrow> leaf_row \<Rightarrow> bool" where
  "of_recipient tokens recipient r \<longleftrightarrow> is_withdrawal tokens r \<and>
     (case recipient of None \<Rightarrow> True | Some a \<Rightarrow> lc_recipient (leaf_columns_of (lr_action r)) = Some a)"

definition claim_list :: "bool \<Rightarrow> bytes option \<Rightarrow> leaf_row list \<Rightarrow> leaf_row list" where
  "claim_list tokens recipient t = sort_key (\<lambda>r. uint (lr_global_action_index r)) (filter (of_recipient tokens recipient) t)"

definition transaction_list ::
  "string option \<Rightarrow> string option \<Rightarrow> string option \<Rightarrow> archive_transaction list \<Rightarrow> archive_transaction list" where
  "transaction_list kind status account archive =
     sort_key (\<lambda>t. - tx_height t) (rev (sort_key tx_hash (filter (transaction_matches kind status account) archive)))"

interpretation deposit_pages: listing "\<lambda>r. - dc_nonce r" "deposit_list db status"
  "\<lambda>c n. deposit_query db None (map_option uminus c) status (int n)" for db status
proof
  fix c n
  have "(\<lambda>r. deposit_matches None status r \<and> (case map_option uminus c of None \<Rightarrow> True | Some k \<Rightarrow> dc_nonce r < k)) =
      (\<lambda>r. deposit_matches None status r \<and> beyond (\<lambda>r. - dc_nonce r) c r)"
    by (cases c) (auto simp: beyond_def)
  then show "deposit_query db None (map_option uminus c) status (int n) =
      take n (filter (beyond (\<lambda>r. - dc_nonce r) c) (deposit_list db status))"
    by (simp add: deposit_query_def deposit_list_def sort_beyond conj_commute)
next
  show "sorted_wrt (\<lambda>a b. - dc_nonce a \<le> - dc_nonce b) (deposit_list db status)"
    unfolding deposit_list_def by (rule sort_key_ordered)
qed

interpretation withdrawal_pages: listing "\<lambda>r. - uint (lr_global_action_index r)" "withdrawal_list t"
  "\<lambda>c n. withdrawal_query (map_option uminus c) (int n) t" for t
proof
  fix c n
  have "(\<lambda>r. is_withdrawal False r \<and> (case map_option uminus c of None \<Rightarrow> True | Some k \<Rightarrow> uint (lr_global_action_index r) < k)) =
      (\<lambda>r. is_withdrawal False r \<and> beyond (\<lambda>r. - uint (lr_global_action_index r)) c r)"
    by (cases c) (auto simp: beyond_def)
  then show "withdrawal_query (map_option uminus c) (int n) t =
      take n (filter (beyond (\<lambda>r. - uint (lr_global_action_index r)) c) (withdrawal_list t))"
    by (simp add: withdrawal_query_def withdrawal_list_def sort_beyond conj_commute)
next
  show "sorted_wrt (\<lambda>a b. - uint (lr_global_action_index a) \<le> - uint (lr_global_action_index b)) (withdrawal_list t)"
    unfolding withdrawal_list_def by (rule sort_key_ordered)
qed

interpretation claim_pages: listing "\<lambda>r. uint (lr_global_action_index r)" "claim_list tokens recipient t"
  "\<lambda>c n. claim_rows tokens recipient c (int n) t" for tokens recipient t
proof
  fix c n
  have "(\<lambda>r. is_withdrawal tokens r \<and> (case recipient of None \<Rightarrow> True | Some a \<Rightarrow> lc_recipient (leaf_columns_of (lr_action r)) = Some a) \<and>
      (case c of None \<Rightarrow> True | Some n \<Rightarrow> n < uint (lr_global_action_index r))) =
      (\<lambda>r. of_recipient tokens recipient r \<and> beyond (\<lambda>r. uint (lr_global_action_index r)) c r)"
    by (auto simp: beyond_def of_recipient_def)
  then show "claim_rows tokens recipient c (int n) t =
      take n (filter (beyond (\<lambda>r. uint (lr_global_action_index r)) c) (claim_list tokens recipient t))"
    by (simp add: claim_rows_def claim_list_def sort_beyond conj_commute)
qed (simp add: claim_list_def sort_key_ordered)

interpretation transaction_pages: listing "\<lambda>t. - tx_height t" "transaction_list kind status account archive"
  "\<lambda>c n. load_transactions archive (map_option uminus c) kind status account (int n)" for kind status account archive
proof
  fix c n
  have "(\<lambda>t. transaction_matches kind status account t \<and> (case map_option uminus c of None \<Rightarrow> True | Some k \<Rightarrow> tx_height t < k)) =
      (\<lambda>t. transaction_matches kind status account t \<and> beyond (\<lambda>t. - tx_height t) c t)"
    by (cases c) (auto simp: beyond_def)
  then show "load_transactions archive (map_option uminus c) kind status account (int n) =
      take n (filter (beyond (\<lambda>t. - tx_height t) c) (transaction_list kind status account archive))"
    by (simp add: load_transactions_def transaction_list_def sort_beyond rev_filter [symmetric] filter_sort conj_commute)
next
  show "sorted_wrt (\<lambda>a b. - tx_height a \<le> - tx_height b) (transaction_list kind status account archive)"
    unfolding transaction_list_def by (rule sort_key_ordered)
qed

lemma limits: "0 < list_limit l" "0 < page_limit l" "int (nat (list_limit l)) = list_limit l"
    "int (nat (page_limit l)) = page_limit l"
  by (simp_all add: list_limit_def page_limit_def)

lemma deposit_status_shown: "deposit_status r = fst (progress_of r)"
  by (cases "dc_bridge_status r"; cases "the (dc_bridge_status r)")
    (auto simp: deposit_status_def progress_of_def native_deposit_progress_def)

lemma distinct_map_sort [simp]: "distinct (map f (sort_key g xs)) \<longleftrightarrow> distinct (map f xs)"
  by (simp add: distinct_map)

lemma distinct_minus: "distinct (map (\<lambda>r. - (key r :: int)) xs) \<longleftrightarrow> distinct (map key xs)"
  by (induction xs) auto

lemma canonical_nonces:
  "set (map dc_nonce (canonical_deposits db)) \<subseteq> set (map fst (cd_deposits db))"
  "distinct (map fst (cd_deposits db)) \<Longrightarrow> distinct (map dc_nonce (canonical_deposits db))"
proof -
  have n: "deposit_columns_of db x = Some r \<Longrightarrow> dc_nonce r = fst x" for x r
    by (auto simp: deposit_columns_of_def split: option.splits if_splits prod.splits)
  show sub: "set (map dc_nonce (canonical_deposits db)) \<subseteq> set (map fst (cd_deposits db))"
    unfolding canonical_deposits_def List.map_filter_def using n by force
  have "set (map dc_nonce (List.map_filter (deposit_columns_of db) t)) \<subseteq> set (map fst t)" for t
    unfolding List.map_filter_def using n by force
  then have "distinct (map fst t) \<Longrightarrow> distinct (map dc_nonce (List.map_filter (deposit_columns_of db) t))" for t
  proof (induction t)
    case (Cons x t)
    then have "fst x \<notin> set (map dc_nonce (List.map_filter (deposit_columns_of db) t))" by auto
    then show ?case using Cons n by (auto simp: map_filter_simps split: option.splits)
  qed (simp add: map_filter_simps)
  then show "distinct (map fst (cd_deposits db)) \<Longrightarrow> distinct (map dc_nonce (canonical_deposits db))"
    unfolding canonical_deposits_def by blast
qed

lemma minus_twice [simp]: "map_option uminus (map_option uminus (c :: int option)) = c"
  by (cases c) simp_all

subsection \<open>Properties\<close>

text \<open>
  C35: A client that follows the cursors of the explorer sees every native deposit once, newest first, and no other.  With
  a status it sees exactly the deposits that are shown with this status, although the filter of the query and the status
  that is shown are written separately.  The cursor is the hexadecimal text of a nonce.
\<close>

theorem deposit_pages_complete:
  assumes "\<And>b. hx_decode X (hx_encode X b) = Some b"
    and "distinct (map fst (cd_deposits db))" "list_all (\<lambda>(n, _). 0 \<le> n \<and> n < 2 ^ 63) (cd_deposits db)"
  shows "pages (list_deposits X sha256 db status limit) None views \<longleftrightarrow>
    try_map (deposit_json X sha256) (sort_key (\<lambda>r. - dc_nonce r) (filter (\<lambda>r. dl_token (dc_log r) = replicate 20 0 \<and>
      (case status of None \<Rightarrow> True | Some s \<Rightarrow> fst (progress_of r) = s)) (canonical_deposits db))) = Inr views"
proof -
  let ?serve = "list_deposits X sha256 db status limit" and ?n = "nat (list_limit limit)"
  let ?view = "\<lambda>r. answer (explorer_error INTERNAL_SERVER_ERROR) (deposit_json X sha256 r)"
  have i: "int ?n = list_limit limit" "int (Suc ?n) = list_limit limit + 1" using limits(3) [of limit] by simp_all
  have "pages ?serve None views \<longleftrightarrow> try_map ?view (deposit_list db status) = Inr views"
  proof (rule deposit_pages.explorer_pages [where n = ?n, OF assms(1)])
    show "0 < ?n" using limits(1) by simp
    show "distinct (map (\<lambda>r. - dc_nonce r) (deposit_list db status))"
      using canonical_nonces(2) [OF assms(2)] by (simp add: deposit_list_def distinct_minus distinct_map_filter)
    show "- (2 ^ 63) \<le> dc_nonce r \<and> dc_nonce r < 2 ^ 63" if "r \<in> set (deposit_list db status)" for r
    proof -
      have "dc_nonce r \<in> set (map fst (cd_deposits db))"
        using that canonical_nonces(1) [of db] by (auto simp: deposit_list_def)
      then show ?thesis using assms(3) by (auto simp: list_all_iff)
    qed
    show "?serve s = and_then (answer (explorer_error BAD_REQUEST) (decode_i64_cursor X s)) (\<lambda>c.
        case cut_page X dc_nonce (int ?n) (deposit_query db None (map_option uminus (map_option uminus c)) status (int (Suc ?n))) of
          (rs, next_cursor) \<Rightarrow> and_then (try_map ?view rs) (\<lambda>items. Inr (items, next_cursor)))" for s
      by (simp add: list_deposits_def Let_def try_map_answer i del: of_nat_Suc int_nat_eq)
  qed simp
  also have "\<dots> \<longleftrightarrow> try_map (deposit_json X sha256) (deposit_list db status) = Inr views"
    unfolding try_map_answer by (auto simp: answer_def split: sum.splits)
  also have "deposit_list db status = sort_key (\<lambda>r. - dc_nonce r) (filter (\<lambda>r. dl_token (dc_log r) = replicate 20 0 \<and>
      (case status of None \<Rightarrow> True | Some s \<Rightarrow> fst (progress_of r) = s)) (canonical_deposits db))"
    unfolding deposit_list_def by (intro arg_cong [where f = "sort_key _"] filter_cong refl)
      (simp add: deposit_matches_def deposit_status_shown split: option.split)
  finally show ?thesis .
qed

theorem deposit_pages_complete_witness:
  "\<exists>view. pages (list_deposits plain_hex length_digest batch_db (Some ''locked'') None) None [view] \<and> dv_nonce view = ''1''"
proof -
  obtain a where "packed_zeko_address_to_base58 plain_hex length_digest (''0x'' @ hx_encode plain_hex (dl_zeko_recipient batch_log)) = Inr a"
    by (simp add: packed_zeko_address_to_base58_def expect_def Let_def batch_log_def)
  moreover obtain r where r: "canonical_deposits batch_db = [r]" "dc_nonce r = 1" "dc_log r = batch_log"
      "progress_of r = (''locked'', ''requestBridgeProof'')"
    by (simp add: canonical_deposits_def deposit_columns_of_def batch_db_def batch_log_def map_filter_simps progress_of_def
        native_deposit_progress_def)
  moreover have "show_int 1 = ''1''" "dl_token batch_log = replicate 20 0"
    by code_simp (simp add: batch_log_def)
  ultimately obtain view where "deposit_json plain_hex length_digest r = Inr view" "dv_nonce view = ''1''"
    by (simp add: deposit_json_def)
  moreover have "distinct (map fst (cd_deposits batch_db))" "list_all (\<lambda>(n, _). 0 \<le> n \<and> n < 2 ^ 63) (cd_deposits batch_db)"
    by (simp_all add: batch_db_def)
  ultimately show ?thesis
    using deposit_pages_complete [of plain_hex batch_db length_digest "Some ''locked''" None "[view]"] r
    by (intro exI [of _ view]) (simp add: batch_log_def)
qed

text \<open>The columns of the leaves have the ranges of their types, and their keys are unique.\<close>

definition leaves_ok :: "leaf_row list \<Rightarrow> bool" where
  "leaves_ok t \<longleftrightarrow> distinct (map leaf_key (filter (\<lambda>r. \<not> lr_removed r) t)) \<and>
     distinct (map lr_global_action_index (filter (\<lambda>r. \<not> lr_removed r) t)) \<and>
     list_all (\<lambda>r. 0 \<le> lr_settlement_sequence r \<and> lr_settlement_sequence r < 2 ^ 63 \<and> 0 \<le> lr_action_offset r \<and>
       lr_action_offset r < 2 ^ 31) t"

lemma check_rows_offset:
  "check_rows start rt slot off rs = Inr leaves \<Longrightarrow> i < length rs \<Longrightarrow> lr_action_offset (rs ! i) = int (off + i)"
  by (induction rs arbitrary: off leaves i) (auto simp: res_simps nth_Cons' split: if_splits)

lemma loaded_withdrawal:
  assumes "leaves_ok t" "r \<in> set t" "\<not> lr_removed r"
    and "load_inner_action_batch_proof H t (word_of_int (lr_settlement_sequence r)) (word_of_int (lr_action_offset r)) = Inr b"
  shows "bp_target b = r" "bp_global_action_index b = lr_global_action_index r"
proof -
  let ?q = "word_of_int (lr_settlement_sequence r) :: u64" and ?o = "word_of_int (lr_action_offset r) :: u32"
  have lim: "0 \<le> lr_settlement_sequence r" "lr_settlement_sequence r < 2 ^ 63" "0 \<le> lr_action_offset r" "lr_action_offset r < 2 ^ 31"
    using assms(1,2) by (auto simp: leaves_ok_def list_all_iff)
  have q: "uint ?q = lr_settlement_sequence r" "int (unat ?o) = lr_action_offset r"
    using lim by (simp_all add: uint_word_of_int_eq take_bit_int_eq_self flip: uint_nat)
  let ?rows = "batch_rows (lr_settlement_sequence r) t"
  have "bigint ?q = Inr (lr_settlement_sequence r)"
    using q(1) lim(2) by (simp add: bigint_def i64_of_u64_def expect_def)
  then have build: "build_inner_action_batch_proof H ?rows ?o = Inr b"
    using assms(4) by (simp add: load_inner_action_batch_proof_def)
  then obtain leaves s where l: "check_rows (lr_global_action_index (hd ?rows)) s (lr_commit_slot_upper (hd ?rows)) 0 ?rows = Inr leaves"
    "merkle_proof H leaves (unat ?o) \<noteq> None" and b: "bp_target b = ?rows ! unat ?o"
    "bp_global_action_index b = lr_global_action_index (?rows ! unat ?o)"
    by (auto simp: build_inner_action_batch_proof_def res_simps Let_def)
  have o: "unat ?o < length ?rows"
    using l(2) check_rows_length [OF l(1)] by (auto simp: merkle_proof_def split: if_splits)
  let ?x = "?rows ! unat ?o"
  have x: "?x \<in> set t" "\<not> lr_removed ?x" "lr_settlement_sequence ?x = lr_settlement_sequence r"
    using nth_mem [OF o] by (auto simp: batch_rows_def)
  have "lr_action_offset ?x = lr_action_offset r" using check_rows_offset [OF l(1) o] q(2) by simp
  then have "leaf_key ?x = leaf_key r" using x(3) by (simp add: leaf_key_def)
  then have "?x = r" using assms(1-3) x(1,2) by (auto simp: leaves_ok_def distinct_map inj_on_def)
  then show "bp_target b = r" "bp_global_action_index b = lr_global_action_index r" using b by simp_all
qed

lemma try_map_last: "try_map f xs = Inr ys \<Longrightarrow> xs \<noteq> [] \<Longrightarrow> ys \<noteq> [] \<and> f (List.last xs) = Inr (List.last ys)"
  by (induction xs arbitrary: ys) (auto simp: res_simps)

lemma try_map_cong: "(\<And>x. x \<in> set xs \<Longrightarrow> f x = g x) \<Longrightarrow> try_map f xs = try_map g xs"
  by (induction xs) simp_all

text \<open>A client that asks again behind the last item it got, until it gets none.\<close>

definition after_last :: "('p \<Rightarrow> u32) \<Rightarrow> (u64 option \<Rightarrow> http_error + 'p list) \<Rightarrow> u64 option \<Rightarrow> http_error + 'p list \<times> u64 option" where
  "after_last index list after = and_then (list after) (\<lambda>items.
     Inr (items, if items = [] then None else Some (ucast (index (List.last items)))))"

lemma claims_complete:
  assumes ok: "leaves_ok t" and slot: "wc_current_virtual_slot W = Inr slot" "wc_withdrawal_delay_slots W = Inr delay"
    and r: "optional (wc_parse_address W) e recipient = Inr a"
    and e: "e = (BAD_REQUEST, ''recipient must be a 20-byte Ethereum address'')"
    and index: "\<And>s off p. load s off slot delay = Inr p \<Longrightarrow>
      \<exists>b. load_inner_action_batch_proof H t s off = Inr b \<and> index p = bp_global_action_index b"
  shows "pages (after_last index (list_claims tokens lt pt load W t recipient limit)) None proofs \<longleftrightarrow>
    try_map (\<lambda>r. load (word_of_int (lr_settlement_sequence r)) (word_of_int (lr_action_offset r)) slot delay) (claim_list tokens a t) = Inr proofs"
proof -
  let ?n = "nat (page_limit limit)" and ?rank = "\<lambda>r. uint (lr_global_action_index r)" and ?rows = "claim_list tokens a t"
  let ?load = "\<lambda>r. load (word_of_int (lr_settlement_sequence r)) (word_of_int (lr_action_offset r)) slot delay"
  let ?view = "\<lambda>r. answer (\<lambda>_. (INTERNAL_SERVER_ERROR, pt)) (?load r)"
  let ?query = "\<lambda>c n. claim_rows tokens a c (int n) t"
  let ?serve = "after_last index (list_claims tokens lt pt load W t recipient limit)"
  have i: "int ?n = page_limit limit" "0 < ?n" using limits [of limit] by simp_all
  have answered: "answer f (wc_current_virtual_slot W) = Inr slot" "answer f (wc_withdrawal_delay_slots W) = Inr delay" for f
    by (simp_all add: slot answer_def)
  have row: "r \<in> set t \<and> \<not> lr_removed r \<and> 0 \<le> lr_settlement_sequence r \<and> 0 \<le> lr_action_offset r" if "r \<in> set ?rows" for r
    using that ok by (auto simp: claim_list_def of_recipient_def is_withdrawal_def leaves_ok_def list_all_iff)
  have sub: "set (?query c n) \<subseteq> set ?rows" for c n
    by (auto simp: claim_pages.query dest!: in_set_takeD)
  have d: "distinct (map ?rank ?rows)"
  proof -
    have inj: "inj_on lr_global_action_index (set (filter (\<lambda>r. \<not> lr_removed r) t))"
      using ok by (simp add: leaves_ok_def distinct_map)
    have "filter (of_recipient tokens a) t = filter (of_recipient tokens a) (filter (\<lambda>r. \<not> lr_removed r) t)"
      unfolding filter_filter by (intro filter_cong refl) (auto simp: of_recipient_def is_withdrawal_def)
    moreover have "distinct (filter (\<lambda>r. \<not> lr_removed r) t)" using ok by (simp add: leaves_ok_def distinct_map)
    ultimately have "distinct (filter (of_recipient tokens a) t)" by (metis distinct_filter)
    moreover have "inj_on ?rank (set (filter (of_recipient tokens a) t))"
      using inj by (auto simp: inj_on_def of_recipient_def is_withdrawal_def simp flip: word_uint_eq_iff)
    ultimately show ?thesis by (simp add: claim_list_def distinct_map)
  qed
  have key: "index p = lr_global_action_index r" if "r \<in> set ?rows" "?view r = Inr p" for r p
    using that index [of _ _ p] loaded_withdrawal(2) [OF ok] row [OF that(1)] by (fastforce simp: answer_def split: sum.splits)
  have "pages ?serve None proofs \<longleftrightarrow> try_map ?view ?rows = Inr proofs"
  proof (rule claim_pages.all_pages [where follows = "\<lambda>c. ?query c ?n \<noteq> []" and cursor = word_of_int, OF d i(2)])
    fix c assume c: "from_row ?rank ?rows c"
    have "optional i64_of_u64 e' (map_option word_of_int c) = Inr c" for e'
    proof (cases c)
      case (Some k)
      then obtain r :: leaf_row where "k = uint (lr_global_action_index r)" using c by (auto simp: from_row_def)
      then have "0 \<le> k" "k < 2 ^ 32" using uint_lt2p [of "lr_global_action_index r"] by simp_all
      then show ?thesis using Some by (simp add: optional_def expect_def i64_of_u64_def uint_word_of_int_eq take_bit_int_eq_self)
    qed (simp add: optional_def)
    moreover have "try_map (\<lambda>row. and_then (answer (\<lambda>_. (INTERNAL_SERVER_ERROR, lt)) (leaf_location row)) (\<lambda>(sequence, off).
        answer (\<lambda>_. (INTERNAL_SERVER_ERROR, pt)) (load sequence off slot delay))) (?query c ?n) = try_map ?view (?query c ?n)"
      using sub [of c ?n] row by (intro try_map_cong) (auto simp: leaf_location_def answer_def Let_def)
    ultimately have l: "list_claims tokens lt pt load W t recipient limit (map_option word_of_int c) = try_map ?view (?query c ?n)"
      using r answered by (simp add: list_claims_def e i(1) del: int_nat_eq)
    show "?serve (map_option word_of_int c) = and_then (try_map ?view (?query c ?n)) (\<lambda>items.
        Inr (items, if ?query c ?n \<noteq> [] then Some (word_of_int (?rank (List.last (?query c ?n)))) else None))"
    proof (cases "try_map ?view (?query c ?n)")
      case (Inr items)
      have "ucast (index (List.last items)) = (word_of_int (?rank (List.last (?query c ?n))) :: u64)" if "?query c ?n \<noteq> []"
        using key [of "List.last (?query c ?n)"] try_map_last [OF Inr that] last_in_set [OF that] sub [of c ?n] by auto
      moreover have "items = [] \<longleftrightarrow> ?query c ?n = []" using Inr try_map_last [OF Inr] by (cases "?query c ?n") auto
      ultimately show ?thesis using l Inr by (simp add: after_last_def)
    qed (simp add: after_last_def l)
  next
    fix c show "\<not> ?query c ?n \<noteq> [] \<Longrightarrow> drop ?n (filter (beyond ?rank c) ?rows) = []"
      using i(2) unfolding claim_pages.query by auto
  qed simp
  also have "\<dots> \<longleftrightarrow> try_map ?load ?rows = Inr proofs"
    unfolding try_map_answer by (auto simp: answer_def split: sum.splits)
  finally show ?thesis .
qed

text \<open>
  A client of the bridge that asks again behind the last withdrawal it got receives a proof for every withdrawal of
  its recipient that no reorganisation removed, in the order of the global action index and once each, and this for the
  native and for the ERC-20 list.  Unless one of the proofs cannot be built: then no complete walk exists.
\<close>

lemma withdrawal_pages_complete:
  assumes "leaves_ok t" "wc_current_virtual_slot W = Inr slot" "wc_withdrawal_delay_slots W = Inr delay"
    and "optional (wc_parse_address W) (BAD_REQUEST, ''recipient must be a 20-byte Ethereum address'') recipient = Inr a"
  shows "(pages (after_last np_global_action_index (list_native_withdrawals H W t recipient limit)) None natives \<longleftrightarrow>
      try_map (\<lambda>r. load_native_withdrawal_proof_at H (wc_next_withdrawal_index W) t (word_of_int (lr_settlement_sequence r))
        (word_of_int (lr_action_offset r)) slot delay)
        (sort_key (\<lambda>r. uint (lr_global_action_index r)) (filter (of_recipient False a) t)) = Inr natives) \<and>
    (pages (after_last tp_global_action_index (list_token_withdrawals H W t recipient limit)) None tokens \<longleftrightarrow>
      try_map (\<lambda>r. load_token_withdrawal_proof_at H (wc_next_token_withdrawal_index W) t (word_of_int (lr_settlement_sequence r))
        (word_of_int (lr_action_offset r)) slot delay)
        (sort_key (\<lambda>r. uint (lr_global_action_index r)) (filter (of_recipient True a) t)) = Inr tokens)"
proof -
  have "\<exists>b. load_inner_action_batch_proof H t s off = Inr b \<and> np_global_action_index p = bp_global_action_index b"
    if "load_native_withdrawal_proof_at H (wc_next_withdrawal_index W) t s off slot delay = Inr p" for s off p
    using that by (auto simp: load_native_withdrawal_proof_at_def res_simps Let_def split_beta)
  moreover have "\<exists>b. load_inner_action_batch_proof H t s off = Inr b \<and> tp_global_action_index p = bp_global_action_index b"
    if "load_token_withdrawal_proof_at H (wc_next_token_withdrawal_index W) t s off slot delay = Inr p" for s off p
    using that by (auto simp: load_token_withdrawal_proof_at_def res_simps Let_def split_beta)
  ultimately show ?thesis
    unfolding list_native_withdrawals_def list_token_withdrawals_def claim_list_def [symmetric]
    by (intro conjI claims_complete [OF assms(1-4) refl]) blast+
qed

definition sample_contracts :: withdrawal_contracts where
  "sample_contracts = \<lparr>wc_current_virtual_slot = Inr 130, wc_withdrawal_delay_slots = Inr 5,
     wc_next_withdrawal_index = (\<lambda>_. Inr 0), wc_next_token_withdrawal_index = (\<lambda>_ _. Inr 0), wc_parse_address = (\<lambda>_. None)\<rparr>"

text \<open>
  C40: A page boundary inside a block hides transactions.  The cursor of the transaction list is the height of the last
  block shown.  When the first page ends in the middle of a block, a client that follows the cursors reaches the end of
  the list but never sees the next transaction.
\<close>

theorem transactions_lost_between_pages:
  assumes "\<And>b. hx_decode X (hx_encode X b) = Some b"
    and "list_all (\<lambda>t. - (2 ^ 63) \<le> tx_height t \<and> tx_height t < 2 ^ 63) archive"
    and "n = nat (list_limit limit)" "rows = transaction_list kind status account archive" "n < length rows"
    and "tx_height (rows ! (n - 1)) = tx_height (rows ! n)" "rows ! n \<notin> set (take n rows)"
  shows "\<exists>items. (\<forall>xs. pages (list_transactions X (Some archive) kind status account limit) None xs \<longleftrightarrow> xs = items) \<and>
    rows ! n \<notin> set items"
proof -
  let ?serve = "list_transactions X (Some archive) kind status account limit"
  have i: "int n = list_limit limit" "int (Suc n) = list_limit limit + 1" "0 < n"
    using limits [of limit] assms(3) by simp_all
  have "\<exists>items. pages ?serve None (load_transactions archive (map_option uminus None) kind status account (int n) @ items) \<and>
      (\<forall>r \<in> set items. load_transactions archive (map_option uminus None) kind status account (int n) \<noteq> [] \<and>
        - tx_height (List.last (load_transactions archive (map_option uminus None) kind status account (int n))) < - tx_height r)"
  proof (rule transaction_pages.explorer_pages_beyond [OF assms(1)])
    show "- (2 ^ 63) \<le> tx_height r \<and> tx_height r < 2 ^ 63" if "r \<in> set (transaction_list kind status account archive)" for r
      using that assms(2) by (auto simp: transaction_list_def list_all_iff)
    show "?serve s = and_then (answer (explorer_error BAD_REQUEST) (decode_i64_cursor X s)) (\<lambda>c. Inr (cut_page X tx_height (int n)
        (load_transactions archive (map_option uminus (map_option uminus c)) kind status account (int (Suc n)))))" for s
      by (simp add: list_transactions_def i del: of_nat_Suc)
  qed (use i in simp_all)
  moreover have "load_transactions archive (map_option uminus None) kind status account (int n) = take n rows"
    unfolding transaction_pages.query by (simp add: beyond_def assms(4))
  moreover have "List.last (take n rows) = rows ! (n - 1)"
    using assms(5) i(3) by (subst last_conv_nth) auto
  ultimately obtain items where items: "pages ?serve None (take n rows @ items)"
    "\<forall>r \<in> set items. tx_height r < tx_height (rows ! n)"
    using assms(6) by auto
  then have "rows ! n \<notin> set (take n rows @ items)" using assms(7) by auto
  then show ?thesis using items(1) pages_determ by (intro exI [of _ "take n rows @ items"]) blast
qed

text \<open>One block with two transactions, listed one at a time.\<close>

definition paid :: "string \<Rightarrow> archive_transaction" where
  "paid h = \<lparr>tx_hash = h, tx_kind = ''payment'', tx_status = ''applied'', tx_height = 5, tx_chain_status = ''canonical'',
     tx_fee_payer = [], tx_source = None, tx_receiver = None, tx_updated_accounts = []\<rparr>"

theorem transactions_lost_between_pages_witness:
  "\<exists>items. (\<forall>xs. pages (list_transactions plain_hex (Some [paid ''a'', paid ''b'']) None None None (Some 1)) None xs \<longleftrightarrow> xs = items) \<and>
     paid ''a'' \<notin> set items"
proof -
  have "transaction_list None None None [paid ''a'', paid ''b''] = [paid ''b'', paid ''a'']"
    by (simp add: transaction_list_def transaction_matches_def paid_def sort_key_def)
  moreover have "nat (list_limit (Some 1)) = 1" by (simp add: list_limit_def MAX_LIMIT_def)
  moreover have "paid ''a'' \<noteq> paid ''b''" "tx_height (paid h) = 5" for h by (simp_all add: paid_def)
  ultimately show ?thesis
    using transactions_lost_between_pages [of plain_hex "[paid ''a'', paid ''b'']" 1 "Some 1" "[paid ''b'', paid ''a'']" None None None]
    by simp
qed

end
