(* ===== verification/Rpc_Transport.thy ===== *)
theory Rpc_Transport
  imports Submission Utf8_Text
begin

text \<open>
  The transport of \<open>api/src/rpc.rs\<close>: how a request to the Ethereum node is paced, retried and given up, and how its errors are
  classified.  Durations are nanoseconds; an exchange with the node, the conversions of a duration to and from floating
  point, and the chain of causes of an error are parameters.
\<close>

subsection \<open>Configuration\<close>

record rpc_config =
  rc_requests_per_second :: u32
  rc_max_concurrent :: u64
  rc_max_retries :: u32
  rc_initial_backoff :: nat
  rc_max_backoff :: nat
  rc_request_timeout :: nat
  rc_operation_timeout :: nat

text \<open>A variable of the environment, or its default, as a number of the given width.\<close>

definition env_number :: "(string \<Rightarrow> string option) \<Rightarrow> (string \<Rightarrow> u64 option) \<Rightarrow> string \<Rightarrow> u64 \<Rightarrow> failure + u64" where
  "env_number env parse name fallback =
     (case env name of None \<Rightarrow> Inr fallback | Some v \<Rightarrow> expect (parse v) (plain_failure (''invalid '' @ name)))"

definition u32_of_u64 :: "u64 \<Rightarrow> failure + u32" where
  "u32_of_u64 n = ensure (unat n < 2 ^ 32) (plain_failure ''out of range integral type conversion attempted'') (Inr (ucast n))"

definition validate_rpc_config :: "rpc_config \<Rightarrow> failure + unit" where
  "validate_rpc_config c =
     ensure (0 < rc_requests_per_second c \<and> 0 < rc_max_concurrent c)
       (plain_failure ''Ethereum RPC rate and concurrency limits must be positive'') (
     ensure (rc_initial_backoff c \<noteq> 0 \<and> rc_initial_backoff c \<le> rc_max_backoff c)
       (plain_failure ''invalid Ethereum RPC backoff bounds'') (
     ensure (rc_request_timeout c \<noteq> 0 \<and> rc_request_timeout c \<le> rc_operation_timeout c)
       (plain_failure ''invalid Ethereum RPC timeout bounds'') (Inr ())))"

definition from_millis :: "u64 \<Rightarrow> nat" where
  "from_millis n = unat n * 10 ^ 6"

definition rpc_config_from_env :: "(string \<Rightarrow> string option) \<Rightarrow> (string \<Rightarrow> u64 option) \<Rightarrow> failure + rpc_config" where
  "rpc_config_from_env env parse =
     (let number = env_number env parse in
      and_then (number ''ETHEREUM_RPC_REQUESTS_PER_SECOND'' 8) (\<lambda>rps. and_then (u32_of_u64 rps) (\<lambda>rps.
      and_then (number ''ETHEREUM_RPC_MAX_CONCURRENT'' 4) (\<lambda>concurrent.
      and_then (number ''ETHEREUM_RPC_MAX_RETRIES'' 5) (\<lambda>retries. and_then (u32_of_u64 retries) (\<lambda>retries.
      and_then (number ''ETHEREUM_RPC_INITIAL_BACKOFF_MS'' 500) (\<lambda>initial.
      and_then (number ''ETHEREUM_RPC_MAX_BACKOFF_MS'' 10000) (\<lambda>limit.
      and_then (number ''ETHEREUM_RPC_REQUEST_TIMEOUT_MS'' 30000) (\<lambda>request.
      and_then (number ''ETHEREUM_RPC_OPERATION_TIMEOUT_MS'' 90000) (\<lambda>operation.
      let config = \<lparr>rc_requests_per_second = rps, rc_max_concurrent = concurrent, rc_max_retries = retries,
        rc_initial_backoff = from_millis initial, rc_max_backoff = from_millis limit,
        rc_request_timeout = from_millis request, rc_operation_timeout = from_millis operation\<rparr> in
      and_then (validate_rpc_config config) (\<lambda>_. Inr config)))))))))))"

subsection \<open>Errors\<close>

record rpc_response_error =
  rr_code :: int
  rr_message :: string
  rr_backoff :: "int option"

record reqwest_error =
  re_timeout :: bool
  re_connect :: bool
  re_request :: bool
  re_body :: bool

datatype transport_error =
    Error_Response rpc_response_error
  | Http_Error u16 bytes
  | Deserialization_Error bytes
  | Connection_Error reqwest_error
  | Rpc_Unavailable "transport_error option"
  | Other_Transport_Error

definition as_error_resp :: "transport_error \<Rightarrow> rpc_response_error option" where
  "as_error_resp e = (case e of Error_Response r \<Rightarrow> Some r | _ \<Rightarrow> None)"

definition as_http_status :: "transport_error \<Rightarrow> u16 option" where
  "as_http_status e = (case e of Http_Error s _ \<Rightarrow> Some s | _ \<Rightarrow> None)"

text \<open>One element of the chain of causes of an error, by what it downcasts to.\<close>

datatype cause =
    Cause_Snapshot_Unavailable
  | Cause_Rpc_Unavailable
  | Cause_Reqwest reqwest_error
  | Cause_Transport transport_error
  | Cause_Contract "transport_error option"
  | Cause_Other

definition rpc_error :: "cause \<Rightarrow> transport_error option" where
  "rpc_error c = (case c of Cause_Transport e \<Rightarrow> Some e | Cause_Contract e \<Rightarrow> e | _ \<Rightarrow> None)"

definition transient_rpc_error :: "int \<Rightarrow> string \<Rightarrow> bool" where
  "transient_rpc_error code message =
     (let m = to_ascii_lowercase message in
      code \<in> {429, - 32005, - 32007} \<or> contains m ''rate limit'' \<or> contains m ''too many requests'' \<or>
      contains m ''temporarily unavailable'')"

definition transient_http_status :: "u16 \<Rightarrow> bool" where
  "transient_http_status s \<longleftrightarrow> s \<in> {408, 429, 500, 502, 503, 504}"

definition transient_reqwest :: "reqwest_error \<Rightarrow> bool" where
  "transient_reqwest e \<longleftrightarrow> re_timeout e \<or> re_connect e \<or> re_request e \<or> re_body e"

definition is_rate_limited :: "cause list \<Rightarrow> bool" where
  "is_rate_limited = list_ex (\<lambda>c. case rpc_error c of
       None \<Rightarrow> False
     | Some e \<Rightarrow> as_http_status e = Some 429 \<or>
         (case as_error_resp e of
            None \<Rightarrow> False
          | Some r \<Rightarrow> rr_code r \<in> {429, - 32005, - 32007} \<or> contains (to_ascii_lowercase (rr_message r)) ''rate limit'' \<or>
              contains (to_ascii_lowercase (rr_message r)) ''too many requests''))"

definition classify_transport :: "transport_error \<Rightarrow> rpc_failure_kind option" where
  "classify_transport e =
     (case as_error_resp e of
        Some r \<Rightarrow>
          if contains (to_ascii_lowercase (rr_message r)) ''insufficient funds'' then Some Rpc_Insufficient_Funds
          else if transient_rpc_error (rr_code r) (rr_message r) then Some Rpc_Transient else None
      | None \<Rightarrow> (case as_http_status e of
          Some s \<Rightarrow> if transient_http_status s then Some Rpc_Transient else None
        | None \<Rightarrow> None))"

fun rpc_classify :: "cause list \<Rightarrow> rpc_failure_kind" where
  "rpc_classify [] = Rpc_Other"
| "rpc_classify (c # cs) =
     (if c = Cause_Snapshot_Unavailable then Rpc_Snapshot_Unavailable
      else if c = Cause_Rpc_Unavailable then Rpc_Transient
      else if (case c of Cause_Reqwest e \<Rightarrow> transient_reqwest e | _ \<Rightarrow> False) then Rpc_Transient
      else case Option.bind (rpc_error c) classify_transport of Some k \<Rightarrow> k | None \<Rightarrow> rpc_classify cs)"

text \<open>\<open>read_pinned_snapshot\<close>: whether the error of a read says that the node lost the block, by code and exact text.\<close>

definition lost_block_codes :: "int set" where
  "lost_block_codes = {- 32000, - 32001, - 32603}"

definition lost_block_messages :: "string set" where
  "lost_block_messages = {''hash is not currently canonical'', ''block is not canonical'', ''block not canonical'',
     ''block hash is not canonical'', ''header for hash not found'', ''header not found'', ''block not found'',
     ''unknown block'', ''resource not found''}"

definition snapshot_lost :: "cause list \<Rightarrow> bool" where
  "snapshot_lost = list_ex (\<lambda>c. case Option.bind (rpc_error c) as_error_resp of
       None \<Rightarrow> False
     | Some r \<Rightarrow> rr_code r \<in> lost_block_codes \<and> to_ascii_lowercase (trim (rr_message r)) \<in> lost_block_messages)"

text \<open>An error of a read: its text and its chain of causes, and what the job table keeps of it.\<close>

record call_error =
  ce_message :: string
  ce_causes :: "cause list"

definition bail :: "string \<Rightarrow> call_error" where
  "bail m = \<lparr>ce_message = m, ce_causes = [Cause_Other]\<rparr>"

definition failure_of :: "call_error \<Rightarrow> failure" where
  "failure_of e = \<lparr>fl_message = ce_message e, fl_rpc_kind = rpc_classify (ce_causes e),
     fl_rate_limited = is_rate_limited (ce_causes e), fl_sqlx = [], fl_code = None\<rparr>"

definition read_pinned_snapshot :: "call_error + 'a \<Rightarrow> call_error + 'a" where
  "read_pinned_snapshot r =
     (case r of
        Inl e \<Rightarrow> Inl (if snapshot_lost (ce_causes e)
          then \<lparr>ce_message = ''Ethereum snapshot is unavailable; retry the stage with a fresh canonical block: '' @ ce_message e,
            ce_causes = Cause_Snapshot_Unavailable # ce_causes e\<rparr>
          else e)
      | Inr x \<Rightarrow> Inr x)"

lemma pinned_Inr [simp]: "read_pinned_snapshot r = Inr x \<longleftrightarrow> r = Inr x"
  by (simp add: read_pinned_snapshot_def split: sum.splits)

text \<open>A read that lost its block is retried with the whole stage.\<close>

lemma lost_block_retried:
  assumes "r = Inl e" "snapshot_lost (ce_causes e)"
  shows "\<exists>e'. read_pinned_snapshot r = Inl e' \<and> classify (failure_of e') = Snapshot_Unavailable \<and>
    class_retryable (classify (failure_of e'))"
  using assms by (simp add: read_pinned_snapshot_def failure_of_def classify_def class_retryable_def)

subsection \<open>Pacing\<close>

record rpc_budget =
  bg_next_request :: nat
  bg_jitter :: u64

text \<open>
  The interval of a request and the share of a backoff, which the code computes in floating point.
\<close>

record float_durations =
  fd_interval :: "u32 \<Rightarrow> u32 \<Rightarrow> nat"
  fd_mul_half :: "nat \<Rightarrow> u64 \<Rightarrow> nat"

text \<open>One turn of the loop in \<open>pace\<close>: the time to sleep until, or the budget after the request was let through.\<close>

definition pace :: "float_durations \<Rightarrow> rpc_config \<Rightarrow> u32 \<Rightarrow> nat \<Rightarrow> rpc_budget \<Rightarrow> nat + rpc_budget" where
  "pace F c cost now b =
     (if bg_next_request b \<le> now
      then Inr (b\<lparr>bg_next_request := now + fd_interval F cost (rc_requests_per_second c)\<rparr>)
      else Inl (bg_next_request b))"

definition cooldown :: "nat \<Rightarrow> nat \<Rightarrow> rpc_budget \<Rightarrow> rpc_budget" where
  "cooldown delay now b = b\<lparr>bg_next_request := max (bg_next_request b) (now + delay)\<rparr>"

definition DURATION_MAX :: nat where
  "DURATION_MAX = (2 ^ 64 - 1) * 10 ^ 9 + 999999999"

definition backoff_ceiling :: "rpc_config \<Rightarrow> u32 \<Rightarrow> nat" where
  "backoff_ceiling c retry =
     min (min DURATION_MAX (rc_initial_backoff c * (if unat retry < 32 then 2 ^ unat retry else 2 ^ 32 - 1))) (rc_max_backoff c)"

definition backoff :: "float_durations \<Rightarrow> rpc_config \<Rightarrow> u32 \<Rightarrow> rpc_budget \<Rightarrow> nat \<times> rpc_budget" where
  "backoff F c retry b =
     (let ceiling = backoff_ceiling c retry; seed = bg_jitter b;
          mixed = (seed XOR drop_bit 30 seed) * 0xbf58476d1ce4e5b9
      in (ceiling div 2 + fd_mul_half F ceiling mixed, b\<lparr>bg_jitter := seed + 0x9e3779b97f4a7c15\<rparr>))"

text \<open>The requests that the clones of a transport let through, with cooldowns and the use of the jitter between them.\<close>

inductive paced :: "float_durations \<Rightarrow> rpc_config \<Rightarrow> rpc_budget \<Rightarrow> (nat \<times> u32) list \<Rightarrow> nat \<Rightarrow> rpc_budget \<Rightarrow> bool" for F c b where
  start: "paced F c b [] 0 b"
| request: "paced F c b rs now b' \<Longrightarrow> now \<le> t \<Longrightarrow> pace F c cost t b' = Inr b'' \<Longrightarrow> paced F c b (rs @ [(t, cost)]) t b''"
| cool: "paced F c b rs now b' \<Longrightarrow> now \<le> t \<Longrightarrow> paced F c b rs t (cooldown delay t b')"
| jitter: "paced F c b rs now b' \<Longrightarrow> paced F c b rs now (snd (backoff F c retry b'))"

lemma paced_spaced:
  assumes "paced F c b rs now b'"
  shows "(\<forall>i < length rs. bg_next_request b \<le> fst (rs ! i) \<and>
      fst (rs ! i) + (\<Sum>k = i..<length rs. fd_interval F (snd (rs ! k)) (rc_requests_per_second c)) \<le> bg_next_request b') \<and>
    bg_next_request b \<le> bg_next_request b' \<and>
    (\<forall>j < length rs. \<forall>i \<le> j. fst (rs ! i) + (\<Sum>k = i..<j. fd_interval F (snd (rs ! k)) (rc_requests_per_second c)) \<le> fst (rs ! j))"
  using assms
proof (induction rule: paced.induct)
  case start
  then show ?case by simp
next
  case (request rs now b' t cost b'')
  let ?f = "\<lambda>rs k. fd_interval F (snd (rs ! k)) (rc_requests_per_second c)"
  have b: "bg_next_request b' \<le> t" "bg_next_request b'' = t + fd_interval F cost (rc_requests_per_second c)"
    using request.hyps(3) by (auto simp: pace_def split: if_splits)
  have sum: "(\<Sum>k = i..<j. ?f (rs @ [(t, cost)]) k) = (\<Sum>k = i..<j. ?f rs k)" if "j \<le> length rs" for i j
    using that by (intro sum.cong) (auto simp: nth_append)
  have all: "fst (rs ! i) + (\<Sum>k = i..<length rs. ?f rs k) \<le> t" if "i < length rs" for i
    using request.IH b(1) that by fastforce
  show ?case
  proof (intro conjI allI impI)
    fix i assume i: "i < length (rs @ [(t, cost)])"
    show "bg_next_request b \<le> fst ((rs @ [(t, cost)]) ! i)" using request.IH b i by (auto simp: nth_append)
    show "fst ((rs @ [(t, cost)]) ! i) + (\<Sum>k = i..<length (rs @ [(t, cost)]). ?f (rs @ [(t, cost)]) k) \<le> bg_next_request b''"
    proof (cases "i < length rs")
      case True
      then show ?thesis using all [of i] sum [of "length rs" i] b(2) by (simp add: nth_append)
    next
      case False
      then have "i = length rs" using i by simp
      then show ?thesis using b(2) by simp
    qed
  next
    show "bg_next_request b \<le> bg_next_request b''" using request.IH b by simp
  next
    fix j i assume j: "j < length (rs @ [(t, cost)])" "i \<le> j"
    show "fst ((rs @ [(t, cost)]) ! i) + (\<Sum>k = i..<j. ?f (rs @ [(t, cost)]) k) \<le> fst ((rs @ [(t, cost)]) ! j)"
    proof (cases "j < length rs")
      case True
      then show ?thesis using request.IH j sum [of j i] by (simp add: nth_append)
    next
      case False
      then have "j = length rs" using j by simp
      then show ?thesis using all [of i] sum [of j i] j by (cases "i = j") (auto simp: nth_append)
    qed
  qed
qed (auto simp: cooldown_def backoff_def Let_def intro: le_trans max.coboundedI1)

subsection \<open>One operation\<close>

definition is_read_method :: "string \<Rightarrow> bool" where
  "is_read_method m \<longleftrightarrow> m \<in> {''eth_call'', ''eth_estimateGas'', ''eth_chainId'', ''eth_blockNumber'', ''eth_gasPrice'',
     ''eth_maxPriorityFeePerGas'', ''eth_feeHistory'', ''net_version'', ''eth_getBlockByNumber'', ''eth_getBlockByHash'',
     ''eth_getTransactionByHash'', ''eth_getTransactionReceipt'', ''eth_getTransactionCount'', ''eth_getLogs'',
     ''eth_getBalance'', ''eth_getCode'', ''eth_getStorageAt'', ''eth_getProof'', ''eth_getBlockReceipts''}"

record request_packet =
  rq_methods :: "string list"
  rq_body :: bytes

record response_packet =
  rs_errors :: "rpc_response_error list"
  rs_body :: bytes

text \<open>
  What comes back from a POST: no answer, an answer whose body cannot be read, or a status, a body and what it parses to;
  an answer may have a \<open>Retry-After\<close> header with a number of seconds or a date.
\<close>

datatype post_answer =
    No_Answer reqwest_error
  | Unreadable "string option" reqwest_error
  | Answer u16 "string option" bytes "response_packet option"

definition retry_after :: "(string \<Rightarrow> u64 option) \<Rightarrow> (string \<Rightarrow> int option) \<Rightarrow> int \<Rightarrow> string \<Rightarrow> nat option" where
  "retry_after parse_u64 parse_rfc2822 now s =
     (case parse_u64 s of
        Some seconds \<Rightarrow> Some (min (unat seconds) 86400 * 10 ^ 9)
      | None \<Rightarrow> (case parse_rfc2822 s of
          None \<Rightarrow> None
        | Some t \<Rightarrow> if t < now then None else Some (min (nat (t - now)) (86400 * 10 ^ 9))))"

definition is_success :: "u16 \<Rightarrow> bool" where
  "is_success s \<longleftrightarrow> 200 \<le> s \<and> s < 300"

definition rpc_hint :: "response_packet \<Rightarrow> nat option" where
  "rpc_hint p =
     (let delays = List.map_filter (\<lambda>e. case rr_backoff e of
          Some d \<Rightarrow> if 0 \<le> d \<and> d \<le> 86400 * 10 ^ 9 then Some (nat d) else None | None \<Rightarrow> None) (rs_errors p)
      in if delays = [] then None else Some (foldr max delays 0))"

definition read_answer ::
  "(string \<Rightarrow> nat option) \<Rightarrow> post_answer \<Rightarrow> (transport_error + response_packet) \<times> bool \<times> nat option" where
  "read_answer retry a =
     (case a of
        No_Answer e \<Rightarrow> (Inl (Connection_Error e), transient_reqwest e, None)
      | Unreadable hint e \<Rightarrow> (Inl (Connection_Error e), True, Option.bind hint retry)
      | Answer status hint body parsed \<Rightarrow>
          if \<not> is_success status then (Inl (Http_Error status body), transient_http_status status, Option.bind hint retry)
          else (case parsed of
              None \<Rightarrow> (Inl (Deserialization_Error body), False, Option.bind hint retry)
            | Some p \<Rightarrow> (Inr p, list_ex (\<lambda>e. transient_rpc_error (rr_code e) (rr_message e)) (rs_errors p),
                case Option.bind hint retry of Some h \<Rightarrow> Some h | None \<Rightarrow> rpc_hint p)))"

text \<open>
  What one operation does to the budget and the network, in order.  An exchange gives for every attempt the budget when it
  ends, which other operations share, and the answer.
\<close>

datatype effect = Post request_packet | Cool nat

record exchange =
  ex_answer :: post_answer
  ex_retry :: "string \<Rightarrow> nat option"
  ex_budget :: rpc_budget

definition packet_cost :: "request_packet \<Rightarrow> u32" where
  "packet_cost r = max 1 (if length (rq_methods r) < 2 ^ 32 then word_of_nat (length (rq_methods r)) else - 1)"

definition read_only :: "request_packet \<Rightarrow> bool" where
  "read_only r = list_all is_read_method (rq_methods r)"

fun execute_from ::
  "float_durations \<Rightarrow> rpc_config \<Rightarrow> (nat \<Rightarrow> exchange) \<Rightarrow> request_packet \<Rightarrow> nat \<Rightarrow> nat \<Rightarrow>
   (transport_error + response_packet) \<times> effect list" where
  "execute_from F c x request attempt remaining =
     (let (result, transient, hint) = read_answer (ex_retry (x attempt)) (ex_answer (x attempt));
          delay = (case hint of Some h \<Rightarrow> h | None \<Rightarrow> fst (backoff F c (word_of_nat attempt) (ex_budget (x attempt))));
          effects = Post request # (if transient then [Cool delay] else []) in
      if \<not> transient \<or> \<not> read_only request then (result, effects)
      else case remaining of
        0 \<Rightarrow> (Inl (Rpc_Unavailable (case result of
            Inl e \<Rightarrow> Some e
          | Inr p \<Rightarrow> (case rs_errors p of [] \<Rightarrow> None | e # _ \<Rightarrow> Some (Error_Response e)))), effects)
      | Suc n \<Rightarrow> (let (r, more_effects) = execute_from F c x request (attempt + 1) n in (r, effects @ more_effects)))"

definition execute_request ::
  "float_durations \<Rightarrow> rpc_config \<Rightarrow> (nat \<Rightarrow> exchange) \<Rightarrow> request_packet \<Rightarrow> (transport_error + response_packet) \<times> effect list" where
  "execute_request F c x request = execute_from F c x request 0 (unat (rc_max_retries c))"

text \<open>The whole call, which the operation timeout may cut short after any of its effects.\<close>

definition rpc_call ::
  "float_durations \<Rightarrow> rpc_config \<Rightarrow> (nat \<Rightarrow> exchange) \<Rightarrow> nat option \<Rightarrow> request_packet \<Rightarrow>
   (transport_error + response_packet) \<times> effect list" where
  "rpc_call F c x timeout_after request =
     (let (result, effects) = execute_request F c x request in
      case timeout_after of None \<Rightarrow> (result, effects) | Some n \<Rightarrow> (Inl (Rpc_Unavailable None), take n effects))"

subsection \<open>Retries\<close>

definition posts :: "effect list \<Rightarrow> request_packet list" where
  "posts effects = List.map_filter (\<lambda>e. case e of Post r \<Rightarrow> Some r | Cool _ \<Rightarrow> None) effects"

lemma posts_simps [simp]: "posts [] = []" "posts (Post r # es) = r # posts es" "posts (Cool d # es) = posts es"
  "posts (es @ fs) = posts es @ posts fs"
  by (simp_all add: posts_def map_filter_simps) (simp add: List.map_filter_def)

definition transient_answer :: "exchange \<Rightarrow> bool" where
  "transient_answer e = fst (snd (read_answer (ex_retry e) (ex_answer e)))"

definition answer_result :: "exchange \<Rightarrow> transport_error + response_packet" where
  "answer_result e = fst (read_answer (ex_retry e) (ex_answer e))"

definition gave_up :: "exchange \<Rightarrow> transport_error" where
  "gave_up e = Rpc_Unavailable (case answer_result e of
     Inl e \<Rightarrow> Some e | Inr p \<Rightarrow> (case rs_errors p of [] \<Rightarrow> None | e # _ \<Rightarrow> Some (Error_Response e)))"

declare execute_from.simps [simp del]

lemma execute_final:
  assumes "\<not> transient_answer (x k) \<or> \<not> read_only request"
  shows "fst (execute_from F c x request k n) = answer_result (x k)" "posts (snd (execute_from F c x request k n)) = [request]"
  using assms
  by (simp_all add: execute_from.simps [of F c x request k n] transient_answer_def answer_result_def split_beta Let_def)

lemma execute_exhausted:
  assumes "transient_answer (x k)" "read_only request"
  shows "fst (execute_from F c x request k 0) = Inl (gave_up (x k))" "posts (snd (execute_from F c x request k 0)) = [request]"
  using assms
  by (simp_all add: execute_from.simps [of F c x request k 0] transient_answer_def answer_result_def gave_up_def split_beta Let_def)

lemma execute_again:
  assumes "transient_answer (x k)" "read_only request"
  shows "fst (execute_from F c x request k (Suc n)) = fst (execute_from F c x request (k + 1) n)"
    "posts (snd (execute_from F c x request k (Suc n))) = request # posts (snd (execute_from F c x request (k + 1) n))"
  using assms
  by (simp_all add: execute_from.simps [of F c x request k "Suc n"] transient_answer_def split_beta Let_def)

text \<open>A read stops at the first answer that is not transient, or gives up after the last attempt.\<close>

lemma execute_read:
  assumes "read_only request"
  shows "\<exists>j \<le> n. posts (snd (execute_from F c x request k n)) = replicate (Suc j) request \<and> (\<forall>i < j. transient_answer (x (k + i))) \<and>
    (if transient_answer (x (k + j)) then j = n \<and> fst (execute_from F c x request k n) = Inl (gave_up (x (k + j)))
     else fst (execute_from F c x request k n) = answer_result (x (k + j)))"
proof (induction n arbitrary: k)
  case 0
  then show ?case using execute_final [of x k request F c 0] execute_exhausted [of x k request F c] assms by simp
next
  case (Suc n)
  show ?case
  proof (cases "transient_answer (x k)")
    case True
    note again = execute_again [of x k request F c n, OF True assms]
    obtain j where j: "j \<le> n" "posts (snd (execute_from F c x request (k + 1) n)) = replicate (Suc j) request"
      "\<forall>i < j. transient_answer (x (k + 1 + i))"
      "if transient_answer (x (k + 1 + j)) then j = n \<and> fst (execute_from F c x request (k + 1) n) = Inl (gave_up (x (k + 1 + j)))
       else fst (execute_from F c x request (k + 1) n) = answer_result (x (k + 1 + j))"
      using Suc.IH [of "k + 1"] by blast
    have "transient_answer (x (k + i))" if "i < Suc j" for i
      using that j(3) True by (cases i) auto
    then show ?thesis using j again by (intro exI [of _ "Suc j"]) auto
  next
    case False
    then show ?thesis using execute_final [of x k request F c "Suc n"] by (intro exI [of _ 0]) simp
  qed
qed

lemma posts_take: "\<exists>m. posts (take n es) = take m (posts es)"
proof (induction es arbitrary: n)
  case (Cons e es)
  show ?case
  proof (cases n)
    case (Suc n')
    obtain m where "posts (take n' es) = take m (posts es)" using Cons.IH by blast
    then show ?thesis using Suc by (cases e) (auto intro: exI [of _ "Suc m"] exI [of _ m])
  qed (auto intro: exI [of _ 0])
qed simp

lemma call_posts:
  "\<exists>k. posts (snd (rpc_call F c x timeout_after request)) = replicate k request \<and> (\<not> read_only request \<longrightarrow> k \<le> 1)"
proof -
  have "\<exists>k. posts (snd (execute_request F c x request)) = replicate k request \<and> (\<not> read_only request \<longrightarrow> k \<le> 1)"
  proof (cases "read_only request")
    case True
    obtain j where "posts (snd (execute_request F c x request)) = replicate (Suc j) request"
      using execute_read [OF True, of "unat (rc_max_retries c)" F c x 0] unfolding execute_request_def by blast
    then show ?thesis using True by blast
  next
    case False
    then have "posts (snd (execute_request F c x request)) = replicate 1 request"
      using execute_final(2) [of x 0 request F c] by (simp add: execute_request_def)
    then show ?thesis by blast
  qed
  then obtain k where k: "posts (snd (execute_request F c x request)) = replicate k request" "\<not> read_only request \<longrightarrow> k \<le> 1" by blast
  show ?thesis
  proof (cases timeout_after)
    case None
    then show ?thesis using k by (auto simp: rpc_call_def split_beta)
  next
    case (Some n)
    obtain m where "posts (take n (snd (execute_request F c x request))) = take m (replicate k request)"
      using posts_take [of n "snd (execute_request F c x request)"] k(1) by auto
    then show ?thesis using k(2) Some by (intro exI [of _ "min m k"]) (auto simp: rpc_call_def split_beta take_replicate)
  qed
qed

subsection \<open>Properties\<close>

text \<open>
  C13: A transaction is never sent twice by the transport.  A request that contains a method which is not a read is posted
  exactly once, whatever comes back, and its answer is returned as it is; the timeout of the operation never adds a post.
  A read is posted again only after a transient answer and at most as often as configured: the result is the first
  answer that is not transient, or the error that says that the node is unavailable, with the last cause.
\<close>

theorem sends_posted_once:
  fixes F c x request
  defines "run \<equiv> execute_request F c x request" and "n \<equiv> unat (rc_max_retries c)"
  shows "(\<not> read_only request \<longrightarrow> run = (answer_result (x 0), snd run) \<and> posts (snd run) = [request]) \<and>
    (read_only request \<longrightarrow> (\<exists>j \<le> n. posts (snd run) = replicate (Suc j) request \<and> (\<forall>i < j. transient_answer (x i)) \<and>
       fst run = (if transient_answer (x j) then Inl (gave_up (x j)) else answer_result (x j)) \<and> (transient_answer (x j) \<longrightarrow> j = n))) \<and>
    (\<exists>k. posts (snd (rpc_call F c x timeout_after request)) = take k (posts (snd run)))"
proof (intro conjI impI)
  assume "\<not> read_only request"
  then show "run = (answer_result (x 0), snd run)" "posts (snd run) = [request]"
    using execute_final [of x 0 request F c] by (simp_all add: run_def execute_request_def prod_eq_iff)
next
  assume "read_only request"
  then show "\<exists>j \<le> n. posts (snd run) = replicate (Suc j) request \<and> (\<forall>i < j. transient_answer (x i)) \<and>
      fst run = (if transient_answer (x j) then Inl (gave_up (x j)) else answer_result (x j)) \<and> (transient_answer (x j) \<longrightarrow> j = n)"
    using execute_read [of request n F c x 0] by (auto simp: run_def execute_request_def n_def split: if_splits)
next
  show "\<exists>k. posts (snd (rpc_call F c x timeout_after request)) = take k (posts (snd run))"
    using posts_take [of _ "snd run"]
    by (cases timeout_after) (auto simp: rpc_call_def run_def split_beta intro: exI [of _ "length (posts (snd (execute_request F c x request)))"])
qed

text \<open>A read that is answered at the second attempt, and a raw transaction that is not sent again.\<close>

definition sample_rpc_config :: rpc_config where
  "sample_rpc_config = \<lparr>rc_requests_per_second = 8, rc_max_concurrent = 4, rc_max_retries = 5, rc_initial_backoff = 500 * 10 ^ 6,
     rc_max_backoff = 10 ^ 10, rc_request_timeout = 30 * 10 ^ 9, rc_operation_timeout = 90 * 10 ^ 9\<rparr>"

definition sample_floats :: float_durations where
  "sample_floats = \<lparr>fd_interval = (\<lambda>cost rps. unat cost * 10 ^ 9 div unat rps), fd_mul_half = (\<lambda>c m. c * unat m div 2 ^ 65)\<rparr>"

definition busy_once :: "nat \<Rightarrow> exchange" where
  "busy_once k = \<lparr>ex_answer = (if k = 0 then Answer 503 None [] None else Answer 200 None [] (Some \<lparr>rs_errors = [], rs_body = []\<rparr>)),
     ex_retry = (\<lambda>_. None), ex_budget = \<lparr>bg_next_request = 0, bg_jitter = 0\<rparr>\<rparr>"

theorem sends_posted_once_witness:
  "posts (snd (execute_request sample_floats sample_rpc_config busy_once \<lparr>rq_methods = [''eth_sendRawTransaction''], rq_body = []\<rparr>)) =
     [\<lparr>rq_methods = [''eth_sendRawTransaction''], rq_body = []\<rparr>] \<and>
   fst (execute_request sample_floats sample_rpc_config busy_once \<lparr>rq_methods = [''eth_call''], rq_body = []\<rparr>) =
     Inr \<lparr>rs_errors = [], rs_body = []\<rparr>"
proof -
  let ?send = "\<lparr>rq_methods = [''eth_sendRawTransaction''], rq_body = []\<rparr>" and ?read = "\<lparr>rq_methods = [''eth_call''], rq_body = []\<rparr>"
  have k: "\<not> read_only ?send" "read_only ?read" by (simp_all add: read_only_def is_read_method_def)
  have a: "transient_answer (busy_once i) \<longleftrightarrow> i = 0" for i
    by (simp add: transient_answer_def busy_once_def read_answer_def is_success_def transient_http_status_def)
  have r: "answer_result (busy_once (Suc i)) = Inr \<lparr>rs_errors = [], rs_body = []\<rparr>" for i
    by (simp add: answer_result_def busy_once_def read_answer_def is_success_def)
  have n: "unat (rc_max_retries sample_rpc_config) = 5" by (simp add: sample_rpc_config_def)
  have "posts (snd (execute_request sample_floats sample_rpc_config busy_once ?send)) = [?send]"
    using sends_posted_once [of ?send sample_floats sample_rpc_config busy_once None] k by simp
  moreover obtain j where "fst (execute_request sample_floats sample_rpc_config busy_once ?read) =
      (if transient_answer (busy_once j) then Inl (gave_up (busy_once j)) else answer_result (busy_once j))"
      "transient_answer (busy_once j) \<longrightarrow> j = 5"
    using sends_posted_once [of ?read sample_floats sample_rpc_config busy_once None] k n by auto
  ultimately show ?thesis using a r by (cases j) auto
qed

text \<open>
  The clones of one transport keep the rate.  However the turns of their loops interleave, and whatever cooldowns come
  between, two requests are as far apart as the intervals of the first one and of all between them, and no request is
  let through while a cooldown lasts.
\<close>

lemma requests_keep_rate:
  assumes "paced F c b rs now b'" "i \<le> j" "j < length rs"
  shows "fst (rs ! i) + (\<Sum>k = i..<j. fd_interval F (snd (rs ! k)) (rc_requests_per_second c)) \<le> fst (rs ! j) \<and>
    (b = cooldown delay t b\<^sub>0 \<longrightarrow> t + delay \<le> fst (rs ! i))"
  using paced_spaced [OF assms(1)] assms(2,3) by (auto simp: cooldown_def)

end
