(* ===== verification/Event_Logs.thy ===== *)
theory Event_Logs
  imports Deposit_Batch Archive_Leaves
begin

text \<open>
  The event readers of \<open>api/src/ethereum.rs\<close>: how the logs of a block become the deposits, settlements, batches, claims
  and transitions that the indexer stores.  A deposit of an ERC-20 token is spread over up to three events that are joined
  by transaction and nonce.  The ABI decoders and the signature hashes of the events are parameters.
\<close>

subsection \<open>Logs and decoded events\<close>

record eth_log =
  lg_topics :: "bytes list"
  lg_data :: bytes
  lg_block_number :: "u64 option"
  lg_block_hash :: "bytes option"
  lg_transaction_hash :: "bytes option"
  lg_log_index :: "u64 option"

definition topic0 :: "eth_log \<Rightarrow> bytes option" where
  "topic0 l = (case lg_topics l of [] \<Rightarrow> None | t # _ \<Rightarrow> Some t)"

record bridge_deposit_event =
  be_nonce :: u64
  be_deposit_leaf :: bytes
  be_new_deposit_state :: bytes
  be_old_deposit_state :: bytes
  be_token :: bytes
  be_sender :: bytes
  be_zeko_recipient :: u256
  be_amount :: u256
  be_zeko_amount :: u256
  be_timeout :: u64

record erc20_deposit_event =
  ee_nonce :: u64
  ee_asset_id :: bytes
  ee_deposit_leaf :: bytes
  ee_new_deposit_state :: bytes
  ee_token :: bytes
  ee_sender :: bytes
  ee_zeko_recipient :: u256
  ee_amount :: u64
  ee_timeout :: u64

record erc20_deposit_event_v2 = erc20_deposit_event +
  ee_encoding_version :: u32
  ee_registry_index :: u32
  ee_record_commitment :: bytes

text \<open>The hashes of the event signatures, and \<open>log_decode_validate\<close> for each event.\<close>

record deposit_abi =
  sig_bridge_deposit :: bytes
  sig_erc20_deposit :: bytes
  sig_erc20_deposit_v2 :: bytes
  decode_bridge_deposit :: "eth_log \<Rightarrow> bridge_deposit_event option"
  decode_erc20_deposit :: "eth_log \<Rightarrow> erc20_deposit_event option"
  decode_erc20_deposit_v2 :: "eth_log \<Rightarrow> erc20_deposit_event_v2 option"

subsection \<open>Bridge deposits\<close>

record erc20_registry_identity =
  ri_registry_index :: u32
  ri_record_commitment :: bytes

record erc20_deposit_metadata =
  em_asset_id :: bytes
  em_deposit_leaf :: bytes
  em_new_deposit_state :: bytes
  em_token :: bytes
  em_sender :: bytes
  em_zeko_recipient :: bytes
  em_amount :: u64
  em_timeout :: u64
  em_registry_identity :: "erc20_registry_identity option"

definition classify_erc20_deposit_identity :: "bytes \<Rightarrow> erc20_registry_identity option \<Rightarrow> erc20_deposit_identity" where
  "classify_erc20_deposit_identity asset_id identity =
     (case identity of None \<Rightarrow> Historical_V1 asset_id
      | Some r \<Rightarrow> Registry_V2 asset_id (ri_registry_index r) (ri_record_commitment r))"

type_synonym deposit_key = "bytes \<times> u64"
type_synonym deposit_metadata = "(deposit_key \<times> erc20_deposit_metadata) list"

text \<open>The logs by their first topic.\<close>

fun split_deposit_logs :: "deposit_abi \<Rightarrow> eth_log list \<Rightarrow> failure + eth_log list \<times> eth_log list \<times> eth_log list" where
  "split_deposit_logs A [] = Inr ([], [], [])"
| "split_deposit_logs A (l # ls) =
     (case topic0 l of
        None \<Rightarrow> Inl (plain_failure ''bridge deposit event is missing topic zero'')
      | Some s \<Rightarrow>
          ensure (s \<in> {sig_bridge_deposit A, sig_erc20_deposit A, sig_erc20_deposit_v2 A})
            (plain_failure ''unexpected bridge deposit event'') (
          and_then (split_deposit_logs A ls) (\<lambda>(bridge, erc20, v2). Inr (
            if s = sig_bridge_deposit A then (l # bridge, erc20, v2)
            else if s = sig_erc20_deposit A then (bridge, l # erc20, v2)
            else (bridge, erc20, l # v2)))))"

definition metadata_of :: "erc20_deposit_event \<Rightarrow> erc20_deposit_metadata" where
  "metadata_of e =
     \<lparr>em_asset_id = ee_asset_id e, em_deposit_leaf = ee_deposit_leaf e, em_new_deposit_state = ee_new_deposit_state e,
      em_token = ee_token e, em_sender = ee_sender e, em_zeko_recipient = u256_to_be (ee_zeko_recipient e),
      em_amount = ee_amount e, em_timeout = ee_timeout e, em_registry_identity = None\<rparr>"

fun add_erc20_logs :: "deposit_abi \<Rightarrow> eth_log list \<Rightarrow> deposit_metadata \<Rightarrow> failure + deposit_metadata" where
  "add_erc20_logs A [] m = Inr m"
| "add_erc20_logs A (l # ls) m =
     and_then (expect (decode_erc20_deposit A l) (plain_failure ''decode ERC20DepositSubmitted log'')) (\<lambda>e.
     and_then (expect (lg_transaction_hash l) (plain_failure ''ERC20DepositSubmitted log missing transaction hash'')) (\<lambda>h.
     ensure (\<not> all_zero (ee_asset_id e)) (plain_failure ''ERC20 deposit asset identity is zero'') (
     ensure (map_of m (h, ee_nonce e) = None) (plain_failure ''duplicate ERC20 deposit identity event'')
       (add_erc20_logs A ls (m @ [((h, ee_nonce e), metadata_of e)])))))"

text \<open>The base event of a registry deposit, and its entry with the registry identity.\<close>

definition base_event :: "erc20_deposit_event_v2 \<Rightarrow> erc20_deposit_event" where
  "base_event e =
     \<lparr>ee_nonce = ee_nonce e, ee_asset_id = ee_asset_id e, ee_deposit_leaf = ee_deposit_leaf e,
      ee_new_deposit_state = ee_new_deposit_state e, ee_token = ee_token e, ee_sender = ee_sender e,
      ee_zeko_recipient = ee_zeko_recipient e, ee_amount = ee_amount e, ee_timeout = ee_timeout e\<rparr>"

definition put_registry_identity :: "deposit_key \<Rightarrow> erc20_registry_identity \<Rightarrow> deposit_metadata \<Rightarrow> deposit_metadata" where
  "put_registry_identity k r = map (\<lambda>(k', i). (k', if k' = k then i\<lparr>em_registry_identity := Some r\<rparr> else i))"

fun add_erc20_v2_logs :: "deposit_abi \<Rightarrow> eth_log list \<Rightarrow> deposit_metadata \<Rightarrow> failure + deposit_metadata" where
  "add_erc20_v2_logs A [] m = Inr m"
| "add_erc20_v2_logs A (l # ls) m =
     and_then (expect (decode_erc20_deposit_v2 A l) (plain_failure ''decode ERC20DepositSubmittedV2 log'')) (\<lambda>e.
     and_then (expect (lg_transaction_hash l) (plain_failure ''ERC20DepositSubmittedV2 log missing transaction hash'')) (\<lambda>h.
     ensure (ee_encoding_version e = ERC20_ACTION_ENCODING_V2)
       (plain_failure ''ERC20 deposit has an unsupported action encoding'') (
     ensure (\<not> all_zero (ee_record_commitment e)) (plain_failure ''ERC20 deposit record commitment is zero'') (
     and_then (expect (map_of m (h, ee_nonce e))
       (plain_failure ''registry ERC20 deposit is missing its base identity event'')) (\<lambda>identity.
     ensure (identity\<lparr>em_registry_identity := None\<rparr> = metadata_of (base_event e))
       (plain_failure ''registry ERC20 deposit identity events disagree'') (
     ensure (em_registry_identity identity = None) (plain_failure ''duplicate registry ERC20 deposit identity event'')
       (add_erc20_v2_logs A ls (put_registry_identity (h, ee_nonce e)
         \<lparr>ri_registry_index = ee_registry_index e, ri_record_commitment = ee_record_commitment e\<rparr> m))))))))"

text \<open>The identity event and the deposit event of an ERC-20 deposit.\<close>

definition events_agree :: "erc20_deposit_metadata \<Rightarrow> bridge_deposit_event \<Rightarrow> bool" where
  "events_agree i e \<longleftrightarrow>
     em_deposit_leaf i = be_deposit_leaf e \<and> em_new_deposit_state i = be_new_deposit_state e \<and> em_token i = be_token e \<and>
     em_sender i = be_sender e \<and> em_zeko_recipient i = u256_to_be (be_zeko_recipient e) \<and>
     ucast (em_amount i) = be_amount e \<and> be_amount e = be_zeko_amount e \<and> em_timeout i = be_timeout e"

definition deposit_identity ::
  "erc20_deposit_metadata option \<Rightarrow> bridge_deposit_event \<Rightarrow> failure + erc20_deposit_identity option" where
  "deposit_identity identity e =
     (if all_zero (be_token e)
      then ensure (identity = None) (plain_failure ''native deposit has an ERC20 identity event'') (Inr None)
      else and_then (expect identity (plain_failure ''ERC20 deposit is missing its immutable identity event'')) (\<lambda>i.
        ensure (events_agree i e) (plain_failure ''BridgeDeposit and ERC20 identity events disagree'')
          (Inr (Some (classify_erc20_deposit_identity (em_asset_id i) (em_registry_identity i))))))"

fun join_deposit_logs ::
  "deposit_abi \<Rightarrow> eth_log list \<Rightarrow> deposit_metadata \<Rightarrow> failure + bridge_deposit_log list \<times> deposit_metadata" where
  "join_deposit_logs A [] m = Inr ([], m)"
| "join_deposit_logs A (l # ls) m =
     and_then (expect (decode_bridge_deposit A l) (plain_failure ''decode BridgeDeposit log'')) (\<lambda>e.
     and_then (expect (lg_transaction_hash l) (plain_failure ''BridgeDeposit log missing transaction hash'')) (\<lambda>h.
     let k = (h, be_nonce e) in
     and_then (deposit_identity (map_of m k) e) (\<lambda>identity.
     and_then (expect (lg_block_number l) (plain_failure ''BridgeDeposit log missing block number'')) (\<lambda>number.
     and_then (expect (lg_block_hash l) (plain_failure ''BridgeDeposit log missing block hash'')) (\<lambda>block.
     and_then (expect (lg_log_index l) (plain_failure ''BridgeDeposit log missing log index'')) (\<lambda>index.
     and_then (join_deposit_logs A ls (filter (\<lambda>(k', _). k' \<noteq> k) m)) (\<lambda>(ds, rest).
     Inr (\<lparr>dl_nonce = be_nonce e, dl_deposit_leaf = be_deposit_leaf e, dl_old_deposit_state = be_old_deposit_state e,
       dl_new_deposit_state = be_new_deposit_state e, dl_token = be_token e, dl_sender = be_sender e,
       dl_zeko_recipient = u256_to_be (be_zeko_recipient e), dl_amount = unat (be_amount e),
       dl_zeko_amount = unat (be_zeko_amount e), dl_timeout = be_timeout e, dl_erc20_identity = identity,
       dl_block_number = number, dl_block_hash = block, dl_transaction_hash = h, dl_log_index = index\<rparr> # ds, rest))))))))"

definition bridge_deposit_logs :: "deposit_abi \<Rightarrow> failure + eth_log list \<Rightarrow> failure + bridge_deposit_log list" where
  "bridge_deposit_logs A logs =
     and_then logs (\<lambda>logs.
     and_then (split_deposit_logs A logs) (\<lambda>(bridge, erc20, v2).
     and_then (add_erc20_logs A erc20 []) (\<lambda>m.
     and_then (add_erc20_v2_logs A v2 m) (\<lambda>m.
     and_then (join_deposit_logs A bridge m) (\<lambda>(ds, rest).
     ensure (rest = []) (plain_failure ''ERC20 identity event is missing its BridgeDeposit event'') (Inr ds))))))"

subsection \<open>The other events\<close>

record settlement_accepted_event =
  sa_batch_sequence :: u64
  sa_mina_transaction_hash :: bytes
  sa_ledger_hash :: bytes
  sa_outer_action_state :: bytes
  sa_outer_action_state_length :: u32
  sa_inner_action_state :: bytes
  sa_inner_action_state_length :: u32
  sa_slot_lower :: u32
  sa_slot_upper :: u32

record inner_action_batch_event =
  ia_batch_sequence :: u64
  ia_state_after :: bytes
  ia_root :: bytes
  ia_start_index :: u32
  ia_count :: u32
  ia_claimable_slot :: u32

record withdrawal_claimed_event =
  wd_settlement_sequence :: u64
  wd_global_action_index :: u32
  wd_recipient :: bytes
  wd_zeko_amount :: u64
  wd_ethereum_amount :: u256
  wd_action_fields_hash :: bytes

record bridge_transition_fields =
  bf_old_action_state :: bytes
  bf_new_action_state :: bytes
  bf_new_deposit_state :: bytes
  bf_new_deposit_nonce :: u64

text \<open>The legacy transition event has a withdraw state that nothing reads.\<close>

record event_abi =
  sig_transition :: bytes
  sig_legacy_transition :: bytes
  decode_settlement_accepted :: "eth_log \<Rightarrow> settlement_accepted_event option"
  decode_inner_action_batch :: "eth_log \<Rightarrow> inner_action_batch_event option"
  decode_withdrawal_claimed :: "eth_log \<Rightarrow> withdrawal_claimed_event option"
  decode_transition :: "eth_log \<Rightarrow> bridge_transition_fields option"
  decode_legacy_transition :: "eth_log \<Rightarrow> bridge_transition_fields option"

text \<open>Where a log stands: block, block hash, transaction and index, each of which may be missing.\<close>

definition positioned :: "string \<Rightarrow> eth_log \<Rightarrow> failure + u64 \<times> bytes \<times> bytes \<times> u64" where
  "positioned event l =
     and_then (expect (lg_block_number l) (plain_failure (event @ '' log missing block number''))) (\<lambda>number.
     and_then (expect (lg_block_hash l) (plain_failure (event @ '' log missing block hash''))) (\<lambda>block.
     and_then (expect (lg_transaction_hash l) (plain_failure (event @ '' log missing transaction hash''))) (\<lambda>h.
     and_then (expect (lg_log_index l) (plain_failure (event @ '' log missing log index''))) (\<lambda>index.
     Inr (number, block, h, index)))))"

definition settlement_accepted_logs :: "event_abi \<Rightarrow> failure + eth_log list \<Rightarrow> failure + settlement_accepted_log list" where
  "settlement_accepted_logs B logs =
     and_then logs (try_map (\<lambda>l.
       and_then (expect (decode_settlement_accepted B l) (plain_failure ''decode SettlementAccepted log'')) (\<lambda>e.
       and_then (positioned ''SettlementAccepted'' l) (\<lambda>(number, block, h, index).
       Inr \<lparr>sl_batch_sequence = sa_batch_sequence e, sl_mina_transaction_hash = sa_mina_transaction_hash e,
         sl_ledger_hash = sa_ledger_hash e, sl_outer_action_state = sa_outer_action_state e,
         sl_outer_action_state_length = sa_outer_action_state_length e, sl_inner_action_state = sa_inner_action_state e,
         sl_inner_action_state_length = sa_inner_action_state_length e, sl_slot_lower = sa_slot_lower e,
         sl_slot_upper = sa_slot_upper e, sl_block_number = number, sl_block_hash = block, sl_transaction_hash = h,
         sl_log_index = index\<rparr>))))"

definition inner_action_batch_logs :: "event_abi \<Rightarrow> failure + eth_log list \<Rightarrow> failure + inner_action_batch_log list" where
  "inner_action_batch_logs B logs =
     and_then logs (try_map (\<lambda>l.
       and_then (expect (decode_inner_action_batch B l) (plain_failure ''decode InnerActionBatchAccepted log'')) (\<lambda>e.
       and_then (expect (lg_transaction_hash l)
         (plain_failure ''InnerActionBatchAccepted log missing transaction hash'')) (\<lambda>h.
       Inr \<lparr>bl_batch_sequence = ia_batch_sequence e, bl_state_after = ia_state_after e, bl_root = ia_root e,
         bl_start_index = ia_start_index e, bl_count = ia_count e, bl_claimable_slot = ia_claimable_slot e,
         bl_transaction_hash = h\<rparr>))))"

definition native_withdrawal_claimed_logs :: "event_abi \<Rightarrow> failure + eth_log list \<Rightarrow> failure + withdrawal_claimed_log list" where
  "native_withdrawal_claimed_logs B logs =
     and_then logs (try_map (\<lambda>l.
       and_then (expect (decode_withdrawal_claimed B l) (plain_failure ''decode NativeWithdrawalClaimed log'')) (\<lambda>e.
       and_then (positioned ''NativeWithdrawalClaimed'' l) (\<lambda>(number, block, h, index).
       Inr \<lparr>wl_settlement_sequence = wd_settlement_sequence e, wl_global_action_index = wd_global_action_index e,
         wl_recipient = wd_recipient e, wl_zeko_amount = wd_zeko_amount e, wl_ethereum_amount = unat (wd_ethereum_amount e),
         wl_action_fields_hash = wd_action_fields_hash e, wl_block_number = number, wl_block_hash = block,
         wl_transaction_hash = h, wl_log_index = index\<rparr>))))"

definition transition_from_decoded :: "eth_log \<Rightarrow> bridge_transition_fields \<Rightarrow> failure + bridge_transition_log" where
  "transition_from_decoded l f =
     and_then (positioned ''bridge transition'' l) (\<lambda>(number, block, h, index).
     Inr \<lparr>tl_old_action_state = bf_old_action_state f, tl_new_action_state = bf_new_action_state f,
       tl_new_deposit_state = bf_new_deposit_state f, tl_new_deposit_nonce = bf_new_deposit_nonce f,
       tl_block_number = number, tl_block_hash = block, tl_transaction_hash = h, tl_log_index = index\<rparr>)"

definition bridge_transition_accepted_logs :: "event_abi \<Rightarrow> failure + eth_log list \<Rightarrow> failure + bridge_transition_log list" where
  "bridge_transition_accepted_logs B logs =
     and_then logs (try_map (\<lambda>l.
       case topic0 l of
         None \<Rightarrow> Inl (plain_failure ''bridge transition event is missing topic zero'')
       | Some s \<Rightarrow>
           if s = sig_transition B
           then and_then (expect (decode_transition B l) (plain_failure ''decode BridgeTransitionAccepted log''))
             (transition_from_decoded l)
           else if s = sig_legacy_transition B
           then and_then (expect (decode_legacy_transition B l)
             (plain_failure ''decode legacy BridgeTransitionAccepted log'')) (transition_from_decoded l)
           else Inl (plain_failure ''unexpected bridge transition event'')))"

text \<open>The public values of an accepted transaction, from its calldata.\<close>

definition accepted_public_values ::
  "(string \<Rightarrow> bytes option) \<Rightarrow> (bytes \<Rightarrow> failure + bytes option) \<Rightarrow> (proof_kind \<Rightarrow> bytes \<Rightarrow> bytes option) \<Rightarrow>
   proof_kind \<Rightarrow> string \<Rightarrow> failure + bytes" where
  "accepted_public_values parse_b256 transaction_input decode_call kind transaction_hash =
     and_then (expect (parse_b256 transaction_hash) (plain_failure ''invalid Ethereum transaction hash'')) (\<lambda>h.
     and_then (transaction_input h) (\<lambda>t.
     and_then (expect t (plain_failure ''accepted Ethereum transaction is unavailable'')) (\<lambda>input.
     expect (decode_call kind input) (plain_failure (case kind of
         Settlement \<Rightarrow> ''decode accepted settlement transaction calldata''
       | Bridge \<Rightarrow> ''decode accepted bridge transaction calldata'')))))"

subsection \<open>What the contract emits\<close>

text \<open>
  \<open>_recordNativeDeposit\<close> emits one event and \<open>_recordERC20Deposit\<close> three; before the registry it was two.  A deposit is
  readable when it has the shape that the contract gives it.
\<close>

definition deposit_event :: "bridge_deposit_log \<Rightarrow> bridge_deposit_event" where
  "deposit_event d =
     \<lparr>be_nonce = dl_nonce d, be_deposit_leaf = dl_deposit_leaf d, be_new_deposit_state = dl_new_deposit_state d,
      be_old_deposit_state = dl_old_deposit_state d, be_token = dl_token d, be_sender = dl_sender d,
      be_zeko_recipient = u256_from_be (dl_zeko_recipient d), be_amount = word_of_nat (dl_amount d),
      be_zeko_amount = word_of_nat (dl_zeko_amount d), be_timeout = dl_timeout d\<rparr>"

definition identity_event :: "bridge_deposit_log \<Rightarrow> bytes \<Rightarrow> erc20_deposit_event" where
  "identity_event d asset_id =
     \<lparr>ee_nonce = dl_nonce d, ee_asset_id = asset_id, ee_deposit_leaf = dl_deposit_leaf d,
      ee_new_deposit_state = dl_new_deposit_state d, ee_token = dl_token d, ee_sender = dl_sender d,
      ee_zeko_recipient = u256_from_be (dl_zeko_recipient d), ee_amount = word_of_nat (dl_amount d), ee_timeout = dl_timeout d\<rparr>"

definition readable_deposit :: "bridge_deposit_log \<Rightarrow> bool" where
  "readable_deposit d \<longleftrightarrow> length (dl_zeko_recipient d) = 32 \<and> dl_amount d < 2 ^ 256 \<and> dl_zeko_amount d < 2 ^ 256 \<and>
     (all_zero (dl_token d) \<longleftrightarrow> dl_erc20_identity d = None) \<and>
     (dl_erc20_identity d \<noteq> None \<longrightarrow> dl_amount d < 2 ^ 64 \<and> dl_zeko_amount d = dl_amount d) \<and>
     (case dl_erc20_identity d of
        None \<Rightarrow> True
      | Some (Historical_V1 asset_id) \<Rightarrow> \<not> all_zero asset_id
      | Some (Registry_V2 asset_id _ commitment) \<Rightarrow> \<not> all_zero asset_id \<and> \<not> all_zero commitment)"

definition bridge_log :: "deposit_abi \<Rightarrow> bridge_deposit_log \<Rightarrow> eth_log \<Rightarrow> bool" where
  "bridge_log A d l \<longleftrightarrow> topic0 l = Some (sig_bridge_deposit A) \<and> decode_bridge_deposit A l = Some (deposit_event d) \<and>
     lg_block_number l = Some (dl_block_number d) \<and> lg_block_hash l = Some (dl_block_hash d) \<and>
     lg_transaction_hash l = Some (dl_transaction_hash d) \<and> lg_log_index l = Some (dl_log_index d)"

definition identity_log :: "deposit_abi \<Rightarrow> bridge_deposit_log \<Rightarrow> bytes \<Rightarrow> eth_log \<Rightarrow> bool" where
  "identity_log A d asset_id l \<longleftrightarrow> topic0 l = Some (sig_erc20_deposit A) \<and>
     decode_erc20_deposit A l = Some (identity_event d asset_id) \<and> lg_transaction_hash l = Some (dl_transaction_hash d)"

definition registry_log :: "deposit_abi \<Rightarrow> bridge_deposit_log \<Rightarrow> bytes \<Rightarrow> u32 \<Rightarrow> bytes \<Rightarrow> eth_log \<Rightarrow> bool" where
  "registry_log A d asset_id index commitment l \<longleftrightarrow> topic0 l = Some (sig_erc20_deposit_v2 A) \<and>
     lg_transaction_hash l = Some (dl_transaction_hash d) \<and>
     (\<exists>e. decode_erc20_deposit_v2 A l = Some e \<and> base_event e = identity_event d asset_id \<and>
        ee_encoding_version e = ERC20_ACTION_ENCODING_V2 \<and> ee_registry_index e = index \<and> ee_record_commitment e = commitment)"

definition emitted :: "deposit_abi \<Rightarrow> bridge_deposit_log \<Rightarrow> eth_log list \<Rightarrow> bool" where
  "emitted A d ls \<longleftrightarrow>
     (case dl_erc20_identity d of
        None \<Rightarrow> (\<exists>b. ls = [b] \<and> bridge_log A d b)
      | Some (Historical_V1 asset_id) \<Rightarrow> (\<exists>b e. ls = [b, e] \<and> bridge_log A d b \<and> identity_log A d asset_id e)
      | Some (Registry_V2 asset_id index commitment) \<Rightarrow>
          (\<exists>b e r. ls = [b, e, r] \<and> bridge_log A d b \<and> identity_log A d asset_id e \<and>
             registry_log A d asset_id index commitment r))"

definition deposit_key_of :: "bridge_deposit_log \<Rightarrow> deposit_key" where
  "deposit_key_of d = (dl_transaction_hash d, dl_nonce d)"

subsection \<open>Reading back what was emitted\<close>

definition signatures_differ :: "deposit_abi \<Rightarrow> bool" where
  "signatures_differ A \<longleftrightarrow> distinct [sig_bridge_deposit A, sig_erc20_deposit A, sig_erc20_deposit_v2 A]"

definition is_erc20 :: "bridge_deposit_log \<Rightarrow> bool" where
  "is_erc20 d \<longleftrightarrow> dl_erc20_identity d \<noteq> None"

definition asset_of :: "bridge_deposit_log \<Rightarrow> bytes" where
  "asset_of d = (case dl_erc20_identity d of Some i \<Rightarrow> identity_asset_id i | None \<Rightarrow> [])"

definition registry_of :: "bridge_deposit_log \<Rightarrow> erc20_registry_identity option" where
  "registry_of d = (case dl_erc20_identity d of
     Some (Registry_V2 _ index commitment) \<Rightarrow> Some \<lparr>ri_registry_index = index, ri_record_commitment = commitment\<rparr> | _ \<Rightarrow> None)"

definition base_entry :: "bridge_deposit_log \<Rightarrow> deposit_key \<times> erc20_deposit_metadata" where
  "base_entry d = (deposit_key_of d, metadata_of (identity_event d (asset_of d)))"

definition full_entry :: "bridge_deposit_log \<Rightarrow> deposit_key \<times> erc20_deposit_metadata" where
  "full_entry d = (deposit_key_of d, (snd (base_entry d))\<lparr>em_registry_identity := registry_of d\<rparr>)"

lemma fst_entry [simp]: "fst (base_entry d) = deposit_key_of d" "fst (full_entry d) = deposit_key_of d"
  by (simp_all add: base_entry_def full_entry_def)

lemma map_fst_entry [simp]: "map fst (map base_entry ds) = map deposit_key_of ds" "map fst (map full_entry ds) = map deposit_key_of ds"
  by simp_all

lemma emitted_cases:
  assumes "emitted A d ls"
  obtains b where "dl_erc20_identity d = None" "ls = [b]" "bridge_log A d b"
  | b e where "is_erc20 d" "registry_of d = None" "ls = [b, e]" "bridge_log A d b" "identity_log A d (asset_of d) e"
  | b e r i where "is_erc20 d" "registry_of d = Some i" "ls = [b, e, r]" "bridge_log A d b" "identity_log A d (asset_of d) e"
      "registry_log A d (asset_of d) (ri_registry_index i) (ri_record_commitment i) r"
  using assms
  by (auto simp: emitted_def is_erc20_def registry_of_def asset_of_def identity_asset_id_def
      split: option.splits erc20_deposit_identity.splits)

definition registry_log_of :: "deposit_abi \<Rightarrow> bridge_deposit_log \<Rightarrow> eth_log \<Rightarrow> bool" where
  "registry_log_of A d l \<longleftrightarrow>
     (case registry_of d of None \<Rightarrow> False
      | Some i \<Rightarrow> registry_log A d (asset_of d) (ri_registry_index i) (ri_record_commitment i) l)"

lemma signatures:
  assumes "signatures_differ A"
  shows "sig_erc20_deposit A \<noteq> sig_bridge_deposit A" "sig_erc20_deposit_v2 A \<noteq> sig_bridge_deposit A"
    "sig_erc20_deposit_v2 A \<noteq> sig_erc20_deposit A"
  using assms by (auto simp: signatures_differ_def)

lemma split_emitted:
  assumes "signatures_differ A" "list_all2 (emitted A) ds lss"
  shows "\<exists>bs es rs. split_deposit_logs A (concat lss) = Inr (bs, es, rs) \<and> list_all2 (bridge_log A) ds bs \<and>
    list_all2 (\<lambda>d. identity_log A d (asset_of d)) (filter is_erc20 ds) es \<and>
    list_all2 (registry_log_of A) (filter (\<lambda>d. registry_of d \<noteq> None) ds) rs"
  using assms(2)
proof (induction rule: list_all2_induct)
  case (Cons d ds ls lss)
  obtain bs es rs where i: "split_deposit_logs A (concat lss) = Inr (bs, es, rs)" "list_all2 (bridge_log A) ds bs"
    "list_all2 (\<lambda>d. identity_log A d (asset_of d)) (filter is_erc20 ds) es"
    "list_all2 (registry_log_of A) (filter (\<lambda>d. registry_of d \<noteq> None) ds) rs"
    using Cons.IH by auto
  show ?case
  proof (use Cons.hyps(1) in \<open>cases rule: emitted_cases\<close>)
    case (1 b)
    then have "topic0 b = Some (sig_bridge_deposit A)" "\<not> is_erc20 d" "registry_of d = None"
      by (simp_all add: bridge_log_def is_erc20_def registry_of_def)
    then show ?thesis using 1 i by simp
  next
    case (2 b e)
    then have "topic0 b = Some (sig_bridge_deposit A)" "topic0 e = Some (sig_erc20_deposit A)"
      by (simp_all add: bridge_log_def identity_log_def)
    then show ?thesis using 2 i signatures [OF assms(1)] by simp
  next
    case (3 b e r i')
    then have "topic0 b = Some (sig_bridge_deposit A)" "topic0 e = Some (sig_erc20_deposit A)"
      "topic0 r = Some (sig_erc20_deposit_v2 A)" "registry_log_of A d r"
      by (simp_all add: bridge_log_def identity_log_def registry_log_def registry_log_of_def)
    then show ?thesis using 3 i signatures [OF assms(1)] by simp
  qed
qed simp

lemma metadata_without_registry [simp]:
  "(metadata_of e)\<lparr>em_registry_identity := None\<rparr> = metadata_of e" "em_registry_identity (metadata_of e) = None"
  by (simp_all add: metadata_of_def)

lemma add_emitted:
  assumes "list_all2 (\<lambda>d. identity_log A d (asset_of d)) ds es" "distinct (map fst m @ map deposit_key_of ds)"
    and "\<And>d. d \<in> set ds \<Longrightarrow> \<not> all_zero (asset_of d)"
  shows "add_erc20_logs A es m = Inr (m @ map base_entry ds)"
  using assms
proof (induction arbitrary: m rule: list_all2_induct)
  case (Cons d ds l es)
  have "map_of m (dl_transaction_hash d, dl_nonce d) = None"
    using Cons.prems(1) by (auto simp: map_of_eq_None_iff deposit_key_of_def)
  moreover have "add_erc20_logs A es (m @ [base_entry d]) = Inr ((m @ [base_entry d]) @ map base_entry ds)"
    using Cons.prems by (intro Cons.IH) auto
  ultimately show ?case
    using Cons.hyps(1) Cons.prems(2) [of d]
    by (simp add: identity_log_def expect_def identity_event_def base_entry_def deposit_key_of_def)
qed simp

lemma put_absent: "k \<notin> fst ` set m \<Longrightarrow> put_registry_identity k r m = m"
  unfolding put_registry_identity_def by (rule map_idI) (force split: prod.splits)

lemma put_append: "put_registry_identity k r (m @ m') = put_registry_identity k r m @ put_registry_identity k r m'"
  by (simp add: put_registry_identity_def)

lemma full_entry_base: "registry_of d = None \<Longrightarrow> full_entry d = base_entry d"
  by (simp add: full_entry_def base_entry_def metadata_of_def)

lemma add_registry_emitted:
  assumes "list_all2 (registry_log_of A) (filter (\<lambda>d. registry_of d \<noteq> None) ds) rs" "distinct (map deposit_key_of (pre @ ds))"
    and "\<And>d i. d \<in> set ds \<Longrightarrow> registry_of d = Some i \<Longrightarrow> \<not> all_zero (ri_record_commitment i)"
  shows "add_erc20_v2_logs A rs (map full_entry pre @ map base_entry ds) = Inr (map full_entry (pre @ ds))"
  using assms
proof (induction ds arbitrary: pre rs)
  case (Cons d ds)
  show ?case
  proof (cases "registry_of d")
    case None
    then have "add_erc20_v2_logs A rs (map full_entry (pre @ [d]) @ map base_entry ds) = Inr (map full_entry ((pre @ [d]) @ ds))"
      using Cons.prems by (intro Cons.IH) auto
    then show ?thesis using None by (simp add: full_entry_base)
  next
    case (Some i)
    then obtain l rs' where rs: "rs = l # rs'" "registry_log_of A d l"
      "list_all2 (registry_log_of A) (filter (\<lambda>d. registry_of d \<noteq> None) ds) rs'"
      using Cons.prems(1) by (auto simp: list_all2_Cons1)
    let ?m = "map full_entry pre @ base_entry d # map base_entry ds"
    have k: "deposit_key_of d \<notin> fst ` set (map full_entry pre)" "deposit_key_of d \<notin> fst ` set (map base_entry ds)"
      using Cons.prems(2) by (auto simp: image_image)
    have m: "map_of ?m (dl_transaction_hash d, dl_nonce d) = Some (snd (base_entry d))"
    proof -
      have "map_of (map full_entry pre) (deposit_key_of d) = None" using k(1) by (simp add: map_of_eq_None_iff)
      then show ?thesis by (simp add: map_of_append map_add_def base_entry_def flip: deposit_key_of_def)
    qed
    have p: "put_registry_identity (dl_transaction_hash d, dl_nonce d) i ?m = map full_entry (pre @ [d]) @ map base_entry ds"
      using k put_absent [OF k(1)] put_absent [OF k(2)]
      by (simp add: put_append flip: deposit_key_of_def) (simp add: put_registry_identity_def base_entry_def full_entry_def Some)
    have r: "add_erc20_v2_logs A rs' (map full_entry (pre @ [d]) @ map base_entry ds) = Inr (map full_entry ((pre @ [d]) @ ds))"
      using Cons.prems rs(3) by (intro Cons.IH) auto
    obtain e where e: "decode_erc20_deposit_v2 A l = Some e" "base_event e = identity_event d (asset_of d)"
      "ee_encoding_version e = ERC20_ACTION_ENCODING_V2" "ee_registry_index e = ri_registry_index i"
      "ee_record_commitment e = ri_record_commitment i" "lg_transaction_hash l = Some (dl_transaction_hash d)"
      using rs(2) Some by (auto simp: registry_log_of_def registry_log_def)
    have n: "ee_nonce e = dl_nonce d" using arg_cong [OF e(2), of ee_nonce] by (simp add: base_event_def identity_event_def)
    have "snd (base_entry d) = metadata_of (base_event e)" by (simp add: base_entry_def e(2))
    then show ?thesis
      using Cons.prems(3) [OF _ Some] m p r e n by (cases i) (simp add: rs(1) expect_def)
  qed
qed simp

lemma read_event:
  assumes "readable_deposit d" "length (dl_zeko_recipient d) = 32"
  shows "u256_to_be (u256_from_be (dl_zeko_recipient d)) = dl_zeko_recipient d"
    "unat (word_of_nat (dl_amount d) :: u256) = dl_amount d" "unat (word_of_nat (dl_zeko_amount d) :: u256) = dl_zeko_amount d"
  using assms of_be_less [of "dl_zeko_recipient d"]
  by (simp_all add: readable_deposit_def u256_to_be_def u256_from_be_def unat_of_nat take_bit_nat_eq_self be_bytes_of_be)

lemma identity_read:
  assumes "readable_deposit d"
  shows "deposit_identity (if is_erc20 d then Some (snd (full_entry d)) else None) (deposit_event d) = Inr (dl_erc20_identity d)"
proof (cases "dl_erc20_identity d")
  case None
  then show ?thesis using assms by (simp add: readable_deposit_def deposit_identity_def deposit_event_def is_erc20_def)
next
  case (Some i)
  have "unat (word_of_nat (dl_amount d) :: u64) = dl_amount d" if "dl_amount d < 2 ^ 64"
    using that by (simp add: unat_of_nat take_bit_nat_eq_self)
  then have "events_agree (snd (full_entry d)) (deposit_event d)"
    using assms Some
    by (simp add: readable_deposit_def events_agree_def full_entry_def base_entry_def metadata_of_def identity_event_def
        deposit_event_def word_unat_eq_iff unsigned_ucast_eq unat_of_nat take_bit_nat_eq_self)
  then show ?thesis
    using assms Some
    by (cases i) (simp_all add: readable_deposit_def deposit_identity_def deposit_event_def is_erc20_def expect_def full_entry_def
        base_entry_def metadata_of_def identity_event_def asset_of_def registry_of_def identity_asset_id_def classify_erc20_deposit_identity_def)
qed

lemma join_emitted:
  assumes "list_all2 (bridge_log A) ds bs" "distinct (map deposit_key_of ds)" "\<And>d. d \<in> set ds \<Longrightarrow> readable_deposit d"
  shows "join_deposit_logs A bs (map full_entry (filter is_erc20 ds)) = Inr (ds, [])"
  using assms
proof (induction rule: list_all2_induct)
  case (Cons d ds l bs)
  let ?m = "map full_entry (filter is_erc20 ds)"
  have k: "deposit_key_of d \<notin> fst ` set ?m" using Cons.prems(1) by auto
  then have "fst x \<noteq> (dl_transaction_hash d, dl_nonce d)" if "x \<in> set ?m" for x
    using that unfolding deposit_key_of_def by (metis imageI)
  then have f: "filter (\<lambda>(k', _). k' \<noteq> (dl_transaction_hash d, dl_nonce d)) ?m = ?m"
    unfolding split_beta by (intro filter_True) blast
  obtain v where e: "full_entry d = ((dl_transaction_hash d, dl_nonce d), v)"
    by (simp add: full_entry_def deposit_key_of_def)
  have "map_of ?m (dl_transaction_hash d, dl_nonce d) = None"
    using k unfolding deposit_key_of_def by (rule map_of_eq_None_iff [THEN iffD2])
  then have m: "map_of (map full_entry (filter is_erc20 (d # ds))) (dl_transaction_hash d, dl_nonce d) =
      (if is_erc20 d then Some (snd (full_entry d)) else None)"
    by (simp add: e)
  have r: "filter (\<lambda>(k', _). k' \<noteq> (dl_transaction_hash d, dl_nonce d)) (map full_entry (filter is_erc20 (d # ds))) = ?m"
    using f by (simp add: e)
  have i: "join_deposit_logs A bs ?m = Inr (ds, [])" using Cons.prems by (intro Cons.IH) auto
  have d: "readable_deposit d" using Cons.prems(2) by simp
  note v = read_event [OF d]
  show ?case
    using Cons.hyps(1) d v identity_read [OF d] m r i
    by (auto simp: bridge_log_def expect_def readable_deposit_def deposit_event_def simp del: filter.simps list.map)
qed simp

subsection \<open>Nothing is made up\<close>

definition from_identity :: "deposit_abi \<Rightarrow> deposit_key \<Rightarrow> erc20_deposit_metadata \<Rightarrow> eth_log \<Rightarrow> bool" where
  "from_identity A k i l \<longleftrightarrow> lg_transaction_hash l = Some (fst k) \<and>
     (\<exists>e. decode_erc20_deposit A l = Some e \<and> ee_nonce e = snd k \<and> metadata_of e = i\<lparr>em_registry_identity := None\<rparr>)"

definition from_registry :: "deposit_abi \<Rightarrow> deposit_key \<Rightarrow> erc20_deposit_metadata \<Rightarrow> eth_log \<Rightarrow> bool" where
  "from_registry A k i l \<longleftrightarrow> lg_transaction_hash l = Some (fst k) \<and>
     (\<exists>e. decode_erc20_deposit_v2 A l = Some e \<and> ee_nonce e = snd k \<and>
        metadata_of (base_event e) = i\<lparr>em_registry_identity := None\<rparr> \<and> ee_encoding_version e = ERC20_ACTION_ENCODING_V2 \<and>
        em_registry_identity i = Some \<lparr>ri_registry_index = ee_registry_index e, ri_record_commitment = ee_record_commitment e\<rparr>)"

lemma added_identities:
  assumes "add_erc20_logs A es m = Inr m'" "distinct (map fst m)"
  shows "distinct (map fst m') \<and> (\<exists>xs. m' = m @ xs \<and>
    list_all2 (\<lambda>l (k, i). from_identity A k i l \<and> em_registry_identity i = None) es xs)"
  using assms
proof (induction es arbitrary: m)
  case (Cons l es)
  obtain e h where e: "decode_erc20_deposit A l = Some e" "lg_transaction_hash l = Some h"
    "map_of m (h, ee_nonce e) = None" "add_erc20_logs A es (m @ [((h, ee_nonce e), metadata_of e)]) = Inr m'"
    using Cons.prems(1) by (auto simp: res_simps)
  have "distinct (map fst (m @ [((h, ee_nonce e), metadata_of e)]))"
    using e(3) Cons.prems(2) by (simp add: map_of_eq_None_iff)
  from Cons.IH [OF e(4) this] show ?case
    using e(1,2) by (fastforce simp: from_identity_def)
qed simp

lemma put_registry_keys [simp]: "map fst (put_registry_identity k r m) = map fst m"
  by (simp add: put_registry_identity_def split_beta comp_def)

lemma put_registry_entries:
  "(k', i') \<in> set (put_registry_identity k r m) \<longleftrightarrow>
     (\<exists>i. (k', i) \<in> set m \<and> i' = (if k' = k then i\<lparr>em_registry_identity := Some r\<rparr> else i))"
  by (force simp: put_registry_identity_def)

lemma added_registries:
  assumes "add_erc20_v2_logs A rs m = Inr m'" "distinct (map fst m)"
  shows "map fst m' = map fst m \<and>
    (\<forall>k i'. (k, i') \<in> set m' \<longrightarrow> (\<exists>i. (k, i) \<in> set m \<and> i'\<lparr>em_registry_identity := None\<rparr> = i\<lparr>em_registry_identity := None\<rparr> \<and>
       (i' = i \<or> (\<exists>l \<in> set rs. from_registry A k i' l)))) \<and>
    (\<forall>k i. (k, i) \<in> set m \<and> em_registry_identity i \<noteq> None \<longrightarrow> (k, i) \<in> set m') \<and>
    (\<forall>l \<in> set rs. \<exists>k i. (k, i) \<in> set m' \<and> from_registry A k i l)"
  using assms
proof (induction rs arbitrary: m)
  case (Cons l rs)
  obtain e h i where e: "decode_erc20_deposit_v2 A l = Some e" "lg_transaction_hash l = Some h"
    "ee_encoding_version e = ERC20_ACTION_ENCODING_V2" "map_of m (h, ee_nonce e) = Some i"
    "i\<lparr>em_registry_identity := None\<rparr> = metadata_of (base_event e)" "em_registry_identity i = None"
    and r: "add_erc20_v2_logs A rs (put_registry_identity (h, ee_nonce e)
      \<lparr>ri_registry_index = ee_registry_index e, ri_record_commitment = ee_record_commitment e\<rparr> m) = Inr m'"
    using Cons.prems(1) by (auto simp: res_simps)
  let ?k = "(h, ee_nonce e)" and ?r = "\<lparr>ri_registry_index = ee_registry_index e, ri_record_commitment = ee_record_commitment e\<rparr>"
  let ?m = "put_registry_identity ?k ?r m" and ?i = "i\<lparr>em_registry_identity := Some ?r\<rparr>"
  have i: "(?k, j) \<in> set m \<longleftrightarrow> j = i" for j
    using map_of_SomeD [OF e(4)] Cons.prems(2) eq_key_imp_eq_value by metis
  have l: "from_registry A ?k ?i l" using e by (auto simp: from_registry_def)
  note step = Cons.IH [OF r, unfolded put_registry_keys, OF Cons.prems(2)]
  have IH: "map fst m' = map fst m"
    "\<And>k i'. (k, i') \<in> set m' \<Longrightarrow> \<exists>i. (k, i) \<in> set ?m \<and> i'\<lparr>em_registry_identity := None\<rparr> = i\<lparr>em_registry_identity := None\<rparr> \<and>
       (i' = i \<or> (\<exists>l \<in> set rs. from_registry A k i' l))"
    "\<And>k i. (k, i) \<in> set ?m \<Longrightarrow> em_registry_identity i \<noteq> None \<Longrightarrow> (k, i) \<in> set m'"
    "\<And>l. l \<in> set rs \<Longrightarrow> \<exists>k i. (k, i) \<in> set m' \<and> from_registry A k i l"
    using step by blast+
  have new: "(?k, ?i) \<in> set m'"
    by (rule IH(3)) (use i in \<open>auto simp: put_registry_entries\<close>)
  show ?case
  proof (intro conjI allI impI ballI)
    show "map fst m' = map fst m" by (rule IH(1))
  next
    fix k i' assume "(k, i') \<in> set m'"
    then obtain j where j: "(k, j) \<in> set ?m" "i'\<lparr>em_registry_identity := None\<rparr> = j\<lparr>em_registry_identity := None\<rparr>"
      "i' = j \<or> (\<exists>l \<in> set rs. from_registry A k i' l)"
      using IH(2) by blast
    then show "\<exists>i. (k, i) \<in> set m \<and> i'\<lparr>em_registry_identity := None\<rparr> = i\<lparr>em_registry_identity := None\<rparr> \<and>
       (i' = i \<or> (\<exists>l \<in> set (l # rs). from_registry A k i' l))"
      using l i by (cases "k = ?k") (auto simp: put_registry_entries)
  next
    fix k j assume "(k, j) \<in> set m \<and> em_registry_identity j \<noteq> None"
    then show "(k, j) \<in> set m'"
      using i e(6) by (intro IH(3)) (auto simp: put_registry_entries)
  next
    fix l' assume "l' \<in> set (l # rs)"
    then show "\<exists>k i. (k, i) \<in> set m' \<and> from_registry A k i l'" using new l IH(4) by auto
  qed
qed simp

lemma split_logs:
  assumes "split_deposit_logs A ls = Inr (bs, es, rs)" "signatures_differ A"
  shows "bs = filter (\<lambda>l. topic0 l = Some (sig_bridge_deposit A)) ls \<and> es = filter (\<lambda>l. topic0 l = Some (sig_erc20_deposit A)) ls \<and>
    rs = filter (\<lambda>l. topic0 l = Some (sig_erc20_deposit_v2 A)) ls \<and> set ls \<subseteq> set bs \<union> set es \<union> set rs"
  using assms(1)
proof (induction ls arbitrary: bs es rs)
  case (Cons l ls)
  obtain s bs' es' rs' where s: "topic0 l = Some s" "s \<in> {sig_bridge_deposit A, sig_erc20_deposit A, sig_erc20_deposit_v2 A}"
    and i: "split_deposit_logs A ls = Inr (bs', es', rs')"
    and r: "(bs, es, rs) = (if s = sig_bridge_deposit A then (l # bs', es', rs')
       else if s = sig_erc20_deposit A then (bs', l # es', rs') else (bs', es', l # rs'))"
    using Cons.prems by (auto simp: res_simps split: option.splits)
  note IH = Cons.IH [OF i] and sig = signatures [OF assms(2)]
  consider "s = sig_bridge_deposit A" | "s = sig_erc20_deposit A" | "s = sig_erc20_deposit_v2 A" using s(2) by blast
  then show ?case
  proof cases
    case 1
    then show ?thesis using IH r s(1) sig by auto
  next
    case 2
    then show ?thesis using IH r s(1) sig by auto
  next
    case 3
    then show ?thesis using IH r s(1) sig by auto
  qed
qed simp

definition matches_deposit :: "erc20_deposit_metadata \<Rightarrow> bridge_deposit_log \<Rightarrow> bool" where
  "matches_deposit i d \<longleftrightarrow> i\<lparr>em_registry_identity := None\<rparr> = metadata_of (identity_event d (em_asset_id i)) \<and>
     dl_erc20_identity d = Some (classify_erc20_deposit_identity (em_asset_id i) (em_registry_identity i))"

lemma word_of_wide: "word_of_nat (unat (ucast (a :: u64) :: u256)) = a"
proof -
  have "unat a < 2 ^ 64" using unat_less_pow [of a] by simp
  then show ?thesis by (simp add: word_unat_eq_iff unat_of_nat unsigned_ucast_eq take_bit_nat_eq_self)
qed

lemma joined_deposits:
  assumes "join_deposit_logs A bs m = Inr (ds, rest)"
  shows "list_all2 (\<lambda>l d. topic0 l = Some (sig_bridge_deposit A) \<longrightarrow> bridge_log A d l) bs ds \<and>
    (\<forall>d \<in> set ds. is_erc20 d \<longrightarrow> (\<exists>i. (deposit_key_of d, i) \<in> set m \<and> matches_deposit i d)) \<and>
    (\<forall>k i. (k, i) \<in> set m \<longrightarrow> distinct (map fst m) \<longrightarrow> (k, i) \<in> set rest \<or>
       (\<exists>d \<in> set ds. deposit_key_of d = k \<and> matches_deposit i d))"
  using assms
proof (induction bs arbitrary: m ds)
  case (Cons l bs)
  obtain e h identity number block index ds' where e: "decode_bridge_deposit A l = Some e" "lg_transaction_hash l = Some h"
      "deposit_identity (map_of m (h, be_nonce e)) e = Inr identity" "lg_block_number l = Some number" "lg_block_hash l = Some block"
      "lg_log_index l = Some index"
    and j: "join_deposit_logs A bs (filter (\<lambda>(k', _). k' \<noteq> (h, be_nonce e)) m) = Inr (ds', rest)"
    and ds: "ds = \<lparr>dl_nonce = be_nonce e, dl_deposit_leaf = be_deposit_leaf e, dl_old_deposit_state = be_old_deposit_state e,
       dl_new_deposit_state = be_new_deposit_state e, dl_token = be_token e, dl_sender = be_sender e,
       dl_zeko_recipient = u256_to_be (be_zeko_recipient e), dl_amount = unat (be_amount e),
       dl_zeko_amount = unat (be_zeko_amount e), dl_timeout = be_timeout e, dl_erc20_identity = identity,
       dl_block_number = number, dl_block_hash = block, dl_transaction_hash = h, dl_log_index = index\<rparr> # ds'"
    using Cons.prems by (auto simp: res_simps Let_def)
  define d where "d = hd ds"
  have d: "ds = d # ds'" "deposit_event d = e" "deposit_key_of d = (h, be_nonce e)" "dl_erc20_identity d = identity"
    "bridge_log A d l \<longleftrightarrow> topic0 l = Some (sig_bridge_deposit A)"
    using e by (simp_all add: d_def ds deposit_event_def deposit_key_of_def bridge_log_def)
  have m: "matches_deposit i d" if "map_of m (h, be_nonce e) = Some i" for i
  proof -
    have "events_agree i e" "identity = Some (classify_erc20_deposit_identity (em_asset_id i) (em_registry_identity i))"
      using e(3) that by (auto simp: deposit_identity_def res_simps expect_def split: if_splits)
    then show ?thesis
      using word_of_wide [of "em_amount i"]
      by (cases i) (simp add: matches_deposit_def d(4) events_agree_def metadata_of_def identity_event_def d_def ds)
  qed
  have native: "is_erc20 d \<Longrightarrow> map_of m (h, be_nonce e) \<noteq> None"
    using e(3) by (auto simp: is_erc20_def d(4) deposit_identity_def res_simps expect_def split: if_splits option.splits)
  note IH = Cons.IH [OF j]
  show ?case
    unfolding d(1)
  proof (intro conjI allI impI ballI)
    show "list_all2 (\<lambda>l d. topic0 l = Some (sig_bridge_deposit A) \<longrightarrow> bridge_log A d l) (l # bs) (d # ds')"
      using IH d(5) by simp
  next
    fix d' assume "d' \<in> set (d # ds')" "is_erc20 d'"
    then show "\<exists>i. (deposit_key_of d', i) \<in> set m \<and> matches_deposit i d'"
    proof (cases "d' = d")
      case True
      then obtain i where "map_of m (h, be_nonce e) = Some i" using native \<open>is_erc20 d'\<close> by auto
      then show ?thesis using m map_of_SomeD d(3) True by metis
    qed (use IH in auto)
  next
    fix k i assume k: "(k, i) \<in> set m" "distinct (map fst m)"
    show "(k, i) \<in> set rest \<or> (\<exists>d \<in> set (d # ds'). deposit_key_of d = k \<and> matches_deposit i d)"
    proof (cases "k = (h, be_nonce e)")
      case True
      then have "map_of m (h, be_nonce e) = Some i" using k by (auto simp: map_of_eq_Some_iff)
      then show ?thesis using m d(3) True by auto
    next
      case False
      moreover have "distinct (map fst (filter (\<lambda>(k', _). k' \<noteq> (h, be_nonce e)) m))" by (rule distinct_map_filter [OF k(2)])
      moreover have "(k, i) \<in> set (filter (\<lambda>(k', _). k' \<noteq> (h, be_nonce e)) m)" using k(1) False by auto
      ultimately show ?thesis using IH by fastforce
    qed
  qed
qed simp

lemma list_all2_partners: "list_all2 P xs ys \<Longrightarrow> (\<forall>y \<in> set ys. \<exists>x \<in> set xs. P x y) \<and> (\<forall>x \<in> set xs. \<exists>y \<in> set ys. P x y)"
  by (induction rule: list_all2_induct) auto

lemma identity_entries:
  assumes "add_erc20_logs A es [] = Inr m" "add_erc20_v2_logs A rs m = Inr m'"
  shows "distinct (map fst m')"
    and "(k, i) \<in> set m' \<Longrightarrow> \<exists>l \<in> set es. from_identity A k i l"
    and "(k, i) \<in> set m' \<Longrightarrow> em_registry_identity i = None \<or> (\<exists>r \<in> set rs. from_registry A k i r)"
    and "l \<in> set es \<Longrightarrow> \<exists>k i. (k, i) \<in> set m' \<and> from_identity A k i l"
    and "r \<in> set rs \<Longrightarrow> \<exists>k i. (k, i) \<in> set m' \<and> from_registry A k i r"
proof -
  have d: "distinct (map fst m)"
    and es: "list_all2 (\<lambda>l (k, i). from_identity A k i l \<and> em_registry_identity i = None) es m"
    using added_identities [OF assms(1)] by auto
  note v2 = added_registries [OF assms(2) d]
  have keys: "map fst m' = map fst m" using v2 by blast
  show "distinct (map fst m')" using keys d by simp
  have old: "\<exists>l \<in> set es. from_identity A k j l \<and> em_registry_identity j = None" if "(k, j) \<in> set m" for k j
    using es that by (auto simp: list_all2_conv_all_nth in_set_conv_nth) (metis (no_types, lifting) case_prod_conv nth_mem)
  have base: "\<exists>j. (k, j) \<in> set m \<and> i\<lparr>em_registry_identity := None\<rparr> = j\<lparr>em_registry_identity := None\<rparr> \<and>
      (i = j \<or> (\<exists>l \<in> set rs. from_registry A k i l))" if "(k, i) \<in> set m'" for k i
    using v2 that by blast
  have same: "from_identity A k i l \<longleftrightarrow> from_identity A k j l"
    if "i\<lparr>em_registry_identity := None\<rparr> = j\<lparr>em_registry_identity := None\<rparr>" for k i j l
    using that by (simp add: from_identity_def)
  show "(k, i) \<in> set m' \<Longrightarrow> \<exists>l \<in> set es. from_identity A k i l" using base [of k i] old [of k] same by blast
  show "(k, i) \<in> set m' \<Longrightarrow> em_registry_identity i = None \<or> (\<exists>r \<in> set rs. from_registry A k i r)"
    using base [of k i] old [of k] by blast
  show "r \<in> set rs \<Longrightarrow> \<exists>k i. (k, i) \<in> set m' \<and> from_registry A k i r" using v2 by blast
  assume "l \<in> set es"
  then obtain k j where j: "(k, j) \<in> set m" "from_identity A k j l"
    using es by (auto simp: list_all2_conv_all_nth in_set_conv_nth) (metis (no_types, lifting) case_prod_conv nth_mem surj_pair)
  then have "k \<in> set (map fst m')" unfolding keys by force
  then obtain i where i: "(k, i) \<in> set m'" by auto
  then obtain j' where "(k, j') \<in> set m" "i\<lparr>em_registry_identity := None\<rparr> = j'\<lparr>em_registry_identity := None\<rparr>" using base by blast
  then show "\<exists>k i. (k, i) \<in> set m' \<and> from_identity A k i l"
    using i j same eq_key_imp_eq_value [OF d j(1)] by metis
qed

lemma same_event: "metadata_of e = metadata_of e' \<Longrightarrow> ee_nonce e = ee_nonce e' \<Longrightarrow> e = e'"
  by (cases e; cases e') (auto simp: metadata_of_def dest: arg_cong [of _ _ u256_from_be])

lemma emitted_from:
  assumes "bridge_log A d b" "matches_deposit i d" "from_identity A (deposit_key_of d) i l" "topic0 l = Some (sig_erc20_deposit A)"
  shows "em_registry_identity i = None \<Longrightarrow> emitted A d [b, l]"
    and "from_registry A (deposit_key_of d) i r \<Longrightarrow> topic0 r = Some (sig_erc20_deposit_v2 A) \<Longrightarrow> emitted A d [b, l, r]"
proof -
  obtain e where e: "decode_erc20_deposit A l = Some e" "lg_transaction_hash l = Some (dl_transaction_hash d)"
    "e = identity_event d (em_asset_id i)"
    using assms(2,3) same_event [of _ "identity_event d (em_asset_id i)"]
    by (auto simp: from_identity_def matches_deposit_def deposit_key_of_def identity_event_def)
  then have l: "identity_log A d (em_asset_id i) l" using assms(4) by (simp add: identity_log_def)
  show "em_registry_identity i = None \<Longrightarrow> emitted A d [b, l]"
    using assms(1,2) l by (simp add: emitted_def matches_deposit_def classify_erc20_deposit_identity_def)
  assume r: "from_registry A (deposit_key_of d) i r" "topic0 r = Some (sig_erc20_deposit_v2 A)"
  then obtain e where e: "decode_erc20_deposit_v2 A r = Some e" "lg_transaction_hash r = Some (dl_transaction_hash d)"
    "ee_nonce (base_event e) = dl_nonce d" "metadata_of (base_event e) = metadata_of (identity_event d (em_asset_id i))"
    "ee_encoding_version e = ERC20_ACTION_ENCODING_V2"
    "em_registry_identity i = Some \<lparr>ri_registry_index = ee_registry_index e, ri_record_commitment = ee_record_commitment e\<rparr>"
    using assms(2) by (auto simp: from_registry_def matches_deposit_def deposit_key_of_def base_event_def)
  then have "base_event e = identity_event d (em_asset_id i)"
    by (intro same_event) (simp_all add: identity_event_def)
  then show "emitted A d [b, l, r]"
    using e r(2) assms(1,2) l
    by (simp add: emitted_def registry_log_def matches_deposit_def classify_erc20_deposit_identity_def)
qed

lemma recorded_deposits_read:
  assumes "signatures_differ A" "list_all2 (emitted A) recorded lss" "list_all readable_deposit recorded"
    and "distinct (map deposit_key_of recorded)"
  shows "bridge_deposit_logs A (Inr (concat lss)) = Inr recorded"
proof -
  obtain bs es rs where s: "split_deposit_logs A (concat lss) = Inr (bs, es, rs)" "list_all2 (bridge_log A) recorded bs"
    "list_all2 (\<lambda>d. identity_log A d (asset_of d)) (filter is_erc20 recorded) es"
    "list_all2 (registry_log_of A) (filter (\<lambda>d. registry_of d \<noteq> None) recorded) rs"
    using split_emitted [OF assms(1,2)] by blast
  have ok: "readable_deposit d" if "d \<in> set recorded" for d using assms(3) that by (simp add: list_all_iff)
  have zero: "\<not> all_zero (asset_of d)" if "d \<in> set (filter is_erc20 recorded)" for d
    using ok [of d] that
    by (auto simp: readable_deposit_def is_erc20_def asset_of_def identity_asset_id_def split: erc20_deposit_identity.splits)
  have commitment: "\<not> all_zero (ri_record_commitment i)" if "d \<in> set (filter is_erc20 recorded)" "registry_of d = Some i" for d i
    using ok [of d] that
    by (auto simp: readable_deposit_def registry_of_def split: erc20_deposit_identity.splits option.splits)
  have d: "distinct (map deposit_key_of (filter is_erc20 recorded))" using assms(4) by (simp add: distinct_map_filter)
  have reg: "filter (\<lambda>d. registry_of d \<noteq> None) recorded = filter (\<lambda>d. registry_of d \<noteq> None) (filter is_erc20 recorded)"
    unfolding filter_filter by (intro filter_cong refl) (auto simp: registry_of_def is_erc20_def split: option.splits)
  have "add_erc20_logs A es [] = Inr (map base_entry (filter is_erc20 recorded))"
    using add_emitted [OF s(3), of "[]"] d zero by simp
  moreover have "add_erc20_v2_logs A rs (map base_entry (filter is_erc20 recorded)) = Inr (map full_entry (filter is_erc20 recorded))"
    using add_registry_emitted [OF s(4) [unfolded reg], of "[]"] d commitment by simp
  moreover have "join_deposit_logs A bs (map full_entry (filter is_erc20 recorded)) = Inr (recorded, [])"
    using assms(4) ok by (intro join_emitted [OF s(2)]) auto
  ultimately show ?thesis by (simp add: bridge_deposit_logs_def s(1))
qed

text \<open>An entry of the metadata and the deposit event of its deposit are what the contract emitted for it.\<close>

lemma entry_emitted:
  assumes "bridge_log A d b" "matches_deposit i d" "from_identity A (deposit_key_of d) i l" "topic0 l = Some (sig_erc20_deposit A)"
    and "em_registry_identity i = None \<or> (\<exists>r \<in> set rs. from_registry A (deposit_key_of d) i r)"
    and "\<And>r. r \<in> set rs \<Longrightarrow> topic0 r = Some (sig_erc20_deposit_v2 A)"
  shows "\<exists>ls. b \<in> set ls \<and> l \<in> set ls \<and> set ls \<subseteq> {b, l} \<union> set rs \<and> emitted A d ls"
  using assms(5)
proof
  assume "em_registry_identity i = None"
  then show ?thesis using emitted_from(1) [OF assms(1-4)] by (intro exI [of _ "[b, l]"]) auto
next
  assume "\<exists>r \<in> set rs. from_registry A (deposit_key_of d) i r"
  then obtain r where "r \<in> set rs" "from_registry A (deposit_key_of d) i r" by blast
  then show ?thesis using emitted_from(2) [OF assms(1-4)] assms(6) by (intro exI [of _ "[b, l, r]"]) auto
qed

lemma read_deposits_emitted:
  assumes "signatures_differ A" "bridge_deposit_logs A (Inr logs) = Inr ds"
  shows "(\<forall>d \<in> set ds. \<exists>ls. set ls \<subseteq> set logs \<and> emitted A d ls) \<and>
    (\<forall>l \<in> set logs. \<exists>d \<in> set ds. \<exists>ls. l \<in> set ls \<and> set ls \<subseteq> set logs \<and> emitted A d ls)"
proof -
  obtain bs es rs m m' where s: "split_deposit_logs A logs = Inr (bs, es, rs)" and m: "add_erc20_logs A es [] = Inr m"
    "add_erc20_v2_logs A rs m = Inr m'" and j: "join_deposit_logs A bs m' = Inr (ds, [])"
    using assms(2) by (auto simp: bridge_deposit_logs_def res_simps)
  note logs = split_logs [OF s assms(1)] and e = identity_entries [OF m] and d = joined_deposits [OF j]
  have f: "bs = filter (\<lambda>l. topic0 l = Some (sig_bridge_deposit A)) logs" "es = filter (\<lambda>l. topic0 l = Some (sig_erc20_deposit A)) logs"
    "rs = filter (\<lambda>l. topic0 l = Some (sig_erc20_deposit_v2 A)) logs" "set logs \<subseteq> set bs \<union> set es \<union> set rs"
    using logs by blast+
  have sub: "set bs \<subseteq> set logs" "set es \<subseteq> set logs" "set rs \<subseteq> set logs"
    unfolding f(1-3) by (simp_all add: filter_is_subset)
  have t: "\<And>l. l \<in> set es \<Longrightarrow> topic0 l = Some (sig_erc20_deposit A)"
    "\<And>l. l \<in> set rs \<Longrightarrow> topic0 l = Some (sig_erc20_deposit_v2 A)" "\<And>l. l \<in> set bs \<Longrightarrow> topic0 l = Some (sig_bridge_deposit A)"
    unfolding f(1-3) by simp_all
  have "list_all2 (\<lambda>l d. bridge_log A d l) bs ds"
    by (rule list.rel_mono_strong [OF conjunct1 [OF d]]) (use t(3) in blast)
  then have b: "\<And>d. d \<in> set ds \<Longrightarrow> \<exists>l \<in> set bs. bridge_log A d l" and b': "\<And>l. l \<in> set bs \<Longrightarrow> \<exists>d \<in> set ds. bridge_log A d l"
    using list_all2_partners by blast+
  have all: "\<exists>ls. b \<in> set ls \<and> set ls \<subseteq> set logs \<and> emitted A d ls" if p: "d \<in> set ds" "b \<in> set bs" "bridge_log A d b" for d b
  proof (cases "is_erc20 d")
    case False
    then show ?thesis using p sub by (intro exI [of _ "[b]"]) (auto simp: emitted_def is_erc20_def)
  next
    case True
    then obtain i where i: "(deposit_key_of d, i) \<in> set m'" "matches_deposit i d" using d p(1) by blast
    obtain l where l: "l \<in> set es" "from_identity A (deposit_key_of d) i l" using e(2) [OF i(1)] by blast
    obtain ls where "b \<in> set ls" "set ls \<subseteq> {b, l} \<union> set rs" "emitted A d ls"
      using entry_emitted [OF p(3) i(2) l(2) t(1) [OF l(1)] e(3) [OF i(1)] t(2)] by blast
    then show ?thesis using p(2) l(1) sub by (intro exI [of _ ls]) auto
  qed
  have entry: "\<exists>d \<in> set ds. \<exists>b \<in> set bs. deposit_key_of d = k \<and> matches_deposit i d \<and> bridge_log A d b" if "(k, i) \<in> set m'" for k i
    using d [THEN conjunct2, THEN conjunct2, rule_format, OF that e(1)] b by auto
  have identity: "\<exists>d \<in> set ds. \<exists>ls. l \<in> set ls \<and> set ls \<subseteq> set logs \<and> emitted A d ls" if p: "l \<in> set es" for l
  proof -
    obtain k i where k: "(k, i) \<in> set m'" "from_identity A k i l" using p e(4) by blast
    then obtain d b where db: "d \<in> set ds" "b \<in> set bs" "deposit_key_of d = k" "matches_deposit i d" "bridge_log A d b"
      using entry by blast
    obtain ls where "l \<in> set ls" "set ls \<subseteq> {b, l} \<union> set rs" "emitted A d ls"
      using entry_emitted [OF db(5,4), unfolded db(3), OF k(2) t(1) [OF p] e(3) [OF k(1)] t(2)] by blast
    then show ?thesis using db(1,2) p sub by (intro bexI [of _ d] exI [of _ ls]) auto
  qed
  have registry: "\<exists>d \<in> set ds. \<exists>ls. r \<in> set ls \<and> set ls \<subseteq> set logs \<and> emitted A d ls" if p: "r \<in> set rs" for r
  proof -
    obtain k i where k: "(k, i) \<in> set m'" "from_registry A k i r" using p e(5) by blast
    then obtain d b where db: "d \<in> set ds" "b \<in> set bs" "deposit_key_of d = k" "matches_deposit i d" "bridge_log A d b"
      using entry by blast
    obtain l where l: "l \<in> set es" "from_identity A (deposit_key_of d) i l" using e(2) [OF k(1)] db(3) by blast
    show ?thesis
      using emitted_from(2) [OF db(5,4) l(2) t(1) [OF l(1)] k(2) [folded db(3)] t(2) [OF p]] db(1,2) l(1) p sub
      by (intro bexI [of _ d] exI [of _ "[b, l, r]"]) auto
  qed
  show ?thesis
  proof (intro conjI ballI)
    show "\<exists>ls. set ls \<subseteq> set logs \<and> emitted A d ls" if "d \<in> set ds" for d using b [OF that] all [OF that] by blast
    show "\<exists>d \<in> set ds. \<exists>ls. l \<in> set ls \<and> set ls \<subseteq> set logs \<and> emitted A d ls" if "l \<in> set logs" for l
      using that f(4) b' all identity registry by blast
  qed
qed

text \<open>What the bridge contract records is readable.\<close>

lemma contract_log_readable:
  assumes "contract_log H cid bridge d" "\<not> all_zero (asset_of d) \<or> dl_erc20_identity d = None"
  shows "readable_deposit d"
  using assms
  by (auto simp: contract_log_def native_log_def erc20_log_def readable_deposit_def all_zero_replicate asset_of_def
      identity_asset_id_def split: option.splits erc20_deposit_identity.splits)

subsection \<open>Properties\<close>

text \<open>
  C18: The deposits that the gateway reads are those that the contract recorded.  From the logs of recorded deposits, native
  or ERC-20, it reads exactly these deposits, each with the identity in its events and the place of its deposit event.
  And whatever the logs are, every deposit that is read has its events among them, in one transaction and in agreement,
  and every log belongs to a deposit that is read.
\<close>

theorem deposit_events_exact:
  assumes "signatures_differ A"
  shows "(list_all2 (emitted A) recorded lss \<and> list_all readable_deposit recorded \<and> distinct (map deposit_key_of recorded) \<longrightarrow>
      bridge_deposit_logs A (Inr (concat lss)) = Inr recorded) \<and>
    (bridge_deposit_logs A (Inr logs) = Inr ds \<longrightarrow>
      (\<forall>d \<in> set ds. \<exists>ls. set ls \<subseteq> set logs \<and> emitted A d ls) \<and>
      (\<forall>l \<in> set logs. \<exists>d \<in> set ds. \<exists>ls. l \<in> set ls \<and> set ls \<subseteq> set logs \<and> emitted A d ls))"
  using recorded_deposits_read [OF assms] read_deposits_emitted [OF assms] by blast

text \<open>A registry deposit and its three logs, which the decoders tell apart by a byte of data.\<close>

definition registry_deposit :: bridge_deposit_log where
  "registry_deposit =
     \<lparr>dl_nonce = 3, dl_deposit_leaf = [1], dl_old_deposit_state = [2], dl_new_deposit_state = [3], dl_token = replicate 20 4,
      dl_sender = replicate 20 5, dl_zeko_recipient = replicate 32 6, dl_amount = 70, dl_zeko_amount = 70, dl_timeout = 0xFFFFFFFF,
      dl_erc20_identity = Some (Registry_V2 (replicate 32 8) 2 (replicate 32 9)), dl_block_number = 100, dl_block_hash = [9],
      dl_transaction_hash = [10], dl_log_index = 0\<rparr>"

definition sample_abi :: deposit_abi where
  "sample_abi =
     \<lparr>sig_bridge_deposit = [0], sig_erc20_deposit = [1], sig_erc20_deposit_v2 = [2],
      decode_bridge_deposit = (\<lambda>l. if lg_data l = [0] then Some (deposit_event registry_deposit) else None),
      decode_erc20_deposit = (\<lambda>l. if lg_data l = [1] then Some (identity_event registry_deposit (replicate 32 8)) else None),
      decode_erc20_deposit_v2 = (\<lambda>l. if lg_data l = [2] then Some (erc20_deposit_event.extend
        (identity_event registry_deposit (replicate 32 8)) (erc20_deposit_event_v2.fields 2 2 (replicate 32 9))) else None)\<rparr>"

definition sample_log :: "u8 \<Rightarrow> eth_log" where
  "sample_log k = \<lparr>lg_topics = [[k]], lg_data = [k], lg_block_number = Some 100, lg_block_hash = Some [9],
     lg_transaction_hash = Some [10], lg_log_index = Some 0\<rparr>"

theorem deposit_events_exact_witness:
  "bridge_deposit_logs sample_abi (Inr [sample_log 0, sample_log 1, sample_log 2]) = Inr [registry_deposit] \<and>
   emitted sample_abi registry_deposit [sample_log 0, sample_log 1, sample_log 2]"
proof -
  have s: "signatures_differ sample_abi" by (simp add: signatures_differ_def sample_abi_def)
  have b: "bridge_log sample_abi registry_deposit (sample_log 0)"
    by (simp add: bridge_log_def sample_abi_def sample_log_def topic0_def) (simp add: registry_deposit_def)
  have e: "identity_log sample_abi registry_deposit (replicate 32 8) (sample_log 1)"
    by (simp add: identity_log_def sample_abi_def sample_log_def topic0_def) (simp add: registry_deposit_def)
  have r: "registry_log sample_abi registry_deposit (replicate 32 8) 2 (replicate 32 9) (sample_log 2)"
    by (simp add: registry_log_def sample_abi_def sample_log_def topic0_def base_event_def ERC20_ACTION_ENCODING_V2_def
        erc20_deposit_event.defs erc20_deposit_event_v2.defs identity_event_def) (simp add: registry_deposit_def)
  have i: "dl_erc20_identity registry_deposit = Some (Registry_V2 (replicate 32 8) 2 (replicate 32 9))"
    by (simp add: registry_deposit_def)
  have em: "emitted sample_abi registry_deposit [sample_log 0, sample_log 1, sample_log 2]"
    using b e r by (simp add: emitted_def i)
  have "readable_deposit registry_deposit"
    by (simp add: readable_deposit_def registry_deposit_def all_zero_def list_all_iff)
  then show ?thesis
    using em deposit_events_exact [OF s, of "[registry_deposit]" "[[sample_log 0, sample_log 1, sample_log 2]]"] by simp
qed

end
