(* ===== verification/Ethereum_Client.thy ===== *)
theory Ethereum_Client
  imports Rpc_Transport Event_Logs
begin

text \<open>
  The client of \<open>api/src/ethereum.rs\<close>: reads of the contracts that are pinned to one block hash, the tokens of archived
  withdrawals, and the broadcast of a prepared transaction down to the requests of \<open>Rpc_Transport\<close>.  What the node answers
  may change from one request to the next: every getter takes the number of the request.
\<close>

subsection \<open>Pinned reads of the contracts\<close>

type_synonym 'v getter = "nat \<Rightarrow> bytes \<Rightarrow> call_error + 'v"

record settlement_getters =
  sg_program_vkey :: "string getter"
  sg_vk_hash :: "bytes getter"
  sg_action_state :: "bytes getter"
  sg_current_root :: "bytes getter"
  sg_outer_state :: "bytes list getter"
  sg_outer_action_state_length :: "u32 getter"
  sg_batch_sequence :: "u64 getter"

definition settlement_state_at :: "settlement_getters \<Rightarrow> nat \<Rightarrow> bytes \<Rightarrow> call_error + settlement_state" where
  "settlement_state_at G n h =
     read_pinned_snapshot (
       and_then (sg_program_vkey G n h) (\<lambda>program_vkey.
       and_then (sg_vk_hash G (n + 1) h) (\<lambda>vk_hash.
       and_then (sg_action_state G (n + 2) h) (\<lambda>action_state.
       and_then (sg_current_root G (n + 3) h) (\<lambda>current_root.
       and_then (sg_outer_state G (n + 4) h) (\<lambda>outer_state.
       and_then (sg_outer_action_state_length G (n + 5) h) (\<lambda>len.
       and_then (sg_batch_sequence G (n + 6) h) (\<lambda>batch_sequence.
       Inr \<lparr>ss_program_vkey = program_vkey, ss_vk_hash = vk_hash, ss_action_state = action_state,
         ss_current_root = current_root, ss_outer_state = outer_state, ss_outer_action_state_length = len,
         ss_batch_sequence = batch_sequence\<rparr>))))))))"

text \<open>\<open>settlement_state_at_latest\<close> and \<open>settlement_state_at_finalized\<close>, by the block of the tag.\<close>

definition settlement_state_at_tag ::
  "settlement_getters \<Rightarrow> nat \<Rightarrow> call_error + block_ref \<Rightarrow> call_error + block_ref \<times> settlement_state" where
  "settlement_state_at_tag G n tagged =
     and_then tagged (\<lambda>block. and_then (settlement_state_at G n (br_hash block)) (\<lambda>state. Inr (block, state)))"

record bridge_getters =
  bg_program_vkey :: "string getter"
  bg_deposit_state_by_nonce :: "u64 \<Rightarrow> bytes getter"
  bg_deposit_nonce :: "u64 getter"
  bg_current_deposit_state :: "bytes getter"
  bg_bridged_deposit_nonce :: "u64 getter"
  bg_processed_action_state :: "bytes \<Rightarrow> bool getter"
  bg_paused :: "bool getter"

definition optional_read :: "('a \<Rightarrow> call_error + 'b) \<Rightarrow> 'a option \<Rightarrow> call_error + 'b option" where
  "optional_read f x = (case x of None \<Rightarrow> Inr None | Some a \<Rightarrow> and_then (f a) (\<lambda>y. Inr (Some y)))"

definition bridge_state_at ::
  "bridge_getters \<Rightarrow> nat \<Rightarrow> bytes \<Rightarrow> u64 option \<Rightarrow> bytes option \<Rightarrow> call_error + bridge_state \<times> bytes option" where
  "bridge_state_at G n h nonce action_state_after =
     read_pinned_snapshot (
       and_then (bg_program_vkey G n h) (\<lambda>program_vkey.
       and_then (optional_read (\<lambda>k. bg_deposit_state_by_nonce G k (n + 1) h) nonce) (\<lambda>historical.
       and_then (bg_deposit_nonce G (n + 2) h) (\<lambda>deposit_nonce.
       and_then (bg_current_deposit_state G (n + 3) h) (\<lambda>current_deposit_state.
       and_then (bg_bridged_deposit_nonce G (n + 4) h) (\<lambda>bridged_deposit_nonce.
       and_then (optional_read (\<lambda>a. bg_processed_action_state G a (n + 5) h) action_state_after) (\<lambda>processed.
       and_then (bg_paused G (n + 6) h) (\<lambda>paused.
       Inr (\<lparr>bs_program_vkey = program_vkey, bs_deposit_nonce = deposit_nonce, bs_current_deposit_state = current_deposit_state,
         bs_bridged_deposit_nonce = bridged_deposit_nonce, bs_action_state_processed = processed, bs_paused = paused\<rparr>,
         historical)))))))))"

definition configured_program_vkeys ::
  "settlement_getters \<Rightarrow> bridge_getters \<Rightarrow> nat \<Rightarrow> call_error + block_ref \<Rightarrow> call_error + string \<times> string" where
  "configured_program_vkeys G B n latest =
     and_then latest (\<lambda>block. read_pinned_snapshot (
       and_then (sg_program_vkey G n (br_hash block)) (\<lambda>settlement_vkey.
       and_then (bg_program_vkey B (n + 1) (br_hash block)) (\<lambda>bridge_vkey. Inr (settlement_vkey, bridge_vkey)))))"

text \<open>Every answer for a hash is the value at that block: the node either answers for the pinned block or fails.\<close>

definition pinned_to :: "(bytes \<Rightarrow> 'v) \<Rightarrow> 'v getter \<Rightarrow> bool" where
  "pinned_to v g \<longleftrightarrow> (\<forall>n h x. g n h = Inr x \<longrightarrow> x = v h)"

lemma settlement_snapshot:
  assumes "settlement_state_at G n h = Inr s"
    and "pinned_to (ss_program_vkey \<circ> at) (sg_program_vkey G)" "pinned_to (ss_vk_hash \<circ> at) (sg_vk_hash G)"
    and "pinned_to (ss_action_state \<circ> at) (sg_action_state G)" "pinned_to (ss_current_root \<circ> at) (sg_current_root G)"
    and "pinned_to (ss_outer_state \<circ> at) (sg_outer_state G)"
    and "pinned_to (ss_outer_action_state_length \<circ> at) (sg_outer_action_state_length G)"
    and "pinned_to (ss_batch_sequence \<circ> at) (sg_batch_sequence G)"
  shows "s = at h"
  using assms by (auto simp: settlement_state_at_def res_simps pinned_to_def)

subsection \<open>Tokens of archived withdrawals\<close>

record registry_getters =
  rg_asset_token_by_registry_index :: "u32 \<Rightarrow> bytes getter"
  rg_canonical_token_registered :: "bytes \<Rightarrow> bool getter"
  rg_asset_id_by_token :: "bytes \<Rightarrow> bytes getter"
  rg_registry_index_by_token :: "bytes \<Rightarrow> u32 getter"
  rg_record_commitment_by_token :: "bytes \<Rightarrow> bytes getter"

definition resolve_identity :: "registry_getters \<Rightarrow> nat \<Rightarrow> bytes \<Rightarrow> token_identity \<Rightarrow> call_error + bytes" where
  "resolve_identity G n h i =
     ensure (ti_encoding_version i = ERC20_ACTION_ENCODING_V2) (bail ''unsupported ERC20 withdrawal encoding version'') (
     ensure (\<not> all_zero (ti_record_commitment i)) (bail ''archived ERC20 registry identity is zero'') (
     and_then (rg_asset_token_by_registry_index G (ti_registry_index i) n h) (\<lambda>token.
     ensure (\<not> all_zero token) (bail ''archived ERC20 token is zero'') (
     and_then (rg_canonical_token_registered G token (n + 1) h) (\<lambda>registered.
     ensure registered (bail ''archived ERC20 token is not canonically registered'') (
     and_then (rg_asset_id_by_token G token (n + 2) h) (\<lambda>asset_id.
     ensure (asset_id = ti_asset_id i) (bail ''archived ERC20 asset id does not match Ethereum'') (
     and_then (rg_registry_index_by_token G token (n + 3) h) (\<lambda>index.
     let disagree = bail ''archived ERC20 registry identity does not match Ethereum'' in
     ensure (index = ti_registry_index i) disagree (
     and_then (rg_record_commitment_by_token G token (n + 4) h) (\<lambda>commitment.
     ensure (commitment = ti_record_commitment i) disagree (Inr token))))))))))))"

fun resolve_identities ::
  "registry_getters \<Rightarrow> nat \<Rightarrow> bytes \<Rightarrow> token_identity list \<Rightarrow> call_error + (token_identity \<Rightarrow> bytes option)" where
  "resolve_identities G n h [] = Inr (\<lambda>_. None)"
| "resolve_identities G n h (i # is) =
     and_then (resolve_identity G n h i) (\<lambda>token.
     and_then (resolve_identities G (n + 5) h is) (\<lambda>resolved. Inr (resolved(i \<mapsto> token))))"

text \<open>The identities go through a hash set: \<open>order\<close> lists them in its order, each of them once.\<close>

definition resolve_token_withdrawal_identities ::
  "registry_getters \<Rightarrow> nat \<Rightarrow> (token_identity list \<Rightarrow> token_identity list) \<Rightarrow> call_error + block_ref \<Rightarrow>
   token_identity list \<Rightarrow> call_error + (token_identity \<Rightarrow> bytes option)" where
  "resolve_token_withdrawal_identities G n order latest is =
     (if is = [] then Inr (\<lambda>_. None)
      else and_then latest (\<lambda>block. read_pinned_snapshot (resolve_identities G n (br_hash block) (order is))))"

text \<open>The registered token of an identity, in a state of the bridge contract.\<close>

record registry_state =
  rv_token :: "u32 \<Rightarrow> bytes"
  rv_registered :: "bytes \<Rightarrow> bool"
  rv_asset_id :: "bytes \<Rightarrow> bytes"
  rv_index :: "bytes \<Rightarrow> u32"
  rv_commitment :: "bytes \<Rightarrow> bytes"

definition registered_token :: "registry_state \<Rightarrow> token_identity \<Rightarrow> bytes option" where
  "registered_token R i =
     (let token = rv_token R (ti_registry_index i) in
      if ti_encoding_version i = ERC20_ACTION_ENCODING_V2 \<and> \<not> all_zero (ti_record_commitment i) \<and> \<not> all_zero token \<and>
        rv_registered R token \<and> rv_asset_id R token = ti_asset_id i \<and> rv_index R token = ti_registry_index i \<and>
        rv_commitment R token = ti_record_commitment i
      then Some token else None)"

definition answers_registry :: "(bytes \<Rightarrow> registry_state) \<Rightarrow> registry_getters \<Rightarrow> bool" where
  "answers_registry R G \<longleftrightarrow> (\<forall>n h k t.
     rg_asset_token_by_registry_index G k n h = Inr (rv_token (R h) k) \<and>
     rg_canonical_token_registered G t n h = Inr (rv_registered (R h) t) \<and>
     rg_asset_id_by_token G t n h = Inr (rv_asset_id (R h) t) \<and> rg_registry_index_by_token G t n h = Inr (rv_index (R h) t) \<and>
     rg_record_commitment_by_token G t n h = Inr (rv_commitment (R h) t))"

lemma resolve_identity_answers:
  assumes "answers_registry R G"
  shows "resolve_identity G n h i = Inr token \<longleftrightarrow> registered_token (R h) i = Some token"
  using assms by (auto simp: answers_registry_def resolve_identity_def registered_token_def res_simps Let_def)

lemma resolve_identities_answers:
  assumes "answers_registry R G" "\<And>i. i \<in> set is \<Longrightarrow> registered_token (R h) i \<noteq> None"
  shows "resolve_identities G n h is = Inr (\<lambda>i. if i \<in> set is then registered_token (R h) i else None)"
  using assms(2)
proof (induction "is" arbitrary: n)
  case (Cons i "is")
  obtain token where t: "registered_token (R h) i = Some token" using Cons.prems [of i] by auto
  have "resolve_identity G n h i = Inr token" using resolve_identity_answers [OF assms(1)] t by blast
  moreover have "resolve_identities G (n + 5) h is = Inr (\<lambda>i. if i \<in> set is then registered_token (R h) i else None)"
    using Cons.prems by (intro Cons.IH) simp
  ultimately show ?case using t by (auto simp: fun_eq_iff)
qed simp

text \<open>
  A node that answers resolves registered identities as \<open>Archive_Leaves\<close> assumes of its parameter.
\<close>

lemma resolve_is_answers:
  assumes "answers_registry R G" "latest = Inr block" "\<And>xs. set (order xs) = set xs"
    and "\<And>i. i \<in> set is \<Longrightarrow> registered_token (R (br_hash block)) i \<noteq> None"
  shows "resolve_token_withdrawal_identities G n order latest is = Inr r \<longleftrightarrow>
    answers (registered_token (R (br_hash block))) is = Inr r"
proof (cases "is = []")
  case False
  then show ?thesis
    using resolve_identities_answers [OF assms(1), of "order is" "br_hash block" n] assms(2-4)
    by (auto simp: resolve_token_withdrawal_identities_def answers_def read_pinned_snapshot_def)
qed (auto simp: resolve_token_withdrawal_identities_def answers_def)

subsection \<open>Blocks, receipts and local verifiers\<close>

text \<open>\<open>block\<close> and \<open>block_at_tag\<close>: the header that the node returns, if any.\<close>

definition block_at :: "string \<Rightarrow> call_error + block_ref option \<Rightarrow> call_error + block_ref" where
  "block_at what r = and_then r (\<lambda>b. expect b (bail (''Ethereum RPC did not return the '' @ what @ '' block'')))"

record node_receipt =
  nr_block_number :: "u64 option"
  nr_block_hash :: "bytes option"
  nr_gas_used :: u64
  nr_status :: bool

record receipt_ref =
  rf_block_number :: u64
  rf_block_hash :: bytes
  rf_gas_used :: u64
  rf_succeeded :: bool

definition get_transaction_receipt ::
  "(string \<Rightarrow> bytes option) \<Rightarrow> (bytes \<Rightarrow> call_error + node_receipt option) \<Rightarrow> string \<Rightarrow> call_error + receipt_ref option" where
  "get_transaction_receipt parse_b256 get transaction_hash =
     and_then (expect (parse_b256 transaction_hash) (bail ''invalid Ethereum transaction hash'')) (\<lambda>h.
     and_then (get h) (\<lambda>r. case r of
         None \<Rightarrow> Inr None
       | Some r \<Rightarrow>
           and_then (expect (nr_block_number r) (bail ''Ethereum receipt is not included in a block'')) (\<lambda>number.
           and_then (expect (nr_block_hash r) (bail ''Ethereum receipt has no block hash'')) (\<lambda>block.
           Inr (Some \<lparr>rf_block_number = number, rf_block_hash = block, rf_gas_used = nr_gas_used r, rf_succeeded = nr_status r\<rparr>)))))"

definition local_mock_chain_allowed :: "u64 \<Rightarrow> bool \<Rightarrow> bool" where
  "local_mock_chain_allowed chain_id unsafe_allow_mock_on_sepolia \<longleftrightarrow>
     chain_id = 31337 \<or> (chain_id = 11155111 \<and> unsafe_allow_mock_on_sepolia)"

definition ensure_local_mock_verifiers ::
  "call_error + u64 \<Rightarrow> call_error + bytes \<Rightarrow> call_error + bytes \<Rightarrow> (bytes \<Rightarrow> call_error + bool) \<Rightarrow> bool \<Rightarrow> call_error + unit" where
  "ensure_local_mock_verifiers chain_id settlement_verifier bridge_verifier is_local_verifier unsafe_allow_mock_on_sepolia =
     and_then chain_id (\<lambda>cid.
     ensure (local_mock_chain_allowed cid unsafe_allow_mock_on_sepolia)
       (bail ''API_LOCAL_MOCK_SUBMIT is restricted to chain ID 31337 unless API_UNSAFE_ALLOW_MOCK_ON_SEPOLIA=true is explicitly set on Sepolia'') (
     and_then settlement_verifier (\<lambda>s.
     and_then bridge_verifier (\<lambda>b.
     ensure (s = b) (bail ''local settlement and bridge verifiers must be identical'') (
     and_then (case is_local_verifier s of Inl e \<Rightarrow> Inl (e\<lparr>ce_message := ''configured verifier is not LocalSP1Verifier''\<rparr>) | Inr x \<Rightarrow> Inr x)
       (\<lambda>is_local. ensure is_local (bail ''configured verifier is not LocalSP1Verifier'') (Inr ())))))))"

subsection \<open>Submissions\<close>

text \<open>
  The signed transaction of a proof.  The signer, the simulation of the call and the fillers of the wallet are parameters;
  the keys are those of the two contracts.
\<close>

record submission_wallet =
  sw_key :: "proof_kind \<Rightarrow> string"
  sw_parse_key :: "string \<Rightarrow> bytes option"
  sw_simulate :: "proof_kind \<Rightarrow> bytes \<Rightarrow> bytes \<Rightarrow> bytes \<Rightarrow> call_error + unit"
  sw_fill :: "proof_kind \<Rightarrow> bytes \<Rightarrow> bytes \<Rightarrow> bytes \<Rightarrow> call_error + (bytes \<times> u64) option"
  sw_address :: "bytes \<Rightarrow> string"
  sw_hex :: "bytes \<Rightarrow> string"

definition prepare_submission ::
  "(bytes \<Rightarrow> bytes) \<Rightarrow> submission_wallet \<Rightarrow> proof_kind \<Rightarrow> bytes \<Rightarrow> bytes \<Rightarrow> call_error + prepared_submission" where
  "prepare_submission keccak W kind public_values snark =
     and_then (expect (sw_parse_key W (sw_key W kind)) (bail ''invalid Ethereum private key'')) (\<lambda>signer.
     and_then (case sw_simulate W kind signer public_values snark of
         Inl e \<Rightarrow> Inl (e\<lparr>ce_message := (case kind of Settlement \<Rightarrow> ''simulate settlement submission'' | Bridge \<Rightarrow> ''simulate bridge submission'')\<rparr>)
       | Inr x \<Rightarrow> Inr x) (\<lambda>_.
     and_then (sw_fill W kind signer public_values snark) (\<lambda>envelope.
     and_then (expect envelope (bail ''Ethereum wallet did not produce a signed transaction'')) (\<lambda>(raw, nonce).
     Inr \<lparr>ps_transaction_hash = ''0x'' @ sw_hex W (keccak raw), ps_raw_transaction = ''0x'' @ sw_hex W raw,
       ps_sender = sw_address W signer, ps_nonce = nonce\<rparr>))))"

text \<open>
  A provider call is one operation of the transport.  The environment gives the exchanges of the \<open>n\<close>-th request, its
  timeout, and what its response says; the parameters of a method stand for their encoding.
\<close>

record provider =
  pv_floats :: float_durations
  pv_config :: rpc_config
  pv_exchange :: "nat \<Rightarrow> nat \<Rightarrow> exchange"
  pv_timeout :: "nat \<Rightarrow> nat option"
  pv_error :: "transport_error \<Rightarrow> call_error"
  pv_found :: "response_packet \<Rightarrow> call_error + bool"
  pv_hash :: "response_packet \<Rightarrow> call_error + bytes"

definition packet :: "string \<Rightarrow> bytes \<Rightarrow> request_packet" where
  "packet method params = \<lparr>rq_methods = [method], rq_body = params\<rparr>"

definition provider_call :: "provider \<Rightarrow> nat \<Rightarrow> string \<Rightarrow> bytes \<Rightarrow> (call_error + response_packet) \<times> effect list" where
  "provider_call V n method params =
     (let (r, es) = rpc_call (pv_floats V) (pv_config V) (pv_exchange V n) (pv_timeout V n) (packet method params)
      in (case r of Inl e \<Rightarrow> Inl (pv_error V e) | Inr p \<Rightarrow> Inr p, es))"

definition transaction_seen :: "(string \<Rightarrow> bytes option) \<Rightarrow> provider \<Rightarrow> nat \<Rightarrow> string \<Rightarrow> (call_error + bool) \<times> effect list" where
  "transaction_seen parse_b256 V n transaction_hash =
     (case parse_b256 transaction_hash of
        None \<Rightarrow> (Inl (bail ''invalid Ethereum transaction hash''), [])
      | Some h \<Rightarrow>
          let (r, es) = provider_call V n ''eth_getTransactionByHash'' h in
          case and_then r (pv_found V) of
            Inl e \<Rightarrow> (Inl e, es)
          | Inr True \<Rightarrow> (Inr True, es)
          | Inr False \<Rightarrow> let (r', es') = provider_call V (n + 1) ''eth_getTransactionReceipt'' h in
              (and_then r' (pv_found V), es @ es'))"

definition broadcast_submission ::
  "(bytes \<Rightarrow> bytes) \<Rightarrow> (string \<Rightarrow> bytes option) \<Rightarrow> (string \<Rightarrow> call_error + bytes) \<Rightarrow> provider \<Rightarrow> prepared_submission \<Rightarrow>
   (call_error + bytes) \<times> effect list" where
  "broadcast_submission keccak parse_b256 decode_hex V p =
     (let raw_text = (case strip_0x (ps_raw_transaction p) of Some s \<Rightarrow> s | None \<Rightarrow> ps_raw_transaction p) in
      case parse_b256 (ps_transaction_hash p) of
        None \<Rightarrow> (Inl (bail ''invalid prepared transaction hash''), [])
      | Some h \<Rightarrow> (case decode_hex raw_text of
          Inl e \<Rightarrow> (Inl e, [])
        | Inr raw \<Rightarrow>
            if keccak raw \<noteq> h then (Inl (bail ''prepared Ethereum transaction hash does not match signed bytes''), [])
            else let (seen, es) = transaction_seen parse_b256 V 0 (ps_transaction_hash p) in
              (case seen of
                 Inl e \<Rightarrow> (Inl e, es)
               | Inr True \<Rightarrow> (Inr h, es)
               | Inr False \<Rightarrow>
                   let (r, sent) = provider_call V 2 ''eth_sendRawTransaction'' raw in
                   (case and_then r (pv_hash V) of
                      Inr h' \<Rightarrow> (if h' = h then Inr h else Inl (bail ''RPC returned an unexpected transaction hash''), es @ sent)
                    | Inl e \<Rightarrow> let (again, es') = transaction_seen parse_b256 V 3 (ps_transaction_hash p) in
                        (if again = Inr True then Inr h else Inl e, es @ sent @ es')))))"

text \<open>The requests that are not reads.\<close>

definition sends :: "effect list \<Rightarrow> request_packet list" where
  "sends es = filter (\<lambda>r. \<not> read_only r) (posts es)"

lemma sends_simps [simp]: "sends [] = []" "sends (es @ fs) = sends es @ sends fs"
  by (simp_all add: sends_def)

lemma read_call_sends: "is_read_method m \<Longrightarrow> sends (snd (provider_call V n m params)) = []"
  using call_posts [of "pv_floats V" "pv_config V" "pv_exchange V n" "pv_timeout V n" "packet m params"]
  by (auto simp: sends_def provider_call_def split_beta read_only_def packet_def filter_empty_conv)

lemma send_call_sends:
  "sends (snd (provider_call V n ''eth_sendRawTransaction'' raw)) \<in> {[], [packet ''eth_sendRawTransaction'' raw]}"
proof -
  have r: "\<not> read_only (packet ''eth_sendRawTransaction'' raw)" by (simp add: read_only_def packet_def is_read_method_def)
  obtain k where k: "posts (snd (provider_call V n ''eth_sendRawTransaction'' raw)) = replicate k (packet ''eth_sendRawTransaction'' raw)" "k \<le> 1"
    using call_posts [of "pv_floats V" "pv_config V" "pv_exchange V n" "pv_timeout V n" "packet ''eth_sendRawTransaction'' raw"] r
    by (auto simp: provider_call_def split_beta)
  then show ?thesis using r by (cases k) (auto simp: sends_def)
qed

lemma seen_sends: "sends (snd (transaction_seen parse_b256 V n t)) = []"
proof -
  have m: "is_read_method ''eth_getTransactionByHash''" "is_read_method ''eth_getTransactionReceipt''"
    by (simp_all add: is_read_method_def)
  show ?thesis
    using read_call_sends [OF m(1), of V n] read_call_sends [OF m(2), of V "n + 1"]
    by (auto simp: transaction_seen_def split_beta Let_def split: option.split sum.split bool.split)
qed

text \<open>The bytes of a prepared transaction.\<close>

definition prepared_bytes :: "(string \<Rightarrow> call_error + bytes) \<Rightarrow> prepared_submission \<Rightarrow> call_error + bytes" where
  "prepared_bytes decode_hex p =
     decode_hex (case strip_0x (ps_raw_transaction p) of Some s \<Rightarrow> s | None \<Rightarrow> ps_raw_transaction p)"

definition accepted :: "provider \<Rightarrow> bytes \<Rightarrow> bytes \<Rightarrow> bool" where
  "accepted V raw h \<longleftrightarrow> and_then (fst (provider_call V 2 ''eth_sendRawTransaction'' raw)) (pv_hash V) = Inr h"

subsection \<open>Properties\<close>

text \<open>
  C12: A broadcast sends the stored bytes, at most once, and is confirmed only by the node.  Of everything that a broadcast
  posts only reads are repeated; the one request that is not a read carries the signed bytes of the prepared transaction,
  whose hash is the stored hash.  A hash is returned only for these bytes, and only if the node knew the transaction before,
  accepted it under this hash, or knows it after an answer that left this open.
\<close>

theorem broadcast_sends_stored_bytes:
  assumes "broadcast_submission keccak parse_b256 decode_hex V p = (r, es)"
  shows "(\<forall>q \<in> set (sends es). \<exists>raw. sends es = [q] \<and> q = packet ''eth_sendRawTransaction'' raw \<and> prepared_bytes decode_hex p = Inr raw \<and>
      parse_b256 (ps_transaction_hash p) = Some (keccak raw)) \<and>
    (\<forall>h. r = Inr h \<longrightarrow> (\<exists>raw. prepared_bytes decode_hex p = Inr raw \<and> h = keccak raw \<and> parse_b256 (ps_transaction_hash p) = Some h \<and>
      (fst (transaction_seen parse_b256 V 0 (ps_transaction_hash p)) = Inr True \<or> accepted V raw h \<or>
       fst (transaction_seen parse_b256 V 3 (ps_transaction_hash p)) = Inr True)))"
proof (cases "parse_b256 (ps_transaction_hash p)")
  case (Some h)
  show ?thesis
  proof (cases "prepared_bytes decode_hex p")
    case (Inr raw)
    note send = send_call_sends [of V 2 raw] and seen = seen_sends [of parse_b256 V _ "ps_transaction_hash p"]
    show ?thesis
      using assms Some Inr send seen
      by (auto simp: broadcast_submission_def prepared_bytes_def [symmetric] accepted_def split_beta Let_def
          split: if_splits sum.splits bool.splits)
  qed (use assms Some in \<open>auto simp: broadcast_submission_def prepared_bytes_def [symmetric] Let_def\<close>)
qed (use assms in \<open>auto simp: broadcast_submission_def Let_def\<close>)

text \<open>A node that does not know the transaction and accepts it.\<close>

definition accepting_provider :: provider where
  "accepting_provider =
     \<lparr>pv_floats = sample_floats, pv_config = sample_rpc_config, pv_exchange = (\<lambda>n k. busy_once (Suc k)), pv_timeout = (\<lambda>_. None),
      pv_error = (\<lambda>_. bail ''rpc''), pv_found = (\<lambda>_. Inr False), pv_hash = (\<lambda>_. Inr [7])\<rparr>"

definition sample_prepared :: prepared_submission where
  "sample_prepared = \<lparr>ps_transaction_hash = ''h'', ps_raw_transaction = ''0xab'', ps_sender = [], ps_nonce = 0\<rparr>"

theorem broadcast_sends_stored_bytes_witness:
  "\<exists>es. broadcast_submission (\<lambda>_. [7]) (\<lambda>_. Some [7]) (\<lambda>_. Inr [0xab]) accepting_provider sample_prepared = (Inr [7], es) \<and>
     sends es = [packet ''eth_sendRawTransaction'' [0xab]] \<and> accepted accepting_provider [0xab] [7]"
proof -
  let ?b = "broadcast_submission (\<lambda>_. [7]) (\<lambda>_. Some [7]) (\<lambda>_. Inr [0xab]) accepting_provider sample_prepared"
  have t: "\<not> transient_answer (busy_once (Suc i))" "answer_result (busy_once (Suc i)) = Inr \<lparr>rs_errors = [], rs_body = []\<rparr>" for i
    by (simp_all add: transient_answer_def answer_result_def busy_once_def read_answer_def is_success_def)
  have c: "fst (provider_call accepting_provider n m params) = Inr \<lparr>rs_errors = [], rs_body = []\<rparr>"
    and q: "posts (snd (provider_call accepting_provider n m params)) = [packet m params]" for n m params
    using t execute_final [of "\<lambda>k. busy_once (Suc k)" 0 "packet m params" sample_floats sample_rpc_config]
    by (simp_all add: provider_call_def rpc_call_def execute_request_def accepting_provider_def split_beta)
  have f: "pv_found accepting_provider = (\<lambda>_. Inr False)" "pv_hash accepting_provider = (\<lambda>_. Inr [7])"
    by (simp_all add: accepting_provider_def)
  have seen: "fst (transaction_seen (\<lambda>_. Some [7]) accepting_provider n s) = Inr False" for n s
    by (simp add: transaction_seen_def split_beta Let_def c f)
  have r: "fst ?b = Inr [7]" "snd ?b = snd (transaction_seen (\<lambda>_. Some [7]) accepting_provider 0 (ps_transaction_hash sample_prepared)) @
      snd (provider_call accepting_provider 2 ''eth_sendRawTransaction'' [0xab])"
    by (simp_all add: broadcast_submission_def split_beta Let_def seen c f)
  then have b: "?b = (Inr [7], snd ?b)" by (simp add: prod_eq_iff)
  have "sends (snd ?b) = [packet ''eth_sendRawTransaction'' [0xab]]"
    using q [of 2 "''eth_sendRawTransaction''" "[0xab]"] by (simp add: r(2) seen_sends) (simp add: sends_def read_only_def packet_def is_read_method_def)
  moreover have "accepted accepting_provider [0xab] [7]"
    using broadcast_sends_stored_bytes [OF b] seen
    by (simp add: prepared_bytes_def)
  ultimately show ?thesis using b by blast
qed

end
