(* ===== verification/Prover_Client.thy ===== *)
theory Prover_Client
  imports Settlement_Bundles
begin

text \<open>
  The client of the prover network, \<open>api/src/prover.rs\<close>: quotes, proof requests, finished proofs and their metrics.  The SDK and
  the network are parameters, and so is the decimal parser of 256-bit integers.
\<close>

subsection \<open>Amounts\<close>

definition trim_end_matches :: "char \<Rightarrow> string \<Rightarrow> string" where
  "trim_end_matches c s = rev (dropWhile (\<lambda>d. d = c) (rev s))"

text \<open>An amount of attoPROVE as PROVE, with at most 18 decimals.\<close>

definition format_prove :: "u256 \<Rightarrow> string" where
  "format_prove v =
     (let digits = show_nat (unat v) in
      if length digits \<le> 18
      then trim_end_matches (CHR ''.'') (trim_end_matches (CHR ''0'')
        (''0.'' @ replicate (18 - length digits) (CHR ''0'') @ digits))
      else let split = length digits - 18 in
        trim_end_matches (CHR ''.'') (trim_end_matches (CHR ''0'') (take split digits @ ''.'' @ drop split digits)))"

definition parse_prove :: "(string \<Rightarrow> u256 option) \<Rightarrow> string \<Rightarrow> failure + string" where
  "parse_prove parse_u256 s =
     and_then (expect (parse_u256 s) (plain_failure ''invalid PROVE amount'')) (\<lambda>v. Inr (format_prove v))"

text \<open>The attoPROVE that a text with an optional fraction writes.\<close>

definition atto_of :: "string \<Rightarrow> nat option" where
  "atto_of s =
     (let whole = takeWhile (\<lambda>c. c \<noteq> CHR ''.'') s; fraction = drop 1 (dropWhile (\<lambda>c. c \<noteq> CHR ''.'') s) in
      if whole \<noteq> [] \<and> list_all is_ascii_digit (whole @ fraction) \<and> length fraction \<le> 18
      then Some (decimal_value whole * 10 ^ 18 + decimal_value fraction * 10 ^ (18 - length fraction)) else None)"

lemma trim_end_stop: "c \<noteq> d \<Longrightarrow> trim_end_matches d (xs @ c # ys) = xs @ c # trim_end_matches d ys"
  by (simp add: trim_end_matches_def dropWhile_append)

lemma trim_end_snoc: "trim_end_matches d (xs @ [x]) = (if x = d then trim_end_matches d xs else xs @ [x])"
  by (simp add: trim_end_matches_def)

lemma trim_end_split: "\<exists>k. xs = trim_end_matches d xs @ replicate k d"
proof (induction xs rule: rev_induct)
  case (snoc x xs)
  then obtain k where k: "xs = trim_end_matches d xs @ replicate k d" by blast
  show ?case
  proof (cases "x = d")
    case True
    have h: "trim_end_matches d (xs @ [x]) = trim_end_matches d xs" by (simp add: True trim_end_snoc)
    have "xs @ [d] = trim_end_matches d xs @ replicate (Suc k) d"
      by (subst k) (simp add: replicate_append_same [symmetric])
    then show ?thesis unfolding h unfolding True by blast
  next
    case False
    then show ?thesis by (intro exI [of _ 0]) (simp add: trim_end_snoc)
  qed
qed (simp add: trim_end_matches_def)

lemma foldl_decimal: "foldl (\<lambda>n c. n * 10 + g c) m ys = m * 10 ^ length ys + foldl (\<lambda>n c. n * 10 + g c) (0 :: nat) ys"
proof (induction ys arbitrary: m)
  case (Cons y ys)
  show ?case using Cons [of "m * 10 + g y"] Cons [of "g y"] by (simp add: algebra_simps)
qed simp

lemma decimal_append: "decimal_value (xs @ ys) = decimal_value xs * 10 ^ length ys + decimal_value ys"
  unfolding decimal_value_def foldl_append by (rule foldl_decimal)

lemma decimal_zeros: "decimal_value (replicate k (CHR ''0'')) = 0"
proof -
  have "foldl (\<lambda>n c. n * 10 + (byte_of c - 48)) 0 (replicate k (CHR ''0'')) = (0 :: nat)" by (induction k) simp_all
  then show ?thesis by (simp add: decimal_value_def)
qed

lemma shown_decimal: "list_all is_ascii_digit (show_nat n) \<and> decimal_value (show_nat n) = n"
proof (induction n rule: show_nat.induct)
  case (1 n)
  have d: "is_ascii_digit (digit_char k) \<and> decimal_value [digit_char k] = k" if "k < 10" for k
    using that by (simp add: is_ascii_digit_def digit_char_def decimal_value_def)
  show ?case
  proof (cases "n < 10")
    case False
    then show ?thesis using 1 d [of "n mod 10"] by (simp add: show_nat.simps [of n] decimal_append)
  qed (use d in \<open>simp add: show_nat.simps [of n]\<close>)
qed

lemma atto_of_trimmed:
  assumes "whole \<noteq> []" "list_all is_ascii_digit (whole @ fraction)" "length fraction = 18"
  shows "atto_of (trim_end_matches (CHR ''.'') (trim_end_matches (CHR ''0'') (whole @ CHR ''.'' # fraction))) =
    Some (decimal_value whole * 10 ^ 18 + decimal_value fraction)"
proof -
  obtain k where split: "fraction = trim_end_matches (CHR ''0'') fraction @ replicate k (CHR ''0'')" using trim_end_split by blast
  define f where "f = trim_end_matches (CHR ''0'') fraction"
  have f: "fraction = f @ replicate k (CHR ''0'')" using split by (simp add: f_def)
  have digits: "list_all is_ascii_digit f" "length f + k = 18" using assms(2,3) by (simp_all add: f)
  have k: "18 - length f = k" using digits(2) by simp
  have fraction: "decimal_value fraction = decimal_value f * 10 ^ (18 - length f)"
    unfolding k by (simp add: f decimal_append decimal_zeros)
  have dot: "c \<noteq> CHR ''.''" if "is_ascii_digit c" for c
    using that by (auto simp: is_ascii_digit_def)
  then have whole: "\<And>c. c \<in> set whole \<Longrightarrow> c \<noteq> CHR ''.''" using assms(2) by (auto simp: list_all_iff)
  have t: "trim_end_matches (CHR ''0'') (whole @ CHR ''.'' # fraction) = whole @ CHR ''.'' # f"
    unfolding f_def by (rule trim_end_stop) simp
  show ?thesis
  proof (cases "f = []")
    case True
    have dots: "trim_end_matches (CHR ''.'') (whole @ [CHR ''.'']) = whole"
      using assms(1) whole [of "last whole"] by (cases whole rule: rev_cases) (simp_all add: trim_end_matches_def)
    have parts: "takeWhile (\<lambda>c. c \<noteq> CHR ''.'') whole = whole" "dropWhile (\<lambda>c. c \<noteq> CHR ''.'') whole = []"
      using whole by (auto simp: takeWhile_eq_all_conv dropWhile_eq_Nil_conv)
    show ?thesis
      using assms(1,2) fraction True by (simp add: t dots parts atto_of_def decimal_value_def Let_def)
  next
    case False
    have "trim_end_matches (CHR ''.'') (whole @ CHR ''.'' # f) = whole @ CHR ''.'' # f"
      using False digits(1) dot [of "last f"] by (cases f rule: rev_cases) (simp_all add: trim_end_matches_def)
    moreover have "takeWhile (\<lambda>c. c \<noteq> CHR ''.'') (whole @ CHR ''.'' # f) = whole" "dropWhile (\<lambda>c. c \<noteq> CHR ''.'') (whole @ CHR ''.'' # f) = CHR ''.'' # f"
      using whole by (simp_all add: takeWhile_append2 dropWhile_append2)
    ultimately show ?thesis
      using assms(1,2) fraction digits by (simp add: t atto_of_def Let_def)
  qed
qed

lemma format_prove_exact: "atto_of (format_prove v) = Some (unat v)"
proof (cases "length (show_nat (unat v)) \<le> 18")
  case True
  let ?d = "show_nat (unat v)" and ?z = "replicate (18 - length (show_nat (unat v))) (CHR ''0'')"
  have "atto_of (trim_end_matches (CHR ''.'') (trim_end_matches (CHR ''0'') (''0'' @ CHR ''.'' # (?z @ ?d)))) =
      Some (decimal_value ''0'' * 10 ^ 18 + decimal_value (?z @ ?d))"
  proof (rule atto_of_trimmed)
    have "is_ascii_digit (CHR ''0'')" by (simp add: is_ascii_digit_def)
    then show "list_all is_ascii_digit (''0'' @ ?z @ ?d)"
      using shown_decimal [of "unat v"] by (auto simp: list_all_iff)
  qed (use True in simp_all)
  then show ?thesis
    using True shown_decimal [of "unat v"] by (simp add: format_prove_def Let_def decimal_append decimal_zeros) (simp add: decimal_value_def)
next
  case False
  let ?d = "show_nat (unat v)"
  let ?k = "length ?d - 18"
  have "atto_of (trim_end_matches (CHR ''.'') (trim_end_matches (CHR ''0'') (take ?k ?d @ CHR ''.'' # drop ?k ?d))) =
      Some (decimal_value (take ?k ?d) * 10 ^ 18 + decimal_value (drop ?k ?d))"
    using False shown_decimal [of "unat v"] by (intro atto_of_trimmed) simp_all
  moreover have "decimal_value ?d = decimal_value (take ?k ?d) * 10 ^ 18 + decimal_value (drop ?k ?d)"
    using decimal_append [of "take ?k ?d" "drop ?k ?d"] False by simp
  ultimately show ?thesis using False shown_decimal [of "unat v"] by (simp add: format_prove_def Let_def)
qed

subsection \<open>Quotes\<close>

datatype proof_mode = Groth16 | Plonk

definition mode_of :: "string \<Rightarrow> failure + proof_mode" where
  "mode_of system =
     (if system = ''groth16'' then Inr Groth16 else if system = ''plonk'' then Inr Plonk
      else Inl (plain_failure (''unsupported proof system: '' @ system)))"

record auction_params =
  ap_base_fee :: string
  ap_max_price_per_pgu :: string

text \<open>The answer of the network to a request for the parameters of a mode: an auction, or something else.\<close>

type_synonym pricing = "proof_mode \<Rightarrow> failure + auction_params option"

record quote_response =
  aq_proof_system :: string
  aq_base_fee_atto_prove :: string
  aq_base_fee_prove :: string
  aq_network_max_price_per_pgu :: string
  aq_approved_max_pgu :: string
  aq_approved_max_price_per_pgu :: string
  aq_maximum_cost_atto_prove :: string
  aq_maximum_cost_prove :: string

definition saturating_add_u256 :: "u256 \<Rightarrow> u256 \<Rightarrow> u256" where
  "saturating_add_u256 a b = (case checked_add a b of Some c \<Rightarrow> c | None \<Rightarrow> - 1)"

definition saturating_mul_u256 :: "u256 \<Rightarrow> u256 \<Rightarrow> u256" where
  "saturating_mul_u256 a b = (if unat a * unat b < 2 ^ 256 then a * b else - 1)"

definition saturating_sub_u256 :: "u256 \<Rightarrow> u256 \<Rightarrow> u256" where
  "saturating_sub_u256 a b = (if b \<le> a then a - b else 0)"

text \<open>\<open>str::parse::<u64>\<close>.\<close>

definition parse_price :: "string \<Rightarrow> u64 option" where
  "parse_price s =
     (let digits = (if s \<noteq> [] \<and> hd s = CHR ''+'' then tl s else s) in
      if digits = [] then None
      else case parse_digits 0 digits of None \<Rightarrow> None | Some n \<Rightarrow> if n < 2 ^ 64 then Some (word_of_nat n) else None)"

text \<open>The price of the network is read even when a price was approved: the argument of \<open>unwrap_or\<close> is evaluated first.\<close>

definition auction_quote ::
  "(string \<Rightarrow> u256 option) \<Rightarrow> pricing \<Rightarrow> string \<Rightarrow> u64 \<Rightarrow> u64 option \<Rightarrow> failure + quote_response" where
  "auction_quote parse_u256 network system max_pgu approved_max_price_per_pgu =
     and_then (mode_of system) (\<lambda>mode.
     and_then (network mode) (\<lambda>params.
     and_then (expect params (plain_failure ''auction pricing is unavailable'')) (\<lambda>params.
     and_then (expect (parse_u256 (ap_base_fee params)) (plain_failure ''invalid network base fee'')) (\<lambda>base_fee.
     and_then (expect (parse_u256 (ap_max_price_per_pgu params)) (plain_failure ''invalid network max price per PGU'')) (\<lambda>network_max_price.
     and_then (expect (parse_price (ap_max_price_per_pgu params))
       (plain_failure ''network max price per PGU does not fit the SP1 SDK u64 cap'')) (\<lambda>network_cap.
     let price = (case approved_max_price_per_pgu of Some p \<Rightarrow> p | None \<Rightarrow> network_cap);
         maximum_cost = saturating_add_u256 base_fee (saturating_mul_u256 (ucast max_pgu) (ucast price)) in
     Inr \<lparr>aq_proof_system = system, aq_base_fee_atto_prove = show_nat (unat base_fee), aq_base_fee_prove = format_prove base_fee,
       aq_network_max_price_per_pgu = show_nat (unat network_max_price), aq_approved_max_pgu = show_nat (unat max_pgu),
       aq_approved_max_price_per_pgu = show_nat (unat price), aq_maximum_cost_atto_prove = show_nat (unat maximum_cost),
       aq_maximum_cost_prove = format_prove maximum_cost\<rparr>))))))"

subsection \<open>Requests and proofs\<close>

record network_request_config = prover_limits +
  nc_timeout :: nat
  nc_min_auction_period :: u64

record 'p network_request =
  nr_kind :: proof_kind
  nr_stdin :: "'p guest_stdin"
  nr_mode :: proof_mode
  nr_timeout :: nat
  nr_min_auction_period :: u64
  nr_gas_limit :: "u64 option"
  nr_skip_simulation :: bool
  nr_max_price_per_pgu :: "u64 option"

record request_status =
  st_cycles :: "u64 option"
  st_gas_used :: "u64 option"
  st_base_fee :: "string option"
  st_max_price_per_pgu :: "string option"
  st_deduction_amount :: "string option"
  st_refund_amount :: "string option"

text \<open>A finished proof is its bytes and public values.  The setup of a program yields its keys.\<close>

record 'p prover_network =
  pn_setup :: "proof_kind \<Rightarrow> failure + unit"
  pn_request :: "'p network_request \<Rightarrow> failure + string"
  pn_wait :: "bytes \<Rightarrow> failure + bytes \<times> bytes"
  pn_verify :: "proof_kind \<Rightarrow> bytes \<times> bytes \<Rightarrow> failure + unit"
  pn_status :: "bytes \<Rightarrow> failure + request_status option"

definition with_context :: "string \<Rightarrow> failure + 'a \<Rightarrow> failure + 'a" where
  "with_context message r = (case r of Inl e \<Rightarrow> Inl (e\<lparr>fl_message := message\<rparr>) | Inr x \<Rightarrow> Inr x)"

definition request_proof ::
  "('k, 'p) pickles_host \<Rightarrow> 'p prover_network \<Rightarrow> proof_kind \<Rightarrow> prover_input \<Rightarrow> string \<Rightarrow> network_request_config \<Rightarrow> failure + string" where
  "request_proof P N kind input system config =
     and_then (stdin_for P kind input) (\<lambda>stdin.
     and_then (with_context ''setup SP1 program'' (pn_setup N kind)) (\<lambda>_.
     and_then (mode_of system) (\<lambda>mode.
     with_context ''request SP1 Network proof'' (pn_request N
       \<lparr>nr_kind = kind, nr_stdin = stdin, nr_mode = mode, nr_timeout = nc_timeout config,
        nr_min_auction_period = nc_min_auction_period config, nr_gas_limit = pl_gas_limit config,
        nr_skip_simulation = (pl_gas_limit config \<noteq> None), nr_max_price_per_pgu = pl_max_price_per_pgu config\<rparr>))))"

definition wait_proof ::
  "(string \<Rightarrow> bytes option) \<Rightarrow> 'p prover_network \<Rightarrow> proof_kind \<Rightarrow> string \<Rightarrow> failure + bytes \<times> bytes" where
  "wait_proof parse_b256 N kind request_id =
     and_then (expect (parse_b256 request_id) (plain_failure ''invalid SP1 proof request id'')) (\<lambda>h.
     and_then (with_context ''wait for SP1 Network proof'' (pn_wait N h)) (\<lambda>finished.
     and_then (with_context ''setup SP1 program'' (pn_setup N kind)) (\<lambda>_.
     and_then (with_context ''verify generated SP1 proof'' (pn_verify N kind finished)) (\<lambda>_. Inr finished))))"

record metrics_response =
  rm_cycles :: "u64 option"
  rm_prover_gas :: "u64 option"
  rm_base_fee_prove :: "string option"
  rm_max_price_per_pgu :: "string option"
  rm_actual_cost_prove :: "string option"

definition optional_with :: "('a \<Rightarrow> failure + 'b) \<Rightarrow> 'a option \<Rightarrow> failure + 'b option" where
  "optional_with f m = (case m of None \<Rightarrow> Inr None | Some x \<Rightarrow> and_then (f x) (\<lambda>y. Inr (Some y)))"

definition actual_cost :: "(string \<Rightarrow> u256 option) \<Rightarrow> request_status \<Rightarrow> failure + string option" where
  "actual_cost parse_u256 s =
     (case st_deduction_amount s of
        None \<Rightarrow> Inr None
      | Some deduction \<Rightarrow>
          and_then (expect (parse_u256 deduction) (plain_failure ''invalid network deduction amount'')) (\<lambda>deduction.
          and_then (optional_with (\<lambda>r. expect (parse_u256 r) (plain_failure ''invalid network refund amount''))
            (st_refund_amount s)) (\<lambda>refund.
          Inr (Some (format_prove (saturating_sub_u256 deduction (case refund of Some r \<Rightarrow> r | None \<Rightarrow> 0)))))))"

definition request_metrics ::
  "(string \<Rightarrow> bytes option) \<Rightarrow> (string \<Rightarrow> u256 option) \<Rightarrow> 'p prover_network \<Rightarrow> string \<Rightarrow> failure + metrics_response" where
  "request_metrics parse_b256 parse_u256 N request_id =
     and_then (expect (parse_b256 request_id) (plain_failure ''invalid SP1 proof request id'')) (\<lambda>h.
     and_then (pn_status N h) (\<lambda>status.
     case status of
       None \<Rightarrow> Inr \<lparr>rm_cycles = None, rm_prover_gas = None, rm_base_fee_prove = None, rm_max_price_per_pgu = None,
         rm_actual_cost_prove = None\<rparr>
     | Some s \<Rightarrow>
         and_then (actual_cost parse_u256 s) (\<lambda>cost.
         and_then (optional_with (parse_prove parse_u256) (st_base_fee s)) (\<lambda>base_fee.
         and_then (optional_with (parse_prove parse_u256) (st_max_price_per_pgu s)) (\<lambda>max_price.
         Inr \<lparr>rm_cycles = st_cycles s, rm_prover_gas = st_gas_used s, rm_base_fee_prove = base_fee, rm_max_price_per_pgu = max_price,
           rm_actual_cost_prove = cost\<rparr>)))))"

subsection \<open>Properties\<close>

lemma quoted_cost:
  "unat (saturating_add_u256 a (saturating_mul_u256 (ucast (m :: u64)) (ucast (p :: u64)))) = min (2 ^ 256 - 1) (unat a + unat m * unat p)"
proof -
  have u: "unat (ucast x :: u256) = unat x" for x :: u64
  proof -
    have "unat x < 2 ^ 64" using unat_less_pow [of x] by simp
    also have "\<dots> < 2 ^ 256" by simp
    finally show ?thesis by (simp add: unsigned_ucast_eq take_bit_nat_eq_self)
  qed
  have "unat m * unat p < 2 ^ 64 * 2 ^ 64"
    using unat_less_pow [of m] unat_less_pow [of p] by (intro mult_strict_mono) simp_all
  also have "\<dots> < 2 ^ 256" by simp
  finally have l: "unat m * unat p < 2 ^ 256" .
  then have "unat (saturating_mul_u256 (ucast m) (ucast p)) = unat m * unat p"
    by (simp add: saturating_mul_u256_def u unat_word_ariths)
  moreover have "unat (saturating_add_u256 a b) = min (2 ^ 256 - 1) (unat a + unat b)" for b
  proof -
    have "unat (- 1 :: u256) = 2 ^ 256 - 1" by (simp add: unsigned_minus_1_eq_mask mask_eq_exp_minus_1)
    then show ?thesis by (auto simp: saturating_add_u256_def checked_add_def unat_word_ariths min_def)
  qed
  ultimately show ?thesis by simp
qed

lemma quote_given:
  assumes "mode_of system = Inr mode" "network mode = Inr (Some params)" "parse_u256 (ap_base_fee params) = Some base_fee"
    and "parse_u256 (ap_max_price_per_pgu params) = Some max_price" "parse_price (ap_max_price_per_pgu params) = Some cap"
  shows "\<exists>q. auction_quote parse_u256 network system max_pgu approved = Inr q"
  using assms by (simp add: auction_quote_def and_then_def expect_def Let_def)

text \<open>
  C32: A quote states the largest cost of a proof exactly.  It is the base fee plus the cap on the gas times the price, which
  never wraps and is cut only at the largest 256-bit number; the price is the approved one, or that of the network.  The
  amounts in PROVE are the amounts in attoPROVE divided by ten to the eighteenth, with no digit lost.
\<close>

theorem quote_exact:
  assumes "auction_quote parse_u256 network system max_pgu approved = Inr q"
  shows "\<exists>mode params base_fee cap. network mode = Inr (Some params) \<and> parse_u256 (ap_base_fee params) = Some base_fee \<and>
    parse_price (ap_max_price_per_pgu params) = Some cap \<and>
    (let cost = min (2 ^ 256 - 1) (unat base_fee + unat max_pgu * unat (case approved of Some p \<Rightarrow> p | None \<Rightarrow> cap)) in
     parse_digits 0 (aq_maximum_cost_atto_prove q) = Some cost \<and> atto_of (aq_maximum_cost_prove q) = Some cost \<and>
     parse_digits 0 (aq_base_fee_atto_prove q) = Some (unat base_fee) \<and> atto_of (aq_base_fee_prove q) = Some (unat base_fee))"
proof -
  obtain mode params base_fee cap where q: "network mode = Inr (Some params)" "parse_u256 (ap_base_fee params) = Some base_fee"
    "parse_price (ap_max_price_per_pgu params) = Some cap"
    "aq_maximum_cost_atto_prove q = show_nat (unat (saturating_add_u256 base_fee (saturating_mul_u256 (ucast max_pgu)
      (ucast (case approved of Some p \<Rightarrow> p | None \<Rightarrow> cap)))))"
    "aq_maximum_cost_prove q = format_prove (saturating_add_u256 base_fee (saturating_mul_u256 (ucast max_pgu)
      (ucast (case approved of Some p \<Rightarrow> p | None \<Rightarrow> cap))))"
    "aq_base_fee_atto_prove q = show_nat (unat base_fee)" "aq_base_fee_prove q = format_prove base_fee"
    using assms by (auto simp: auction_quote_def res_simps Let_def)
  then show ?thesis
    unfolding Let_def quoted_cost [symmetric]
    by (intro exI [of _ mode] exI [of _ params] exI [of _ base_fee] exI [of _ cap] conjI)
      (simp_all only: parse_digits_show_nat format_prove_exact)
qed

text \<open>A base fee of fifteen attoPROVE, and three million units of gas at two.\<close>

definition sample_pricing :: pricing where
  "sample_pricing _ = Inr (Some \<lparr>ap_base_fee = ''15'', ap_max_price_per_pgu = ''9''\<rparr>)"

theorem quote_exact_witness:
  "\<exists>q. auction_quote (\<lambda>s. map_option word_of_nat (parse_digits 0 s)) sample_pricing ''groth16'' 3000000 (Some 2) = Inr q \<and>
     atto_of (aq_maximum_cost_prove q) = Some 6000015"
proof -
  have b: "parse_digits 0 ''15'' = Some 15" "parse_digits 0 ''9'' = Some 9" by (simp_all add: digit_value_def)
  have c: "parse_price ''9'' = Some 9" using b(2) by (simp add: parse_price_def del: parse_digits.simps)
  let ?f = "\<lambda>s. map_option word_of_nat (parse_digits 0 s) :: u256 option"
  have "\<exists>q. auction_quote ?f sample_pricing ''groth16'' 3000000 (Some 2) = Inr q"
  proof (rule quote_given)
    show "mode_of ''groth16'' = Inr Groth16" by (simp add: mode_of_def)
    show "sample_pricing Groth16 = Inr (Some \<lparr>ap_base_fee = ''15'', ap_max_price_per_pgu = ''9''\<rparr>)"
      by (simp add: sample_pricing_def)
  qed (simp_all only: auction_params.simps b c option.map)
  then obtain q where q: "auction_quote ?f sample_pricing ''groth16'' 3000000 (Some 2) = Inr q" by blast
  obtain mode params base_fee cap where r: "sample_pricing mode = Inr (Some params)" "?f (ap_base_fee params) = Some base_fee"
    "atto_of (aq_maximum_cost_prove q) =
      Some (min (2 ^ 256 - 1) (unat base_fee + unat (3000000 :: u64) * unat (case Some 2 of Some p \<Rightarrow> p | None \<Rightarrow> (cap :: u64))))"
    using quote_exact [OF q] unfolding Let_def by blast
  have "ap_base_fee params = ''15''" using r(1) by (auto simp: sample_pricing_def)
  then have "base_fee = word_of_nat 15" using r(2) by (simp only: b option.map option.inject)
  then have f: "unat base_fee = 15" by (simp only: unat_of_nat) (simp add: take_bit_nat_eq_self)
  have "unat (3000000 :: u64) = 3000000" "unat (2 :: u64) = 2" by simp_all
  then have "atto_of (aq_maximum_cost_prove q) = Some 6000015"
    unfolding r(3) option.case f by simp
  then show ?thesis using q by blast
qed

end
