(* ===== verification/Spec2Isabelle.thy ===== *)
theory Spec2Isabelle
  imports Gateway_Chain Archive_Leaves Listings Ethereum_Client Prover_Client
begin

text \<open>
  Zeko settles its rollup on Ethereum with two SP1 guest programs and a gateway.  The settlement guest
  verifies a Pickles proof and publishes a receipt; the bridge guest replays Ethereum deposits into
  Zeko's outer action state and publishes a receipt; the gateway orders settlements and bridge batches,
  buys the proofs and submits them.  This development models the guests from the witness to the
  published bytes, the part of the gateway that decides what is proved, paid for and submitted, the indexer that
  follows Ethereum through reorganisations, and the service that turns settled withdrawals into claims.

  \<^bold>\<open>Conventions.\<close>  Structs are records, enums are datatypes, machine integers are words of their width.
  A panic of a guest and an error of the gateway are \<open>Inl\<close> values; \<open>ensure\<close> and \<open>and_then\<close> (\<open>Prelude\<close>)
  sequence the checks in the order of the source.  Keccak-256, the Poseidon permutation and the Pickles
  verifier are parameters (\<open>crypto\<close>, \<open>verify\<close>): nothing is assumed of them except, where stated, the
  length of a digest and the absence of collisions on the finitely many inputs a statement names.

  \<^bold>\<open>Shared theories.\<close>
  \<^item> \<open>Prelude\<close>: words, bytes, results, big-endian conversion; \<open>Utf8_Text\<close>: strings as UTF-8 bytes.
  \<^item> \<open>Mina_Field\<close>: the Pallas base field and prefixed Poseidon hashing (\<open>receipt.rs\<close>, \<open>bridge/main.rs\<close>).
  \<^item> \<open>Merkle\<close>, \<open>Hash_Chain\<close>: locales for node hashes and chained hashes with their binding lemmas.
  \<^item> \<open>Wire\<close>: cursor reads and writes, the locale \<open>codec\<close> of an encoder and decoder.

  \<^bold>\<open>Receipts\<close> (\<open>lib/src/lib.rs\<close>).
  \<^item> \<open>Public_Values\<close>: settlement receipts V1 to V4; round trip, canonicity, no panic.
  \<^item> \<open>Bridge_Receipt\<close>: the bridge receipt, an interpretation of \<open>codec\<close>.
  \<^item> \<open>Inner_Action_Tree\<close>: withdrawal leaves and the depth-16 tree; reference root, proofs, binding.
  \<^item> \<open>Serde_Bytes\<close>: the serde adapters, how byte fields are read from JSON texts, numbers and arrays and written back.

  \<^bold>\<open>Bridge guest\<close> (\<open>program/bridge/src/main.rs\<close>).  \<open>Bridge_Guest\<close>: \<open>deposit_step\<close> is the body of the loop,
  \<open>derive_bridge_transition\<close> the function, \<open>bridge_main\<close> the entry point.  Exactness against
  \<open>bridge_accepts\<close> and \<open>bridge_output\<close>, composition of batches, binding of the accumulator, conservation of
  value, and the native timeout that the code leaves open.

  \<^bold>\<open>Settlement guest\<close> (\<open>program/settlement/src\<close>).
  \<^item> \<open>Account_Update\<close>: body packing and hashing, the call forest, the registry checkpoint call.
  \<^item> \<open>Asset_Registry\<close>: canonical records, appends to the registry tree, the batch root.
  \<^item> \<open>Inner_Action_Replay\<close>: replay of the inner actions into a V2 receipt.
  \<^item> \<open>Settlement_Receipt\<close>: derivation of the receipt and the entry point; exactness, guarantees of V1.

  \<^bold>\<open>Gateway\<close> (\<open>api/src\<close>).
  \<^item> \<open>Gateway_Jobs\<close>: the table of proof jobs and conditional updates (\<open>UPDATE \<dots> WHERE\<close>).
  \<^item> \<open>Outer_Writer\<close>: the row that owns the outer action state (\<open>outer_writer.rs\<close>): leases, fencing,
    admission.
  \<^item> \<open>Submission\<close>: failure classes and retries, sealed proof requests, stored transactions
    (\<open>submission.rs\<close>), admission, approval, cancellation and claiming (\<open>main.rs\<close>).  \<open>evolves\<close> is what any
    statement may do to a row.
  \<^item> \<open>Preflight\<close>: receipts decoded and compared with the contracts before they are paid for or sent.
  \<^item> \<open>Worker\<close>: \<open>process_job\<close> of \<open>main.rs\<close>, cut into its database statements and external calls, and the job
    status that \<open>reconcile_jobs\<close> of \<open>indexer.rs\<close> derives from a receipt.
  \<^item> \<open>Transition_System\<close>: locales for invariants and monotone facts of runs.
  \<^item> \<open>Gateway_System\<close>: the gateway as a step relation over any number of workers, crashes, API requests and
    index updates; its invariant (\<open>system_ok\<close>) and what later states keep (\<open>follows\<close>).
  \<^item> \<open>Gateway_Run\<close>: one purchase per job, one transaction per job, cancelled jobs spend nothing, and a job whose answers
    are favourable is submitted; these are about runs without a reorganisation.
  \<^item> \<open>Zkapp_Admission\<close>: the \<open>sendZkapp\<close> mutation of \<open>graphql.rs\<close>, the second way in for a settlement.
  \<^item> \<open>Gateway_Chain\<close>: the gateway on a chain that is reorganised, with rollbacks, recovery from events and every way in for
    a job.  Nobody is admitted beside an open job, and fenced credentials stay without effect.  After a rollback several
    jobs may be open (\<open>rollback_opens_two\<close>); admission then waits until they are over.

  \<^bold>\<open>Prover\<close> (\<open>api/src/prover.rs\<close>, \<open>script/src/lib.rs\<close>, \<open>main.rs\<close>).  \<open>Settlement_Bundles\<close>: a settlement request from its admission through
  the Ethereum context that the gateway adds to the native preflight; what is hydrated passes validation exactly when its proof starts
  where the contract stands.  \<open>Prover_Client\<close>: quotes, requests, finished proofs and metrics, with exact amounts.

  \<^bold>\<open>Indexer\<close> (\<open>api/src/indexer.rs\<close>).
  \<^item> \<open>Chain_Tables\<close>: the tables kept beside the jobs (blocks, deposits, events, virtual accounts with their
    history, actions, leaves) and \<open>rollback_after\<close>, the transaction that takes them back to a common ancestor.
  \<^item> \<open>Block_Index\<close>: \<open>index_blocks\<close>, which follows the node.  The node is a parameter that may answer every request
    from another chain; \<open>honest\<close> says only that the block returned for a number has that number.  The index is
    always a hash-linked chain, finalized blocks are permanent, and a pass returns.
  \<^item> \<open>Virtual_Accounts\<close>: the application of confirmed settlement and bridge receipts to accounts, actions, deposits and
    leaves; it is idempotent, and a rollback undoes it.
  \<^item> \<open>Explorer_Events\<close>: \<open>index_explorer_events_through\<close>, which stores the events of the contracts range by range; after a
    pass every event up to the head is stored, and a rollback keeps what is below the ancestor.
  \<^item> \<open>Chain_Recovery\<close>: \<open>recover_gateway_state\<close>, \<open>reconcile_jobs\<close> and \<open>tick\<close>, the whole pass.  A pass that opens the gateway has
    applied the receipt of every finalized event, and a settlement rebuilt from Ethereum publishes the proved action.

  \<^bold>\<open>Deposits\<close> (\<open>api/src/main.rs\<close>).  \<open>Deposit_Batch\<close> builds the input of the bridge guest from finalized deposits and queues it.
  Its property spans contract events, index, gateway, guest and preflight: what is queued can be proved and submitted.

  \<^bold>\<open>Withdrawals\<close> (\<open>api/src/main.rs\<close>).  \<open>Withdrawal_Service\<close> serves Merkle proofs from the stored leaves.  Its properties span
  the settlement guest, the indexer and the service: what the guest accepts can be claimed.  \<open>Archive_Leaves\<close>
  (\<open>withdrawal_activity.rs\<close>) rebuilds lost leaves from the Zeko archive; the proofs served afterwards are the same.

  \<^bold>\<open>Explorer and lists\<close> (\<open>api/src/explorer.rs\<close>, \<open>main.rs\<close>).  \<open>Zeko_Address\<close> is the Base58 address codec.  \<open>Paging\<close> holds limits and
  cursors and the locale \<open>listing\<close>: pages over rows with distinct keys, one after the other, list every matching row once.
  \<open>Listings\<close> interprets it for deposits and withdrawals; for transactions the key of the cursor is not distinct, and rows are lost.

  \<^bold>\<open>Ethereum client\<close> (\<open>api/src/ethereum.rs\<close>, \<open>rpc.rs\<close>).
  \<^item> \<open>Rpc_Transport\<close>: which requests are repeated after which failures, how fast they may follow each other, and the snapshots
    that pin a read to one block.  The upstream is a list of answers; a transaction is posted at most once.
  \<^item> \<open>Event_Logs\<close>: decoding of the logs of the contracts into the events that the indexer stores; for the logs that the
    contract emits, the deposits read are the deposits made.
  \<^item> \<open>Ethereum_Client\<close>: snapshot reads of both contracts, registry identities of token withdrawals, preparation and broadcast of
    transactions.  What is broadcast is the stored signed transaction.

  All functions of the guests and of the job table are total; loops over slices are structural recursion, so no fuel is needed.
  The loop over event ranges has a measure.  The two loops of the indexer that follow the node are \<open>partial_function (option)\<close>, where \<open>None\<close> is a run that never
  ends; \<open>index_blocks_returns\<close> excludes it.

  \<^bold>\<open>Not modelled.\<close>  The transport of network and database requests (the answers are arguments), the Pickles verifier
  (\<open>crates/pickles-verifier\<close>, elliptic-curve arithmetic over third-party crates), the prover SDK, the lists of the explorer that
  present blocks, accounts and settlements, its search, the queries of the GraphQL schema, the routing of HTTP requests, the command-line tools, the Solidity
  contracts and the user interfaces.
\<close>

end
